(* ===== verification/Prelude.thy ===== *)
theory Prelude imports Main "HOL-Library.Word" "HOL-Library.Char_ord" "HOL-Library.List_Lexorder" begin

text \<open>
  Shared vocabulary of the development.

  A C function of the platform is a HOL function on explicit state.  Its result is a
  \<open>run\<close>: \<open>Inr x\<close> when control comes back to the caller with \<open>x\<close>, and \<open>Inl h\<close> when it never
  does, because the C code has undefined behaviour at that point (\<open>NullDeref\<close>,
  \<open>OutOfBounds\<close>, ...), loops forever (\<open>Diverges\<close>) or ends the process (\<open>Exited\<close>).
  C return codes stay ordinary integers inside \<open>Inr\<close>.

  The theory also holds the generic lemmas on runs, lists and machine integers that the
  components share, and the C library functions on strings that the sources call.
\<close>

unbundle bit_operations_syntax

section \<open>Machine integers\<close>

type_synonym u8 = "8 word"
type_synonym u16 = "16 word"
type_synonym u32 = "32 word"
type_synonym u64 = "64 word"

lemma unat_u32: "n < 2 ^ 32 \<Longrightarrow> unat (of_nat n :: u32) = n"
  by (simp add: unat_of_nat)

lemma unat_two_power: "k < LENGTH('a) \<Longrightarrow> unat (2 ^ k :: 'a :: len word) = 2 ^ k"
proof -
  assume "k < LENGTH('a)"
  then have "(2 :: nat) ^ k < 2 ^ LENGTH('a)" by (intro power_strict_increasing) simp_all
  moreover have "unat (of_nat (2 ^ k) :: 'a word) = 2 ^ k mod 2 ^ LENGTH('a)"
    by (simp only: unat_of_nat)
  ultimately show ?thesis by simp
qed

text \<open>Addresses of heap objects; a C pointer that may be NULL is an \<open>addr option\<close>.\<close>

type_synonym addr = nat

section \<open>Runs: results of C code\<close>

datatype halt =
    NullDeref
  | OutOfBounds
  | UseAfterFree
  | BadShift
  | Uninitialised
  | Diverges
  | Exited int

type_synonym 'a run = "halt + 'a"

named_theorems run_simps "rules that push a run through sequencing"

fun bind_run :: "'a run \<Rightarrow> ('a \<Rightarrow> 'b run) \<Rightarrow> 'b run" where
  "bind_run (Inl h) f = Inl h"
| "bind_run (Inr x) f = f x"

lemma bind_run_Inr_right [simp, run_simps]: "bind_run m Inr = m"
  by (cases m) auto

lemma bind_run_assoc [run_simps]:
  "bind_run (bind_run m f) g = bind_run m (\<lambda>x. bind_run (f x) g)"
  by (cases m) auto

lemma bind_run_eq_Inr [run_simps]:
  "bind_run m f = Inr y \<longleftrightarrow> (\<exists>x. m = Inr x \<and> f x = Inr y)"
  by (cases m) auto

lemma bind_run_eq_Inl [run_simps]:
  "bind_run m f = Inl h \<longleftrightarrow> m = Inl h \<or> (\<exists>x. m = Inr x \<and> f x = Inl h)"
  by (cases m) auto

lemma bind_run_cong [fundef_cong]:
  "m = m' \<Longrightarrow> (\<And>x. m' = Inr x \<Longrightarrow> f x = f' x) \<Longrightarrow> bind_run m f = bind_run m' f'"
  by (cases m') auto

lemma bind_run_split:
  "P (bind_run m f) \<longleftrightarrow> (\<forall>h. m = Inl h \<longrightarrow> P (Inl h)) \<and> (\<forall>x. m = Inr x \<longrightarrow> P (f x))"
  by (cases m) auto

text \<open>A loop that may not end is an \<open>option\<close>; \<open>None\<close> becomes the halt \<open>Diverges\<close>.\<close>

definition run_of :: "'a run option \<Rightarrow> 'a run" where
  "run_of r = (case r of None \<Rightarrow> Inl Diverges | Some x \<Rightarrow> x)"

lemma run_of_simps [simp, run_simps]: "run_of None = Inl Diverges" "run_of (Some x) = x"
  by (simp_all add: run_of_def)

text \<open>Dereferencing a pointer that may be NULL.\<close>

definition deref :: "'a option \<Rightarrow> 'a run" where
  "deref p = (case p of None \<Rightarrow> Inl NullDeref | Some x \<Rightarrow> Inr x)"

lemma deref_simps [simp, run_simps]: "deref None = Inl NullDeref" "deref (Some x) = Inr x"
  by (simp_all add: deref_def)

lemma deref_eq_Inr [run_simps]: "deref p = Inr x \<longleftrightarrow> p = Some x"
  by (cases p) auto

text \<open>Indexed access to a C array of known length.\<close>

definition read_at :: "'a list \<Rightarrow> nat \<Rightarrow> 'a run" where
  "read_at xs i = (if i < length xs then Inr (xs ! i) else Inl OutOfBounds)"

definition write_at :: "'a list \<Rightarrow> nat \<Rightarrow> 'a \<Rightarrow> 'a list run" where
  "write_at xs i v = (if i < length xs then Inr (xs[i := v]) else Inl OutOfBounds)"

lemma read_at_in [simp]: "i < length xs \<Longrightarrow> read_at xs i = Inr (xs ! i)"
  by (simp add: read_at_def)

lemma read_at_out [simp]: "length xs \<le> i \<Longrightarrow> read_at xs i = Inl OutOfBounds"
  by (simp add: read_at_def)

lemma write_at_in [simp]: "i < length xs \<Longrightarrow> write_at xs i v = Inr (xs[i := v])"
  by (simp add: write_at_def)

lemma write_at_out [simp]: "length xs \<le> i \<Longrightarrow> write_at xs i v = Inl OutOfBounds"
  by (simp add: write_at_def)

section \<open>Lists\<close>

definition opt_hd :: "'a list \<Rightarrow> 'a option" where
  "opt_hd xs = (case xs of [] \<Rightarrow> None | x # _ \<Rightarrow> Some x)"

definition opt_last :: "'a list \<Rightarrow> 'a option" where
  "opt_last xs = (if xs = [] then None else Some (last xs))"

lemma opt_hd_simps [simp]: "opt_hd [] = None" "opt_hd (x # xs) = Some x"
  by (simp_all add: opt_hd_def)

lemma opt_last_simps [simp]: "opt_last [] = None" "opt_last (xs @ [x]) = Some x"
  by (simp_all add: opt_last_def)

lemma opt_hd_None [simp]: "opt_hd xs = None \<longleftrightarrow> xs = []"
  by (cases xs) auto

lemma opt_last_None [simp]: "opt_last xs = None \<longleftrightarrow> xs = []"
  by (simp add: opt_last_def)

lemma opt_hd_append: "opt_hd (xs @ ys) = (if xs = [] then opt_hd ys else opt_hd xs)"
  by (cases xs) auto

lemma opt_last_append: "opt_last (xs @ ys) = (if ys = [] then opt_last xs else opt_last ys)"
  by (auto simp: opt_last_def)

lemma opt_last_Cons [simp]: "opt_last (x # xs) = (if xs = [] then Some x else opt_last xs)"
  by (auto simp: opt_last_def)

lemma opt_hd_in_set: "opt_hd xs = Some x \<Longrightarrow> x \<in> set xs"
  by (cases xs) auto

lemma opt_last_in_set: "opt_last xs = Some x \<Longrightarrow> x \<in> set xs"
  by (auto simp: opt_last_def split: if_splits)

lemma opt_hd_neq [simp]: "x \<notin> set xs \<Longrightarrow> opt_hd xs \<noteq> Some x"
  by (auto dest: opt_hd_in_set)

lemma opt_last_neq [simp]: "x \<notin> set xs \<Longrightarrow> opt_last xs \<noteq> Some x"
  by (auto dest: opt_last_in_set)

section \<open>C strings\<close>

text \<open>
  A NUL-terminated string is the list of its characters before the terminator.
  \<open>strcmp\<close> compares as unsigned characters, which is the order \<open>Char_ord\<close> and
  \<open>List_Lexorder\<close> put on \<open>string\<close>; only the sign of its result is specified by C, so the
  model returns the sign.
\<close>

definition strcmp :: "string \<Rightarrow> string \<Rightarrow> int" where
  "strcmp a b = (if a = b then 0 else if a < b then -1 else 1)"

lemma strcmp_eq_0 [simp]: "strcmp a b = 0 \<longleftrightarrow> a = b"
  by (simp add: strcmp_def)

lemma strcmp_pos: "0 < strcmp a b \<longleftrightarrow> b < a"
  by (auto simp: strcmp_def)

lemma strcmp_neg: "strcmp a b < 0 \<longleftrightarrow> a < b"
  by (auto simp: strcmp_def)

lemma strcmp_refl: "strcmp a a = 0"
  by simp

text \<open>\<open>sprintf\<close> into a buffer of \<open>cap\<close> bytes, terminator included.\<close>

definition sprintf_cap :: "nat \<Rightarrow> string \<Rightarrow> string run" where
  "sprintf_cap cap s = (if length s < cap then Inr s else Inl OutOfBounds)"

lemma sprintf_cap_fits [simp]: "length s < cap \<Longrightarrow> sprintf_cap cap s = Inr s"
  by (simp add: sprintf_cap_def)

text \<open>The number conversions of \<open>printf\<close>: \<open>%x\<close> and \<open>%d\<close>.\<close>

definition digit_char :: "nat \<Rightarrow> char" where
  "digit_char d = ''0123456789abcdef'' ! d"

definition char_digit :: "char \<Rightarrow> nat" where
  "char_digit c = (let n = of_char c in if n < (58::nat) then n - 48 else n - 87)"

fun base_digits :: "nat \<Rightarrow> nat \<Rightarrow> string" where
  "base_digits b n =
     (if n < b \<or> b < 2 then [digit_char n] else base_digits b (n div b) @ [digit_char (n mod b)])"

declare base_digits.simps [simp del]

definition hex_str :: "nat \<Rightarrow> string" where
  "hex_str n = base_digits 16 n"

definition int_str :: "int \<Rightarrow> string" where
  "int_str i = (if i < 0 then CHR ''-'' # base_digits 10 (nat (- i)) else base_digits 10 (nat i))"

fun digits_value :: "nat \<Rightarrow> nat \<Rightarrow> string \<Rightarrow> nat" where
  "digits_value b a [] = a"
| "digits_value b a (c # cs) = digits_value b (b * a + char_digit c) cs"

lemma digit_char_roundtrip [simp]: "d < 16 \<Longrightarrow> char_digit (digit_char d) = d"
proof -
  assume "d < 16"
  then have "d \<in> set [0..<16]" by simp
  moreover have "\<forall>d \<in> set [0..<16]. char_digit (digit_char d) = d"
    by (simp add: upt_rec char_digit_def digit_char_def Let_def)
  ultimately show ?thesis by blast
qed

lemma digits_value_append [simp]:
  "digits_value b a (xs @ ys) = digits_value b (digits_value b a xs) ys"
  by (induction xs arbitrary: a) auto

lemma base_digits_roundtrip:
  "2 \<le> b \<Longrightarrow> b \<le> 16 \<Longrightarrow> digits_value b 0 (base_digits b n) = n"
proof (induction b n rule: base_digits.induct)
  case (1 b n)
  have "n mod b < b" using "1.prems" by simp
  then have d: "char_digit (digit_char (n mod b)) = n mod b"
    using "1.prems" by (intro digit_char_roundtrip) linarith
  from 1 show ?case
    by (cases "n < b") (simp_all add: base_digits.simps [of b n] d)
qed

lemma base_digits_length:
  "2 \<le> b \<Longrightarrow> n < b ^ Suc k \<Longrightarrow> length (base_digits b n) \<le> Suc k"
proof (induction k arbitrary: n)
  case 0
  then show ?case by (simp add: base_digits.simps)
next
  case (Suc k)
  then have "n div b < b ^ Suc k" by (simp add: less_mult_imp_div_less mult.commute)
  with Suc show ?case by (simp add: base_digits.simps [of b n])
qed

lemma hex_str_length: "length (hex_str (unat (w :: u64))) \<le> 16"
  using base_digits_length [of 16 "unat w" 15] unsigned_less [of w, where 'a = nat] by (simp add: hex_str_def)

lemma int_str_length:
  assumes "\<bar>i\<bar> < 10 ^ Suc k"
  shows "length (int_str i) \<le> k + 2"
proof -
  have "nat \<bar>i\<bar> < 10 ^ Suc k" using assms by (simp add: nat_less_iff)
  from base_digits_length [OF _ this] show ?thesis by (auto simp: int_str_def abs_if split: if_splits)
qed

lemma hex_str_roundtrip: "digits_value 16 0 (hex_str n) = n"
  by (simp add: hex_str_def base_digits_roundtrip)

end
