(* ===== verification/LList.thy ===== *)
theory LList imports Prelude begin

text \<open>
  The intrusive doubly linked list of \<open>common/llist/llist.c\<close>.

  A node \<open>LL_ELEMENT_T\<close> is an address; the memory \<open>ll_mem\<close> holds the two link fields of
  every node and a list header \<open>LL_T\<close> is the record \<open>ll_t\<close>.  A node whose \<open>prev\<close> is
  itself belongs to no list.  \<open>dll m l xs\<close> says that in memory \<open>m\<close> the header \<open>l\<close>
  represents the node sequence \<open>xs\<close>; the lemmas show what each operation does to it.
\<close>

section \<open>Data\<close>

record ll_mem =
  nxt :: "addr \<Rightarrow> addr option"
  prv :: "addr \<Rightarrow> addr option"

record ll_t =
  head :: "addr option"
  tail :: "addr option"
  count :: int

definition set_nxt :: "addr \<Rightarrow> addr option \<Rightarrow> ll_mem \<Rightarrow> ll_mem" where
  "set_nxt a v m = m\<lparr>nxt := (nxt m)(a := v)\<rparr>"

definition set_prv :: "addr \<Rightarrow> addr option \<Rightarrow> ll_mem \<Rightarrow> ll_mem" where
  "set_prv a v m = m\<lparr>prv := (prv m)(a := v)\<rparr>"

text \<open>A write through a pointer that the code has tested against NULL.\<close>

definition upd_opt :: "(addr \<Rightarrow> ll_mem \<Rightarrow> ll_mem) \<Rightarrow> addr option \<Rightarrow> ll_mem \<Rightarrow> ll_mem" where
  "upd_opt f p m = (case p of None \<Rightarrow> m | Some a \<Rightarrow> f a m)"

lemma link_simps [simp]:
  "nxt (set_nxt a v m) = (nxt m)(a := v)" "prv (set_nxt a v m) = prv m"
  "prv (set_prv a v m) = (prv m)(a := v)" "nxt (set_prv a v m) = nxt m"
  "upd_opt f None m = m" "upd_opt f (Some a) m = f a m"
  by (simp_all add: set_nxt_def set_prv_def upd_opt_def)

section \<open>Operations\<close>

definition LL_Init :: "ll_t \<Rightarrow> ll_t" where
  "LL_Init l = l\<lparr>head := None, tail := None, count := 0\<rparr>"

record 'c ll_sort_t =
  slist :: ll_t
  scmp :: "(addr \<Rightarrow> addr \<Rightarrow> 'c \<Rightarrow> int) option"

definition LL_InitSort ::
  "'c ll_sort_t option \<Rightarrow> (addr \<Rightarrow> addr \<Rightarrow> 'c \<Rightarrow> int) option \<Rightarrow> int \<times> 'c ll_sort_t option" where
  "LL_InitSort llist cmp =
     (case llist of
        None \<Rightarrow> (0, None)
      | Some s \<Rightarrow> if cmp = None then (0, Some s)
                 else (1, Some (s\<lparr>slist := LL_Init (slist s), scmp := cmp\<rparr>)))"

definition LL_Detach :: "ll_t \<Rightarrow> ll_t" where
  "LL_Detach l = l\<lparr>head := None, tail := None, count := 0\<rparr>"

definition LL_InList :: "ll_mem \<Rightarrow> addr \<Rightarrow> bool" where
  "LL_InList m e \<longleftrightarrow> prv m e \<noteq> Some e"

definition LL_First :: "ll_t \<Rightarrow> addr option" where
  "LL_First l = head l"

definition LL_Last :: "ll_t \<Rightarrow> addr option" where
  "LL_Last l = tail l"

definition LL_Next :: "ll_mem \<Rightarrow> addr \<Rightarrow> addr option" where
  "LL_Next m e = nxt m e"

definition LL_Prev :: "ll_mem \<Rightarrow> addr \<Rightarrow> addr option" where
  "LL_Prev m e = (case prv m e of
      None \<Rightarrow> None
    | Some p \<Rightarrow> if \<not> LL_InList m p then None else Some p)"

definition LL_Count :: "ll_t option \<Rightarrow> int" where
  "LL_Count l = (case l of None \<Rightarrow> 0 | Some l \<Rightarrow> count l)"

definition LL_InitElement :: "addr \<Rightarrow> ll_mem \<Rightarrow> ll_mem" where
  "LL_InitElement e m = set_prv e (Some e) (set_nxt e None m)"

text \<open>\<open>LL_Retach\<close> counts on from the header's old \<open>count\<close>, which it does not reset.\<close>

partial_function (option) retach_loop ::
  "ll_mem \<Rightarrow> addr option \<Rightarrow> ll_t \<Rightarrow> ll_t option" where
  "retach_loop m el l = (case el of
      None \<Rightarrow> Some l
    | Some e \<Rightarrow>
        if \<not> LL_InList m e then Some l
        else retach_loop m (LL_Next m e) (l\<lparr>tail := Some e, count := count l + 1\<rparr>))"

definition LL_Retach :: "ll_mem \<Rightarrow> ll_t \<Rightarrow> addr option \<Rightarrow> ll_t run" where
  "LL_Retach m l el =
     run_of (map_option Inr (retach_loop m el (l\<lparr>tail := el, head := el\<rparr>)))"

text \<open>
  \<open>LL_ForEach\<close> and \<open>LL_Destroy\<close> call back into client code, which may change any part of
  the program state \<open>'s\<close>; \<open>mem\<close> reads the link fields of that state.
\<close>

partial_function (option) foreach_loop ::
  "('s \<Rightarrow> ll_mem) \<Rightarrow> (addr \<Rightarrow> 's \<Rightarrow> (int \<times> 's) run) \<Rightarrow> addr option \<Rightarrow> 's
     \<Rightarrow> (addr option \<times> 's) run option" where
  "foreach_loop mem f el s = (case el of
      None \<Rightarrow> Some (Inr (None, s))
    | Some e \<Rightarrow>
        if \<not> LL_InList (mem s) e then Some (Inr (None, s))
        else (case f e s of
            Inl h \<Rightarrow> Some (Inl h)
          | Inr (r, s') \<Rightarrow>
              if r \<noteq> 0 then Some (Inr (Some e, s'))
              else foreach_loop mem f (nxt (mem s) e) s'))"

definition LL_ForEach ::
  "('s \<Rightarrow> ll_mem) \<Rightarrow> ll_t \<Rightarrow> (addr \<Rightarrow> 's \<Rightarrow> (int \<times> 's) run) \<Rightarrow> 's \<Rightarrow> (addr option \<times> 's) run" where
  "LL_ForEach mem l f s = run_of (foreach_loop mem f (head l) s)"

partial_function (option) destroy_loop ::
  "('s \<Rightarrow> ll_mem) \<Rightarrow> (addr \<Rightarrow> 's \<Rightarrow> (int \<times> 's) run) \<Rightarrow> addr option \<Rightarrow> 's \<Rightarrow> 's run option" where
  "destroy_loop mem f el s = (case el of
      None \<Rightarrow> Some (Inr s)
    | Some e \<Rightarrow>
        if \<not> LL_InList (mem s) e then Some (Inr s)
        else (case f e s of
            Inl h \<Rightarrow> Some (Inl h)
          | Inr (r, s') \<Rightarrow> destroy_loop mem f (nxt (mem s) e) s'))"

definition LL_Destroy ::
  "('s \<Rightarrow> ll_mem) \<Rightarrow> ll_t \<Rightarrow> (addr \<Rightarrow> 's \<Rightarrow> (int \<times> 's) run) option \<Rightarrow> 's \<Rightarrow> (ll_t \<times> 's) run" where
  "LL_Destroy mem l func s =
     bind_run (case func of None \<Rightarrow> Inr s | Some f \<Rightarrow> run_of (destroy_loop mem f (head l) s))
       (\<lambda>s'. Inr (l\<lparr>head := None, tail := None, count := 0\<rparr>, s'))"

definition LListAdd :: "ll_t \<Rightarrow> addr \<Rightarrow> ll_mem \<Rightarrow> ll_t \<times> ll_mem" where
  "LListAdd l e m =
     (if prv m e \<noteq> Some e then (l, m)
      else let m = set_prv e (tail l) (set_nxt e None m);
               m = upd_opt (\<lambda>t. set_nxt t (Some e)) (tail l) m
           in (l\<lparr>tail := Some e,
                 head := (if head l = None then Some e else head l),
                 count := count l + 1\<rparr>, m))"

definition LListAddToStart :: "ll_t \<Rightarrow> addr \<Rightarrow> ll_mem \<Rightarrow> ll_t \<times> ll_mem" where
  "LListAddToStart l e m =
     (if prv m e \<noteq> Some e then (l, m)
      else let m = set_prv e None m in
        (case head l of
           Some h \<Rightarrow> (l\<lparr>head := Some e, count := count l + 1\<rparr>,
                     set_prv h (Some e) (set_nxt e (Some h) m))
         | None \<Rightarrow> (l\<lparr>head := Some e, tail := Some e, count := count l + 1\<rparr>,
                    set_nxt e None m)))"

definition LLE_AddAfter :: "addr \<Rightarrow> addr \<Rightarrow> ll_mem \<Rightarrow> ll_mem" where
  "LLE_AddAfter e le m =
     (let tmp = nxt m e;
          m = set_prv le (Some e) (set_nxt le tmp (set_nxt e (Some le) m))
      in upd_opt (\<lambda>t. set_prv t (Some le)) tmp m)"

definition LLE_AddBefore :: "addr \<Rightarrow> addr \<Rightarrow> ll_mem \<Rightarrow> ll_mem" where
  "LLE_AddBefore e le m =
     (let tmp = prv m e;
          m = set_prv le tmp (set_nxt le (Some e) (set_prv e (Some le) m))
      in upd_opt (\<lambda>t. set_nxt t (Some le)) tmp m)"

partial_function (option) last_loop :: "ll_mem \<Rightarrow> addr \<Rightarrow> addr option" where
  "last_loop m e = (case nxt m e of None \<Rightarrow> Some e | Some e' \<Rightarrow> last_loop m e')"

definition LLE_AddAtEnd :: "addr \<Rightarrow> addr \<Rightarrow> ll_mem \<Rightarrow> ll_mem run" where
  "LLE_AddAtEnd e le m =
     run_of (map_option (\<lambda>z. Inr (LLE_AddAfter z le m)) (last_loop m e))"

partial_function (option) first_loop :: "ll_mem \<Rightarrow> addr \<Rightarrow> addr option" where
  "first_loop m e = (case prv m e of None \<Rightarrow> Some e | Some e' \<Rightarrow> first_loop m e')"

definition LLE_AddAtStart :: "addr \<Rightarrow> addr \<Rightarrow> ll_mem \<Rightarrow> ll_mem run" where
  "LLE_AddAtStart e le m =
     run_of (map_option (\<lambda>z. Inr (LLE_AddBefore z le m)) (first_loop m e))"

text \<open>
  The search of \<open>LListAddSort\<close>: the first node that compares greater than the new element.
\<close>

partial_function (option) sort_loop ::
  "(addr \<Rightarrow> addr \<Rightarrow> 'c \<Rightarrow> int) \<Rightarrow> addr \<Rightarrow> 'c \<Rightarrow> ll_mem \<Rightarrow> addr option \<Rightarrow> addr option option" where
  "sort_loop cmp e c m cur = (case cur of
      None \<Rightarrow> Some None
    | Some x \<Rightarrow> if cmp x e c \<le> 0 then sort_loop cmp e c m (LL_Next m x) else Some (Some x))"

definition add_sort_at ::
  "ll_t \<Rightarrow> addr \<Rightarrow> ll_mem \<Rightarrow> addr option \<Rightarrow> ll_t \<times> ll_mem" where
  "add_sort_at l e m cur = (case cur of
      None \<Rightarrow> LListAdd l e m
    | Some x \<Rightarrow>
        if head l = Some x then LListAddToStart l e m
        else (l\<lparr>count := count l + 1\<rparr>, LLE_AddBefore x e m))"

definition LListAddSort ::
  "'c ll_sort_t \<Rightarrow> addr \<Rightarrow> 'c \<Rightarrow> ll_mem \<Rightarrow> ('c ll_sort_t \<times> ll_mem) run" where
  "LListAddSort s e c m =
     bind_run (case LL_First (slist s) of
         None \<Rightarrow> Inr None
       | Some x \<Rightarrow> bind_run (deref (scmp s)) (\<lambda>cmp.
           run_of (map_option Inr (sort_loop cmp e c m (Some x))))) (\<lambda>cur.
       let (l, m') = add_sort_at (slist s) e m cur in Inr (s\<lparr>slist := l\<rparr>, m'))"

definition LListDelete :: "ll_t option \<Rightarrow> addr \<Rightarrow> ll_mem \<Rightarrow> ll_t option \<times> ll_mem" where
  "LListDelete list e m = (case list of
      None \<Rightarrow> (None, m)
    | Some l \<Rightarrow>
        if count l = 0 then (Some l, m)
        else if prv m e = Some e then (Some l, m)
        else let m1 = upd_opt (\<lambda>n. set_prv n (prv m e)) (nxt m e) m;
                 m2 = upd_opt (\<lambda>p. set_nxt p (nxt m1 e)) (prv m1 e) m1;
                 l1 = (if head l = Some e then l\<lparr>head := nxt m2 e\<rparr> else l);
                 l2 = (if tail l1 = Some e then l1\<lparr>tail := prv m2 e\<rparr> else l1);
                 l3 = (if count l2 > 0 then l2\<lparr>count := count l2 - 1\<rparr> else l2)
             in (Some l3, LL_InitElement e m2))"

definition LL_Lock :: "ll_t \<Rightarrow> ll_t" where
  "LL_Lock l = l"

definition LL_UnLock :: "ll_t \<Rightarrow> ll_t" where
  "LL_UnLock l = l"


section \<open>What a header represents\<close>

text \<open>\<open>chain m p xs q\<close>: the nodes \<open>xs\<close> are linked in order, entered from \<open>p\<close> and left to \<open>q\<close>.\<close>

fun chain :: "ll_mem \<Rightarrow> addr option \<Rightarrow> addr list \<Rightarrow> addr option \<Rightarrow> bool" where
  "chain m p [] q \<longleftrightarrow> True"
| "chain m p (x # xs) q \<longleftrightarrow>
     prv m x = p \<and> nxt m x = (if xs = [] then q else opt_hd xs) \<and> chain m (Some x) xs q"

definition dll :: "ll_mem \<Rightarrow> ll_t \<Rightarrow> addr list \<Rightarrow> bool" where
  "dll m l xs \<longleftrightarrow> distinct xs \<and> chain m None xs None
     \<and> head l = opt_hd xs \<and> tail l = opt_last xs \<and> count l = int (length xs)"

lemma dllI [intro?]:
  "distinct xs \<Longrightarrow> chain m None xs None \<Longrightarrow> head l = opt_hd xs \<Longrightarrow> tail l = opt_last xs
     \<Longrightarrow> count l = int (length xs) \<Longrightarrow> dll m l xs"
  by (simp add: dll_def)

lemma dllD:
  assumes "dll m l xs"
  shows "distinct xs" "chain m None xs None" "head l = opt_hd xs" "tail l = opt_last xs"
    "count l = int (length xs)"
  using assms by (simp_all add: dll_def)

lemma chain_append:
  "chain m p (xs @ ys) q \<longleftrightarrow>
     chain m p xs (if ys = [] then q else opt_hd ys)
     \<and> chain m (if xs = [] then p else opt_last xs) ys q"
proof (induction xs arbitrary: p)
  case Nil
  then show ?case by simp
next
  case (Cons x xs)
  then show ?case
    by (cases ys) (auto simp: opt_hd_append opt_last_Cons)
qed

lemma chain_cong:
  "\<forall>x \<in> set xs. nxt m' x = nxt m x \<and> prv m' x = prv m x \<Longrightarrow> chain m' p xs q = chain m p xs q"
  by (induction xs arbitrary: p) auto

lemma chain_set_nxt [simp]: "a \<notin> set xs \<Longrightarrow> chain (set_nxt a v m) p xs q = chain m p xs q"
  by (rule chain_cong) auto

lemma chain_set_prv [simp]: "a \<notin> set xs \<Longrightarrow> chain (set_prv a v m) p xs q = chain m p xs q"
  by (rule chain_cong) auto

lemma chain_prv_hd: "chain m p (x # xs) q \<Longrightarrow> prv m x = p"
  by simp

text \<open>Redirecting the exit or the entry of a chain.\<close>

lemma chain_exit:
  "chain m p (xs @ [t]) q \<Longrightarrow> distinct (xs @ [t]) \<Longrightarrow> chain (set_nxt t v m) p (xs @ [t]) v"
  by (auto simp: chain_append)

lemma chain_entry:
  "chain m p (h # xs) q \<Longrightarrow> distinct (h # xs) \<Longrightarrow> chain (set_prv h v m) v (h # xs) q"
  by auto

text \<open>No node of a chain is linked to itself, so all of them are in a list.\<close>

lemma chain_no_self:
  "chain m p xs q \<Longrightarrow> distinct xs \<Longrightarrow> p \<notin> Some ` set xs \<Longrightarrow> x \<in> set xs \<Longrightarrow> prv m x \<noteq> Some x"
proof (induction xs arbitrary: p)
  case Nil
  then show ?case by simp
next
  case (Cons y ys)
  then show ?case by (cases "x = y") auto
qed

lemma dll_inlist: "dll m l xs \<Longrightarrow> x \<in> set xs \<Longrightarrow> LL_InList m x"
  unfolding LL_InList_def by (rule chain_no_self) (auto simp: dll_def)

lemma dll_cong:
  "\<forall>x \<in> set xs. nxt m' x = nxt m x \<and> prv m' x = prv m x \<Longrightarrow> dll m' l xs = dll m l xs"
  using chain_cong [of xs m' m None None] by (simp add: dll_def)

lemma dll_init: "dll m (LL_Init l) []"
  by (simp add: dll_def LL_Init_def)

lemma detached_not_member: "dll m l xs \<Longrightarrow> prv m e = Some e \<Longrightarrow> e \<notin> set xs"
  using dll_inlist by (auto simp: LL_InList_def)

text \<open>The nodes outside a set of addresses are left alone.\<close>

definition untouched :: "addr set \<Rightarrow> ll_mem \<Rightarrow> ll_mem \<Rightarrow> bool" where
  "untouched A m m' \<longleftrightarrow> (\<forall>a. a \<notin> A \<longrightarrow> nxt m' a = nxt m a \<and> prv m' a = prv m a)"

lemma dll_frame:
  "untouched A m m' \<Longrightarrow> A \<inter> set ys = {} \<Longrightarrow> dll m k ys \<Longrightarrow> dll m' k ys"
  using dll_cong [of ys m' m k] by (auto simp: untouched_def)

section \<open>Each operation against the represented sequence\<close>

lemma dll_append_node:
  assumes "dll m l xs" and "prv m e = Some e" and "LListAdd l e m = (l', m')"
  shows "dll m' l' (xs @ [e])"
proof (cases xs rule: rev_cases)
  case Nil
  with assms show ?thesis by (auto simp: LListAdd_def Let_def dll_def opt_last_def)
next
  case (snoc ys t)
  have "e \<notin> set xs" using assms(1,2) by (rule detached_not_member)
  with assms snoc show ?thesis
    by (auto simp: LListAdd_def Let_def dll_def chain_append opt_hd_append opt_last_append)
qed

lemma dll_prepend_node:
  assumes "dll m l xs" and "prv m e = Some e" and "LListAddToStart l e m = (l', m')"
  shows "dll m' l' (e # xs)"
proof (cases xs)
  case Nil
  with assms show ?thesis by (auto simp: LListAddToStart_def Let_def dll_def opt_last_def)
next
  case (Cons h ys)
  have "e \<notin> set xs" using assms(1,2) by (rule detached_not_member)
  with assms Cons show ?thesis
    by (auto simp: LListAddToStart_def Let_def dll_def)
qed

lemma add_in_list_noop:
  assumes "LL_InList m e"
  shows "LListAdd l e m = (l, m)" and "LListAddToStart l e m = (l, m)"
  using assms by (simp_all add: LListAdd_def LListAddToStart_def LL_InList_def)

lemma dll_insert_before:
  assumes "dll m l (xs @ x # ys)" and "xs \<noteq> []" and "prv m e = Some e"
  shows "dll (LLE_AddBefore x e m) (l\<lparr>count := count l + 1\<rparr>) (xs @ e # x # ys)"
proof -
  obtain us p where us: "xs = us @ [p]" using assms(2) by (cases xs rule: rev_cases) auto
  have "e \<notin> set (xs @ x # ys)" using assms(1,3) by (rule detached_not_member)
  with assms us show ?thesis
    by (auto simp: LLE_AddBefore_def Let_def dll_def chain_append opt_hd_append opt_last_append)
qed

lemma dll_delete_node:
  assumes "dll m l (xs @ e # ys)" and "LListDelete (Some l) e m = (l', m')"
  shows "\<exists>k. l' = Some k \<and> dll m' k (xs @ ys) \<and> \<not> LL_InList m' e"
proof -
  have ne: "prv m e \<noteq> Some e" using dll_inlist [OF assms(1), of e] by (simp add: LL_InList_def)
  show ?thesis
  proof (cases xs rule: rev_cases)
    case Nil
    with ne assms show ?thesis
      by (cases ys) (auto simp: LListDelete_def Let_def LL_InitElement_def dll_def LL_InList_def)
  next
    case (snoc us p)
    with ne assms show ?thesis
      by (cases ys) (auto simp: LListDelete_def Let_def LL_InitElement_def dll_def LL_InList_def
          chain_append opt_last_append opt_hd_append)
  qed
qed


section \<open>Iteration\<close>

text \<open>The specification of \<open>LL_ForEach\<close>: visit the nodes in order, stop at a nonzero result.\<close>

fun visit :: "(addr \<Rightarrow> 's \<Rightarrow> (int \<times> 's) run) \<Rightarrow> addr list \<Rightarrow> 's \<Rightarrow> (addr option \<times> 's) run" where
  "visit f [] s = Inr (None, s)"
| "visit f (x # xs) s =
     bind_run (f x s) (\<lambda>(r, s'). if r \<noteq> 0 then Inr (Some x, s') else visit f xs s')"

fun visit_all :: "(addr \<Rightarrow> 's \<Rightarrow> (int \<times> 's) run) \<Rightarrow> addr list \<Rightarrow> 's \<Rightarrow> 's run" where
  "visit_all f [] s = Inr s"
| "visit_all f (x # xs) s = bind_run (f x s) (\<lambda>(r, s'). visit_all f xs s')"

text \<open>What the iteration relies on: the nodes still to come are linked and in a list.\<close>

fun fwd :: "ll_mem \<Rightarrow> addr list \<Rightarrow> bool" where
  "fwd m [] \<longleftrightarrow> True"
| "fwd m (x # xs) \<longleftrightarrow> LL_InList m x \<and> nxt m x = opt_hd xs \<and> fwd m xs"

lemma chain_fwd:
  "chain m p xs None \<Longrightarrow> distinct xs \<Longrightarrow> p \<notin> Some ` set xs \<Longrightarrow> fwd m xs"
proof (induction xs arbitrary: p)
  case Nil
  then show ?case by simp
next
  case (Cons x xs)
  then have "fwd m xs" by (intro Cons.IH [of "Some x"]) auto
  with Cons.prems show ?case by (cases xs) (auto simp: LL_InList_def)
qed

lemma dll_fwd: "dll m l xs \<Longrightarrow> fwd m xs"
  by (rule chain_fwd [of _ None]) (auto simp: dll_def)

text \<open>
  A callback may unlink or change the node it is given, as long as the rest of the list
  stays linked forwards.
\<close>

lemma foreach_loop_visit:
  assumes keeps: "\<And>e rest t t'. fwd (mem t) (e # rest) \<Longrightarrow> distinct (e # rest)
      \<Longrightarrow> f e t = Inr (0, t') \<Longrightarrow> fwd (mem t') rest"
    and "fwd (mem s) xs" and "distinct xs"
  shows "foreach_loop mem f (opt_hd xs) s = Some (visit f xs s)"
  using assms(2,3)
proof (induction xs arbitrary: s)
  case Nil
  show ?case by (simp add: foreach_loop.simps)
next
  case (Cons x xs)
  show ?case
  proof (cases "f x s")
    case (Inl h)
    with Cons.prems show ?thesis by (simp add: foreach_loop.simps [of mem f "Some x"])
  next
    case (Inr rs)
    obtain r s' where rs: "rs = (r, s')" by (cases rs)
    show ?thesis
    proof (cases "r = 0")
      case True
      with keeps [OF Cons.prems] Inr rs have "fwd (mem s') xs" by simp
      then have "foreach_loop mem f (opt_hd xs) s' = Some (visit f xs s')"
        using Cons.IH Cons.prems(2) by simp
      with True Inr rs Cons.prems show ?thesis
        by (simp add: foreach_loop.simps [of mem f "Some x"])
    next
      case False
      with Inr rs Cons.prems show ?thesis by (simp add: foreach_loop.simps [of mem f "Some x"])
    qed
  qed
qed

lemma destroy_loop_visit:
  assumes keeps: "\<And>e rest t r t'. fwd (mem t) (e # rest) \<Longrightarrow> distinct (e # rest)
      \<Longrightarrow> f e t = Inr (r, t') \<Longrightarrow> fwd (mem t') rest"
    and "fwd (mem s) xs" and "distinct xs"
  shows "destroy_loop mem f (opt_hd xs) s = Some (visit_all f xs s)"
  using assms(2,3)
proof (induction xs arbitrary: s)
  case Nil
  show ?case by (simp add: destroy_loop.simps)
next
  case (Cons x xs)
  show ?case
  proof (cases "f x s")
    case (Inl h)
    with Cons.prems show ?thesis by (simp add: destroy_loop.simps [of mem f "Some x"])
  next
    case (Inr rs)
    obtain r s' where rs: "rs = (r, s')" by (cases rs)
    with keeps [OF Cons.prems] Inr have "fwd (mem s') xs" by simp
    then have "destroy_loop mem f (opt_hd xs) s' = Some (visit_all f xs s')"
      using Cons.IH Cons.prems(2) by simp
    with Inr rs Cons.prems show ?thesis by (simp add: destroy_loop.simps [of mem f "Some x"])
  qed
qed

text \<open>An invariant of the callback holds after the visit; a failure names a visited node.\<close>

lemma visit_invariant:
  assumes "\<And>e t r t'. e \<in> set xs \<Longrightarrow> P t \<Longrightarrow> f e t = Inr (r, t') \<Longrightarrow> P t'"
    and "P s" and "visit f xs s = Inr (res, s')"
  shows "P s'"
  using assms
proof (induction xs arbitrary: s)
  case Nil
  then show ?case by simp
next
  case (Cons x xs)
  from Cons.prems(3) obtain r t where ft: "f x s = Inr (r, t)"
    and rest: "(if r \<noteq> 0 then Inr (Some x, t) else visit f xs t) = Inr (res, s')"
    by (auto simp: run_simps)
  have "P t" using Cons.prems(1) [OF _ Cons.prems(2) ft] by simp
  then show ?case
  proof (cases "r = 0")
    case True
    with rest have "visit f xs t = Inr (res, s')" by simp
    with \<open>P t\<close> Cons.prems(1) show ?thesis by (intro Cons.IH [of t]) auto
  next
    case False
    with rest \<open>P t\<close> show ?thesis by simp
  qed
qed

lemma visit_stops_in: "visit f xs s = Inr (Some e, s') \<Longrightarrow> e \<in> set xs"
  by (induction xs arbitrary: s) (auto simp: run_simps split: if_splits)

text \<open>A visit that no callback stops is the run over all nodes.\<close>

lemma visit_all_ok:
  "visit f xs s = Inr (None, s') \<Longrightarrow> visit_all f xs s = Inr s'"
  by (induction xs arbitrary: s) (auto simp: run_simps split: if_splits)

section \<open>Moving a whole list\<close>

lemma retach_loop_counts:
  "fwd m xs \<Longrightarrow> retach_loop m (opt_hd xs) l
     = Some (l\<lparr>tail := (if xs = [] then tail l else opt_last xs), count := count l + int (length xs)\<rparr>)"
proof (induction xs arbitrary: l)
  case Nil
  show ?case by (simp add: retach_loop.simps)
next
  case (Cons x xs)
  then show ?case
    by (auto simp: retach_loop.simps [of m "Some x"] LL_Next_def)
qed

lemma LL_Retach_eq:
  assumes "fwd m xs"
  shows "LL_Retach m l (opt_hd xs)
    = Inr (l\<lparr>head := opt_hd xs, tail := opt_last xs, count := count l + int (length xs)\<rparr>)"
  using retach_loop_counts [OF assms] by (simp add: LL_Retach_def)

lemma LL_InitSort_null: "LL_InitSort llist None = (0, llist)"
  by (cases llist) (simp_all add: LL_InitSort_def)


section \<open>Sorted insertion and the headerless operations\<close>

lemma sort_loop_eq:
  "fwd m xs \<Longrightarrow> sort_loop cmp e c m (opt_hd xs) = Some (opt_hd (dropWhile (\<lambda>x. cmp x e c \<le> 0) xs))"
proof (induction xs)
  case Nil
  show ?case by (simp add: sort_loop.simps)
next
  case (Cons x xs)
  then show ?case by (auto simp: sort_loop.simps [of cmp e c m "Some x"] LL_Next_def)
qed

lemma LListAddSort_eq:
  assumes "dll m (slist s) xs" and "prv m e = Some e" and "scmp s = Some cmp"
  shows "\<exists>s' m'. LListAddSort s e c m = Inr (s', m') \<and> scmp s' = Some cmp
    \<and> dll m' (slist s')
        (takeWhile (\<lambda>x. cmp x e c \<le> 0) xs @ e # dropWhile (\<lambda>x. cmp x e c \<le> 0) xs)"
proof -
  let ?P = "\<lambda>x. cmp x e c \<le> 0"
  have sl: "sort_loop cmp e c m (LL_First (slist s)) = Some (opt_hd (dropWhile ?P xs))"
    using sort_loop_eq [OF dll_fwd [OF assms(1)]] dllD(3) [OF assms(1)] by (simp add: LL_First_def)
  obtain l' m' where lm: "add_sort_at (slist s) e m (opt_hd (dropWhile ?P xs)) = (l', m')"
    by (cases "add_sort_at (slist s) e m (opt_hd (dropWhile ?P xs))")
  have "dll m' l' (takeWhile ?P xs @ e # dropWhile ?P xs)"
  proof (cases "dropWhile ?P xs")
    case Nil
    have tw: "takeWhile ?P xs = xs"
      using takeWhile_dropWhile_id [of ?P xs] unfolding Nil by simp
    have "LListAdd (slist s) e m = (l', m')"
      using lm unfolding Nil by (simp add: add_sort_at_def)
    then show ?thesis unfolding Nil tw by (rule dll_append_node [OF assms(1,2)])
  next
    case (Cons y ys)
    then have xs: "xs = takeWhile ?P xs @ y # ys" using takeWhile_dropWhile_id [of ?P xs] by simp
    have hd: "head (slist s) = opt_hd xs" and dis: "distinct xs"
      using assms(1) by (auto dest: dllD)
    show ?thesis
    proof (cases "takeWhile ?P xs = []")
      case True
      with xs Cons lm hd show ?thesis
        using dll_prepend_node [OF assms(1,2)] by (auto simp: add_sort_at_def)
    next
      case False
      then obtain t ts where ts: "takeWhile ?P xs = t # ts" by (cases "takeWhile ?P xs") auto
      have "t \<noteq> y" using dis ts by (subst (asm) xs) auto
      with hd ts xs have "head (slist s) \<noteq> Some y" by (metis append_Cons opt_hd_simps(2) option.inject)
      with lm Cons have "m' = LLE_AddBefore y e m" "l' = slist s\<lparr>count := count (slist s) + 1\<rparr>"
        by (auto simp: add_sort_at_def)
      moreover have "dll m (slist s) (takeWhile ?P xs @ y # ys)" using assms(1) xs by metis
      ultimately show ?thesis
        using dll_insert_before [OF _ False assms(2)] Cons by simp
    qed
  qed
  moreover have "sort_loop cmp e c m None = Some None" by (simp add: sort_loop.simps)
  ultimately show ?thesis using sl lm assms(3)
    by (cases "LL_First (slist s)") (auto simp: LListAddSort_def)
qed

lemma sorted_wrt_insert:
  assumes sorted: "sorted_wrt (\<lambda>x y. cmp x y \<le> 0) xs"
    and trans: "\<And>x y z. cmp x y \<le> (0::int) \<Longrightarrow> cmp y z \<le> 0 \<Longrightarrow> cmp x z \<le> 0"
    and total: "\<And>x y. cmp x y \<le> 0 \<or> cmp y x \<le> 0"
  shows "sorted_wrt (\<lambda>x y. cmp x y \<le> 0)
    (takeWhile (\<lambda>x. cmp x e \<le> 0) xs @ e # dropWhile (\<lambda>x. cmp x e \<le> 0) xs)"
  using sorted
proof (induction xs)
  case Nil
  show ?case by simp
next
  case (Cons x xs)
  have all: "set (takeWhile (\<lambda>x. cmp x e \<le> 0) xs @ dropWhile (\<lambda>x. cmp x e \<le> 0) xs) = set xs"
    by (simp only: takeWhile_dropWhile_id)
  show ?case
  proof (cases "cmp x e \<le> 0")
    case True
    with Cons all show ?thesis by (auto simp del: takeWhile_dropWhile_id)
  next
    case False
    with total have "cmp e x \<le> 0" by blast
    with False Cons.prems show ?thesis by (auto intro: trans)
  qed
qed

lemma last_loop_eq: "fwd m (x # xs) \<Longrightarrow> last_loop m x = Some (last (x # xs))"
proof (induction xs arbitrary: x)
  case Nil
  then show ?case by (simp add: last_loop.simps)
next
  case (Cons y ys)
  then show ?case by (auto simp: last_loop.simps [of m x])
qed

lemma LLE_AddAtEnd_eq:
  assumes "fwd m (x # xs)"
  shows "LLE_AddAtEnd x e m = Inr (LLE_AddAfter (last (x # xs)) e m)"
  using last_loop_eq [OF assms] by (simp add: LLE_AddAtEnd_def)

lemma chain_add_after:
  assumes "chain m None (xs @ [t]) None" and "distinct (xs @ [t])" and "e \<notin> set (xs @ [t])"
  shows "chain (LLE_AddAfter t e m) None (xs @ [t, e]) None"
  using assms by (auto simp: LLE_AddAfter_def Let_def chain_append)

text \<open>\<open>LLE_AddAtStart\<close> follows \<open>prev\<close> to NULL; a node in no list points to itself.\<close>

lemma first_loop_self: "first_loop m e = Some r \<Longrightarrow> prv m e \<noteq> Some e"
proof (rule first_loop.raw_induct [where P = "\<lambda>m e r. prv m e \<noteq> Some e"])
  fix f m e r
  assume IH: "\<And>m e r. f m e = Some r \<Longrightarrow> prv m e \<noteq> Some e"
    and eq: "(case prv m e of None \<Rightarrow> Some e | Some x \<Rightarrow> f m x) = Some r"
  show "prv m e \<noteq> Some e"
  proof
    assume "prv m e = Some e"
    with eq have "f m e = Some r" by simp
    from IH [OF this] \<open>prv m e = Some e\<close> show False by simp
  qed
qed

lemma first_loop_eq:
  "chain m None xs q \<Longrightarrow> xs \<noteq> [] \<Longrightarrow> first_loop m (last xs) = Some (hd xs)"
proof (induction xs arbitrary: q rule: rev_induct)
  case Nil
  then show ?case by simp
next
  case (snoc x xs)
  show ?case
  proof (cases "xs = []")
    case True
    with snoc.prems show ?thesis by (simp add: first_loop.simps [of m x])
  next
    case False
    with snoc.prems have "prv m x = Some (last xs)" and "chain m None xs (Some x)"
      by (auto simp: chain_append opt_last_def)
    with snoc.IH False show ?thesis by (simp add: first_loop.simps [of m x])
  qed
qed


section \<open>Frames\<close>

lemma untouched_refl [simp]: "untouched A m m"
  by (simp add: untouched_def)

lemma dll_ends_in:
  assumes "dll m l xs"
  shows "head l = Some a \<Longrightarrow> a \<in> set xs" "tail l = Some a \<Longrightarrow> a \<in> set xs"
  using assms by (auto simp: dll_def dest: opt_hd_in_set opt_hd_in_set [OF sym]
      opt_last_in_set opt_last_in_set [OF sym])

lemma untouched_init: "untouched {e} m (LL_InitElement e m)"
  by (auto simp: untouched_def LL_InitElement_def)

lemma untouched_add:
  "dll m l xs \<Longrightarrow> LListAdd l e m = (l', m') \<Longrightarrow> untouched (insert e (set xs)) m m'"
  by (cases "tail l") (auto simp: untouched_def LListAdd_def Let_def dll_ends_in split: if_splits)

lemma untouched_addstart:
  "dll m l xs \<Longrightarrow> LListAddToStart l e m = (l', m') \<Longrightarrow> untouched (insert e (set xs)) m m'"
  by (cases "head l")
    (auto simp: untouched_def LListAddToStart_def Let_def dll_ends_in split: if_splits)

lemma chain_neighbours:
  assumes "chain m None (xs @ e # ys) None"
  shows "nxt m e = Some a \<Longrightarrow> a \<in> set ys" "prv m e = Some a \<Longrightarrow> a \<in> set xs"
  using assms by (auto simp: chain_append split: if_splits dest: opt_hd_in_set
      opt_hd_in_set [OF sym] opt_last_in_set opt_last_in_set [OF sym])

lemma untouched_delete:
  assumes "dll m l (xs @ e # ys)" and "LListDelete (Some l) e m = (l', m')"
  shows "untouched (set (xs @ e # ys)) m m'"
proof -
  note nb = chain_neighbours [OF dllD(2) [OF assms(1)]]
  from assms(2) nb show ?thesis
    by (cases "nxt m e"; cases "prv m e")
      (auto simp: untouched_def LListDelete_def Let_def LL_InitElement_def split: if_splits)
qed

section \<open>The interface the clients use\<close>

text \<open>
  The configuration parsers append freshly initialised nodes and the allocators walk the
  finished lists.  \<open>rep\<close> is what a header represents in a memory.
\<close>

fun push_all ::
  "(addr \<Rightarrow> 'm \<Rightarrow> 'm) \<Rightarrow> ('l \<Rightarrow> addr \<Rightarrow> 'm \<Rightarrow> 'l \<times> 'm) \<Rightarrow> 'l \<Rightarrow> addr list \<Rightarrow> 'm \<Rightarrow> 'l \<times> 'm" where
  "push_all init_node add l [] m = (l, m)"
| "push_all init_node add l (e # es) m =
     (let (l', m') = add l e (init_node e m) in push_all init_node add l' es m')"

locale node_list =
  fixes rep :: "'m \<Rightarrow> 'l \<Rightarrow> addr list \<Rightarrow> bool"
    and init_node :: "addr \<Rightarrow> 'm \<Rightarrow> 'm"
    and add :: "'l \<Rightarrow> addr \<Rightarrow> 'm \<Rightarrow> 'l \<times> 'm"
  assumes rep_add: "rep m l xs \<Longrightarrow> e \<notin> set xs \<Longrightarrow> add l e (init_node e m) = (l', m')
      \<Longrightarrow> rep m' l' (xs @ [e])"
    and rep_other: "rep m l xs \<Longrightarrow> e \<notin> set xs \<Longrightarrow> add l e (init_node e m) = (l', m')
      \<Longrightarrow> rep m k ys \<Longrightarrow> set ys \<inter> insert e (set xs) = {} \<Longrightarrow> rep m' k ys"
    and rep_init: "rep m l xs \<Longrightarrow> e \<notin> set xs \<Longrightarrow> rep (init_node e m) l xs"
begin

lemma rep_push_all:
  "rep m l xs \<Longrightarrow> distinct (xs @ es) \<Longrightarrow> push_all init_node add l es m = (l', m') \<Longrightarrow> rep m' l' (xs @ es)"
proof (induction es arbitrary: l m xs)
  case Nil
  then show ?case by simp
next
  case (Cons e es)
  obtain l1 m1 where add: "add l e (init_node e m) = (l1, m1)"
    by (cases "add l e (init_node e m)")
  then have "rep m1 l1 (xs @ [e])" using Cons.prems by (intro rep_add) auto
  then have "rep m' l' ((xs @ [e]) @ es)"
    by (rule Cons.IH) (use Cons.prems add in auto)
  then show ?case by simp
qed

end

locale iter_list = node_list rep init_node add
  for rep :: "'m \<Rightarrow> 'l \<Rightarrow> addr list \<Rightarrow> bool"
    and init_node :: "addr \<Rightarrow> 'm \<Rightarrow> 'm"
    and add :: "'l \<Rightarrow> addr \<Rightarrow> 'm \<Rightarrow> 'l \<times> 'm" +
  fixes foreach :: "('s \<Rightarrow> 'm) \<Rightarrow> 'l \<Rightarrow> (addr \<Rightarrow> 's \<Rightarrow> (int \<times> 's) run) \<Rightarrow> 's \<Rightarrow> (addr option \<times> 's) run"
  assumes foreach_visit: "rep (mem s) l xs
      \<Longrightarrow> (\<And>e t r t'. f e t = Inr (r, t') \<Longrightarrow> mem t' = mem t) \<Longrightarrow> foreach mem l f s = visit f xs s"
begin

lemma foreach_invariant:
  assumes "rep (mem s) l xs" and "\<And>e t r t'. f e t = Inr (r, t') \<Longrightarrow> mem t' = mem t"
    and "\<And>e t r t'. e \<in> set xs \<Longrightarrow> P t \<Longrightarrow> f e t = Inr (r, t') \<Longrightarrow> P t'"
    and "P s" and "foreach mem l f s = Inr (res, s')"
  shows "P s'"
proof -
  have "visit f xs s = Inr (res, s')"
    using assms(5) foreach_visit [of mem s l xs f, OF assms(1,2)] by simp
  with assms(3,4) show ?thesis using visit_invariant [of xs P f s res s'] by blast
qed

lemma foreach_built:
  assumes "rep m l []" and "distinct es" and "push_all init_node add l es m = (l', m')" and "mem s = m'"
    and "\<And>e t r t'. f e t = Inr (r, t') \<Longrightarrow> mem t' = mem t"
  shows "foreach mem l' f s = visit f es s"
proof -
  have "rep (mem s) l' es" using rep_push_all [OF assms(1) _ assms(3)] assms(2,4) by simp
  then show ?thesis by (rule foreach_visit [of mem s l' es f, OF _ assms(5)])
qed

end

lemma dll_add_fresh:
  assumes "dll m l xs" "e \<notin> set xs" "LListAdd l e (LL_InitElement e m) = (l', m')"
  shows "dll m' l' (xs @ [e])" "untouched (insert e (set xs)) m m'"
proof -
  have d: "dll (LL_InitElement e m) l xs"
    using dll_frame [OF untouched_init _ assms(1)] assms(2) by auto
  then show "dll m' l' (xs @ [e])"
    by (rule dll_append_node [OF _ _ assms(3)]) (simp add: LL_InitElement_def)
  show "untouched (insert e (set xs)) m m'"
    using untouched_add [OF d assms(3)] untouched_init [of e m] by (auto simp: untouched_def)
qed

lemma foreach_visit_same:
  assumes "dll (mem s) l xs" and "\<And>e t r t'. f e t = Inr (r, t') \<Longrightarrow> mem t' = mem t"
  shows "LL_ForEach mem l f s = visit f xs s"
proof -
  have "foreach_loop mem f (opt_hd xs) s = Some (visit f xs s)"
    using assms dll_fwd [OF assms(1)] dllD(1) [OF assms(1)]
    by (intro foreach_loop_visit) (auto dest: assms(2))
  then show ?thesis using dllD(3) [OF assms(1)] by (simp add: LL_ForEach_def)
qed

interpretation ll: iter_list dll LL_InitElement LListAdd LL_ForEach
proof unfold_locales
  fix m l xs e l' m'
  assume "dll m l xs" "e \<notin> set xs" "LListAdd l e (LL_InitElement e m) = (l', m')"
  then show "dll m' l' (xs @ [e])" by (rule dll_add_fresh)
next
  fix m l xs e l' m' k ys
  assume a: "dll m l xs" "e \<notin> set xs" "LListAdd l e (LL_InitElement e m) = (l', m')"
    and k: "dll m k ys" "set ys \<inter> insert e (set xs) = {}"
  show "dll m' k ys"
    by (rule dll_frame [OF dll_add_fresh(2) [OF a] _ k(1)]) (use k(2) in auto)
next
  fix m l xs and e :: addr
  assume "dll m l xs" "e \<notin> set xs"
  then show "dll (LL_InitElement e m) l xs"
    by (intro dll_frame [OF untouched_init]) auto
next
  fix mem :: "'s \<Rightarrow> ll_mem" and s l xs and f :: "addr \<Rightarrow> 's \<Rightarrow> (int \<times> 's) run"
  assume "dll (mem s) l xs" and "\<And>e t r t'. f e t = Inr (r, t') \<Longrightarrow> mem t' = mem t"
  then show "LL_ForEach mem l f s = visit f xs s" by (rule foreach_visit_same)
qed


section \<open>Properties\<close>

text \<open>
  A client's sequence of list operations, run on the code and on the abstract sequence of
  nodes.  Adding a node that is already in the list and deleting one that is not are no-ops.
\<close>

datatype ll_op = Append addr | Prepend addr | Delete addr

fun ll_step :: "ll_op \<Rightarrow> ll_t \<times> ll_mem \<Rightarrow> ll_t \<times> ll_mem" where
  "ll_step (Append e) (l, m) = LListAdd l e m"
| "ll_step (Prepend e) (l, m) = LListAddToStart l e m"
| "ll_step (Delete e) (l, m) =
     (let (l', m') = LListDelete (Some l) e m in (case l' of None \<Rightarrow> l | Some k \<Rightarrow> k, m'))"

fun spec_step :: "ll_op \<Rightarrow> addr list \<Rightarrow> addr list" where
  "spec_step (Append e) xs = (if e \<in> set xs then xs else xs @ [e])"
| "spec_step (Prepend e) xs = (if e \<in> set xs then xs else e # xs)"
| "spec_step (Delete e) xs = remove1 e xs"

definition only_list :: "ll_t \<times> ll_mem \<Rightarrow> addr list \<Rightarrow> bool" where
  "only_list s xs \<longleftrightarrow>
     dll (snd s) (fst s) xs \<and> (\<forall>a. a \<notin> set xs \<longrightarrow> prv (snd s) a = Some a)"

lemma only_list_step:
  assumes "only_list s xs"
  shows "only_list (ll_step op s) (spec_step op xs)"
proof -
  obtain l m where s: "s = (l, m)" by (cases s)
  have d: "dll m l xs" and out: "\<And>a. a \<notin> set xs \<Longrightarrow> prv m a = Some a"
    using assms s by (auto simp: only_list_def)
  show ?thesis
  proof (cases op)
    case (Append e)
    obtain l' m' where r: "LListAdd l e m = (l', m')" by (cases "LListAdd l e m")
    show ?thesis
    proof (cases "e \<in> set xs")
      case True
      with d have "LL_InList m e" by (rule dll_inlist)
      with True assms s Append show ?thesis by (simp add: add_in_list_noop)
    next
      case False
      with r d out Append s show ?thesis
        using dll_append_node [OF d out r] untouched_add [OF d r]
        by (auto simp: only_list_def untouched_def)
    qed
  next
    case (Prepend e)
    obtain l' m' where r: "LListAddToStart l e m = (l', m')" by (cases "LListAddToStart l e m")
    show ?thesis
    proof (cases "e \<in> set xs")
      case True
      with d have "LL_InList m e" by (rule dll_inlist)
      with True assms s Prepend show ?thesis by (simp add: add_in_list_noop)
    next
      case False
      with r d out Prepend s show ?thesis
        using dll_prepend_node [OF d out r] untouched_addstart [OF d r]
        by (auto simp: only_list_def untouched_def)
    qed
  next
    case (Delete e)
    obtain l' m' where r: "LListDelete (Some l) e m = (l', m')" by (cases "LListDelete (Some l) e m")
    show ?thesis
    proof (cases "e \<in> set xs")
      case True
      then obtain us vs where xs: "xs = us @ e # vs" and "e \<notin> set us" by (meson split_list_first)
      then have "remove1 e xs = us @ vs" by (simp add: remove1_append)
      moreover obtain k where k: "l' = Some k" "dll m' k (us @ vs)" "prv m' e = Some e"
        using dll_delete_node [of m l us e vs l' m'] d r xs by (auto simp: LL_InList_def)
      moreover have "prv m' a = Some a" if "a \<notin> set (us @ vs)" for a
      proof (cases "a = e")
        case True
        with k show ?thesis by simp
      next
        case False
        with that xs have "a \<notin> set xs" by simp
        moreover have "untouched (set xs) m m'" using untouched_delete [of m l us e vs] d r xs by simp
        ultimately show ?thesis using out by (simp add: untouched_def)
      qed
      ultimately show ?thesis using r s Delete by (simp add: only_list_def)
    next
      case False
      with r out s assms Delete show ?thesis
        by (auto simp: LListDelete_def remove1_idem split: if_splits)
    qed
  qed
qed

lemma only_list_run:
  "only_list s xs \<Longrightarrow> only_list (fold ll_step ops s) (fold spec_step ops xs)"
proof (induction ops arbitrary: s xs)
  case Nil
  then show ?case by simp
next
  case (Cons op ops)
  from Cons.IH [OF only_list_step [OF Cons.prems]] show ?case by simp
qed

text \<open>
  C8: In a memory where every node has been initialised, any sequence of \<open>LListAdd\<close>,
  \<open>LListAddToStart\<close> and \<open>LListDelete\<close> on a header set up by \<open>LL_Init\<close> leaves the header
  representing exactly the node sequence that the same operations produce on abstract
  sequences (append, prepend, remove; adding a member and deleting a stranger do nothing), with
  a correct element count, consistent forward and backward links, and every other node
  detached again.
\<close>

theorem llist_refines_sequence:
  assumes "\<forall>a. prv m a = Some a"
    and "fold ll_step ops (LL_Init l, m) = (l', m')"
  shows "dll m' l' (fold spec_step ops []) \<and>
    (\<forall>a. a \<notin> set (fold spec_step ops []) \<longrightarrow> \<not> LL_InList m' a)"
proof -
  have "only_list (LL_Init l, m) []" using assms(1) by (simp add: only_list_def dll_init)
  from only_list_run [OF this, of ops] show ?thesis
    using assms(2) by (simp add: only_list_def LL_InList_def)
qed

theorem llist_refines_sequence_witness:
  "\<exists>l' m'. fold ll_step [Append 3, Prepend 5, Append 4, Append 5, Delete 3]
      (LL_Init \<lparr>head = Some 9, tail = None, count = 7\<rparr>, \<lparr>nxt = (\<lambda>_. None), prv = Some\<rparr>) = (l', m')
    \<and> dll m' l' [5, 4] \<and> \<not> LL_InList m' 3"
proof -
  let ?ops = "[Append 3, Prepend 5, Append 4, Append 5, Delete 3]"
  let ?s = "(LL_Init \<lparr>head = Some 9, tail = None, count = 7\<rparr>, \<lparr>nxt = (\<lambda>_. None), prv = Some\<rparr>)"
  obtain l' m' where r: "fold ll_step ?ops ?s = (l', m')" by (cases "fold ll_step ?ops ?s")
  show ?thesis using llist_refines_sequence [OF _ r] r by simp
qed

text \<open>
  \<open>LL_ForEach\<close> on a list terminates, and its result is that of visiting the represented
  nodes in order and stopping at the first callback that returns nonzero, even when each
  callback unlinks or frees the very node it is given: the callback only has to keep the
  nodes that follow linked forwards.
\<close>

theorem LL_ForEach_visits_in_order:
  assumes "dll (mem s) l xs"
    and "\<forall>e rest t t'. fwd (mem t) (e # rest) \<and> distinct (e # rest) \<and> f e t = Inr (0, t')
      \<longrightarrow> fwd (mem t') rest"
  shows "LL_ForEach mem l f s = visit f xs s"
proof -
  have "foreach_loop mem f (opt_hd xs) s = Some (visit f xs s)"
    using assms dll_fwd [OF assms(1)] dllD(1) [OF assms(1)]
    by (intro foreach_loop_visit) blast+
  then show ?thesis using dllD(3) [OF assms(1)] by (simp add: LL_ForEach_def)
qed

text \<open>The witness: a callback that re-initialises (and so unlinks) each node it visits.\<close>

theorem LL_ForEach_visits_in_order_witness:
  "LL_ForEach id \<lparr>head = Some 1, tail = Some 2, count = 2\<rparr> (\<lambda>e m. Inr (0, LL_InitElement e m))
     \<lparr>nxt = [1 \<mapsto> 2], prv = [2 \<mapsto> 1]\<rparr>
   = Inr (None, LL_InitElement 2 (LL_InitElement 1 \<lparr>nxt = [1 \<mapsto> 2], prv = [2 \<mapsto> 1]\<rparr>))"
proof -
  have keep: "fwd (LL_InitElement e t) rest" if "fwd t (e # rest)" "distinct (e # rest)" for e t rest
  proof -
    have "e \<notin> set ys \<Longrightarrow> fwd t ys \<Longrightarrow> fwd (LL_InitElement e t) ys" for ys
      by (induction ys) (auto simp: LL_InitElement_def LL_InList_def)
    with that show ?thesis by simp
  qed
  have d: "dll \<lparr>nxt = [1 \<mapsto> 2], prv = [2 \<mapsto> 1]\<rparr> \<lparr>head = Some 1, tail = Some 2, count = 2\<rparr> [1, 2]"
    by (simp add: dll_def)
  show ?thesis
    by (subst LL_ForEach_visits_in_order [where xs = "[1, 2]"]) (use d keep in auto)
qed

text \<open>
  C36: \<open>LListAddSort\<close> puts a detached node after every node that compares less or equal and
  before the rest, so a list that is sorted for a total preorder stays sorted and equal nodes
  keep their order of insertion.
\<close>

theorem LListAddSort_keeps_order:
  assumes "dll m (slist s) xs" and "prv m e = Some e" and "scmp s = Some cmp"
    and "sorted_wrt (\<lambda>x y. cmp x y c \<le> 0) xs"
    and "\<forall>x y z. cmp x y c \<le> 0 \<and> cmp y z c \<le> 0 \<longrightarrow> cmp x z c \<le> 0"
    and "\<forall>x y. cmp x y c \<le> 0 \<or> cmp y x c \<le> 0"
  shows "\<exists>s' m' us vs. LListAddSort s e c m = Inr (s', m') \<and> xs = us @ vs
    \<and> dll m' (slist s') (us @ e # vs) \<and> sorted_wrt (\<lambda>x y. cmp x y c \<le> 0) (us @ e # vs)
    \<and> (\<forall>x \<in> set us. cmp x e c \<le> 0) \<and> (\<forall>x \<in> set vs. 0 < cmp x e c)"
proof -
  let ?us = "takeWhile (\<lambda>x. cmp x e c \<le> 0) xs" and ?vs = "dropWhile (\<lambda>x. cmp x e c \<le> 0) xs"
  have srt: "sorted_wrt (\<lambda>x y. cmp x y c \<le> 0) (?us @ e # ?vs)"
    using assms(4-6) by (intro sorted_wrt_insert [where cmp = "\<lambda>x y. cmp x y c"]) blast+
  have vs: "\<forall>x \<in> set ?vs. 0 < cmp x e c"
  proof (cases ?vs)
    case Nil
    then show ?thesis by (metis empty_iff list.set(1))
  next
    case (Cons y ys)
    then have y: "\<not> cmp y e c \<le> 0" by (simp add: dropWhile_eq_Cons_conv)
    have "sorted_wrt (\<lambda>x y. cmp x y c \<le> 0) (y # ys)"
      using srt unfolding Cons sorted_wrt_append sorted_wrt.simps by blast
    then have "\<forall>x \<in> set ys. cmp y x c \<le> 0" by simp
    then have "\<forall>x \<in> set (y # ys). \<not> cmp x e c \<le> 0"
      using y assms(5) unfolding set_simps by blast
    then show ?thesis unfolding Cons by (simp add: not_le)
  qed
  have us: "\<forall>x \<in> set ?us. cmp x e c \<le> 0" by (auto dest: set_takeWhileD)
  obtain s' m' where "LListAddSort s e c m = Inr (s', m')" "dll m' (slist s') (?us @ e # ?vs)"
    using LListAddSort_eq [OF assms(1-3), of c] by blast
  moreover have "xs = ?us @ ?vs" by simp
  ultimately show ?thesis using srt us vs by blast
qed

theorem LListAddSort_keeps_order_witness:
  "\<exists>s' m'. LListAddSort
      \<lparr>slist = \<lparr>head = Some 1, tail = Some 3, count = 2\<rparr>, scmp = Some (\<lambda>x y _. int x - int y)\<rparr> 2 ()
      \<lparr>nxt = [1 \<mapsto> 3], prv = [2 \<mapsto> 2, 3 \<mapsto> 1]\<rparr> = Inr (s', m')
    \<and> dll m' (slist s') [1, 2, 3]"
proof -
  let ?s = "\<lparr>slist = \<lparr>head = Some 1, tail = Some 3, count = 2\<rparr>,
      scmp = Some (\<lambda>x y (_::unit). int x - int y)\<rparr>"
  let ?m = "\<lparr>nxt = [1 \<mapsto> 3], prv = [2 \<mapsto> 2, 3 \<mapsto> (1::nat)]\<rparr>"
  have d: "dll ?m (slist ?s) [1, 3]" by (simp add: dll_def)
  have "\<exists>s' m' us vs. LListAddSort ?s 2 () ?m = Inr (s', m') \<and> [1, 3] = us @ vs
    \<and> dll m' (slist s') (us @ 2 # vs)
    \<and> sorted_wrt (\<lambda>x y. int x - int y \<le> 0) (us @ 2 # vs)
    \<and> (\<forall>x \<in> set us. int x - int 2 \<le> 0) \<and> (\<forall>x \<in> set vs. 0 < int x - int 2)"
    by (rule LListAddSort_keeps_order [OF d]) auto
  then obtain s' m' us vs where "LListAddSort ?s 2 () ?m = Inr (s', m')"
    and "dll m' (slist s') (us @ 2 # vs)" and uv: "[1, 3] = us @ vs"
    and "\<forall>x \<in> set us. int x - int 2 \<le> 0" "\<forall>x \<in> set vs. 0 < int x - int 2"
    by blast
  moreover from uv have "us = [] \<and> vs = [1, 3] \<or> us = [1] \<and> vs = [3] \<or> us = [1, 3] \<and> vs = []"
    by (auto simp: Cons_eq_append_conv)
  ultimately have "LListAddSort ?s 2 () ?m = Inr (s', m') \<and> dll m' (slist s') [1, 2, 3]" by auto
  then show ?thesis by blast
qed

text \<open>
  Detaching a list and attaching its first node to the emptied header again restores the
  header; on a header that was not emptied first \<open>LL_Retach\<close> adds the number of nodes to the
  stale count instead of replacing it.
\<close>

theorem LL_Detach_Retach_roundtrip:
  assumes "dll m l xs"
  shows "LL_Retach m (LL_Detach l) (LL_First l) = Inr l
    \<and> LL_Retach m k (LL_First l) = Inr (k\<lparr>head := head l, tail := tail l, count := count k + count l\<rparr>)"
  using LL_Retach_eq [OF dll_fwd [OF assms]] dllD [OF assms] by (simp add: LL_First_def LL_Detach_def)

theorem LL_Detach_Retach_roundtrip_witness:
  "LL_Retach \<lparr>nxt = [1 \<mapsto> 2], prv = [2 \<mapsto> 1]\<rparr> (LL_Detach \<lparr>head = Some 1, tail = Some 2, count = 2\<rparr>)
     (Some 1) = Inr \<lparr>head = Some 1, tail = Some 2, count = 2\<rparr>"
proof -
  have "dll \<lparr>nxt = [1 \<mapsto> 2], prv = [2 \<mapsto> 1]\<rparr> \<lparr>head = Some 1, tail = Some 2, count = 2\<rparr> [1, 2]"
    by (simp add: dll_def)
  from LL_Detach_Retach_roundtrip [OF this] show ?thesis by (simp add: LL_First_def LL_Detach_def)
qed

text \<open>
  \<open>LLE_AddAtStart\<close> finds the first node of a linked chain and links the new node in front of
  it, but called on a node that belongs to no list it never returns, because such a node is its
  own predecessor.
\<close>

theorem LLE_AddAtStart_behaviour:
  "(chain m None (xs @ [x]) q \<longrightarrow> LLE_AddAtStart x e m = Inr (LLE_AddBefore (hd (xs @ [x])) e m))
   \<and> (\<not> LL_InList m x \<longrightarrow> LLE_AddAtStart x e m = Inl Diverges)"
proof (intro conjI impI)
  assume "chain m None (xs @ [x]) q"
  then show "LLE_AddAtStart x e m = Inr (LLE_AddBefore (hd (xs @ [x])) e m)"
    using first_loop_eq [of m "xs @ [x]" q] by (simp add: LLE_AddAtStart_def)
next
  assume "\<not> LL_InList m x"
  then have "first_loop m x = None"
    using first_loop_self [of m x] by (cases "first_loop m x") (auto simp: LL_InList_def)
  then show "LLE_AddAtStart x e m = Inl Diverges" by (simp add: LLE_AddAtStart_def)
qed

theorem LLE_AddAtStart_behaviour_witness:
  "LLE_AddAtStart 2 7 \<lparr>nxt = [1 \<mapsto> 2], prv = [2 \<mapsto> 1]\<rparr>
     = Inr (LLE_AddBefore 1 7 \<lparr>nxt = [1 \<mapsto> 2], prv = [2 \<mapsto> 1]\<rparr>)
   \<and> LLE_AddAtStart 4 7 \<lparr>nxt = (\<lambda>_. None), prv = Some\<rparr> = Inl Diverges"
  using LLE_AddAtStart_behaviour [of "\<lparr>nxt = [1 \<mapsto> 2], prv = [2 \<mapsto> 1]\<rparr>" "[1]" 2 None 7]
    LLE_AddAtStart_behaviour [of "\<lparr>nxt = (\<lambda>_. None), prv = Some\<rparr>" "[]" 4 None 7]
  by (simp add: LL_InList_def)

end
