(* ===== verification/Json.thy ===== *)
theory Json imports Prelude begin

text \<open>
  The part of the json-c interface (\<open>common/json-c/include/json_object.h\<close>,
  \<open>json_tokener.h\<close>) that the configuration parsers call.  The library is linked as a binary,
  so its functions are a parameter: a record over an abstract type \<open>'j\<close> of object handles,
  in which the C pointer NULL is one of the values (json-c represents the JSON \<open>null\<close> by it).

  \<open>json_int32\<close> is the documented range of \<open>json_object_get_int\<close>.  The concrete record
  \<open>jval_api\<close> is an instance that the witnesses compute with.

  The theory also holds the loops over arrays and over the fixed item names that all parsers
  are made of, and the file reading loop both programs share.
\<close>

section \<open>The interface\<close>

datatype json_type =
    json_type_null | json_type_boolean | json_type_double | json_type_int
  | json_type_object | json_type_array | json_type_string

record 'j json_api =
  jtype :: "'j \<Rightarrow> json_type"
  jget_ex :: "'j \<Rightarrow> string \<Rightarrow> 'j option"
  jstring :: "'j \<Rightarrow> string option"
  jint :: "'j \<Rightarrow> int"
  jbool :: "'j \<Rightarrow> bool"
  jlen :: "'j \<Rightarrow> nat"
  jidx :: "'j \<Rightarrow> nat \<Rightarrow> 'j"
  jparse :: "string \<Rightarrow> 'j option"

definition json_int32 :: "'j json_api \<Rightarrow> bool" where
  "json_int32 api \<longleftrightarrow> (\<forall>j. - (2 ^ 31) \<le> jint api j \<and> jint api j < 2 ^ 31)"

text \<open>\<open>strdup(json_object_get_string(v))\<close>: the string of a JSON null is NULL.\<close>

definition jstrdup :: "'j json_api \<Rightarrow> 'j \<Rightarrow> string run" where
  "jstrdup api v = deref (jstring api v)"

section \<open>A concrete instance\<close>

datatype jval =
  JNull | JBool bool | JInt int | JStr string | JArr "jval list" | JObj "(string \<times> jval) list"

definition clamp32 :: "int \<Rightarrow> int" where
  "clamp32 i = max (- (2 ^ 31)) (min (2 ^ 31 - 1) i)"

definition jval_api :: "(string \<Rightarrow> jval option) \<Rightarrow> jval json_api" where
  "jval_api p = \<lparr>
     jtype = (\<lambda>v. case v of JNull \<Rightarrow> json_type_null | JBool _ \<Rightarrow> json_type_boolean
       | JInt _ \<Rightarrow> json_type_int | JStr _ \<Rightarrow> json_type_string | JArr _ \<Rightarrow> json_type_array
       | JObj _ \<Rightarrow> json_type_object),
     jget_ex = (\<lambda>v k. case v of JObj kvs \<Rightarrow> map_of kvs k | _ \<Rightarrow> None),
     jstring = (\<lambda>v. case v of JStr s \<Rightarrow> Some s | JNull \<Rightarrow> None | _ \<Rightarrow> Some []),
     jint = (\<lambda>v. case v of JInt i \<Rightarrow> clamp32 i | JBool b \<Rightarrow> of_bool b | _ \<Rightarrow> 0),
     jbool = (\<lambda>v. case v of JBool b \<Rightarrow> b | JInt i \<Rightarrow> i \<noteq> 0 | _ \<Rightarrow> False),
     jlen = (\<lambda>v. case v of JArr vs \<Rightarrow> length vs | _ \<Rightarrow> 0),
     jidx = (\<lambda>v i. case v of JArr vs \<Rightarrow> if i < length vs then vs ! i else JNull | _ \<Rightarrow> JNull),
     jparse = p\<rparr>"

lemma jval_api_int32: "json_int32 (jval_api p)"
  by (auto simp: json_int32_def jval_api_def clamp32_def split: jval.splits)

section \<open>Loops with early return\<close>

text \<open>
  \<open>run_each f xs s\<close> is a \<open>for\<close> loop over \<open>xs\<close> whose body may return a nonzero code from the
  enclosing function; falling out of the loop gives 0.
\<close>

fun run_each :: "('a \<Rightarrow> 's \<Rightarrow> (int \<times> 's) run) \<Rightarrow> 'a list \<Rightarrow> 's \<Rightarrow> (int \<times> 's) run" where
  "run_each f [] s = Inr (0, s)"
| "run_each f (x # xs) s =
     bind_run (f x s) (\<lambda>(r, s'). if r \<noteq> 0 then Inr (r, s') else run_each f xs s')"

lemma run_each_append:
  "run_each f (xs @ ys) s =
     bind_run (run_each f xs s) (\<lambda>(r, s'). if r \<noteq> 0 then Inr (r, s') else run_each f ys s')"
proof (induction xs arbitrary: s)
  case Nil
  then show ?case by simp
next
  case (Cons x xs)
  then show ?case by (cases "f x s") auto
qed

lemma run_each_cong:
  "xs = ys \<Longrightarrow> (\<And>x s. x \<in> set ys \<Longrightarrow> f x s = g x s) \<Longrightarrow> run_each f xs s = run_each g ys s"
proof (induction xs arbitrary: ys s)
  case Nil
  then show ?case by auto
next
  case (Cons x xs)
  then show ?case by (auto intro!: bind_run_cong)
qed

lemma run_each_keeps:
  assumes "run_each f xs s = Inr (r, s')"
    and "\<And>x t c t'. x \<in> set xs \<Longrightarrow> f x t = Inr (c, t') \<Longrightarrow> g t' = g t"
  shows "g s' = g s"
  using assms
proof (induction xs arbitrary: s)
  case Nil
  then show ?case by simp
next
  case (Cons x xs)
  from Cons.prems(1) obtain c t where t: "f x s = Inr (c, t)"
    and rest: "(if c \<noteq> 0 then Inr (c, t) else run_each f xs t) = Inr (r, s')"
    by (auto simp: bind_run_eq_Inr)
  have gt: "g t = g s" by (rule Cons.prems(2) [OF _ t]) simp
  show ?case
  proof (cases "c = 0")
    case True
    with rest have "run_each f xs t = Inr (r, s')" by simp
    then have "g s' = g t" by (rule Cons.IH) (auto intro: Cons.prems(2))
    with gt show ?thesis by simp
  next
    case False
    with rest gt show ?thesis by simp
  qed
qed

text \<open>
  The decoding of a value is a partial function; a run agrees with it when it succeeds exactly
  where the function is defined and otherwise reports -1 or stops at a NULL string.
\<close>

definition agrees :: "(int \<times> 's) run \<Rightarrow> ('a \<Rightarrow> 's \<Rightarrow> bool) \<Rightarrow> 'a option \<Rightarrow> bool" where
  "agrees r P d = (case d of
      Some v \<Rightarrow> (\<exists>s. r = Inr (0, s) \<and> P v s)
    | None \<Rightarrow> r = Inl NullDeref \<or> (\<exists>s. r = Inr (-1, s)))"

lemma agrees_Some: "agrees r P (Some v) \<longleftrightarrow> (\<exists>s. r = Inr (0, s) \<and> P v s)"
  by (simp add: agrees_def)

lemma agrees_None: "agrees r P None \<longleftrightarrow> r = Inl NullDeref \<or> (\<exists>s. r = Inr (-1, s))"
  by (simp add: agrees_def)

lemma agrees_mono: "agrees r P d \<Longrightarrow> (\<And>v s. P v s \<Longrightarrow> Q v s) \<Longrightarrow> agrees r Q d"
  by (cases d) (auto simp: agrees_def)

text \<open>Sequencing of agreement: a step of the code against a step of the decoder.\<close>

lemma agrees_bind:
  assumes "agrees r P d" and "\<And>v s. P v s \<Longrightarrow> agrees (k s) Q (e v)"
  shows "agrees (bind_run r (\<lambda>(c, s). if c \<noteq> 0 then Inr (c, s) else k s)) Q (Option.bind d e)"
proof (cases d)
  case None
  with assms(1) show ?thesis by (auto simp: agrees_None)
next
  case (Some v)
  with assms(1) obtain s where "r = Inr (0, s)" "P v s" by (auto simp: agrees_Some)
  with assms(2) [of v s] Some show ?thesis by simp
qed

lemma agrees_code:
  "agrees r P d \<Longrightarrow> agrees (bind_run r (\<lambda>(c, s). Inr (if c \<noteq> 0 then -1 else 0, s))) P d"
  by (cases d) (auto simp: agrees_def)

fun map_opt :: "('a \<Rightarrow> 'b option) \<Rightarrow> 'a list \<Rightarrow> 'b list option" where
  "map_opt f [] = Some []"
| "map_opt f (x # xs) = (case f x of
      None \<Rightarrow> None
    | Some y \<Rightarrow> (case map_opt f xs of None \<Rightarrow> None | Some ys \<Rightarrow> Some (y # ys)))"

lemma run_each_agrees:
  assumes step: "\<And>x vs s. P vs s \<Longrightarrow> agrees (f x s) (\<lambda>v s'. P (vs @ [v]) s') (d x)"
    and "P vs s"
  shows "agrees (run_each f xs s) (\<lambda>ws s'. P (vs @ ws) s') (map_opt d xs)"
  using assms(2)
proof (induction xs arbitrary: s vs)
  case Nil
  then show ?case by (simp add: agrees_def)
next
  case (Cons x xs)
  note st = step [OF Cons.prems, of x]
  show ?case
  proof (cases "d x")
    case None
    with st show ?thesis by (auto simp: agrees_def)
  next
    case (Some v)
    with st obtain s1 where s1: "f x s = Inr (0, s1)" "P (vs @ [v]) s1" by (auto simp: agrees_def)
    from Cons.IH [OF s1(2)] s1(1) Some show ?thesis
      by (auto simp: agrees_def split: option.splits)
  qed
qed

lemma map_opt_map: "map_opt f (map g xs) = map_opt (\<lambda>x. f (g x)) xs"
  by (induction xs) (auto split: option.splits)

lemma map_opt_length: "map_opt f xs = Some ys \<Longrightarrow> length ys = length xs"
  by (induction xs arbitrary: ys) (auto split: option.splits)

lemma map_opt_nth:
  "map_opt f xs = Some ys \<Longrightarrow> i < length xs \<Longrightarrow> f (xs ! i) = Some (ys ! i)"
proof (induction xs arbitrary: ys i)
  case Nil
  then show ?case by simp
next
  case (Cons x xs)
  then show ?case by (cases i) (auto split: option.splits)
qed

text \<open>The elements of an array, in order.\<close>

definition jelems :: "'j json_api \<Rightarrow> 'j \<Rightarrow> 'j list" where
  "jelems api j = map (jidx api j) [0..<jlen api j]"

section \<open>Reading the configuration file\<close>

text \<open>
  \<open>file_env\<close> is what the C library decides: the content of the files that can be opened, the
  number of bytes each successive \<open>fread\<close> delivers at most, the bytes that a fresh \<open>malloc\<close>
  block holds and those that follow the block in memory.
\<close>

record file_env =
  file_at :: "string \<Rightarrow> string option"
  chunks :: "nat \<Rightarrow> nat"
  fresh_bytes :: "nat \<Rightarrow> string"
  bytes_behind :: string

text \<open>
  Every \<open>fread\<close> goes to the start of \<open>buffer\<close>; a call that delivers nothing is repeated for
  ever when nothing more ever comes.  \<open>i\<close> counts the calls, \<open>pos\<close> is the file position.
\<close>

partial_function (option) read_loop ::
  "(nat \<Rightarrow> nat) \<Rightarrow> string \<Rightarrow> nat \<Rightarrow> nat \<Rightarrow> string \<Rightarrow> string option" where
  "read_loop ch content i pos buffer =
     (if length content \<le> pos then Some buffer
      else let n = min (ch i) (length content - pos);
               data = take n (drop pos content)
           in read_loop ch content (Suc i) (pos + n) (data @ drop n buffer))"

definition c_string :: "string \<Rightarrow> string" where
  "c_string s = takeWhile (\<lambda>c. c \<noteq> CHR 0x00) s"

text \<open>
  The text that \<open>json_tokener_parse\<close> is given: the buffer is not terminated, so the string
  goes on with what lies behind it up to the next NUL.
\<close>

definition read_config :: "file_env \<Rightarrow> string \<Rightarrow> string run" where
  "read_config env filename = (case file_at env filename of
      None \<Rightarrow> Inl NullDeref
    | Some content \<Rightarrow>
        run_of (map_option (\<lambda>b. Inr (c_string (b @ bytes_behind env)))
          (read_loop (chunks env) content 0 0 (fresh_bytes env (length content)))))"

lemma read_loop_at_once:
  assumes "length content \<le> ch 0" and "length buffer = length content"
  shows "read_loop ch content 0 0 buffer = Some content"
proof (cases "content = []")
  case True
  with assms show ?thesis by (simp add: read_loop.simps)
next
  case False
  have "read_loop ch content 0 0 buffer = read_loop ch content 1 (length content) content"
    using assms False by (simp add: read_loop.simps [of ch content 0])
  also have "\<dots> = Some content" by (simp add: read_loop.simps)
  finally show ?thesis .
qed

lemma c_string_id: "CHR 0x00 \<notin> set s \<Longrightarrow> c_string (s @ CHR 0x00 # t) = s"
  by (simp add: c_string_def takeWhile_append takeWhile_eq_all_conv)

text \<open>A file that is delivered whole is passed on as it is, followed by the bytes behind.\<close>

lemma read_config_whole:
  assumes "file_at env fn = Some content" and "length content \<le> chunks env 0"
    and "length (fresh_bytes env (length content)) = length content"
  shows "read_config env fn = Inr (c_string (content @ bytes_behind env))"
  using read_loop_at_once [of content "chunks env"] assms by (simp add: read_config_def)

lemma read_config_missing: "file_at env fn = None \<Longrightarrow> read_config env fn = Inl NullDeref"
  by (simp add: read_config_def)

text \<open>When \<open>fread\<close> delivers nothing (a read error), the loop never ends.\<close>

lemma read_loop_stuck:
  assumes "read_loop ch content i pos buffer = Some r" and "\<forall>k. ch k = 0"
  shows "length content \<le> pos"
proof -
  have "(\<forall>k. ch k = 0) \<longrightarrow> length content \<le> pos"
  proof (rule read_loop.raw_induct [OF _ assms(1),
        where P = "\<lambda>ch content i pos buffer r. (\<forall>k. ch k = 0) \<longrightarrow> length content \<le> pos"])
    fix rl ch content i pos buffer r
    assume "\<And>ch content i pos buffer r. rl ch content i pos buffer = Some r
        \<Longrightarrow> (\<forall>k. ch k = 0) \<longrightarrow> length content \<le> pos"
      and "(if length content \<le> pos then Some buffer
            else let n = min (ch i) (length content - pos);
                     data = take n (drop pos content)
                 in rl ch content (Suc i) (pos + n) (data @ drop n buffer)) = Some r"
    then show "(\<forall>k. ch k = 0) \<longrightarrow> length content \<le> pos"
      by (force simp: Let_def split: if_splits)
  qed
  with assms(2) show ?thesis by blast
qed

lemma read_config_stuck:
  "file_at env fn = Some content \<Longrightarrow> content \<noteq> [] \<Longrightarrow> \<forall>k. chunks env k = 0
     \<Longrightarrow> read_config env fn = Inl Diverges"
  using read_loop_stuck [of "chunks env" content 0 0 "fresh_bytes env (length content)"]
  by (cases "read_loop (chunks env) content 0 0 (fresh_bytes env (length content))")
    (auto simp: read_config_def)

section \<open>Properties\<close>

text \<open>
  When the file arrives in two pieces, the second one is stored over the beginning of the
  first, so the parser is given a text that is not the file: the tail of the file, then what is
  left of the first piece, then bytes that were never written.
\<close>

theorem short_read_scrambles:
  assumes "file_at env fn = Some (a @ b)" and "chunks env 0 = length a" and "a \<noteq> []" and "b \<noteq> []"
    and "length b \<le> chunks env 1" and "length b \<le> length a"
    and "length (fresh_bytes env (length (a @ b))) = length (a @ b)"
  shows "read_config env fn = Inr (c_string
    (b @ drop (length b) a @ drop (length a) (fresh_bytes env (length (a @ b))) @ bytes_behind env))"
proof -
  let ?fr = "fresh_bytes env (length (a @ b))" and ?ch = "chunks env"
  have "read_loop ?ch (a @ b) 0 0 ?fr
      = read_loop ?ch (a @ b) 1 (length a) (a @ drop (length a) ?fr)"
    using assms by (simp add: read_loop.simps [of _ _ 0] Let_def)
  also have "\<dots> = read_loop ?ch (a @ b) 2 (length a + length b)
      (b @ drop (length b) (a @ drop (length a) ?fr))"
    using assms by (simp add: read_loop.simps [of _ _ "Suc 0"] min_absorb2 numeral_2_eq_2 Let_def)
  also have "\<dots> = Some (b @ drop (length b) (a @ drop (length a) ?fr))"
    by (simp add: read_loop.simps [of _ _ 2])
  finally show ?thesis using assms by (simp add: read_config_def)
qed

theorem short_read_scrambles_witness:
  "read_config \<lparr>file_at = [''f'' \<mapsto> ''abcd''], chunks = (\<lambda>i. if i = 0 then 3 else 10),
     fresh_bytes = (\<lambda>n. replicate n (CHR ''?'')), bytes_behind = [CHR 0x00]\<rparr> ''f'' = Inr ''dbc?''"
  using short_read_scrambles [of "\<lparr>file_at = [''f'' \<mapsto> ''abcd''], chunks = (\<lambda>i. if i = 0 then 3 else 10),
     fresh_bytes = (\<lambda>n. replicate n (CHR ''?'')), bytes_behind = [CHR 0x00]\<rparr>" "''f''" "''abc''" "''d''"]
  by (simp add: c_string_def)

end
