(* ===== verification/ConfStore.thy ===== *)
theory ConfStore imports LList Json begin

text \<open>
  How both programs keep their configuration: every \<open>malloc\<close>ed list element owns one
  configuration object (the pointer field next to its \<open>LL_ELEMENT_T\<close>), elements are appended
  to one of three \<open>LL_T\<close> headers that share the memory of the links, and \<open>brk\<close> is the
  next fresh address.  \<open>holds\<close> says which objects a header represents; its lemmas come from the
  list interface of theory \<open>LList\<close>.
\<close>

section \<open>Lists of configuration objects\<close>

definition holds ::
  "ll_mem \<Rightarrow> addr \<Rightarrow> ll_t \<Rightarrow> (addr \<Rightarrow> 'a) \<Rightarrow> addr set \<Rightarrow> 'a list \<Rightarrow> bool" where
  "holds m b l obj A vs \<longleftrightarrow>
     (\<exists>xs. dll m l xs \<and> set xs = A \<and> (\<forall>x \<in> A. x < b) \<and> map obj xs = vs)"

lemma holds_init: "holds m b (LL_Init l) obj {} []"
  by (simp add: holds_def dll_init)

lemma holds_brk: "holds m b l obj A vs \<Longrightarrow> b \<notin> A"
  by (auto simp: holds_def)

lemma holds_obj_cong:
  "holds m b l obj A vs \<Longrightarrow> (\<And>x. x < b \<Longrightarrow> obj' x = obj x) \<Longrightarrow> holds m b l obj' A vs"
  unfolding holds_def by (metis (no_types, lifting) map_eq_conv)

lemma holds_obj_fresh [simp]: "holds m b l obj A vs \<Longrightarrow> holds m b l (obj(b := v)) A vs"
  by (rule holds_obj_cong) auto

lemma holds_links:
  assumes "holds m b l obj A vs"
  shows "holds (LL_InitElement b m) (Suc b) l obj A vs"
proof -
  from assms obtain xs where d: "dll m l xs" "set xs = A" "\<forall>x \<in> A. x < b" "map obj xs = vs"
    by (auto simp: holds_def)
  then have "dll (LL_InitElement b m) l xs" by (intro ll.rep_init) auto
  with d show ?thesis by (fastforce simp: holds_def)
qed

lemma holds_push:
  assumes "holds m b l obj A vs" and "LListAdd l b (LL_InitElement b m) = (l', m')"
  shows "holds m' (Suc b) l' (obj(b := v)) (insert b A) (vs @ [v])"
proof -
  from assms(1) obtain xs where d: "dll m l xs" "set xs = A" "\<forall>x \<in> A. x < b" "map obj xs = vs"
    by (auto simp: holds_def)
  moreover from this have "b \<notin> set xs" by auto
  moreover from this d(1) have "dll m' l' (xs @ [b])" using assms(2) by (intro ll.rep_add)
  ultimately show ?thesis unfolding holds_def
    by (intro exI [of _ "xs @ [b]"]) (auto simp: less_SucI map_fun_upd)
qed

lemma holds_keep:
  assumes "holds m b l obj A vs" and "LListAdd l b (LL_InitElement b m) = (l', m')"
    and "holds m b k obj' B ws" and "A \<inter> B = {}"
  shows "holds m' (Suc b) k obj' B ws"
proof -
  from assms(1) obtain xs where x: "dll m l xs" "set xs = A" "b \<notin> set xs" by (auto simp: holds_def)
  from assms(3) obtain ys where y: "dll m k ys" "set ys = B" "\<forall>x \<in> B. x < b" "map obj' ys = ws"
    by (auto simp: holds_def)
  have "set ys \<inter> insert b (set xs) = {}" using x y assms(4) by auto
  then have "dll m' k ys" by (rule ll.rep_other [OF x(1,3) assms(2) y(1)])
  with y show ?thesis by (fastforce simp: holds_def)
qed

lemma holds_count: "holds m b l obj A vs \<Longrightarrow> count l = int (length vs)"
  by (auto simp: holds_def dllD(5))

lemma holds_count_zero: "holds m b l obj A vs \<Longrightarrow> count l = 0 \<longleftrightarrow> vs = []"
  by (simp add: holds_count)

text \<open>
  Iterating over a list whose callback depends on the object only and leaves the links alone:
  the run over the represented objects.
\<close>

fun visit_objs :: "('a \<Rightarrow> 's \<Rightarrow> (int \<times> 's) run) \<Rightarrow> 'a list \<Rightarrow> 's \<Rightarrow> (bool \<times> 's) run" where
  "visit_objs f [] s = Inr (False, s)"
| "visit_objs f (v # vs) s =
     bind_run (f v s) (\<lambda>(r, s'). if r \<noteq> 0 then Inr (True, s') else visit_objs f vs s')"

lemma visit_map:
  "bind_run (visit (\<lambda>e. f (obj e)) xs s) (\<lambda>(p, s'). Inr (p \<noteq> None, s'))
     = visit_objs f (map obj xs) s"
proof (induction xs arbitrary: s)
  case Nil
  then show ?case by simp
next
  case (Cons x xs)
  then show ?case by (cases "f (obj x) s") auto
qed

lemma holds_foreach:
  assumes "holds m b l obj A vs"
  shows "bind_run (LL_ForEach (\<lambda>_. m) l (\<lambda>e. f (obj e)) s) (\<lambda>(p, s'). Inr (p \<noteq> None, s'))
    = visit_objs f vs s"
proof -
  from assms obtain xs where "dll m l xs" "map obj xs = vs" by (auto simp: holds_def)
  then show ?thesis
    using ll.foreach_visit [of "\<lambda>_. m" s l xs "\<lambda>e. f (obj e)"] visit_map [of f obj xs s] by simp
qed

section \<open>Parsing the items of an object\<close>

text \<open>
  The inner loops of the parsers look up a fixed sequence of item names; \<open>parse_items\<close> is the
  loop in which a missing item is an error, \<open>parse_optional\<close> the one that skips it.
\<close>

definition parse_items ::
  "'j json_api \<Rightarrow> (string \<Rightarrow> 'j \<Rightarrow> 'a \<Rightarrow> (int \<times> 'a) run) \<Rightarrow> 'j \<Rightarrow> string list \<Rightarrow> 'a
     \<Rightarrow> (int \<times> 'a) run" where
  "parse_items api setit j items c =
     run_each (\<lambda>it c. case jget_ex api j it of None \<Rightarrow> Inr (-1, c) | Some v \<Rightarrow> setit it v c) items c"

definition parse_optional ::
  "'j json_api \<Rightarrow> (string \<Rightarrow> 'j \<Rightarrow> 'a \<Rightarrow> (int \<times> 'a) run) \<Rightarrow> 'j \<Rightarrow> string list \<Rightarrow> 'a
     \<Rightarrow> (int \<times> 'a) run" where
  "parse_optional api setit j items c =
     run_each (\<lambda>it c. case jget_ex api j it of None \<Rightarrow> Inr (0, c) | Some v \<Rightarrow> setit it v c) items c"

lemma parse_items_Nil [simp]: "parse_items api setit j [] c = Inr (0, c)"
  by (simp add: parse_items_def)

lemma parse_items_Cons:
  "parse_items api setit j (it # its) c = (case jget_ex api j it of
      None \<Rightarrow> Inr (-1, c)
    | Some v \<Rightarrow> bind_run (setit it v c)
        (\<lambda>(r, c). if r \<noteq> 0 then Inr (r, c) else parse_items api setit j its c))"
  unfolding parse_items_def by (simp split: option.splits)

lemma parse_optional_Nil [simp]: "parse_optional api setit j [] c = Inr (0, c)"
  by (simp add: parse_optional_def)

lemma parse_optional_Cons:
  "parse_optional api setit j (it # its) c = (case jget_ex api j it of
      None \<Rightarrow> parse_optional api setit j its c
    | Some v \<Rightarrow> bind_run (setit it v c)
        (\<lambda>(r, c). if r \<noteq> 0 then Inr (r, c) else parse_optional api setit j its c))"
  unfolding parse_optional_def by (simp split: option.splits)

text \<open>Item values with a type check, as the decoders read them.\<close>

definition typed_int :: "'j json_api \<Rightarrow> 'j \<Rightarrow> int option" where
  "typed_int api v = (if jtype api v = json_type_int then Some (jint api v) else None)"

definition typed_bool :: "'j json_api \<Rightarrow> 'j \<Rightarrow> bool option" where
  "typed_bool api v = (if jtype api v = json_type_boolean then Some (jbool api v) else None)"

definition typed_string :: "'j json_api \<Rightarrow> 'j \<Rightarrow> string option" where
  "typed_string api v = (if jtype api v = json_type_string then jstring api v else None)"

text \<open>\<open>need\<close>: the item must be there; \<open>default\<close>: a missing item has a default.\<close>

definition need :: "'j json_api \<Rightarrow> 'j \<Rightarrow> string \<Rightarrow> ('j \<Rightarrow> 'a option) \<Rightarrow> 'a option" where
  "need api j k f = Option.bind (jget_ex api j k) f"

definition dflt :: "'j json_api \<Rightarrow> 'j \<Rightarrow> string \<Rightarrow> 'a \<Rightarrow> ('j \<Rightarrow> 'a option) \<Rightarrow> 'a option" where
  "dflt api j k d f = (case jget_ex api j k of None \<Rightarrow> Some d | Some v \<Rightarrow> f v)"

lemmas decode_simps = need_def dflt_def typed_int_def typed_bool_def typed_string_def
  bind_eq_Some_conv

end
