(* ===== verification/AppConf.thy ===== *)
theory AppConf imports ConfStore begin

text \<open>
  The configuration parser of the application manager, \<open>apps/app_manager/app_conf.c\<close> and
  \<open>app_conf.h\<close>: the JSON tree is turned into the global \<open>CONF\<close>, whose three lists (packet
  pools, Ethernet ports, rings) are built with \<open>LListAdd\<close>.

  The state \<open>app_mem\<close> is \<open>CONF\<close> with the memory its lists live in.  An owned pointer to an
  object or array that nobody else points to (the element's configuration object, the queue
  arrays of a port) is the object itself.  C \<open>int\<close>s are \<open>int\<close>s: they only hold what
  \<open>json_object_get_int\<close> returned.  \<open>json_live\<close> counts the JSON trees that have been parsed and
  not released.
\<close>

section \<open>Data\<close>

record pkt_pool_conf =
  pool_name :: string
  pool_size :: int
  pool_cache_size :: int
  pool_priv_size :: int
  pool_data_room_size :: int
  pool_socket_id :: int

record ring_conf =
  ring_name :: string
  ring_size :: int
  ring_single_producer :: int
  ring_single_consumer :: int
  ring_socket_id :: int

record eth_q =
  q_socket_id :: int
  q_id :: int
  q_nb_desc :: int
  q_pkt_pool_name :: "string option"

record eth_conf =
  eth_port_id :: int
  eth_promisc :: int
  eth_nb_rx_q :: int
  eth_nb_tx_q :: int
  tx_queues :: "eth_q list"
  rx_queues :: "eth_q list"

record app_conf =
  app_name :: string
  core_mask :: u64
  memory_socket :: int
  eth_port_list :: ll_t
  pkt_pool_list :: ll_t
  ring_list :: ll_t

record app_mem =
  CONF :: app_conf
  links :: ll_mem
  brk :: addr
  pool_at :: "addr \<Rightarrow> pkt_pool_conf"
  eth_at :: "addr \<Rightarrow> eth_conf"
  ring_at :: "addr \<Rightarrow> ring_conf"
  json_live :: nat

definition APP_NAME :: string where
  "APP_NAME = ''app_manager''"

section \<open>Operations\<close>

definition init_conf :: "app_mem \<Rightarrow> app_mem" where
  "init_conf s = s\<lparr>CONF := (CONF s)\<lparr>
     eth_port_list := LL_Init (eth_port_list (CONF s)),
     pkt_pool_list := LL_Init (pkt_pool_list (CONF s)),
     ring_list := LL_Init (ring_list (CONF s))\<rparr>\<rparr>"

text \<open>\<open>malloc\<close> of the element and its object, then \<open>LL_InitElement\<close>.\<close>

definition new_elem :: "app_mem \<Rightarrow> addr \<times> app_mem" where
  "new_elem s = (brk s, s\<lparr>brk := Suc (brk s), links := LL_InitElement (brk s) (links s)\<rparr>)"

definition pool_items :: "string list" where
  "pool_items = [''name'', ''private_size'', ''data_room_size'', ''cache_size'', ''socket_id'', ''size'']"

definition set_pool_item ::
  "'j json_api \<Rightarrow> string \<Rightarrow> 'j \<Rightarrow> pkt_pool_conf \<Rightarrow> (int \<times> pkt_pool_conf) run" where
  "set_pool_item api it v p =
     (if it = ''name'' then bind_run (jstrdup api v) (\<lambda>n. Inr (0, p\<lparr>pool_name := n\<rparr>))
      else if it = ''private_size'' then Inr (0, p\<lparr>pool_priv_size := jint api v\<rparr>)
      else if it = ''data_room_size'' then Inr (0, p\<lparr>pool_data_room_size := jint api v\<rparr>)
      else if it = ''cache_size'' then Inr (0, p\<lparr>pool_cache_size := jint api v\<rparr>)
      else if it = ''socket_id'' then Inr (0, p\<lparr>pool_socket_id := jint api v\<rparr>)
      else if it = ''size'' then Inr (0, p\<lparr>pool_size := jint api v\<rparr>)
      else Inr (0, p))"

definition parse_pktpool :: "'j json_api \<Rightarrow> 'j \<Rightarrow> app_mem \<Rightarrow> (int \<times> app_mem) run" where
  "parse_pktpool api j s =
     (if jtype api j \<noteq> json_type_object then Inr (-1, s)
      else let (e, s) = new_elem s in
        bind_run (parse_items api (set_pool_item api) j pool_items (pool_at s e)) (\<lambda>(r, p).
          let s = s\<lparr>pool_at := (pool_at s)(e := p)\<rparr> in
          if r \<noteq> 0 then Inr (r, s)
          else let (l, m) = LListAdd (pkt_pool_list (CONF s)) e (links s)
               in Inr (0, s\<lparr>CONF := (CONF s)\<lparr>pkt_pool_list := l\<rparr>, links := m\<rparr>)))"

definition parse_pktpools :: "'j json_api \<Rightarrow> 'j \<Rightarrow> app_mem \<Rightarrow> (int \<times> app_mem) run" where
  "parse_pktpools api jobj s =
     (if jtype api jobj \<noteq> json_type_array then Inr (-1, s)
      else run_each (\<lambda>i. parse_pktpool api (jidx api jobj i)) [0..<jlen api jobj] s)"

definition q_items :: "string list" where
  "q_items = [''q-id'', ''nb-desc'', ''pktpool-name'', ''socket-id'']"

definition set_q_item :: "'j json_api \<Rightarrow> string \<Rightarrow> 'j \<Rightarrow> eth_q \<Rightarrow> (int \<times> eth_q) run" where
  "set_q_item api it v q =
     (if it = ''q-id'' then
        if jtype api v \<noteq> json_type_int then Inr (-1, q) else Inr (0, q\<lparr>q_id := jint api v\<rparr>)
      else if it = ''nb-desc'' then
        if jtype api v \<noteq> json_type_int then Inr (-1, q) else Inr (0, q\<lparr>q_nb_desc := jint api v\<rparr>)
      else if it = ''pktpool-name'' then
        if jtype api v \<noteq> json_type_string then Inr (-1, q)
        else bind_run (jstrdup api v) (\<lambda>n. Inr (0, q\<lparr>q_pkt_pool_name := Some n\<rparr>))
      else if it = ''socket-id'' then
        if jtype api v \<noteq> json_type_int then Inr (-1, q) else Inr (0, q\<lparr>q_socket_id := jint api v\<rparr>)
      else Inr (0, q))"

definition parse_eth_queue :: "'j json_api \<Rightarrow> 'j \<Rightarrow> nat \<Rightarrow> eth_q list \<Rightarrow> (int \<times> eth_q list) run" where
  "parse_eth_queue api jarr i qs =
     (let j = jidx api jarr i in
      if jtype api j \<noteq> json_type_object then Inr (-1, qs)
      else bind_run (read_at qs i) (\<lambda>q.
        bind_run (parse_optional api (set_q_item api) j q_items q) (\<lambda>(r, q).
        bind_run (write_at qs i q) (\<lambda>qs. Inr (r, qs)))))"

definition parse_eth_queues ::
  "'j json_api \<Rightarrow> 'j \<Rightarrow> eth_q list \<Rightarrow> nat \<Rightarrow> (int \<times> eth_q list) run" where
  "parse_eth_queues api jarr qs nb_q =
     (if jtype api jarr \<noteq> json_type_array then Inr (-1, qs)
      else run_each (parse_eth_queue api jarr) [0..<nb_q] qs)"

text \<open>\<open>malloc\<close> and \<open>memset\<close> of a queue array.\<close>

definition zero_q :: eth_q where
  "zero_q = \<lparr>q_socket_id = 0, q_id = 0, q_nb_desc = 0, q_pkt_pool_name = None\<rparr>"

definition eth_items :: "string list" where
  "eth_items = [''promisc'', ''port-id'', ''tx-queues'', ''rx-queues'']"

definition set_eth_item :: "'j json_api \<Rightarrow> string \<Rightarrow> 'j \<Rightarrow> eth_conf \<Rightarrow> (int \<times> eth_conf) run" where
  "set_eth_item api it v p =
     (if it = ''port-id'' then
        if jtype api v \<noteq> json_type_int then Inr (-1, p) else Inr (0, p\<lparr>eth_port_id := jint api v\<rparr>)
      else if it = ''promisc'' then
        if jtype api v \<noteq> json_type_boolean then Inr (-1, p)
        else Inr (0, p\<lparr>eth_promisc := of_bool (jbool api v)\<rparr>)
      else if it = ''tx-queues'' then
        if jtype api v \<noteq> json_type_array then Inr (-1, p)
        else let p = p\<lparr>eth_nb_tx_q := int (jlen api v)\<rparr> in
          if jlen api v = 0 then Inr (0, p)
          else bind_run (parse_eth_queues api v (replicate (jlen api v) zero_q) (jlen api v)) (\<lambda>(r, qs).
            Inr (if r \<noteq> 0 then -1 else 0, p\<lparr>tx_queues := qs\<rparr>))
      else if it = ''rx-queues'' then
        if jtype api v \<noteq> json_type_array then Inr (-1, p)
        else let p = p\<lparr>eth_nb_rx_q := int (jlen api v)\<rparr> in
          if jlen api v = 0 then Inr (0, p)
          else bind_run (parse_eth_queues api v (replicate (jlen api v) zero_q) (jlen api v)) (\<lambda>(r, qs).
            Inr (if r \<noteq> 0 then -1 else 0, p\<lparr>rx_queues := qs\<rparr>))
      else Inr (0, p))"

definition parse_ethport :: "'j json_api \<Rightarrow> 'j \<Rightarrow> app_mem \<Rightarrow> (int \<times> app_mem) run" where
  "parse_ethport api j s =
     (if jtype api j \<noteq> json_type_object then Inr (-1, s)
      else let (e, s) = new_elem s in
        bind_run (parse_items api (set_eth_item api) j eth_items (eth_at s e)) (\<lambda>(r, p).
          let s = s\<lparr>eth_at := (eth_at s)(e := p)\<rparr> in
          if r \<noteq> 0 then Inr (r, s)
          else let (l, m) = LListAdd (eth_port_list (CONF s)) e (links s)
               in Inr (0, s\<lparr>CONF := (CONF s)\<lparr>eth_port_list := l\<rparr>, links := m\<rparr>)))"

definition parse_ethports :: "'j json_api \<Rightarrow> 'j \<Rightarrow> app_mem \<Rightarrow> (int \<times> app_mem) run" where
  "parse_ethports api jobj s =
     (if jtype api jobj \<noteq> json_type_array then Inr (-1, s)
      else run_each (\<lambda>i. parse_ethport api (jidx api jobj i)) [0..<jlen api jobj] s)"

definition ring_items :: "string list" where
  "ring_items = [''socket_id'', ''single_consumer'', ''single_producer'', ''size'', ''name'']"

definition set_ring_item :: "'j json_api \<Rightarrow> string \<Rightarrow> 'j \<Rightarrow> ring_conf \<Rightarrow> (int \<times> ring_conf) run" where
  "set_ring_item api it v p =
     (if it = ''name'' then bind_run (jstrdup api v) (\<lambda>n. Inr (0, p\<lparr>ring_name := n\<rparr>))
      else if it = ''size'' then Inr (0, p\<lparr>ring_size := jint api v\<rparr>)
      else if it = ''socket_id'' then Inr (0, p\<lparr>ring_socket_id := jint api v\<rparr>)
      else if it = ''single_consumer'' then Inr (0, p\<lparr>ring_single_consumer := of_bool (jbool api v)\<rparr>)
      else if it = ''single_producer'' then Inr (0, p\<lparr>ring_single_producer := of_bool (jbool api v)\<rparr>)
      else Inr (0, p))"

definition parse_ring :: "'j json_api \<Rightarrow> 'j \<Rightarrow> app_mem \<Rightarrow> (int \<times> app_mem) run" where
  "parse_ring api j s =
     (if jtype api j \<noteq> json_type_object then Inr (-1, s)
      else let (e, s) = new_elem s in
        bind_run (parse_items api (set_ring_item api) j ring_items (ring_at s e)) (\<lambda>(r, p).
          let s = s\<lparr>ring_at := (ring_at s)(e := p)\<rparr> in
          if r \<noteq> 0 then Inr (r, s)
          else let (l, m) = LListAdd (ring_list (CONF s)) e (links s)
               in Inr (0, s\<lparr>CONF := (CONF s)\<lparr>ring_list := l\<rparr>, links := m\<rparr>)))"

definition parse_rings :: "'j json_api \<Rightarrow> 'j \<Rightarrow> app_mem \<Rightarrow> (int \<times> app_mem) run" where
  "parse_rings api jobj s =
     (if jtype api jobj \<noteq> json_type_array then Inr (-1, s)
      else run_each (\<lambda>i. parse_ring api (jidx api jobj i)) [0..<jlen api jobj] s)"

definition parse_json_app :: "'j json_api \<Rightarrow> 'j \<Rightarrow> app_mem \<Rightarrow> (int \<times> app_mem) run" where
  "parse_json_app api jobj s = (case jget_ex api jobj ''name'' of
      None \<Rightarrow> Inr (-1, s)
    | Some jname \<Rightarrow>
        if jtype api jname \<noteq> json_type_string then Inr (-1, s)
        else bind_run (deref (jstring api jname)) (\<lambda>name.
          if strcmp name APP_NAME \<noteq> 0 then Inr (-1, s)
          else let s = s\<lparr>CONF := (CONF s)\<lparr>app_name := APP_NAME\<rparr>\<rparr> in
            case jget_ex api jobj ''core-mask'' of
              None \<Rightarrow> Inr (-1, s)
            | Some jmask \<Rightarrow>
                if jtype api jmask \<noteq> json_type_int then Inr (-1, s)
                else let s = s\<lparr>CONF := (CONF s)\<lparr>core_mask := word_of_int (jint api jmask)\<rparr>\<rparr> in
                  case jget_ex api jobj ''memory-socket'' of
                    None \<Rightarrow> Inr (-1, s)
                  | Some jsock \<Rightarrow>
                      if jtype api jsock \<noteq> json_type_int then Inr (-1, s)
                      else Inr (0, s\<lparr>CONF := (CONF s)\<lparr>memory_socket := jint api jsock\<rparr>\<rparr>)))"

definition parse_ressource :: "'j json_api \<Rightarrow> 'j \<Rightarrow> string \<Rightarrow> app_mem \<Rightarrow> (int \<times> app_mem) run" where
  "parse_ressource api jres name s = (case jget_ex api jres name of
      None \<Rightarrow> Inr (0, s)
    | Some jtab \<Rightarrow>
        bind_run (if name = ''pktpools'' then parse_pktpools api jtab s
                  else if name = ''ethports'' then parse_ethports api jtab s
                  else if name = ''rings'' then parse_rings api jtab s
                  else Inr (1, s))
          (\<lambda>(r, s). Inr (if r \<noteq> 0 then -1 else 0, s)))"

definition json_parse_ressources :: "'j json_api \<Rightarrow> 'j \<Rightarrow> app_mem \<Rightarrow> (int \<times> app_mem) run" where
  "json_parse_ressources api jres s =
     run_each (parse_ressource api jres) [''pktpools'', ''ethports'', ''rings''] s"

text \<open>
  \<open>json_object_put\<close> on the tree; the failure of \<open>_parse_json_app\<close> returns without it.
\<close>

definition json_put :: "app_mem \<Rightarrow> app_mem" where
  "json_put s = s\<lparr>json_live := json_live s - 1\<rparr>"

definition json_parse :: "'j json_api \<Rightarrow> string \<Rightarrow> app_mem \<Rightarrow> (int \<times> app_mem) run" where
  "json_parse api buffer s = (case jparse api buffer of
      None \<Rightarrow> Inr (-1, s)
    | Some jobj \<Rightarrow>
        let s = s\<lparr>json_live := json_live s + 1\<rparr> in
        case jget_ex api jobj ''app'' of
          None \<Rightarrow> Inr (-1, json_put s)
        | Some japp \<Rightarrow>
            bind_run (parse_json_app api japp s) (\<lambda>(r, s).
              if r \<noteq> 0 then Inr (-1, s)
              else case jget_ex api japp ''ressources'' of
                  None \<Rightarrow> Inr (-1, json_put s)
                | Some jres \<Rightarrow>
                    bind_run (json_parse_ressources api jres s) (\<lambda>(r, s).
                      if r \<noteq> 0 then Inr (-1, json_put s) else Inr (0, json_put s))))"

definition parse_elements ::
  "'j json_api \<Rightarrow> file_env \<Rightarrow> string \<Rightarrow> app_mem \<Rightarrow> (int \<times> app_mem) run" where
  "parse_elements api env filename s =
     bind_run (read_config env filename) (\<lambda>buffer.
     bind_run (json_parse api buffer s) (\<lambda>(r, s). Inr (if r \<noteq> 0 then -1 else 0, s)))"

definition APP_CONF_parse_file ::
  "'j json_api \<Rightarrow> file_env \<Rightarrow> string \<Rightarrow> app_mem \<Rightarrow> (int \<times> app_mem) run" where
  "APP_CONF_parse_file api env filename s =
     bind_run (parse_elements api env filename (init_conf s)) (\<lambda>(err, s).
       Inr (if err \<noteq> 0 then -1 else 0, s))"


section \<open>What the configuration text means\<close>

text \<open>The decoders read the JSON tree as a value, without memory or lists.\<close>

definition decode_pool :: "'j json_api \<Rightarrow> 'j \<Rightarrow> pkt_pool_conf option" where
  "decode_pool api j =
     (if jtype api j \<noteq> json_type_object then None
      else Option.bind (need api j ''name'' (jstring api)) (\<lambda>n.
        Option.bind (jget_ex api j ''private_size'') (\<lambda>priv.
        Option.bind (jget_ex api j ''data_room_size'') (\<lambda>room.
        Option.bind (jget_ex api j ''cache_size'') (\<lambda>cache.
        Option.bind (jget_ex api j ''socket_id'') (\<lambda>sock.
        Option.bind (jget_ex api j ''size'') (\<lambda>sz.
        Some \<lparr>pool_name = n, pool_size = jint api sz, pool_cache_size = jint api cache,
          pool_priv_size = jint api priv, pool_data_room_size = jint api room,
          pool_socket_id = jint api sock\<rparr>)))))))"

definition decode_ring :: "'j json_api \<Rightarrow> 'j \<Rightarrow> ring_conf option" where
  "decode_ring api j =
     (if jtype api j \<noteq> json_type_object then None
      else Option.bind (jget_ex api j ''socket_id'') (\<lambda>sock.
        Option.bind (jget_ex api j ''single_consumer'') (\<lambda>sc.
        Option.bind (jget_ex api j ''single_producer'') (\<lambda>sp.
        Option.bind (jget_ex api j ''size'') (\<lambda>sz.
        Option.bind (need api j ''name'' (jstring api)) (\<lambda>n.
        Some \<lparr>ring_name = n, ring_size = jint api sz,
          ring_single_producer = of_bool (jbool api sp),
          ring_single_consumer = of_bool (jbool api sc), ring_socket_id = jint api sock\<rparr>))))))"

definition decode_q :: "'j json_api \<Rightarrow> 'j \<Rightarrow> eth_q option" where
  "decode_q api j =
     (if jtype api j \<noteq> json_type_object then None
      else Option.bind (dflt api j ''q-id'' 0 (typed_int api)) (\<lambda>i.
        Option.bind (dflt api j ''nb-desc'' 0 (typed_int api)) (\<lambda>d.
        Option.bind (dflt api j ''pktpool-name'' None (\<lambda>v. map_option Some (typed_string api v))) (\<lambda>n.
        Option.bind (dflt api j ''socket-id'' 0 (typed_int api)) (\<lambda>sock.
        Some \<lparr>q_socket_id = sock, q_id = i, q_nb_desc = d, q_pkt_pool_name = n\<rparr>)))))"

definition decode_array :: "'j json_api \<Rightarrow> ('j \<Rightarrow> 'a option) \<Rightarrow> 'j \<Rightarrow> 'a list option" where
  "decode_array api d j =
     (if jtype api j \<noteq> json_type_array then None else map_opt d (jelems api j))"

definition decode_eth :: "'j json_api \<Rightarrow> 'j \<Rightarrow> eth_conf option" where
  "decode_eth api j =
     (if jtype api j \<noteq> json_type_object then None
      else Option.bind (need api j ''promisc'' (typed_bool api)) (\<lambda>p.
        Option.bind (need api j ''port-id'' (typed_int api)) (\<lambda>i.
        Option.bind (need api j ''tx-queues'' (decode_array api (decode_q api))) (\<lambda>txs.
        Option.bind (need api j ''rx-queues'' (decode_array api (decode_q api))) (\<lambda>rxs.
        Some \<lparr>eth_port_id = i, eth_promisc = of_bool p, eth_nb_rx_q = int (length rxs),
          eth_nb_tx_q = int (length txs), tx_queues = txs, rx_queues = rxs\<rparr>)))))"

definition decode_app :: "'j json_api \<Rightarrow> 'j \<Rightarrow> (u64 \<times> int) option" where
  "decode_app api j =
     Option.bind (need api j ''name'' (typed_string api)) (\<lambda>n.
       if n \<noteq> ''app_manager'' then None
       else Option.bind (need api j ''core-mask'' (typed_int api)) (\<lambda>m.
         Option.bind (need api j ''memory-socket'' (typed_int api)) (\<lambda>k.
         Some (word_of_int m, k))))"

type_synonym app_config =
  "u64 \<times> int \<times> pkt_pool_conf list \<times> eth_conf list \<times> ring_conf list"

definition decode_config :: "'j json_api \<Rightarrow> string \<Rightarrow> app_config option" where
  "decode_config api txt =
     Option.bind (jparse api txt) (\<lambda>jobj.
     Option.bind (jget_ex api jobj ''app'') (\<lambda>japp.
     Option.bind (decode_app api japp) (\<lambda>(cm, sock).
     Option.bind (jget_ex api japp ''ressources'') (\<lambda>jres.
     Option.bind (dflt api jres ''pktpools'' [] (decode_array api (decode_pool api))) (\<lambda>ps.
     Option.bind (dflt api jres ''ethports'' [] (decode_array api (decode_eth api))) (\<lambda>es.
     Option.bind (dflt api jres ''rings'' [] (decode_array api (decode_ring api))) (\<lambda>rs.
     Some (cm, sock, ps, es, rs))))))))"

text \<open>A port whose queue count is 0 has no queue array; the pointer is not looked at.\<close>

definition eth_view :: "eth_conf \<Rightarrow> eth_conf" where
  "eth_view p = p\<lparr>tx_queues := take (nat (eth_nb_tx_q p)) (tx_queues p),
                   rx_queues := take (nat (eth_nb_rx_q p)) (rx_queues p)\<rparr>"

text \<open>The state represents the three lists of a configuration.\<close>

definition conf_rep ::
  "app_mem \<Rightarrow> pkt_pool_conf list \<Rightarrow> eth_conf list \<Rightarrow> ring_conf list \<Rightarrow> bool" where
  "conf_rep s ps es rs \<longleftrightarrow> (\<exists>A B C.
     holds (links s) (brk s) (pkt_pool_list (CONF s)) (pool_at s) A ps
     \<and> holds (links s) (brk s) (eth_port_list (CONF s)) (\<lambda>a. eth_view (eth_at s a)) B es
     \<and> holds (links s) (brk s) (ring_list (CONF s)) (ring_at s) C rs
     \<and> A \<inter> B = {} \<and> A \<inter> C = {} \<and> B \<inter> C = {})"

definition same_app :: "app_mem \<Rightarrow> app_mem \<Rightarrow> bool" where
  "same_app s s' \<longleftrightarrow> app_name (CONF s') = app_name (CONF s) \<and> core_mask (CONF s') = core_mask (CONF s)
     \<and> memory_socket (CONF s') = memory_socket (CONF s) \<and> json_live s' = json_live s"

lemma same_app_refl [simp]: "same_app s s"
  by (simp add: same_app_def)

section \<open>Lemmas\<close>

lemma init_conf_rep: "conf_rep (init_conf s) [] [] []"
  by (auto simp: conf_rep_def init_conf_def intro!: exI [of _ "{}"] holds_init)

text \<open>The item loops agree with the decoders, whatever the object held before.\<close>

lemma set_pool_item_simps [simp]:
  "set_pool_item api ''name'' v p = bind_run (jstrdup api v) (\<lambda>n. Inr (0, p\<lparr>pool_name := n\<rparr>))"
  "set_pool_item api ''private_size'' v p = Inr (0, p\<lparr>pool_priv_size := jint api v\<rparr>)"
  "set_pool_item api ''data_room_size'' v p = Inr (0, p\<lparr>pool_data_room_size := jint api v\<rparr>)"
  "set_pool_item api ''cache_size'' v p = Inr (0, p\<lparr>pool_cache_size := jint api v\<rparr>)"
  "set_pool_item api ''socket_id'' v p = Inr (0, p\<lparr>pool_socket_id := jint api v\<rparr>)"
  "set_pool_item api ''size'' v p = Inr (0, p\<lparr>pool_size := jint api v\<rparr>)"
  by (simp_all add: set_pool_item_def)

lemma pool_items_agree:
  assumes "jtype api j = json_type_object"
  shows "agrees (parse_items api (set_pool_item api) j pool_items c) (\<lambda>p c. c = p) (decode_pool api j)"
  using assms
  by (cases "jget_ex api j ''name''"; cases "jget_ex api j ''private_size''";
      cases "jget_ex api j ''data_room_size''"; cases "jget_ex api j ''cache_size''";
      cases "jget_ex api j ''socket_id''"; cases "jget_ex api j ''size''";
      cases "jstring api (the (jget_ex api j ''name''))")
    (simp_all add: pool_items_def parse_items_Cons jstrdup_def decode_pool_def need_def agrees_def)

lemma set_ring_item_simps [simp]:
  "set_ring_item api ''name'' v p = bind_run (jstrdup api v) (\<lambda>n. Inr (0, p\<lparr>ring_name := n\<rparr>))"
  "set_ring_item api ''size'' v p = Inr (0, p\<lparr>ring_size := jint api v\<rparr>)"
  "set_ring_item api ''socket_id'' v p = Inr (0, p\<lparr>ring_socket_id := jint api v\<rparr>)"
  "set_ring_item api ''single_consumer'' v p
     = Inr (0, p\<lparr>ring_single_consumer := of_bool (jbool api v)\<rparr>)"
  "set_ring_item api ''single_producer'' v p
     = Inr (0, p\<lparr>ring_single_producer := of_bool (jbool api v)\<rparr>)"
  by (simp_all add: set_ring_item_def)

lemma ring_items_agree:
  assumes "jtype api j = json_type_object"
  shows "agrees (parse_items api (set_ring_item api) j ring_items c) (\<lambda>p c. c = p) (decode_ring api j)"
  using assms
  by (cases "jget_ex api j ''name''"; cases "jget_ex api j ''size''";
      cases "jget_ex api j ''socket_id''"; cases "jget_ex api j ''single_consumer''";
      cases "jget_ex api j ''single_producer''"; cases "jstring api (the (jget_ex api j ''name''))")
    (simp_all add: ring_items_def parse_items_Cons jstrdup_def decode_ring_def need_def agrees_def)

lemma set_q_item_simps [simp]:
  "set_q_item api ''q-id'' v q = (if jtype api v \<noteq> json_type_int then Inr (-1, q)
     else Inr (0, q\<lparr>q_id := jint api v\<rparr>))"
  "set_q_item api ''nb-desc'' v q = (if jtype api v \<noteq> json_type_int then Inr (-1, q)
     else Inr (0, q\<lparr>q_nb_desc := jint api v\<rparr>))"
  "set_q_item api ''pktpool-name'' v q = (if jtype api v \<noteq> json_type_string then Inr (-1, q)
     else bind_run (jstrdup api v) (\<lambda>n. Inr (0, q\<lparr>q_pkt_pool_name := Some n\<rparr>)))"
  "set_q_item api ''socket-id'' v q = (if jtype api v \<noteq> json_type_int then Inr (-1, q)
     else Inr (0, q\<lparr>q_socket_id := jint api v\<rparr>))"
  by (simp_all add: set_q_item_def)

lemma q_items_agree:
  assumes "jtype api j = json_type_object"
  shows "agrees (parse_optional api (set_q_item api) j q_items zero_q) (\<lambda>p c. c = p) (decode_q api j)"
  using assms
  by (cases "jget_ex api j ''q-id''"; cases "jget_ex api j ''nb-desc''";
      cases "jget_ex api j ''pktpool-name''"; cases "jget_ex api j ''socket-id''";
      cases "jstring api (the (jget_ex api j ''pktpool-name''))")
    (simp_all add: q_items_def parse_optional_Cons jstrdup_def decode_q_def decode_simps agrees_def
      zero_q_def)

lemma parse_eth_queue_agrees:
  assumes "i < length qs" and "qs ! i = zero_q"
  shows "agrees (parse_eth_queue api jarr i qs) (\<lambda>q qs'. qs' = qs[i := q])
    (decode_q api (jidx api jarr i))"
proof (cases "jtype api (jidx api jarr i) = json_type_object")
  case False
  then show ?thesis by (simp add: parse_eth_queue_def decode_q_def agrees_def)
next
  case True
  from q_items_agree [OF this] show ?thesis using assms True
    by (cases "decode_q api (jidx api jarr i)") (auto simp: parse_eth_queue_def agrees_def)
qed

text \<open>The loop over the queues fills the zeroed array from the front.\<close>

lemma parse_eth_queues_step:
  assumes "n \<le> m"
  shows "agrees (run_each (parse_eth_queue api jarr) [0..<n] (replicate m zero_q))
    (\<lambda>ws qs. qs = ws @ replicate (m - n) zero_q \<and> length ws = n)
    (map_opt (decode_q api) (map (jidx api jarr) [0..<n]))"
proof -
  let ?P = "\<lambda>ws qs. qs = ws @ replicate (m - length ws) zero_q"
  have "agrees (run_each (parse_eth_queue api jarr) [k..<n] qs) (\<lambda>vs qs'. ?P (ws @ vs) qs')
      (map_opt (\<lambda>i. decode_q api (jidx api jarr i)) [k..<n])"
    if "length ws = k" and "?P ws qs" and "k \<le> n" for k ws qs
    using that
  proof (induction "n - k" arbitrary: k ws qs)
    case 0
    then show ?case by (simp add: agrees_def)
  next
    case (Suc d)
    then have kn: "k < n" and up: "[k..<n] = k # [Suc k..<n]" by (simp_all add: upt_conv_Cons)
    have rep: "replicate (m - k) zero_q = zero_q # replicate (m - Suc k) zero_q"
      using kn assms by (metis Suc_diff_Suc le_trans less_eq_Suc_le replicate_Suc)
    have at: "k < length qs" "qs ! k = zero_q" using Suc.prems kn assms rep
      by (simp_all add: nth_append)
    note q = parse_eth_queue_agrees [OF at, of api jarr]
    show ?case
    proof (cases "decode_q api (jidx api jarr k)")
      case None
      with q show ?thesis unfolding up by (auto simp: agrees_def)
    next
      case (Some v)
      have "?P (ws @ [v]) (qs[k := v])" using Suc.prems rep by (simp add: list_update_append)
      with Suc.hyps(1) [of "Suc k" "ws @ [v]" "qs[k := v]"] Suc.hyps(2) Suc.prems(1) kn
      have "agrees (run_each (parse_eth_queue api jarr) [Suc k..<n] (qs[k := v]))
          (\<lambda>vs qs'. ?P ((ws @ [v]) @ vs) qs')
          (map_opt (\<lambda>i. decode_q api (jidx api jarr i)) [Suc k..<n])" by simp
      with q Some show ?thesis unfolding up
        by (auto simp: agrees_def split: option.splits)
    qed
  qed
  from this [of "[]" 0 "replicate m zero_q"] show ?thesis
    by (auto simp: agrees_def map_opt_map split: option.splits dest!: map_opt_length)
qed

lemma parse_eth_queues_agrees:
  assumes "jtype api jarr = json_type_array"
  shows "agrees (parse_eth_queues api jarr (replicate (jlen api jarr) zero_q) (jlen api jarr))
    (\<lambda>ws qs. qs = ws \<and> length ws = jlen api jarr) (decode_array api (decode_q api) jarr)"
  using parse_eth_queues_step [of "jlen api jarr" "jlen api jarr" api jarr] assms
  by (simp add: parse_eth_queues_def decode_array_def jelems_def agrees_def split: option.splits)

definition set_queues :: "bool \<Rightarrow> eth_q list \<Rightarrow> eth_conf \<Rightarrow> eth_conf" where
  "set_queues tx qs p =
     (if tx then p\<lparr>eth_nb_tx_q := int (length qs), tx_queues := qs\<rparr>
      else p\<lparr>eth_nb_rx_q := int (length qs), rx_queues := qs\<rparr>)"

lemma set_eth_item_simps [simp]:
  "set_eth_item api ''port-id'' v p = (if jtype api v \<noteq> json_type_int then Inr (-1, p)
     else Inr (0, p\<lparr>eth_port_id := jint api v\<rparr>))"
  "set_eth_item api ''promisc'' v p = (if jtype api v \<noteq> json_type_boolean then Inr (-1, p)
     else Inr (0, p\<lparr>eth_promisc := of_bool (jbool api v)\<rparr>))"
  by (simp_all add: set_eth_item_def)

text \<open>Only the view of the port is determined: an empty array leaves the pointer as it was.\<close>

lemma eth_view_set_queues:
  "eth_view (set_queues True qs p) = (eth_view p)\<lparr>eth_nb_tx_q := int (length qs), tx_queues := qs\<rparr>"
  "eth_view (set_queues False qs p) = (eth_view p)\<lparr>eth_nb_rx_q := int (length qs), rx_queues := qs\<rparr>"
  by (simp_all add: set_queues_def eth_view_def)

lemma eth_view_sel [simp]:
  "eth_promisc (eth_view p) = eth_promisc p" "eth_port_id (eth_view p) = eth_port_id p"
  "eth_nb_rx_q (eth_view p) = eth_nb_rx_q p" "eth_nb_tx_q (eth_view p) = eth_nb_tx_q p"
  "eth_conf.more (eth_view p) = eth_conf.more p"
  by (simp_all add: eth_view_def)

lemma set_eth_queues_agrees:
  "agrees (set_eth_item api ''tx-queues'' v p)
     (\<lambda>qs p'. eth_view p' = eth_view (set_queues True qs p) \<and> eth_promisc p' = eth_promisc p
        \<and> eth_port_id p' = eth_port_id p \<and> eth_nb_rx_q p' = eth_nb_rx_q p \<and> rx_queues p' = rx_queues p)
     (decode_array api (decode_q api) v)"
  "agrees (set_eth_item api ''rx-queues'' v p)
     (\<lambda>qs p'. eth_view p' = eth_view (set_queues False qs p) \<and> eth_promisc p' = eth_promisc p
        \<and> eth_port_id p' = eth_port_id p \<and> eth_nb_tx_q p' = eth_nb_tx_q p \<and> tx_queues p' = tx_queues p)
     (decode_array api (decode_q api) v)"
proof -
  have empty: "decode_array api (decode_q api) v = Some []"
    if "jtype api v = json_type_array" "jlen api v = 0"
    using that by (simp add: decode_array_def jelems_def)
  have no: "decode_array api (decode_q api) v = None" if "jtype api v \<noteq> json_type_array"
    using that by (simp add: decode_array_def)
  note q = parse_eth_queues_agrees [of api v]
  show "agrees (set_eth_item api ''tx-queues'' v p)
     (\<lambda>qs p'. eth_view p' = eth_view (set_queues True qs p) \<and> eth_promisc p' = eth_promisc p
        \<and> eth_port_id p' = eth_port_id p \<and> eth_nb_rx_q p' = eth_nb_rx_q p \<and> rx_queues p' = rx_queues p)
     (decode_array api (decode_q api) v)"
    using q empty no
    by (cases "decode_array api (decode_q api) v")
      (auto simp: set_eth_item_def agrees_def set_queues_def eth_view_def Let_def)
  show "agrees (set_eth_item api ''rx-queues'' v p)
     (\<lambda>qs p'. eth_view p' = eth_view (set_queues False qs p) \<and> eth_promisc p' = eth_promisc p
        \<and> eth_port_id p' = eth_port_id p \<and> eth_nb_tx_q p' = eth_nb_tx_q p \<and> tx_queues p' = tx_queues p)
     (decode_array api (decode_q api) v)"
    using q empty no
    by (cases "decode_array api (decode_q api) v")
      (auto simp: set_eth_item_def agrees_def set_queues_def eth_view_def Let_def)
qed

lemma agrees_item:
  assumes "\<And>v. agrees (setit it v c) P (f v)"
    and "\<And>w c'. P w c' \<Longrightarrow> agrees (parse_items api setit j its c') Q (e w)"
  shows "agrees (parse_items api setit j (it # its) c) Q (Option.bind (need api j it f) e)"
  unfolding parse_items_Cons need_def
  using agrees_bind [OF assms] by (cases "jget_ex api j it") (simp_all add: agrees_None)

lemma eth_items_agree:
  assumes "jtype api j = json_type_object"
  shows "agrees (parse_items api (set_eth_item api) j eth_items c) (\<lambda>p c. eth_view c = p)
    (decode_eth api j)"
proof -
  let ?o = "jtype api j \<noteq> json_type_object"
  have ag: "agrees (parse_items api (set_eth_item api) j eth_items c) (\<lambda>p c. eth_view c = p)
     (Option.bind (need api j ''promisc'' (typed_bool api)) (\<lambda>p.
        Option.bind (need api j ''port-id'' (typed_int api)) (\<lambda>i.
        Option.bind (need api j ''tx-queues'' (decode_array api (decode_q api))) (\<lambda>txs.
        Option.bind (need api j ''rx-queues'' (decode_array api (decode_q api))) (\<lambda>rxs.
        Some \<lparr>eth_port_id = i, eth_promisc = of_bool p, eth_nb_rx_q = int (length rxs),
          eth_nb_tx_q = int (length txs), tx_queues = txs, rx_queues = rxs\<rparr>)))))"
    unfolding eth_items_def
    apply (rule agrees_item [where P = "\<lambda>p c. eth_promisc c = of_bool p"])
     apply (simp add: typed_bool_def agrees_def)
    apply (rule_tac P = "\<lambda>i c. eth_promisc c = of_bool w \<and> eth_port_id c = i" in agrees_item)
     apply (simp add: typed_int_def agrees_def)
    apply (rule_tac P = "\<lambda>qs c. eth_promisc c = of_bool w \<and> eth_port_id c = wa
      \<and> eth_nb_tx_q (eth_view c) = int (length qs) \<and> tx_queues (eth_view c) = qs" in agrees_item)
     apply (rule agrees_mono [OF set_eth_queues_agrees(1)])
     apply (simp add: eth_view_set_queues)
    apply (rule_tac P = "\<lambda>rs c. eth_promisc c = of_bool w \<and> eth_port_id c = wa
      \<and> eth_nb_tx_q (eth_view c) = int (length wb) \<and> tx_queues (eth_view c) = wb
      \<and> eth_nb_rx_q (eth_view c) = int (length rs) \<and> rx_queues (eth_view c) = rs" in agrees_item)
     apply (rule agrees_mono [OF set_eth_queues_agrees(2)])
     apply (simp add: eth_view_set_queues)
    apply (simp add: agrees_def)
    done
  then show ?thesis using assms by (simp add: decode_eth_def)
qed

section \<open>Building the lists\<close>

text \<open>Each element parser appends one object to its list and leaves the other two alone.\<close>

lemma parse_pktpool_agrees:
  assumes "conf_rep s ps es rs"
  shows "agrees (parse_pktpool api j s)
    (\<lambda>p s'. conf_rep s' (ps @ [p]) es rs \<and> same_app s s') (decode_pool api j)"
proof (cases "jtype api j = json_type_object")
  case False
  then show ?thesis by (simp add: parse_pktpool_def decode_pool_def agrees_def)
next
  case True
  obtain l m where add: "LListAdd (pkt_pool_list (CONF s)) (brk s)
      (LL_InitElement (brk s) (links s)) = (l, m)"
    by (cases "LListAdd (pkt_pool_list (CONF s)) (brk s) (LL_InitElement (brk s) (links s))")
  from assms obtain A B C where
    h: "holds (links s) (brk s) (pkt_pool_list (CONF s)) (pool_at s) A ps"
      "holds (links s) (brk s) (eth_port_list (CONF s)) (\<lambda>a. eth_view (eth_at s a)) B es"
      "holds (links s) (brk s) (ring_list (CONF s)) (ring_at s) C rs"
    and dis: "A \<inter> B = {}" "A \<inter> C = {}" "B \<inter> C = {}" by (auto simp: conf_rep_def)
  have "holds m (Suc (brk s)) l ((pool_at s)(brk s := p)) (insert (brk s) A) (ps @ [p])" for p
    by (rule holds_push [OF h(1) add])
  moreover note holds_keep [OF h(1) add h(2) dis(1)] holds_keep [OF h(1) add h(3) dis(2)]
  moreover have "insert (brk s) A \<inter> B = {}" "insert (brk s) A \<inter> C = {}"
    using dis holds_brk [OF h(2)] holds_brk [OF h(3)] by auto
  ultimately have rep: "conf_rep (s\<lparr>brk := Suc (brk s), pool_at := (pool_at s)(brk s := p),
      CONF := (CONF s)\<lparr>pkt_pool_list := l\<rparr>, links := m\<rparr>) (ps @ [p]) es rs" for p
    using dis(3) unfolding conf_rep_def
    by (intro exI [of _ "insert (brk s) A"] exI [of _ B] exI [of _ C]) auto
  from pool_items_agree [OF True, of "pool_at s (brk s)"] rep show ?thesis
    by (cases "decode_pool api j")
      (auto simp: parse_pktpool_def new_elem_def Let_def True agrees_def add same_app_def)
qed

lemma parse_ethport_agrees:
  assumes "conf_rep s ps es rs"
  shows "agrees (parse_ethport api j s)
    (\<lambda>p s'. conf_rep s' ps (es @ [p]) rs \<and> same_app s s') (decode_eth api j)"
proof (cases "jtype api j = json_type_object")
  case False
  then show ?thesis by (simp add: parse_ethport_def decode_eth_def agrees_def)
next
  case True
  obtain l m where add: "LListAdd (eth_port_list (CONF s)) (brk s)
      (LL_InitElement (brk s) (links s)) = (l, m)"
    by (cases "LListAdd (eth_port_list (CONF s)) (brk s) (LL_InitElement (brk s) (links s))")
  from assms obtain A B C where
    h: "holds (links s) (brk s) (pkt_pool_list (CONF s)) (pool_at s) A ps"
      "holds (links s) (brk s) (eth_port_list (CONF s)) (\<lambda>a. eth_view (eth_at s a)) B es"
      "holds (links s) (brk s) (ring_list (CONF s)) (ring_at s) C rs"
    and dis: "B \<inter> A = {}" "A \<inter> C = {}" "B \<inter> C = {}"
    unfolding conf_rep_def by (metis inf_commute)
  have "holds m (Suc (brk s)) l (\<lambda>a. eth_view (((eth_at s)(brk s := p)) a)) (insert (brk s) B)
      (es @ [eth_view p])" for p
    using holds_push [OF h(2) add, of "eth_view p"] by (simp add: fun_upd_def if_distrib)
  moreover note holds_keep [OF h(2) add h(1) dis(1)] holds_keep [OF h(2) add h(3) dis(3)]
  moreover have "insert (brk s) B \<inter> A = {}" "insert (brk s) B \<inter> C = {}"
    using dis holds_brk [OF h(1)] holds_brk [OF h(3)] by auto
  ultimately have rep: "conf_rep (s\<lparr>brk := Suc (brk s), eth_at := (eth_at s)(brk s := p),
      CONF := (CONF s)\<lparr>eth_port_list := l\<rparr>, links := m\<rparr>) ps (es @ [eth_view p]) rs" for p
    using dis(2) unfolding conf_rep_def
    by (intro exI [of _ A] exI [of _ "insert (brk s) B"] exI [of _ C]) auto
  from eth_items_agree [OF True, of "eth_at s (brk s)"] rep show ?thesis
    by (cases "decode_eth api j")
      (auto simp: parse_ethport_def new_elem_def Let_def True agrees_def add same_app_def)
qed

lemma parse_ring_agrees:
  assumes "conf_rep s ps es rs"
  shows "agrees (parse_ring api j s)
    (\<lambda>p s'. conf_rep s' ps es (rs @ [p]) \<and> same_app s s') (decode_ring api j)"
proof (cases "jtype api j = json_type_object")
  case False
  then show ?thesis by (simp add: parse_ring_def decode_ring_def agrees_def)
next
  case True
  obtain l m where add: "LListAdd (ring_list (CONF s)) (brk s)
      (LL_InitElement (brk s) (links s)) = (l, m)"
    by (cases "LListAdd (ring_list (CONF s)) (brk s) (LL_InitElement (brk s) (links s))")
  from assms obtain A B C where
    h: "holds (links s) (brk s) (pkt_pool_list (CONF s)) (pool_at s) A ps"
      "holds (links s) (brk s) (eth_port_list (CONF s)) (\<lambda>a. eth_view (eth_at s a)) B es"
      "holds (links s) (brk s) (ring_list (CONF s)) (ring_at s) C rs"
    and dis: "A \<inter> B = {}" "C \<inter> A = {}" "C \<inter> B = {}"
    unfolding conf_rep_def by (metis inf_commute)
  have "holds m (Suc (brk s)) l ((ring_at s)(brk s := p)) (insert (brk s) C) (rs @ [p])" for p
    by (rule holds_push [OF h(3) add])
  moreover note holds_keep [OF h(3) add h(1) dis(2)] holds_keep [OF h(3) add h(2) dis(3)]
  moreover have "insert (brk s) C \<inter> A = {}" "insert (brk s) C \<inter> B = {}"
    using dis holds_brk [OF h(1)] holds_brk [OF h(2)] by auto
  ultimately have rep: "conf_rep (s\<lparr>brk := Suc (brk s), ring_at := (ring_at s)(brk s := p),
      CONF := (CONF s)\<lparr>ring_list := l\<rparr>, links := m\<rparr>) ps es (rs @ [p])" for p
    using dis(1) unfolding conf_rep_def
    by (intro exI [of _ A] exI [of _ B] exI [of _ "insert (brk s) C"]) auto
  from ring_items_agree [OF True, of "ring_at s (brk s)"] rep show ?thesis
    by (cases "decode_ring api j")
      (auto simp: parse_ring_def new_elem_def Let_def True agrees_def add same_app_def)
qed

lemma same_app_trans: "same_app s t \<Longrightarrow> same_app t u \<Longrightarrow> same_app s u"
  by (simp add: same_app_def)

text \<open>The loop over a JSON array, for any element parser that appends one decoded object.\<close>

lemma parse_array_agrees:
  assumes step: "\<And>j vs t. rep t vs \<Longrightarrow> agrees (f j t) (\<lambda>v t'. rep t' (vs @ [v]) \<and> same_app t t') (d j)"
    and "rep s []"
  shows "agrees (if jtype api jobj \<noteq> json_type_array then Inr (-1, s)
      else run_each (\<lambda>i. f (jidx api jobj i)) [0..<jlen api jobj] s)
    (\<lambda>vs s'. rep s' vs \<and> same_app s s') (decode_array api d jobj)"
proof (cases "jtype api jobj = json_type_array")
  case False
  then show ?thesis by (simp add: decode_array_def agrees_def)
next
  case True
  have "agrees (run_each (\<lambda>i. f (jidx api jobj i)) [0..<jlen api jobj] s)
      (\<lambda>ws s'. rep s' ([] @ ws) \<and> same_app s s')
      (map_opt (\<lambda>i. d (jidx api jobj i)) [0..<jlen api jobj])"
  proof (rule run_each_agrees [where P = "\<lambda>vs t. rep t vs \<and> same_app s t"])
    fix i vs t
    assume a: "rep t vs \<and> same_app s t"
    then have "rep t vs" by simp
    from step [OF this] show "agrees (f (jidx api jobj i) t)
        (\<lambda>v t'. rep t' (vs @ [v]) \<and> same_app s t') (d (jidx api jobj i))"
      by (rule agrees_mono) (use a same_app_trans [of s t] in auto)
  next
    show "rep s [] \<and> same_app s s" using assms(2) by simp
  qed
  with True show ?thesis by (simp add: decode_array_def jelems_def map_opt_map)
qed

lemma parse_ressource_simps [simp]:
  "parse_ressource api jres ''pktpools'' s = (case jget_ex api jres ''pktpools'' of
      None \<Rightarrow> Inr (0, s)
    | Some v \<Rightarrow> bind_run (parse_pktpools api v s) (\<lambda>(r, s). Inr (if r \<noteq> 0 then -1 else 0, s)))"
  "parse_ressource api jres ''ethports'' s = (case jget_ex api jres ''ethports'' of
      None \<Rightarrow> Inr (0, s)
    | Some v \<Rightarrow> bind_run (parse_ethports api v s) (\<lambda>(r, s). Inr (if r \<noteq> 0 then -1 else 0, s)))"
  "parse_ressource api jres ''rings'' s = (case jget_ex api jres ''rings'' of
      None \<Rightarrow> Inr (0, s)
    | Some v \<Rightarrow> bind_run (parse_rings api v s) (\<lambda>(r, s). Inr (if r \<noteq> 0 then -1 else 0, s)))"
  by (simp_all add: parse_ressource_def split: option.splits)

lemma ressource_agrees:
  assumes "\<And>v. agrees (f v s) P (d v)" and "P [] s"
  shows "agrees (case jget_ex api jres k of
      None \<Rightarrow> Inr (0, s)
    | Some v \<Rightarrow> bind_run (f v s) (\<lambda>(r, s). Inr (if r \<noteq> 0 then -1 else 0, s))) P
    (dflt api jres k [] d)"
  using assms(2) agrees_code [OF assms(1)]
  by (cases "jget_ex api jres k") (simp_all add: dflt_def agrees_Some)

lemma pktpools_agrees:
  assumes "conf_rep s [] es rs"
  shows "agrees (parse_ressource api jres ''pktpools'' s)
    (\<lambda>ps s'. conf_rep s' ps es rs \<and> same_app s s')
    (dflt api jres ''pktpools'' [] (decode_array api (decode_pool api)))"
  unfolding parse_ressource_simps
  by (rule ressource_agrees, unfold parse_pktpools_def)
    (rule parse_array_agrees, rule parse_pktpool_agrees, simp_all add: assms)

lemma ethports_agrees:
  assumes "conf_rep s ps [] rs"
  shows "agrees (parse_ressource api jres ''ethports'' s)
    (\<lambda>es s'. conf_rep s' ps es rs \<and> same_app s s')
    (dflt api jres ''ethports'' [] (decode_array api (decode_eth api)))"
  unfolding parse_ressource_simps
  by (rule ressource_agrees, unfold parse_ethports_def)
    (rule parse_array_agrees, rule parse_ethport_agrees, simp_all add: assms)

lemma rings_agrees:
  assumes "conf_rep s ps es []"
  shows "agrees (parse_ressource api jres ''rings'' s)
    (\<lambda>rs s'. conf_rep s' ps es rs \<and> same_app s s')
    (dflt api jres ''rings'' [] (decode_array api (decode_ring api)))"
  unfolding parse_ressource_simps
  by (rule ressource_agrees, unfold parse_rings_def)
    (rule parse_array_agrees, rule parse_ring_agrees, simp_all add: assms)

definition decode_ressources ::
  "'j json_api \<Rightarrow> 'j \<Rightarrow> (pkt_pool_conf list \<times> eth_conf list \<times> ring_conf list) option" where
  "decode_ressources api jres =
     Option.bind (dflt api jres ''pktpools'' [] (decode_array api (decode_pool api))) (\<lambda>ps.
     Option.bind (dflt api jres ''ethports'' [] (decode_array api (decode_eth api))) (\<lambda>es.
     Option.bind (dflt api jres ''rings'' [] (decode_array api (decode_ring api))) (\<lambda>rs.
     Some (ps, es, rs))))"

lemma ressources_agrees:
  assumes "conf_rep s [] [] []"
  shows "agrees (json_parse_ressources api jres s)
    (\<lambda>(ps, es, rs) s'. conf_rep s' ps es rs \<and> same_app s s') (decode_ressources api jres)"
  unfolding json_parse_ressources_def decode_ressources_def run_each.simps
proof (rule agrees_bind [OF pktpools_agrees [OF assms]])
  fix ps s1
  assume 1: "conf_rep s1 ps [] [] \<and> same_app s s1"
  show "agrees (bind_run (parse_ressource api jres ''ethports'' s1) (\<lambda>(r, s'). if r \<noteq> 0 then Inr (r, s')
      else bind_run (parse_ressource api jres ''rings'' s') (\<lambda>(r, s'). if r \<noteq> 0 then Inr (r, s')
      else Inr (0, s'))))
    (\<lambda>(ps, es, rs) s'. conf_rep s' ps es rs \<and> same_app s s')
    (Option.bind (dflt api jres ''ethports'' [] (decode_array api (decode_eth api))) (\<lambda>es.
     Option.bind (dflt api jres ''rings'' [] (decode_array api (decode_ring api))) (\<lambda>rs.
     Some (ps, es, rs))))"
  proof (rule agrees_bind [OF ethports_agrees])
    show "conf_rep s1 ps [] []" using 1 by simp
    fix es s2
    assume 2: "conf_rep s2 ps es [] \<and> same_app s1 s2"
    then have c: "conf_rep s2 ps es []" and eq: "same_app s s2"
      using 1 same_app_trans [of s s1 s2] by simp_all
    show "agrees (bind_run (parse_ressource api jres ''rings'' s2) (\<lambda>(r, s'). if r \<noteq> 0 then Inr (r, s')
        else Inr (0, s')))
      (\<lambda>(ps, es, rs) s'. conf_rep s' ps es rs \<and> same_app s s')
      (Option.bind (dflt api jres ''rings'' [] (decode_array api (decode_ring api))) (\<lambda>rs.
       Some (ps, es, rs)))"
      by (rule agrees_bind [OF rings_agrees [OF c]])
        (use same_app_trans [OF eq] in \<open>auto simp: agrees_Some\<close>)
  qed
qed

lemma parse_json_app_agrees:
  "agrees (parse_json_app api j s)
    (\<lambda>(m, k) s'. s' = s\<lparr>CONF := (CONF s)\<lparr>app_name := APP_NAME, core_mask := m, memory_socket := k\<rparr>\<rparr>)
    (decode_app api j)"
proof (cases "jget_ex api j ''name''")
  case None
  then show ?thesis by (simp add: parse_json_app_def decode_app_def need_def agrees_def)
next
  case (Some v)
  then show ?thesis
    by (cases "jstring api v"; cases "jget_ex api j ''core-mask''"; cases "jget_ex api j ''memory-socket''")
      (simp_all add: parse_json_app_def decode_app_def decode_simps agrees_def APP_NAME_def Let_def)
qed

lemma conf_rep_app: "conf_rep s ps es rs \<Longrightarrow>
  conf_rep (s\<lparr>CONF := (CONF s)\<lparr>app_name := n, core_mask := m, memory_socket := k\<rparr>\<rparr>) ps es rs"
  by (simp add: conf_rep_def)

lemma conf_rep_live: "conf_rep s ps es rs \<Longrightarrow> conf_rep (s\<lparr>json_live := n\<rparr>) ps es rs"
  by (simp add: conf_rep_def)

lemma decode_config_alt:
  "decode_config api tx =
     Option.bind (jparse api tx) (\<lambda>jobj.
     Option.bind (jget_ex api jobj ''app'') (\<lambda>japp.
     Option.bind (decode_app api japp) (\<lambda>(cm, sock).
     Option.bind (jget_ex api japp ''ressources'') (\<lambda>jres.
     map_option (\<lambda>(ps, es, rs). (cm, sock, ps, es, rs)) (decode_ressources api jres)))))"
  unfolding decode_config_def decode_ressources_def
  by (intro Option.bind_cong refl) (auto split: prod.splits Option.bind_splits)

text \<open>The state after a successful parse represents the decoded configuration.\<close>

definition config_is :: "app_config \<Rightarrow> app_mem \<Rightarrow> bool" where
  "config_is d s \<longleftrightarrow> (case d of (cm, sock, ps, es, rs) \<Rightarrow>
     app_name (CONF s) = ''app_manager'' \<and> core_mask (CONF s) = cm
     \<and> memory_socket (CONF s) = sock \<and> conf_rep s ps es rs)"

lemma json_parse_agrees:
  assumes "conf_rep s [] [] []"
  shows "agrees (json_parse api tx s) (\<lambda>d s'. config_is d s' \<and> json_live s' = json_live s)
    (decode_config api tx)"
proof (cases "jparse api tx")
  case None
  then show ?thesis by (simp add: json_parse_def decode_config_def agrees_None)
next
  case (Some jobj)
  let ?s = "s\<lparr>json_live := json_live s + 1\<rparr>"
  show ?thesis
  proof (cases "jget_ex api jobj ''app''")
    case None
    with Some show ?thesis by (simp add: json_parse_def decode_config_def agrees_None)
  next
    case (Some japp)
    note tree = \<open>jparse api tx = Some jobj\<close> Some
    note app = parse_json_app_agrees [of api japp ?s]
    show ?thesis
    proof (cases "decode_app api japp")
      case None
      with app tree show ?thesis by (auto simp: json_parse_def decode_config_def agrees_None)
    next
      case (Some mk)
      obtain m k where mk: "mk = (m, k)" by (cases mk)
      let ?t = "?s\<lparr>CONF := (CONF ?s)\<lparr>app_name := APP_NAME, core_mask := m, memory_socket := k\<rparr>\<rparr>"
      from app Some mk have run: "parse_json_app api japp ?s = Inr (0, ?t)" by (simp add: agrees_Some)
      have rep: "conf_rep ?t [] [] []" using assms by (intro conf_rep_app conf_rep_live)
      show ?thesis
      proof (cases "jget_ex api japp ''ressources''")
        case None
        with run Some mk tree show ?thesis
          by (simp add: json_parse_def decode_config_def agrees_None)
      next
        case (Some jres)
        with ressources_agrees [OF rep, of api jres] run tree mk \<open>decode_app api japp = Some mk\<close>
        show ?thesis
          by (cases "decode_ressources api jres")
            (auto simp: json_parse_def decode_config_alt agrees_None agrees_Some json_put_def
              config_is_def same_app_def APP_NAME_def conf_rep_live)
      qed
    qed
  qed
qed

text \<open>No parser of the resources touches the JSON tree's count.\<close>

lemma element_live:
  "parse_pktpool api j s = Inr (c, s') \<Longrightarrow> json_live s' = json_live s"
  "parse_ethport api j s = Inr (c, s') \<Longrightarrow> json_live s' = json_live s"
  "parse_ring api j s = Inr (c, s') \<Longrightarrow> json_live s' = json_live s"
  by (auto simp: parse_pktpool_def parse_ethport_def parse_ring_def new_elem_def Let_def bind_run_eq_Inr
      split: if_splits prod.splits)

lemma array_live:
  "parse_pktpools api j s = Inr (c, s') \<Longrightarrow> json_live s' = json_live s"
  "parse_ethports api j s = Inr (c, s') \<Longrightarrow> json_live s' = json_live s"
  "parse_rings api j s = Inr (c, s') \<Longrightarrow> json_live s' = json_live s"
  unfolding parse_pktpools_def parse_ethports_def parse_rings_def
  by (auto split: if_splits intro: run_each_keeps element_live)

lemma json_parse_ressources_live:
  assumes "json_parse_ressources api jres s = Inr (c, s')"
  shows "json_live s' = json_live s"
proof (rule run_each_keeps [OF assms [unfolded json_parse_ressources_def]])
  fix x t c t'
  assume "parse_ressource api jres x t = Inr (c, t')"
  then show "json_live t' = json_live t"
    by (auto simp: parse_ressource_def bind_run_eq_Inr split: option.splits if_splits
        dest: array_live)
qed

section \<open>Properties\<close>

text \<open>
  C9: When the configuration file is read whole, \<open>APP_CONF_parse_file\<close> computes exactly the
  decoding of its text: it returns 0 if and only if the text decodes, and then the three lists
  built in memory represent the decoded packet pools, ports and rings in the order of the file,
  the scalar fields are set and no JSON tree is left allocated; otherwise it returns -1 or stops
  at a name whose value is JSON null.
\<close>

theorem APP_CONF_parse_file_refines_decode:
  assumes "file_at env fn = Some content" and "length content \<le> chunks env 0"
    and "length (fresh_bytes env (length content)) = length content"
    and "bytes_behind env = CHR 0x00 # rest" and "CHR 0x00 \<notin> set content"
  shows "agrees (APP_CONF_parse_file api env fn s)
    (\<lambda>d s'. config_is d s' \<and> json_live s' = json_live s) (decode_config api content)"
proof -
  have "read_config env fn = Inr content"
    using read_config_whole [OF assms(1-3)] c_string_id [OF assms(5)] assms(4) by simp
  moreover have "json_live (init_conf s) = json_live s" by (simp add: init_conf_def)
  ultimately show ?thesis
    using agrees_code [OF agrees_code [OF json_parse_agrees [OF init_conf_rep]], of api content s]
    by (simp add: APP_CONF_parse_file_def parse_elements_def)
qed

definition sample_json :: jval where
  "sample_json = JObj [(''app'', JObj [(''name'', JStr ''app_manager''), (''core-mask'', JInt 7),
     (''memory-socket'', JInt 1), (''ressources'', JObj
       [(''rings'', JArr [JObj [(''socket_id'', JInt 0), (''single_consumer'', JBool False),
          (''single_producer'', JBool True), (''size'', JInt 256), (''name'', JStr ''ring_1'')]]),
        (''ethports'', JArr [JObj [(''port-id'', JInt 0), (''promisc'', JBool True),
          (''rx-queues'', JArr [JObj [(''q-id'', JInt 0), (''nb-desc'', JInt 256),
            (''pktpool-name'', JStr ''p0'')]]), (''tx-queues'', JArr [])]])])])]"

definition sample_env :: file_env where
  "sample_env = \<lparr>file_at = [''conf'' \<mapsto> ''{}''], chunks = (\<lambda>_. 4096),
     fresh_bytes = (\<lambda>n. replicate n (CHR ''x'')), bytes_behind = [CHR 0x00]\<rparr>"

definition sample_rings :: "ring_conf list" where
  "sample_rings = [\<lparr>ring_name = ''ring_1'', ring_size = 256, ring_single_producer = 1,
     ring_single_consumer = 0, ring_socket_id = 0\<rparr>]"

definition sample_ports :: "eth_conf list" where
  "sample_ports = [\<lparr>eth_port_id = 0, eth_promisc = 1, eth_nb_rx_q = 1, eth_nb_tx_q = 0, tx_queues = [],
     rx_queues = [\<lparr>q_socket_id = 0, q_id = 0, q_nb_desc = 256, q_pkt_pool_name = Some ''p0''\<rparr>]\<rparr>]"

lemma sample_decodes:
  "decode_config (jval_api (\<lambda>_. Some sample_json)) t = Some (7, 1, [], sample_ports, sample_rings)"
  by (simp add: decode_config_def jval_api_def sample_json_def decode_app_def decode_simps
      decode_array_def jelems_def decode_ring_def decode_eth_def decode_q_def clamp32_def
      sample_ports_def sample_rings_def)

theorem APP_CONF_parse_file_refines_decode_witness:
  "\<exists>s'. APP_CONF_parse_file (jval_api (\<lambda>_. Some sample_json)) sample_env ''conf'' undefined = Inr (0, s')
    \<and> config_is (7, 1, [], sample_ports, sample_rings) s'"
proof -
  have "agrees (APP_CONF_parse_file (jval_api (\<lambda>_. Some sample_json)) sample_env ''conf'' undefined)
      (\<lambda>d s'. config_is d s' \<and> json_live s' = json_live (undefined :: app_mem))
      (decode_config (jval_api (\<lambda>_. Some sample_json)) ''{}'')"
    using APP_CONF_parse_file_refines_decode [of sample_env "''conf''" "''{}''" "[]"
        "jval_api (\<lambda>_. Some sample_json)" undefined]
    by (simp add: sample_env_def)
  then show ?thesis unfolding sample_decodes agrees_Some by blast
qed

text \<open>
  A configuration file that cannot be opened makes \<open>APP_CONF_parse_file\<close> close a NULL
  stream, and a file whose bytes can no longer be read keeps it in its reading loop for ever;
  neither case returns the error code.
\<close>

theorem APP_CONF_parse_file_unreadable:
  "(file_at env fn = None \<longrightarrow> APP_CONF_parse_file api env fn s = Inl NullDeref)
   \<and> (file_at env fn = Some content \<and> content \<noteq> [] \<and> (\<forall>k. chunks env k = 0)
      \<longrightarrow> APP_CONF_parse_file api env fn s = Inl Diverges)"
  using read_config_missing [of env fn] read_config_stuck [of env fn content]
  by (auto simp: APP_CONF_parse_file_def parse_elements_def)

theorem APP_CONF_parse_file_unreadable_witness:
  "APP_CONF_parse_file (jval_api (\<lambda>_. None)) sample_env ''other'' undefined = Inl NullDeref
   \<and> APP_CONF_parse_file (jval_api (\<lambda>_. None)) (sample_env\<lparr>chunks := (\<lambda>_. 0)\<rparr>) ''conf'' undefined
      = Inl Diverges"
  using APP_CONF_parse_file_unreadable [of sample_env "''other''" "jval_api (\<lambda>_. None)" undefined]
    APP_CONF_parse_file_unreadable [of "sample_env\<lparr>chunks := (\<lambda>_. 0)\<rparr>" "''conf''"
      "jval_api (\<lambda>_. None)" undefined "''{}''"]
  by (simp add: sample_env_def)

text \<open>
  The core mask is read with a 32-bit accessor and sign-extended into its 64-bit field, so
  after a successful parse the bits 31 to 63 of the mask are all equal: no configuration can
  select or deselect a single core above 30.
\<close>

theorem core_mask_is_sign_extended:
  assumes "json_int32 api" and "parse_json_app api j s = Inr (0, s')" and "31 \<le> n" and "n < 64"
  shows "bit (core_mask (CONF s')) n = bit (core_mask (CONF s')) 31"
proof -
  from assms(2) parse_json_app_agrees [of api j s] obtain m k where
    d: "decode_app api j = Some (m, k)" and m: "core_mask (CONF s') = m"
    by (cases "decode_app api j") (auto simp: agrees_def)
  from d obtain v where m': "m = word_of_int (jint api v)"
    by (auto simp: decode_app_def decode_simps split: if_splits)
  have r: "- (2 ^ 31) \<le> jint api v" "jint api v < 2 ^ 31" using assms(1) by (simp_all add: json_int32_def)
  have "bit (jint api v) n = (jint api v < 0)" if "31 \<le> n" for n
  proof -
    have "(2::int) ^ 31 \<le> 2 ^ n" using that by (intro power_increasing) simp_all
    then have b: "- (2 ^ n) \<le> jint api v" "jint api v < 2 ^ n" using r by linarith+
    have "jint api v div 2 ^ n = (if jint api v < 0 then -1 else 0)"
    proof (cases "jint api v < 0")
      case True
      with b show ?thesis by (intro int_div_pos_eq [where r = "jint api v + 2 ^ n", THEN trans]) auto
    next
      case False
      with b show ?thesis by (simp add: zdiv_eq_0_iff)
    qed
    then show ?thesis by (simp add: bit_iff_odd)
  qed
  then show ?thesis using assms(3,4) m m' by (simp add: bit_word_of_int_iff)
qed

theorem core_mask_is_sign_extended_witness:
  "\<exists>s'. parse_json_app (jval_api (\<lambda>_. None)) (JObj [(''name'', JStr ''app_manager''),
      (''core-mask'', JInt (2 ^ 32)), (''memory-socket'', JInt 0)]) undefined = Inr (0, s')
    \<and> bit (core_mask (CONF s')) 32 = bit (core_mask (CONF s')) 31"
proof -
  let ?j = "JObj [(''name'', JStr ''app_manager''), (''core-mask'', JInt (2 ^ 32)),
      (''memory-socket'', JInt 0)]"
  obtain s' where s': "parse_json_app (jval_api (\<lambda>_. None)) ?j undefined = Inr (0, s')"
    by (simp add: parse_json_app_def jval_api_def APP_NAME_def Let_def)
  have "bit (core_mask (CONF s')) 32 = bit (core_mask (CONF s')) 31"
    by (rule core_mask_is_sign_extended [OF jval_api_int32 s']) simp_all
  with s' show ?thesis by blast
qed

text \<open>
  When the \<open>app\<close> object is there but not acceptable (wrong name, no mask, no memory
  socket), the parser returns -1 without releasing the JSON tree; on every other way out the
  tree is released.
\<close>

theorem json_parse_releases_tree:
  assumes "json_parse api tx s = Inr (r, s')"
    and "jparse api tx = Some jobj" and "jget_ex api jobj ''app'' = Some japp"
  shows "if decode_app api japp = None then r = -1 \<and> json_live s' = json_live s + 1
    else json_live s' = json_live s"
proof -
  let ?s = "s\<lparr>json_live := json_live s + 1\<rparr>"
  note app = parse_json_app_agrees [of api japp ?s]
  have live: "json_live t = json_live ?s" if "parse_json_app api japp ?s = Inr (c, t)" for c t
    using that
    by (auto simp: parse_json_app_def Let_def bind_run_eq_Inr split: option.splits if_splits)
  have res: "json_live u = json_live t" if "json_parse_ressources api jres t = Inr (c, u)" for jres t u c
    by (rule json_parse_ressources_live [OF that])
  show ?thesis
  proof (cases "decode_app api japp")
    case None
    with app assms live show ?thesis
      by (auto simp: json_parse_def agrees_None)
  next
    case (Some mk)
    with app obtain t where t: "parse_json_app api japp ?s = Inr (0, t)"
      by (cases mk) (auto simp: agrees_Some)
    have "json_live s' = json_live s"
    proof (cases "jget_ex api japp ''ressources''")
      case None
      with assms live [OF t] t show ?thesis by (auto simp: json_parse_def json_put_def)
    next
      case (Some jres)
      from assms t Some obtain c u where u: "json_parse_ressources api jres t = Inr (c, u)"
        and "s' = json_put u"
        by (auto simp: json_parse_def bind_run_eq_Inr split: if_splits)
      with res [OF u] live [OF t] show ?thesis by (simp add: json_put_def)
    qed
    with Some show ?thesis by simp
  qed
qed

theorem json_parse_releases_tree_witness:
  "\<exists>s'. json_parse (jval_api (\<lambda>_. Some (JObj [(''app'', JObj [])]))) [] undefined = Inr (-1, s')
    \<and> json_live s' = json_live (undefined :: app_mem) + 1"
proof -
  let ?api = "jval_api (\<lambda>_. Some (JObj [(''app'', JObj [])]))"
  obtain s' where s': "json_parse ?api [] undefined = Inr (-1, s')"
    by (simp add: json_parse_def jval_api_def parse_json_app_def)
  have "decode_app ?api (JObj []) = None" by (simp add: decode_app_def need_def jval_api_def)
  with json_parse_releases_tree [OF s', of "JObj [(''app'', JObj [])]" "JObj []"] s'
  show ?thesis by (simp add: jval_api_def)
qed

end
