(* ===== verification/Dpdk.thy ===== *)
theory Dpdk imports Prelude begin

text \<open>
  The DPDK functions that the two applications call, as a parameter: a record of functions over
  an abstract device state \<open>'d\<close>, at the argument widths of the DPDK headers.  The applications
  are verified for every such record.  (The ring library itself is modelled in theory
  \<open>RteRing\<close>.)

  \<open>log_dpdk\<close> is a concrete instance for witnesses: it records the calls it gets.
\<close>

record rte_eth_conf =
  rx_mq_mode :: nat
  split_hdr_size :: nat
  header_split :: bool
  hw_ip_checksum :: bool
  hw_vlan_filter :: bool
  jumbo_frame :: bool
  hw_strip_crc :: bool
  rss_key :: "addr option"
  rss_hf :: u64
  tx_mq_mode :: nat

record 'd dpdk =
  eal_init :: "string list \<Rightarrow> 'd \<Rightarrow> int \<times> 'd"
  pktmbuf_pool_create :: "string \<Rightarrow> u32 \<Rightarrow> u32 \<Rightarrow> u16 \<Rightarrow> u16 \<Rightarrow> int \<Rightarrow> 'd \<Rightarrow> addr option \<times> 'd"
  ring_create :: "string \<Rightarrow> u32 \<Rightarrow> int \<Rightarrow> u32 \<Rightarrow> 'd \<Rightarrow> addr option \<times> 'd"
  ring_lookup :: "string option \<Rightarrow> 'd \<Rightarrow> addr option run"
  mempool_lookup :: "string option \<Rightarrow> 'd \<Rightarrow> addr option run"
  eth_dev_count :: "'d \<Rightarrow> u8"
  eth_dev_configure :: "u8 \<Rightarrow> u16 \<Rightarrow> u16 \<Rightarrow> rte_eth_conf \<Rightarrow> 'd \<Rightarrow> int \<times> 'd"
  eth_promiscuous_enable :: "u8 \<Rightarrow> 'd \<Rightarrow> 'd"
  eth_promiscuous_disable :: "u8 \<Rightarrow> 'd \<Rightarrow> 'd"
  eth_rx_queue_setup :: "u8 \<Rightarrow> u16 \<Rightarrow> u16 \<Rightarrow> u32 \<Rightarrow> addr \<Rightarrow> 'd \<Rightarrow> int \<times> 'd"
  eth_tx_queue_setup :: "u8 \<Rightarrow> u16 \<Rightarrow> u16 \<Rightarrow> u32 \<Rightarrow> 'd \<Rightarrow> int \<times> 'd"
  eth_dev_start :: "u8 \<Rightarrow> 'd \<Rightarrow> int \<times> 'd"

section \<open>A recording instance\<close>

datatype dpdk_call =
    EalInit "string list"
  | PoolCreate string u32 u32 u16 u16 int
  | RingCreate string u32 int u32
  | DevConfigure u8 u16 u16
  | Promiscuous u8 bool
  | RxQueue u8 u16 u16 u32 addr
  | TxQueue u8 u16 u16 u32
  | DevStart u8

record call_log =
  calls :: "dpdk_call list"
  objects :: "(string \<times> addr) list"

definition record_call :: "dpdk_call \<Rightarrow> call_log \<Rightarrow> call_log" where
  "record_call c d = d\<lparr>calls := calls d @ [c]\<rparr>"

definition new_object :: "string \<Rightarrow> call_log \<Rightarrow> addr option \<times> call_log" where
  "new_object n d = (Some (Suc (length (objects d))),
     d\<lparr>objects := (n, Suc (length (objects d))) # objects d\<rparr>)"

definition log_dpdk :: "u8 \<Rightarrow> call_log dpdk" where
  "log_dpdk ports = \<lparr>
     eal_init = (\<lambda>args d. (0, record_call (EalInit args) d)),
     pktmbuf_pool_create = (\<lambda>n a b c e k d. new_object n (record_call (PoolCreate n a b c e k) d)),
     ring_create = (\<lambda>n a k f d. new_object n (record_call (RingCreate n a k f) d)),
     ring_lookup = (\<lambda>n d. case n of None \<Rightarrow> Inl NullDeref | Some n \<Rightarrow> Inr (map_of (objects d) n)),
     mempool_lookup = (\<lambda>n d. case n of None \<Rightarrow> Inl NullDeref | Some n \<Rightarrow> Inr (map_of (objects d) n)),
     eth_dev_count = (\<lambda>d. ports),
     eth_dev_configure = (\<lambda>p r t c d. (0, record_call (DevConfigure p r t) d)),
     eth_promiscuous_enable = (\<lambda>p d. record_call (Promiscuous p True) d),
     eth_promiscuous_disable = (\<lambda>p d. record_call (Promiscuous p False) d),
     eth_rx_queue_setup = (\<lambda>p q n s m d. (0, record_call (RxQueue p q n s m) d)),
     eth_tx_queue_setup = (\<lambda>p q n s d. (0, record_call (TxQueue p q n s) d)),
     eth_dev_start = (\<lambda>p d. (0, record_call (DevStart p) d))\<rparr>"

end
