(* ===== verification/Logger.thy ===== *)
theory Logger imports Prelude begin

text \<open>
  The two-file logger of \<open>common/log/log.c\<close>: an info file for the levels INFO, DEBUG and
  NOTICE and an error file for the rest.

  The C library's streams are modelled by \<open>stdio\<close>: every \<open>fopen\<close> hands out a new
  handle, \<open>fclose\<close> closes it for good, and text written through an open handle is appended to
  the file of that name (mode \<open>"a+"\<close>).  Which paths can be opened is the parameter
  \<open>openable\<close>.  The macros of \<open>log.h\<close> only call \<open>LOG_print\<close>; the other theories model the
  action they take and leave their log lines out.
\<close>

section \<open>Levels\<close>

datatype log_level =
  LOG_INFO | LOG_DEBUG | LOG_NOTICE | LOG_WARNING | LOG_ERROR | LOG_FATAL | LOG_MAX_LEVEL

fun level_num :: "log_level \<Rightarrow> int" where
  "level_num LOG_INFO = 0"
| "level_num LOG_DEBUG = 1"
| "level_num LOG_NOTICE = 2"
| "level_num LOG_WARNING = 3"
| "level_num LOG_ERROR = 4"
| "level_num LOG_FATAL = 5"
| "level_num LOG_MAX_LEVEL = 6"

lemma level_num_inject [simp]: "level_num a = level_num b \<longleftrightarrow> a = b"
  by (cases a; cases b) simp_all

text \<open>The enumeration is compared with \<open>>\<close> in the code.\<close>

instantiation log_level :: linorder
begin

definition less_eq_log_level :: "log_level \<Rightarrow> log_level \<Rightarrow> bool" where
  "less_eq_log_level a b \<longleftrightarrow> level_num a \<le> level_num b"

definition less_log_level :: "log_level \<Rightarrow> log_level \<Rightarrow> bool" where
  "less_log_level a b \<longleftrightarrow> level_num a < level_num b"

instance
  by standard (auto simp: less_eq_log_level_def less_log_level_def)

end

lemma le_max_level [simp]: "a \<le> LOG_MAX_LEVEL"
  by (cases a) (simp_all add: less_eq_log_level_def)

lemma not_above_max [simp]: "\<not> LOG_MAX_LEVEL < a"
  by (simp add: not_less)

section \<open>Streams\<close>

type_synonym handle = nat

record stdio =
  next_handle :: handle
  open_handles :: "handle set"
  path_of :: "handle \<Rightarrow> string"
  contents :: "string \<Rightarrow> string"

definition fopen_append :: "(string \<Rightarrow> bool) \<Rightarrow> string \<Rightarrow> stdio \<Rightarrow> handle option \<times> stdio" where
  "fopen_append openable path io =
     (if openable path
      then (Some (next_handle io),
            io\<lparr>next_handle := Suc (next_handle io),
               open_handles := insert (next_handle io) (open_handles io),
               path_of := (path_of io)(next_handle io := path)\<rparr>)
      else (None, io))"

definition fclose :: "handle \<Rightarrow> stdio \<Rightarrow> stdio run" where
  "fclose h io =
     (if h \<in> open_handles io then Inr (io\<lparr>open_handles := open_handles io - {h}\<rparr>)
      else Inl UseAfterFree)"

definition fwrite_text :: "handle \<Rightarrow> string \<Rightarrow> stdio \<Rightarrow> (int \<times> stdio) run" where
  "fwrite_text h t io =
     (if h \<in> open_handles io
      then Inr (int (length t),
           io\<lparr>contents := (contents io)(path_of io h := contents io (path_of io h) @ t)\<rparr>)
      else Inl UseAfterFree)"

section \<open>The logger\<close>

record logger =
  f_log_info :: "handle option"
  f_log_error :: "handle option"
  local_level :: log_level
  io :: stdio

definition initial_logger :: "stdio \<Rightarrow> logger" where
  "initial_logger i =
     \<lparr>f_log_info = None, f_log_error = None, local_level = LOG_MAX_LEVEL, io = i\<rparr>"

definition fclose_opt :: "handle option \<Rightarrow> logger \<Rightarrow> logger run" where
  "fclose_opt h s = (case h of
      None \<Rightarrow> Inr s
    | Some h \<Rightarrow> bind_run (fclose h (io s)) (\<lambda>i. Inr (s\<lparr>io := i\<rparr>)))"

text \<open>The \<open>error:\<close> label closes what is open and leaves the two static pointers as they are.\<close>

definition log_init_error :: "logger \<Rightarrow> (int \<times> logger) run" where
  "log_init_error s =
     bind_run (fclose_opt (f_log_info s) s) (\<lambda>s.
     bind_run (fclose_opt (f_log_error s) s) (\<lambda>s. Inr (-1, s)))"

definition LOG_init :: "(string \<Rightarrow> bool) \<Rightarrow> string \<Rightarrow> logger \<Rightarrow> (int \<times> logger) run" where
  "LOG_init openable log_path s =
     (let len = length log_path + length ''/cyber_info.log'' + 2 in
      bind_run (sprintf_cap len (log_path @ ''/cyber_info.log'')) (\<lambda>fname.
      let (h, i) = fopen_append openable fname (io s);
          s = s\<lparr>f_log_info := h, io := i\<rparr>
      in if h = None then log_init_error s
         else let len = length log_path + length ''/cyber_error.log'' + 2 in
           bind_run (sprintf_cap len (log_path @ ''/cyber_error.log'')) (\<lambda>fname.
           let (h, i) = fopen_append openable fname (io s);
               s = s\<lparr>f_log_error := h, io := i\<rparr>
           in if h = None then log_init_error s else Inr (0, s))))"

definition vlog :: "log_level \<Rightarrow> string \<Rightarrow> logger \<Rightarrow> (int \<times> logger) run" where
  "vlog level t s =
     (if level > local_level s then Inr (0, s)
      else let f = (if level = LOG_INFO \<or> level = LOG_DEBUG \<or> level = LOG_NOTICE
                    then f_log_info s else f_log_error s)
           in case f of
                None \<Rightarrow> Inr (-1, s)
              | Some h \<Rightarrow> bind_run (fwrite_text h t (io s)) (\<lambda>(r, i). Inr (r, s\<lparr>io := i\<rparr>)))"

definition LOG_print :: "log_level \<Rightarrow> string \<Rightarrow> logger \<Rightarrow> (int \<times> logger) run" where
  "LOG_print level t s = vlog level t s"

section \<open>Lemmas\<close>

text \<open>An initialised logger: two different open handles, on the two files.\<close>

definition ready :: "string \<Rightarrow> logger \<Rightarrow> bool" where
  "ready dir s \<longleftrightarrow> local_level s = LOG_MAX_LEVEL \<and>
     (\<exists>a b. f_log_info s = Some a \<and> f_log_error s = Some b \<and> a \<noteq> b
        \<and> a \<in> open_handles (io s) \<and> b \<in> open_handles (io s)
        \<and> path_of (io s) a = dir @ ''/cyber_info.log''
        \<and> path_of (io s) b = dir @ ''/cyber_error.log'')"

lemmas log_defs = LOG_init_def log_init_error_def fclose_opt_def fclose_def fopen_append_def
  sprintf_cap_def Let_def

definition goes_to_info :: "log_level \<Rightarrow> bool" where
  "goes_to_info lv \<longleftrightarrow> lv \<le> LOG_NOTICE"

lemma goes_to_info_iff:
  "goes_to_info lv \<longleftrightarrow> lv = LOG_INFO \<or> lv = LOG_DEBUG \<or> lv = LOG_NOTICE"
  by (cases lv) (simp_all add: goes_to_info_def less_eq_log_level_def)

definition log_path :: "string \<Rightarrow> log_level \<Rightarrow> string" where
  "log_path dir lv = dir @ (if goes_to_info lv then ''/cyber_info.log'' else ''/cyber_error.log'')"

lemma LOG_init_ok:
  assumes "openable (dir @ ''/cyber_info.log'')" and "openable (dir @ ''/cyber_error.log'')"
    and "local_level s = LOG_MAX_LEVEL"
  shows "\<exists>s'. LOG_init openable dir s = Inr (0, s') \<and> ready dir s'
    \<and> contents (io s') = contents (io s)"
  using assms by (auto simp: log_defs ready_def)

lemma LOG_print_ready:
  assumes "ready dir s"
  shows "\<exists>s'. LOG_print lv t s = Inr (int (length t), s') \<and> ready dir s'
    \<and> contents (io s') = (contents (io s))(log_path dir lv := contents (io s) (log_path dir lv) @ t)"
  using assms
  by (auto simp: ready_def LOG_print_def vlog_def Let_def fwrite_text_def log_path_def
      goes_to_info_iff not_less)

text \<open>A sequence of messages.\<close>

fun print_msgs :: "(log_level \<times> string) list \<Rightarrow> logger \<Rightarrow> logger run" where
  "print_msgs [] s = Inr s"
| "print_msgs ((lv, t) # ms) s = bind_run (LOG_print lv t s) (\<lambda>(r, s). print_msgs ms s)"

lemma print_msgs_ready:
  "ready dir s \<Longrightarrow> \<exists>s'. print_msgs ms s = Inr s' \<and> ready dir s' \<and>
     (\<forall>p. contents (io s') p
        = contents (io s) p @ concat (map snd (filter (\<lambda>(lv, _). log_path dir lv = p) ms)))"
proof (induction ms arbitrary: s)
  case Nil
  then show ?case by simp
next
  case (Cons msg ms)
  obtain lv t where msg: "msg = (lv, t)" by (cases msg)
  from LOG_print_ready [OF Cons.prems, of lv t]
  obtain s1 where s1: "LOG_print lv t s = Inr (int (length t), s1)" "ready dir s1"
    "contents (io s1) = (contents (io s))(log_path dir lv := contents (io s) (log_path dir lv) @ t)"
    by blast
  from Cons.IH [OF s1(2)] s1 msg show ?case by auto
qed

section \<open>Properties\<close>

text \<open>
  When both files can be opened, \<open>LOG_init\<close> succeeds (the two file names fit the buffers
  allocated for them) and from then on every \<open>LOG_print\<close> succeeds and appends its text to the
  info file for INFO, DEBUG and NOTICE and to the error file for the other levels, in the order
  of the calls, touching no other file.
\<close>

theorem LOG_routes_messages:
  assumes "openable (dir @ ''/cyber_info.log'')" and "openable (dir @ ''/cyber_error.log'')"
  shows "\<exists>s0 s'. LOG_init openable dir (initial_logger i) = Inr (0, s0) \<and> print_msgs ms s0 = Inr s'
    \<and> (\<forall>p. contents (io s') p
          = contents i p @ concat (map snd (filter (\<lambda>(lv, _). log_path dir lv = p) ms)))"
proof -
  have "local_level (initial_logger i) = LOG_MAX_LEVEL" by (simp add: initial_logger_def)
  from LOG_init_ok [OF assms this] obtain s0 where
    "LOG_init openable dir (initial_logger i) = Inr (0, s0)" "ready dir s0" "contents (io s0) = contents i"
    by (auto simp: initial_logger_def)
  with print_msgs_ready [of dir s0 ms] show ?thesis by metis
qed

theorem LOG_routes_messages_witness:
  "\<exists>s0 s'. LOG_init (\<lambda>_. True) ''/var/log/''
      (initial_logger \<lparr>next_handle = 0, open_handles = {}, path_of = (\<lambda>_. []), contents = (\<lambda>_. [])\<rparr>)
        = Inr (0, s0)
    \<and> print_msgs [(LOG_INFO, ''a''), (LOG_ERROR, ''b''), (LOG_NOTICE, ''c'')] s0 = Inr s'
    \<and> contents (io s') ''/var/log//cyber_info.log'' = ''ac''"
proof -
  let ?i = "\<lparr>next_handle = 0, open_handles = {}, path_of = (\<lambda>_. []), contents = (\<lambda>_. [])\<rparr>"
  let ?ms = "[(LOG_INFO, ''a''), (LOG_ERROR, ''b''), (LOG_NOTICE, ''c'')]"
  have "\<exists>s0 s'. LOG_init (\<lambda>_. True) ''/var/log/'' (initial_logger ?i) = Inr (0, s0)
    \<and> print_msgs ?ms s0 = Inr s' \<and> (\<forall>p. contents (io s') p
      = contents ?i p @ concat (map snd (filter (\<lambda>(lv, _). log_path ''/var/log/'' lv = p) ?ms)))"
    by (rule LOG_routes_messages) simp_all
  then obtain s0 s' where "LOG_init (\<lambda>_. True) ''/var/log/'' (initial_logger ?i) = Inr (0, s0)"
    "print_msgs ?ms s0 = Inr s'"
    "contents (io s') ''/var/log//cyber_info.log'' = concat (map snd (filter
        (\<lambda>(lv, _). log_path ''/var/log/'' lv = ''/var/log//cyber_info.log'') ?ms))"
    by fastforce
  moreover have "concat (map snd (filter
        (\<lambda>(lv, _). log_path ''/var/log/'' lv = ''/var/log//cyber_info.log'') ?ms)) = ''ac''"
    by (simp add: log_path_def goes_to_info_iff)
  ultimately show ?thesis by metis
qed

text \<open>
  When the second file cannot be opened, \<open>LOG_init\<close> reports failure but keeps a pointer to
  the info stream it has just closed: a later INFO message writes to a closed stream, while
  before any initialisation a message is dropped with result -1.
\<close>

theorem LOG_init_failure_dangles:
  assumes "openable (dir @ ''/cyber_info.log'')" and "\<not> openable (dir @ ''/cyber_error.log'')"
  shows "LOG_print LOG_INFO t (initial_logger i) = Inr (-1, initial_logger i)
    \<and> (\<exists>s'. LOG_init openable dir (initial_logger i) = Inr (-1, s')
          \<and> LOG_print LOG_INFO t s' = Inl UseAfterFree)"
proof -
  have "\<not> LOG_INFO > LOG_MAX_LEVEL" by (simp add: not_less)
  with assms show ?thesis
    by (auto simp: initial_logger_def LOG_print_def vlog_def log_defs fwrite_text_def)
qed

theorem LOG_init_failure_dangles_witness:
  "\<exists>s'. LOG_init (\<lambda>p. p = ''/x/cyber_info.log'') ''/x'' (initial_logger
      \<lparr>next_handle = 0, open_handles = {}, path_of = (\<lambda>_. []), contents = (\<lambda>_. [])\<rparr>) = Inr (-1, s')
    \<and> LOG_print LOG_INFO ''m'' s' = Inl UseAfterFree"
  using LOG_init_failure_dangles [of "\<lambda>p. p = ''/x/cyber_info.log''" "''/x''"] by simp

end
