(* ===== verification/AppAlloc.thy ===== *)
theory AppAlloc imports AppConf Dpdk Logger begin

text \<open>
  The resource allocator of the application manager, \<open>apps/app_manager/allocator.c\<close>, and its
  \<open>main.c\<close>: DPDK is started from the configuration, then the packet pools, the rings and the
  Ethernet ports of the three configuration lists are created in that order.

  The configuration is only read, so the callbacks of \<open>LL_ForEach\<close> get it as the constant
  \<open>cm\<close>; what changes is \<open>alloc_state\<close>: the tables \<open>pkt_pools\<close> and \<open>rings\<close> of
  \<open>main.h\<close> and the device state of DPDK.
\<close>

section \<open>State\<close>

record handle_tab =
  tab :: "addr option list"
  tab_count :: nat

record 'd alloc_state =
  pkt_pools :: handle_tab
  rings :: handle_tab
  dev :: 'd

section \<open>Operations\<close>

definition port_conf :: rte_eth_conf where
  "port_conf = \<lparr>rx_mq_mode = 1, split_hdr_size = 0, header_split = False, hw_ip_checksum = True,
     hw_vlan_filter = False, jumbo_frame = False, hw_strip_crc = False, rss_key = None,
     rss_hf = 41868, tx_mq_mode = 0\<rparr>"

text \<open>
  The argument vector of \<open>_init_dpdk\<close>: index \<open>i\<close> of its \<open>switch\<close>, with the 256 byte
  \<open>sprintf\<close> buffer.
\<close>

definition NOF_DPDK_PARAM :: nat where
  "NOF_DPDK_PARAM = 6"

definition dpdk_arg :: "app_conf \<Rightarrow> nat \<Rightarrow> string run" where
  "dpdk_arg c i =
     (if i = 0 then Inr (app_name c)
      else if i = 1 then Inr ''-c''
      else if i = 2 then sprintf_cap 256 (''0x'' @ hex_str (unat (core_mask c)))
      else if i = 3 then Inr ''-n''
      else if i = 4 then sprintf_cap 256 (int_str (memory_socket c) @ '' '')
      else if i = 5 then Inr ''--proc-type=primary''
      else Inl Uninitialised)"

fun build_args :: "(nat \<Rightarrow> string run) \<Rightarrow> nat list \<Rightarrow> string list run" where
  "build_args f [] = Inr []"
| "build_args f (i # is) = bind_run (f i) (\<lambda>a. bind_run (build_args f is) (\<lambda>as. Inr (a # as)))"

definition init_dpdk :: "'d dpdk \<Rightarrow> app_conf \<Rightarrow> 'd \<Rightarrow> (int \<times> 'd) run" where
  "init_dpdk dp c d =
     bind_run (build_args (dpdk_arg c) [0..<NOF_DPDK_PARAM]) (\<lambda>argv.
       let (ret, d) = eal_init dp argv d in Inr (if ret < 0 then -1 else 0, d))"

text \<open>Storing a new handle behind the last one; the callbacks count only what they got.\<close>

definition store_handle :: "('d \<Rightarrow> addr option \<times> 'd) \<Rightarrow> handle_tab \<times> 'd \<Rightarrow> (int \<times> handle_tab \<times> 'd) run" where
  "store_handle create td = (case td of (t, d) \<Rightarrow>
     bind_run (write_at (tab t) (tab_count t) None) (\<lambda>ts.
     let (h, d) = create d in
     bind_run (write_at ts (tab_count t) h) (\<lambda>ts.
       let t = t\<lparr>tab := ts\<rparr> in
       if h = None then Inr (-1, t, d) else Inr (0, t\<lparr>tab_count := tab_count t + 1\<rparr>, d))))"

definition create_pool :: "'d dpdk \<Rightarrow> pkt_pool_conf \<Rightarrow> 'd \<Rightarrow> addr option \<times> 'd" where
  "create_pool dp p = pktmbuf_pool_create dp (pool_name p) (word_of_int (pool_size p))
     (word_of_int (pool_cache_size p)) (word_of_int (pool_priv_size p))
     (word_of_int (pool_data_room_size p)) (pool_socket_id p)"

definition alloc_pkt_pool ::
  "'d dpdk \<Rightarrow> pkt_pool_conf \<Rightarrow> handle_tab \<times> 'd \<Rightarrow> (int \<times> handle_tab \<times> 'd) run" where
  "alloc_pkt_pool dp p = store_handle (create_pool dp p)"

text \<open>\<open>malloc\<close> of a table; \<open>junk\<close> is what the fresh words hold.\<close>

definition new_tab :: "(nat \<Rightarrow> addr option) \<Rightarrow> int \<Rightarrow> handle_tab" where
  "new_tab junk n = \<lparr>tab = map junk [0..<nat n], tab_count = 0\<rparr>"

definition alloc_pkt_pools ::
  "'d dpdk \<Rightarrow> (nat \<Rightarrow> addr option) \<Rightarrow> app_mem \<Rightarrow> 'd alloc_state \<Rightarrow> (int \<times> 'd alloc_state) run" where
  "alloc_pkt_pools dp junk cm s =
     bind_run (LL_ForEach (\<lambda>_. links cm) (pkt_pool_list (CONF cm))
         (\<lambda>e. alloc_pkt_pool dp (pool_at cm e))
         (new_tab junk (count (pkt_pool_list (CONF cm))), dev s))
       (\<lambda>(p, t, d). Inr (if p \<noteq> None then -1 else 0, s\<lparr>pkt_pools := t, dev := d\<rparr>))"

definition ring_flags :: "ring_conf \<Rightarrow> u32" where
  "ring_flags r = (if ring_single_producer r \<noteq> 0 then 1 else 0)
     OR (if ring_single_consumer r \<noteq> 0 then 2 else 0)"

definition create_ring :: "'d dpdk \<Rightarrow> ring_conf \<Rightarrow> 'd \<Rightarrow> addr option \<times> 'd" where
  "create_ring dp r = ring_create dp (ring_name r) (word_of_int (ring_size r)) (ring_socket_id r) (ring_flags r)"

definition alloc_ring ::
  "'d dpdk \<Rightarrow> ring_conf \<Rightarrow> handle_tab \<times> 'd \<Rightarrow> (int \<times> handle_tab \<times> 'd) run" where
  "alloc_ring dp r = store_handle (create_ring dp r)"

definition alloc_rings ::
  "'d dpdk \<Rightarrow> (nat \<Rightarrow> addr option) \<Rightarrow> app_mem \<Rightarrow> 'd alloc_state \<Rightarrow> (int \<times> 'd alloc_state) run" where
  "alloc_rings dp junk cm s =
     bind_run (LL_ForEach (\<lambda>_. links cm) (ring_list (CONF cm))
         (\<lambda>e. alloc_ring dp (ring_at cm e))
         (new_tab junk (count (ring_list (CONF cm))), dev s))
       (\<lambda>(p, t, d). Inr (if p \<noteq> None then -1 else 0, s\<lparr>rings := t, dev := d\<rparr>))"

definition init_rx_queue :: "'d dpdk \<Rightarrow> eth_conf \<Rightarrow> nat \<Rightarrow> 'd \<Rightarrow> (int \<times> 'd) run" where
  "init_rx_queue dp p i d =
     bind_run (read_at (rx_queues p) i) (\<lambda>q.
     bind_run (mempool_lookup dp (q_pkt_pool_name q) d) (\<lambda>pool.
     case pool of
       None \<Rightarrow> Inr (-1, d)
     | Some mp \<Rightarrow>
         let (ret, d) = eth_rx_queue_setup dp (word_of_int (eth_port_id p)) (word_of_int (q_id q))
             (word_of_int (q_nb_desc q)) (word_of_int (q_socket_id q)) mp d
         in Inr (if ret < 0 then -1 else 0, d)))"

definition init_tx_queue :: "'d dpdk \<Rightarrow> eth_conf \<Rightarrow> nat \<Rightarrow> 'd \<Rightarrow> (int \<times> 'd) run" where
  "init_tx_queue dp p i d =
     bind_run (read_at (tx_queues p) i) (\<lambda>q.
       let (ret, d) = eth_tx_queue_setup dp (word_of_int (eth_port_id p)) (word_of_int (q_id q))
           (word_of_int (q_nb_desc q)) (word_of_int (q_socket_id q)) d
       in Inr (if ret < 0 then -1 else 0, d))"

definition init_eth_port :: "'d dpdk \<Rightarrow> eth_conf \<Rightarrow> 'd \<Rightarrow> (int \<times> 'd) run" where
  "init_eth_port dp p d =
     (let port = word_of_int (eth_port_id p);
          (ret, d) = eth_dev_configure dp port (ucast (word_of_int (eth_nb_rx_q p) :: u8))
              (ucast (word_of_int (eth_nb_tx_q p) :: u8)) port_conf d
      in if ret < 0 then Inr (-1, d)
         else let d = (if eth_promisc p \<noteq> 0 then eth_promiscuous_enable dp port d
                       else eth_promiscuous_disable dp port d)
           in bind_run (run_each (init_rx_queue dp p) [0..<nat (eth_nb_rx_q p)] d) (\<lambda>(r, d).
              if r \<noteq> 0 then Inr (r, d)
              else run_each (init_tx_queue dp p) [0..<nat (eth_nb_tx_q p)] d))"

definition alloc_eth_ports :: "'d dpdk \<Rightarrow> app_mem \<Rightarrow> 'd alloc_state \<Rightarrow> (int \<times> 'd alloc_state) run" where
  "alloc_eth_ports dp cm s =
     (let size = count (eth_port_list (CONF cm)) in
      if size = 0 then Inr (0, s)
      else if uint (eth_dev_count dp (dev s)) < size then Inr (-1, s)
      else bind_run (LL_ForEach (\<lambda>_. links cm) (eth_port_list (CONF cm))
               (\<lambda>e. init_eth_port dp (eth_at cm e)) (dev s))
             (\<lambda>(p, d). Inr (if p \<noteq> None then -1 else 0, s\<lparr>dev := d\<rparr>)))"

definition start_eth_port :: "'d dpdk \<Rightarrow> nat \<Rightarrow> 'd \<Rightarrow> (int \<times> 'd) run" where
  "start_eth_port dp i d =
     (let (err, d) = eth_dev_start dp (of_nat i) d in Inr (if err < 0 then -1 else 0, d))"

definition start_eth_ports :: "'d dpdk \<Rightarrow> 'd \<Rightarrow> (int \<times> 'd) run" where
  "start_eth_ports dp d =
     (if eth_dev_count dp d = 0 then Inr (0, d)
      else run_each (start_eth_port dp) [0..<unat (eth_dev_count dp d)] d)"

definition ALLOCATOR_create_ressources ::
  "'d dpdk \<Rightarrow> (nat \<Rightarrow> addr option) \<Rightarrow> app_mem option \<Rightarrow> 'd alloc_state \<Rightarrow> (int \<times> 'd alloc_state) run" where
  "ALLOCATOR_create_ressources dp junk conf s = (case conf of
      None \<Rightarrow> Inr (-1, s)
    | Some cm \<Rightarrow>
        bind_run (init_dpdk dp (CONF cm) (dev s)) (\<lambda>(err, d).
        let s = s\<lparr>dev := d\<rparr> in
        if err \<noteq> 0 then Inr (-1, s)
        else bind_run (alloc_pkt_pools dp junk cm s) (\<lambda>(err, s).
        if err \<noteq> 0 then Inr (-1, s)
        else bind_run (alloc_rings dp junk cm s) (\<lambda>(err, s).
        if err \<noteq> 0 then Inr (-1, s)
        else bind_run (alloc_eth_ports dp cm s) (\<lambda>(err, s).
        if err \<noteq> 0 then Inr (-1, s) else Inr (err, s))))))"

definition ALLOCATOR_start_ressources :: "'d dpdk \<Rightarrow> 'd alloc_state \<Rightarrow> (int \<times> 'd alloc_state) run" where
  "ALLOCATOR_start_ressources dp s =
     bind_run (start_eth_ports dp (dev s)) (\<lambda>(ret, d).
       Inr (if ret \<noteq> 0 then -1 else ret, s\<lparr>dev := d\<rparr>))"

section \<open>The main function\<close>

text \<open>
  \<open>main\<close> reads the option list that \<open>getopt_long\<close> returns (code and argument), and either
  returns a code, ends the process with \<open>exit\<close>, or stays in its \<open>sleep\<close> loop for ever.
\<close>

datatype main_end = Returns int | Exits int | Idles

fun config_file_opt :: "(char \<times> string) list \<Rightarrow> string option \<Rightarrow> string option" where
  "config_file_opt [] fn = fn"
| "config_file_opt ((c, optarg) # os) fn = config_file_opt os (if c = CHR ''f'' then Some optarg else fn)"

definition app_main ::
  "'d dpdk \<Rightarrow> (nat \<Rightarrow> addr option) \<Rightarrow> 'j json_api \<Rightarrow> file_env \<Rightarrow> (string \<Rightarrow> bool)
     \<Rightarrow> (char \<times> string) list \<Rightarrow> app_mem \<Rightarrow> logger \<Rightarrow> 'd alloc_state
     \<Rightarrow> (main_end \<times> app_mem \<times> 'd alloc_state) run" where
  "app_main dp junk api env openable opts cm lg s = (case config_file_opt opts None of
      None \<Rightarrow> Inr (Exits 1, cm, s)
    | Some filename \<Rightarrow>
        bind_run (LOG_init openable ''/var/log/'' lg) (\<lambda>(rc, lg).
        if rc \<noteq> 0 then Inr (Returns (-1), cm, s)
        else bind_run (APP_CONF_parse_file api env filename cm) (\<lambda>(err, cm).
        if err \<noteq> 0 then Inr (Exits (-1), cm, s)
        else bind_run (ALLOCATOR_create_ressources dp junk (Some cm) s) (\<lambda>(err, s).
        if err \<noteq> 0 then Inr (Exits (-1), cm, s)
        else bind_run (ALLOCATOR_start_ressources dp s) (\<lambda>(err, s).
        if err \<noteq> 0 then Inr (Exits (-1), cm, s) else Inr (Idles, cm, s))))))"

section \<open>The resources a configuration asks for\<close>

text \<open>Creating objects one after the other until one fails: the handles, and whether all succeeded.\<close>

fun create_all :: "('a \<Rightarrow> 'd \<Rightarrow> addr option \<times> 'd) \<Rightarrow> 'a list \<Rightarrow> 'd \<Rightarrow> addr list \<times> bool \<times> 'd" where
  "create_all f [] d = ([], True, d)"
| "create_all f (x # xs) d = (case f x d of
      (None, d) \<Rightarrow> ([], False, d)
    | (Some a, d) \<Rightarrow> (case create_all f xs d of (as, ok, d) \<Rightarrow> (a # as, ok, d)))"

definition eal_args :: "u64 \<Rightarrow> int \<Rightarrow> string list" where
  "eal_args m k = [''app_manager'', ''-c'', ''0x'' @ hex_str (unat m), ''-n'', int_str k @ '' '',
     ''--proc-type=primary'']"

text \<open>The abstract state: the handles in the two tables and the device state.\<close>

definition handles :: "handle_tab \<Rightarrow> addr option list" where
  "handles t = take (tab_count t) (tab t)"

definition alloc_view :: "'d alloc_state \<Rightarrow> addr option list \<times> addr option list \<times> 'd" where
  "alloc_view s = (handles (pkt_pools s), handles (rings s), dev s)"

definition create_spec ::
  "'d dpdk \<Rightarrow> app_config \<Rightarrow> addr option list \<times> addr option list \<times> 'd
     \<Rightarrow> (int \<times> addr option list \<times> addr option list \<times> 'd) run" where
  "create_spec dp cfg v = (case (cfg, v) of ((m, k, ps, es, rs), (P, R, d)) \<Rightarrow>
     (case eal_init dp (eal_args m k) d of (r, d) \<Rightarrow>
      if r < 0 then Inr (-1, P, R, d)
      else (case create_all (create_pool dp) ps d of (pls, ok, d) \<Rightarrow>
      if \<not> ok then Inr (-1, map Some pls, R, d)
      else (case create_all (create_ring dp) rs d of (rgs, ok, d) \<Rightarrow>
      if \<not> ok then Inr (-1, map Some pls, map Some rgs, d)
      else if es = [] then Inr (0, map Some pls, map Some rgs, d)
      else if uint (eth_dev_count dp d) < int (length es)
        then Inr (-1, map Some pls, map Some rgs, d)
      else bind_run (visit_objs (init_eth_port dp) es d) (\<lambda>(stopped, d).
        Inr (if stopped then -1 else 0, map Some pls, map Some rgs, d))))))"

section \<open>Lemmas\<close>

lemma handles_new_tab [simp]: "handles (new_tab junk n) = []"
  by (simp add: handles_def new_tab_def)

lemma store_handle_fits:
  assumes "tab_count t < length (tab t)" and "create d = (h, d')"
  shows "store_handle create (t, d) = (case h of
      None \<Rightarrow> Inr (-1, t\<lparr>tab := (tab t)[tab_count t := None]\<rparr>, d')
    | Some a \<Rightarrow> Inr (0, t\<lparr>tab := (tab t)[tab_count t := Some a], tab_count := tab_count t + 1\<rparr>, d'))"
  using assms by (cases h) (simp_all add: store_handle_def)

text \<open>The tables are large enough: no write is out of bounds, whatever fails.\<close>

lemma visit_store:
  assumes "tab_count t + length xs \<le> length (tab t)"
  shows "\<exists>t'. visit_objs (\<lambda>x. store_handle (f x)) xs (t, d)
      = Inr (\<not> fst (snd (create_all f xs d)), t', snd (snd (create_all f xs d)))
    \<and> handles t' = handles t @ map Some (fst (create_all f xs d))"
  using assms
proof (induction xs arbitrary: t d)
  case Nil
  then show ?case by simp
next
  case (Cons x xs)
  obtain h d1 where f: "f x d = (h, d1)" by (cases "f x d")
  have fits: "tab_count t < length (tab t)" using Cons.prems by simp
  note st = store_handle_fits [of t "f x", OF fits f]
  show ?case
  proof (cases h)
    case None
    with st f show ?thesis by (simp add: handles_def)
  next
    case (Some a)
    let ?t = "t\<lparr>tab := (tab t)[tab_count t := Some a], tab_count := tab_count t + 1\<rparr>"
    have "tab_count ?t + length xs \<le> length (tab ?t)" using Cons.prems by simp
    from Cons.IH [OF this, of d1] obtain t' where
      "visit_objs (\<lambda>x. store_handle (f x)) xs (?t, d1)
        = Inr (\<not> fst (snd (create_all f xs d1)), t', snd (snd (create_all f xs d1)))"
      and "handles t' = handles ?t @ map Some (fst (create_all f xs d1))" by blast
    moreover have "handles ?t = handles t @ [Some a]"
      using fits by (simp add: handles_def take_Suc_conv_app_nth)
    ultimately show ?thesis using st f Some by (cases "create_all f xs d1") auto
  qed
qed

text \<open>The result of \<open>LL_ForEach\<close> is only compared with NULL.\<close>

lemma foreach_code:
  assumes "holds m b l obj A vs"
  shows "bind_run (LL_ForEach (\<lambda>_. m) l (\<lambda>e. f (obj e)) s) (\<lambda>(p, s'). Inr (if p \<noteq> None then -1 else 0, g s'))
    = bind_run (visit_objs f vs s) (\<lambda>(stopped, s'). Inr (if stopped then -1 else (0::int), g s'))"
proof -
  have "bind_run (LL_ForEach (\<lambda>_. m) l (\<lambda>e. f (obj e)) s) (\<lambda>(p, s'). Inr (if p \<noteq> None then -1 else 0, g s'))
      = bind_run (bind_run (LL_ForEach (\<lambda>_. m) l (\<lambda>e. f (obj e)) s) (\<lambda>(p, s'). Inr (p \<noteq> None, s')))
          (\<lambda>(stopped, s'). Inr (if stopped then -1 else (0::int), g s'))"
    by (cases "LL_ForEach (\<lambda>_. m) l (\<lambda>e. f (obj e)) s") auto
  with holds_foreach [OF assms, of f s] show ?thesis by simp
qed

lemma tab_fits: "holds m b l obj A vs \<Longrightarrow> tab_count (new_tab junk (count l)) + length vs
    \<le> length (tab (new_tab junk (count l)))"
  by (simp add: new_tab_def holds_count)

lemma alloc_pkt_pools_eq:
  assumes "holds (links cm) b (pkt_pool_list (CONF cm)) (pool_at cm) A ps"
    and "create_all (create_pool dp) ps (dev s) = (as, ok, d)"
  shows "\<exists>t. alloc_pkt_pools dp junk cm s
      = Inr (if ok then 0 else -1, s\<lparr>pkt_pools := t, dev := d\<rparr>) \<and> handles t = map Some as"
proof -
  let ?t0 = "new_tab junk (count (pkt_pool_list (CONF cm)))"
  from visit_store [OF tab_fits [OF assms(1)], of "create_pool dp" junk "dev s"] assms(2) obtain t where
    "visit_objs (alloc_pkt_pool dp) ps (?t0, dev s) = Inr (\<not> ok, t, d)" and t: "handles t = map Some as"
    by (auto simp: alloc_pkt_pool_def [abs_def])
  then have "alloc_pkt_pools dp junk cm s = Inr (if ok then 0 else -1, s\<lparr>pkt_pools := t, dev := d\<rparr>)"
    using foreach_code [OF assms(1), of "alloc_pkt_pool dp" "(?t0, dev s)"
        "\<lambda>(t, d). s\<lparr>pkt_pools := t, dev := d\<rparr>"]
    by (simp add: alloc_pkt_pools_def case_prod_unfold)
  with t show ?thesis by blast
qed

lemma alloc_rings_eq:
  assumes "holds (links cm) b (ring_list (CONF cm)) (ring_at cm) A rs"
    and "create_all (create_ring dp) rs (dev s) = (as, ok, d)"
  shows "\<exists>t. alloc_rings dp junk cm s
      = Inr (if ok then 0 else -1, s\<lparr>rings := t, dev := d\<rparr>) \<and> handles t = map Some as"
proof -
  let ?t0 = "new_tab junk (count (ring_list (CONF cm)))"
  from visit_store [OF tab_fits [OF assms(1)], of "create_ring dp" junk "dev s"] assms(2) obtain t where
    "visit_objs (alloc_ring dp) rs (?t0, dev s) = Inr (\<not> ok, t, d)" and t: "handles t = map Some as"
    by (auto simp: alloc_ring_def [abs_def])
  then have "alloc_rings dp junk cm s = Inr (if ok then 0 else -1, s\<lparr>rings := t, dev := d\<rparr>)"
    using foreach_code [OF assms(1), of "alloc_ring dp" "(?t0, dev s)"
        "\<lambda>(t, d). s\<lparr>rings := t, dev := d\<rparr>"]
    by (simp add: alloc_rings_def case_prod_unfold)
  with t show ?thesis by blast
qed

text \<open>A port's queue arrays are only read below the queue counts.\<close>

lemma read_at_take: "i < n \<Longrightarrow> read_at (take n xs) i = read_at xs i"
  by (simp add: read_at_def)

lemma eth_view_queues:
  "rx_queues (eth_view p) = take (nat (eth_nb_rx_q p)) (rx_queues p)"
  "tx_queues (eth_view p) = take (nat (eth_nb_tx_q p)) (tx_queues p)"
  by (simp_all add: eth_view_def)

lemma init_eth_port_view [simp]: "init_eth_port dp (eth_view p) = init_eth_port dp p"
proof -
  have rx: "run_each (init_rx_queue dp (eth_view p)) [0..<nat (eth_nb_rx_q p)] d
      = run_each (init_rx_queue dp p) [0..<nat (eth_nb_rx_q p)] d" for d
    unfolding init_rx_queue_def eth_view_sel eth_view_queues
    by (rule run_each_cong) (simp_all add: read_at_take)
  have tx: "run_each (init_tx_queue dp (eth_view p)) [0..<nat (eth_nb_tx_q p)] d
      = run_each (init_tx_queue dp p) [0..<nat (eth_nb_tx_q p)] d" for d
    unfolding init_tx_queue_def eth_view_sel eth_view_queues
    by (rule run_each_cong) (simp_all add: read_at_take)
  show ?thesis
    by (rule ext) (unfold init_eth_port_def eth_view_sel rx tx, rule refl)
qed

lemma alloc_eth_ports_eq:
  assumes "holds (links cm) b (eth_port_list (CONF cm)) (\<lambda>a. eth_view (eth_at cm a)) A es"
  shows "alloc_eth_ports dp cm s =
     (if es = [] then Inr (0, s)
      else if uint (eth_dev_count dp (dev s)) < int (length es) then Inr (-1, s)
      else bind_run (visit_objs (init_eth_port dp) es (dev s)) (\<lambda>(stopped, d).
        Inr (if stopped then -1 else 0, s\<lparr>dev := d\<rparr>)))"
  using foreach_code [OF assms, of "init_eth_port dp" "dev s" "\<lambda>d. s\<lparr>dev := d\<rparr>"]
  by (simp add: alloc_eth_ports_def Let_def holds_count [OF assms])

lemma init_dpdk_eq:
  assumes "app_name c = ''app_manager''" and "\<bar>memory_socket c\<bar> \<le> 2 ^ 31"
  shows "init_dpdk dp c d = (case eal_init dp (eal_args (core_mask c) (memory_socket c)) d of
    (r, d) \<Rightarrow> Inr (if r < 0 then -1 else 0, d))"
proof -
  have "length (int_str (memory_socket c)) \<le> 9 + 2"
    using assms(2) by (intro int_str_length) simp
  then have k: "length (int_str (memory_socket c) @ '' '') < 256" by simp
  have m: "length (''0x'' @ hex_str (unat (core_mask c))) < 256"
    using hex_str_length [of "core_mask c"] by simp
  have "build_args (dpdk_arg c) [0..<NOF_DPDK_PARAM] = Inr (eal_args (core_mask c) (memory_socket c))"
    unfolding NOF_DPDK_PARAM_def
    using sprintf_cap_fits [OF k] sprintf_cap_fits [OF m] assms(1)
    by (simp add: upt_rec dpdk_arg_def eal_args_def)
  then show ?thesis by (simp add: init_dpdk_def split: prod.splits)
qed

lemma create_refines:
  assumes "config_is (m, k, ps, es, rs) cm" and "\<bar>k\<bar> \<le> 2 ^ 31"
    and "handles (pkt_pools s) = []" and "handles (rings s) = []"
  shows "bind_run (ALLOCATOR_create_ressources dp junk (Some cm) s) (\<lambda>(r, s). Inr (r, alloc_view s))
    = create_spec dp (m, k, ps, es, rs) ([], [], dev s)"
proof -
  from assms(1) obtain A B C where c: "app_name (CONF cm) = ''app_manager''" "core_mask (CONF cm) = m"
      "memory_socket (CONF cm) = k"
    and h: "holds (links cm) (brk cm) (pkt_pool_list (CONF cm)) (pool_at cm) A ps"
      "holds (links cm) (brk cm) (eth_port_list (CONF cm)) (\<lambda>a. eth_view (eth_at cm a)) B es"
      "holds (links cm) (brk cm) (ring_list (CONF cm)) (ring_at cm) C rs"
    by (auto simp: config_is_def conf_rep_def)
  obtain r d where e: "eal_init dp (eal_args m k) (dev s) = (r, d)" by (cases "eal_init dp (eal_args m k) (dev s)")
  obtain pls ok1 d1 where p: "create_all (create_pool dp) ps d = (pls, ok1, d1)"
    by (cases "create_all (create_pool dp) ps d")
  obtain rgs ok2 d2 where g: "create_all (create_ring dp) rs d1 = (rgs, ok2, d2)"
    by (cases "create_all (create_ring dp) rs d1")
  have i: "init_dpdk dp (CONF cm) (dev s) = Inr (if r < 0 then -1 else 0, d)"
    using init_dpdk_eq [of "CONF cm" dp "dev s"] c e assms(2) by simp
  obtain t1 where t1: "alloc_pkt_pools dp junk cm (s\<lparr>dev := d\<rparr>)
      = Inr (if ok1 then 0 else -1, s\<lparr>dev := d, pkt_pools := t1, dev := d1\<rparr>)" "handles t1 = map Some pls"
    using alloc_pkt_pools_eq [OF h(1), of dp "s\<lparr>dev := d\<rparr>"] p by auto
  obtain t2 where t2: "alloc_rings dp junk cm (s\<lparr>dev := d, pkt_pools := t1, dev := d1\<rparr>)
      = Inr (if ok2 then 0 else -1, s\<lparr>dev := d, pkt_pools := t1, dev := d1, rings := t2, dev := d2\<rparr>)"
      "handles t2 = map Some rgs"
    using alloc_rings_eq [OF h(3), of dp "s\<lparr>dev := d, pkt_pools := t1, dev := d1\<rparr>"] g by auto
  note eth = alloc_eth_ports_eq [OF h(2), of dp
      "s\<lparr>dev := d, pkt_pools := t1, dev := d1, rings := t2, dev := d2\<rparr>"]
  show ?thesis
  proof (cases "0 \<le> r \<and> ok1 \<and> ok2")
    case False
    with e p g i t1 t2 assms(3,4) show ?thesis
      by (auto simp: ALLOCATOR_create_ressources_def create_spec_def alloc_view_def Let_def)
  next
    case True
    then have ok: "\<not> r < 0" "ok1" "ok2" by auto
    have run: "ALLOCATOR_create_ressources dp junk (Some cm) s = bind_run (alloc_eth_ports dp cm
        (s\<lparr>dev := d, pkt_pools := t1, dev := d1, rings := t2, dev := d2\<rparr>)) (\<lambda>(err, s).
        if err \<noteq> 0 then Inr (-1, s) else Inr (err, s))"
      using ok i t1(1) t2(1) by (simp add: ALLOCATOR_create_ressources_def Let_def)
    show ?thesis unfolding run eth
      using ok e p g t1(2) t2(2)
      by (cases "visit_objs (init_eth_port dp) es d2")
        (auto simp: create_spec_def alloc_view_def)
  qed
qed

section \<open>Properties\<close>

text \<open>
  C15: From a state that represents a configuration, \<open>ALLOCATOR_create_ressources\<close> does exactly
  what the configuration asks for, whatever DPDK answers: one EAL start, then one creation call
  per packet pool, per ring and per port in list order, stopping at the first failure with -1;
  the two tables hold precisely the handles created, and no table write is out of bounds.
\<close>

theorem ALLOCATOR_create_ressources_refines:
  assumes "config_is (m, k, ps, es, rs) cm" and "\<bar>k\<bar> \<le> 2 ^ 31"
    and "handles (pkt_pools s) = []" and "handles (rings s) = []"
  shows "bind_run (ALLOCATOR_create_ressources dp junk (Some cm) s) (\<lambda>(r, s). Inr (r, alloc_view s))
    = create_spec dp (m, k, ps, es, rs) ([], [], dev s)"
  using assms by (rule create_refines)

definition one_pool :: pkt_pool_conf where
  "one_pool = \<lparr>pool_name = ''p0'', pool_size = 8191, pool_cache_size = 0, pool_priv_size = 0,
     pool_data_room_size = 2048, pool_socket_id = 0\<rparr>"

definition one_pool_mem :: app_mem where
  "one_pool_mem = \<lparr>CONF = \<lparr>app_name = ''app_manager'', core_mask = 7, memory_socket = 1,
       eth_port_list = \<lparr>head = None, tail = None, count = 0\<rparr>,
       pkt_pool_list = \<lparr>head = Some 0, tail = Some 0, count = 1\<rparr>,
       ring_list = \<lparr>head = None, tail = None, count = 0\<rparr>\<rparr>,
     links = \<lparr>nxt = (\<lambda>_. None), prv = (\<lambda>_. None)\<rparr>, brk = 1, pool_at = (\<lambda>_. one_pool),
     eth_at = (\<lambda>_. undefined), ring_at = (\<lambda>_. undefined), json_live = 0\<rparr>"

definition no_resources :: "call_log alloc_state" where
  "no_resources = \<lparr>pkt_pools = \<lparr>tab = [], tab_count = 0\<rparr>, rings = \<lparr>tab = [], tab_count = 0\<rparr>,
     dev = \<lparr>calls = [], objects = []\<rparr>\<rparr>"

lemma no_resources_simps [simp]:
  "handles (pkt_pools no_resources) = []" "handles (rings no_resources) = []"
  "dev no_resources = \<lparr>calls = [], objects = []\<rparr>"
  by (simp_all add: no_resources_def handles_def)

lemma one_pool_config: "config_is (7, 1, [one_pool], [], []) one_pool_mem"
proof -
  have "holds (links one_pool_mem) 1 (pkt_pool_list (CONF one_pool_mem)) (pool_at one_pool_mem) {0} [one_pool]"
    unfolding holds_def by (rule exI [of _ "[0]"]) (simp add: dll_def one_pool_mem_def)
  moreover have "holds (links one_pool_mem) 1 (eth_port_list (CONF one_pool_mem))
      (\<lambda>a. eth_view (eth_at one_pool_mem a)) {} []"
    "holds (links one_pool_mem) 1 (ring_list (CONF one_pool_mem)) (ring_at one_pool_mem) {} []"
    by (simp_all add: holds_def dll_def one_pool_mem_def)
  moreover have "brk one_pool_mem = 1" by (simp add: one_pool_mem_def)
  ultimately have "conf_rep one_pool_mem [one_pool] [] []" unfolding conf_rep_def
    by (intro exI [of _ "{0}"] exI [of _ "{}"]) simp
  then show ?thesis by (simp add: config_is_def one_pool_mem_def)
qed

theorem ALLOCATOR_create_ressources_refines_witness:
  "\<exists>s'. ALLOCATOR_create_ressources (log_dpdk 0) (\<lambda>_. Some 99) (Some one_pool_mem) no_resources = Inr (0, s')
    \<and> handles (pkt_pools s') = [Some 1] \<and> calls (dev s')
      = [EalInit [''app_manager'', ''-c'', ''0x7'', ''-n'', ''1 '', ''--proc-type=primary''],
         PoolCreate ''p0'' 8191 0 0 2048 0]"
proof -
  have "bind_run (ALLOCATOR_create_ressources (log_dpdk 0) (\<lambda>_. Some 99) (Some one_pool_mem) no_resources)
      (\<lambda>(r, s). Inr (r, alloc_view s))
    = create_spec (log_dpdk 0) (7, 1, [one_pool], [], []) ([], [], dev no_resources)"
    by (rule ALLOCATOR_create_ressources_refines [OF one_pool_config]) simp_all
  also have "\<dots> = Inr (0, [Some 1], [], \<lparr>calls = [EalInit [''app_manager'', ''-c'', ''0x7'', ''-n'', ''1 '',
        ''--proc-type=primary''], PoolCreate ''p0'' 8191 0 0 2048 0], objects = [(''p0'', 1)]\<rparr>)"
    by (simp add: create_spec_def log_dpdk_def create_pool_def new_object_def record_call_def
        one_pool_def eal_args_def hex_str_def int_str_def base_digits.simps digit_char_def)
  finally show ?thesis by (auto simp: bind_run_eq_Inr alloc_view_def)
qed

text \<open>
  The EAL is started with exactly the six arguments of the application: its name, the core
  mask in hexadecimal, which reads back as the configured 64-bit mask, the memory socket given as
  the number of memory channels (\<open>-n\<close>), and the primary process type; the 256 byte buffer
  never overflows.
\<close>

theorem init_dpdk_command_line:
  assumes "app_name c = ''app_manager''" and "\<bar>memory_socket c\<bar> \<le> 2 ^ 31"
  shows "\<exists>hex dec. init_dpdk dp c d
      = (case eal_init dp [''app_manager'', ''-c'', ''0x'' @ hex, ''-n'', dec @ '' '', ''--proc-type=primary''] d
         of (r, d) \<Rightarrow> Inr (if r < 0 then -1 else 0, d))
    \<and> digits_value 16 0 hex = unat (core_mask c)
    \<and> (0 \<le> memory_socket c \<longrightarrow> int (digits_value 10 0 dec) = memory_socket c)"
  using init_dpdk_eq [OF assms, of dp d]
  by (intro exI [of _ "hex_str (unat (core_mask c))"] exI [of _ "int_str (memory_socket c)"])
    (simp add: eal_args_def hex_str_roundtrip int_str_def base_digits_roundtrip)

theorem init_dpdk_command_line_witness:
  "\<exists>hex dec. init_dpdk (log_dpdk 0) (CONF one_pool_mem) \<lparr>calls = [], objects = []\<rparr>
      = Inr (0, \<lparr>calls = [EalInit [''app_manager'', ''-c'', ''0x'' @ hex, ''-n'', dec @ '' '',
          ''--proc-type=primary'']], objects = []\<rparr>)
    \<and> digits_value 16 0 hex = 7"
  using init_dpdk_command_line [of "CONF one_pool_mem" "log_dpdk 0" "\<lparr>calls = [], objects = []\<rparr>"]
  by (auto simp: one_pool_mem_def log_dpdk_def record_call_def)

definition start_all :: "'d dpdk \<Rightarrow> nat list \<Rightarrow> 'd \<Rightarrow> 'd" where
  "start_all dp is d = fold (\<lambda>i d. snd (eth_dev_start dp (of_nat i) d)) is d"

lemma run_start:
  "\<forall>i d. 0 \<le> fst (eth_dev_start dp i d) \<Longrightarrow> run_each (start_eth_port dp) is d = Inr (0, start_all dp is d)"
proof (induction "is" arbitrary: d)
  case Nil
  then show ?case by (simp add: start_all_def)
next
  case (Cons i "is")
  then show ?case
    by (simp add: start_eth_port_def start_all_def case_prod_unfold Let_def not_less)
qed

text \<open>
  Starting the resources starts every port that DPDK detected, 0 up to the device count, in
  order and whether or not it was configured; it succeeds when every start does.
\<close>

theorem ALLOCATOR_start_ressources_starts_all:
  assumes "\<forall>i d. 0 \<le> fst (eth_dev_start dp i d)"
  shows "ALLOCATOR_start_ressources dp s
    = Inr (0, s\<lparr>dev := start_all dp [0..<unat (eth_dev_count dp (dev s))] (dev s)\<rparr>)"
  using run_start [OF assms]
  by (simp add: ALLOCATOR_start_ressources_def start_eth_ports_def start_all_def)

theorem ALLOCATOR_start_ressources_starts_all_witness:
  "ALLOCATOR_start_ressources (log_dpdk 2) no_resources
    = Inr (0, no_resources\<lparr>dev := \<lparr>calls = [DevStart 0, DevStart 1], objects = []\<rparr>\<rparr>)"
  by (subst ALLOCATOR_start_ressources_starts_all)
    (simp_all add: log_dpdk_def record_call_def start_all_def upt_rec no_resources_def)

text \<open>
  C37: With a readable, valid configuration file and writable log files, \<open>main\<close> creates
  the resources of the decoded configuration and starts the ports, and then idles for ever, or it
  ends the process with -1 when the creation or a start failed; nothing is started when the
  creation failed.
\<close>

theorem app_main_runs_the_configuration:
  assumes "config_file_opt opts None = Some fn" and "openable ''/var/log//cyber_info.log''"
    and "openable ''/var/log//cyber_error.log''" and "local_level lg = LOG_MAX_LEVEL"
    and "read_config env fn = Inr tx" and "decode_config api tx = Some (m, k, ps, es, rs)"
    and "\<bar>k\<bar> \<le> 2 ^ 31" and "handles (pkt_pools s) = []" and "handles (rings s) = []"
    and "create_spec dp (m, k, ps, es, rs) ([], [], dev s) = Inr (r, P, R, d)"
    and "start_eth_ports dp d = Inr (c, d')"
  shows "\<exists>cm' s'. app_main dp junk api env openable opts cm lg s
      = Inr (if r = 0 \<and> c = 0 then Idles else Exits (-1), cm', s')
    \<and> config_is (m, k, ps, es, rs) cm' \<and> alloc_view s' = (P, R, if r = 0 then d' else d)"
proof -
  from LOG_init_ok [of openable "''/var/log/''" lg] assms(2-4) obtain lg' where
    log: "LOG_init openable ''/var/log/'' lg = Inr (0, lg')" by auto
  have "agrees (APP_CONF_parse_file api env fn cm)
      (\<lambda>d s'. config_is d s' \<and> json_live s' = json_live (init_conf cm)) (decode_config api tx)"
    using agrees_code [OF agrees_code [OF json_parse_agrees [OF init_conf_rep]], of api tx cm] assms(5)
    by (simp add: APP_CONF_parse_file_def parse_elements_def)
  with assms(6) obtain cm' where parse: "APP_CONF_parse_file api env fn cm = Inr (0, cm')"
    and cm': "config_is (m, k, ps, es, rs) cm'" by (auto simp: agrees_Some)
  have alloc: "bind_run (ALLOCATOR_create_ressources dp junk (Some cm') s) (\<lambda>(r, s). Inr (r, alloc_view s))
      = Inr (r, P, R, d)"
    using create_refines [OF cm' assms(7-9), of dp junk] assms(10) by simp
  then obtain s1 where s1: "ALLOCATOR_create_ressources dp junk (Some cm') s = Inr (r, s1)"
    "alloc_view s1 = (P, R, d)" by (auto simp: bind_run_eq_Inr)
  with assms(1,11) log parse cm' show ?thesis
    by (auto simp: app_main_def ALLOCATOR_start_ressources_def alloc_view_def)
qed

theorem app_main_runs_the_configuration_witness:
  "\<exists>cm' s'. app_main (log_dpdk 1) (\<lambda>_. None) (jval_api (\<lambda>_. Some sample_json)) sample_env (\<lambda>_. True)
      [(CHR ''f'', ''conf'')] undefined (initial_logger undefined) no_resources = Inr (Exits (-1), cm', s')
    \<and> config_is (7, 1, [], sample_ports, sample_rings) cm'
    \<and> handles (rings s') = [Some 1]"
proof -
  let ?api = "jval_api (\<lambda>_. Some sample_json)" and ?dp = "log_dpdk 1"
  let ?d = "\<lparr>calls = [EalInit [''app_manager'', ''-c'', ''0x7'', ''-n'', ''1 '', ''--proc-type=primary''],
      RingCreate ''ring_1'' 256 0 1, DevConfigure 0 1 0, Promiscuous 0 True], objects = [(''ring_1'', 1)]\<rparr>"
  have spec: "create_spec ?dp (7, 1, [], sample_ports, sample_rings) ([], [], dev no_resources)
      = Inr (-1, [], [Some 1], ?d)"
    by (simp add: create_spec_def log_dpdk_def create_ring_def new_object_def record_call_def
        sample_rings_def sample_ports_def eal_args_def hex_str_def int_str_def base_digits.simps
        digit_char_def ring_flags_def init_eth_port_def init_rx_queue_def upt_rec Let_def)
  have start: "start_eth_ports ?dp ?d = Inr (0, record_call (DevStart 0) ?d)"
    by (simp add: start_eth_ports_def log_dpdk_def start_eth_port_def upt_rec)
  have rd: "read_config sample_env ''conf'' = Inr ''{}''"
    using read_config_whole [of sample_env "''conf''" "''{}''"] by (simp add: sample_env_def c_string_def)
  have "\<exists>cm' s'. app_main ?dp (\<lambda>_. None) ?api sample_env (\<lambda>_. True)
      [(CHR ''f'', ''conf'')] undefined (initial_logger undefined) no_resources
        = Inr (if (-1::int) = 0 \<and> (0::int) = 0 then Idles else Exits (-1), cm', s')
    \<and> config_is (7, 1, [], sample_ports, sample_rings) cm'
    \<and> alloc_view s' = ([], [Some 1], if (-1::int) = 0 then record_call (DevStart 0) ?d else ?d)"
    by (rule app_main_runs_the_configuration [OF _ _ _ _ rd sample_decodes _ _ _ spec start])
      (simp_all add: initial_logger_def)
  then show ?thesis by (auto simp: alloc_view_def)
qed

end
