(* ===== verification/DispConf.thy ===== *)
theory DispConf imports ConfStore begin

text \<open>
  The configuration parser of the dispatcher, \<open>apps/dispatcher/app_conf.c\<close> and
  \<open>app_conf.h\<close>: three lists of interfaces (receive, transmit, application) that one function
  fills, each behind its header in \<open>CONF\<close>.  The conventions are those of theory
  \<open>AppConf\<close>; \<open>if_list\<close> says which header a \<open>LL_T*\<close> argument points to.
\<close>

section \<open>Data\<close>

record if_conf =
  if_name :: "string option"
  if_bypass_if_name :: "string option"
  if_used :: int
  if_is_eth :: int
  if_port_id :: int
  if_q_id :: int
  if_ring_name :: "string option"

datatype if_list = Rx | Tx | App

record disp_conf =
  d_app_name :: "string option"
  d_core_id :: u64
  d_lists :: "if_list \<Rightarrow> ll_t"

record disp_mem =
  dCONF :: disp_conf
  dlinks :: ll_mem
  dbrk :: addr
  if_at :: "addr \<Rightarrow> if_conf"
  djson_live :: nat

definition DISP_NAME :: string where
  "DISP_NAME = ''dispatcher''"

section \<open>Operations\<close>

definition disp_init_conf :: "disp_mem \<Rightarrow> disp_mem" where
  "disp_init_conf s = s\<lparr>dCONF := (dCONF s)\<lparr>d_app_name := None, d_core_id := 0,
     d_lists := (\<lambda>w. LL_Init (d_lists (dCONF s) w))\<rparr>\<rparr>"

definition disp_parse_json_app :: "'j json_api \<Rightarrow> 'j \<Rightarrow> disp_mem \<Rightarrow> (int \<times> disp_mem) run" where
  "disp_parse_json_app api jobj s = (case jget_ex api jobj ''name'' of
      None \<Rightarrow> Inr (-1, s)
    | Some jname \<Rightarrow>
        if jtype api jname \<noteq> json_type_string then Inr (-1, s)
        else bind_run (deref (jstring api jname)) (\<lambda>name.
          if strcmp name DISP_NAME \<noteq> 0 then Inr (-1, s)
          else let s = s\<lparr>dCONF := (dCONF s)\<lparr>d_app_name := Some DISP_NAME\<rparr>\<rparr> in
            case jget_ex api jobj ''core-id'' of
              None \<Rightarrow> Inr (-1, s)
            | Some jcore \<Rightarrow>
                if jtype api jcore \<noteq> json_type_int then Inr (-1, s)
                else Inr (0, s\<lparr>dCONF := (dCONF s)\<lparr>d_core_id := word_of_int (jint api jcore)\<rparr>\<rparr>)))"

definition if_items :: "string list" where
  "if_items = [''used'', ''is-eth'', ''if-name'', ''port-id'', ''queue-id'', ''ring-name'', ''bypass-if-name'']"

definition set_if_item :: "'j json_api \<Rightarrow> string \<Rightarrow> 'j \<Rightarrow> if_conf \<Rightarrow> (int \<times> if_conf) run" where
  "set_if_item api it v p =
     (if it = ''if-name'' then bind_run (jstrdup api v) (\<lambda>n. Inr (0, p\<lparr>if_name := Some n\<rparr>))
      else if it = ''is-eth'' then Inr (0, p\<lparr>if_is_eth := of_bool (jbool api v)\<rparr>)
      else if it = ''used'' then Inr (0, p\<lparr>if_used := of_bool (jbool api v)\<rparr>)
      else if it = ''port-id'' then Inr (0, p\<lparr>if_port_id := jint api v\<rparr>)
      else if it = ''queue-id'' then Inr (0, p\<lparr>if_q_id := jint api v\<rparr>)
      else if it = ''ring-name'' then bind_run (jstrdup api v) (\<lambda>n. Inr (0, p\<lparr>if_ring_name := Some n\<rparr>))
      else if it = ''bypass-if-name'' then
        bind_run (jstrdup api v) (\<lambda>n. Inr (0, p\<lparr>if_bypass_if_name := Some n\<rparr>))
      else Inr (0, p))"

definition zero_if :: if_conf where
  "zero_if = \<lparr>if_name = None, if_bypass_if_name = None, if_used = 0, if_is_eth = 0, if_port_id = 0,
     if_q_id = 0, if_ring_name = None\<rparr>"

definition disp_new_elem :: "disp_mem \<Rightarrow> addr \<times> disp_mem" where
  "disp_new_elem s = (dbrk s, s\<lparr>dbrk := Suc (dbrk s), if_at := (if_at s)(dbrk s := zero_if),
     dlinks := LL_InitElement (dbrk s) (dlinks s)\<rparr>)"

definition parse_interface :: "'j json_api \<Rightarrow> if_list \<Rightarrow> 'j \<Rightarrow> disp_mem \<Rightarrow> (int \<times> disp_mem) run" where
  "parse_interface api w j s =
     (let (e, s) = disp_new_elem s in
      bind_run (parse_optional api (set_if_item api) j if_items (if_at s e)) (\<lambda>(r, p).
        let s = s\<lparr>if_at := (if_at s)(e := p)\<rparr> in
        if r \<noteq> 0 then Inr (r, s)
        else let (l, m) = LListAdd (d_lists (dCONF s) w) e (dlinks s)
             in Inr (0, s\<lparr>dCONF := (dCONF s)\<lparr>d_lists := (d_lists (dCONF s))(w := l)\<rparr>, dlinks := m\<rparr>)))"

definition json_parse_interface :: "'j json_api \<Rightarrow> 'j \<Rightarrow> if_list \<Rightarrow> disp_mem \<Rightarrow> (int \<times> disp_mem) run" where
  "json_parse_interface api jarr w s =
     (if jtype api jarr \<noteq> json_type_array then Inr (-1, s)
      else run_each (\<lambda>i. parse_interface api w (jidx api jarr i)) [0..<jlen api jarr] s)"

definition disp_json_put :: "disp_mem \<Rightarrow> disp_mem" where
  "disp_json_put s = s\<lparr>djson_live := djson_live s - 1\<rparr>"

text \<open>One of the three "get the list, parse it" steps of \<open>_json_parse\<close>.\<close>

definition parse_if_list :: "'j json_api \<Rightarrow> 'j \<Rightarrow> string \<times> if_list \<Rightarrow> disp_mem \<Rightarrow> (int \<times> disp_mem) run" where
  "parse_if_list api jifs kw s = (case jget_ex api jifs (fst kw) of
      None \<Rightarrow> Inr (-1, s)
    | Some v \<Rightarrow> bind_run (json_parse_interface api v (snd kw) s) (\<lambda>(r, s).
        Inr (if r \<noteq> 0 then -1 else 0, s)))"

definition disp_json_parse :: "'j json_api \<Rightarrow> string \<Rightarrow> disp_mem \<Rightarrow> (int \<times> disp_mem) run" where
  "disp_json_parse api buffer s = (case jparse api buffer of
      None \<Rightarrow> Inr (-1, s)
    | Some jobj \<Rightarrow>
        let s = s\<lparr>djson_live := djson_live s + 1\<rparr> in
        case jget_ex api jobj ''app'' of
          None \<Rightarrow> Inr (-1, disp_json_put s)
        | Some japp \<Rightarrow>
            bind_run (disp_parse_json_app api japp s) (\<lambda>(r, s).
              if r \<noteq> 0 then Inr (-1, s)
              else case jget_ex api japp ''interfaces'' of
                  None \<Rightarrow> Inr (-1, disp_json_put s)
                | Some jifs \<Rightarrow>
                    bind_run (run_each (parse_if_list api jifs)
                        [(''rx-interfaces'', Rx), (''tx-interfaces'', Tx), (''app-interfaces'', App)] s)
                      (\<lambda>(r, s). Inr (if r \<noteq> 0 then -1 else 0, disp_json_put s))))"

definition disp_parse_elements ::
  "'j json_api \<Rightarrow> file_env \<Rightarrow> string \<Rightarrow> disp_mem \<Rightarrow> (int \<times> disp_mem) run" where
  "disp_parse_elements api env filename s =
     bind_run (read_config env filename) (\<lambda>buffer.
     bind_run (disp_json_parse api buffer s) (\<lambda>(r, s). Inr (if r \<noteq> 0 then -1 else 0, s)))"

definition DISP_CONF_parse_file ::
  "'j json_api \<Rightarrow> file_env \<Rightarrow> string \<Rightarrow> disp_mem \<Rightarrow> (int \<times> disp_mem) run" where
  "DISP_CONF_parse_file api env filename s =
     bind_run (disp_parse_elements api env filename (disp_init_conf s)) (\<lambda>(err, s).
       Inr (if err \<noteq> 0 then -1 else 0, s))"

section \<open>What the configuration text means\<close>

definition string_item :: "'j json_api \<Rightarrow> 'j \<Rightarrow> string option option" where
  "string_item api v = map_option Some (jstring api v)"

definition item_or :: "'a option \<Rightarrow> ('a \<Rightarrow> 'b) \<Rightarrow> 'b \<Rightarrow> 'b" where
  "item_or x f d = (case x of None \<Rightarrow> d | Some v \<Rightarrow> f v)"

definition decode_if :: "'j json_api \<Rightarrow> 'j \<Rightarrow> if_conf option" where
  "decode_if api j =
     Option.bind (dflt api j ''if-name'' None (string_item api)) (\<lambda>n.
     Option.bind (dflt api j ''ring-name'' None (string_item api)) (\<lambda>r.
     Option.bind (dflt api j ''bypass-if-name'' None (string_item api)) (\<lambda>b.
     Some \<lparr>if_name = n, if_bypass_if_name = b,
       if_used = item_or (jget_ex api j ''used'') (\<lambda>v. of_bool (jbool api v)) 0,
       if_is_eth = item_or (jget_ex api j ''is-eth'') (\<lambda>v. of_bool (jbool api v)) 0,
       if_port_id = item_or (jget_ex api j ''port-id'') (jint api) 0,
       if_q_id = item_or (jget_ex api j ''queue-id'') (jint api) 0,
       if_ring_name = r\<rparr>)))"

definition decode_ifs :: "'j json_api \<Rightarrow> 'j \<Rightarrow> string \<Rightarrow> if_conf list option" where
  "decode_ifs api j k = need api j k (\<lambda>v.
     if jtype api v \<noteq> json_type_array then None else map_opt (decode_if api) (jelems api v))"

definition decode_core :: "'j json_api \<Rightarrow> 'j \<Rightarrow> u64 option" where
  "decode_core api j =
     Option.bind (need api j ''name'' (typed_string api)) (\<lambda>n.
       if n \<noteq> ''dispatcher'' then None
       else map_option word_of_int (need api j ''core-id'' (typed_int api)))"

type_synonym disp_config = "u64 \<times> if_conf list \<times> if_conf list \<times> if_conf list"

definition decode_disp :: "'j json_api \<Rightarrow> string \<Rightarrow> disp_config option" where
  "decode_disp api tx =
     Option.bind (jparse api tx) (\<lambda>jobj.
     Option.bind (jget_ex api jobj ''app'') (\<lambda>japp.
     Option.bind (decode_core api japp) (\<lambda>core.
     Option.bind (jget_ex api japp ''interfaces'') (\<lambda>jifs.
     Option.bind (decode_ifs api jifs ''rx-interfaces'') (\<lambda>rx.
     Option.bind (decode_ifs api jifs ''tx-interfaces'') (\<lambda>tx.
     Option.bind (decode_ifs api jifs ''app-interfaces'') (\<lambda>app.
     Some (core, rx, tx, app))))))))"

definition if_rep :: "disp_mem \<Rightarrow> (if_list \<Rightarrow> if_conf list) \<Rightarrow> bool" where
  "if_rep s f \<longleftrightarrow> (\<exists>A. (\<forall>w. holds (dlinks s) (dbrk s) (d_lists (dCONF s) w) (if_at s) (A w) (f w))
     \<and> (\<forall>w w'. w \<noteq> w' \<longrightarrow> A w \<inter> A w' = {}))"

definition three :: "'a \<Rightarrow> 'a \<Rightarrow> 'a \<Rightarrow> if_list \<Rightarrow> 'a" where
  "three x y z w = (case w of Rx \<Rightarrow> x | Tx \<Rightarrow> y | App \<Rightarrow> z)"

definition disp_config_is :: "disp_config \<Rightarrow> disp_mem \<Rightarrow> bool" where
  "disp_config_is d s \<longleftrightarrow> (case d of (core, rx, tx, app) \<Rightarrow>
     d_app_name (dCONF s) = Some ''dispatcher'' \<and> d_core_id (dCONF s) = core
     \<and> if_rep s (three rx tx app))"

section \<open>Lemmas\<close>

lemma disp_init_rep: "if_rep (disp_init_conf s) (\<lambda>_. [])"
  unfolding if_rep_def by (intro exI [of _ "\<lambda>_. {}"]) (simp add: disp_init_conf_def holds_init)

lemma set_if_item_simps [simp]:
  "set_if_item api ''if-name'' v p = bind_run (jstrdup api v) (\<lambda>n. Inr (0, p\<lparr>if_name := Some n\<rparr>))"
  "set_if_item api ''is-eth'' v p = Inr (0, p\<lparr>if_is_eth := of_bool (jbool api v)\<rparr>)"
  "set_if_item api ''used'' v p = Inr (0, p\<lparr>if_used := of_bool (jbool api v)\<rparr>)"
  "set_if_item api ''port-id'' v p = Inr (0, p\<lparr>if_port_id := jint api v\<rparr>)"
  "set_if_item api ''queue-id'' v p = Inr (0, p\<lparr>if_q_id := jint api v\<rparr>)"
  "set_if_item api ''ring-name'' v p = bind_run (jstrdup api v) (\<lambda>n. Inr (0, p\<lparr>if_ring_name := Some n\<rparr>))"
  "set_if_item api ''bypass-if-name'' v p
     = bind_run (jstrdup api v) (\<lambda>n. Inr (0, p\<lparr>if_bypass_if_name := Some n\<rparr>))"
  by (simp_all add: set_if_item_def)

text \<open>Items that cannot fail are just stored.\<close>

lemma parse_optional_pure:
  assumes "\<And>v c. setit it v c = Inr (0, g v c)"
  shows "parse_optional api setit j (it # its) c
    = parse_optional api setit j its (case jget_ex api j it of None \<Rightarrow> c | Some v \<Rightarrow> g v c)"
  by (simp add: parse_optional_Cons assms split: option.split)

lemma parse_optional_string:
  assumes "\<And>v c. setit it v c = bind_run (jstrdup api v) (\<lambda>n. Inr (0, g n c))"
  shows "parse_optional api setit j (it # its) c = (case dflt api j it None (string_item api) of
      None \<Rightarrow> Inl NullDeref
    | Some None \<Rightarrow> parse_optional api setit j its c
    | Some (Some n) \<Rightarrow> parse_optional api setit j its (g n c))"
  by (cases "jget_ex api j it"; cases "jstring api (the (jget_ex api j it))")
    (simp_all add: parse_optional_Cons assms jstrdup_def dflt_def string_item_def)

lemma if_field_cases:
  "(case x of None \<Rightarrow> c | Some v \<Rightarrow> c\<lparr>if_used := f v\<rparr>)
     = c\<lparr>if_used := item_or x f (if_used c)\<rparr>"
  "(case x of None \<Rightarrow> c | Some v \<Rightarrow> c\<lparr>if_is_eth := f v\<rparr>)
     = c\<lparr>if_is_eth := item_or x f (if_is_eth c)\<rparr>"
  "(case x of None \<Rightarrow> c | Some v \<Rightarrow> c\<lparr>if_port_id := g v\<rparr>)
     = c\<lparr>if_port_id := item_or x g (if_port_id c)\<rparr>"
  "(case x of None \<Rightarrow> c | Some v \<Rightarrow> c\<lparr>if_q_id := g v\<rparr>)
     = c\<lparr>if_q_id := item_or x g (if_q_id c)\<rparr>"
  by (cases x; simp add: item_or_def)+

lemma if_items_agree:
  "agrees (parse_optional api (set_if_item api) j if_items zero_if) (\<lambda>p c. c = p) (decode_if api j)"
proof -
  note steps = parse_optional_pure [where it = "''used''" and setit = "set_if_item api", OF set_if_item_simps(3)]
    parse_optional_pure [where it = "''is-eth''" and setit = "set_if_item api", OF set_if_item_simps(2)]
    parse_optional_pure [where it = "''port-id''" and setit = "set_if_item api", OF set_if_item_simps(4)]
    parse_optional_pure [where it = "''queue-id''" and setit = "set_if_item api", OF set_if_item_simps(5)]
    parse_optional_string [where it = "''if-name''" and setit = "set_if_item api", OF set_if_item_simps(1)]
    parse_optional_string [where it = "''ring-name''" and setit = "set_if_item api", OF set_if_item_simps(6)]
    parse_optional_string [where it = "''bypass-if-name''" and setit = "set_if_item api", OF set_if_item_simps(7)]
  show ?thesis unfolding if_items_def steps if_field_cases decode_if_def
    by (cases "dflt api j ''if-name'' None (string_item api)";
        cases "dflt api j ''ring-name'' None (string_item api)";
        cases "dflt api j ''bypass-if-name'' None (string_item api)";
        cases "the (dflt api j ''if-name'' None (string_item api))";
        cases "the (dflt api j ''ring-name'' None (string_item api))";
        cases "the (dflt api j ''bypass-if-name'' None (string_item api))")
      (simp_all add: agrees_def zero_if_def)
qed

section \<open>Building the lists\<close>

definition same_disp :: "disp_mem \<Rightarrow> disp_mem \<Rightarrow> bool" where
  "same_disp s s' \<longleftrightarrow> d_app_name (dCONF s') = d_app_name (dCONF s)
     \<and> d_core_id (dCONF s') = d_core_id (dCONF s) \<and> djson_live s' = djson_live s"

lemma same_disp_refl [simp]: "same_disp s s"
  by (simp add: same_disp_def)

lemma same_disp_trans: "same_disp s t \<Longrightarrow> same_disp t u \<Longrightarrow> same_disp s u"
  by (simp add: same_disp_def)

lemma if_rep_push:
  assumes "if_rep s f" and "LListAdd (d_lists (dCONF s) w) (dbrk s)
      (LL_InitElement (dbrk s) (dlinks s)) = (l, m)"
  shows "if_rep (s\<lparr>dbrk := Suc (dbrk s), if_at := (if_at s)(dbrk s := p),
      dCONF := (dCONF s)\<lparr>d_lists := (d_lists (dCONF s))(w := l)\<rparr>, dlinks := m\<rparr>) (f(w := f w @ [p]))"
proof -
  from assms(1) obtain A where
    h: "\<And>w. holds (dlinks s) (dbrk s) (d_lists (dCONF s) w) (if_at s) (A w) (f w)"
    and dis: "\<And>w w'. w \<noteq> w' \<Longrightarrow> A w \<inter> A w' = {}" by (auto simp: if_rep_def)
  let ?A = "A(w := insert (dbrk s) (A w))" and ?obj = "(if_at s)(dbrk s := p)"
  have "holds m (Suc (dbrk s)) (((d_lists (dCONF s))(w := l)) v) ?obj (?A v) ((f(w := f w @ [p])) v)" for v
  proof (cases "v = w")
    case True
    with holds_push [OF h assms(2), of p] show ?thesis by simp
  next
    case False
    have "holds (dlinks s) (dbrk s) (d_lists (dCONF s) v) ?obj (A v) (f v)" using h by simp
    from holds_keep [OF h [of w] assms(2) this] False dis show ?thesis by simp
  qed
  moreover have "?A u \<inter> ?A v = {}" if "u \<noteq> v" for u v
    using dis [OF that] holds_brk [OF h [of u]] holds_brk [OF h [of v]] that by auto
  ultimately show ?thesis unfolding if_rep_def by (intro exI [of _ ?A]) simp
qed

lemma parse_interface_agrees:
  assumes "if_rep s f"
  shows "agrees (parse_interface api w j s)
    (\<lambda>p s'. if_rep s' (f(w := f w @ [p])) \<and> same_disp s s') (decode_if api j)"
proof -
  obtain l m where add: "LListAdd (d_lists (dCONF s) w) (dbrk s)
      (LL_InitElement (dbrk s) (dlinks s)) = (l, m)"
    by (cases "LListAdd (d_lists (dCONF s) w) (dbrk s) (LL_InitElement (dbrk s) (dlinks s))")
  from if_items_agree [of api j] if_rep_push [OF assms add] show ?thesis
    by (cases "decode_if api j")
      (auto simp: parse_interface_def disp_new_elem_def Let_def agrees_def add same_disp_def)
qed

lemma json_parse_interface_agrees:
  assumes "if_rep s f" and "f w = []"
  shows "agrees (parse_if_list api jifs (k, w) s)
    (\<lambda>vs s'. if_rep s' (f(w := vs)) \<and> same_disp s s') (decode_ifs api jifs k)"
proof (cases "jget_ex api jifs k")
  case None
  then show ?thesis by (simp add: parse_if_list_def decode_ifs_def need_def agrees_def)
next
  case (Some v)
  have "agrees (run_each (\<lambda>i. parse_interface api w (jidx api v i)) [0..<jlen api v] s)
      (\<lambda>ws s'. if_rep s' (f(w := [] @ ws)) \<and> same_disp s s')
      (map_opt (\<lambda>i. decode_if api (jidx api v i)) [0..<jlen api v])"
  proof (rule run_each_agrees [where P = "\<lambda>vs t. if_rep t (f(w := vs)) \<and> same_disp s t"])
    fix i vs t
    assume a: "if_rep t (f(w := vs)) \<and> same_disp s t"
    then have "if_rep t (f(w := vs))" by simp
    from parse_interface_agrees [OF this, of api w "jidx api v i"]
    show "agrees (parse_interface api w (jidx api v i) t)
        (\<lambda>x t'. if_rep t' (f(w := vs @ [x])) \<and> same_disp s t') (decode_if api (jidx api v i))"
      by (rule agrees_mono) (use a same_disp_trans [of s t] in auto)
  next
    show "if_rep s (f(w := [])) \<and> same_disp s s" using assms by (simp add: fun_upd_idem)
  qed
  then have "agrees (json_parse_interface api v w s)
      (\<lambda>ws s'. if_rep s' (f(w := ws)) \<and> same_disp s s')
      (if jtype api v \<noteq> json_type_array then None else map_opt (decode_if api) (jelems api v))"
    by (auto simp: json_parse_interface_def jelems_def map_opt_map agrees_None)
  with Some show ?thesis
    by (auto simp: parse_if_list_def decode_ifs_def need_def agrees_def split: option.splits)
qed

lemma disp_parse_json_app_agrees:
  "agrees (disp_parse_json_app api j s)
    (\<lambda>c s'. s' = s\<lparr>dCONF := (dCONF s)\<lparr>d_app_name := Some DISP_NAME, d_core_id := c\<rparr>\<rparr>)
    (decode_core api j)"
  by (cases "jget_ex api j ''name''"; cases "jstring api (the (jget_ex api j ''name''))";
      cases "jget_ex api j ''core-id''")
    (simp_all add: disp_parse_json_app_def decode_core_def decode_simps agrees_def DISP_NAME_def Let_def)

definition decode_three ::
  "'j json_api \<Rightarrow> 'j \<Rightarrow> (if_conf list \<times> if_conf list \<times> if_conf list) option" where
  "decode_three api jifs =
     Option.bind (decode_ifs api jifs ''rx-interfaces'') (\<lambda>rx.
     Option.bind (decode_ifs api jifs ''tx-interfaces'') (\<lambda>tx.
     Option.bind (decode_ifs api jifs ''app-interfaces'') (\<lambda>app. Some (rx, tx, app))))"

lemma decode_disp_alt:
  "decode_disp api tx =
     Option.bind (jparse api tx) (\<lambda>jobj.
     Option.bind (jget_ex api jobj ''app'') (\<lambda>japp.
     Option.bind (decode_core api japp) (\<lambda>core.
     Option.bind (jget_ex api japp ''interfaces'') (\<lambda>jifs.
     map_option (Pair core) (decode_three api jifs)))))"
  unfolding decode_disp_def decode_three_def
  by (intro Option.bind_cong refl) (auto split: Option.bind_splits)

lemma three_agrees:
  assumes "if_rep s (\<lambda>_. [])"
  shows "agrees (run_each (parse_if_list api jifs)
      [(''rx-interfaces'', Rx), (''tx-interfaces'', Tx), (''app-interfaces'', App)] s)
    (\<lambda>(rx, tx, app) s'. if_rep s' (three rx tx app) \<and> same_disp s s') (decode_three api jifs)"
  unfolding decode_three_def run_each.simps
proof (rule agrees_bind [OF json_parse_interface_agrees [OF assms]], simp)
  fix rx s1
  assume 1: "if_rep s1 ((\<lambda>_. [])(Rx := rx)) \<and> same_disp s s1"
  show "agrees (bind_run (parse_if_list api jifs (''tx-interfaces'', Tx) s1) (\<lambda>(r, s'). if r \<noteq> 0 then Inr (r, s')
      else bind_run (parse_if_list api jifs (''app-interfaces'', App) s') (\<lambda>(r, s'). if r \<noteq> 0 then Inr (r, s')
      else Inr (0, s'))))
    (\<lambda>(rx, tx, app) s'. if_rep s' (three rx tx app) \<and> same_disp s s')
    (Option.bind (decode_ifs api jifs ''tx-interfaces'') (\<lambda>tx.
     Option.bind (decode_ifs api jifs ''app-interfaces'') (\<lambda>app. Some (rx, tx, app))))"
  proof (rule agrees_bind [OF json_parse_interface_agrees [OF conjunct1 [OF 1]]], simp)
    fix tx s2
    assume 2: "if_rep s2 ((\<lambda>_. [])(Rx := rx, Tx := tx)) \<and> same_disp s1 s2"
    then have eq: "same_disp s s2" using 1 same_disp_trans [of s s1 s2] by simp
    have th: "(\<lambda>_. [])(Rx := rx, Tx := tx, App := app) = three rx tx app" for app
      by (rule ext) (auto simp: three_def split: if_list.splits)
    show "agrees (bind_run (parse_if_list api jifs (''app-interfaces'', App) s2)
        (\<lambda>(r, s'). if r \<noteq> 0 then Inr (r, s') else Inr (0, s')))
      (\<lambda>(rx, tx, app) s'. if_rep s' (three rx tx app) \<and> same_disp s s')
      (Option.bind (decode_ifs api jifs ''app-interfaces'') (\<lambda>app. Some (rx, tx, app)))"
      by (rule agrees_bind [OF json_parse_interface_agrees [OF conjunct1 [OF 2]]])
        (use same_disp_trans [OF eq] th in \<open>auto simp: agrees_Some\<close>)
  qed
qed

lemma if_rep_live [simp]: "if_rep (s\<lparr>djson_live := n\<rparr>) f = if_rep s f"
  by (simp add: if_rep_def)

lemma disp_json_parse_agrees:
  assumes "if_rep s (\<lambda>_. [])"
  shows "agrees (disp_json_parse api tx s) (\<lambda>d s'. disp_config_is d s' \<and> djson_live s' = djson_live s)
    (decode_disp api tx)"
proof (cases "Option.bind (jparse api tx) (\<lambda>jobj. jget_ex api jobj ''app'')")
  case None
  then show ?thesis
    by (cases "jparse api tx") (simp_all add: disp_json_parse_def decode_disp_def agrees_None)
next
  case (Some japp)
  then obtain jobj where tree: "jparse api tx = Some jobj" "jget_ex api jobj ''app'' = Some japp"
    by (auto simp: bind_eq_Some_conv)
  let ?s = "s\<lparr>djson_live := djson_live s + 1\<rparr>"
  note app = disp_parse_json_app_agrees [of api japp ?s]
  show ?thesis
  proof (cases "decode_core api japp")
    case None
    with app tree show ?thesis by (auto simp: disp_json_parse_def decode_disp_def agrees_None)
  next
    case (Some c)
    let ?t = "?s\<lparr>dCONF := (dCONF ?s)\<lparr>d_app_name := Some DISP_NAME, d_core_id := c\<rparr>\<rparr>"
    from app Some have run: "disp_parse_json_app api japp ?s = Inr (0, ?t)" by (simp add: agrees_Some)
    have rep: "if_rep ?t (\<lambda>_. [])" using assms by (simp add: if_rep_def)
    show ?thesis
    proof (cases "jget_ex api japp ''interfaces''")
      case None
      with run Some tree show ?thesis by (simp add: disp_json_parse_def decode_disp_def agrees_None)
    next
      case (Some jifs)
      with three_agrees [OF rep, of api jifs] run tree \<open>decode_core api japp = Some c\<close>
      show ?thesis
        by (cases "decode_three api jifs")
          (auto simp: disp_json_parse_def decode_disp_alt agrees_None agrees_Some disp_json_put_def
            disp_config_is_def same_disp_def DISP_NAME_def if_rep_live simp del: run_each.simps)
    qed
  qed
qed

lemma disp_parse_file_agrees:
  assumes "read_config env fn = Inr tx"
  shows "agrees (DISP_CONF_parse_file api env fn s)
    (\<lambda>d s'. disp_config_is d s' \<and> djson_live s' = djson_live s) (decode_disp api tx)"
proof -
  have "djson_live (disp_init_conf s) = djson_live s" by (simp add: disp_init_conf_def)
  with agrees_code [OF agrees_code [OF disp_json_parse_agrees [OF disp_init_rep]], of api tx s] assms show ?thesis
    by (simp add: DISP_CONF_parse_file_def disp_parse_elements_def)
qed

section \<open>Properties\<close>

text \<open>
  C23: When its configuration file is read whole, the dispatcher's \<open>APP_CONF_parse_file\<close>
  returns 0 exactly when the text decodes; then its three lists represent the decoded receive,
  transmit and application interfaces in order and no JSON tree is left allocated; otherwise it
  returns -1 or stops at a name that is JSON null.
\<close>

theorem DISP_CONF_parse_file_refines_decode:
  assumes "file_at env fn = Some content" and "length content \<le> chunks env 0"
    and "length (fresh_bytes env (length content)) = length content"
    and "bytes_behind env = CHR 0x00 # rest" and "CHR 0x00 \<notin> set content"
  shows "agrees (DISP_CONF_parse_file api env fn s)
    (\<lambda>d s'. disp_config_is d s' \<and> djson_live s' = djson_live s) (decode_disp api content)"
proof -
  have "read_config env fn = Inr content"
    using read_config_whole [OF assms(1-3)] c_string_id [OF assms(5)] assms(4) by simp
  then show ?thesis by (rule disp_parse_file_agrees)
qed

text \<open>
  The witness has the shape of the shipped \<open>config/dispatcher_1.json\<close>: the second receive
  interface names its bypass \<open>bypass-if\<close>, which the parser does not know, so it has none.
\<close>

definition disp_sample_json :: jval where
  "disp_sample_json = JObj [(''app'', JObj [(''name'', JStr ''dispatcher''), (''core-id'', JInt 1),
     (''interfaces'', JObj
       [(''rx-interfaces'', JArr
          [JObj [(''if-name'', JStr ''if1-rx''), (''used'', JBool True), (''is-eth'', JBool True),
             (''port-id'', JInt 0), (''queue-id'', JInt 0), (''ring-name'', JStr []),
             (''bypass-if-name'', JStr ''if1-tx'')],
           JObj [(''if-name'', JStr ''if2-rx''), (''used'', JBool True), (''is-eth'', JBool True),
             (''port-id'', JInt 1), (''queue-id'', JInt 1), (''ring-name'', JStr []),
             (''bypass-if'', JStr ''if1-tx'')]]),
        (''tx-interfaces'', JArr
          [JObj [(''if-name'', JStr ''if1-tx''), (''used'', JBool True), (''is-eth'', JBool True)]]),
        (''app-interfaces'', JArr [])])])]"

definition disp_sample_env :: file_env where
  "disp_sample_env = \<lparr>file_at = [''d'' \<mapsto> ''{}''], chunks = (\<lambda>_. 4096),
     fresh_bytes = (\<lambda>n. replicate n (CHR ''x'')), bytes_behind = [CHR 0x00]\<rparr>"

definition sample_rx :: "if_conf list" where
  "sample_rx = [\<lparr>if_name = Some ''if1-rx'', if_bypass_if_name = Some ''if1-tx'', if_used = 1, if_is_eth = 1,
      if_port_id = 0, if_q_id = 0, if_ring_name = Some []\<rparr>,
     \<lparr>if_name = Some ''if2-rx'', if_bypass_if_name = None, if_used = 1, if_is_eth = 1,
      if_port_id = 1, if_q_id = 1, if_ring_name = Some []\<rparr>]"

definition sample_tx :: "if_conf list" where
  "sample_tx = [\<lparr>if_name = Some ''if1-tx'', if_bypass_if_name = None, if_used = 1, if_is_eth = 1,
      if_port_id = 0, if_q_id = 0, if_ring_name = None\<rparr>]"

lemma disp_sample_decodes:
  "decode_disp (jval_api (\<lambda>_. Some disp_sample_json)) t = Some (1, sample_rx, sample_tx, [])"
  by (simp add: decode_disp_def jval_api_def disp_sample_json_def decode_core_def decode_simps
      decode_ifs_def jelems_def decode_if_def clamp32_def string_item_def item_or_def
      sample_rx_def sample_tx_def)

theorem DISP_CONF_parse_file_refines_decode_witness:
  "\<exists>s'. DISP_CONF_parse_file (jval_api (\<lambda>_. Some disp_sample_json)) disp_sample_env ''d'' undefined
      = Inr (0, s')
    \<and> disp_config_is (1, sample_rx, sample_tx, []) s'"
proof -
  have "agrees (DISP_CONF_parse_file (jval_api (\<lambda>_. Some disp_sample_json)) disp_sample_env ''d'' undefined)
      (\<lambda>d s'. disp_config_is d s' \<and> djson_live s' = djson_live (undefined :: disp_mem))
      (decode_disp (jval_api (\<lambda>_. Some disp_sample_json)) ''{}'')"
    using DISP_CONF_parse_file_refines_decode [of disp_sample_env "''d''" "''{}''" "[]"
        "jval_api (\<lambda>_. Some disp_sample_json)" undefined]
    by (simp add: disp_sample_env_def)
  then show ?thesis unfolding disp_sample_decodes agrees_Some by blast
qed

end
