(* ===== verification/DispAlloc.thy ===== *)
theory DispAlloc imports DispConf Dpdk begin

text \<open>
  The allocator of the dispatcher, \<open>apps/dispatcher/allocator.c\<close>: DPDK is started as a secondary
  process on one core, the used interfaces of the configuration are copied into the fixed arrays
  of \<open>dispatcher_ctx\<close> (\<open>main.h\<close>), and the receive interfaces are linked to their bypass
  interface by name.  A pointer to a transmit interface is its index in the array.
\<close>

section \<open>The dispatcher context\<close>

record if_t =
  ift_name :: "string option"
  ift_bypass_name :: "string option"
  ift_bypass_if :: "nat option"
  ift_is_eth :: int
  ift_ring :: "addr option"
  ift_port_id :: int
  ift_q_id :: int

record interface_t =
  ifs :: "if_t list"
  if_count :: nat

record dispatcher_ctx =
  ctx_app_name :: "string option"
  ctx_core_id :: u64
  rx_interfaces :: interface_t
  tx_interfaces :: interface_t
  app_interfaces :: interface_t

definition MAX_INTERFACES :: nat where
  "MAX_INTERFACES = 8"

text \<open>\<open>memset\<close> of the whole context.\<close>

definition zero_ift :: if_t where
  "zero_ift = \<lparr>ift_name = None, ift_bypass_name = None, ift_bypass_if = None, ift_is_eth = 0,
     ift_ring = None, ift_port_id = 0, ift_q_id = 0\<rparr>"

definition zero_interface :: interface_t where
  "zero_interface = \<lparr>ifs = replicate MAX_INTERFACES zero_ift, if_count = 0\<rparr>"

definition zero_ctx :: dispatcher_ctx where
  "zero_ctx = \<lparr>ctx_app_name = None, ctx_core_id = 0, rx_interfaces = zero_interface,
     tx_interfaces = zero_interface, app_interfaces = zero_interface\<rparr>"

section \<open>Operations\<close>

text \<open>\<open>edit_if i f it\<close> writes fields of \<open>ifs[i]\<close>.\<close>

definition edit_if :: "nat \<Rightarrow> (if_t \<Rightarrow> if_t) \<Rightarrow> interface_t \<Rightarrow> interface_t run" where
  "edit_if i f it = bind_run (read_at (ifs it) i) (\<lambda>x.
     bind_run (write_at (ifs it) i (f x)) (\<lambda>xs. Inr (it\<lparr>ifs := xs\<rparr>)))"

definition store_if_in_ctx ::
  "(string option \<Rightarrow> addr option run) \<Rightarrow> if_conf \<Rightarrow> interface_t \<Rightarrow> (int \<times> interface_t) run" where
  "store_if_in_ctx look p it =
     (if if_used p = 0 then Inr (0, it)
      else let i = if_count it in
        bind_run (edit_if i (\<lambda>x. x\<lparr>ift_name := if_name p, ift_is_eth := if_is_eth p\<rparr>) it) (\<lambda>it.
        bind_run
          (if if_is_eth p \<noteq> 0 then
             bind_run (edit_if i (\<lambda>x. x\<lparr>ift_port_id := if_port_id p, ift_q_id := if_q_id p\<rparr>) it)
               (\<lambda>it. Inr (True, it))
           else bind_run (look (if_ring_name p)) (\<lambda>ring.
             bind_run (edit_if i (\<lambda>x. x\<lparr>ift_ring := ring\<rparr>) it) (\<lambda>it. Inr (ring \<noteq> None, it))))
          (\<lambda>(ok, it).
            if \<not> ok then Inr (-1, it)
            else bind_run
              (case if_bypass_if_name p of
                 None \<Rightarrow> Inr it
               | Some n \<Rightarrow> edit_if i (\<lambda>x. x\<lparr>ift_bypass_name := Some n\<rparr>) it)
              (\<lambda>it. Inr (0, it\<lparr>if_count := if_count it + 1\<rparr>)))))"

definition store_list ::
  "(string option \<Rightarrow> addr option run) \<Rightarrow> disp_mem \<Rightarrow> if_list \<Rightarrow> interface_t
     \<Rightarrow> (addr option \<times> interface_t) run" where
  "store_list look cm w it = LL_ForEach (\<lambda>_. dlinks cm) (d_lists (dCONF cm) w)
     (\<lambda>e. store_if_in_ctx look (if_at cm e)) it"

definition init_app_ctx ::
  "(string option \<Rightarrow> addr option run) \<Rightarrow> disp_mem \<Rightarrow> (int \<times> dispatcher_ctx) run" where
  "init_app_ctx look cm =
     (let c = zero_ctx\<lparr>ctx_app_name := d_app_name (dCONF cm), ctx_core_id := d_core_id (dCONF cm)\<rparr> in
      bind_run (store_list look cm Rx (rx_interfaces c)) (\<lambda>(e, it).
      let c = c\<lparr>rx_interfaces := it\<rparr> in
      if e \<noteq> None then Inr (-1, c)
      else bind_run (store_list look cm Tx (tx_interfaces c)) (\<lambda>(e, it).
      let c = c\<lparr>tx_interfaces := it\<rparr> in
      if e \<noteq> None then Inr (-1, c)
      else bind_run (store_list look cm App (app_interfaces c)) (\<lambda>(e, it).
      let c = c\<lparr>app_interfaces := it\<rparr> in
      if e \<noteq> None then Inr (-1, c) else Inr (0, c)))))"

fun search_name :: "interface_t \<Rightarrow> string \<Rightarrow> nat list \<Rightarrow> nat option run" where
  "search_name it name [] = Inr None"
| "search_name it name (i # is) = bind_run (read_at (ifs it) i) (\<lambda>x.
     bind_run (deref (ift_name x)) (\<lambda>n.
     if strcmp n name = 0 then Inr (Some i) else search_name it name is))"

definition get_interface_by_name :: "interface_t \<Rightarrow> string \<Rightarrow> nat option run" where
  "get_interface_by_name it name = search_name it name [0..<if_count it]"

definition assign_bypass :: "interface_t \<Rightarrow> nat \<Rightarrow> interface_t \<Rightarrow> (int \<times> interface_t) run" where
  "assign_bypass tx i rx =
     bind_run (read_at (ifs rx) i) (\<lambda>x. case ift_bypass_name x of
       None \<Rightarrow> Inr (0, rx)
     | Some name \<Rightarrow>
         bind_run (get_interface_by_name tx name) (\<lambda>p.
         bind_run (edit_if i (\<lambda>x. x\<lparr>ift_bypass_if := p\<rparr>) rx) (\<lambda>rx.
           Inr (if p = None then -1 else 0, rx))))"

definition assign_bypass_interfaces :: "dispatcher_ctx \<Rightarrow> (int \<times> dispatcher_ctx) run" where
  "assign_bypass_interfaces c =
     bind_run (run_each (assign_bypass (tx_interfaces c)) [0..<if_count (rx_interfaces c)] (rx_interfaces c))
       (\<lambda>(r, rx). Inr (r, c\<lparr>rx_interfaces := rx\<rparr>))"

text \<open>A shift by the width or more is undefined.\<close>

definition core_bit :: "u64 \<Rightarrow> u64 run" where
  "core_bit core_id = (if core_id < 64 then Inr (push_bit (unat core_id) 1) else Inl BadShift)"

definition disp_dpdk_arg :: "disp_conf \<Rightarrow> u64 \<Rightarrow> nat \<Rightarrow> string run" where
  "disp_dpdk_arg c core_mask i =
     (if i = 0 then deref (d_app_name c)
      else if i = 1 then Inr ''-c''
      else if i = 2 then sprintf_cap 256 (''0x'' @ hex_str (unat core_mask))
      else if i = 3 then Inr ''-n''
      else if i = 4 then sprintf_cap 256 ''1''
      else if i = 5 then Inr ''--proc-type=secondary''
      else Inl Uninitialised)"

fun disp_build_args :: "(nat \<Rightarrow> string run) \<Rightarrow> nat list \<Rightarrow> string list run" where
  "disp_build_args f [] = Inr []"
| "disp_build_args f (i # is) =
     bind_run (f i) (\<lambda>a. bind_run (disp_build_args f is) (\<lambda>as. Inr (a # as)))"

definition disp_init_dpdk :: "'d dpdk \<Rightarrow> disp_conf \<Rightarrow> 'd \<Rightarrow> (int \<times> 'd) run" where
  "disp_init_dpdk dp c d =
     bind_run (core_bit (d_core_id c)) (\<lambda>cm.
     bind_run (disp_build_args (disp_dpdk_arg c cm) [0..<6]) (\<lambda>argv.
       let (ret, d) = eal_init dp argv d in Inr (if ret < 0 then -1 else 0, d)))"

definition DISP_create_ressources ::
  "'d dpdk \<Rightarrow> disp_mem option \<Rightarrow> dispatcher_ctx \<Rightarrow> 'd \<Rightarrow> (int \<times> dispatcher_ctx \<times> 'd) run" where
  "DISP_create_ressources dp conf ctx d = (case conf of
      None \<Rightarrow> Inr (-1, ctx, d)
    | Some cm \<Rightarrow>
        bind_run (disp_init_dpdk dp (dCONF cm) d) (\<lambda>(err, d).
        if err \<noteq> 0 then Inr (-1, ctx, d)
        else bind_run (init_app_ctx (\<lambda>n. ring_lookup dp n d) cm) (\<lambda>(err, ctx).
        if err \<noteq> 0 then Inr (-1, ctx, d)
        else bind_run (assign_bypass_interfaces ctx) (\<lambda>(err, ctx).
        if err \<noteq> 0 then Inr (-1, ctx, d) else Inr (0, ctx, d)))))"

section \<open>What the context should hold\<close>

definition used_ifs :: "if_conf list \<Rightarrow> if_conf list" where
  "used_ifs ps = filter (\<lambda>p. if_used p \<noteq> 0) ps"

text \<open>An interface can be stored when it is a port or its ring is found.\<close>

definition usable :: "(string option \<Rightarrow> addr option run) \<Rightarrow> if_conf \<Rightarrow> bool" where
  "usable look p \<longleftrightarrow> if_is_eth p \<noteq> 0 \<or> (\<exists>a. look (if_ring_name p) = Inr (Some a))"

definition ift_of :: "(string option \<Rightarrow> addr option run) \<Rightarrow> if_conf \<Rightarrow> if_t" where
  "ift_of look p = \<lparr>ift_name = if_name p, ift_bypass_name = if_bypass_if_name p, ift_bypass_if = None,
     ift_is_eth = if_is_eth p,
     ift_ring = (if if_is_eth p \<noteq> 0 then None
                 else case look (if_ring_name p) of Inr a \<Rightarrow> a | Inl h \<Rightarrow> None),
     ift_port_id = (if if_is_eth p \<noteq> 0 then if_port_id p else 0),
     ift_q_id = (if if_is_eth p \<noteq> 0 then if_q_id p else 0)\<rparr>"

definition actives :: "interface_t \<Rightarrow> if_t list" where
  "actives it = take (if_count it) (ifs it)"

text \<open>The array has its eight slots and those not in use are zero.\<close>

definition if_array :: "interface_t \<Rightarrow> bool" where
  "if_array it \<longleftrightarrow> length (ifs it) = 8 \<and> if_count it \<le> 8
     \<and> (\<forall>i. if_count it \<le> i \<and> i < 8 \<longrightarrow> ifs it ! i = zero_ift)"

fun first_named :: "if_t list \<Rightarrow> string \<Rightarrow> nat" where
  "first_named [] n = 0"
| "first_named (x # xs) n = (if ift_name x = Some n then 0 else Suc (first_named xs n))"

definition link_bypass :: "if_t list \<Rightarrow> if_t \<Rightarrow> if_t" where
  "link_bypass tx x = (case ift_bypass_name x of
      None \<Rightarrow> x
    | Some n \<Rightarrow> x\<lparr>ift_bypass_if := Some (first_named tx n)\<rparr>)"

section \<open>Lemmas\<close>

lemma zero_interface_array: "if_array zero_interface" "actives zero_interface = []"
  "if_count zero_interface = 0"
  by (simp_all add: if_array_def zero_interface_def actives_def MAX_INTERFACES_def)

lemma edit_if_in: "i < length (ifs it) \<Longrightarrow> edit_if i f it = Inr (it\<lparr>ifs := (ifs it)[i := f (ifs it ! i)]\<rparr>)"
  by (simp add: edit_if_def)

lemma edit_if_out: "length (ifs it) \<le> i \<Longrightarrow> edit_if i f it = Inl OutOfBounds"
  by (simp add: edit_if_def)

lemma actives_push:
  assumes "if_array it" and "if_count it < 8"
  shows "if_array (it\<lparr>ifs := (ifs it)[if_count it := x], if_count := if_count it + 1\<rparr>)"
    "actives (it\<lparr>ifs := (ifs it)[if_count it := x], if_count := if_count it + 1\<rparr>) = actives it @ [x]"
  using assms by (auto simp: if_array_def actives_def take_Suc_conv_app_nth nth_list_update)

lemma store_if_ok:
  assumes "if_array it" and "if_count it < 8" and "if_used p \<noteq> 0" and "usable look p"
  shows "store_if_in_ctx look p it
    = Inr (0, it\<lparr>ifs := (ifs it)[if_count it := ift_of look p], if_count := if_count it + 1\<rparr>)"
proof -
  have len: "length (ifs it) = 8" and z: "ifs it ! if_count it = zero_ift"
    using assms(1,2) by (simp_all add: if_array_def)
  show ?thesis
  proof (cases "if_is_eth p = 0")
    case True
    with assms(4) obtain a where "look (if_ring_name p) = Inr (Some a)" by (auto simp: usable_def)
    with True assms(2,3) len z show ?thesis
      by (cases "if_bypass_if_name p")
        (simp_all add: store_if_in_ctx_def edit_if_in ift_of_def zero_ift_def Let_def)
  next
    case False
    with assms(2,3) len z show ?thesis
      by (cases "if_bypass_if_name p")
        (simp_all add: store_if_in_ctx_def edit_if_in ift_of_def zero_ift_def Let_def)
  qed
qed

lemma store_if_overflow:
  assumes "if_array it" and "if_count it = 8" and "if_used p \<noteq> 0"
  shows "store_if_in_ctx look p it = Inl OutOfBounds"
  using assms by (simp add: store_if_in_ctx_def if_array_def edit_if_out Let_def)

lemma store_all:
  assumes "if_array it" and "\<forall>p \<in> set (used_ifs ps). usable look p"
  shows "(if_count it + length (used_ifs ps) \<le> 8 \<longrightarrow> (\<exists>it'. visit_objs (store_if_in_ctx look) ps it = Inr (False, it') \<and> if_array it'
      \<and> actives it' = actives it @ map (ift_of look) (used_ifs ps)
      \<and> if_count it' = if_count it + length (used_ifs ps)))
    \<and> (8 < if_count it + length (used_ifs ps) \<longrightarrow>
      visit_objs (store_if_in_ctx look) ps it = Inl OutOfBounds)"
  using assms
proof (induction ps arbitrary: it)
  case Nil
  then show ?case by (simp add: used_ifs_def if_array_def)
next
  case (Cons p ps)
  show ?case
  proof (cases "if_used p = 0")
    case True
    then have "store_if_in_ctx look p it = Inr (0, it)" by (simp add: store_if_in_ctx_def)
    moreover have "used_ifs (p # ps) = used_ifs ps" using True by (simp add: used_ifs_def)
    ultimately show ?thesis using Cons.IH [OF Cons.prems(1)] Cons.prems(2) by simp
  next
    case False
    then have us: "used_ifs (p # ps) = p # used_ifs ps" by (simp add: used_ifs_def)
    show ?thesis
    proof (cases "if_count it < 8")
      case True
      let ?it = "it\<lparr>ifs := (ifs it)[if_count it := ift_of look p], if_count := if_count it + 1\<rparr>"
      note push = actives_push [OF Cons.prems(1) True, of "ift_of look p"]
      have "store_if_in_ctx look p it = Inr (0, ?it)"
        using store_if_ok [OF Cons.prems(1) True False] Cons.prems(2) us by simp
      then have st: "visit_objs (store_if_in_ctx look) (p # ps) it = visit_objs (store_if_in_ctx look) ps ?it"
        by simp
      have "\<forall>p \<in> set (used_ifs ps). usable look p" using Cons.prems(2) us by simp
      from Cons.IH [OF push(1) this] show ?thesis unfolding st push(2) us by simp
    next
      case full: False
      then have "if_count it = 8" using Cons.prems(1) by (simp add: if_array_def)
      with store_if_overflow [OF Cons.prems(1) _ False] us show ?thesis by simp
    qed
  qed
qed

lemma store_list_visit:
  assumes "holds (dlinks cm) b (d_lists (dCONF cm) w) (if_at cm) A ps"
  shows "bind_run (store_list look cm w it) (\<lambda>(e, it). Inr (e \<noteq> None, it))
    = visit_objs (store_if_in_ctx look) ps it"
  using holds_foreach [OF assms, of "store_if_in_ctx look" it] by (simp add: store_list_def)

lemma store_list_ok:
  assumes "holds (dlinks cm) b (d_lists (dCONF cm) w) (if_at cm) A ps"
    and "\<forall>p \<in> set (used_ifs ps). usable look p" and "length (used_ifs ps) \<le> 8"
  shows "\<exists>it. store_list look cm w zero_interface = Inr (None, it) \<and> if_array it
    \<and> actives it = map (ift_of look) (used_ifs ps) \<and> if_count it = length (used_ifs ps)"
proof -
  from store_all [OF zero_interface_array(1) assms(2)] assms(3) zero_interface_array(2,3) obtain it where
    "visit_objs (store_if_in_ctx look) ps zero_interface = Inr (False, it)" and it: "if_array it"
    "actives it = map (ift_of look) (used_ifs ps)" "if_count it = length (used_ifs ps)" by auto
  with store_list_visit [OF assms(1), of look zero_interface]
  have "store_list look cm w zero_interface = Inr (None, it)"
    by (auto simp: bind_run_eq_Inr)
  with it show ?thesis by blast
qed

lemma store_list_overflow:
  assumes "holds (dlinks cm) b (d_lists (dCONF cm) w) (if_at cm) A ps"
    and "\<forall>p \<in> set (used_ifs ps). usable look p" and "8 < length (used_ifs ps)"
  shows "store_list look cm w zero_interface = Inl OutOfBounds"
  using store_all [OF zero_interface_array(1) assms(2)] assms(3) zero_interface_array(3)
    store_list_visit [OF assms(1), of look zero_interface]
  by (auto simp: bind_run_eq_Inl)

text \<open>The search by name over named interfaces finds the first one.\<close>

lemma search_name_eq:
  assumes "\<forall>x \<in> set xs. ift_name x \<noteq> None" and "k + length xs \<le> length (ifs it)"
    and "\<forall>i < length xs. ifs it ! (k + i) = xs ! i"
  shows "search_name it n [k..<k + length xs]
    = Inr (if \<exists>x \<in> set xs. ift_name x = Some n then Some (k + first_named xs n) else None)"
  using assms
proof (induction xs arbitrary: k)
  case Nil
  then show ?case by simp
next
  case (Cons x xs)
  have up: "[k..<k + length (x # xs)] = k # [Suc k..<Suc k + length xs]" by (subst upt_rec) simp
  have x: "ifs it ! k = x" using Cons.prems(3) by force
  obtain m where m: "ift_name x = Some m" using Cons.prems(1) by auto
  have "\<forall>i < length xs. ifs it ! (Suc k + i) = xs ! i" using Cons.prems(3) by force
  then have ih: "search_name it n [Suc k..<Suc k + length xs]
    = Inr (if \<exists>x \<in> set xs. ift_name x = Some n then Some (Suc k + first_named xs n) else None)"
    using Cons.prems(1,2) by (intro Cons.IH) simp_all
  have "search_name it n [k..<k + length (x # xs)]
    = (if m = n then Inr (Some k) else search_name it n [Suc k..<Suc k + length xs])"
    unfolding up using x m Cons.prems(2) by simp
  with ih m show ?case by auto
qed

lemma actives_nth: "if_array it \<Longrightarrow> i < if_count it \<Longrightarrow> actives it ! i = ifs it ! i"
  by (simp add: actives_def)

lemma actives_length: "if_array it \<Longrightarrow> length (actives it) = if_count it"
  by (simp add: actives_def if_array_def)

lemma get_interface_by_name_eq:
  assumes "if_array it" and "\<forall>x \<in> set (actives it). ift_name x \<noteq> None"
  shows "get_interface_by_name it n
    = Inr (if \<exists>x \<in> set (actives it). ift_name x = Some n then Some (first_named (actives it) n) else None)"
proof -
  have "length (actives it) = if_count it" by (rule actives_length [OF assms(1)])
  then show ?thesis using search_name_eq [OF assms(2), of 0 it n] assms(1)
    by (simp add: get_interface_by_name_def actives_nth if_array_def)
qed

lemma assign_bypass_ok:
  assumes "if_array tx" and "\<forall>x \<in> set (actives tx). ift_name x \<noteq> None" and "i < length (ifs rx)"
    and "\<And>n. ift_bypass_name (ifs rx ! i) = Some n \<Longrightarrow> \<exists>x \<in> set (actives tx). ift_name x = Some n"
  shows "assign_bypass tx i rx = Inr (0, rx\<lparr>ifs := (ifs rx)[i := link_bypass (actives tx) (ifs rx ! i)]\<rparr>)"
  using assms
  by (cases "ift_bypass_name (ifs rx ! i)")
    (simp_all add: assign_bypass_def link_bypass_def get_interface_by_name_eq edit_if_in)

lemma assign_loop:
  assumes "if_array tx" and "\<forall>x \<in> set (actives tx). ift_name x \<noteq> None"
    and "k + m \<le> length (ifs rx)"
    and "\<forall>i n. k \<le> i \<and> i < k + m \<and> ift_bypass_name (ifs rx ! i) = Some n
      \<longrightarrow> (\<exists>x \<in> set (actives tx). ift_name x = Some n)"
  shows "\<exists>xs. run_each (assign_bypass tx) [k..<k + m] rx = Inr (0, rx\<lparr>ifs := xs\<rparr>)
    \<and> length xs = length (ifs rx)
    \<and> (\<forall>i. xs ! i = (if k \<le> i \<and> i < k + m then link_bypass (actives tx) (ifs rx ! i) else ifs rx ! i))"
  using assms(3,4)
proof (induction m arbitrary: k rx)
  case 0
  then show ?case by (intro exI [of _ "ifs rx"]) auto
next
  case (Suc m)
  let ?rx = "rx\<lparr>ifs := (ifs rx)[k := link_bypass (actives tx) (ifs rx ! k)]\<rparr>"
  have up: "[k..<k + Suc m] = k # [Suc k..<Suc k + m]" by (simp add: upt_conv_Cons)
  have one: "assign_bypass tx k rx = Inr (0, ?rx)"
    by (rule assign_bypass_ok [OF assms(1,2)]) (use Suc.prems(1) Suc.prems(2) [rule_format, of k] in simp_all)
  have p1: "Suc k + m \<le> length (ifs ?rx)" using Suc.prems(1) by simp
  have p2: "\<forall>i n. Suc k \<le> i \<and> i < Suc k + m \<and> ift_bypass_name (ifs ?rx ! i) = Some n
      \<longrightarrow> (\<exists>x \<in> set (actives tx). ift_name x = Some n)"
  proof (intro allI impI)
    fix i n
    assume a: "Suc k \<le> i \<and> i < Suc k + m \<and> ift_bypass_name (ifs ?rx ! i) = Some n"
    then have "k \<noteq> i" by auto
    with a show "\<exists>x \<in> set (actives tx). ift_name x = Some n"
      by (intro Suc.prems(2) [rule_format, of i]) simp
  qed
  from Suc.IH [OF p1 p2] obtain xs where
    run: "run_each (assign_bypass tx) [Suc k..<Suc k + m] ?rx = Inr (0, ?rx\<lparr>ifs := xs\<rparr>)"
    and len: "length xs = length (ifs ?rx)"
    and xs: "\<forall>i. xs ! i = (if Suc k \<le> i \<and> i < Suc k + m then link_bypass (actives tx) (ifs ?rx ! i)
        else ifs ?rx ! i)" by blast
  have "xs ! i = (if k \<le> i \<and> i < k + Suc m then link_bypass (actives tx) (ifs rx ! i) else ifs rx ! i)"
    for i
    using xs Suc.prems(1) by (cases "i = k") auto
  with one run len show ?case unfolding up by (intro exI [of _ xs]) simp
qed

lemma assign_bypass_interfaces_ok:
  assumes "if_array (tx_interfaces c)" and "if_array (rx_interfaces c)"
    and "\<forall>x \<in> set (actives (tx_interfaces c)). ift_name x \<noteq> None"
    and "\<forall>x \<in> set (actives (rx_interfaces c)). \<forall>n. ift_bypass_name x = Some n
      \<longrightarrow> (\<exists>y \<in> set (actives (tx_interfaces c)). ift_name y = Some n)"
  shows "\<exists>rx. assign_bypass_interfaces c = Inr (0, c\<lparr>rx_interfaces := rx\<rparr>)
    \<and> actives rx = map (link_bypass (actives (tx_interfaces c))) (actives (rx_interfaces c))
    \<and> if_count rx = if_count (rx_interfaces c)"
proof -
  let ?rx = "rx_interfaces c" and ?tx = "tx_interfaces c"
  have mem: "ifs ?rx ! i \<in> set (actives ?rx)" if "i < if_count ?rx" for i
    using that actives_nth [OF assms(2) that] actives_length [OF assms(2)] by (metis nth_mem)
  have "0 + if_count ?rx \<le> length (ifs ?rx)" using assms(2) by (simp add: if_array_def)
  moreover have "\<forall>i n. 0 \<le> i \<and> i < 0 + if_count ?rx \<and> ift_bypass_name (ifs ?rx ! i) = Some n
      \<longrightarrow> (\<exists>x \<in> set (actives ?tx). ift_name x = Some n)" unfolding add_0 using mem assms(4) by blast
  ultimately have "\<exists>xs. run_each (assign_bypass ?tx) [0..<0 + if_count ?rx] ?rx = Inr (0, ?rx\<lparr>ifs := xs\<rparr>)
    \<and> length xs = length (ifs ?rx) \<and> (\<forall>i. xs ! i = (if 0 \<le> i \<and> i < 0 + if_count ?rx
      then link_bypass (actives ?tx) (ifs ?rx ! i) else ifs ?rx ! i))"
    by (rule assign_loop [OF assms(1,3)])
  then obtain xs where
    run: "run_each (assign_bypass ?tx) [0..<if_count ?rx] ?rx = Inr (0, ?rx\<lparr>ifs := xs\<rparr>)"
    and len: "length xs = length (ifs ?rx)"
    and xs: "\<forall>i. xs ! i = (if i < if_count ?rx then link_bypass (actives ?tx) (ifs ?rx ! i) else ifs ?rx ! i)"
    by auto
  have "actives (?rx\<lparr>ifs := xs\<rparr>) = map (link_bypass (actives ?tx)) (actives ?rx)"
    using len xs assms(2) by (intro nth_equalityI) (simp_all add: actives_def if_array_def)
  with run show ?thesis by (auto simp: assign_bypass_interfaces_def)
qed

lemma init_app_ctx_ok:
  assumes "if_rep cm (three rx tx app)"
    and "\<forall>p \<in> set (used_ifs rx @ used_ifs tx @ used_ifs app). usable look p"
    and "length (used_ifs rx) \<le> 8" and "length (used_ifs tx) \<le> 8" and "length (used_ifs app) \<le> 8"
  shows "\<exists>r t a. init_app_ctx look cm = Inr (0, \<lparr>ctx_app_name = d_app_name (dCONF cm),
      ctx_core_id = d_core_id (dCONF cm), rx_interfaces = r, tx_interfaces = t, app_interfaces = a\<rparr>)
    \<and> if_array r \<and> if_array t \<and> if_array a
    \<and> actives r = map (ift_of look) (used_ifs rx) \<and> actives t = map (ift_of look) (used_ifs tx)
    \<and> actives a = map (ift_of look) (used_ifs app)"
proof -
  from assms(1) obtain A where
    h: "\<And>w. holds (dlinks cm) (dbrk cm) (d_lists (dCONF cm) w) (if_at cm) (A w) (three rx tx app w)"
    by (auto simp: if_rep_def)
  have u: "\<forall>p \<in> set (used_ifs rx). usable look p" "\<forall>p \<in> set (used_ifs tx). usable look p"
    "\<forall>p \<in> set (used_ifs app). usable look p" using assms(2) by auto
  have th: "three rx tx app Rx = rx" "three rx tx app Tx = tx" "three rx tx app App = app"
    by (simp_all add: three_def)
  from store_list_ok [OF h [of Rx, unfolded th] u(1) assms(3)] obtain r where
    r: "store_list look cm Rx zero_interface = Inr (None, r)" "if_array r"
    "actives r = map (ift_of look) (used_ifs rx)" by blast
  from store_list_ok [OF h [of Tx, unfolded th] u(2) assms(4)] obtain t where
    t: "store_list look cm Tx zero_interface = Inr (None, t)" "if_array t"
    "actives t = map (ift_of look) (used_ifs tx)" by blast
  from store_list_ok [OF h [of App, unfolded th] u(3) assms(5)] obtain a where
    a: "store_list look cm App zero_interface = Inr (None, a)" "if_array a"
    "actives a = map (ift_of look) (used_ifs app)" by blast
  have "init_app_ctx look cm = Inr (0, \<lparr>ctx_app_name = d_app_name (dCONF cm),
      ctx_core_id = d_core_id (dCONF cm), rx_interfaces = r, tx_interfaces = t, app_interfaces = a\<rparr>)"
    using r(1) t(1) a(1) by (simp add: init_app_ctx_def zero_ctx_def Let_def)
  with r t a show ?thesis by blast
qed

lemma disp_init_dpdk_eq:
  assumes "d_app_name c = Some ''dispatcher''"
  shows "disp_init_dpdk dp c d = (if d_core_id c < 64
    then case eal_init dp [''dispatcher'', ''-c'', ''0x'' @ hex_str (2 ^ unat (d_core_id c)), ''-n'', ''1'',
        ''--proc-type=secondary''] d of (r, d) \<Rightarrow> Inr (if r < 0 then -1 else 0, d)
    else Inl BadShift)"
proof (cases "d_core_id c < 64")
  case False
  then show ?thesis by (simp add: disp_init_dpdk_def core_bit_def)
next
  case True
  then have "unat (d_core_id c) < 64" by (simp add: word_less_nat_alt)
  then have w: "unat (push_bit (unat (d_core_id c)) 1 :: u64) = 2 ^ unat (d_core_id c)"
    by (simp add: push_bit_eq_mult unat_two_power)
  have "length (''0x'' @ hex_str (unat (push_bit (unat (d_core_id c)) 1 :: u64))) < 256"
    using hex_str_length [of "push_bit (unat (d_core_id c)) 1"] by simp
  from sprintf_cap_fits [OF this] w assms
  have "disp_build_args (disp_dpdk_arg c (push_bit (unat (d_core_id c)) 1)) [0..<6]
    = Inr [''dispatcher'', ''-c'', ''0x'' @ hex_str (2 ^ unat (d_core_id c)), ''-n'', ''1'',
        ''--proc-type=secondary'']"
    by (simp add: upt_rec disp_dpdk_arg_def)
  with True show ?thesis by (simp add: disp_init_dpdk_def core_bit_def split: prod.splits)
qed

section \<open>Properties\<close>

text \<open>
  C24: From a state that represents a configuration with a core below 64, at most eight used
  interfaces per list, rings that DPDK knows and resolvable bypass names, the allocator succeeds,
  and the context holds exactly the used interfaces of each list in order, every receive interface
  with a bypass name pointing to the first transmit interface of that name.
\<close>

theorem DISP_create_ressources_refines:
  assumes "disp_config_is (core, rx, tx, app) cm" and "core < 64"
    and "eal_init dp [''dispatcher'', ''-c'', ''0x'' @ hex_str (2 ^ unat core), ''-n'', ''1'',
        ''--proc-type=secondary''] d = (r, d')" and "0 \<le> r"
    and "length (used_ifs rx) \<le> 8" and "length (used_ifs tx) \<le> 8" and "length (used_ifs app) \<le> 8"
    and "\<forall>p \<in> set (used_ifs rx @ used_ifs tx @ used_ifs app). usable (\<lambda>n. ring_lookup dp n d') p"
    and "\<forall>p \<in> set (used_ifs tx). if_name p \<noteq> None"
    and "\<forall>p \<in> set (used_ifs rx). \<forall>n. if_bypass_if_name p = Some n
      \<longrightarrow> (\<exists>q \<in> set (used_ifs tx). if_name q = Some n)"
  shows "\<exists>ctx. DISP_create_ressources dp (Some cm) ctx0 d = Inr (0, ctx, d')
    \<and> actives (tx_interfaces ctx) = map (ift_of (\<lambda>n. ring_lookup dp n d')) (used_ifs tx)
    \<and> actives (app_interfaces ctx) = map (ift_of (\<lambda>n. ring_lookup dp n d')) (used_ifs app)
    \<and> actives (rx_interfaces ctx) = map (link_bypass (actives (tx_interfaces ctx))
        \<circ> ift_of (\<lambda>n. ring_lookup dp n d')) (used_ifs rx)"
proof -
  let ?look = "\<lambda>n. ring_lookup dp n d'"
  have c: "d_app_name (dCONF cm) = Some ''dispatcher''" "d_core_id (dCONF cm) = core"
    and rep: "if_rep cm (three rx tx app)" using assms(1) by (simp_all add: disp_config_is_def)
  have eal: "disp_init_dpdk dp (dCONF cm) d = Inr (0, d')"
    using disp_init_dpdk_eq [OF c(1), of dp d] c(2) assms(2-4) by simp
  from init_app_ctx_ok [OF rep assms(8,5-7)] obtain ri ti ai where
    ini: "init_app_ctx ?look cm = Inr (0, \<lparr>ctx_app_name = d_app_name (dCONF cm),
      ctx_core_id = d_core_id (dCONF cm), rx_interfaces = ri, tx_interfaces = ti, app_interfaces = ai\<rparr>)"
    (is "_ = Inr (0, ?c)")
    and arr: "if_array ri" "if_array ti"
    and act: "actives ri = map (ift_of ?look) (used_ifs rx)" "actives ti = map (ift_of ?look) (used_ifs tx)"
      "actives ai = map (ift_of ?look) (used_ifs app)" by blast
  have "\<forall>x \<in> set (actives (tx_interfaces ?c)). ift_name x \<noteq> None"
    using assms(9) by (simp add: act ift_of_def)
  moreover have "\<forall>x \<in> set (actives (rx_interfaces ?c)). \<forall>n. ift_bypass_name x = Some n
      \<longrightarrow> (\<exists>y \<in> set (actives (tx_interfaces ?c)). ift_name y = Some n)"
    using assms(10) by (simp add: act ift_of_def)
  ultimately obtain rx' where "assign_bypass_interfaces ?c = Inr (0, ?c\<lparr>rx_interfaces := rx'\<rparr>)"
    "actives rx' = map (link_bypass (actives ti)) (actives ri)"
    using assign_bypass_interfaces_ok [of ?c] arr by auto
  with eal ini act show ?thesis by (simp add: DISP_create_ressources_def)
qed

text \<open>
  The allocator does not check the number of interfaces against the eight slots of its
  arrays: with more than eight used receive interfaces it writes behind the array.
\<close>

theorem too_many_interfaces_overflow:
  assumes "disp_config_is (core, rx, tx, app) cm" and "8 < length (used_ifs rx)"
    and "\<forall>p \<in> set (used_ifs rx). usable look p"
  shows "init_app_ctx look cm = Inl OutOfBounds"
proof -
  from assms(1) obtain A where
    "holds (dlinks cm) (dbrk cm) (d_lists (dCONF cm) Rx) (if_at cm) (A Rx) (three rx tx app Rx)"
    by (auto simp: disp_config_is_def if_rep_def)
  then have "holds (dlinks cm) (dbrk cm) (d_lists (dCONF cm) Rx) (if_at cm) (A Rx) rx"
    by (simp add: three_def)
  from store_list_overflow [OF this assms(3,2)] show ?thesis
    by (simp add: init_app_ctx_def zero_ctx_def Let_def)
qed

text \<open>
  The core mask given to the EAL is the single bit of the configured core, written in
  hexadecimal, for cores below 64; for any other core number (a negative one included, which is
  stored as a large unsigned number) the shift is undefined.
\<close>

theorem disp_core_mask:
  assumes "d_app_name c = Some ''dispatcher''"
  shows "if d_core_id c < 64
    then \<exists>hex. disp_init_dpdk dp c d = (case eal_init dp [''dispatcher'', ''-c'', ''0x'' @ hex, ''-n'', ''1'',
          ''--proc-type=secondary''] d of (r, d) \<Rightarrow> Inr (if r < 0 then -1 else 0, d))
        \<and> digits_value 16 0 hex = 2 ^ unat (d_core_id c)
    else disp_init_dpdk dp c d = Inl BadShift"
  using disp_init_dpdk_eq [OF assms, of dp d] hex_str_roundtrip by auto

theorem disp_core_mask_witness:
  "disp_init_dpdk (log_dpdk 0) \<lparr>d_app_name = Some ''dispatcher'', d_core_id = word_of_int (-1),
     d_lists = (\<lambda>w. \<lparr>head = None, tail = None, count = 0\<rparr>)\<rparr> \<lparr>calls = [], objects = []\<rparr> = Inl BadShift"
  using disp_core_mask [of "\<lparr>d_app_name = Some ''dispatcher'', d_core_id = word_of_int (-1),
     d_lists = (\<lambda>w. \<lparr>head = None, tail = None, count = 0\<rparr>)\<rparr>" "log_dpdk 0"
     "\<lparr>calls = [], objects = []\<rparr>"]
  by simp

section \<open>Witnesses\<close>

definition sample_disp_mem :: disp_mem where
  "sample_disp_mem = \<lparr>dCONF = \<lparr>d_app_name = Some ''dispatcher'', d_core_id = 1,
       d_lists = three \<lparr>head = Some 0, tail = Some 1, count = 2\<rparr> \<lparr>head = Some 2, tail = Some 2, count = 1\<rparr>
         \<lparr>head = None, tail = None, count = 0\<rparr>\<rparr>,
     dlinks = \<lparr>nxt = [0 \<mapsto> 1], prv = [1 \<mapsto> 0]\<rparr>, dbrk = 3,
     if_at = (\<lambda>a. (sample_rx @ sample_tx) ! a), djson_live = 0\<rparr>"

lemma sample_disp_config: "disp_config_is (1, sample_rx, sample_tx, []) sample_disp_mem"
proof -
  let ?A = "three {0::nat, 1} {2} {}"
  have "holds (dlinks sample_disp_mem) 3 (d_lists (dCONF sample_disp_mem) w) (if_at sample_disp_mem)
      (?A w) (three sample_rx sample_tx [] w)" for w
  proof (cases w)
    case Rx
    then show ?thesis unfolding holds_def
      by (intro exI [of _ "[0, 1]"])
        (auto simp: sample_disp_mem_def three_def dll_def sample_rx_def sample_tx_def)
  next
    case Tx
    then show ?thesis unfolding holds_def
      by (intro exI [of _ "[2]"])
        (auto simp: sample_disp_mem_def three_def dll_def sample_rx_def sample_tx_def)
  next
    case App
    then show ?thesis
      by (simp add: holds_def sample_disp_mem_def three_def dll_def)
  qed
  moreover have "?A u \<inter> ?A v = {}" if "u \<noteq> v" for u v
    using that by (cases u; cases v) (auto simp: three_def)
  moreover have "dbrk sample_disp_mem = 3" by (simp add: sample_disp_mem_def)
  ultimately have "if_rep sample_disp_mem (three sample_rx sample_tx [])"
    unfolding if_rep_def by (intro exI [of _ ?A]) simp
  then show ?thesis by (simp add: disp_config_is_def sample_disp_mem_def)
qed

theorem DISP_create_ressources_refines_witness:
  "\<exists>ctx d. DISP_create_ressources (log_dpdk 1) (Some sample_disp_mem) zero_ctx \<lparr>calls = [], objects = []\<rparr>
      = Inr (0, ctx, d)
    \<and> map ift_bypass_if (actives (rx_interfaces ctx)) = [Some 0, None]"
proof -
  let ?args = "[''dispatcher'', ''-c'', ''0x'' @ hex_str (2 ^ unat (1 :: u64)), ''-n'', ''1'',
      ''--proc-type=secondary'']"
  let ?d = "\<lparr>calls = [EalInit ?args], objects = []\<rparr>"
  have e: "eal_init (log_dpdk 1) ?args \<lparr>calls = [], objects = []\<rparr> = (0, ?d)"
    by (simp add: log_dpdk_def record_call_def)
  have u: "used_ifs sample_rx = sample_rx" "used_ifs sample_tx = sample_tx" "used_ifs [] = []"
    by (simp_all add: used_ifs_def sample_rx_def sample_tx_def)
  have "\<exists>ctx. DISP_create_ressources (log_dpdk 1) (Some sample_disp_mem) zero_ctx \<lparr>calls = [], objects = []\<rparr>
      = Inr (0, ctx, ?d)
    \<and> actives (tx_interfaces ctx) = map (ift_of (\<lambda>n. ring_lookup (log_dpdk 1) n ?d)) (used_ifs sample_tx)
    \<and> actives (app_interfaces ctx) = map (ift_of (\<lambda>n. ring_lookup (log_dpdk 1) n ?d)) (used_ifs [])
    \<and> actives (rx_interfaces ctx) = map (link_bypass (actives (tx_interfaces ctx))
        \<circ> ift_of (\<lambda>n. ring_lookup (log_dpdk 1) n ?d)) (used_ifs sample_rx)"
    by (rule DISP_create_ressources_refines [OF sample_disp_config _ e])
      (simp_all add: u, simp_all add: sample_rx_def sample_tx_def usable_def)
  then obtain ctx where c: "DISP_create_ressources (log_dpdk 1) (Some sample_disp_mem) zero_ctx
      \<lparr>calls = [], objects = []\<rparr> = Inr (0, ctx, ?d)"
    and t: "actives (tx_interfaces ctx) = map (ift_of (\<lambda>n. ring_lookup (log_dpdk 1) n ?d)) sample_tx"
    and r: "actives (rx_interfaces ctx) = map (link_bypass (actives (tx_interfaces ctx))
        \<circ> ift_of (\<lambda>n. ring_lookup (log_dpdk 1) n ?d)) sample_rx"
    unfolding u by blast
  have "map ift_bypass_if (actives (rx_interfaces ctx)) = [Some 0, None]"
    unfolding r t by (simp add: sample_rx_def sample_tx_def ift_of_def link_bypass_def)
  with c show ?thesis by (intro exI [of _ ctx] exI [of _ ?d] conjI)
qed

definition nine_ports :: "if_conf list" where
  "nine_ports = replicate 9 \<lparr>if_name = Some ''p'', if_bypass_if_name = None, if_used = 1, if_is_eth = 1,
      if_port_id = 0, if_q_id = 0, if_ring_name = None\<rparr>"

definition nine_mem :: disp_mem where
  "nine_mem = \<lparr>dCONF = \<lparr>d_app_name = Some ''dispatcher'', d_core_id = 1,
       d_lists = three \<lparr>head = Some 0, tail = Some 8, count = 9\<rparr> \<lparr>head = None, tail = None, count = 0\<rparr>
         \<lparr>head = None, tail = None, count = 0\<rparr>\<rparr>,
     dlinks = \<lparr>nxt = (\<lambda>a. if a < 8 then Some (Suc a) else None),
       prv = (\<lambda>a. if a = 0 then None else Some (a - 1))\<rparr>, dbrk = 9,
     if_at = (\<lambda>a. nine_ports ! a), djson_live = 0\<rparr>"

lemma nine_config: "disp_config_is (1, nine_ports, [], []) nine_mem"
proof -
  let ?A = "three {0..<9::nat} {} {}"
  have "holds (dlinks nine_mem) 9 (d_lists (dCONF nine_mem) w) (if_at nine_mem)
      (?A w) (three nine_ports [] [] w)" for w
  proof (cases w)
    case Rx
    have "dll (dlinks nine_mem) (d_lists (dCONF nine_mem) Rx) [0..<9]"
      by (simp add: nine_mem_def three_def dll_def upt_rec)
    moreover have "map (if_at nine_mem) [0..<9] = nine_ports"
      by (auto simp: nine_mem_def nine_ports_def intro!: nth_equalityI)
    ultimately show ?thesis unfolding Rx holds_def by (intro exI [of _ "[0..<9]"]) (simp add: three_def)
  qed (simp_all add: holds_def nine_mem_def three_def dll_def)
  moreover have "?A u \<inter> ?A v = {}" if "u \<noteq> v" for u v
    using that by (cases u; cases v) (auto simp: three_def)
  moreover have "dbrk nine_mem = 9" by (simp add: nine_mem_def)
  ultimately have "if_rep nine_mem (three nine_ports [] [])"
    unfolding if_rep_def by (intro exI [of _ ?A]) simp
  then show ?thesis by (simp add: disp_config_is_def nine_mem_def)
qed

theorem too_many_interfaces_overflow_witness:
  "init_app_ctx (\<lambda>_. Inr None) nine_mem = Inl OutOfBounds"
  by (rule too_many_interfaces_overflow [OF nine_config])
    (simp_all add: nine_ports_def used_ifs_def usable_def)

end
