(* ===== verification/RteRing.thy ===== *)
theory RteRing imports Prelude begin

text \<open>
  The ring buffer of DPDK, \<open>lib/librte_ring/rte_ring.h\<close> and \<open>rte_ring.c\<close>, which carries the
  packets between the processes of the platform.  Indices are \<open>u32\<close> words that run freely modulo
  \<open>2\<^sup>3\<^sup>2\<close> and are masked on access, as in the C code.  The functions are modelled for one
  caller at a time: the \<open>cmpset\<close> of the multi-producer and multi-consumer variants then succeeds,
  and their waiting loop ends only if nobody else is in the middle of an operation.
\<close>

section \<open>Data\<close>

datatype queue_behavior = RTE_RING_QUEUE_FIXED | RTE_RING_QUEUE_VARIABLE

record 'a rte_ring =
  flags :: u32
  watermark :: u32
  sp_enqueue :: bool
  p_size :: u32
  p_mask :: u32
  p_head :: u32
  p_tail :: u32
  sc_dequeue :: bool
  c_size :: u32
  c_mask :: u32
  c_head :: u32
  c_tail :: u32
  slots :: "'a list"

definition ENOENT :: int where "ENOENT = 2"
definition EINVAL :: int where "EINVAL = 22"
definition ENAMETOOLONG :: int where "ENAMETOOLONG = 36"
definition ENOBUFS :: int where "ENOBUFS = 105"
definition EDQUOT :: int where "EDQUOT = 122"

definition RTE_RING_SZ_MASK :: u32 where
  "RTE_RING_SZ_MASK = 0x0fffffff"

definition RTE_MEMZONE_NAMESIZE :: nat where
  "RTE_MEMZONE_NAMESIZE = 32"

section \<open>Set-up and observers\<close>

text \<open>\<open>POWEROF2(x)\<close> is \<open>((x-1) & x) == 0\<close>; the size is rounded up to whole cache lines of 64
  bytes; \<open>header\<close> is \<open>sizeof(struct rte_ring)\<close>.\<close>

definition rte_ring_get_memsize :: "int \<Rightarrow> u32 \<Rightarrow> int" where
  "rte_ring_get_memsize header count =
     (if \<not> ((count - 1) AND count = 0) \<or> count > RTE_RING_SZ_MASK then - EINVAL
      else let sz = header + uint count * 8 in ((sz + 63) div 64) * 64)"

text \<open>\<open>cells\<close>: what the memory behind the ring header holds.\<close>

definition rte_ring_init :: "string \<Rightarrow> u32 \<Rightarrow> u32 \<Rightarrow> 'a list \<Rightarrow> int \<times> 'a rte_ring" where
  "rte_ring_init name count fl cells =
     (let r = \<lparr>flags = 0, watermark = 0, sp_enqueue = False, p_size = 0, p_mask = 0, p_head = 0, p_tail = 0,
               sc_dequeue = False, c_size = 0, c_mask = 0, c_head = 0, c_tail = 0, slots = cells\<rparr>
      in if RTE_MEMZONE_NAMESIZE \<le> length name then (- ENAMETOOLONG, r)
         else (0, r\<lparr>flags := fl, watermark := count, sp_enqueue := (fl AND 1 \<noteq> 0),
                sc_dequeue := (fl AND 2 \<noteq> 0), p_size := count, c_size := count,
                p_mask := count - 1, c_mask := count - 1, p_head := 0, c_head := 0,
                p_tail := 0, c_tail := 0\<rparr>))"

definition rte_ring_set_water_mark :: "u32 \<Rightarrow> 'a rte_ring \<Rightarrow> int \<times> 'a rte_ring" where
  "rte_ring_set_water_mark count r =
     (if count \<ge> p_size r then (- EINVAL, r)
      else (0, r\<lparr>watermark := (if count = 0 then p_size r else count)\<rparr>))"

definition rte_ring_full :: "'a rte_ring \<Rightarrow> bool" where
  "rte_ring_full r \<longleftrightarrow> (c_tail r - p_tail r - 1) AND p_mask r = 0"

definition rte_ring_empty :: "'a rte_ring \<Rightarrow> bool" where
  "rte_ring_empty r \<longleftrightarrow> c_tail r = p_tail r"

definition rte_ring_count :: "'a rte_ring \<Rightarrow> u32" where
  "rte_ring_count r = (p_tail r - c_tail r) AND p_mask r"

definition rte_ring_free_count :: "'a rte_ring \<Rightarrow> u32" where
  "rte_ring_free_count r = (c_tail r - p_tail r - 1) AND p_mask r"

section \<open>Copying\<close>

fun write_run :: "'a list \<Rightarrow> nat \<Rightarrow> 'a list \<Rightarrow> 'a list run" where
  "write_run sl i [] = Inr sl"
| "write_run sl i (x # xs) = bind_run (write_at sl i x) (\<lambda>sl. write_run sl (Suc i) xs)"

fun read_run :: "'a list \<Rightarrow> nat \<Rightarrow> nat \<Rightarrow> 'a list run" where
  "read_run sl i 0 = Inr []"
| "read_run sl i (Suc n) =
     bind_run (read_at sl i) (\<lambda>x. bind_run (read_run sl (Suc i) n) (\<lambda>xs. Inr (x # xs)))"

definition ENQUEUE_PTRS :: "u32 \<Rightarrow> 'a list \<Rightarrow> u32 \<Rightarrow> 'a rte_ring \<Rightarrow> 'a list run" where
  "ENQUEUE_PTRS prod_head objs n r =
     (let size = p_size r; idx = prod_head AND p_mask r; xs = take (unat n) objs in
      if idx + n < size then write_run (slots r) (unat idx) xs
      else bind_run (write_run (slots r) (unat idx) (take (unat size - unat idx) xs))
             (\<lambda>sl. write_run sl 0 (drop (unat size - unat idx) xs)))"

definition DEQUEUE_PTRS :: "u32 \<Rightarrow> u32 \<Rightarrow> 'a rte_ring \<Rightarrow> 'a list run" where
  "DEQUEUE_PTRS cons_head n r =
     (let size = c_size r; idx = cons_head AND p_mask r in
      if idx + n < size then read_run (slots r) (unat idx) (unat n)
      else bind_run (read_run (slots r) (unat idx) (unat size - unat idx)) (\<lambda>xs.
           bind_run (read_run (slots r) 0 (unat n - (unat size - unat idx))) (\<lambda>ys. Inr (xs @ ys))))"

section \<open>Enqueue and dequeue\<close>

text \<open>How many entries the call handles: an early return code, or the (reduced) \<open>n\<close>.\<close>

definition ring_quota :: "queue_behavior \<Rightarrow> int \<Rightarrow> u32 \<Rightarrow> u32 \<Rightarrow> int + u32" where
  "ring_quota b err n avail =
     (if n > avail then
        if b = RTE_RING_QUEUE_FIXED then Inl (- err)
        else if avail = 0 then Inl 0 else Inr avail
      else Inr n)"

definition enqueue_code :: "queue_behavior \<Rightarrow> u32 \<Rightarrow> u32 \<Rightarrow> 'a rte_ring \<Rightarrow> int" where
  "enqueue_code b free_entries n r =
     (if (p_mask r + 1) - free_entries + n > watermark r then
        if b = RTE_RING_QUEUE_FIXED then - EDQUOT else sint (n OR 0x80000000)
      else if b = RTE_RING_QUEUE_FIXED then 0 else sint n)"

definition sp_do_enqueue :: "'a list \<Rightarrow> u32 \<Rightarrow> queue_behavior \<Rightarrow> 'a rte_ring \<Rightarrow> (int \<times> 'a rte_ring) run" where
  "sp_do_enqueue objs n b r =
     (let prod_head = p_head r; free_entries = p_mask r + c_tail r - prod_head in
      case ring_quota b ENOBUFS n free_entries of
        Inl ret \<Rightarrow> Inr (ret, r)
      | Inr n \<Rightarrow>
          let prod_next = prod_head + n; r = r\<lparr>p_head := prod_next\<rparr> in
          bind_run (ENQUEUE_PTRS prod_head objs n r) (\<lambda>sl.
            let r = r\<lparr>slots := sl\<rparr>; ret = enqueue_code b free_entries n r
            in Inr (ret, r\<lparr>p_tail := prod_next\<rparr>)))"

definition mp_do_enqueue :: "'a list \<Rightarrow> u32 \<Rightarrow> queue_behavior \<Rightarrow> 'a rte_ring \<Rightarrow> (int \<times> 'a rte_ring) run" where
  "mp_do_enqueue objs n b r =
     (if n = 0 then Inr (0, r)
      else let prod_head = p_head r; free_entries = p_mask r + c_tail r - prod_head in
      case ring_quota b ENOBUFS n free_entries of
        Inl ret \<Rightarrow> Inr (ret, r)
      | Inr n \<Rightarrow>
          let prod_next = prod_head + n; r = r\<lparr>p_head := prod_next\<rparr> in
          bind_run (ENQUEUE_PTRS prod_head objs n r) (\<lambda>sl.
            let r = r\<lparr>slots := sl\<rparr>; ret = enqueue_code b free_entries n r
            in if p_tail r \<noteq> prod_head then Inl Diverges
               else Inr (ret, r\<lparr>p_tail := prod_next\<rparr>)))"

definition sc_do_dequeue :: "u32 \<Rightarrow> queue_behavior \<Rightarrow> 'a rte_ring \<Rightarrow> (int \<times> 'a list \<times> 'a rte_ring) run" where
  "sc_do_dequeue n b r =
     (let cons_head = c_head r; entries = p_tail r - cons_head in
      case ring_quota b ENOENT n entries of
        Inl ret \<Rightarrow> Inr (ret, [], r)
      | Inr n \<Rightarrow>
          let cons_next = cons_head + n; r = r\<lparr>c_head := cons_next\<rparr> in
          bind_run (DEQUEUE_PTRS cons_head n r) (\<lambda>xs.
            Inr (if b = RTE_RING_QUEUE_FIXED then 0 else sint n, xs, r\<lparr>c_tail := cons_next\<rparr>)))"

definition mc_do_dequeue :: "u32 \<Rightarrow> queue_behavior \<Rightarrow> 'a rte_ring \<Rightarrow> (int \<times> 'a list \<times> 'a rte_ring) run" where
  "mc_do_dequeue n b r =
     (if n = 0 then Inr (0, [], r)
      else let cons_head = c_head r; entries = p_tail r - cons_head in
      case ring_quota b ENOENT n entries of
        Inl ret \<Rightarrow> Inr (ret, [], r)
      | Inr n \<Rightarrow>
          let cons_next = cons_head + n; r = r\<lparr>c_head := cons_next\<rparr> in
          bind_run (DEQUEUE_PTRS cons_head n r) (\<lambda>xs.
            if c_tail r \<noteq> cons_head then Inl Diverges
            else Inr (if b = RTE_RING_QUEUE_FIXED then 0 else sint n, xs, r\<lparr>c_tail := cons_next\<rparr>)))"

definition rte_ring_enqueue_bulk :: "'a list \<Rightarrow> u32 \<Rightarrow> 'a rte_ring \<Rightarrow> (int \<times> 'a rte_ring) run" where
  "rte_ring_enqueue_bulk objs n r =
     (if sp_enqueue r then sp_do_enqueue objs n RTE_RING_QUEUE_FIXED r
      else mp_do_enqueue objs n RTE_RING_QUEUE_FIXED r)"

definition rte_ring_enqueue_burst :: "'a list \<Rightarrow> u32 \<Rightarrow> 'a rte_ring \<Rightarrow> (int \<times> 'a rte_ring) run" where
  "rte_ring_enqueue_burst objs n r =
     (if sp_enqueue r then sp_do_enqueue objs n RTE_RING_QUEUE_VARIABLE r
      else mp_do_enqueue objs n RTE_RING_QUEUE_VARIABLE r)"

definition rte_ring_enqueue :: "'a \<Rightarrow> 'a rte_ring \<Rightarrow> (int \<times> 'a rte_ring) run" where
  "rte_ring_enqueue x r = rte_ring_enqueue_bulk [x] 1 r"

definition rte_ring_dequeue_bulk :: "u32 \<Rightarrow> 'a rte_ring \<Rightarrow> (int \<times> 'a list \<times> 'a rte_ring) run" where
  "rte_ring_dequeue_bulk n r =
     (if sc_dequeue r then sc_do_dequeue n RTE_RING_QUEUE_FIXED r
      else mc_do_dequeue n RTE_RING_QUEUE_FIXED r)"

definition rte_ring_dequeue_burst :: "u32 \<Rightarrow> 'a rte_ring \<Rightarrow> (int \<times> 'a list \<times> 'a rte_ring) run" where
  "rte_ring_dequeue_burst n r =
     (if sc_dequeue r then sc_do_dequeue n RTE_RING_QUEUE_VARIABLE r
      else mc_do_dequeue n RTE_RING_QUEUE_VARIABLE r)"

definition rte_ring_dequeue :: "'a rte_ring \<Rightarrow> (int \<times> 'a list \<times> 'a rte_ring) run" where
  "rte_ring_dequeue r = rte_ring_dequeue_bulk 1 r"

section \<open>The queue a ring represents\<close>

text \<open>
  \<open>ring_rep r q\<close>: no operation is in progress and the ring holds the objects \<open>q\<close>, oldest first,
  from index \<open>c_tail\<close> on, modulo its power-of-two size.
\<close>

definition ring_rep :: "'a rte_ring \<Rightarrow> 'a list \<Rightarrow> bool" where
  "ring_rep r q \<longleftrightarrow> (\<exists>k \<le> 28. p_size r = 2 ^ k \<and> c_size r = 2 ^ k \<and> p_mask r = 2 ^ k - 1
     \<and> length (slots r) = 2 ^ k \<and> p_head r = p_tail r \<and> c_head r = c_tail r
     \<and> length q < 2 ^ k \<and> p_tail r = c_tail r + of_nat (length q)
     \<and> (\<forall>i < length q. slots r ! ((unat (c_tail r) + i) mod 2 ^ k) = q ! i))"

definition capacity :: "'a rte_ring \<Rightarrow> nat" where
  "capacity r = unat (p_size r) - 1"

section \<open>Lemmas\<close>

text \<open>Masking is reduction modulo the size, and does not mind the wrap-around of the indices.\<close>

lemma pow_bound: "k \<le> 28 \<Longrightarrow> (2 :: nat) ^ k \<le> 2 ^ 28"
  by (intro power_increasing) simp_all

lemma unat_pow: "k \<le> 28 \<Longrightarrow> unat (2 ^ k :: u32) = 2 ^ k"
  by (rule unat_two_power) simp

lemma unat_masked: "unat ((w :: u32) AND (2 ^ k - 1)) = unat w mod 2 ^ k"
proof -
  have "w AND (2 ^ k - 1) = take_bit k w" by (simp add: take_bit_eq_mask mask_eq_exp_minus_1)
  moreover have "unat (take_bit k w) = take_bit k (unat w)" by (rule unsigned_take_bit_eq)
  ultimately show ?thesis by (simp add: take_bit_eq_mod)
qed

lemma unat_plus_mod:
  assumes "k \<le> 28"
  shows "unat ((w :: u32) + of_nat n) mod 2 ^ k = (unat w + n) mod 2 ^ k"
proof -
  have "(2 :: nat) ^ k dvd 2 ^ 32" using assms by (intro le_imp_power_dvd) simp
  then have d: "(x mod 2 ^ 32) mod 2 ^ k = x mod 2 ^ k" for x :: nat by (rule mod_mod_cancel)
  have "unat (w + of_nat n) = (unat w + n) mod 2 ^ 32"
    by (simp add: unat_word_ariths unat_of_nat mod_simps)
  then show ?thesis using d by simp
qed

lemma write_run_eq:
  "i + length xs \<le> length sl \<Longrightarrow> write_run sl i xs = Inr (take i sl @ xs @ drop (i + length xs) sl)"
proof (induction xs arbitrary: i sl)
  case Nil
  then show ?case by simp
next
  case (Cons x xs)
  then have "i < length sl" by simp
  then have "take (Suc i) (sl[i := x]) @ xs @ drop (Suc i + length xs) (sl[i := x])
      = take i sl @ (x # xs) @ drop (i + length (x # xs)) sl"
    by (simp add: take_Suc_conv_app_nth)
  with Cons show ?case by simp
qed

lemma read_run_eq: "i + n \<le> length sl \<Longrightarrow> read_run sl i n = Inr (take n (drop i sl))"
proof (induction n arbitrary: i)
  case 0
  then show ?case by simp
next
  case (Suc n)
  then have "drop i sl = sl ! i # drop (Suc i) sl" by (simp add: Cons_nth_drop_Suc)
  with Suc show ?case by simp
qed

lemma nth_overlay: "length x \<le> j \<Longrightarrow> j < length s \<Longrightarrow> (x @ drop (length x) s) ! j = s ! j"
  by (simp add: nth_append)

lemma mod_wrap: "b < N \<Longrightarrow> b + i < 2 * N \<Longrightarrow> (b + i) mod N = (if b + i < N then b + i else b + i - N)"
  for N :: nat
  by (simp add: mod_if)

text \<open>The two branches of the copy both write the objects modulo the size.\<close>

lemma ENQUEUE_PTRS_eq:
  assumes "k \<le> 28" and "p_size r = 2 ^ k" and "p_mask r = 2 ^ k - 1" and "length (slots r) = 2 ^ k"
    and "unat n = length objs" and "length objs \<le> 2 ^ k"
  shows "\<exists>sl. ENQUEUE_PTRS ph objs n r = Inr sl \<and> length sl = 2 ^ k
    \<and> (\<forall>i < length objs. sl ! ((unat ph + i) mod 2 ^ k) = objs ! i)
    \<and> (\<forall>i. length objs \<le> i \<and> i < 2 ^ k \<longrightarrow>
          sl ! ((unat ph + i) mod 2 ^ k) = slots r ! ((unat ph + i) mod 2 ^ k))"
proof -
  let ?N = "2 ^ k :: nat" and ?b = "unat ph mod 2 ^ k" and ?n = "length objs"
  have N: "0 < ?N" "?N \<le> 2 ^ 28" using pow_bound [OF assms(1)] by simp_all
  have b: "?b < ?N" using N(1) by simp
  have bi: "(unat ph + i) mod ?N = (if ?b + i < ?N then ?b + i else ?b + i - ?N)" if "i < ?N" for i
    using mod_wrap [OF b, of i] that b by (simp add: mod_simps)
  have idx: "unat (ph AND p_mask r) = ?b" using unat_masked [of _ k] assms(3) by simp
  have "(2 :: nat) ^ 28 + 2 ^ 28 < 2 ^ 32" by simp
  then have "?b + ?n < 2 ^ 32" using b N assms(6) by linarith
  then have sum: "unat ((ph AND p_mask r) + n) = ?b + ?n"
    using idx assms(5) by (simp add: unat_word_ariths)
  have lt: "(ph AND p_mask r) + n < p_size r \<longleftrightarrow> ?b + ?n < ?N"
    using sum unat_pow [OF assms(1)] assms(2) by (simp add: word_less_nat_alt)
  show ?thesis
  proof (cases "?b + ?n < ?N")
    case True
    let ?s = "take ?b (slots r) @ objs @ drop (?b + ?n) (slots r)"
    have eq: "ENQUEUE_PTRS ph objs n r = Inr ?s"
      using True lt idx assms(4,5) write_run_eq [of ?b objs "slots r"] by (simp add: ENQUEUE_PTRS_def Let_def)
    have in_objs: "?s ! (?b + i) = objs ! i" if "i < ?n" for i using that assms(4) b by (simp add: nth_append)
    have outside: "?s ! j = slots r ! j" if "j < ?N" "j < ?b \<or> ?b + ?n \<le> j" for j
      using that assms(4) b by (auto simp: nth_append)
    show ?thesis
    proof (intro exI [of _ ?s] conjI allI impI)
      show "ENQUEUE_PTRS ph objs n r = Inr ?s" by (rule eq)
      show "length ?s = 2 ^ k" using True assms(4) b by simp
    next
      fix i assume "i < ?n"
      then show "?s ! ((unat ph + i) mod ?N) = objs ! i"
        using bi [of i] in_objs [of i] True by simp
    next
      fix i assume i: "?n \<le> i \<and> i < 2 ^ k"
      then have "?b + i - ?N < ?b \<or> ?b + i < ?N" and "?b + i - ?N < ?N" using b by linarith+
      then show "?s ! ((unat ph + i) mod ?N) = slots r ! ((unat ph + i) mod ?N)"
        using i bi [of i] outside [of "?b + i"] outside [of "?b + i - ?N"] b by auto
    qed
  next
    case False
    let ?m = "?N - ?b"
    let ?s1 = "take ?b (slots r) @ take ?m objs" and ?x2 = "drop ?m objs"
    let ?s2 = "?x2 @ drop (length ?x2) ?s1"
    have m: "?m \<le> ?n" "length (take ?m objs) = ?m" "length ?s1 = ?N" "length ?x2 = ?n - ?m"
      "length ?x2 \<le> ?b"
      using False b assms(4,6) by simp_all
    have "write_run (slots r) ?b (take ?m objs) = Inr ?s1"
      using write_run_eq [of ?b "take ?m objs" "slots r"] m(2) b assms(4) by simp
    moreover have "write_run ?s1 0 ?x2 = Inr ?s2"
    proof -
      have "0 + length ?x2 \<le> length ?s1" using m(3,5) b by linarith
      from write_run_eq [OF this] show ?thesis by (simp only: add_0 take_0 append_Nil)
    qed
    ultimately have eq: "ENQUEUE_PTRS ph objs n r = Inr ?s2"
      using False lt idx assms(5) unat_pow [OF assms(1)] assms(2)
      by (simp add: ENQUEUE_PTRS_def Let_def)
    have low: "?s2 ! j = objs ! (?m + j)" if "j < length ?x2" for j using that m by (simp add: nth_append)
    have mid: "?s2 ! j = slots r ! j" if "length ?x2 \<le> j" "j < ?b" for j
    proof -
      have "j < length ?s1" using that m(3) b by linarith
      then have "?s2 ! j = ?s1 ! j" using that by (intro nth_overlay)
      also have "\<dots> = slots r ! j" using that assms(4) b by (simp add: nth_append)
      finally show ?thesis .
    qed
    have high: "?s2 ! j = objs ! (j - ?b)" if "?b \<le> j" "j < ?N" for j
    proof -
      have "j < length ?s1" "length ?x2 \<le> j" using that m(3,5) by linarith+
      then have "?s2 ! j = ?s1 ! j" by (intro nth_overlay)
      also have "\<dots> = objs ! (j - ?b)" using that assms(4) b by (simp add: nth_append)
      finally show ?thesis .
    qed
    show ?thesis
    proof (intro exI [of _ ?s2] conjI allI impI)
      show "ENQUEUE_PTRS ph objs n r = Inr ?s2" by (rule eq)
      have "length ?x2 \<le> length ?s1" using m(3,5) b by linarith
      then have "length ?s2 = length ?s1" by (simp only: length_append length_drop le_add_diff_inverse)
      from this m(3) show "length ?s2 = 2 ^ k" by (rule trans)
    next
      fix i assume i: "i < ?n"
      show "?s2 ! ((unat ph + i) mod ?N) = objs ! i"
      proof (cases "?b + i < ?N")
        case True
        then show ?thesis using i bi [of i] assms(6) high [of "?b + i"] by simp
      next
        case False
        then show ?thesis using i bi [of i] assms(6) low [of "?b + i - ?N"] m(4) b by simp
      qed
    next
      fix i assume i: "?n \<le> i \<and> i < 2 ^ k"
      then have nb: "\<not> ?b + i < ?N" using False by simp
      then have ix: "(unat ph + i) mod ?N = ?b + i - ?N" using i bi [of i] by simp
      have "?n - ?m = ?n + ?b - ?N" using b by simp
      then have "length ?x2 \<le> ?b + i - ?N" using m(4) i by linarith
      moreover have "?b + i - ?N < ?b" using i b nb by linarith
      ultimately show "?s2 ! ((unat ph + i) mod ?N) = slots r ! ((unat ph + i) mod ?N)"
        unfolding ix by (rule mid)
    qed
  qed
qed

lemma DEQUEUE_PTRS_eq:
  assumes "k \<le> 28" and "c_size r = 2 ^ k" and "p_mask r = 2 ^ k - 1" and "length (slots r) = 2 ^ k"
    and "unat n \<le> 2 ^ k"
  shows "DEQUEUE_PTRS ch n r = Inr (map (\<lambda>i. slots r ! ((unat ch + i) mod 2 ^ k)) [0..<unat n])"
proof -
  let ?N = "2 ^ k :: nat" and ?b = "unat ch mod 2 ^ k" and ?n = "unat n"
  have N: "0 < ?N" "?N \<le> 2 ^ 28" using pow_bound [OF assms(1)] by simp_all
  have b: "?b < ?N" using N(1) by simp
  have bi: "(unat ch + i) mod ?N = (if ?b + i < ?N then ?b + i else ?b + i - ?N)" if "i < ?N" for i
    using mod_wrap [OF b, of i] that b by (simp add: mod_simps)
  have idx: "unat (ch AND p_mask r) = ?b" using unat_masked [of _ k] assms(3) by simp
  have "(2 :: nat) ^ 28 + 2 ^ 28 < 2 ^ 32" by simp
  then have "?b + ?n < 2 ^ 32" using b N assms(5) by linarith
  then have sum: "unat ((ch AND p_mask r) + n) = ?b + ?n"
    using idx by (simp add: unat_word_ariths)
  have lt: "(ch AND p_mask r) + n < c_size r \<longleftrightarrow> ?b + ?n < ?N"
    using sum unat_pow [OF assms(1)] assms(2) by (simp add: word_less_nat_alt)
  have first: "read_run (slots r) ?b m = Inr (map (\<lambda>i. slots r ! (?b + i)) [0..<m])"
    if "?b + m \<le> ?N" for m
    using that assms(4) read_run_eq [of ?b m "slots r"]
    by (auto intro!: nth_equalityI)
  have rest: "read_run (slots r) 0 m = Inr (map (\<lambda>i. slots r ! i) [0..<m])" if "m \<le> ?N" for m
    using that assms(4) read_run_eq [of 0 m "slots r"]
    by (auto intro!: nth_equalityI)
  show ?thesis
  proof (cases "?b + ?n < ?N")
    case True
    have "map (\<lambda>i. slots r ! (?b + i)) [0..<?n] = map (\<lambda>i. slots r ! ((unat ch + i) mod 2 ^ k)) [0..<?n]"
      using True by (intro map_cong) (simp_all add: bi)
    with True lt idx first [of ?n] show ?thesis by (simp add: DEQUEUE_PTRS_def Let_def)
  next
    case False
    let ?m = "?N - ?b"
    have m: "?m \<le> ?n" "?b + ?m = ?N" "?n - ?m \<le> ?N" using False b assms(5) by linarith+
    have "[0..<?n] = [0..<?m] @ [?m..<?n]" using m(1) by (metis le0 le_add_diff_inverse upt_add_eq_append)
    also have "[?m..<?n] = map (\<lambda>i. i + ?m) [0..<?n - ?m]"
      using map_add_upt [of ?m "?n - ?m"] le_add_diff_inverse2 [OF m(1)] by simp
    finally have "[0..<?n] = [0..<?m] @ map (\<lambda>i. i + ?m) [0..<?n - ?m]" .
    then have "map (\<lambda>i. slots r ! ((unat ch + i) mod ?N)) [0..<?n]
        = map (\<lambda>i. slots r ! ((unat ch + i) mod ?N)) [0..<?m]
          @ map (\<lambda>i. slots r ! ((unat ch + (i + ?m)) mod ?N)) [0..<?n - ?m]"
      by (simp only: map_append map_map comp_def)
    also have "map (\<lambda>i. slots r ! ((unat ch + i) mod ?N)) [0..<?m] = map (\<lambda>i. slots r ! (?b + i)) [0..<?m]"
    proof (rule map_cong [OF refl])
      fix i assume "i \<in> set [0..<?m]"
      then have "?b + i < ?N" "i < ?N" using b by auto
      then show "slots r ! ((unat ch + i) mod ?N) = slots r ! (?b + i)" using bi [of i] by simp
    qed
    also have "map (\<lambda>i. slots r ! ((unat ch + (i + ?m)) mod ?N)) [0..<?n - ?m]
        = map (\<lambda>i. slots r ! i) [0..<?n - ?m]"
    proof (rule map_cong [OF refl])
      fix i assume "i \<in> set [0..<?n - ?m]"
      then have "i < ?n - ?m" by simp
      then have "i + ?m < ?N" "?b + (i + ?m) - ?N = i" "\<not> ?b + (i + ?m) < ?N"
        using b assms(5) m(2) by linarith+
      then show "slots r ! ((unat ch + (i + ?m)) mod ?N) = slots r ! i" using bi [of "i + ?m"] by simp
    qed
    finally have eq: "map (\<lambda>i. slots r ! ((unat ch + i) mod ?N)) [0..<?n]
        = map (\<lambda>i. slots r ! (?b + i)) [0..<?m] @ map (\<lambda>i. slots r ! i) [0..<?n - ?m]" .
    show ?thesis
      using False lt idx first [of ?m] rest [OF m(3)] m(2) unat_pow [OF assms(1)] assms(2) eq
      by (simp add: DEQUEUE_PTRS_def Let_def)
  qed
qed

text \<open>The free and used counts, computed modulo \<open>2\<^sup>3\<^sup>2\<close>, are those of the queue.\<close>

lemma ring_repE:
  assumes "ring_rep r q"
  obtains k where "k \<le> 28" "p_size r = 2 ^ k" "c_size r = 2 ^ k" "p_mask r = 2 ^ k - 1"
    "length (slots r) = 2 ^ k" "p_head r = p_tail r" "c_head r = c_tail r"
    "length q < 2 ^ k" "p_tail r = c_tail r + of_nat (length q)"
    "\<And>i. i < length q \<Longrightarrow> slots r ! ((unat (c_tail r) + i) mod 2 ^ k) = q ! i"
    "capacity r = 2 ^ k - 1" "unat (p_tail r - c_tail r) = length q"
    "unat (p_mask r + c_tail r - p_tail r) = capacity r - length q"
proof -
  from assms obtain k where k: "k \<le> 28" "p_size r = 2 ^ k" "c_size r = 2 ^ k" "p_mask r = 2 ^ k - 1"
    "length (slots r) = 2 ^ k" "p_head r = p_tail r" "c_head r = c_tail r"
    "length q < 2 ^ k" "p_tail r = c_tail r + of_nat (length q)"
    "\<forall>i < length q. slots r ! ((unat (c_tail r) + i) mod 2 ^ k) = q ! i"
    unfolding ring_rep_def by blast
  have cap: "capacity r = 2 ^ k - 1" using k unat_pow by (simp add: capacity_def)
  have "(2 :: nat) ^ 28 < 2 ^ 32" by simp
  then have small: "m < 2 ^ 32" if "m \<le> 2 ^ k" for m :: nat using that pow_bound [OF k(1)] by linarith
  have conv: "unat (of_nat m :: u32) = m" if "m \<le> 2 ^ k" for m
    using small [OF that] by (simp add: unat_of_nat)
  have used: "unat (p_tail r - c_tail r) = length q" using k(8,9) conv by simp
  have "p_mask r + c_tail r - p_tail r = (of_nat (2 ^ k - 1 - length q) :: u32)"
    using k(4,8,9) by (simp add: of_nat_diff)
  moreover have "unat (of_nat (2 ^ k - 1 - length q) :: u32) = 2 ^ k - 1 - length q"
    by (rule conv) simp
  ultimately have free: "unat (p_mask r + c_tail r - p_tail r) = capacity r - length q"
    using cap by simp
  show ?thesis
  proof (rule that)
    fix i assume "i < length q"
    with k(10) show "slots r ! ((unat (c_tail r) + i) mod 2 ^ k) = q ! i" by blast
  qed (fact k(1-9) cap used free)+
qed

section \<open>Enqueue and dequeue on the represented queue\<close>

definition same_ring :: "'a rte_ring \<Rightarrow> 'a rte_ring \<Rightarrow> bool" where
  "same_ring r r' \<longleftrightarrow> p_size r' = p_size r \<and> watermark r' = watermark r
     \<and> sp_enqueue r' = sp_enqueue r \<and> sc_dequeue r' = sc_dequeue r"

text \<open>With no other caller the multi-producer and multi-consumer variants do the same.\<close>

lemma mp_is_sp: "ring_rep r q \<Longrightarrow> n \<noteq> 0 \<Longrightarrow> mp_do_enqueue objs n b r = sp_do_enqueue objs n b r"
  by (auto elim!: ring_repE simp: mp_do_enqueue_def sp_do_enqueue_def Let_def split: sum.split)

lemma mc_is_sc: "ring_rep r q \<Longrightarrow> n \<noteq> 0 \<Longrightarrow> mc_do_dequeue n b r = sc_do_dequeue n b r"
  by (auto elim!: ring_repE simp: mc_do_dequeue_def sc_do_dequeue_def Let_def split: sum.split)

lemma quota_unat:
  "ring_quota b err n avail =
     (if unat n > unat avail then
        if b = RTE_RING_QUEUE_FIXED then Inl (- err)
        else if unat avail = 0 then Inl 0 else Inr avail
      else Inr n)"
  by (simp add: ring_quota_def word_less_nat_alt unat_eq_0)

lemma sp_do_enqueue_fits:
  assumes rep: "ring_rep r q" and n: "unat n = length objs" and fits: "length q + length objs \<le> capacity r"
  shows "\<exists>r'. sp_do_enqueue objs n b r = Inr (enqueue_code b (p_mask r + c_tail r - p_head r) n r, r')
    \<and> ring_rep r' (q @ objs) \<and> same_ring r r'"
proof -
  from rep obtain k where k: "k \<le> 28" "p_size r = 2 ^ k" "c_size r = 2 ^ k" "p_mask r = 2 ^ k - 1"
    "length (slots r) = 2 ^ k" "p_head r = p_tail r" "c_head r = c_tail r"
    "length q < 2 ^ k" "p_tail r = c_tail r + of_nat (length q)"
    and slot: "\<And>i. i < length q \<Longrightarrow> slots r ! ((unat (c_tail r) + i) mod 2 ^ k) = q ! i"
    and cap: "capacity r = 2 ^ k - 1" and "unat (p_tail r - c_tail r) = length q"
    and free: "unat (p_mask r + c_tail r - p_tail r) = capacity r - length q"
    by (rule ring_repE) (rule that)
  let ?r = "r\<lparr>p_head := p_head r + n\<rparr>"
  have len: "length q + length objs < 2 ^ k" using fits cap k(8) by linarith
  obtain sl where copy: "ENQUEUE_PTRS (p_head r) objs n ?r = Inr sl" and sl: "length sl = 2 ^ k"
    and new: "\<And>i. i < length objs \<Longrightarrow> sl ! ((unat (p_head r) + i) mod 2 ^ k) = objs ! i"
    and old: "\<And>i. length objs \<le> i \<Longrightarrow> i < 2 ^ k
      \<Longrightarrow> sl ! ((unat (p_head r) + i) mod 2 ^ k) = slots r ! ((unat (p_head r) + i) mod 2 ^ k)"
    using ENQUEUE_PTRS_eq [of k ?r n objs "p_head r"] k n len by auto
  let ?s = "?r\<lparr>slots := sl, p_tail := p_head r + n\<rparr>"
  have "ring_quota b ENOBUFS n (p_mask r + c_tail r - p_head r) = Inr n"
    using free fits n k(6) by (simp add: quota_unat)
  then have run: "sp_do_enqueue objs n b r
      = Inr (enqueue_code b (p_mask r + c_tail r - p_head r) n r, ?s)"
    using copy by (simp add: sp_do_enqueue_def Let_def enqueue_code_def)
  have ph: "unat (p_head r) mod 2 ^ k = (unat (c_tail r) + length q) mod 2 ^ k"
    using unat_plus_mod [OF k(1)] k(6,9) by simp
  have shift: "(unat (p_head r) + j) mod 2 ^ k = (unat (c_tail r) + (length q + j)) mod 2 ^ k" for j
  proof -
    have "(unat (p_head r) + j) mod 2 ^ k = (unat (p_head r) mod 2 ^ k + j) mod 2 ^ k"
      by (simp add: mod_simps)
    also have "\<dots> = (unat (c_tail r) + length q + j) mod 2 ^ k" unfolding ph by (simp add: mod_simps)
    finally show ?thesis by (simp add: add.assoc)
  qed
  have "sl ! ((unat (c_tail r) + i) mod 2 ^ k) = (q @ objs) ! i" if i: "i < length (q @ objs)" for i
  proof (cases "i < length q")
    case True
    let ?j = "2 ^ k - length q + i"
    have j: "length objs \<le> ?j" "?j < 2 ^ k" "length q + ?j = 2 ^ k + i" using True len by linarith+
    have "(unat (p_head r) + ?j) mod 2 ^ k = (unat (c_tail r) + i) mod 2 ^ k"
      unfolding shift j(3)
      using mod_add_self2 [of "unat (c_tail r) + i" "2 ^ k"] by (simp only: ac_simps)
    with old [OF j(1,2)] slot [OF True] True show ?thesis by (simp add: nth_append)
  next
    case False
    then have j: "i - length q < length objs" "length q + (i - length q) = i" using i by simp_all
    from new [OF j(1)] have "sl ! ((unat (c_tail r) + i) mod 2 ^ k) = objs ! (i - length q)"
      unfolding shift j(2) .
    with False show ?thesis by (simp add: nth_append)
  qed
  moreover have "n = of_nat (length objs)" unfolding n [symmetric] by simp
  then have "p_head r + n = c_tail r + of_nat (length (q @ objs))"
    using k(6,9) by (simp add: add.assoc)
  ultimately have "ring_rep ?s (q @ objs)" unfolding ring_rep_def using k sl len
    by (intro exI [of _ k]) simp
  with run show ?thesis by (auto simp: same_ring_def)
qed

lemma sp_do_enqueue_full:
  assumes "ring_rep r q" and "unat n > capacity r - length q"
  shows "sp_do_enqueue objs n RTE_RING_QUEUE_FIXED r = Inr (- ENOBUFS, r)"
  using assms by (auto elim!: ring_repE simp: sp_do_enqueue_def Let_def quota_unat)

lemma sc_do_dequeue_fits:
  assumes rep: "ring_rep r q" and n: "unat n \<le> length q"
  shows "\<exists>r'. sc_do_dequeue n RTE_RING_QUEUE_FIXED r = Inr (0, take (unat n) q, r')
    \<and> ring_rep r' (drop (unat n) q) \<and> same_ring r r'"
proof -
  from rep obtain k where k: "k \<le> 28" "p_size r = 2 ^ k" "c_size r = 2 ^ k" "p_mask r = 2 ^ k - 1"
    "length (slots r) = 2 ^ k" "p_head r = p_tail r" "c_head r = c_tail r"
    "length q < 2 ^ k" "p_tail r = c_tail r + of_nat (length q)"
    and slot: "\<And>i. i < length q \<Longrightarrow> slots r ! ((unat (c_tail r) + i) mod 2 ^ k) = q ! i"
    and "capacity r = 2 ^ k - 1" and used: "unat (p_tail r - c_tail r) = length q"
    and "unat (p_mask r + c_tail r - p_tail r) = capacity r - length q"
    by (rule ring_repE) (rule that)
  let ?r = "r\<lparr>c_head := c_head r + n\<rparr>" and ?n = "unat n"
  let ?s = "?r\<lparr>c_tail := c_head r + n\<rparr>"
  have "ring_quota RTE_RING_QUEUE_FIXED ENOENT n (p_tail r - c_head r) = Inr n"
    using used n k(7) by (simp add: quota_unat)
  moreover have "DEQUEUE_PTRS (c_head r) n ?r
      = Inr (map (\<lambda>i. slots r ! ((unat (c_head r) + i) mod 2 ^ k)) [0..<?n])"
    using DEQUEUE_PTRS_eq [of k ?r n "c_head r"] k n by simp
  moreover have "map (\<lambda>i. slots r ! ((unat (c_head r) + i) mod 2 ^ k)) [0..<?n] = take ?n q"
    using slot n k(7) by (auto intro!: nth_equalityI)
  ultimately have run: "sc_do_dequeue n RTE_RING_QUEUE_FIXED r = Inr (0, take ?n q, ?s)"
    by (simp add: sc_do_dequeue_def Let_def)
  have nn: "n = of_nat ?n" by simp
  have shift: "(unat (c_head r + n) + j) mod 2 ^ k = (unat (c_tail r) + (?n + j)) mod 2 ^ k" for j
  proof -
    have "(unat (c_head r + n) + j) mod 2 ^ k = (unat (c_tail r + of_nat ?n) mod 2 ^ k + j) mod 2 ^ k"
      using k(7) by (simp add: mod_simps)
    also have "\<dots> = (unat (c_tail r) + (?n + j)) mod 2 ^ k"
      unfolding unat_plus_mod [OF k(1)] by (simp add: mod_simps add.assoc)
    finally show ?thesis .
  qed
  have "slots r ! ((unat (c_head r + n) + i) mod 2 ^ k) = drop ?n q ! i" if "i < length (drop ?n q)" for i
    using slot [of "?n + i"] that n unfolding shift by simp
  moreover have "p_tail r = c_head r + n + of_nat (length (drop ?n q))"
  proof -
    have "of_nat (length q) = (of_nat (?n + length (drop ?n q)) :: u32)" using n by simp
    also have "\<dots> = n + of_nat (length (drop ?n q))" by (simp only: of_nat_add) simp
    finally show ?thesis using k(7,9) by (simp add: add.assoc)
  qed
  ultimately have "ring_rep ?s (drop ?n q)" unfolding ring_rep_def using k
    by (intro exI [of _ k]) simp
  with run show ?thesis by (auto simp: same_ring_def)
qed

lemma sc_do_dequeue_short:
  assumes "ring_rep r q" and "unat n > length q"
  shows "sc_do_dequeue n RTE_RING_QUEUE_FIXED r = Inr (- ENOENT, [], r)"
  using assms by (auto elim!: ring_repE simp: sc_do_dequeue_def Let_def quota_unat)

text \<open>
  The bulk functions on a ring whose watermark is off, the way \<open>rte_ring_init\<close> leaves it.
\<close>

definition ring_holds :: "'a rte_ring \<Rightarrow> 'a list \<Rightarrow> bool" where
  "ring_holds r q \<longleftrightarrow> ring_rep r q \<and> watermark r = p_size r"

lemma ring_holds_bound: "ring_holds r q \<Longrightarrow> length q \<le> capacity r"
  by (auto simp: ring_holds_def elim!: ring_repE)

lemma no_quota:
  assumes "ring_holds r q" and "unat n + length q \<le> capacity r"
  shows "enqueue_code RTE_RING_QUEUE_FIXED (p_mask r + c_tail r - p_head r) n r = 0"
proof -
  from assms(1) obtain k where k: "k \<le> 28" "p_size r = 2 ^ k" "p_mask r = 2 ^ k - 1"
    "p_head r = p_tail r" "length q < 2 ^ k" "p_tail r = c_tail r + of_nat (length q)"
    "capacity r = 2 ^ k - 1" "watermark r = 2 ^ k"
    by (auto simp: ring_holds_def elim!: ring_repE)
  have n: "n = of_nat (unat n)" by simp
  have "p_mask r + 1 - (p_mask r + c_tail r - p_head r) + n = of_nat (1 + length q + unat n)"
    using k(4,6) n by simp
  moreover have "unat (of_nat (1 + length q + unat n) :: u32) = 1 + length q + unat n"
  proof -
    have "(2 :: nat) ^ 28 < 2 ^ 32" by simp
    then have "1 + length q + unat n < 2 ^ 32" using assms(2) k(5,7) pow_bound [OF k(1)] by linarith
    then show ?thesis by (simp only: unat_of_nat mod_less) simp
  qed
  ultimately have u: "unat (p_mask r + 1 - (p_mask r + c_tail r - p_head r) + n) = 1 + length q + unat n"
    by (simp only:)
  have w: "unat (watermark r) = 2 ^ k" using unat_pow [OF k(1)] k(8) by simp
  have "\<not> p_mask r + 1 - (p_mask r + c_tail r - p_head r) + n > watermark r"
    unfolding word_less_nat_alt u w using assms(2) k(5,7) by linarith
  then show ?thesis by (simp only: enqueue_code_def if_False simp_thms if_True)
qed

lemma rte_ring_enqueue_bulk_eq:
  assumes "ring_holds r q" and "unat n = length objs" and "objs \<noteq> []"
  shows "if length q + length objs \<le> capacity r
    then \<exists>r'. rte_ring_enqueue_bulk objs n r = Inr (0, r') \<and> ring_holds r' (q @ objs)
      \<and> capacity r' = capacity r
    else rte_ring_enqueue_bulk objs n r = Inr (- ENOBUFS, r)"
proof -
  have rep: "ring_rep r q" using assms(1) by (simp add: ring_holds_def)
  have "n \<noteq> 0" using assms(2,3) by auto
  then have eq: "rte_ring_enqueue_bulk objs n r = sp_do_enqueue objs n RTE_RING_QUEUE_FIXED r"
    using mp_is_sp [OF rep] by (simp add: rte_ring_enqueue_bulk_def)
  show ?thesis
  proof (cases "length q + length objs \<le> capacity r")
    case True
    from sp_do_enqueue_fits [OF rep assms(2) True, of RTE_RING_QUEUE_FIXED]
      no_quota [OF assms(1), of n] True assms(1,2)
    show ?thesis by (auto simp: eq ring_holds_def same_ring_def capacity_def)
  next
    case False
    then have "capacity r - length q < unat n" using assms(2,3) by (cases objs) auto
    with sp_do_enqueue_full [OF rep] False show ?thesis by (simp add: eq)
  qed
qed

lemma rte_ring_dequeue_bulk_eq:
  assumes "ring_holds r q" and "0 < unat n"
  shows "if unat n \<le> length q
    then \<exists>r'. rte_ring_dequeue_bulk n r = Inr (0, take (unat n) q, r')
      \<and> ring_holds r' (drop (unat n) q) \<and> capacity r' = capacity r
    else rte_ring_dequeue_bulk n r = Inr (- ENOENT, [], r)"
proof -
  have rep: "ring_rep r q" using assms(1) by (simp add: ring_holds_def)
  have "n \<noteq> 0" using assms(2) by auto
  then have eq: "rte_ring_dequeue_bulk n r = sc_do_dequeue n RTE_RING_QUEUE_FIXED r"
    using mc_is_sc [OF rep] by (simp add: rte_ring_dequeue_bulk_def)
  show ?thesis
    using sc_do_dequeue_fits [OF rep, of n] sc_do_dequeue_short [OF rep, of n] assms(1)
    by (auto simp: eq ring_holds_def same_ring_def capacity_def)
qed

lemma ring_counts:
  assumes "ring_rep r q"
  shows "unat (rte_ring_count r) = length q" "unat (rte_ring_free_count r) = capacity r - length q"
proof -
  from assms obtain k where k: "k \<le> 28" "p_mask r = 2 ^ k - 1" "length q < 2 ^ k" "capacity r = 2 ^ k - 1"
    "unat (p_tail r - c_tail r) = length q" "unat (p_mask r + c_tail r - p_tail r) = capacity r - length q"
    by (rule ring_repE) (rule that)
  show "unat (rte_ring_count r) = length q"
    using k unat_masked [of _ k] by (simp add: rte_ring_count_def)
  let ?a = "p_mask r + c_tail r - p_tail r"
  have "c_tail r - p_tail r - 1 = ?a - 2 ^ k" using k(2) by simp
  moreover have "unat (?a - 2 ^ k) mod 2 ^ k = unat ?a mod 2 ^ k"
    using unat_plus_mod [OF k(1), of "?a - 2 ^ k" "2 ^ k"] by simp
  ultimately have "unat (rte_ring_free_count r) = unat ?a mod 2 ^ k"
    using unat_masked [of "?a - 2 ^ k" k] k(2) by (simp add: rte_ring_free_count_def)
  then show "unat (rte_ring_free_count r) = capacity r - length q" using k by simp
qed

section \<open>The interface the packet router uses\<close>

text \<open>
  The router takes single packets out of a ring.  \<open>take_each\<close> repeats the dequeue a fixed number
  of times and collects what it got (the flush at start-up); \<open>take_while\<close> stops at the first
  empty answer (the receive loop).
\<close>

fun take_each :: "('r \<Rightarrow> (int \<times> 'a list \<times> 'r) run) \<Rightarrow> nat \<Rightarrow> 'r \<Rightarrow> ('a list \<times> 'r) run" where
  "take_each deq 0 r = Inr ([], r)"
| "take_each deq (Suc n) r = bind_run (deq r) (\<lambda>(c, xs, r).
     bind_run (take_each deq n r) (\<lambda>(ys, r). Inr (if c = 0 then xs @ ys else ys, r)))"

fun take_while :: "('r \<Rightarrow> (int \<times> 'a list \<times> 'r) run) \<Rightarrow> nat \<Rightarrow> 'r \<Rightarrow> ('a list \<times> 'r) run" where
  "take_while deq 0 r = Inr ([], r)"
| "take_while deq (Suc n) r = bind_run (deq r) (\<lambda>(c, xs, r).
     if c \<noteq> 0 then Inr ([], r)
     else bind_run (take_while deq n r) (\<lambda>(ys, r). Inr (xs @ ys, r)))"

locale fifo_ring =
  fixes holds_q :: "'r \<Rightarrow> 'a list \<Rightarrow> bool"
    and room :: "'r \<Rightarrow> nat"
    and enq :: "'a \<Rightarrow> 'r \<Rightarrow> (int \<times> 'r) run"
    and deq :: "'r \<Rightarrow> (int \<times> 'a list \<times> 'r) run"
  assumes enq_ok: "holds_q r q \<Longrightarrow> length q < room r
      \<Longrightarrow> \<exists>r'. enq x r = Inr (0, r') \<and> holds_q r' (q @ [x]) \<and> room r' = room r"
    and enq_full: "holds_q r q \<Longrightarrow> length q = room r \<Longrightarrow> enq x r = Inr (- ENOBUFS, r)"
    and deq_ok: "holds_q r (x # q)
      \<Longrightarrow> \<exists>r'. deq r = Inr (0, [x], r') \<and> holds_q r' q \<and> room r' = room r"
    and deq_none: "holds_q r [] \<Longrightarrow> deq r = Inr (- ENOENT, [], r)"
begin

lemma take_each_eq:
  "holds_q r q \<Longrightarrow> \<exists>r'. take_each deq n r = Inr (take n q, r') \<and> holds_q r' (drop n q) \<and> room r' = room r"
proof (induction n arbitrary: r q)
  case 0
  then show ?case by simp
next
  case (Suc n)
  show ?case
  proof (cases q)
    case Nil
    with Suc.prems Suc.IH [of r "[]"] deq_none [of r] show ?thesis by (auto simp: ENOENT_def)
  next
    case (Cons x xs)
    with Suc.prems obtain r1 where "deq r = Inr (0, [x], r1)" "holds_q r1 xs" "room r1 = room r"
      using deq_ok by blast
    with Suc.IH [of r1 xs] Cons show ?thesis by auto
  qed
qed

lemma take_while_eq:
  "holds_q r q \<Longrightarrow> \<exists>r'. take_while deq n r = Inr (take n q, r') \<and> holds_q r' (drop n q) \<and> room r' = room r"
proof (induction n arbitrary: r q)
  case 0
  then show ?case by simp
next
  case (Suc n)
  show ?case
  proof (cases q)
    case Nil
    with Suc.prems deq_none [of r] show ?thesis by (auto simp: ENOENT_def)
  next
    case (Cons x xs)
    with Suc.prems obtain r1 where "deq r = Inr (0, [x], r1)" "holds_q r1 xs" "room r1 = room r"
      using deq_ok by blast
    with Suc.IH [of r1 xs] Cons show ?thesis by auto
  qed
qed

text \<open>A flush of at least as many objects as there are leaves the ring empty.\<close>

lemma flush_empties:
  assumes "holds_q r q" and "length q \<le> n"
  shows "\<exists>r'. take_each deq n r = Inr (q, r') \<and> holds_q r' []"
  using take_each_eq [OF assms(1), of n] assms(2) by auto

text \<open>What is enqueued comes out in the same order.\<close>

fun enq_all :: "'a list \<Rightarrow> 'r \<Rightarrow> 'r run" where
  "enq_all [] r = Inr r"
| "enq_all (x # xs) r = bind_run (enq x r) (\<lambda>(c, r). enq_all xs r)"

lemma enq_all_eq:
  "holds_q r q \<Longrightarrow> length q + length xs \<le> room r
     \<Longrightarrow> \<exists>r'. enq_all xs r = Inr r' \<and> holds_q r' (q @ xs) \<and> room r' = room r"
proof (induction xs arbitrary: r q)
  case Nil
  then show ?case by simp
next
  case (Cons x xs)
  then obtain r1 where "enq x r = Inr (0, r1)" "holds_q r1 (q @ [x])" "room r1 = room r"
    using enq_ok [of r q x] by auto
  with Cons.IH [of r1 "q @ [x]"] Cons.prems(2) show ?case by auto
qed

lemma fifo_order:
  assumes "holds_q r []" and "length xs \<le> room r"
  shows "\<exists>r1 r2. enq_all xs r = Inr r1 \<and> take_while deq (length xs) r1 = Inr (xs, r2) \<and> holds_q r2 []"
proof -
  from enq_all_eq [OF assms(1), of xs] assms(2) obtain r1 where
    "enq_all xs r = Inr r1" and h: "holds_q r1 xs" by auto
  with take_while_eq [OF h, of "length xs"] show ?thesis by auto
qed

end

interpretation rr: fifo_ring ring_holds capacity rte_ring_enqueue rte_ring_dequeue
proof unfold_locales
  fix r :: "'a rte_ring" and q x
  assume h: "ring_holds r q" and "length q < capacity r"
  with rte_ring_enqueue_bulk_eq [OF h, of 1 "[x]"]
  show "\<exists>r'. rte_ring_enqueue x r = Inr (0, r') \<and> ring_holds r' (q @ [x]) \<and> capacity r' = capacity r"
    by (simp add: rte_ring_enqueue_def)
next
  fix r :: "'a rte_ring" and q x
  assume h: "ring_holds r q" and "length q = capacity r"
  with rte_ring_enqueue_bulk_eq [OF h, of 1 "[x]"]
  show "rte_ring_enqueue x r = Inr (- ENOBUFS, r)" by (simp add: rte_ring_enqueue_def)
next
  fix r :: "'a rte_ring" and x q
  assume h: "ring_holds r (x # q)"
  show "\<exists>r'. rte_ring_dequeue r = Inr (0, [x], r') \<and> ring_holds r' q \<and> capacity r' = capacity r"
    using rte_ring_dequeue_bulk_eq [OF h, of 1] by (simp add: rte_ring_dequeue_def)
next
  fix r :: "'a rte_ring"
  assume h: "ring_holds r []"
  show "rte_ring_dequeue r = Inr (- ENOENT, [], r)"
    using rte_ring_dequeue_bulk_eq [OF h, of 1] by (simp add: rte_ring_dequeue_def)
qed

lemma rte_ring_init_holds:
  assumes "k \<le> 28" and "length name < RTE_MEMZONE_NAMESIZE" and "length cells = 2 ^ k"
  shows "\<exists>r. rte_ring_init name (2 ^ k) fl cells = (0, r) \<and> ring_holds r [] \<and> capacity r = 2 ^ k - 1
    \<and> (sp_enqueue r \<longleftrightarrow> fl AND 1 \<noteq> 0) \<and> (sc_dequeue r \<longleftrightarrow> fl AND 2 \<noteq> 0)"
  using assms unat_pow [OF assms(1)]
  by (auto simp: rte_ring_init_def ring_holds_def ring_rep_def capacity_def Let_def)

section \<open>Properties\<close>

text \<open>
  C16: On a ring that represents the queue \<open>q\<close>, whatever its indices have wrapped to, a bulk
  enqueue either appends all its objects and returns 0, when the capacity of \<open>size - 1\<close> allows,
  or changes nothing and returns -ENOBUFS; this holds for the single and the multi producer
  variant.
\<close>

theorem rte_ring_enqueue_bulk_refines:
  assumes "ring_holds r q" and "unat n = length objs" and "objs \<noteq> []"
  shows "if length q + length objs \<le> capacity r
    then \<exists>r'. rte_ring_enqueue_bulk objs n r = Inr (0, r') \<and> ring_holds r' (q @ objs)
      \<and> capacity r' = capacity r
    else rte_ring_enqueue_bulk objs n r = Inr (- ENOBUFS, r)"
  using assms by (rule rte_ring_enqueue_bulk_eq)

text \<open>The witness: the producer index wraps around \<open>2\<^sup>3\<^sup>2\<close> in a ring of four slots.\<close>

definition wrapping_ring :: "nat rte_ring" where
  "wrapping_ring = \<lparr>flags = 0, watermark = 4, sp_enqueue = False, p_size = 4, p_mask = 3,
     p_head = 0xffffffff, p_tail = 0xffffffff, sc_dequeue = True, c_size = 4, c_mask = 3,
     c_head = 0xfffffffe, c_tail = 0xfffffffe, slots = [0, 0, 7, 0]\<rparr>"

lemma wrapping_ring_holds: "ring_holds wrapping_ring [7]"
  unfolding ring_holds_def ring_rep_def
  by (intro conjI exI [of _ 2]) (simp_all add: wrapping_ring_def)

theorem rte_ring_enqueue_bulk_refines_witness:
  "\<exists>r'. rte_ring_enqueue_bulk [8, 9] 2 wrapping_ring = Inr (0, r') \<and> ring_holds r' [7, 8, 9]"
  using rte_ring_enqueue_bulk_refines [OF wrapping_ring_holds, of 2 "[8, 9]"]
  by (simp add: capacity_def wrapping_ring_def split: if_splits) auto

text \<open>
  C17: A bulk dequeue takes exactly the \<open>n\<close> oldest objects, in order, when there are as many, and
  otherwise takes nothing and returns -ENOENT.
\<close>

theorem rte_ring_dequeue_bulk_refines:
  assumes "ring_holds r q" and "0 < unat n"
  shows "if unat n \<le> length q
    then \<exists>r'. rte_ring_dequeue_bulk n r = Inr (0, take (unat n) q, r')
      \<and> ring_holds r' (drop (unat n) q) \<and> capacity r' = capacity r
    else rte_ring_dequeue_bulk n r = Inr (- ENOENT, [], r)"
  using assms by (rule rte_ring_dequeue_bulk_eq)

theorem rte_ring_dequeue_bulk_refines_witness:
  "\<exists>r'. rte_ring_dequeue_bulk 1 wrapping_ring = Inr (0, [7], r') \<and> ring_holds r' []"
  using rte_ring_dequeue_bulk_refines [OF wrapping_ring_holds, of 1] by auto

text \<open>
  A ring created with a power-of-two size hands out every packet sequence that fits its
  capacity in the order in which it was enqueued, one packet at a time, and is empty again
  afterwards.
\<close>

theorem ring_fifo_roundtrip:
  assumes "k \<le> 28" and "length name < RTE_MEMZONE_NAMESIZE" and "length cells = 2 ^ k"
    and "length xs < 2 ^ k"
  shows "\<exists>r r1 r2. rte_ring_init name (2 ^ k) fl cells = (0, r)
    \<and> fold (\<lambda>x m. bind_run m (\<lambda>r. bind_run (rte_ring_enqueue x r) (\<lambda>(c, r). Inr r))) xs (Inr r) = Inr r1
    \<and> take_while rte_ring_dequeue (length xs) r1 = Inr (xs, r2) \<and> rte_ring_empty r2"
proof -
  from rte_ring_init_holds [OF assms(1-3), of fl] obtain r where
    r: "rte_ring_init name (2 ^ k) fl cells = (0, r)" "ring_holds r []" "capacity r = 2 ^ k - 1" by blast
  have "length xs \<le> capacity r" using assms(4) r(3) by linarith
  from rr.fifo_order [OF r(2) this] obtain r1 r2 where
    e: "rr.enq_all xs r = Inr r1" and d: "take_while rte_ring_dequeue (length xs) r1 = Inr (xs, r2)"
    and h: "ring_holds r2 []" by blast
  have "rr.enq_all ys s = Inr t \<Longrightarrow>
      fold (\<lambda>x m. bind_run m (\<lambda>r. bind_run (rte_ring_enqueue x r) (\<lambda>(c, r). Inr r))) ys (Inr s) = Inr t"
    for ys :: "'a list" and s t
    by (induction ys arbitrary: s) (auto simp: bind_run_eq_Inr)
  with e r(1) d h show ?thesis
    by (auto simp: rte_ring_empty_def ring_holds_def elim!: ring_repE)
qed

theorem ring_fifo_roundtrip_witness:
  "\<exists>r r1 r2. rte_ring_init ''ring_1'' (2 ^ 2) 0 (replicate 4 (0::nat)) = (0, r)
    \<and> fold (\<lambda>x m. bind_run m (\<lambda>r. bind_run (rte_ring_enqueue x r) (\<lambda>(c, r). Inr r))) [5, 6] (Inr r) = Inr r1
    \<and> take_while rte_ring_dequeue (length [5, 6::nat]) r1 = Inr ([5, 6], r2) \<and> rte_ring_empty r2"
  by (rule ring_fifo_roundtrip) (simp_all add: RTE_MEMZONE_NAMESIZE_def)

text \<open>
  Between operations the two counts add up to the capacity, \<open>rte_ring_empty\<close> and
  \<open>rte_ring_full\<close> say exactly whether the queue is empty or at capacity, and no index ever makes
  the counts leave that range.
\<close>

theorem ring_observers_exact:
  assumes "ring_holds r q"
  shows "unat (rte_ring_count r) = length q
    \<and> unat (rte_ring_count r) + unat (rte_ring_free_count r) = capacity r
    \<and> (rte_ring_empty r \<longleftrightarrow> q = []) \<and> (rte_ring_full r \<longleftrightarrow> length q = capacity r)"
proof -
  have rep: "ring_rep r q" using assms by (simp add: ring_holds_def)
  note c = ring_counts [OF rep]
  have b: "length q \<le> capacity r" by (rule ring_holds_bound [OF assms])
  have "rte_ring_empty r \<longleftrightarrow> unat (p_tail r - c_tail r) = 0" by (auto simp: rte_ring_empty_def unat_eq_0)
  moreover have "unat (p_tail r - c_tail r) = length q" using rep by (auto elim!: ring_repE)
  moreover have "rte_ring_full r \<longleftrightarrow> unat (rte_ring_free_count r) = 0"
    by (simp add: rte_ring_full_def rte_ring_free_count_def unat_eq_0)
  ultimately show ?thesis using c b by auto
qed

theorem ring_observers_exact_witness:
  "unat (rte_ring_count wrapping_ring) = 1 \<and> \<not> rte_ring_empty wrapping_ring
    \<and> \<not> rte_ring_full wrapping_ring"
  using ring_observers_exact [OF wrapping_ring_holds] by (simp add: capacity_def wrapping_ring_def)

text \<open>
  The size check accepts 0 as a power of two.  The ring it lets through has no slot but a
  free count of \<open>2\<^sup>3\<^sup>2 - 1\<close>, so the first enqueue writes behind its memory.
\<close>

theorem ring_size_zero_overflows:
  assumes "length name < RTE_MEMZONE_NAMESIZE"
  shows "rte_ring_get_memsize 192 0 = 192
    \<and> rte_ring_enqueue x (snd (rte_ring_init name 0 fl [])) = Inl OutOfBounds"
  using assms
  by (simp add: rte_ring_get_memsize_def Let_def RTE_RING_SZ_MASK_def rte_ring_init_def rte_ring_enqueue_def
      rte_ring_enqueue_bulk_def sp_do_enqueue_def mp_do_enqueue_def ring_quota_def ENQUEUE_PTRS_def)


theorem ring_size_zero_overflows_witness:
  "rte_ring_enqueue (5 :: nat) (snd (rte_ring_init ''r'' 0 0 [])) = Inl OutOfBounds"
  using ring_size_zero_overflows [of "''r''" "5 :: nat" 0] by (simp add: RTE_MEMZONE_NAMESIZE_def)

end
