(* ===== verification/PktRouter.thy ===== *)
theory PktRouter imports DispAlloc RteRing Logger begin

text \<open>
  The packet router of the dispatcher, \<open>apps/dispatcher/pkt_router.c\<close>, and \<open>main.c\<close>: the start-up
  flush of the rings, the receive pass over the interfaces and the classification of frames.

  The state \<open>rt\<close> holds the shared rings, what each packet buffer contains from its data pointer
  to the end of the buffer (\<open>None\<close> when the data pointer is NULL), the buffers freed so far and
  the device state; \<open>rxb\<close> is \<open>rte_eth_rx_burst\<close>.  The host is little-endian, as DPDK's x86
  targets are.
\<close>

section \<open>Frames\<close>

definition load16 :: "u8 list \<Rightarrow> nat \<Rightarrow> u16 run" where
  "load16 bs i = bind_run (read_at bs i) (\<lambda>lo. bind_run (read_at bs (Suc i)) (\<lambda>hi.
     Inr (ucast lo OR push_bit 8 (ucast hi))))"

definition ntohs :: "u16 \<Rightarrow> u16" where
  "ntohs w = push_bit 8 w OR drop_bit 8 w"

definition ETH_PKT_QINQ1 :: u16 where "ETH_PKT_QINQ1 = 0x9100"
definition ETH_PKT_QINQ2 :: u16 where "ETH_PKT_QINQ2 = 0x9200"
definition ETH_PKT_QINQ3 :: u16 where "ETH_PKT_QINQ3 = 0x9300"
definition ETH_PKT_8021Q :: u16 where "ETH_PKT_8021Q = 0x8100"
definition ETH_PKT_IPV6 :: u16 where "ETH_PKT_IPV6 = 0x86DD"
definition ETH_PKT_IP :: u16 where "ETH_PKT_IP = 0x0800"

definition IS_QINQ :: "u16 \<Rightarrow> bool" where
  "IS_QINQ t \<longleftrightarrow> ETH_PKT_QINQ1 = t \<or> ETH_PKT_QINQ2 = t \<or> ETH_PKT_QINQ3 = t"

text \<open>
  The loop over stacked tags: \<open>p\<close> is the offset of a \<open>struct eth_vlan_hdr\<close>, whose second field
  \<open>tpid\<close> lies two bytes on.  It stops at the end of the buffer at the latest.
\<close>

function vlan_walk :: "u8 list \<Rightarrow> nat \<Rightarrow> nat run" where
  "vlan_walk bs p = (case load16 bs (p + 2) of
      Inl h \<Rightarrow> Inl h
    | Inr tpid \<Rightarrow> if p \<ge> length bs then Inl OutOfBounds
        else if ETH_PKT_8021Q = ntohs tpid \<or> IS_QINQ (ntohs tpid) then vlan_walk bs (p + 4)
        else Inr p)"
  by auto
termination
  by (relation "measure (\<lambda>(bs, p). length bs - p)") auto

declare vlan_walk.simps [simp del]

definition is_ip_frame :: "u8 list \<Rightarrow> u8 run" where
  "is_ip_frame bs =
     bind_run (load16 bs 12) (\<lambda>w.
     let ether_type = ntohs w in
     if ether_type = ETH_PKT_IP \<or> ether_type = ETH_PKT_IPV6 then Inr 1
     else if \<not> IS_QINQ ether_type \<and> ether_type \<noteq> ETH_PKT_8021Q then Inr 0
     else bind_run (vlan_walk bs 12) (\<lambda>p.
          bind_run (load16 bs (p + 2)) (\<lambda>ether_type.
          if ether_type = ETH_PKT_IP \<or> ether_type = ETH_PKT_IPV6 then Inr 1 else Inr 0)))"

section \<open>State\<close>

type_synonym mbuf = "addr option"

record 'd rt =
  rt_rings :: "addr \<Rightarrow> mbuf rte_ring"
  mdata :: "addr \<Rightarrow> u8 list option"
  freed :: "addr list"
  rt_dev :: 'd

definition MAX_PACKETS_BURST :: nat where
  "MAX_PACKETS_BURST = 16"

section \<open>Start-up: flushing the rings\<close>

definition free_mbuf :: "mbuf \<Rightarrow> 'd rt \<Rightarrow> 'd rt" where
  "free_mbuf m s = (case m of None \<Rightarrow> s | Some a \<Rightarrow> s\<lparr>freed := freed s @ [a]\<rparr>)"

text \<open>\<open>count\<close> dequeues; what comes out is freed unless it is NULL.\<close>

definition flush_ring :: "addr \<Rightarrow> 'd rt \<Rightarrow> 'd rt run" where
  "flush_ring a s =
     (let count = unat (rte_ring_count (rt_rings s a)) in
      bind_run (take_each rte_ring_dequeue count (rt_rings s a)) (\<lambda>(ms, r).
        Inr (fold free_mbuf ms (s\<lparr>rt_rings := (rt_rings s)(a := r)\<rparr>))))"

definition init_one_if :: "interface_t \<Rightarrow> nat \<Rightarrow> 'd rt \<Rightarrow> (int \<times> 'd rt) run" where
  "init_one_if it i s = bind_run (read_at (ifs it) i) (\<lambda>x.
     if ift_is_eth x \<noteq> 0 then Inr (0, s)
     else bind_run (deref (ift_ring x)) (\<lambda>a. bind_run (flush_ring a s) (\<lambda>s. Inr (0, s))))"

definition init_if :: "interface_t \<Rightarrow> 'd rt \<Rightarrow> (int \<times> 'd rt) run" where
  "init_if it s = run_each (init_one_if it) [0..<if_count it] s"

definition init_interfaces :: "dispatcher_ctx \<Rightarrow> 'd rt \<Rightarrow> (int \<times> 'd rt) run" where
  "init_interfaces c s =
     bind_run (init_if (rx_interfaces c) s) (\<lambda>(err, s).
     if err \<noteq> 0 then Inr (-1, s)
     else bind_run (init_if (tx_interfaces c) s) (\<lambda>(err, s).
     if err \<noteq> 0 then Inr (-1, s)
     else bind_run (init_if (app_interfaces c) s) (\<lambda>(err, s).
     if err \<noteq> 0 then Inr (-1, s) else Inr (0, s))))"

section \<open>The receive pass\<close>

text \<open>Both outcomes of the classification are still empty branches in the code.\<close>

fun process_packets :: "mbuf list \<Rightarrow> 'd rt \<Rightarrow> 'd rt run" where
  "process_packets [] s = Inr s"
| "process_packets (m # ms) s =
     bind_run (deref m) (\<lambda>a. bind_run (deref (mdata s a)) (\<lambda>bs.
     bind_run (is_ip_frame bs) (\<lambda>ip. process_packets ms s)))"

text \<open>
  \<open>memset(rx_pkts[0], 0, ...)\<close> goes through the first pointer of the array: it faults while that is
  NULL and clears the header of the packet it points to otherwise.
\<close>

definition clear_first :: "mbuf list \<Rightarrow> 'd rt \<Rightarrow> 'd rt run" where
  "clear_first rx_pkts s =
     bind_run (read_at rx_pkts 0) (\<lambda>m. bind_run (deref m) (\<lambda>a.
       Inr (s\<lparr>mdata := (mdata s)(a := None)\<rparr>)))"

definition put_all :: "'a list \<Rightarrow> 'a list \<Rightarrow> 'a list run" where
  "put_all xs ys = (if length ys \<le> length xs then Inr (ys @ drop (length ys) xs) else Inl OutOfBounds)"

definition receive_if ::
  "(u8 \<Rightarrow> u16 \<Rightarrow> nat \<Rightarrow> 'd \<Rightarrow> mbuf list \<times> 'd) \<Rightarrow> interface_t \<Rightarrow> nat \<Rightarrow> mbuf list \<times> 'd rt
     \<Rightarrow> (int \<times> mbuf list \<times> 'd rt) run" where
  "receive_if rxb it i ps = (case ps of (rx_pkts, s) \<Rightarrow>
     bind_run (clear_first rx_pkts s) (\<lambda>s.
     bind_run (read_at (ifs it) i) (\<lambda>x.
     bind_run
       (if ift_is_eth x \<noteq> 0 then
          (case rxb (word_of_int (ift_port_id x)) (word_of_int (ift_q_id x)) MAX_PACKETS_BURST (rt_dev s) of
             (ms, d) \<Rightarrow> Inr (ms, s\<lparr>rt_dev := d\<rparr>))
        else bind_run (deref (ift_ring x)) (\<lambda>a.
          bind_run (take_while rte_ring_dequeue MAX_PACKETS_BURST (rt_rings s a)) (\<lambda>(ms, r).
            Inr (ms, s\<lparr>rt_rings := (rt_rings s)(a := r)\<rparr>))))
       (\<lambda>(ms, s).
     bind_run (put_all rx_pkts ms) (\<lambda>rx_pkts.
     bind_run (process_packets (take (length ms) rx_pkts) s) (\<lambda>s.
       Inr (0, rx_pkts, s)))))))"

definition process_incoming_packets ::
  "(u8 \<Rightarrow> u16 \<Rightarrow> nat \<Rightarrow> 'd \<Rightarrow> mbuf list \<times> 'd) \<Rightarrow> dispatcher_ctx \<Rightarrow> 'd rt \<Rightarrow> (int \<times> 'd rt) run" where
  "process_incoming_packets rxb c s =
     bind_run (run_each (receive_if rxb (rx_interfaces c)) [0..<if_count (rx_interfaces c)]
         (replicate MAX_PACKETS_BURST None, s))
       (\<lambda>(r, rx_pkts, s). Inr (r, s))"

partial_function (option) router_loop ::
  "(u8 \<Rightarrow> u16 \<Rightarrow> nat \<Rightarrow> 'd \<Rightarrow> mbuf list \<times> 'd) \<Rightarrow> dispatcher_ctx \<Rightarrow> 'd rt \<Rightarrow> (int \<times> 'd rt) run option" where
  "router_loop rxb c s = (case process_incoming_packets rxb c s of
      Inl h \<Rightarrow> Some (Inl h)
    | Inr (err, s) \<Rightarrow> router_loop rxb c s)"

definition PKT_ROUTER_main_loop ::
  "(u8 \<Rightarrow> u16 \<Rightarrow> nat \<Rightarrow> 'd \<Rightarrow> mbuf list \<times> 'd) \<Rightarrow> dispatcher_ctx \<Rightarrow> 'd rt \<Rightarrow> (int \<times> 'd rt) run" where
  "PKT_ROUTER_main_loop rxb c s =
     bind_run (init_interfaces c s) (\<lambda>(err, s).
       if err \<noteq> 0 then Inr (-1, s) else run_of (router_loop rxb c s))"

fun disp_config_opt :: "(char \<times> string) list \<Rightarrow> string option \<Rightarrow> string option" where
  "disp_config_opt [] fn = fn"
| "disp_config_opt ((c, optarg) # os) fn = disp_config_opt os (if c = CHR ''f'' then Some optarg else fn)"

text \<open>\<open>main\<close>; the run-time state of the rings is the one in memory when the router starts.\<close>

definition disp_main ::
  "'d dpdk \<Rightarrow> (u8 \<Rightarrow> u16 \<Rightarrow> nat \<Rightarrow> 'd \<Rightarrow> mbuf list \<times> 'd) \<Rightarrow> 'j json_api \<Rightarrow> file_env
     \<Rightarrow> (string \<Rightarrow> bool) \<Rightarrow> (char \<times> string) list \<Rightarrow> disp_mem \<Rightarrow> logger \<Rightarrow> dispatcher_ctx \<Rightarrow> 'd rt \<Rightarrow> int run" where
  "disp_main dp rxb api env openable opts cm lg ctx s = (case disp_config_opt opts None of
      None \<Rightarrow> Inl (Exited 1)
    | Some filename \<Rightarrow>
        bind_run (LOG_init openable ''/var/log/'' lg) (\<lambda>(err, lg).
        if err \<noteq> 0 then Inr (-1)
        else bind_run (DISP_CONF_parse_file api env filename cm) (\<lambda>(err, cm).
        if err \<noteq> 0 then Inl (Exited (-1))
        else bind_run (DISP_create_ressources dp (Some cm) ctx (rt_dev s)) (\<lambda>(err, ctx, d).
        if err \<noteq> 0 then Inl (Exited (-1))
        else bind_run (PKT_ROUTER_main_loop rxb ctx (s\<lparr>rt_dev := d\<rparr>)) (\<lambda>(err, s).
        if err \<noteq> 0 then Inl (Exited (-1)) else Inr 0)))))"

section \<open>Lemmas: frames\<close>

text \<open>The 16-bit number that two bytes make in network order.\<close>

definition be16 :: "u8 \<Rightarrow> u8 \<Rightarrow> u16" where
  "be16 hi lo = push_bit 8 (ucast hi) OR ucast lo"

lemma ntohs_bytes: "ntohs (ucast lo OR push_bit 8 (ucast hi)) = be16 lo hi"
  by (rule bit_word_eqI) (auto simp: ntohs_def be16_def bit_simps dest: bit_imp_le_length)

lemma load16_in: "Suc i < length bs \<Longrightarrow> load16 bs i = Inr (be16 (bs ! Suc i) (bs ! i))"
  by (simp add: load16_def be16_def or.commute)

lemma ntohs_be16: "ntohs (be16 a b) = be16 b a"
  unfolding be16_def [of a b] by (subst or.commute) (rule ntohs_bytes)

definition vlan_type :: "u16 \<Rightarrow> bool" where
  "vlan_type t \<longleftrightarrow> t = ETH_PKT_8021Q \<or> IS_QINQ t"

definition ip_type :: "u16 \<Rightarrow> bool" where
  "ip_type t \<longleftrightarrow> t = ETH_PKT_IP \<or> t = ETH_PKT_IPV6"

lemma vlan_type_not_ip: "vlan_type t \<Longrightarrow> \<not> ip_type t"
  by (auto simp: vlan_type_def ip_type_def IS_QINQ_def ETH_PKT_8021Q_def ETH_PKT_QINQ1_def
      ETH_PKT_QINQ2_def ETH_PKT_QINQ3_def ETH_PKT_IP_def ETH_PKT_IPV6_def)

lemma is_ip_frame_untagged:
  assumes "14 \<le> length bs" and "\<not> vlan_type (be16 (bs ! 12) (bs ! 13))"
  shows "is_ip_frame bs = Inr (if ip_type (be16 (bs ! 12) (bs ! 13)) then 1 else 0)"
  using assms load16_in [of 12 bs]
  by (simp add: is_ip_frame_def ntohs_be16 vlan_type_def ip_type_def)

text \<open>The walk advances one word pair at a time until the second word is no tag type.\<close>

lemma vlan_walk_stop:
  assumes "p + 4 \<le> length bs" and "\<not> vlan_type (be16 (bs ! (p + 2)) (bs ! (p + 3)))"
  shows "vlan_walk bs p = Inr p"
proof -
  have "load16 bs (p + 2) = Inr (be16 (bs ! (p + 3)) (bs ! (p + 2)))"
    using load16_in [of "p + 2" bs] assms(1) by (simp add: eval_nat_numeral)
  with assms show ?thesis
    by (subst vlan_walk.simps) (auto simp: ntohs_be16 vlan_type_def)
qed

lemma vlan_walk_step:
  assumes "p + 4 \<le> length bs" and "vlan_type (be16 (bs ! (p + 2)) (bs ! (p + 3)))"
  shows "vlan_walk bs p = vlan_walk bs (p + 4)"
proof -
  have "load16 bs (p + 2) = Inr (be16 (bs ! (p + 3)) (bs ! (p + 2)))"
    using load16_in [of "p + 2" bs] assms(1) by (simp add: eval_nat_numeral)
  with assms show ?thesis
    by (subst vlan_walk.simps) (auto simp: ntohs_be16 vlan_type_def)
qed

lemma vlan_walk_skip:
  assumes "p + 4 * k + 4 \<le> length bs"
    and "\<forall>i < k. vlan_type (be16 (bs ! (p + 4 * i + 2)) (bs ! (p + 4 * i + 3)))"
    and "\<not> vlan_type (be16 (bs ! (p + 4 * k + 2)) (bs ! (p + 4 * k + 3)))"
  shows "vlan_walk bs p = Inr (p + 4 * k)"
  using assms
proof (induction k arbitrary: p)
  case 0
  then show ?case using vlan_walk_stop [of p bs] by simp
next
  case (Suc k)
  have "vlan_walk bs p = vlan_walk bs (p + 4)"
    by (rule vlan_walk_step) (use Suc.prems(1) Suc.prems(2) [rule_format, of 0] in simp_all)
  also have "\<dots> = Inr (p + 4 + 4 * k)"
  proof (rule Suc.IH)
    show "\<forall>i < k. vlan_type (be16 (bs ! (p + 4 + 4 * i + 2)) (bs ! (p + 4 + 4 * i + 3)))"
    proof (intro allI impI)
      fix i
      assume "i < k"
      then show "vlan_type (be16 (bs ! (p + 4 + 4 * i + 2)) (bs ! (p + 4 + 4 * i + 3)))"
        using Suc.prems(2) [rule_format, of "Suc i"] by (simp add: algebra_simps)
    qed
  qed (use Suc.prems(1,3) in \<open>simp_all add: ac_simps\<close>)
  finally show ?case by simp
qed

lemma is_ip_frame_tagged:
  assumes "16 + 4 * k \<le> length bs" and "vlan_type (be16 (bs ! 12) (bs ! 13))"
    and "\<forall>i < k. vlan_type (be16 (bs ! (14 + 4 * i)) (bs ! (15 + 4 * i)))"
    and "\<not> vlan_type (be16 (bs ! (14 + 4 * k)) (bs ! (15 + 4 * k)))"
  shows "is_ip_frame bs = Inr (if ip_type (be16 (bs ! (15 + 4 * k)) (bs ! (14 + 4 * k))) then 1 else 0)"
proof -
  have "load16 bs 12 = Inr (be16 (bs ! 13) (bs ! 12))"
    using load16_in [of 12 bs] assms(1) by simp
  moreover have "vlan_walk bs 12 = Inr (12 + 4 * k)"
    using vlan_walk_skip [of 12 k bs] assms by simp
  moreover have "load16 bs (12 + 4 * k + 2) = Inr (be16 (bs ! (15 + 4 * k)) (bs ! (14 + 4 * k)))"
    using load16_in [of "14 + 4 * k" bs] assms(1) by simp
  ultimately show ?thesis
    using assms(2) vlan_type_not_ip [OF assms(2)]
    by (auto simp: is_ip_frame_def ntohs_be16 vlan_type_def ip_type_def Let_def)
qed

section \<open>Lemmas: flush and router loop\<close>

definition kept_mbufs :: "mbuf list \<Rightarrow> addr list" where
  "kept_mbufs ms = map the (filter (\<lambda>m. m \<noteq> None) ms)"

lemma fold_free_mbuf: "fold free_mbuf ms s = s\<lparr>freed := freed s @ kept_mbufs ms\<rparr>"
  by (induction ms arbitrary: s) (auto simp: free_mbuf_def kept_mbufs_def)

text \<open>What flushing the rings \<open>as\<close> in order frees, and what is left in the rings.\<close>

fun drained :: "(addr \<Rightarrow> mbuf list) \<Rightarrow> addr list \<Rightarrow> addr list" where
  "drained q [] = []"
| "drained q (a # as) = kept_mbufs (q a) @ drained (q(a := [])) as"

definition emptied :: "(addr \<Rightarrow> mbuf list) \<Rightarrow> addr list \<Rightarrow> addr \<Rightarrow> mbuf list" where
  "emptied q as a = (if a \<in> set as then [] else q a)"

lemma emptied_none: "emptied q [] = q"
  by (simp add: emptied_def fun_eq_iff)

lemma drained_append: "drained q (as @ bs) = drained q as @ drained (emptied q as) bs"
proof (induction as arbitrary: q)
  case Nil
  show ?case by (simp add: emptied_none)
next
  case (Cons a as)
  have "emptied (q(a := [])) as = emptied q (a # as)" by (auto simp: emptied_def fun_eq_iff)
  moreover have "drained (q(a := [])) (as @ bs)
    = drained (q(a := [])) as @ drained (emptied (q(a := [])) as) bs" by (rule Cons.IH)
  ultimately show ?case by (simp del: fun_upd_apply)
qed

lemma emptied_append: "emptied (emptied q as) bs = emptied q (as @ bs)"
  by (auto simp: emptied_def fun_eq_iff)

text \<open>The rings in memory hold the queues \<open>q\<close>.\<close>

definition rings_hold :: "'d rt \<Rightarrow> (addr \<Rightarrow> mbuf list) \<Rightarrow> bool" where
  "rings_hold s q \<longleftrightarrow> (\<forall>a. ring_holds (rt_rings s a) (q a))"

text \<open>The flush from state \<open>s\<close> to \<open>s'\<close>.\<close>

definition flushed_to :: "(addr \<Rightarrow> mbuf list) \<Rightarrow> addr list \<Rightarrow> 'd rt \<Rightarrow> 'd rt \<Rightarrow> bool" where
  "flushed_to q as s s' \<longleftrightarrow> rings_hold s' (emptied q as) \<and> freed s' = freed s @ drained q as
     \<and> mdata s' = mdata s \<and> rt_dev s' = rt_dev s"

lemma flush_ring_ok:
  assumes "rings_hold s q"
  shows "\<exists>s'. flush_ring a s = Inr s' \<and> flushed_to q [a] s s'"
proof -
  have h: "ring_holds (rt_rings s a) (q a)" using assms by (simp add: rings_hold_def)
  have n: "length (q a) \<le> unat (rte_ring_count (rt_rings s a))" using ring_counts [of "rt_rings s a" "q a"] h
    by (simp add: ring_holds_def)
  from rr.flush_empties [OF h n] obtain r' where
    "take_each rte_ring_dequeue (unat (rte_ring_count (rt_rings s a))) (rt_rings s a) = Inr (q a, r')"
    and "ring_holds r' []" by blast
  with assms show ?thesis
    by (auto simp: flush_ring_def Let_def fold_free_mbuf flushed_to_def rings_hold_def emptied_def)
qed

lemma flushed_to_trans:
  assumes "flushed_to q as s s1" and "flushed_to (emptied q as) bs s1 s2"
  shows "flushed_to q (as @ bs) s s2"
  using assms by (auto simp: flushed_to_def emptied_append drained_append)

lemma flushed_to_none: "rings_hold s q \<Longrightarrow> flushed_to q [] s s"
  by (simp add: flushed_to_def emptied_none)

text \<open>The rings of an interface table in order, when every ring interface has one.\<close>

definition ring_addrs :: "if_t list \<Rightarrow> addr list" where
  "ring_addrs xs = map (\<lambda>x. the (ift_ring x)) (filter (\<lambda>x. ift_is_eth x = 0) xs)"

definition attached :: "interface_t \<Rightarrow> bool" where
  "attached it \<longleftrightarrow> if_array it \<and> (\<forall>x \<in> set (actives it). ift_is_eth x = 0 \<longrightarrow> ift_ring x \<noteq> None)"

lemma init_ifs_ok:
  assumes "k + length xs \<le> length (ifs it)" and "\<forall>i < length xs. ifs it ! (k + i) = xs ! i"
    and "\<forall>x \<in> set xs. ift_is_eth x = 0 \<longrightarrow> ift_ring x \<noteq> None" and "rings_hold s q"
  shows "\<exists>s'. run_each (init_one_if it) [k..<k + length xs] s = Inr (0, s')
    \<and> flushed_to q (ring_addrs xs) s s'"
  using assms
proof (induction xs arbitrary: k s q)
  case Nil
  then show ?case by (simp add: flushed_to_none ring_addrs_def)
next
  case (Cons x xs)
  have up: "[k..<k + length (x # xs)] = k # [Suc k..<Suc k + length xs]" by (subst upt_rec) simp
  have x: "ifs it ! k = x" using Cons.prems(2) by force
  have rest: "Suc k + length xs \<le> length (ifs it)" "\<forall>i < length xs. ifs it ! (Suc k + i) = xs ! i"
    "\<forall>x \<in> set xs. ift_is_eth x = 0 \<longrightarrow> ift_ring x \<noteq> None"
    using Cons.prems(1-3) by force+
  show ?case
  proof (cases "ift_is_eth x = 0")
    case True
    then obtain a where a: "ift_ring x = Some a" using Cons.prems(3) by auto
    from flush_ring_ok [OF Cons.prems(4), of a] obtain s1 where
      s1: "flush_ring a s = Inr s1" and f1: "flushed_to q [a] s s1" by blast
    then have h1: "rings_hold s1 (emptied q [a])" by (simp add: flushed_to_def)
    from Cons.IH [OF rest h1] obtain s2 where
      s2: "run_each (init_one_if it) [Suc k..<Suc k + length xs] s1 = Inr (0, s2)"
      and f2: "flushed_to (emptied q [a]) (ring_addrs xs) s1 s2" by blast
    have one: "init_one_if it k s = Inr (0, s1)"
      using True a s1 x Cons.prems(1) by (simp add: init_one_if_def)
    have "ring_addrs (x # xs) = [a] @ ring_addrs xs" using True a by (simp add: ring_addrs_def)
    then have "flushed_to q (ring_addrs (x # xs)) s s2" using flushed_to_trans [OF f1 f2] by simp
    with one s2 show ?thesis unfolding up by simp
  next
    case False
    then have "init_one_if it k s = Inr (0, s)" using x Cons.prems(1) by (simp add: init_one_if_def)
    moreover have "ring_addrs (x # xs) = ring_addrs xs" using False by (simp add: ring_addrs_def)
    ultimately show ?thesis using Cons.IH [OF rest Cons.prems(4)] unfolding up by simp
  qed
qed

lemma init_if_ok:
  assumes "attached it" and "rings_hold s q"
  shows "\<exists>s'. init_if it s = Inr (0, s') \<and> flushed_to q (ring_addrs (actives it)) s s'"
proof -
  have arr: "if_array it" and ok: "\<forall>x \<in> set (actives it). ift_is_eth x = 0 \<longrightarrow> ift_ring x \<noteq> None"
    using assms(1) by (simp_all add: attached_def)
  have len: "length (actives it) = if_count it" by (rule actives_length [OF arr])
  have "0 + length (actives it) \<le> length (ifs it)"
    "\<forall>i < length (actives it). ifs it ! (0 + i) = actives it ! i"
    using arr len by (simp_all add: actives_nth if_array_def)
  from init_ifs_ok [OF this ok assms(2)] len show ?thesis by (simp add: init_if_def)
qed

definition ctx_rings :: "dispatcher_ctx \<Rightarrow> addr list" where
  "ctx_rings c = ring_addrs (actives (rx_interfaces c)) @ ring_addrs (actives (tx_interfaces c))
     @ ring_addrs (actives (app_interfaces c))"

definition ctx_attached :: "dispatcher_ctx \<Rightarrow> bool" where
  "ctx_attached c \<longleftrightarrow> attached (rx_interfaces c) \<and> attached (tx_interfaces c) \<and> attached (app_interfaces c)"

lemma init_interfaces_ok:
  assumes "ctx_attached c" and "rings_hold s q"
  shows "\<exists>s'. init_interfaces c s = Inr (0, s') \<and> flushed_to q (ctx_rings c) s s'"
proof -
  have at: "attached (rx_interfaces c)" "attached (tx_interfaces c)" "attached (app_interfaces c)"
    using assms(1) by (simp_all add: ctx_attached_def)
  from init_if_ok [OF at(1) assms(2)] obtain s1 where s1: "init_if (rx_interfaces c) s = Inr (0, s1)"
    and f1: "flushed_to q (ring_addrs (actives (rx_interfaces c))) s s1" by blast
  then have h1: "rings_hold s1 (emptied q (ring_addrs (actives (rx_interfaces c))))"
    by (simp add: flushed_to_def)
  from init_if_ok [OF at(2) h1] obtain s2 where s2: "init_if (tx_interfaces c) s1 = Inr (0, s2)"
    and f2: "flushed_to (emptied q (ring_addrs (actives (rx_interfaces c))))
      (ring_addrs (actives (tx_interfaces c))) s1 s2" by blast
  note f12 = flushed_to_trans [OF f1 f2]
  then have h2: "rings_hold s2 (emptied q (ring_addrs (actives (rx_interfaces c))
      @ ring_addrs (actives (tx_interfaces c))))" by (simp add: flushed_to_def)
  from init_if_ok [OF at(3) h2] obtain s3 where s3: "init_if (app_interfaces c) s2 = Inr (0, s3)"
    and f3: "flushed_to (emptied q (ring_addrs (actives (rx_interfaces c))
      @ ring_addrs (actives (tx_interfaces c)))) (ring_addrs (actives (app_interfaces c))) s2 s3" by blast
  from flushed_to_trans [OF f12 f3] s1 s2 s3 show ?thesis by (simp add: init_interfaces_def ctx_rings_def)
qed

text \<open>The first pass over a receive interface faults; with none, nothing is done, for ever.\<close>

lemma process_incoming_faults:
  assumes "0 < if_count (rx_interfaces c)"
  shows "process_incoming_packets rxb c s = Inl NullDeref"
proof -
  have "[0..<if_count (rx_interfaces c)] = 0 # [1..<if_count (rx_interfaces c)]"
    using assms by (simp add: upt_conv_Cons)
  then show ?thesis
    by (simp add: process_incoming_packets_def receive_if_def clear_first_def MAX_PACKETS_BURST_def)
qed

lemma process_incoming_idle:
  "if_count (rx_interfaces c) = 0 \<Longrightarrow> process_incoming_packets rxb c s = Inr (0, s)"
  by (simp add: process_incoming_packets_def)

lemma router_loop_idles_aux:
  assumes "router_loop rxb c s = Some y"
  shows "if_count (rx_interfaces c) \<noteq> 0"
proof (rule router_loop.raw_induct [OF _ assms, of "\<lambda>rxb c s y. if_count (rx_interfaces c) \<noteq> 0"])
  fix loop and rxb :: "u8 \<Rightarrow> u16 \<Rightarrow> nat \<Rightarrow> 'd \<Rightarrow> mbuf list \<times> 'd" and c s y
  assume ih: "\<And>rxb c s y. loop rxb c s = Some y \<Longrightarrow> if_count (rx_interfaces c) \<noteq> 0"
    and run: "(case process_incoming_packets rxb c s of Inl h \<Rightarrow> Some (Inl h)
      | Inr (err, s) \<Rightarrow> loop rxb c s) = Some y"
  show "if_count (rx_interfaces c) \<noteq> 0"
  proof
    assume "if_count (rx_interfaces c) = 0"
    with run have "loop rxb c s = Some y" by (simp add: process_incoming_idle)
    from ih [OF this] \<open>if_count (rx_interfaces c) = 0\<close> show False by simp
  qed
qed

lemma router_loop_outcome:
  "router_loop rxb c s = (if if_count (rx_interfaces c) = 0 then None else Some (Inl NullDeref))"
proof (cases "if_count (rx_interfaces c) = 0")
  case True
  with router_loop_idles_aux [of rxb c s] show ?thesis by (cases "router_loop rxb c s") auto
next
  case False
  then show ?thesis by (subst router_loop.simps) (simp add: process_incoming_faults)
qed

section \<open>Properties\<close>

text \<open>
  C26: An untagged frame is recognised as IP exactly when the two bytes after the Ethernet
  addresses are, in network order, the type of IPv4 or IPv6; the router then looks at no other
  byte.
\<close>

theorem is_ip_frame_untagged_exact:
  assumes "14 \<le> length bs" and "\<not> vlan_type (be16 (bs ! 12) (bs ! 13))"
  shows "is_ip_frame bs = Inr (if ip_type (be16 (bs ! 12) (bs ! 13)) then 1 else 0)"
  by (rule is_ip_frame_untagged [OF assms])

theorem is_ip_frame_untagged_exact_witness:
  "is_ip_frame (replicate 12 0 @ [8, 0, 0x45]) = Inr 1
    \<and> is_ip_frame (replicate 12 0 @ [8, 6]) = Inr 0"
proof
  show "is_ip_frame (replicate 12 0 @ [8, 0, 0x45]) = Inr 1"
    using is_ip_frame_untagged_exact [of "replicate 12 0 @ [8, 0, 0x45]"]
    by (simp add: vlan_type_def ip_type_def be16_def IS_QINQ_def ETH_PKT_8021Q_def ETH_PKT_QINQ1_def
        ETH_PKT_QINQ2_def ETH_PKT_QINQ3_def ETH_PKT_IP_def ETH_PKT_IPV6_def nth_append)
  show "is_ip_frame (replicate 12 0 @ [8, 6]) = Inr 0"
    using is_ip_frame_untagged_exact [of "replicate 12 0 @ [8, 6]"]
    by (simp add: vlan_type_def ip_type_def be16_def IS_QINQ_def ETH_PKT_8021Q_def ETH_PKT_QINQ1_def
        ETH_PKT_QINQ2_def ETH_PKT_QINQ3_def ETH_PKT_IP_def ETH_PKT_IPV6_def nth_append)
qed

text \<open>
  On a tagged frame the walk over the tags ends, but it reads the words at offset 14, 18, ...:
  the tag control information where the tag types were meant.  With \<open>k\<close> of these looking like tag
  types, the verdict is whether word \<open>k\<close>, in the byte order of the host, is an IP type; the type
  of the encapsulated packet has no part in it.
\<close>

theorem is_ip_frame_tagged_reads_tci:
  assumes "16 + 4 * k \<le> length bs" and "vlan_type (be16 (bs ! 12) (bs ! 13))"
    and "\<forall>i < k. vlan_type (be16 (bs ! (14 + 4 * i)) (bs ! (15 + 4 * i)))"
    and "\<not> vlan_type (be16 (bs ! (14 + 4 * k)) (bs ! (15 + 4 * k)))"
  shows "is_ip_frame bs = Inr (if ip_type (be16 (bs ! (15 + 4 * k)) (bs ! (14 + 4 * k))) then 1 else 0)"
  by (rule is_ip_frame_tagged [OF assms])

text \<open>The witness: an IPv4 packet in VLAN 10 is not recognised, an ARP packet in VLAN 8 is.\<close>

theorem is_ip_frame_tagged_reads_tci_witness:
  "is_ip_frame (replicate 12 0 @ [0x81, 0, 0, 10, 8, 0, 0x45]) = Inr 0
    \<and> is_ip_frame (replicate 12 0 @ [0x81, 0, 0, 8, 8, 6]) = Inr 1"
proof
  show "is_ip_frame (replicate 12 0 @ [0x81, 0, 0, 10, 8, 0, 0x45]) = Inr 0"
    using is_ip_frame_tagged_reads_tci [of 0 "replicate 12 0 @ [0x81, 0, 0, 10, 8, 0, 0x45]"]
    by (simp add: vlan_type_def ip_type_def be16_def IS_QINQ_def ETH_PKT_8021Q_def ETH_PKT_QINQ1_def
        ETH_PKT_QINQ2_def ETH_PKT_QINQ3_def ETH_PKT_IP_def ETH_PKT_IPV6_def nth_append)
  show "is_ip_frame (replicate 12 0 @ [0x81, 0, 0, 8, 8, 6]) = Inr 1"
    using is_ip_frame_tagged_reads_tci [of 0 "replicate 12 0 @ [0x81, 0, 0, 8, 8, 6]"]
    by (simp add: vlan_type_def ip_type_def be16_def IS_QINQ_def ETH_PKT_8021Q_def ETH_PKT_QINQ1_def
        ETH_PKT_QINQ2_def ETH_PKT_QINQ3_def ETH_PKT_IP_def ETH_PKT_IPV6_def nth_append)
qed

text \<open>
  When every ring interface of the context has its ring, the start-up flush succeeds, leaves
  each of these rings empty and every other ring as it was, and frees each packet that was in them
  exactly once, in the order of the interfaces and of each queue, also when a ring is attached
  to several interfaces.
\<close>

theorem init_interfaces_flushes:
  assumes "ctx_attached c" and "rings_hold s q"
  shows "\<exists>s'. init_interfaces c s = Inr (0, s') \<and> rings_hold s' (emptied q (ctx_rings c))
    \<and> freed s' = freed s @ drained q (ctx_rings c) \<and> mdata s' = mdata s"
  using init_interfaces_ok [OF assms] by (auto simp: flushed_to_def)

text \<open>Two receive interfaces and one transmit interface; ring 1 is attached twice.\<close>

definition sample_if :: "int \<Rightarrow> addr option \<Rightarrow> if_t" where
  "sample_if eth r = zero_ift\<lparr>ift_is_eth := eth, ift_ring := r\<rparr>"

definition sample_ctx :: dispatcher_ctx where
  "sample_ctx = zero_ctx\<lparr>
     rx_interfaces := \<lparr>ifs = sample_if 1 None # sample_if 0 (Some 1) # replicate 6 zero_ift, if_count = 2\<rparr>,
     tx_interfaces := \<lparr>ifs = sample_if 0 (Some 1) # replicate 7 zero_ift, if_count = 1\<rparr>\<rparr>"

definition sample_ring :: "mbuf list \<Rightarrow> mbuf rte_ring" where
  "sample_ring xs = \<lparr>flags = 0, watermark = 4, sp_enqueue = False, p_size = 4, p_mask = 3,
     p_head = of_nat (length xs), p_tail = of_nat (length xs), sc_dequeue = False, c_size = 4, c_mask = 3,
     c_head = 0, c_tail = 0, slots = xs @ replicate (4 - length xs) None\<rparr>"

definition sample_queues :: "addr \<Rightarrow> mbuf list" where
  "sample_queues a = (if a = 1 then [Some 7, None, Some 8] else [Some 9])"

definition sample_rt :: "unit rt" where
  "sample_rt = \<lparr>rt_rings = (\<lambda>a. sample_ring (sample_queues a)), mdata = (\<lambda>a. Some []), freed = [],
     rt_dev = ()\<rparr>"

lemma all_less_3: "(\<forall>i < Suc (Suc (Suc 0)). P i) \<longleftrightarrow> P 0 \<and> P 1 \<and> P 2"
  by (auto simp: less_Suc_eq numeral_2_eq_2)

lemma sample_rings: "rings_hold sample_rt sample_queues"
proof -
  have "ring_holds (sample_ring [Some 7, None, Some 8]) [Some 7, None, Some 8]"
    "ring_holds (sample_ring [Some 9]) [Some 9]"
    unfolding ring_holds_def ring_rep_def
    by (intro conjI exI [of _ 2]; simp add: sample_ring_def all_less_3)+
  then show ?thesis by (simp add: rings_hold_def sample_rt_def sample_queues_def)
qed

lemma padded_array: "length xs + n = 8 \<Longrightarrow> if_array \<lparr>ifs = xs @ replicate n zero_ift, if_count = length xs\<rparr>"
  by (auto simp: if_array_def nth_append)

lemma sample_attached: "ctx_attached sample_ctx"
proof -
  have "if_array (rx_interfaces sample_ctx)" "if_array (tx_interfaces sample_ctx)"
    using padded_array [of "[sample_if 1 None, sample_if 0 (Some 1)]" 6]
      padded_array [of "[sample_if 0 (Some 1)]" 7]
    by (simp_all add: sample_ctx_def numeral_2_eq_2)
  moreover have "attached (app_interfaces sample_ctx)"
    by (simp add: sample_ctx_def zero_ctx_def attached_def zero_interface_array)
  ultimately show ?thesis
    by (simp add: ctx_attached_def attached_def)
      (simp add: sample_ctx_def actives_def sample_if_def)
qed

theorem init_interfaces_flushes_witness:
  "\<exists>s'. init_interfaces sample_ctx sample_rt = Inr (0, s') \<and> freed s' = [7, 8]
    \<and> ring_holds (rt_rings s' 1) [] \<and> ring_holds (rt_rings s' 2) [Some 9]"
proof -
  have r: "ctx_rings sample_ctx = [1, 1]"
    by (simp add: ctx_rings_def ring_addrs_def sample_ctx_def actives_def sample_if_def
        zero_ctx_def zero_interface_def)
  have "drained sample_queues [1, 1] = [7, 8]" by (simp add: kept_mbufs_def sample_queues_def)
  moreover have "emptied sample_queues [1, 1] 1 = []" "emptied sample_queues [1, 1] 2 = [Some 9]"
    by (simp_all add: emptied_def sample_queues_def)
  moreover have "freed sample_rt = []" by (simp add: sample_rt_def)
  ultimately show ?thesis
    using init_interfaces_flushes [OF sample_attached sample_rings] unfolding r rings_hold_def
    by (metis append_Nil)
qed

text \<open>
  After the flush the router never processes a packet: with at least one receive interface
  its first pass dereferences the NULL pointer \<open>rx_pkts[0]\<close>, and with none it idles for ever;
  in no case does the main loop return.
\<close>

theorem router_never_forwards:
  assumes "ctx_attached c" and "rings_hold s q"
  shows "PKT_ROUTER_main_loop rxb c s
    = (if 0 < if_count (rx_interfaces c) then Inl NullDeref else Inl Diverges)"
  using init_interfaces_ok [OF assms] by (auto simp: PKT_ROUTER_main_loop_def router_loop_outcome)

theorem router_never_forwards_witness:
  "PKT_ROUTER_main_loop (\<lambda>p q n d. ([Some 3], d)) sample_ctx sample_rt = Inl NullDeref
    \<and> PKT_ROUTER_main_loop (\<lambda>p q n d. ([], d)) zero_ctx sample_rt = Inl Diverges"
proof -
  have z: "ctx_attached zero_ctx"
    by (simp add: ctx_attached_def attached_def zero_ctx_def zero_interface_array)
  show ?thesis
    using router_never_forwards [OF sample_attached sample_rings, of "\<lambda>p q n d. ([Some 3], d)"]
      router_never_forwards [OF z sample_rings, of "\<lambda>p q n d. ([], d)"]
    by (simp add: sample_ctx_def zero_ctx_def zero_interface_def)
qed

end
