(* ===== verification/CStrings.thy ===== *)
theory CStrings imports Prelude begin

text \<open>
  The functions of the C library on text that the rules parser calls: character classes, the
  searches \<open>strspn\<close> and \<open>strcspn\<close>, \<open>strtok\<close>, comparison without case, number conversion, and reading
  lines with \<open>fgets\<close>.  A string is the list of its characters before the NUL.
\<close>

section \<open>Characters\<close>

definition NUL :: char where "NUL = CHR 0x00"
definition TAB :: char where "TAB = CHR 0x09"
definition LF :: char where "LF = CHR 0x0A"

definition isspace :: "char \<Rightarrow> bool" where
  "isspace c \<longleftrightarrow> c \<in> {CHR '' '', CHR 0x09, CHR 0x0A, CHR 0x0B, CHR 0x0C, CHR 0x0D}"

definition isupper :: "char \<Rightarrow> bool" where
  "isupper c \<longleftrightarrow> CHR ''A'' \<le> c \<and> c \<le> CHR ''Z''"

definition isalpha :: "char \<Rightarrow> bool" where
  "isalpha c \<longleftrightarrow> isupper c \<or> CHR ''a'' \<le> c \<and> c \<le> CHR ''z''"

definition isdigit :: "char \<Rightarrow> bool" where
  "isdigit c \<longleftrightarrow> CHR ''0'' \<le> c \<and> c \<le> CHR ''9''"

definition tolower :: "char \<Rightarrow> char" where
  "tolower c = (if isupper c then char_of ((of_char c :: nat) + 32) else c)"

definition strcaseeq :: "string \<Rightarrow> string \<Rightarrow> bool" where
  "strcaseeq a b \<longleftrightarrow> map tolower a = map tolower b"

section \<open>Searching\<close>

text \<open>What \<open>s + strspn(s, cs)\<close> and \<open>s + strcspn(s, cs)\<close> point to.\<close>

definition skip_span :: "string \<Rightarrow> string \<Rightarrow> string" where
  "skip_span cs s = dropWhile (\<lambda>c. c \<in> set cs) s"

definition skip_cspan :: "string \<Rightarrow> string \<Rightarrow> string" where
  "skip_cspan cs s = dropWhile (\<lambda>c. c \<notin> set cs) s"

text \<open>The characters that \<open>strcspn\<close> counts: what stays when a NUL is written at its end.\<close>

definition cspan :: "string \<Rightarrow> string \<Rightarrow> string" where
  "cspan cs s = takeWhile (\<lambda>c. c \<notin> set cs) s"

text \<open>Cutting at the first occurrence of a character, if there is one.\<close>

definition cut_at :: "char \<Rightarrow> string \<Rightarrow> string" where
  "cut_at c s = takeWhile (\<lambda>d. d \<noteq> c) s"

text \<open>What follows the first occurrence.\<close>

definition after_char :: "char \<Rightarrow> string \<Rightarrow> string option" where
  "after_char c s = (if c \<in> set s then Some (tl (dropWhile (\<lambda>d. d \<noteq> c) s)) else None)"

definition trim_end :: "string \<Rightarrow> string" where
  "trim_end s = rev (dropWhile isspace (rev s))"

text \<open>
  A call of \<open>strtok\<close> on the text \<open>s\<close> (the argument, or what the last call has left): the token, if
  any, and the text that is left.
\<close>

definition strtok :: "string \<Rightarrow> string \<Rightarrow> string option \<times> string" where
  "strtok ds s = (let t = skip_span ds s in
     if t = [] then (None, []) else (Some (cspan ds t), drop 1 (skip_cspan ds t)))"

section \<open>Numbers\<close>

fun digits_in :: "nat \<Rightarrow> string \<Rightarrow> nat list" where
  "digits_in b [] = []"
| "digits_in b (c # cs) =
     (let d = (if isdigit c then of_char c - 48
               else if isalpha c then of_char (tolower c) - 87 else 36 :: nat)
      in if d < b then d # digits_in b cs else [])"

definition number_in :: "nat \<Rightarrow> string \<Rightarrow> nat" where
  "number_in b s = foldl (\<lambda>v d. b * v + d) 0 (digits_in b s)"

text \<open>The sign and what follows it, after leading white space.\<close>

definition signed_text :: "string \<Rightarrow> bool \<times> string" where
  "signed_text s = (case dropWhile isspace s of
      CHR ''-'' # t \<Rightarrow> (True, t)
    | CHR ''+'' # t \<Rightarrow> (False, t)
    | t \<Rightarrow> (False, t))"

text \<open>\<open>atoi\<close> is \<open>(int) strtol(s, NULL, 10)\<close>: saturation at 64 bits, then truncation to 32.\<close>

definition atoi :: "string \<Rightarrow> int" where
  "atoi s = (let (neg, t) = signed_text s; v = int (number_in 10 t);
       l = (if neg then max (- (2 ^ 63)) (- v) else min (2 ^ 63 - 1) v)
     in sint (word_of_int l :: u32))"

text \<open>\<open>strtoul(s, NULL, 0)\<close>: base 16 after \<open>0x\<close>, base 8 after \<open>0\<close>, base 10 otherwise.\<close>

definition base_of :: "string \<Rightarrow> nat \<times> string" where
  "base_of t = (case t of
      CHR ''0'' # x # h # u \<Rightarrow>
        if tolower x = CHR ''x'' \<and> digits_in 16 [h] \<noteq> [] then (16, h # u) else (8, t)
    | CHR ''0'' # u \<Rightarrow> (8, t)
    | _ \<Rightarrow> (10, t))"

definition strtoul0 :: "string \<Rightarrow> u64" where
  "strtoul0 s = (let (neg, t) = signed_text s; (b, u) = base_of t; v = number_in b u
     in if v \<ge> 2 ^ 64 then - 1 else if neg then - of_nat v else of_nat v)"

section \<open>Lines\<close>

text \<open>\<open>fgets(buffer, n, file)\<close>: the characters read and the rest of the file.\<close>

fun fgets :: "nat \<Rightarrow> string \<Rightarrow> string \<times> string" where
  "fgets n [] = ([], [])"
| "fgets 0 (c # cs) = ([], c # cs)"
| "fgets (Suc 0) (c # cs) = ([], c # cs)"
| "fgets (Suc (Suc n)) (c # cs) =
     (if c = LF then ([c], cs) else (let (a, b) = fgets (Suc n) cs in (c # a, b)))"

lemma fgets_rest: "2 \<le> n \<Longrightarrow> s \<noteq> [] \<Longrightarrow> length (snd (fgets n s)) < length s"
proof (induction n s rule: fgets.induct)
  case (4 n c cs)
  then show ?case by (cases cs; cases n) (auto simp: split_beta)
qed auto

text \<open>All lines of a file, read with a buffer of 256 bytes.\<close>

function file_lines :: "string \<Rightarrow> string list" where
  "file_lines s = (if s = [] then [] else fst (fgets 256 s) # file_lines (snd (fgets 256 s)))"
  by auto
termination
  by (relation "measure length") (simp_all add: fgets_rest)

declare file_lines.simps [simp del]

section \<open>Lemmas\<close>

lemma strtok_token:
  assumes "w \<noteq> []" and "set w \<inter> set ds = {}" and "s = [] \<or> hd s \<in> set ds"
  shows "strtok ds (w @ s) = (Some w, drop 1 s)"
proof -
  have "hd w \<notin> set ds" using assms(1,2) by (cases w) auto
  then have "skip_span ds (w @ s) = w @ s" using assms(1) by (cases w) (auto simp: skip_span_def)
  moreover have "\<forall>c \<in> set w. c \<notin> set ds" using assms(2) by auto
  then have "takeWhile (\<lambda>c. c \<notin> set ds) (w @ s) = w" "dropWhile (\<lambda>c. c \<notin> set ds) (w @ s) = s"
    using assms(3) by (cases s; simp)+
  ultimately show ?thesis using assms(1) by (simp add: strtok_def Let_def cspan_def skip_cspan_def)
qed

lemma strtok_skip: "d \<in> set ds \<Longrightarrow> strtok ds (d # s) = strtok ds s"
  by (simp add: strtok_def skip_span_def)

lemma strtok_Nil [simp]: "strtok ds [] = (None, [])"
  by (simp add: strtok_def skip_span_def)

lemma fgets_line:
  assumes "LF \<notin> set l" and "length l + 1 < n"
  shows "fgets n (l @ LF # s) = (l @ [LF], s)"
  using assms
proof (induction l arbitrary: n)
  case Nil
  then obtain k where "n = Suc (Suc k)" by (cases n; cases "n - 1") auto
  then show ?case by simp
next
  case (Cons c l)
  then obtain k where n: "n = Suc (Suc k)" by (cases n; cases "n - 1") auto
  with Cons show ?case by auto
qed

text \<open>Lines that fit into the buffer are read one by one.\<close>

lemma file_lines_print:
  assumes "\<forall>l \<in> set ls. LF \<notin> set l \<and> length l < 255"
  shows "file_lines (concat (map (\<lambda>l. l @ [LF]) ls)) = map (\<lambda>l. l @ [LF]) ls"
  using assms
proof (induction ls)
  case (Cons l ls)
  then have "fgets 256 (l @ LF # concat (map (\<lambda>l. l @ [LF]) ls)) = (l @ [LF], concat (map (\<lambda>l. l @ [LF]) ls))"
    by (intro fgets_line) auto
  with Cons show ?case by (subst file_lines.simps) simp
qed (simp add: file_lines.simps)

section \<open>Printed numbers\<close>

lemma decimal_chars: "\<forall>d \<in> set [0..<10]. digit_char d \<in> set ''0123456789''"
  by code_simp

lemma decimal_digit: "\<forall>c \<in> set ''0123456789''. isdigit c \<and> \<not> isspace c \<and> \<not> isalpha c \<and> of_char c - 48 = char_digit c \<and> char_digit c < 10"
  by code_simp

lemma base_digits_chars: "set (base_digits 10 n) \<subseteq> set ''0123456789''"
proof (induction "10 :: nat" n rule: base_digits.induct)
  case (1 n)
  have d: "digit_char (n mod 10) \<in> set ''0123456789''"
    using decimal_chars by (metis atLeastLessThan_iff le0 mod_less_divisor set_upt zero_less_numeral)
  show ?case
  proof (cases "n < 10")
    case True
    with d show ?thesis by (simp add: base_digits.simps [of 10 n])
  next
    case False
    with 1 d show ?thesis by (simp add: base_digits.simps [of 10 n])
  qed
qed

lemma base_digits_nonempty [simp]: "base_digits b n \<noteq> []"
  by (simp add: base_digits.simps [of b n])

lemma digits_in_decimal: "set s \<subseteq> set ''0123456789'' \<Longrightarrow> digits_in 10 s = map char_digit s"
proof (induction s)
  case (Cons c s)
  then have c: "c \<in> set ''0123456789''" by simp
  note decimal_digit [THEN bspec, OF c]
  with Cons show ?case by (simp add: Let_def)
qed simp

lemma foldl_digits: "foldl (\<lambda>v d. b * v + d) a (map char_digit s) = digits_value b a s"
  by (induction s arbitrary: a) auto

lemma number_in_decimal: "number_in 10 (base_digits 10 n) = n"
  unfolding number_in_def digits_in_decimal [OF base_digits_chars] foldl_digits
  by (rule base_digits_roundtrip) simp_all

lemma decimal_head:
  assumes "set s \<subseteq> set ''0123456789''" and "s \<noteq> []"
  shows "dropWhile isspace s = s" "hd s \<noteq> CHR ''-''" "hd s \<noteq> CHR ''+''"
proof -
  have h: "hd s \<in> set ''0123456789''" using assms hd_in_set by blast
  then have "\<not> isspace (hd s)" using decimal_digit by blast
  then show "dropWhile isspace s = s" using assms(2) by (cases s) auto
  show "hd s \<noteq> CHR ''-''" "hd s \<noteq> CHR ''+''" using h by auto
qed

lemma signed_text_decimal:
  assumes "set s \<subseteq> set ''0123456789''" and "s \<noteq> []"
  shows "signed_text s = (False, s)" "signed_text (CHR ''-'' # s) = (True, s)"
proof -
  from decimal_head [OF assms] assms(2) show "signed_text s = (False, s)"
    unfolding signed_text_def by (cases s) (auto split: list.splits char.splits bool.splits)
  have "\<not> isspace CHR ''-''" by code_simp
  then show "signed_text (CHR ''-'' # s) = (True, s)" by (simp add: signed_text_def)
qed

lemma signed_text_int: "signed_text (int_str i) = (i < 0, base_digits 10 (nat \<bar>i\<bar>))"
  using signed_text_decimal [OF base_digits_chars base_digits_nonempty] by (simp add: int_str_def abs_if)

lemma atoi_int_str:
  assumes "- (2 ^ 31) \<le> i" and "i < 2 ^ 31"
  shows "atoi (int_str i) = i"
proof -
  have "sint (word_of_int i :: u32) = i"
    unfolding sint_sbintrunc' using signed_take_bit_int_eq_self [of 31 i] assms by simp
  moreover have "max (- 9223372036854775808) i = i" "min 9223372036854775807 i = i" using assms by simp_all
  ultimately show ?thesis by (simp add: atoi_def signed_text_int number_in_decimal Let_def)
qed

lemma base_digits_head: "0 < n \<Longrightarrow> hd (base_digits 10 n) \<noteq> CHR ''0''"
proof (induction "10 :: nat" n rule: base_digits.induct)
  case (1 n)
  show ?case
  proof (cases "n < 10")
    case True
    have "\<forall>d \<in> set [1..<10]. digit_char d \<noteq> CHR ''0''" by code_simp
    with True 1(2) show ?thesis by (simp add: base_digits.simps [of 10 n])
  next
    case False
    with 1 show ?thesis by (simp add: base_digits.simps [of 10 n])
  qed
qed

lemma base_of_decimal: "base_of (base_digits 10 n) = (if n = 0 then (8, ''0'') else (10, base_digits 10 n))"
proof (cases "n = 0")
  case True
  have "base_digits 10 0 = ''0''" by (simp add: base_digits.simps digit_char_def)
  with True show ?thesis by (simp add: base_of_def)
next
  case False
  then have "hd (base_digits 10 n) \<noteq> CHR ''0''" by (intro base_digits_head) simp
  then show ?thesis using False base_digits_nonempty [of 10 n] unfolding base_of_def
    by (cases "base_digits 10 n") (auto split: list.splits char.splits bool.splits)
qed

lemma strtoul0_int_str:
  assumes "0 \<le> i" and "i < 2 ^ 64"
  shows "strtoul0 (int_str i) = word_of_int i"
proof -
  have "number_in 8 ''0'' = 0" by code_simp
  then have "number_in (fst (base_of (base_digits 10 (nat i)))) (snd (base_of (base_digits 10 (nat i)))) = nat i"
    by (simp add: base_of_decimal number_in_decimal)
  moreover have "nat i < 2 ^ 64" using assms by (simp add: nat_less_iff)
  ultimately show ?thesis using assms(1)
    by (simp add: strtoul0_def signed_text_int split_beta Let_def)
qed
end
