(* ===== verification/PcdTypes.thy ===== *)
theory PcdTypes imports Prelude begin

text \<open>
  Data of the process control daemon, \<open>pcd/include/*.h\<close>: rules, conditions, failure actions,
  process and timer objects, and the state \<open>pcd\<close> of the daemon with the file-scope variables of
  its modules.

  Rule objects are never freed once they are in the database, so their memory is a total function
  of their address.  Process and timer objects are freed, so theirs is a partial map, and an access
  to an object that is not there is \<open>UseAfterFree\<close>.  The doubly linked lists of these objects are
  address lists in list order; the two pointer macros \<open>NODE_ADD\<close> and \<open>NODE_DEL\<close> are insertion at
  the head and removal.
\<close>

section \<open>Rules\<close>

datatype PCD_status =
    PCD_STATUS_OK
  | PCD_STATUS_WAIT
  | PCD_STATUS_NOK
  | PCD_STATUS_INVALID_RULE
  | PCD_STATUS_BAD_PARAMS
  | PCD_STATUS_TIMEOUT

text \<open>The codes after \<open>PCD_STATUS_WAIT\<close> are negative.\<close>

definition status_negative :: "PCD_status \<Rightarrow> bool" where
  "status_negative s \<longleftrightarrow> s \<noteq> PCD_STATUS_OK \<and> s \<noteq> PCD_STATUS_WAIT"

record rule_id =
  groupName :: string
  ruleName :: string

datatype rule_state =
    PCD_RULE_IDLE
  | PCD_RULE_ACTIVE
  | PCD_RULE_START_CONDITION_WAITING
  | PCD_RULE_END_CONDITION_WAITING
  | PCD_RULE_COMPLETED
  | PCD_RULE_NOT_COMPLETED
  | PCD_RULE_FAILED

record rule_cache =
  rc_rule :: "addr option"
  rc_id :: rule_id

definition PCD_START_COND_MAX_IDS :: nat where
  "PCD_START_COND_MAX_IDS = 8"

text \<open>A condition is its type together with the member of the union that this type uses.\<close>

datatype start_cond =
    START_NONE
  | START_FILE string
  | START_RULE_COMPLETED "rule_cache list"
  | START_NETDEVICE string
  | START_IPC_OWNER u32
  | START_ENV_VAR string string

datatype end_cond =
    END_NONE
  | END_FILE string
  | END_EXIT u32
  | END_NETDEVICE string
  | END_IPC_OWNER u32
  | END_PROCESS_READY bool
  | END_WAIT u32 u32

datatype failure_action =
    FAIL_NONE
  | FAIL_REBOOT
  | FAIL_RESTART
  | FAIL_EXEC_RULE rule_id

datatype sched_type = PCD_SCHED_TYPE_FIFO int | PCD_SCHED_TYPE_NICE u32

record rule =
  ruleId :: rule_id
  startCondition :: start_cond
  endCondition :: end_cond
  timeout :: u32
  command :: "string option"
  params :: "string option"
  optionalParams :: "string option"
  failureAction :: failure_action
  sched :: sched_type
  daemon :: bool
  uid :: u32
  ruleState :: rule_state
  indexed :: bool
  proc :: "addr option"

text \<open>The function-like macro \<open>PCD_RULE_ACTIVE(rule)\<close>: the rule waits for one of its conditions.\<close>

definition rule_active :: "rule \<Rightarrow> bool" where
  "rule_active r \<longleftrightarrow> ruleState r = PCD_RULE_START_CONDITION_WAITING
     \<or> ruleState r = PCD_RULE_END_CONDITION_WAITING"

section \<open>Processes and timers\<close>

datatype proc_state =
    PCD_PROCESS_NOTHING
  | PCD_PROCESS_RUNME
  | PCD_PROCESS_STARTING
  | PCD_PROCESS_RUNNING
  | PCD_PROCESS_TERMME
  | PCD_PROCESS_KILLME
  | PCD_PROCESS_STOPPING
  | PCD_PROCESS_STOPPED

datatype proc_exit =
    PCD_PROCESS_RETNOTHING
  | PCD_PROCESS_RETEXITED
  | PCD_PROCESS_RETSIGNALED
  | PCD_PROCESS_RETSTOPPED

record proc_obj =
  p_rule :: addr
  pid :: int
  p_state :: proc_state
  retstat :: proc_exit
  retcode :: int
  tm :: u32
  signaled :: bool
  cookie :: "addr option"

text \<open>
  The function pointers of a timer object are those of the condition types and of the failure
  action of its rule, which no operation changes once the rule is in the database; they are
  looked up there.
\<close>

record timer_obj =
  t_rule :: addr
  t_timeout :: u32

section \<open>The daemon\<close>

text \<open>
  \<open>groups\<close> is \<open>rulesListHead\<close>: the group names with their rules in list order.  \<open>kills\<close>, \<open>replies\<close> and
  \<open>ipc_cleaned\<close> record the calls of \<open>kill\<close>, \<open>PCD_api_reply_message\<close> and \<open>IPC_cleanup_proc\<close>; \<open>brk\<close>
  is the next fresh address.
\<close>

record pcd =
  rules :: "addr \<Rightarrow> rule"
  groups :: "(string \<times> addr list) list"
  lastReturnedGroup :: "string option"
  lastReturnedRule :: "addr option"
  timerObjs :: "addr \<rightharpoonup> timer_obj"
  timerQueue :: "addr list"
  timerEnabled :: bool
  timerTick :: u32
  enqueueList :: "addr list"
  dequeueList :: "addr list"
  procs :: "addr \<rightharpoonup> proc_obj"
  procList :: "addr list"
  brk :: addr
  kills :: "(int \<times> int) list"
  replies :: "(addr \<times> PCD_status) list"
  ipc_cleaned :: "int list"

definition SIGKILL :: int where "SIGKILL = 9"
definition SIGUSR1 :: int where "SIGUSR1 = 10"
definition SIGUSR2 :: int where "SIGUSR2 = 12"
definition SIGTERM :: int where "SIGTERM = 15"

text \<open>What the operating system and the IPC library answer.\<close>

record pcd_os =
  stat_ok :: "string \<Rightarrow> bool"
  netdev_ok :: "string \<Rightarrow> bool"
  env_var :: "string \<Rightarrow> string option"
  ipc_owner :: "u32 \<Rightarrow> PCD_status"
  fork_pid :: "addr \<Rightarrow> int"
  kill_ret :: "int \<Rightarrow> int \<Rightarrow> int"

text \<open>The static initialisers: no rules, no timers, no processes, the timer off.\<close>

definition blank_rule :: rule where
  "blank_rule = \<lparr>ruleId = \<lparr>groupName = [], ruleName = []\<rparr>, startCondition = START_NONE,
     endCondition = END_NONE, timeout = 0, command = None, params = None, optionalParams = None,
     failureAction = FAIL_NONE, sched = PCD_SCHED_TYPE_FIFO 0, daemon = False, uid = 0,
     ruleState = PCD_RULE_IDLE, indexed = False, proc = None\<rparr>"

definition pcd_init :: pcd where
  "pcd_init = \<lparr>rules = (\<lambda>a. blank_rule), groups = [], lastReturnedGroup = None,
     lastReturnedRule = None, timerObjs = Map.empty, timerQueue = [], timerEnabled = False,
     timerTick = 200, enqueueList = [], dequeueList = [], procs = Map.empty, procList = [],
     brk = 0, kills = [], replies = [], ipc_cleaned = []\<rparr>"

section \<open>Access to objects\<close>

definition get_proc :: "pcd \<Rightarrow> addr \<Rightarrow> proc_obj run" where
  "get_proc st p = (case procs st p of None \<Rightarrow> Inl UseAfterFree | Some x \<Rightarrow> Inr x)"

definition get_timer :: "pcd \<Rightarrow> addr \<Rightarrow> timer_obj run" where
  "get_timer st t = (case timerObjs st t of None \<Rightarrow> Inl UseAfterFree | Some x \<Rightarrow> Inr x)"

definition upd_rule :: "addr \<Rightarrow> (rule \<Rightarrow> rule) \<Rightarrow> pcd \<Rightarrow> pcd" where
  "upd_rule a f st = st\<lparr>rules := (rules st)(a := f (rules st a))\<rparr>"

definition set_proc :: "addr \<Rightarrow> proc_obj \<Rightarrow> pcd \<Rightarrow> pcd" where
  "set_proc p x st = st\<lparr>procs := (procs st)(p \<mapsto> x)\<rparr>"

definition set_timer :: "addr \<Rightarrow> timer_obj \<Rightarrow> pcd \<Rightarrow> pcd" where
  "set_timer t x st = st\<lparr>timerObjs := (timerObjs st)(t \<mapsto> x)\<rparr>"

definition set_state :: "addr \<Rightarrow> rule_state \<Rightarrow> pcd \<Rightarrow> pcd" where
  "set_state a s = upd_rule a (\<lambda>r. r\<lparr>ruleState := s\<rparr>)"

lemma get_proc_simps [simp]: "procs st p = Some x \<Longrightarrow> get_proc st p = Inr x"
  "procs st p = None \<Longrightarrow> get_proc st p = Inl UseAfterFree"
  by (simp_all add: get_proc_def)

lemma get_timer_simps [simp]: "timerObjs st t = Some x \<Longrightarrow> get_timer st t = Inr x"
  "timerObjs st t = None \<Longrightarrow> get_timer st t = Inl UseAfterFree"
  by (simp_all add: get_timer_def)

lemma upd_rule_simps [simp]:
  "rules (upd_rule a f st) = (rules st)(a := f (rules st a))"
  "groups (upd_rule a f st) = groups st"
  "timerObjs (upd_rule a f st) = timerObjs st" "timerQueue (upd_rule a f st) = timerQueue st"
  "timerEnabled (upd_rule a f st) = timerEnabled st" "timerTick (upd_rule a f st) = timerTick st"
  "enqueueList (upd_rule a f st) = enqueueList st" "dequeueList (upd_rule a f st) = dequeueList st"
  "procs (upd_rule a f st) = procs st" "procList (upd_rule a f st) = procList st"
  "brk (upd_rule a f st) = brk st" "kills (upd_rule a f st) = kills st"
  "replies (upd_rule a f st) = replies st" "ipc_cleaned (upd_rule a f st) = ipc_cleaned st"
  "lastReturnedGroup (upd_rule a f st) = lastReturnedGroup st"
  "lastReturnedRule (upd_rule a f st) = lastReturnedRule st"
  by (simp_all add: upd_rule_def)

lemma set_proc_simps [simp]:
  "procs (set_proc p x st) = (procs st)(p \<mapsto> x)"
  "rules (set_proc p x st) = rules st" "groups (set_proc p x st) = groups st"
  "timerObjs (set_proc p x st) = timerObjs st" "timerQueue (set_proc p x st) = timerQueue st"
  "timerEnabled (set_proc p x st) = timerEnabled st" "timerTick (set_proc p x st) = timerTick st"
  "enqueueList (set_proc p x st) = enqueueList st" "dequeueList (set_proc p x st) = dequeueList st"
  "procList (set_proc p x st) = procList st" "brk (set_proc p x st) = brk st"
  "kills (set_proc p x st) = kills st" "replies (set_proc p x st) = replies st"
  "ipc_cleaned (set_proc p x st) = ipc_cleaned st"
  by (simp_all add: set_proc_def)

lemma set_timer_simps [simp]:
  "timerObjs (set_timer t x st) = (timerObjs st)(t \<mapsto> x)"
  "rules (set_timer t x st) = rules st" "groups (set_timer t x st) = groups st"
  "procs (set_timer t x st) = procs st" "timerQueue (set_timer t x st) = timerQueue st"
  "timerEnabled (set_timer t x st) = timerEnabled st" "timerTick (set_timer t x st) = timerTick st"
  "enqueueList (set_timer t x st) = enqueueList st" "dequeueList (set_timer t x st) = dequeueList st"
  "procList (set_timer t x st) = procList st" "brk (set_timer t x st) = brk st"
  by (simp_all add: set_timer_def)

end
