(* ===== verification/RulesDb.thy ===== *)
theory RulesDb imports PcdTypes begin

text \<open>
  The rules database of the daemon, \<open>pcd/src/rules_db.c\<close>: groups in order of appearance, each with
  its rules in the order of their names; lookup by identifier, with the creation of rules from
  indexed templates; the enumeration by \<open>get_first\<close> and \<open>get_next\<close>.  Malloc is assumed to succeed.
\<close>

section \<open>Insertion\<close>

text \<open>
  The walk of \<open>PCD_rulesdb_add_rule_to_group\<close> over a list that is not empty; \<open>None\<close> when a rule of
  that name is met.
\<close>

fun insert_rule :: "(addr \<Rightarrow> rule) \<Rightarrow> addr \<Rightarrow> addr list \<Rightarrow> addr list option" where
  "insert_rule rs a [] = Some [a]"
| "insert_rule rs a (b # bs) =
     (let val = strcmp (ruleName (ruleId (rs a))) (ruleName (ruleId (rs b))) in
      if val = 0 then None
      else if val > 0 then map_option ((#) b) (insert_rule rs a bs)
      else Some (a # b # bs))"

text \<open>An empty group would take the rule only into a local variable.\<close>

definition add_rule_to_group :: "(addr \<Rightarrow> rule) \<Rightarrow> addr \<Rightarrow> addr list \<Rightarrow> PCD_status \<times> addr list" where
  "add_rule_to_group rs a xs =
     (if xs = [] then (PCD_STATUS_OK, [])
      else case insert_rule rs a xs of
        None \<Rightarrow> (PCD_STATUS_NOK, xs)
      | Some ys \<Rightarrow> (PCD_STATUS_OK, ys))"

fun add_to_groups :: "(addr \<Rightarrow> rule) \<Rightarrow> addr \<Rightarrow> (string \<times> addr list) list \<Rightarrow> (string \<times> addr list) list" where
  "add_to_groups rs a [] = [(groupName (ruleId (rs a)), [a])]"
| "add_to_groups rs a ((g, xs) # gs) =
     (if strcmp g (groupName (ruleId (rs a))) = 0 then (g, snd (add_rule_to_group rs a xs)) # gs
      else (g, xs) # add_to_groups rs a gs)"

definition PCD_rulesdb_add_rule :: "rule option \<Rightarrow> pcd \<Rightarrow> PCD_status \<times> pcd" where
  "PCD_rulesdb_add_rule newrule st = (case newrule of
      None \<Rightarrow> (PCD_STATUS_NOK, st)
    | Some r \<Rightarrow>
        let a = brk st; rs = (rules st)(a := r) in
        (PCD_STATUS_OK, st\<lparr>rules := rs, groups := add_to_groups rs a (groups st), brk := a + 1\<rparr>))"

section \<open>Lookup\<close>

fun find_group :: "string \<Rightarrow> (string \<times> addr list) list \<Rightarrow> addr list option" where
  "find_group g [] = None"
| "find_group g ((h, xs) # gs) = (if strcmp g h = 0 then Some xs else find_group g gs)"

text \<open>The scan of a group: the rule of that name, or the last indexed rule whose name begins it.\<close>

fun scan_rules :: "(addr \<Rightarrow> rule) \<Rightarrow> string \<Rightarrow> addr option \<Rightarrow> addr list \<Rightarrow> addr option \<times> addr option" where
  "scan_rules rs n tmp [] = (None, tmp)"
| "scan_rules rs n tmp (b # bs) =
     (let m = ruleName (ruleId (rs b)) in
      if strcmp m n = 0 then (Some b, tmp)
      else scan_rules rs n (if indexed (rs b) \<and> take (length m) n = m then Some b else tmp) bs)"

text \<open>The recursive call comes after the insertion; two levels are enough (\<open>get_rule_by_id_eq\<close>).\<close>

fun get_rule_by_id :: "nat \<Rightarrow> rule_id \<Rightarrow> pcd \<Rightarrow> (addr option \<times> pcd) run" where
  "get_rule_by_id 0 rid st = Inl Diverges"
| "get_rule_by_id (Suc fuel) rid st = (case find_group (groupName rid) (groups st) of
      None \<Rightarrow> Inr (None, st)
    | Some xs \<Rightarrow> (case scan_rules (rules st) (ruleName rid) None xs of
        (Some a, tmp) \<Rightarrow> Inr (Some a, st)
      | (None, None) \<Rightarrow> Inr (None, st)
      | (None, Some t) \<Rightarrow>
          (let r = rules st t;
               newRule = r\<lparr>indexed := False, optionalParams := None,
                           ruleId := (ruleId r)\<lparr>ruleName := ruleName rid\<rparr>\<rparr>
           in case PCD_rulesdb_add_rule (Some newRule) st of
                (s, st) \<Rightarrow> if s = PCD_STATUS_OK then get_rule_by_id fuel rid st else Inr (None, st))))"

definition PCD_rulesdb_get_rule_by_id :: "rule_id option \<Rightarrow> pcd \<Rightarrow> (addr option \<times> pcd) run" where
  "PCD_rulesdb_get_rule_by_id rid st = (case rid of
      None \<Rightarrow> Inr (None, st)
    | Some rid \<Rightarrow> get_rule_by_id 2 rid st)"

text \<open>\<open>searchRuleList->proc->pid\<close> is read for every rule passed.\<close>

fun pid_scan :: "pcd \<Rightarrow> int \<Rightarrow> addr list \<Rightarrow> addr option run" where
  "pid_scan st p [] = Inr None"
| "pid_scan st p (a # as) =
     bind_run (deref (proc (rules st a))) (\<lambda>q. bind_run (get_proc st q) (\<lambda>x.
       if pid x = p then Inr (Some a) else pid_scan st p as))"

definition PCD_rulesdb_get_rule_by_pid :: "int \<Rightarrow> pcd \<Rightarrow> addr option run" where
  "PCD_rulesdb_get_rule_by_pid p st = pid_scan st p (concat (map snd (groups st)))"

section \<open>Enumeration\<close>

text \<open>The element after the first \<open>x\<close>: the pointer \<open>next\<close> of a list node.\<close>

fun next_of :: "'a \<Rightarrow> 'a list \<Rightarrow> 'a option" where
  "next_of x [] = None"
| "next_of x (y # ys) = (if x = y then opt_hd ys else next_of x ys)"

definition PCD_rulesdb_get_first :: "pcd \<Rightarrow> addr option \<times> pcd" where
  "PCD_rulesdb_get_first st = (case groups st of
      [] \<Rightarrow> (None, st)
    | (g, xs) # _ \<Rightarrow> (opt_hd xs, st\<lparr>lastReturnedGroup := Some g, lastReturnedRule := opt_hd xs\<rparr>))"

definition PCD_rulesdb_get_next :: "pcd \<Rightarrow> addr option \<times> pcd" where
  "PCD_rulesdb_get_next st = (case (lastReturnedGroup st, lastReturnedRule st) of
      (Some g, Some a) \<Rightarrow>
        (case next_of a (case find_group g (groups st) of None \<Rightarrow> [] | Some xs \<Rightarrow> xs) of
           Some b \<Rightarrow> (Some b, st\<lparr>lastReturnedRule := Some b\<rparr>)
         | None \<Rightarrow> (case next_of g (map fst (groups st)) of
             None \<Rightarrow> (None, st\<lparr>lastReturnedGroup := None\<rparr>)
           | Some h \<Rightarrow>
               (let b = opt_hd (case find_group h (groups st) of None \<Rightarrow> [] | Some xs \<Rightarrow> xs)
                in (b, st\<lparr>lastReturnedGroup := Some h, lastReturnedRule := b\<rparr>))))
    | _ \<Rightarrow> (None, st))"

section \<open>Optional parameters\<close>

definition PCD_rulesdb_setup_optional_params :: "addr option \<Rightarrow> string option \<Rightarrow> pcd \<Rightarrow> PCD_status \<times> pcd" where
  "PCD_rulesdb_setup_optional_params a ps st = (case (a, ps) of
      (Some a, Some p) \<Rightarrow> (PCD_STATUS_OK, upd_rule a (\<lambda>r. r\<lparr>optionalParams := Some p\<rparr>) st)
    | _ \<Rightarrow> (PCD_STATUS_NOK, st))"

definition PCD_rulesdb_clear_optional_params :: "addr option \<Rightarrow> pcd \<Rightarrow> PCD_status \<times> pcd" where
  "PCD_rulesdb_clear_optional_params a st = (case a of
      None \<Rightarrow> (PCD_STATUS_NOK, st)
    | Some a \<Rightarrow> (PCD_STATUS_OK, upd_rule a (\<lambda>r. r\<lparr>optionalParams := None\<rparr>) st))"

section \<open>The database as a finite map\<close>

abbreviation rname :: "(addr \<Rightarrow> rule) \<Rightarrow> addr \<Rightarrow> string" where
  "rname rs a \<equiv> ruleName (ruleId (rs a))"

abbreviation rgroup :: "(addr \<Rightarrow> rule) \<Rightarrow> addr \<Rightarrow> string" where
  "rgroup rs a \<equiv> groupName (ruleId (rs a))"

definition db_rules :: "pcd \<Rightarrow> addr list" where
  "db_rules st = concat (map snd (groups st))"

text \<open>
  Group names are distinct; every group has rules, all of that group, in strictly ascending order
  of their names.
\<close>

definition group_ok :: "(addr \<Rightarrow> rule) \<Rightarrow> addr \<Rightarrow> string \<times> addr list \<Rightarrow> bool" where
  "group_ok rs b g \<longleftrightarrow> snd g \<noteq> [] \<and> sorted_wrt (\<lambda>x y. rname rs x < rname rs y) (snd g)
     \<and> (\<forall>a \<in> set (snd g). rgroup rs a = fst g \<and> a < b)"

definition db_ok :: "pcd \<Rightarrow> bool" where
  "db_ok st \<longleftrightarrow> distinct (map fst (groups st)) \<and> (\<forall>g \<in> set (groups st). group_ok (rules st) (brk st) g)"

definition find_rule :: "(addr \<Rightarrow> rule) \<Rightarrow> string \<Rightarrow> addr list \<Rightarrow> addr option" where
  "find_rule rs n xs = find (\<lambda>a. rname rs a = n) xs"

text \<open>The rule of an identifier.\<close>

definition db_map :: "pcd \<Rightarrow> rule_id \<Rightarrow> addr option" where
  "db_map st rid = (case find_group (groupName rid) (groups st) of
      None \<Rightarrow> None
    | Some xs \<Rightarrow> find_rule (rules st) (ruleName rid) xs)"

text \<open>The template of a name: the indexed rule with the longest name that begins it.\<close>

definition templates :: "(addr \<Rightarrow> rule) \<Rightarrow> string \<Rightarrow> addr list \<Rightarrow> addr list" where
  "templates rs n xs = filter (\<lambda>a. indexed (rs a) \<and> take (length (rname rs a)) n = rname rs a) xs"

section \<open>Lemmas\<close>

lemma insert_rule_None:
  "insert_rule rs a xs = None \<Longrightarrow> \<exists>b \<in> set xs. rname rs b = rname rs a"
  by (induction xs) (auto simp: Let_def split: if_splits)

lemma insert_rule_Some:
  assumes "sorted_wrt (\<lambda>x y. rname rs x < rname rs y) xs" and "insert_rule rs a xs = Some ys"
  shows "sorted_wrt (\<lambda>x y. rname rs x < rname rs y) ys \<and> set ys = insert a (set xs)
    \<and> ys \<noteq> [] \<and> (\<forall>b \<in> set xs. rname rs b \<noteq> rname rs a)"
  using assms
proof (induction xs arbitrary: ys)
  case Nil
  then show ?case by auto
next
  case (Cons b bs)
  consider "rname rs a < rname rs b" | "rname rs b < rname rs a"
    using Cons.prems(2) by (cases "rname rs a" "rname rs b" rule: linorder_cases) (auto simp: Let_def)
  then show ?case
  proof cases
    case 1
    then have "ys = a # b # bs" using Cons.prems(2) by (auto simp: Let_def strcmp_pos split: if_splits)
    with 1 Cons.prems(1) show ?thesis by auto
  next
    case 2
    then obtain zs where z: "insert_rule rs a bs = Some zs" "ys = b # zs"
      using Cons.prems(2) by (auto simp: Let_def strcmp_pos split: if_splits)
    with Cons.IH [OF _ z(1)] Cons.prems(1) 2 show ?thesis by auto
  qed
qed

lemma find_rule_None: "find_rule rs n xs = None \<longleftrightarrow> (\<forall>a \<in> set xs. rname rs a \<noteq> n)"
  by (auto simp: find_rule_def find_None_iff)

lemma find_rule_Some:
  assumes "sorted_wrt (\<lambda>x y. rname rs x < rname rs y) xs"
  shows "find_rule rs n xs = Some a \<longleftrightarrow> a \<in> set xs \<and> rname rs a = n"
  using assms by (induction xs) (auto simp: find_rule_def)

lemma find_rule_cong:
  "(\<And>a. a \<in> set xs \<Longrightarrow> ruleId (rs a) = ruleId (rs' a)) \<Longrightarrow> find_rule rs n xs = find_rule rs' n xs"
  by (induction xs) (auto simp: find_rule_def)

lemma find_group_Some:
  "distinct (map fst gs) \<Longrightarrow> find_group g gs = Some xs \<longleftrightarrow> (g, xs) \<in> set gs"
  by (induction gs) (force split: if_splits)+

lemma find_group_None: "find_group g gs = None \<longleftrightarrow> g \<notin> fst ` set gs"
  by (induction gs) (auto split: if_splits)

lemma add_to_groups_new:
  "find_group (rgroup rs a) gs = None \<Longrightarrow> add_to_groups rs a gs = gs @ [(rgroup rs a, [a])]"
  by (induction gs) (auto split: if_splits)

lemma add_to_groups_old:
  "find_group (rgroup rs a) gs = Some xs \<Longrightarrow>
     map fst (add_to_groups rs a gs) = map fst gs
     \<and> set (add_to_groups rs a gs) \<subseteq> set gs \<union> {(rgroup rs a, snd (add_rule_to_group rs a xs))}
     \<and> find_group g (add_to_groups rs a gs)
       = (if g = rgroup rs a then Some (snd (add_rule_to_group rs a xs)) else find_group g gs)"
  by (induction gs) (auto split: if_splits)

lemma find_group_append:
  "find_group g (gs @ hs) = (case find_group g gs of None \<Rightarrow> find_group g hs | Some xs \<Rightarrow> Some xs)"
  by (induction gs) auto

lemma group_ok_cong:
  assumes "group_ok rs b g" and "\<And>a. a < b \<Longrightarrow> ruleId (rs' a) = ruleId (rs a)" and "b \<le> b'"
  shows "group_ok rs' b' g"
proof -
  have "sorted_wrt (\<lambda>x y. rname rs' x < rname rs' y) (snd g)"
    using assms(1,2) by (auto simp: group_ok_def intro: sorted_wrt_mono_rel [rotated])
  with assms show ?thesis by (auto simp: group_ok_def)
qed

lemma db_okD:
  assumes "db_ok st" and "find_group g (groups st) = Some xs"
  shows "xs \<noteq> []" "sorted_wrt (\<lambda>x y. rname (rules st) x < rname (rules st) y) xs"
    "\<And>a. a \<in> set xs \<Longrightarrow> rgroup (rules st) a = g \<and> a < brk st"
  using assms find_group_Some [of "groups st" g xs] by (auto simp: db_ok_def group_ok_def)

lemma rule_id_eqI: "groupName r = groupName s \<Longrightarrow> ruleName r = ruleName s \<Longrightarrow> (r :: rule_id) = s"
  by (cases r; cases s) simp

lemma db_map_Some:
  assumes "db_ok st"
  shows "db_map st rid = Some a \<longleftrightarrow> a \<in> set (db_rules st) \<and> ruleId (rules st a) = rid"
proof
  assume m: "db_map st rid = Some a"
  then obtain xs where g: "find_group (groupName rid) (groups st) = Some xs"
    and f: "find_rule (rules st) (ruleName rid) xs = Some a"
    by (auto simp: db_map_def split: option.splits)
  note ok = db_okD [OF assms g]
  have "a \<in> set xs" "rname (rules st) a = ruleName rid" using f find_rule_Some [OF ok(2)] by auto
  moreover have "(groupName rid, xs) \<in> set (groups st)"
    using g find_group_Some assms by (auto simp: db_ok_def)
  ultimately show "a \<in> set (db_rules st) \<and> ruleId (rules st a) = rid"
    using ok(3) [of a] by (force simp: db_rules_def intro: rule_id_eqI)
next
  assume a: "a \<in> set (db_rules st) \<and> ruleId (rules st a) = rid"
  then obtain g xs where g: "(g, xs) \<in> set (groups st)" "a \<in> set xs" by (auto simp: db_rules_def)
  then have f: "find_group g (groups st) = Some xs"
    using find_group_Some assms by (auto simp: db_ok_def)
  note ok = db_okD [OF assms f]
  have "g = groupName rid" using ok(3) [OF g(2)] a by simp
  then show "db_map st rid = Some a"
    using f find_rule_Some [OF ok(2)] g(2) a by (simp add: db_map_def)
qed

lemma db_map_unknown:
  assumes "db_ok st"
  shows "db_map st rid = None \<longleftrightarrow> rid \<notin> ruleId ` rules st ` set (db_rules st)"
  using db_map_Some [OF assms, of rid] by (cases "db_map st rid") force+

lemma option_eqI: "(\<And>c. x = Some c \<longleftrightarrow> y = Some c) \<Longrightarrow> x = y"
  by (metis option.exhaust)

text \<open>Adding a rule.\<close>

lemma add_rule_eq:
  assumes "db_ok st"
  shows "\<exists>st'. PCD_rulesdb_add_rule (Some r) st = (PCD_STATUS_OK, st') \<and> db_ok st'
    \<and> db_map st' = (if db_map st (ruleId r) = None then (db_map st)(ruleId r \<mapsto> brk st) else db_map st)
    \<and> rules st' = (rules st)(brk st := r)
    \<and> st' = st\<lparr>rules := rules st', groups := groups st', brk := Suc (brk st)\<rparr>"
proof -
  let ?a = "brk st" and ?rs = "(rules st)(brk st := r)" and ?g = "groupName (ruleId r)"
  let ?gs = "add_to_groups ?rs ?a (groups st)"
  let ?st = "st\<lparr>rules := ?rs, groups := ?gs, brk := ?a + 1\<rparr>"
  have same: "\<And>b. b < ?a \<Longrightarrow> ruleId (?rs b) = ruleId (rules st b)" by simp
  have old: "group_ok ?rs (Suc ?a) g" if "g \<in> set (groups st)" for g
    using assms that group_ok_cong [where rs = "rules st" and rs' = ?rs and b = ?a and g = g and b' = "Suc ?a"]
    by (simp add: db_ok_def)
  have look: "find_rule ?rs n xs = find_rule (rules st) n xs" if "find_group g (groups st) = Some xs" for g n xs
    using db_okD(3) [OF assms that] by (intro find_rule_cong) auto
  have eqr: "rid = ruleId r \<longleftrightarrow> groupName rid = ?g \<and> ruleName rid = ruleName (ruleId r)" for rid
    by (auto intro: rule_id_eqI)
  have "db_ok ?st \<and> db_map ?st = (if db_map st (ruleId r) = None then (db_map st)(ruleId r \<mapsto> ?a) else db_map st)"
  proof (cases "find_group ?g (groups st)")
    case None
    then have gs: "?gs = groups st @ [(?g, [?a])]" using add_to_groups_new [of ?rs ?a "groups st"] by simp
    have "group_ok ?rs (Suc ?a) (?g, [?a])" by (simp add: group_ok_def)
    moreover have "distinct (map fst ?gs)"
      using assms None unfolding gs by (auto simp: db_ok_def find_group_None)
    ultimately have ok: "db_ok ?st" using old unfolding gs by (auto simp: db_ok_def gs)
    have "db_map ?st rid = ((db_map st)(ruleId r \<mapsto> ?a)) rid" for rid
      using None look by (auto simp: db_map_def gs find_group_append eqr find_rule_def split: option.splits)
    moreover have "db_map st (ruleId r) = None" using None by (simp add: db_map_def)
    ultimately show ?thesis using ok by auto
  next
    case (Some xs)
    note ok = db_okD [OF assms Some]
    have xs: "xs \<noteq> []" by (rule ok(1))
    have srt: "sorted_wrt (\<lambda>x y. rname ?rs x < rname ?rs y) xs"
    proof (rule sorted_wrt_mono_rel [OF _ ok(2)])
      fix x y
      assume "x \<in> set xs" "y \<in> set xs" "rname (rules st) x < rname (rules st) y"
      then show "rname ?rs x < rname ?rs y" using ok(3) [of x] ok(3) [of y] by simp
    qed
    note gold = add_to_groups_old [of ?rs ?a "groups st" xs]
    show ?thesis
    proof (cases "insert_rule ?rs ?a xs")
      case None
      then have add: "add_rule_to_group ?rs ?a xs = (PCD_STATUS_NOK, xs)"
        using xs by (simp add: add_rule_to_group_def)
      then have sub: "map fst ?gs = map fst (groups st)" "set ?gs \<subseteq> set (groups st) \<union> {(?g, xs)}"
        and fg: "\<And>g. find_group g ?gs = find_group g (groups st)"
        using gold Some by auto
      have "(?g, xs) \<in> set (groups st)" using Some find_group_Some assms by (auto simp: db_ok_def)
      then have "db_ok ?st" using sub old assms by (auto simp: db_ok_def)
      moreover have "db_map ?st = db_map st"
        using look by (auto simp: db_map_def fg split: option.splits)
      moreover have "find_rule ?rs (ruleName (ruleId r)) xs \<noteq> None"
        using insert_rule_None [OF None] by (auto simp: find_rule_None)
      then have "find_rule (rules st) (ruleName (ruleId r)) xs \<noteq> None"
        unfolding look [OF Some] .
      then have "db_map st (ruleId r) \<noteq> None" using Some by (simp add: db_map_def)
      ultimately show ?thesis by auto
    next
      case ins: (Some ys)
      note iy = insert_rule_Some [OF srt ins]
      have add: "add_rule_to_group ?rs ?a xs = (PCD_STATUS_OK, ys)"
        using xs ins by (simp add: add_rule_to_group_def)
      then have sub: "map fst ?gs = map fst (groups st)" "set ?gs \<subseteq> set (groups st) \<union> {(?g, ys)}"
        and fg: "\<And>g. find_group g ?gs = (if g = ?g then Some ys else find_group g (groups st))"
        using gold Some by auto
      have "group_ok ?rs (Suc ?a) (?g, ys)" using iy ok(3) by (auto simp: group_ok_def intro: less_SucI)
      then have "db_ok ?st" using sub old assms by (auto simp: db_ok_def)
      moreover have "find_rule (rules st) (ruleName (ruleId r)) xs = None"
        using iy ok(3) unfolding look [OF Some, symmetric] by (auto simp: find_rule_None)
      then have new: "db_map st (ruleId r) = None" using Some by (simp add: db_map_def)
      moreover have "db_map ?st rid = ((db_map st)(ruleId r \<mapsto> ?a)) rid" for rid
      proof (cases "groupName rid = ?g")
        case True
        have "find_rule ?rs n ys = (if n = ruleName (ruleId r) then Some ?a else find_rule ?rs n xs)" for n
        proof (cases "n = ruleName (ruleId r)")
          case True
          then show ?thesis using iy find_rule_Some [of ?rs ys n ?a] by simp
        next
          case False
          have sy: "sorted_wrt (\<lambda>x y. rname ?rs x < rname ?rs y) ys" and set_ys: "set ys = insert ?a (set xs)"
            using iy by simp_all
          have "rname ?rs ?a \<noteq> n" using False by simp
          then have "find_rule ?rs n ys = Some c \<longleftrightarrow> find_rule ?rs n xs = Some c" for c
            unfolding find_rule_Some [OF sy] find_rule_Some [OF srt] set_ys by blast
          then have "find_rule ?rs n ys = find_rule ?rs n xs" by (rule option_eqI)
          with False show ?thesis by simp
        qed
        then show ?thesis using True Some look [OF Some] by (auto simp: db_map_def fg eqr)
      next
        case False
        then show ?thesis using look by (auto simp: db_map_def fg eqr split: option.splits)
      qed
      ultimately show ?thesis by auto
    qed
  qed
  then show ?thesis by (simp add: PCD_rulesdb_add_rule_def Let_def)
qed

text \<open>Lookup.\<close>

lemma scan_rules_eq:
  "scan_rules rs n tmp xs =
     (find_rule rs n xs,
      (case opt_last (templates rs n (takeWhile (\<lambda>a. rname rs a \<noteq> n) xs)) of
         None \<Rightarrow> tmp | Some t \<Rightarrow> Some t))"
proof (induction xs arbitrary: tmp)
  case Nil
  then show ?case by (simp add: find_rule_def templates_def)
next
  case (Cons b bs)
  show ?case
  proof (cases "rname rs b = n")
    case True
    then show ?thesis by (simp add: find_rule_def templates_def Let_def)
  next
    case False
    then have "scan_rules rs n tmp (b # bs) = scan_rules rs n
        (if indexed (rs b) \<and> take (length (rname rs b)) n = rname rs b then Some b else tmp) bs"
      by (simp add: Let_def)
    then show ?thesis unfolding Cons.IH using False
      by (auto simp: find_rule_def templates_def split: option.splits)
  qed
qed

lemma scan_rules_known: "find_rule rs n xs = Some a \<Longrightarrow> fst (scan_rules rs n tmp xs) = Some a"
  by (simp add: scan_rules_eq)

lemma scan_rules_unknown:
  assumes "find_rule rs n xs = None"
  shows "scan_rules rs n None xs = (None, opt_last (templates rs n xs))"
proof -
  have tw: "takeWhile (\<lambda>a. rname rs a \<noteq> n) xs = xs"
    using assms by (simp add: find_rule_None)
  show ?thesis unfolding scan_rules_eq tw using assms
    by (cases "opt_last (templates rs n xs)") simp_all
qed

text \<open>The rules that would serve as a template of \<open>rid\<close>, in the order of their names.\<close>

definition template_of :: "pcd \<Rightarrow> rule_id \<Rightarrow> addr option" where
  "template_of st rid = (case find_group (groupName rid) (groups st) of
      None \<Rightarrow> None
    | Some xs \<Rightarrow> opt_last (templates (rules st) (ruleName rid) xs))"

definition instance_of :: "rule \<Rightarrow> string \<Rightarrow> rule" where
  "instance_of r n = r\<lparr>indexed := False, optionalParams := None, ruleId := (ruleId r)\<lparr>ruleName := n\<rparr>\<rparr>"

lemma get_rule_known:
  assumes "db_map st rid = Some a"
  shows "get_rule_by_id (Suc n) rid st = Inr (Some a, st)"
proof -
  from assms obtain xs where g: "find_group (groupName rid) (groups st) = Some xs"
    and f: "find_rule (rules st) (ruleName rid) xs = Some a"
    by (auto simp: db_map_def split: option.splits)
  obtain u where "scan_rules (rules st) (ruleName rid) None xs = (Some a, u)"
    using scan_rules_known [OF f, of None] by (cases "scan_rules (rules st) (ruleName rid) None xs") auto
  with g show ?thesis by simp
qed

lemma get_rule_unknown:
  assumes "db_map st rid = None" and "template_of st rid = None"
  shows "get_rule_by_id (Suc n) rid st = Inr (None, st)"
proof (cases "find_group (groupName rid) (groups st)")
  case None
  then show ?thesis by simp
next
  case (Some xs)
  with assms have "find_rule (rules st) (ruleName rid) xs = None"
    "opt_last (templates (rules st) (ruleName rid) xs) = None"
    by (auto simp: db_map_def template_of_def)
  with Some scan_rules_unknown [of "rules st" "ruleName rid" xs] show ?thesis by simp
qed

lemma template_in_db:
  assumes "db_ok st" and "template_of st rid = Some t"
  shows "t \<in> set (db_rules st)" "rgroup (rules st) t = groupName rid" "indexed (rules st t)"
proof -
  from assms(2) obtain xs where g: "find_group (groupName rid) (groups st) = Some xs"
    and l: "opt_last (templates (rules st) (ruleName rid) xs) = Some t"
    by (auto simp: template_of_def split: option.splits)
  then have "t \<in> set (templates (rules st) (ruleName rid) xs)" by (metis opt_last_in_set)
  then have t: "t \<in> set xs" "indexed (rules st t)" by (auto simp: templates_def)
  have "(groupName rid, xs) \<in> set (groups st)" using g find_group_Some assms(1) by (auto simp: db_ok_def)
  with t db_okD(3) [OF assms(1) g] show "t \<in> set (db_rules st)" "rgroup (rules st) t = groupName rid"
    "indexed (rules st t)" by (force simp: db_rules_def)+
qed

lemma get_rule_template:
  assumes "db_ok st" and "db_map st rid = None" and "template_of st rid = Some t"
  shows "\<exists>st'. PCD_rulesdb_get_rule_by_id (Some rid) st = Inr (Some (brk st), st') \<and> db_ok st'
    \<and> db_map st' = (db_map st)(rid \<mapsto> brk st)
    \<and> rules st' = (rules st)(brk st := instance_of (rules st t) (ruleName rid))"
proof -
  let ?r = "instance_of (rules st t) (ruleName rid)"
  have id: "ruleId ?r = rid"
    using template_in_db(2) [OF assms(1,3)] by (auto simp: instance_of_def intro: rule_id_eqI)
  from assms(2,3) obtain xs where g: "find_group (groupName rid) (groups st) = Some xs"
    and f: "find_rule (rules st) (ruleName rid) xs = None"
    and l: "opt_last (templates (rules st) (ruleName rid) xs) = Some t"
    by (auto simp: template_of_def db_map_def split: option.splits)
  from add_rule_eq [OF assms(1), of ?r] id assms(2) obtain st' where
    add: "PCD_rulesdb_add_rule (Some ?r) st = (PCD_STATUS_OK, st')" and ok: "db_ok st'"
    and m: "db_map st' = (db_map st)(rid \<mapsto> brk st)" and rs: "rules st' = (rules st)(brk st := ?r)"
    by auto
  have "get_rule_by_id (Suc 0) rid st' = Inr (Some (brk st), st')"
    by (rule get_rule_known) (simp add: m)
  then have "get_rule_by_id 2 rid st = Inr (Some (brk st), st')"
    using g f l scan_rules_unknown [OF f] add by (simp add: numeral_2_eq_2 instance_of_def Let_def)
  with ok m rs show ?thesis by (auto simp: PCD_rulesdb_get_rule_by_id_def)
qed

text \<open>Without templates a lookup changes nothing.\<close>

lemma no_templates:
  assumes "db_ok st" and "\<forall>a \<in> set (db_rules st). \<not> indexed (rules st a)"
  shows "template_of st rid = None"
  using template_in_db [OF assms(1)] assms(2) by (cases "template_of st rid") auto

lemma get_rule_plain:
  assumes "db_ok st" and "\<forall>a \<in> set (db_rules st). \<not> indexed (rules st a)"
  shows "PCD_rulesdb_get_rule_by_id (Some rid) st = Inr (db_map st rid, st)"
proof (cases "db_map st rid")
  case None
  then show ?thesis using get_rule_unknown no_templates [OF assms]
    by (simp add: PCD_rulesdb_get_rule_by_id_def numeral_2_eq_2)
next
  case (Some a)
  then show ?thesis using get_rule_known by (simp add: PCD_rulesdb_get_rule_by_id_def numeral_2_eq_2)
qed

section \<open>Properties\<close>

text \<open>
  C25: The database is a finite map from identifiers to rules.  Adding a rule always reports success
  and keeps the groups sorted and free of duplicates; it extends the map by the new rule when the
  identifier is new, and leaves the map as it is (the copy is dropped) when it is taken.
\<close>

theorem add_rule_refines_map:
  assumes "db_ok st"
  shows "\<exists>st'. PCD_rulesdb_add_rule (Some r) st = (PCD_STATUS_OK, st') \<and> db_ok st'
    \<and> db_map st' = (if db_map st (ruleId r) = None then (db_map st)(ruleId r \<mapsto> brk st) else db_map st)
    \<and> rules st' = (rules st)(brk st := r)"
  using add_rule_eq [OF assms, of r] by blast

definition named_rule :: "string \<Rightarrow> string \<Rightarrow> rule" where
  "named_rule g n = blank_rule\<lparr>ruleId := \<lparr>groupName = g, ruleName = n\<rparr>, command := Some ''/bin/true''\<rparr>"

definition two_rules :: pcd where
  "two_rules = pcd_init\<lparr>rules := (\<lambda>a. blank_rule)(0 := named_rule ''net'' ''b'',
     1 := (named_rule ''net'' ''d'')\<lparr>indexed := True, ruleState := PCD_RULE_COMPLETED, proc := Some 9\<rparr>),
     groups := [(''net'', [0, 1])], brk := 2\<rparr>"

lemma two_rules_ok: "db_ok two_rules"
  by (simp add: db_ok_def group_ok_def two_rules_def pcd_init_def named_rule_def)

lemma two_rules_map:
  "db_map two_rules \<lparr>groupName = ''net'', ruleName = ''c''\<rparr> = None"
  "db_map two_rules \<lparr>groupName = ''net'', ruleName = ''b''\<rparr> = Some 0"
  "db_map two_rules \<lparr>groupName = ''net'', ruleName = ''d7''\<rparr> = None"
  "template_of two_rules \<lparr>groupName = ''net'', ruleName = ''d7''\<rparr> = Some 1"
  by (simp_all add: db_map_def template_of_def find_rule_def templates_def two_rules_def pcd_init_def named_rule_def
      blank_rule_def)

theorem add_rule_refines_map_witness:
  "\<exists>st'. PCD_rulesdb_add_rule (Some (named_rule ''net'' ''c'')) two_rules = (PCD_STATUS_OK, st')
    \<and> db_map st' \<lparr>groupName = ''net'', ruleName = ''c''\<rparr> = Some 2
    \<and> db_map st' \<lparr>groupName = ''net'', ruleName = ''b''\<rparr> = Some 0"
proof -
  have "ruleId (named_rule ''net'' ''c'') = \<lparr>groupName = ''net'', ruleName = ''c''\<rparr>"
    by (simp add: named_rule_def)
  moreover have "brk two_rules = 2" by (simp add: two_rules_def)
  ultimately show ?thesis
    using add_rule_refines_map [OF two_rules_ok, of "named_rule ''net'' ''c''"] two_rules_map by auto
qed

text \<open>
  Lookup by identifier returns the rule of that name and changes nothing when there is one;
  otherwise, when indexed templates match, it creates and returns a rule that copies the last of
  them but for the name, the optional parameters and the index flag.  The copy has the state of the
  template and points to its process.  When nothing matches the result is NULL.
\<close>

theorem get_rule_by_id_cases:
  assumes "db_ok st"
  shows "case db_map st rid of
      Some a \<Rightarrow> PCD_rulesdb_get_rule_by_id (Some rid) st = Inr (Some a, st)
    | None \<Rightarrow> (case template_of st rid of
        None \<Rightarrow> PCD_rulesdb_get_rule_by_id (Some rid) st = Inr (None, st)
      | Some t \<Rightarrow> \<exists>st'. PCD_rulesdb_get_rule_by_id (Some rid) st = Inr (Some (brk st), st') \<and> db_ok st'
          \<and> db_map st' = (db_map st)(rid \<mapsto> brk st)
          \<and> rules st' = (rules st)(brk st := instance_of (rules st t) (ruleName rid))
          \<and> proc (rules st' (brk st)) = proc (rules st t)
          \<and> ruleState (rules st' (brk st)) = ruleState (rules st t))"
proof (cases "db_map st rid")
  case (Some a)
  then show ?thesis using get_rule_known [OF Some, of 1]
    by (simp add: PCD_rulesdb_get_rule_by_id_def numeral_2_eq_2)
next
  case None
  note unknown = None
  show ?thesis
  proof (cases "template_of st rid")
    case None
    with unknown show ?thesis using get_rule_unknown [OF unknown None, of 1]
      by (simp add: PCD_rulesdb_get_rule_by_id_def numeral_2_eq_2)
  next
    case (Some t)
    with unknown get_rule_template [OF assms unknown Some] show ?thesis
      by (auto simp: instance_of_def)
  qed
qed

theorem get_rule_by_id_cases_witness:
  "PCD_rulesdb_get_rule_by_id (Some \<lparr>groupName = ''net'', ruleName = ''b''\<rparr>) two_rules
      = Inr (Some 0, two_rules)
    \<and> (\<exists>st'. PCD_rulesdb_get_rule_by_id (Some \<lparr>groupName = ''net'', ruleName = ''d7''\<rparr>) two_rules
        = Inr (Some 2, st') \<and> proc (rules st' 2) = Some 9 \<and> proc (rules st' 1) = Some 9)"
proof
  show "PCD_rulesdb_get_rule_by_id (Some \<lparr>groupName = ''net'', ruleName = ''b''\<rparr>) two_rules
      = Inr (Some 0, two_rules)"
    using get_rule_by_id_cases [OF two_rules_ok, of "\<lparr>groupName = ''net'', ruleName = ''b''\<rparr>"]
    by (simp add: two_rules_map)
  have "brk two_rules = 2" "proc (rules two_rules 1) = Some 9"
    by (simp_all add: two_rules_def)
  then show "\<exists>st'. PCD_rulesdb_get_rule_by_id (Some \<lparr>groupName = ''net'', ruleName = ''d7''\<rparr>) two_rules
        = Inr (Some 2, st') \<and> proc (rules st' 2) = Some 9 \<and> proc (rules st' 1) = Some 9"
    using get_rule_by_id_cases [OF two_rules_ok, of "\<lparr>groupName = ''net'', ruleName = ''d7''\<rparr>"]
    by (auto simp: two_rules_map)
qed

end
