(* ===== verification/Process.thy ===== *)
theory Process imports PcdTypes begin

text \<open>
  The process module of the daemon, first part of \<open>pcd/src/process.c\<close>: creating, starting,
  stopping and signalling process objects, and what the SIGCHLD handler records.  The removal of
  stopped processes, which triggers failure actions, is in theory \<open>ProcessStop\<close>.

  The forked child (parameter expansion, priorities, \<open>execvp\<close>) is not modelled: \<open>fork\<close> is the
  parameter \<open>fork_pid\<close>, and the parent's side is here.
\<close>

section \<open>Process objects\<close>

definition PCD_process_new :: "addr \<Rightarrow> proc_obj" where
  "PCD_process_new rule = \<lparr>p_rule = rule, pid = 0, p_state = PCD_PROCESS_RUNME,
     retstat = PCD_PROCESS_RETNOTHING, retcode = 0, tm = 0, signaled = False, cookie = None\<rparr>"

definition NODE_ADD :: "addr \<Rightarrow> pcd \<Rightarrow> pcd" where
  "NODE_ADD p st = st\<lparr>procList := p # procList st\<rparr>"

definition NODE_DEL :: "addr \<Rightarrow> pcd \<Rightarrow> pcd" where
  "NODE_DEL p st = st\<lparr>procList := remove1 p (procList st)\<rparr>"

definition PCD_process_free :: "addr \<Rightarrow> pcd \<Rightarrow> pcd" where
  "PCD_process_free p st = st\<lparr>procs := (procs st)(p := None)\<rparr>"

fun find_by_state :: "pcd \<Rightarrow> addr list \<Rightarrow> proc_state \<Rightarrow> addr option run" where
  "find_by_state st [] s = Inr None"
| "find_by_state st (p # ps) s =
     bind_run (get_proc st p) (\<lambda>x. if p_state x = s then Inr (Some p) else find_by_state st ps s)"

definition PCD_process_enqueue :: "addr option \<Rightarrow> pcd \<Rightarrow> PCD_status \<times> pcd" where
  "PCD_process_enqueue rule st = (case rule of
      None \<Rightarrow> (PCD_STATUS_NOK, st)
    | Some a \<Rightarrow>
        if proc (rules st a) \<noteq> None then (PCD_STATUS_INVALID_RULE, st)
        else let newProc = brk st;
                 st = (set_proc newProc (PCD_process_new a) st)\<lparr>brk := newProc + 1\<rparr>;
                 st = NODE_ADD newProc st
             in (PCD_STATUS_OK, upd_rule a (\<lambda>r. r\<lparr>proc := Some newProc\<rparr>) st))"

definition stoppable :: "proc_state \<Rightarrow> bool" where
  "stoppable s \<longleftrightarrow> s = PCD_PROCESS_STARTING \<or> s = PCD_PROCESS_RUNNING \<or> s = PCD_PROCESS_RUNME"

definition PCD_process_stop ::
  "addr option \<Rightarrow> bool \<Rightarrow> addr option \<Rightarrow> pcd \<Rightarrow> (PCD_status \<times> pcd) run" where
  "PCD_process_stop rule brutal ck st = (case rule of
      None \<Rightarrow> Inr (PCD_STATUS_NOK, st)
    | Some a \<Rightarrow> (case proc (rules st a) of
        None \<Rightarrow> Inr (PCD_STATUS_INVALID_RULE, st)
      | Some p \<Rightarrow> bind_run (get_proc st p) (\<lambda>x.
          let exited = (p_state x = PCD_PROCESS_STOPPED \<or> p_state x = PCD_PROCESS_STOPPING) in
          if \<not> exited \<and> \<not> stoppable (p_state x) then Inr (PCD_STATUS_INVALID_RULE, st)
          else let y = x\<lparr>signaled := (exited \<or> signaled x),
                         p_state := (if brutal then PCD_PROCESS_KILLME else PCD_PROCESS_TERMME),
                         tm := 0, cookie := ck\<rparr>
               in Inr (PCD_STATUS_OK, upd_rule a (\<lambda>r. r\<lparr>proc := None\<rparr>) (set_proc p y st)))))"

definition send_signal :: "int \<Rightarrow> int \<Rightarrow> pcd \<Rightarrow> pcd" where
  "send_signal q sig st = st\<lparr>kills := kills st @ [(q, sig)]\<rparr>"

definition PCD_process_signal_by_rule :: "addr option \<Rightarrow> int \<Rightarrow> pcd \<Rightarrow> (PCD_status \<times> pcd) run" where
  "PCD_process_signal_by_rule rule sig st = (case rule of
      None \<Rightarrow> Inr (PCD_STATUS_NOK, st)
    | Some a \<Rightarrow> (case proc (rules st a) of
        None \<Rightarrow> Inr (PCD_STATUS_INVALID_RULE, st)
      | Some p \<Rightarrow> bind_run (get_proc st p) (\<lambda>x.
          if p_state x = PCD_PROCESS_STARTING \<or> p_state x = PCD_PROCESS_RUNNING
          then Inr (PCD_STATUS_OK, send_signal (pid x) sig st)
          else Inr (PCD_STATUS_INVALID_RULE, st))))"

fun rule_of_pid :: "pcd \<Rightarrow> int \<Rightarrow> addr list \<Rightarrow> addr option run" where
  "rule_of_pid st q [] = Inr None"
| "rule_of_pid st q (p # ps) =
     bind_run (get_proc st p) (\<lambda>x. if pid x = q then Inr (Some (p_rule x)) else rule_of_pid st q ps)"

definition PCD_process_get_rule_by_pid :: "int \<Rightarrow> pcd \<Rightarrow> addr option run" where
  "PCD_process_get_rule_by_pid q st = rule_of_pid st q (procList st)"

section \<open>SIGCHLD\<close>

text \<open>The three ways a wait status is decoded.\<close>

datatype wait_status = WExited int | WSignaled int | WStopped int

definition record_exit :: "wait_status \<Rightarrow> proc_obj \<Rightarrow> proc_obj" where
  "record_exit w x = (case w of
      WExited c \<Rightarrow> x\<lparr>retstat := PCD_PROCESS_RETEXITED, retcode := c, p_state := PCD_PROCESS_STOPPING\<rparr>
    | WSignaled c \<Rightarrow> x\<lparr>retstat := PCD_PROCESS_RETSIGNALED, retcode := c, p_state := PCD_PROCESS_STOPPING\<rparr>
    | WStopped c \<Rightarrow> x\<lparr>retstat := PCD_PROCESS_RETSTOPPED, retcode := c, p_state := PCD_PROCESS_STOPPING\<rparr>)"

fun process_chld :: "int \<Rightarrow> wait_status \<Rightarrow> addr list \<Rightarrow> pcd \<Rightarrow> pcd run" where
  "process_chld q w [] st = Inr st"
| "process_chld q w (p # ps) st = bind_run (get_proc st p) (\<lambda>x.
     if pid x = q then Inr (set_proc p (record_exit w x) st) else process_chld q w ps st)"

definition PCD_process_chld :: "int \<Rightarrow> wait_status \<Rightarrow> pcd \<Rightarrow> pcd run" where
  "PCD_process_chld q w st = process_chld q w (procList st) st"

text \<open>The handler reaps until \<open>waitpid\<close> has nothing more.\<close>

fun PCD_process_chld_handler :: "(int \<times> wait_status) list \<Rightarrow> pcd \<Rightarrow> pcd run" where
  "PCD_process_chld_handler [] st = Inr st"
| "PCD_process_chld_handler ((q, w) # ws) st = (if q > 0
     then bind_run (PCD_process_chld q w st) (PCD_process_chld_handler ws) else Inr st)"

section \<open>Starting\<close>

text \<open>The parent's side: the result of \<open>fork\<close> is stored whatever it is.\<close>

definition PCD_process_spawn :: "pcd_os \<Rightarrow> addr \<Rightarrow> proc_obj \<Rightarrow> pcd \<Rightarrow> pcd" where
  "PCD_process_spawn os p x st =
     set_proc p (x\<lparr>pid := fork_pid os p, p_state := PCD_PROCESS_STARTING, tm := 3\<rparr>) st"

definition start_node :: "pcd_os \<Rightarrow> addr \<Rightarrow> pcd \<Rightarrow> pcd run" where
  "start_node os p st = bind_run (get_proc st p) (\<lambda>x. case p_state x of
      PCD_PROCESS_RUNME \<Rightarrow> Inr (PCD_process_spawn os p x st)
    | PCD_PROCESS_STARTING \<Rightarrow>
        Inr (set_proc p (if tm x = 0 then x\<lparr>p_state := PCD_PROCESS_RUNNING\<rparr> else x\<lparr>tm := tm x - 1\<rparr>) st)
    | _ \<Rightarrow> Inr st)"

fun start_walk :: "pcd_os \<Rightarrow> addr list \<Rightarrow> pcd \<Rightarrow> pcd run" where
  "start_walk os [] st = Inr st"
| "start_walk os (p # ps) st = bind_run (start_node os p st) (start_walk os ps)"

definition PCD_process_iterate_start :: "pcd_os \<Rightarrow> pcd \<Rightarrow> (PCD_status \<times> pcd) run" where
  "PCD_process_iterate_start os st =
     bind_run (start_walk os (procList st) st) (\<lambda>st. Inr (PCD_STATUS_OK, st))"

section \<open>Reboot\<close>

text \<open>Process group 0 is the daemon and its children, process 1 is init.\<close>

definition PCD_process_reboot :: "bool \<Rightarrow> pcd \<Rightarrow> pcd run" where
  "PCD_process_reboot debugMode st =
     (if \<not> debugMode then Inr (send_signal 1 SIGTERM (send_signal 0 SIGTERM st)) else Inl (Exited 1))"

text \<open>The handler of SIGTERM and of the fault signals: it never returns.\<close>

definition PCD_process_terminate :: "bool \<Rightarrow> pcd \<Rightarrow> pcd run" where
  "PCD_process_terminate debugMode st =
     bind_run (PCD_process_reboot debugMode (st\<lparr>timerEnabled := False\<rparr>)) (\<lambda>st. Inl (Exited 1))"

end
