(* ===== verification/CondChk.thy ===== *)
theory CondChk imports RulesDb Process begin

text \<open>
  Start and end conditions, \<open>pcd/src/condchk.c\<close>, and failure actions, \<open>pcd/src/failact.c\<close>.  The
  function tables are indexed by the condition type; here the type is the constructor.
\<close>

section \<open>Start conditions\<close>

definition set_cache :: "addr \<Rightarrow> nat \<Rightarrow> addr option \<Rightarrow> pcd \<Rightarrow> pcd" where
  "set_cache a i v = upd_rule a (\<lambda>r. r\<lparr>startCondition := (case startCondition r of
      START_RULE_COMPLETED cs \<Rightarrow> START_RULE_COMPLETED (cs[i := (cs ! i)\<lparr>rc_rule := v\<rparr>])
    | c \<Rightarrow> c)\<rparr>)"

text \<open>The loop over the identifiers from index \<open>i\<close> on; the list ends at the first empty name.\<close>

fun check_completed :: "addr \<Rightarrow> nat \<Rightarrow> rule_cache list \<Rightarrow> pcd \<Rightarrow> (PCD_status \<times> pcd) run" where
  "check_completed a i [] st = Inr (if i > 0 then PCD_STATUS_OK else PCD_STATUS_NOK, st)"
| "check_completed a i (c # cs) st =
     (if groupName (rc_id c) = [] then Inr (if i > 0 then PCD_STATUS_OK else PCD_STATUS_NOK, st)
      else bind_run
        (case rc_rule c of
           Some b \<Rightarrow> Inr (Some b, st)
         | None \<Rightarrow> bind_run (PCD_rulesdb_get_rule_by_id (Some (rc_id c)) st) (\<lambda>(b, st).
             Inr (b, set_cache a i b st)))
        (\<lambda>(checkRule, st). case checkRule of
           None \<Rightarrow> Inr (PCD_STATUS_NOK, set_state a PCD_RULE_NOT_COMPLETED st)
         | Some b \<Rightarrow>
             if ruleState (rules st b) \<noteq> PCD_RULE_COMPLETED then Inr (PCD_STATUS_NOK, st)
             else check_completed a (i + 1) cs st))"

definition PCD_start_cond_check :: "pcd_os \<Rightarrow> addr \<Rightarrow> pcd \<Rightarrow> (PCD_status \<times> pcd) run" where
  "PCD_start_cond_check os a st = (case startCondition (rules st a) of
      START_NONE \<Rightarrow> Inr (PCD_STATUS_OK, st)
    | START_FILE f \<Rightarrow> Inr (if stat_ok os f then PCD_STATUS_OK else PCD_STATUS_NOK, st)
    | START_RULE_COMPLETED cs \<Rightarrow> check_completed a 0 (take PCD_START_COND_MAX_IDS cs) st
    | START_NETDEVICE d \<Rightarrow> Inr (if netdev_ok os d then PCD_STATUS_OK else PCD_STATUS_NOK, st)
    | START_IPC_OWNER w \<Rightarrow> Inr (ipc_owner os w, st)
    | START_ENV_VAR n v \<Rightarrow>
        Inr (if env_var os n = Some v then PCD_STATUS_OK else PCD_STATUS_NOK, st))"

section \<open>End conditions\<close>

definition PCD_end_cond_check_EXIT :: "u32 \<Rightarrow> addr \<Rightarrow> pcd \<Rightarrow> (PCD_status \<times> pcd) run" where
  "PCD_end_cond_check_EXIT exitStatus a st = (case proc (rules st a) of
      None \<Rightarrow> Inr (PCD_STATUS_NOK, st)
    | Some p \<Rightarrow> bind_run (get_proc st p) (\<lambda>x.
        Inr (if retstat x = PCD_PROCESS_RETEXITED \<and> word_of_int (retcode x) = exitStatus
             then PCD_STATUS_OK else PCD_STATUS_NOK, st)))"

definition PCD_end_cond_check_WAIT :: "u32 \<Rightarrow> u32 \<Rightarrow> addr \<Rightarrow> pcd \<Rightarrow> PCD_status \<times> pcd" where
  "PCD_end_cond_check_WAIT d0 d1 a st =
     (if d0 < timerTick st
      then (PCD_STATUS_OK, upd_rule a (\<lambda>r. r\<lparr>endCondition := END_WAIT d1 d1\<rparr>) st)
      else (PCD_STATUS_NOK, upd_rule a (\<lambda>r. r\<lparr>endCondition := END_WAIT (d0 - timerTick st) d1\<rparr>) st))"

definition PCD_end_cond_check :: "pcd_os \<Rightarrow> addr \<Rightarrow> pcd \<Rightarrow> (PCD_status \<times> pcd) run" where
  "PCD_end_cond_check os a st = (case endCondition (rules st a) of
      END_NONE \<Rightarrow> Inr (PCD_STATUS_OK, st)
    | END_FILE f \<Rightarrow> Inr (if stat_ok os f then PCD_STATUS_OK else PCD_STATUS_NOK, st)
    | END_EXIT c \<Rightarrow> PCD_end_cond_check_EXIT c a st
    | END_NETDEVICE d \<Rightarrow> Inr (if netdev_ok os d then PCD_STATUS_OK else PCD_STATUS_NOK, st)
    | END_IPC_OWNER w \<Rightarrow> Inr (ipc_owner os w, st)
    | END_PROCESS_READY ready \<Rightarrow>
        if ready then Inr (PCD_STATUS_OK, upd_rule a (\<lambda>r. r\<lparr>endCondition := END_PROCESS_READY False\<rparr>) st)
        else Inr (PCD_STATUS_NOK, st)
    | END_WAIT d0 d1 \<Rightarrow> Inr (PCD_end_cond_check_WAIT d0 d1 a st))"

section \<open>Failure actions\<close>

definition PCD_failure_action_RESTART :: "addr option \<Rightarrow> pcd \<Rightarrow> (addr option \<times> pcd) run" where
  "PCD_failure_action_RESTART rule st = (case rule of
      None \<Rightarrow> Inr (None, st)
    | Some a \<Rightarrow>
        if proc (rules st a) \<noteq> None
        then bind_run (PCD_process_stop (Some a) True None st) (\<lambda>(s, st). Inr (Some a, st))
        else Inr (Some a, st))"

definition PCD_failure_action_EXEC_RULE :: "rule_id \<Rightarrow> pcd \<Rightarrow> (addr option \<times> pcd) run" where
  "PCD_failure_action_EXEC_RULE rid st =
     bind_run (PCD_rulesdb_get_rule_by_id (Some rid) st) (\<lambda>(execRule, st). case execRule of
       None \<Rightarrow> Inr (None, st)
     | Some b \<Rightarrow>
         if rule_active (rules st b) then Inr (None, st)
         else PCD_failure_action_RESTART (Some b) st)"

text \<open>REBOOT signals the daemon itself, whose handler reboots the system and exits.\<close>

definition PCD_failure_action :: "addr \<Rightarrow> pcd \<Rightarrow> (addr option \<times> pcd) run" where
  "PCD_failure_action a st = (case failureAction (rules st a) of
      FAIL_NONE \<Rightarrow> Inr (None, st)
    | FAIL_REBOOT \<Rightarrow> Inl (Exited 1)
    | FAIL_RESTART \<Rightarrow> PCD_failure_action_RESTART (Some a) st
    | FAIL_EXEC_RULE rid \<Rightarrow> PCD_failure_action_EXEC_RULE rid st)"

end
