(* ===== verification/Timer.thy ===== *)
theory Timer imports CondChk begin

text \<open>
  The timer module, \<open>pcd/src/timer.c\<close>: the queue of rules that wait for their start or end
  condition, one pass of \<open>PCD_timer_iterate\<close> over it, and the delayed enqueueing and dequeueing at
  the end of a pass; with it the activation of the rules database, the last function of
  \<open>rules_db.c\<close>.  While a pass walks the queue no handler inserts into it or removes from it, so the
  walk is over the queue at its start.  The environment answers the check of each timer object
  separately.
\<close>

section \<open>Queue operations\<close>

definition PCD_timer_new :: "addr option \<Rightarrow> pcd \<Rightarrow> addr option \<times> pcd" where
  "PCD_timer_new rule st = (case rule of
      None \<Rightarrow> (None, st)
    | Some a \<Rightarrow>
        let t = brk st in
        (Some t, (set_timer t \<lparr>t_rule = a, t_timeout = timeout (rules st a)\<rparr> st)\<lparr>brk := t + 1\<rparr>))"

definition PCD_timer_enqueue :: "addr \<Rightarrow> pcd \<Rightarrow> pcd" where
  "PCD_timer_enqueue t st = st\<lparr>timerQueue := timerQueue st @ [t]\<rparr>"

text \<open>Unlinks and frees; a second time would go through freed memory.\<close>

definition PCD_timer_dequeue :: "addr \<Rightarrow> pcd \<Rightarrow> pcd run" where
  "PCD_timer_dequeue t st = bind_run (get_timer st t) (\<lambda>x.
     Inr (st\<lparr>timerQueue := remove1 t (timerQueue st), timerObjs := (timerObjs st)(t := None)\<rparr>))"

definition PCD_timer_enqueue_rule :: "addr option \<Rightarrow> pcd \<Rightarrow> PCD_status \<times> pcd" where
  "PCD_timer_enqueue_rule rule st = (case rule of
      None \<Rightarrow> (PCD_STATUS_NOK, st)
    | Some a \<Rightarrow>
        if rule_active (rules st a) \<or> proc (rules st a) \<noteq> None then (PCD_STATUS_INVALID_RULE, st)
        else (case PCD_timer_new (Some a) st of
            (None, st) \<Rightarrow> (PCD_STATUS_NOK, st)
          | (Some t, st) \<Rightarrow>
              (PCD_STATUS_OK, PCD_timer_enqueue t (set_state a PCD_RULE_START_CONDITION_WAITING st))))"

fun timer_of_rule :: "pcd \<Rightarrow> addr \<Rightarrow> addr list \<Rightarrow> addr option run" where
  "timer_of_rule st a [] = Inr None"
| "timer_of_rule st a (t # ts) =
     bind_run (get_timer st t) (\<lambda>x. if t_rule x = a then Inr (Some t) else timer_of_rule st a ts)"

definition dequeued_state :: "bool \<Rightarrow> rule_state \<Rightarrow> rule_state" where
  "dequeued_state failed s =
     (if failed then PCD_RULE_FAILED
      else if s \<noteq> PCD_RULE_COMPLETED \<and> s \<noteq> PCD_RULE_IDLE then PCD_RULE_NOT_COMPLETED else s)"

definition PCD_timer_dequeue_rule :: "addr option \<Rightarrow> bool \<Rightarrow> pcd \<Rightarrow> (PCD_status \<times> pcd) run" where
  "PCD_timer_dequeue_rule rule failed st = (case rule of
      None \<Rightarrow> Inr (PCD_STATUS_NOK, st)
    | Some a \<Rightarrow> bind_run (timer_of_rule st a (timerQueue st)) (\<lambda>found. case found of
        None \<Rightarrow> Inr (PCD_STATUS_INVALID_RULE, st)
      | Some t \<Rightarrow>
          bind_run (if proc (rules st a) \<noteq> None then PCD_process_stop (Some a) False None st
                    else Inr (PCD_STATUS_OK, st)) (\<lambda>(s, st).
          bind_run (PCD_timer_dequeue t st) (\<lambda>st.
            Inr (PCD_STATUS_OK, set_state a (dequeued_state failed (ruleState (rules st a))) st)))))"

definition add_to_dequeue_list :: "addr \<Rightarrow> pcd \<Rightarrow> pcd" where
  "add_to_dequeue_list t st = st\<lparr>dequeueList := t # dequeueList st\<rparr>"

definition add_to_enqueue_list :: "addr option \<Rightarrow> pcd \<Rightarrow> pcd" where
  "add_to_enqueue_list rule st = (case rule of
      None \<Rightarrow> st
    | Some a \<Rightarrow> st\<lparr>enqueueList := a # enqueueList st\<rparr>)"

fun dequeue_all :: "addr list \<Rightarrow> pcd \<Rightarrow> pcd run" where
  "dequeue_all [] st = Inr st"
| "dequeue_all (t # ts) st = bind_run (PCD_timer_dequeue t st) (dequeue_all ts)"

definition PCD_timer_dequeue_handle :: "pcd \<Rightarrow> pcd run" where
  "PCD_timer_dequeue_handle st =
     bind_run (dequeue_all (dequeueList st) st) (\<lambda>st. Inr (st\<lparr>dequeueList := []\<rparr>))"

fun enqueue_all :: "addr list \<Rightarrow> pcd \<Rightarrow> pcd" where
  "enqueue_all [] st = st"
| "enqueue_all (a # as) st = (case PCD_timer_new (Some a) st of
      (None, st) \<Rightarrow> st
    | (Some t, st) \<Rightarrow>
        enqueue_all as (PCD_timer_enqueue t (set_state a PCD_RULE_START_CONDITION_WAITING st)))"

definition PCD_timer_enqueue_handle :: "pcd \<Rightarrow> pcd" where
  "PCD_timer_enqueue_handle st = (enqueue_all (enqueueList st) st)\<lparr>enqueueList := []\<rparr>"

section \<open>Handling a rule\<close>

definition fail_timer :: "addr \<Rightarrow> addr \<Rightarrow> rule_state \<Rightarrow> pcd \<Rightarrow> pcd run" where
  "fail_timer t a s st =
     bind_run (PCD_failure_action a (add_to_dequeue_list t (set_state a s st)))
       (\<lambda>(next_rule, st). Inr (add_to_enqueue_list next_rule st))"

definition PCD_timer_handle_start_condition :: "pcd_os \<Rightarrow> addr \<Rightarrow> pcd \<Rightarrow> (bool \<times> pcd) run" where
  "PCD_timer_handle_start_condition os t st = bind_run (get_timer st t) (\<lambda>x.
     let a = t_rule x in
     bind_run (PCD_start_cond_check os a st) (\<lambda>(retval, st).
     if retval = PCD_STATUS_OK then
       bind_run (deref (command (rules st a))) (\<lambda>cmd.
       if strcmp cmd ''NONE'' = 0 then Inr (False, set_state a PCD_RULE_END_CONDITION_WAITING st)
       else (case PCD_process_enqueue (Some a) st of (retval, st) \<Rightarrow>
         if retval = PCD_STATUS_OK then Inr (True, set_state a PCD_RULE_END_CONDITION_WAITING st)
         else if retval = PCD_STATUS_INVALID_RULE then
           bind_run (PCD_process_stop (Some a) True None st) (\<lambda>(s, st). Inr (True, st))
         else bind_run (fail_timer t a PCD_RULE_FAILED st) (\<lambda>st. Inr (False, st))))
     else Inr (False, st)))"

text \<open>A timeout of \<open>~0\<close> is no timeout.\<close>

definition PCD_timer_handle_end_condition :: "pcd_os \<Rightarrow> addr \<Rightarrow> pcd \<Rightarrow> (bool \<times> pcd) run" where
  "PCD_timer_handle_end_condition os t st = bind_run (get_timer st t) (\<lambda>x.
     let a = t_rule x in
     bind_run (PCD_end_cond_check os a st) (\<lambda>(retval, st).
     if retval = PCD_STATUS_OK then
       Inr (False, add_to_dequeue_list t (set_state a PCD_RULE_COMPLETED st))
     else if t_timeout x = - 1 then Inr (False, st)
     else if t_timeout x = 0 then
       bind_run (if proc (rules st a) \<noteq> None then PCD_process_stop (Some a) True None st
                 else Inr (PCD_STATUS_OK, st)) (\<lambda>(s, st).
       bind_run (fail_timer t a PCD_RULE_NOT_COMPLETED st) (\<lambda>st. Inr (True, st)))
     else if t_timeout x \<le> timerTick st then Inr (False, set_timer t (x\<lparr>t_timeout := 0\<rparr>) st)
     else Inr (False, set_timer t (x\<lparr>t_timeout := t_timeout x - timerTick st\<rparr>) st)))"

definition timer_node :: "pcd_os \<Rightarrow> addr \<Rightarrow> pcd \<Rightarrow> (bool \<times> pcd) run" where
  "timer_node os t st = bind_run (get_timer st t) (\<lambda>x.
     case ruleState (rules st (t_rule x)) of
       PCD_RULE_START_CONDITION_WAITING \<Rightarrow> PCD_timer_handle_start_condition os t st
     | PCD_RULE_END_CONDITION_WAITING \<Rightarrow> PCD_timer_handle_end_condition os t st
     | _ \<Rightarrow> Inr (False, add_to_dequeue_list t st))"

fun timer_walk :: "(addr \<Rightarrow> pcd_os) \<Rightarrow> addr list \<Rightarrow> bool \<Rightarrow> pcd \<Rightarrow> (bool \<times> pcd) run" where
  "timer_walk env [] flag st = Inr (flag, st)"
| "timer_walk env (t # ts) flag st =
     bind_run (timer_node (env t) t st) (\<lambda>(f, st). timer_walk env ts (flag \<or> f) st)"

definition PCD_timer_iterate :: "(addr \<Rightarrow> pcd_os) \<Rightarrow> pcd \<Rightarrow> (bool \<times> pcd) run" where
  "PCD_timer_iterate env st =
     (if \<not> timerEnabled st \<or> timerQueue st = [] then Inr (False, st)
      else bind_run (timer_walk env (timerQueue st) False st) (\<lambda>(processFlag, st).
        bind_run (PCD_timer_dequeue_handle st) (\<lambda>st.
          Inr (processFlag, PCD_timer_enqueue_handle st))))"

definition PCD_timer_init :: "pcd \<Rightarrow> PCD_status \<times> pcd" where
  "PCD_timer_init st = (PCD_STATUS_OK, st)"

definition PCD_timer_start :: "pcd \<Rightarrow> PCD_status \<times> pcd" where
  "PCD_timer_start st = (PCD_STATUS_OK, st\<lparr>timerEnabled := True\<rparr>)"

definition PCD_timer_stop :: "pcd \<Rightarrow> PCD_status \<times> pcd" where
  "PCD_timer_stop st = (PCD_STATUS_OK, st\<lparr>timerEnabled := False\<rparr>)"

section \<open>Activation of the database\<close>

partial_function (option) activate_loop :: "addr option \<Rightarrow> pcd \<Rightarrow> (PCD_status \<times> pcd) option" where
  "activate_loop rule st = (case rule of
      None \<Rightarrow> Some (PCD_STATUS_OK, st)
    | Some a \<Rightarrow>
        (let (s, st) = (if ruleState (rules st a) = PCD_RULE_ACTIVE then PCD_timer_enqueue_rule (Some a) st
                        else (PCD_STATUS_OK, st))
         in if s \<noteq> PCD_STATUS_OK then Some (PCD_STATUS_NOK, st)
            else let (nxt, st) = PCD_rulesdb_get_next st in activate_loop nxt st))"

definition PCD_rulesdb_activate :: "pcd \<Rightarrow> (PCD_status \<times> pcd) run" where
  "PCD_rulesdb_activate st =
     (let (rule, st) = PCD_rulesdb_get_first st in run_of (map_option Inr (activate_loop rule st)))"

end
