(* ===== verification/PcdParser.thy ===== *)
theory PcdParser imports CStrings Timer begin

text \<open>
  The parser of the rules file, \<open>pcd/src/parser.c\<close>: one handler per keyword on the rule that is being
  assembled, the status word that makes the seven mandatory keywords come in their order, the reader
  with its include files, and the hand-over of complete rules to the database.

  The file system is the parameter \<open>files\<close>, the password database \<open>users\<close>; the printing of rules and
  of error texts is left out.  Includes recurse, so the reader has fuel: the depth of nested files.
\<close>

section \<open>Keywords\<close>

datatype parserKeywords_e =
    KW_RULE
  | KW_START_COND
  | KW_COMMAND
  | KW_END_COND
  | KW_END_COND_TIMEOUT
  | KW_FAILURE_ACTION
  | KW_ACTIVE
  | KW_SCHED
  | KW_DAEMON
  | KW_USER
  | KW_VERSION
  | KW_INCLUDE

definition keywordHandlersList :: "parserKeywords_e list" where
  "keywordHandlersList = [KW_RULE, KW_START_COND, KW_COMMAND, KW_END_COND, KW_END_COND_TIMEOUT,
     KW_FAILURE_ACTION, KW_ACTIVE, KW_SCHED, KW_DAEMON, KW_USER, KW_VERSION, KW_INCLUDE]"

fun kw_name :: "parserKeywords_e \<Rightarrow> string" where
  "kw_name KW_RULE = ''RULE''"
| "kw_name KW_START_COND = ''START_COND''"
| "kw_name KW_COMMAND = ''COMMAND''"
| "kw_name KW_END_COND = ''END_COND''"
| "kw_name KW_END_COND_TIMEOUT = ''END_COND_TIMEOUT''"
| "kw_name KW_FAILURE_ACTION = ''FAILURE_ACTION''"
| "kw_name KW_ACTIVE = ''ACTIVE''"
| "kw_name KW_SCHED = ''SCHED''"
| "kw_name KW_DAEMON = ''DAEMON''"
| "kw_name KW_USER = ''USER''"
| "kw_name KW_VERSION = ''VERSION''"
| "kw_name KW_INCLUDE = ''INCLUDE''"

fun mandatory_flag :: "parserKeywords_e \<Rightarrow> bool" where
  "mandatory_flag KW_SCHED = False"
| "mandatory_flag KW_DAEMON = False"
| "mandatory_flag KW_USER = False"
| "mandatory_flag KW_VERSION = False"
| "mandatory_flag KW_INCLUDE = False"
| "mandatory_flag k = True"

definition PCD_PARSER_DELIMITERS :: string where
  "PCD_PARSER_DELIMITERS = [CHR '','', CHR '' '', TAB]"

section \<open>State\<close>

text \<open>The file-scope variables; \<open>parse_flag\<close> are the run-time entries of the keyword table.\<close>

record parser =
  cur :: rule
  fileVersion :: int
  readParseStatus :: u32
  writableParseStatus :: u32
  lineNumber :: u32
  totalRuleRecords :: u32
  parse_flag :: "parserKeywords_e \<Rightarrow> u32"
  rulesdb :: pcd

definition parser_init :: "pcd \<Rightarrow> parser" where
  "parser_init db = \<lparr>cur = blank_rule, fileVersion = - 1, readParseStatus = 0, writableParseStatus = 0,
     lineNumber = 0, totalRuleRecords = 0, parse_flag = (\<lambda>k. 0), rulesdb = db\<rparr>"

definition set_cur :: "(rule \<Rightarrow> rule) \<Rightarrow> parser \<Rightarrow> parser" where
  "set_cur f st = st\<lparr>cur := f (cur st)\<rparr>"

text \<open>The loop over the table with its index.\<close>

fun init_flags :: "nat \<Rightarrow> parserKeywords_e list \<Rightarrow> parser \<Rightarrow> parser" where
  "init_flags index [] st = st"
| "init_flags index (k # ks) st = init_flags (Suc index) ks
     (if mandatory_flag k
      then st\<lparr>parse_flag := (parse_flag st)(k := push_bit index 1),
              writableParseStatus := writableParseStatus st OR push_bit index 1\<rparr>
      else st)"

definition PCD_parser_init_kwHandlersList :: "parser \<Rightarrow> parser" where
  "PCD_parser_init_kwHandlersList st =
     (init_flags 0 keywordHandlersList (st\<lparr>writableParseStatus := 0\<rparr>))\<lparr>cur := blank_rule\<rparr>"

section \<open>The status word\<close>

definition PCD_parser_is_parse_status_set :: "parserKeywords_e \<Rightarrow> parser \<Rightarrow> bool" where
  "PCD_parser_is_parse_status_set k st \<longleftrightarrow> readParseStatus st AND parse_flag st k \<noteq> 0"

text \<open>
  The first keyword that was not read yet must be the one at hand.  The endless-looking loop of the
  other case only looks for the name in the error message and finds one.
\<close>

definition PCD_parser_update_parse_status :: "parserKeywords_e \<Rightarrow> parser \<Rightarrow> int \<times> parser" where
  "PCD_parser_update_parse_status kwId st =
     (case find (\<lambda>k. readParseStatus st AND parse_flag st k = 0) keywordHandlersList of
        None \<Rightarrow> (- 1, st)
      | Some k \<Rightarrow> if strcmp (kw_name k) (kw_name kwId) \<noteq> 0 then (- 1, st)
          else (0, st\<lparr>readParseStatus := readParseStatus st OR parse_flag st k\<rparr>))"

text \<open>All flags from the keyword on.\<close>

definition PCD_parser_clear_parse_status :: "parserKeywords_e \<Rightarrow> parser \<Rightarrow> parser" where
  "PCD_parser_clear_parse_status kwId st =
     fold (\<lambda>k st. st\<lparr>readParseStatus := readParseStatus st AND NOT (parse_flag st k)\<rparr>)
       (dropWhile (\<lambda>k. k \<noteq> kwId) keywordHandlersList) st"

definition PCD_parser_add_rule :: "rule \<Rightarrow> parser \<Rightarrow> int \<times> parser" where
  "PCD_parser_add_rule r st = (case PCD_rulesdb_add_rule (Some r) (rulesdb st) of
      (s, db) \<Rightarrow> if s = PCD_STATUS_OK
        then (0, st\<lparr>rulesdb := db, totalRuleRecords := totalRuleRecords st + 1\<rparr>)
        else (- 1, st\<lparr>rulesdb := db\<rparr>))"

definition PCD_parser_write_rule_to_db :: "parserKeywords_e \<Rightarrow> parser \<Rightarrow> int \<times> parser" where
  "PCD_parser_write_rule_to_db kwId st =
     (if readParseStatus st \<noteq> writableParseStatus st then (- 1, st)
      else case PCD_parser_add_rule (cur st) st of (r, st) \<Rightarrow>
        if r \<noteq> 0 then (- 1, st) else (0, PCD_parser_clear_parse_status kwId st))"

section \<open>Handlers\<close>

definition PCD_RULEID_MAX_GROUP_NAME_SIZE :: nat where "PCD_RULEID_MAX_GROUP_NAME_SIZE = 16"
definition PCD_RULEID_MAX_RULE_NAME_SIZE :: nat where "PCD_RULEID_MAX_RULE_NAME_SIZE = 16"
definition PCD_COND_MAX_SIZE :: nat where "PCD_COND_MAX_SIZE = 32"
definition IF_NAMESIZE :: nat where "IF_NAMESIZE = 16"

text \<open>\<open>None\<close>: an error; the caller's identifier was cleared.\<close>

definition PCD_parser_parse_rule_id :: "string \<Rightarrow> rule_id option" where
  "PCD_parser_parse_rule_id line = (case after_char (CHR ''_'') line of
      None \<Rightarrow> None
    | Some token2 \<Rightarrow> Some \<lparr>groupName = take (PCD_RULEID_MAX_GROUP_NAME_SIZE - 1) (cut_at (CHR ''_'') line),
        ruleName = take (PCD_RULEID_MAX_RULE_NAME_SIZE - 1) token2\<rparr>)"

definition no_id :: rule_id where
  "no_id = \<lparr>groupName = [], ruleName = []\<rparr>"

definition handle_VERSION :: "string \<Rightarrow> parser \<Rightarrow> int \<times> parser" where
  "handle_VERSION line st = (0, st\<lparr>fileVersion := atoi line\<rparr>)"

definition handle_ACTIVE :: "string \<Rightarrow> parser \<Rightarrow> int \<times> parser" where
  "handle_ACTIVE line st = (case PCD_parser_update_parse_status KW_ACTIVE st of (r, st) \<Rightarrow>
     if r \<noteq> 0 then (- 1, st)
     else (0, set_cur (\<lambda>r. r\<lparr>ruleState :=
            (if strcmp line ''YES'' = 0 then PCD_RULE_ACTIVE else PCD_RULE_IDLE)\<rparr>) st))"

definition handle_INCLUDE ::
  "(string \<Rightarrow> parser \<Rightarrow> (int \<times> parser) run) \<Rightarrow> string \<Rightarrow> parser \<Rightarrow> (int \<times> parser) run" where
  "handle_INCLUDE read_config line st =
     bind_run (read_config line (st\<lparr>cur := blank_rule, lineNumber := 0, readParseStatus := 0\<rparr>)) (\<lambda>(_, st').
       Inr (0, st'\<lparr>readParseStatus := readParseStatus st, lineNumber := lineNumber st, cur := cur st\<rparr>))"

definition strip_index :: "rule \<Rightarrow> rule" where
  "strip_index r = (let n = ruleName (ruleId r) in
     if CHR ''$'' \<in> set n
     then r\<lparr>ruleId := (ruleId r)\<lparr>ruleName := cut_at (CHR ''$'') n\<rparr>, indexed := True\<rparr> else r)"

definition handle_RULE :: "string \<Rightarrow> parser \<Rightarrow> int \<times> parser" where
  "handle_RULE line st =
     (case (if PCD_parser_is_parse_status_set KW_RULE st
            then (case PCD_parser_write_rule_to_db KW_RULE st of (r, st) \<Rightarrow>
              if r \<noteq> 0 then (- 1, st) else (0, st\<lparr>cur := blank_rule\<rparr>))
            else (0 :: int, st)) of (r, st) \<Rightarrow>
      if r \<noteq> 0 then (- 1, st)
      else case PCD_parser_update_parse_status KW_RULE st of (r, st) \<Rightarrow>
      if r \<noteq> 0 then (- 1, st)
      else case PCD_parser_parse_rule_id line of
        None \<Rightarrow> (- 1, set_cur (\<lambda>r. r\<lparr>ruleId := no_id\<rparr>) st)
      | Some rid \<Rightarrow> (0, set_cur (\<lambda>r. strip_index (r\<lparr>ruleId := rid\<rparr>)) st))"

text \<open>The identifiers of RULE_COMPLETED, at most eight; \<open>None\<close> when one has no underscore.\<close>

fun parse_completed :: "nat \<Rightarrow> string \<Rightarrow> rule_cache list option" where
  "parse_completed 0 s = Some []"
| "parse_completed (Suc n) s = (case strtok PCD_PARSER_DELIMITERS s of
      (None, _) \<Rightarrow> Some []
    | (Some token, s) \<Rightarrow> (case PCD_parser_parse_rule_id
          (take (PCD_RULEID_MAX_GROUP_NAME_SIZE + PCD_RULEID_MAX_RULE_NAME_SIZE + 1) token) of
        None \<Rightarrow> None
      | Some rid \<Rightarrow> map_option ((#) \<lparr>rc_rule = None, rc_id = rid\<rparr>) (parse_completed n s)))"

text \<open>
  The name of an environment variable that fills its buffer is not terminated: it runs on into the
  value behind it.
\<close>

definition parse_start_cond :: "string \<Rightarrow> string \<Rightarrow> start_cond option" where
  "parse_start_cond token1 s =
     (if token1 = ''NONE'' then Some START_NONE
      else if token1 = ''RULE_COMPLETED'' then
        (case parse_completed PCD_START_COND_MAX_IDS s of
           None \<Rightarrow> None
         | Some ids \<Rightarrow> if ids = [] then None else Some (START_RULE_COMPLETED ids))
      else case strtok PCD_PARSER_DELIMITERS s of
        (None, _) \<Rightarrow> None
      | (Some token2, s) \<Rightarrow>
          if token1 = ''FILE'' then Some (START_FILE (take (PCD_COND_MAX_SIZE - 1) token2))
          else if token1 = ''NETDEVICE'' then Some (START_NETDEVICE (take (IF_NAMESIZE - 1) token2))
          else if token1 = ''IPC_OWNER'' then Some (START_IPC_OWNER (word_of_int (atoi token2)))
          else (case strtok PCD_PARSER_DELIMITERS s of
              (None, _) \<Rightarrow> None
            | (Some token3, _) \<Rightarrow>
                let v = take PCD_COND_MAX_SIZE token3 in
                Some (START_ENV_VAR (take PCD_COND_MAX_SIZE token2
                  @ (if PCD_COND_MAX_SIZE \<le> length token2 then v else [])) v)))"

definition startCondKeywords :: "string list" where
  "startCondKeywords = [''NONE'', ''FILE'', ''RULE_COMPLETED'', ''NETDEVICE'', ''IPC_OWNER'', ''ENV_VAR'']"

text \<open>An error ends the parsing, and the rule at hand, which is incomplete, is not used again.\<close>

definition handle_START_COND :: "string \<Rightarrow> parser \<Rightarrow> int \<times> parser" where
  "handle_START_COND line st = (case strtok PCD_PARSER_DELIMITERS line of (token1, s) \<Rightarrow>
     case PCD_parser_update_parse_status KW_START_COND st of (r, st) \<Rightarrow>
     if r \<noteq> 0 then (- 1, st)
     else case token1 of
       None \<Rightarrow> (- 1, st)
     | Some t \<Rightarrow>
         if t \<notin> set startCondKeywords then (- 1, st)
         else case parse_start_cond t s of
           None \<Rightarrow> (- 1, st)
         | Some c \<Rightarrow> (0, set_cur (\<lambda>r. r\<lparr>startCondition := c\<rparr>) st))"

definition handle_COMMAND :: "string \<Rightarrow> parser \<Rightarrow> int \<times> parser" where
  "handle_COMMAND line st = (case PCD_parser_update_parse_status KW_COMMAND st of (r, st) \<Rightarrow>
     if r \<noteq> 0 then (- 1, st)
     else (0, set_cur (\<lambda>r. r\<lparr>
         params := (case after_char (CHR '' '') line of Some ps \<Rightarrow> Some ps | None \<Rightarrow> params r),
         command := Some (cut_at (CHR '' '') line)\<rparr>) st))"

definition handle_SCHED :: "string \<Rightarrow> parser \<Rightarrow> int \<times> parser" where
  "handle_SCHED line st = (case strtok PCD_PARSER_DELIMITERS line of (token1, s) \<Rightarrow>
     case (token1, fst (strtok PCD_PARSER_DELIMITERS s)) of
       (Some t1, Some t2) \<Rightarrow>
         (let value = atoi t2 in
          if t1 = ''NICE'' then
            (0, set_cur (\<lambda>r. r\<lparr>sched := PCD_SCHED_TYPE_NICE
                (word_of_int (if value > 19 \<or> value < - 20 then 0 else value))\<rparr>) st)
          else if t1 = ''FIFO'' then
            (0, set_cur (\<lambda>r. r\<lparr>sched := PCD_SCHED_TYPE_FIFO (if value > 99 \<or> value < 0 then 0 else value)\<rparr>) st)
          else (- 1, st))
     | _ \<Rightarrow> (- 1, st))"

definition handle_DAEMON :: "string \<Rightarrow> parser \<Rightarrow> int \<times> parser" where
  "handle_DAEMON line st = (0, set_cur (\<lambda>r. r\<lparr>daemon := (strcmp line ''YES'' = 0)\<rparr>) st)"

definition handle_USER :: "(string \<Rightarrow> u32 option) \<Rightarrow> string \<Rightarrow> parser \<Rightarrow> int \<times> parser" where
  "handle_USER users line st =
     (if \<not> (\<exists>c \<in> set line. isalpha c) then (0, set_cur (\<lambda>r. r\<lparr>uid := ucast (strtoul0 line)\<rparr>) st)
      else case users line of
        None \<Rightarrow> (- 1, st)
      | Some w \<Rightarrow> (0, set_cur (\<lambda>r. r\<lparr>uid := w\<rparr>) st))"

definition endCondKeywords :: "string list" where
  "endCondKeywords = [''NONE'', ''FILE'', ''EXIT'', ''NETDEVICE'', ''IPC_OWNER'', ''PROCESS_READY'', ''WAIT'']"

definition parse_end_cond :: "string \<Rightarrow> string option \<Rightarrow> end_cond option" where
  "parse_end_cond token1 token2 =
     (if token1 = ''NONE'' then Some END_NONE
      else if token1 = ''PROCESS_READY'' then Some (END_PROCESS_READY False)
      else case token2 of
        None \<Rightarrow> None
      | Some t \<Rightarrow>
          if token1 = ''FILE'' then Some (END_FILE (take (PCD_COND_MAX_SIZE - 1) t))
          else if token1 = ''NETDEVICE'' then Some (END_NETDEVICE (take (IF_NAMESIZE - 1) t))
          else if token1 = ''IPC_OWNER'' then Some (END_IPC_OWNER (word_of_int (atoi t)))
          else if token1 = ''EXIT'' then Some (END_EXIT (word_of_int (atoi t)))
          else Some (END_WAIT (word_of_int (atoi t)) (word_of_int (atoi t))))"

definition handle_END_COND :: "string \<Rightarrow> parser \<Rightarrow> int \<times> parser" where
  "handle_END_COND line st = (case strtok PCD_PARSER_DELIMITERS line of (token1, s) \<Rightarrow>
     case PCD_parser_update_parse_status KW_END_COND st of (r, st) \<Rightarrow>
     if r \<noteq> 0 then (- 1, st)
     else case token1 of
       None \<Rightarrow> (- 1, st)
     | Some t \<Rightarrow>
         if t \<notin> set endCondKeywords then (- 1, st)
         else case parse_end_cond t (fst (strtok PCD_PARSER_DELIMITERS s)) of
           None \<Rightarrow> (- 1, st)
         | Some c \<Rightarrow> (0, set_cur (\<lambda>r. r\<lparr>endCondition := c\<rparr>) st))"

definition is_wait :: "end_cond \<Rightarrow> bool" where
  "is_wait c = (case c of END_WAIT _ _ \<Rightarrow> True | _ \<Rightarrow> False)"

definition handle_END_COND_TIMEOUT :: "string \<Rightarrow> parser \<Rightarrow> int \<times> parser" where
  "handle_END_COND_TIMEOUT line st = (let i = atoi line in
     case PCD_parser_update_parse_status KW_END_COND_TIMEOUT st of (r, st) \<Rightarrow>
     if r \<noteq> 0 then (- 1, st)
     else (0, set_cur (\<lambda>r. r\<lparr>timeout :=
            (if i = - 1 \<or> is_wait (endCondition r) then - 1 else word_of_int i)\<rparr>) st))"

definition failureActionKeywords :: "string list" where
  "failureActionKeywords = [''NONE'', ''REBOOT'', ''RESTART'', ''EXEC_RULE'']"

definition parse_failure_action :: "string \<Rightarrow> string option \<Rightarrow> failure_action option" where
  "parse_failure_action token1 token2 =
     (if token1 = ''NONE'' then Some FAIL_NONE
      else if token1 = ''REBOOT'' then Some FAIL_REBOOT
      else if token1 = ''RESTART'' then Some FAIL_RESTART
      else case token2 of
        None \<Rightarrow> None
      | Some t \<Rightarrow> map_option FAIL_EXEC_RULE (PCD_parser_parse_rule_id t))"

definition handle_FAILURE_ACTION :: "string \<Rightarrow> parser \<Rightarrow> int \<times> parser" where
  "handle_FAILURE_ACTION line st = (case strtok PCD_PARSER_DELIMITERS line of (token1, s) \<Rightarrow>
     case PCD_parser_update_parse_status KW_FAILURE_ACTION st of (r, st) \<Rightarrow>
     if r \<noteq> 0 then (- 1, st)
     else case token1 of
       None \<Rightarrow> (- 1, st)
     | Some t \<Rightarrow>
         if t \<notin> set failureActionKeywords then (- 1, st)
         else case parse_failure_action t (fst (strtok PCD_PARSER_DELIMITERS s)) of
           None \<Rightarrow> (- 1, st)
         | Some c \<Rightarrow> (0, set_cur (\<lambda>r. r\<lparr>failureAction := c\<rparr>) st))"

section \<open>The reader\<close>

text \<open>The cleaning of a line: keyword and value, or nothing to do.\<close>

definition split_line :: "string \<Rightarrow> (string \<times> string) option" where
  "split_line buffer =
     (let s = cut_at (CHR ''#'') (cut_at LF (cut_at NUL buffer));
          token = skip_span [CHR '' '', TAB] s;
          line = skip_cspan [CHR '' '', TAB, CHR ''=''] token in
      if token = [] \<or> line = [] then None
      else Some (cspan [CHR '' '', TAB, CHR ''=''] token,
             trim_end (skip_span [CHR '' '', TAB, CHR ''=''] (drop 1 line))))"

type_synonym reader = "string \<Rightarrow> parser \<Rightarrow> (int \<times> parser) run"

definition kw_handler :: "reader \<Rightarrow> (string \<Rightarrow> u32 option) \<Rightarrow> parserKeywords_e \<Rightarrow> reader" where
  "kw_handler read_config users k line st = (case k of
      KW_RULE \<Rightarrow> Inr (handle_RULE line st)
    | KW_START_COND \<Rightarrow> Inr (handle_START_COND line st)
    | KW_COMMAND \<Rightarrow> Inr (handle_COMMAND line st)
    | KW_END_COND \<Rightarrow> Inr (handle_END_COND line st)
    | KW_END_COND_TIMEOUT \<Rightarrow> Inr (handle_END_COND_TIMEOUT line st)
    | KW_FAILURE_ACTION \<Rightarrow> Inr (handle_FAILURE_ACTION line st)
    | KW_ACTIVE \<Rightarrow> Inr (handle_ACTIVE line st)
    | KW_SCHED \<Rightarrow> Inr (handle_SCHED line st)
    | KW_DAEMON \<Rightarrow> Inr (handle_DAEMON line st)
    | KW_USER \<Rightarrow> Inr (handle_USER users line st)
    | KW_VERSION \<Rightarrow> Inr (handle_VERSION line st)
    | KW_INCLUDE \<Rightarrow> handle_INCLUDE read_config line st)"

text \<open>The loop over the table: at most one name matches, as they differ also without case.\<close>

fun try_keywords :: "reader \<Rightarrow> (string \<Rightarrow> u32 option) \<Rightarrow> string \<Rightarrow> parserKeywords_e list \<Rightarrow> reader" where
  "try_keywords rc users token [] line st = Inr (0, st)"
| "try_keywords rc users token (k # ks) line st =
     (if strcaseeq token (kw_name k)
      then bind_run (kw_handler rc users k line st) (\<lambda>(r, st).
        if r \<noteq> 0 then Inr (- 1, st) else try_keywords rc users token ks line st)
      else try_keywords rc users token ks line st)"

fun read_lines :: "reader \<Rightarrow> (string \<Rightarrow> u32 option) \<Rightarrow> string list \<Rightarrow> parser \<Rightarrow> (int \<times> parser) run" where
  "read_lines rc users [] st = Inr (0, st)"
| "read_lines rc users (b # bs) st =
     (let st = st\<lparr>lineNumber := lineNumber st + 1\<rparr> in
      case split_line b of
        None \<Rightarrow> read_lines rc users bs st
      | Some (token, line) \<Rightarrow>
          bind_run (try_keywords rc users token keywordHandlersList line st) (\<lambda>(r, st).
            if r \<noteq> 0 then Inr (- 1, st) else read_lines rc users bs st))"

text \<open>The outstanding rule is written even when the reading stopped at an error.\<close>

definition flush_rule :: "int \<times> parser \<Rightarrow> int \<times> parser" where
  "flush_rule = (\<lambda>(ret_val, st).
     if PCD_parser_is_parse_status_set KW_RULE st
     then (case PCD_parser_write_rule_to_db KW_RULE st of (r, st) \<Rightarrow> (if r \<noteq> 0 then - 1 else ret_val, st))
     else (ret_val, st))"

fun PCD_parser_read_config ::
  "nat \<Rightarrow> (string \<Rightarrow> string option) \<Rightarrow> (string \<Rightarrow> u32 option) \<Rightarrow> reader" where
  "PCD_parser_read_config 0 files users filename st = Inl Diverges"
| "PCD_parser_read_config (Suc depth) files users filename st = (case files filename of
      None \<Rightarrow> Inr (- 1, st)
    | Some text \<Rightarrow>
        bind_run (read_lines (PCD_parser_read_config depth files users) users (file_lines text) st)
          (\<lambda>res. Inr (flush_rule res)))"

definition PCD_parser_generate_config ::
  "nat \<Rightarrow> (string \<Rightarrow> string option) \<Rightarrow> (string \<Rightarrow> u32 option) \<Rightarrow> reader" where
  "PCD_parser_generate_config depth files users filename st =
     bind_run (PCD_parser_read_config depth files users filename st) (\<lambda>(r, st).
       Inr (if r \<noteq> 0 then - 1 else 0, st))"

definition PCD_parser_parse ::
  "nat \<Rightarrow> (string \<Rightarrow> string option) \<Rightarrow> (string \<Rightarrow> u32 option) \<Rightarrow> string \<Rightarrow> parser \<Rightarrow> (PCD_status \<times> parser) run" where
  "PCD_parser_parse depth files users filename st =
     bind_run (PCD_parser_generate_config depth files users filename (PCD_parser_init_kwHandlersList st))
       (\<lambda>(r, st). Inr (if r \<noteq> 0 then PCD_STATUS_NOK else PCD_STATUS_OK, st))"

end
