(* ===== verification/ProcessStop.thy ===== *)
theory ProcessStop imports Timer begin

text \<open>
  The second part of \<open>pcd/src/process.c\<close>: \<open>PCD_process_iterate_stop\<close>, which signals processes that
  are to be stopped, removes those that have stopped, and triggers the failure action of rules
  whose process ended on its own.  A pass neither inserts into the list nor removes anything but
  the node it is at.
\<close>

definition PCD_api_reply_message :: "addr option \<Rightarrow> PCD_status \<Rightarrow> pcd \<Rightarrow> pcd" where
  "PCD_api_reply_message ck retval st = (case ck of
      None \<Rightarrow> st
    | Some msg \<Rightarrow> st\<lparr>replies := replies st @ [(msg, retval)]\<rparr>)"

definition PCD_process_trigger_action :: "addr \<Rightarrow> pcd \<Rightarrow> (PCD_status \<times> pcd) run" where
  "PCD_process_trigger_action a st =
     bind_run (PCD_timer_dequeue_rule (Some a) True st) (\<lambda>(s, st).
     bind_run (PCD_failure_action a st) (\<lambda>(tmpRule, st). case tmpRule of
       None \<Rightarrow> Inr (PCD_STATUS_OK, st)
     | Some b \<Rightarrow> (case PCD_timer_enqueue_rule (Some b) st of (retval, st) \<Rightarrow>
         if status_negative retval then Inr (retval, st) else Inr (PCD_STATUS_OK, st))))"

text \<open>The exit code differs from the one that the end condition, or success, asks for.\<close>

definition wrong_exit :: "rule \<Rightarrow> proc_obj \<Rightarrow> bool" where
  "wrong_exit r x = (case endCondition r of
      END_EXIT c \<Rightarrow> word_of_int (retcode x) \<noteq> c
    | _ \<Rightarrow> retcode x \<noteq> 0)"

text \<open>Does the end of the process trigger the failure action, or answer the waiting client?\<close>

definition end_triggers :: "rule \<Rightarrow> proc_obj \<Rightarrow> bool" where
  "end_triggers r x = (case retstat x of
      PCD_PROCESS_RETEXITED \<Rightarrow> \<not> signaled x \<and> (if daemon r then True else wrong_exit r x)
    | PCD_PROCESS_RETSIGNALED \<Rightarrow> \<not> signaled x \<and> daemon r
    | PCD_PROCESS_RETSTOPPED \<Rightarrow> True
    | PCD_PROCESS_RETNOTHING \<Rightarrow> False)"

definition end_replies :: "proc_obj \<Rightarrow> bool" where
  "end_replies x \<longleftrightarrow> signaled x \<and> (retstat x = PCD_PROCESS_RETEXITED \<or> retstat x = PCD_PROCESS_RETSIGNALED)"

text \<open>\<open>True\<close>: the loop comes back to the same node.\<close>

definition stop_stopped :: "addr \<Rightarrow> proc_obj \<Rightarrow> pcd \<Rightarrow> (bool \<times> pcd) run" where
  "stop_stopped p x st =
     (let a = p_rule x;
          st = (if proc (rules st a) = Some p then upd_rule a (\<lambda>r. r\<lparr>proc := None\<rparr>) st else st);
          st = st\<lparr>ipc_cleaned := ipc_cleaned st @ [pid x]\<rparr> in
      bind_run
        (if end_triggers (rules st a) x then PCD_process_trigger_action a st
         else if end_replies x then Inr (PCD_STATUS_OK, PCD_api_reply_message (cookie x) PCD_STATUS_OK st)
         else Inr (PCD_STATUS_OK, st))
        (\<lambda>(s, st). if s \<noteq> PCD_STATUS_OK then Inr (True, st)
          else Inr (False, PCD_process_free p (NODE_DEL p st))))"

definition stop_node :: "pcd_os \<Rightarrow> addr \<Rightarrow> pcd \<Rightarrow> (bool \<times> pcd) run" where
  "stop_node os p st = bind_run (get_proc st p) (\<lambda>x. case p_state x of
      PCD_PROCESS_STOPPING \<Rightarrow> Inr (False, set_proc p (x\<lparr>p_state := PCD_PROCESS_STOPPED\<rparr>) st)
    | PCD_PROCESS_STOPPED \<Rightarrow> stop_stopped p x st
    | PCD_PROCESS_TERMME \<Rightarrow>
        bind_run (find_by_state st (procList st) PCD_PROCESS_KILLME) (\<lambda>k.
          if k \<noteq> None then Inr (False, st)
          else if pid x > 0 then
            (let st = send_signal (pid x) SIGTERM st;
                 y = x\<lparr>p_state := PCD_PROCESS_KILLME, tm := 7, signaled := True\<rparr>
             in Inr (False, set_proc p (if kill_ret os (pid x) SIGTERM < 0
                                        then y\<lparr>p_state := PCD_PROCESS_STOPPED\<rparr> else y) st))
          else Inr (False, set_proc p (x\<lparr>p_state := PCD_PROCESS_STOPPED\<rparr>) st))
    | PCD_PROCESS_KILLME \<Rightarrow>
        if tm x = 0 then
          (if pid x > 0
           then Inr (False, send_signal (pid x) SIGKILL
                  (set_proc p (x\<lparr>p_state := PCD_PROCESS_STOPPED, signaled := True\<rparr>) st))
           else Inr (False, set_proc p (x\<lparr>p_state := PCD_PROCESS_STOPPED\<rparr>) st))
        else Inr (False, set_proc p (x\<lparr>tm := tm x - 1\<rparr>) st)
    | PCD_PROCESS_RUNME \<Rightarrow> Inr (False, set_proc p (x\<lparr>p_state := PCD_PROCESS_STOPPED\<rparr>) st)
    | _ \<Rightarrow> Inr (False, st))"

partial_function (option) stop_walk :: "pcd_os \<Rightarrow> addr list \<Rightarrow> pcd \<Rightarrow> pcd run option" where
  "stop_walk os ps st = (case ps of
      [] \<Rightarrow> Some (Inr st)
    | p # rest \<Rightarrow> (case stop_node os p st of
        Inl h \<Rightarrow> Some (Inl h)
      | Inr (again, st) \<Rightarrow> if again then stop_walk os (p # rest) st else stop_walk os rest st))"

definition PCD_process_iterate_stop :: "pcd_os \<Rightarrow> pcd \<Rightarrow> (PCD_status \<times> pcd) run" where
  "PCD_process_iterate_stop os st =
     bind_run (run_of (stop_walk os (procList st) st)) (\<lambda>st. Inr (PCD_STATUS_OK, st))"

end
