(* ===== verification/PcdInv.thy ===== *)
theory PcdInv imports ProcessStop begin

text \<open>
  The invariant of the daemon's state and its preservation by the operations of the process, timer
  and condition modules.  \<open>A\<close> is the set of the rules in the database.  The invariant is stated for
  databases without indexed templates, whose instances share the process of the template
  (\<open>RulesDb.get_rule_by_id_cases\<close>).
\<close>

section \<open>The invariant\<close>

text \<open>A rule only points to a process that has not been told to stop.\<close>

definition attachable :: "proc_state \<Rightarrow> bool" where
  "attachable s \<longleftrightarrow> s \<in> {PCD_PROCESS_RUNME, PCD_PROCESS_STARTING, PCD_PROCESS_RUNNING,
     PCD_PROCESS_STOPPING, PCD_PROCESS_STOPPED}"

definition rule_ok :: "addr set \<Rightarrow> rule \<Rightarrow> bool" where
  "rule_ok A r \<longleftrightarrow> \<not> indexed r \<and> command r \<noteq> None
     \<and> (\<forall>cs c b. startCondition r = START_RULE_COMPLETED cs \<longrightarrow> c \<in> set cs \<longrightarrow> rc_rule c = Some b \<longrightarrow> b \<in> A)"

definition wf_db :: "addr set \<Rightarrow> pcd \<Rightarrow> bool" where
  "wf_db A st \<longleftrightarrow> set (db_rules st) = A \<and> db_ok st \<and> (\<forall>a \<in> A. rule_ok A (rules st a))"

definition wf_procs :: "addr set \<Rightarrow> pcd \<Rightarrow> bool" where
  "wf_procs A st \<longleftrightarrow> distinct (procList st) \<and> dom (procs st) = set (procList st)
     \<and> (\<forall>p \<in> set (procList st). p < brk st) \<and> (\<forall>p x. procs st p = Some x \<longrightarrow> p_rule x \<in> A)"

definition wf_attached :: "addr set \<Rightarrow> pcd \<Rightarrow> bool" where
  "wf_attached A st \<longleftrightarrow> (\<forall>a \<in> A. \<forall>p. proc (rules st a) = Some p \<longrightarrow>
     (\<exists>x. procs st p = Some x \<and> p_rule x = a \<and> attachable (p_state x)))"

definition wf_timers :: "addr set \<Rightarrow> pcd \<Rightarrow> bool" where
  "wf_timers A st \<longleftrightarrow> distinct (timerQueue st) \<and> dom (timerObjs st) = set (timerQueue st)
     \<and> (\<forall>t \<in> set (timerQueue st). t < brk st) \<and> (\<forall>t x. timerObjs st t = Some x \<longrightarrow> t_rule x \<in> A)"

definition rule_of :: "pcd \<Rightarrow> addr \<rightharpoonup> addr" where
  "rule_of st t = map_option t_rule (timerObjs st t)"

lemma rule_of_upd [simp]: "rule_of (upd_rule a f st) = rule_of st" "rule_of (set_proc p x st) = rule_of st"
  by (simp_all add: rule_of_def fun_eq_iff)

lemma rule_of_Some: "timerObjs st t = Some x \<Longrightarrow> rule_of st t = Some (t_rule x)"
  by (simp add: rule_of_def)

text \<open>A waiting rule has a timer object; the objects to be removed are of rules that do not wait.\<close>

definition wf_queues :: "addr set \<Rightarrow> pcd \<Rightarrow> bool" where
  "wf_queues A st \<longleftrightarrow> distinct (dequeueList st)
     \<and> (\<forall>t \<in> set (dequeueList st). \<exists>a. rule_of st t = Some a \<and> \<not> rule_active (rules st a))
     \<and> (\<forall>a \<in> A. rule_active (rules st a) \<longrightarrow> (\<exists>t. rule_of st t = Some a))
     \<and> set (enqueueList st) \<subseteq> A"

definition pcd_ok :: "addr set \<Rightarrow> pcd \<Rightarrow> bool" where
  "pcd_ok A st \<longleftrightarrow> wf_db A st \<and> wf_procs A st \<and> wf_attached A st \<and> wf_timers A st \<and> wf_queues A st"

lemmas wf_defs = pcd_ok_def wf_db_def wf_procs_def wf_attached_def wf_timers_def wf_queues_def

text \<open>The result of a run that may only end in the exit of the REBOOT action.\<close>

definition safe :: "('a \<Rightarrow> bool) \<Rightarrow> 'a run \<Rightarrow> bool" where
  "safe P r \<longleftrightarrow> r = Inl (Exited 1) \<or> (\<exists>x. r = Inr x \<and> P x)"

lemma safe_Inr [simp]: "safe P (Inr x) \<longleftrightarrow> P x"
  by (simp add: safe_def)

lemma safe_exit [simp]: "safe P (Inl (Exited 1))"
  by (simp add: safe_def)

lemma safe_bind: "safe Q r \<Longrightarrow> (\<And>x. Q x \<Longrightarrow> safe P (f x)) \<Longrightarrow> safe P (bind_run r f)"
  by (elim safe_def [THEN iffD1, elim_format] disjE exE conjE) simp_all

lemma safe_mono: "safe Q r \<Longrightarrow> (\<And>x. Q x \<Longrightarrow> P x) \<Longrightarrow> safe P r"
  by (auto simp: safe_def)

section \<open>Primitive updates\<close>

text \<open>What an update of a rule must keep.\<close>

definition same_rule :: "rule \<Rightarrow> rule \<Rightarrow> bool" where
  "same_rule r s \<longleftrightarrow> ruleId s = ruleId r \<and> indexed s = indexed r \<and> command s = command r"

lemma db_ok_upd: "(ruleId (f (rules st a)) = ruleId (rules st a)) \<Longrightarrow> db_ok (upd_rule a f st) = db_ok st"
proof -
  assume f: "ruleId (f (rules st a)) = ruleId (rules st a)"
  then have "(\<lambda>b. ruleId (((rules st)(a := f (rules st a))) b)) = (\<lambda>b. ruleId (rules st b))" by auto
  then have "\<And>b. ruleId (rules (upd_rule a f st) b) = ruleId (rules st b)" by (simp add: fun_eq_iff)
  then show ?thesis by (simp add: db_ok_def group_ok_def del: upd_rule_simps(1))
qed

lemma db_ok_brk: "db_ok st \<Longrightarrow> groups st' = groups st \<Longrightarrow> rules st' = rules st \<Longrightarrow> brk st \<le> brk st' \<Longrightarrow> db_ok st'"
  by (fastforce simp: db_ok_def group_ok_def)

lemma db_ok_ids:
  assumes "db_ok st" and "groups st' = groups st" and "\<And>b. ruleId (rules st' b) = ruleId (rules st b)"
    and "brk st \<le> brk st'"
  shows "db_ok st'"
proof -
  have "group_ok (rules st') (brk st') g" if "group_ok (rules st) (brk st) g" for g
    by (rule group_ok_cong [OF that assms(3,4)])
  with assms(1,2) show ?thesis by (simp add: db_ok_def)
qed

lemma wf_upd_rule:
  assumes "pcd_ok A st" and "a \<in> A" and "same_rule (rules st a) (f (rules st a))"
    and "rule_ok A (f (rules st a))"
    and "rule_active (f (rules st a)) \<Longrightarrow> rule_active (rules st a)"
    and "proc (f (rules st a)) = proc (rules st a) \<or> proc (f (rules st a)) = None"
  shows "pcd_ok A (upd_rule a f st)"
proof -
  have "db_ok (upd_rule a f st) = db_ok st"
    using assms(3) by (intro db_ok_upd) (simp add: same_rule_def)
  then have "wf_db A (upd_rule a f st)" using assms by (simp add: pcd_ok_def wf_db_def db_rules_def)
  moreover have "wf_procs A (upd_rule a f st)" "wf_timers A (upd_rule a f st)"
    using assms(1) by (simp_all add: pcd_ok_def wf_procs_def wf_timers_def)
  moreover have "wf_attached A (upd_rule a f st)"
    using assms(1,6) by (auto simp: pcd_ok_def wf_attached_def)
  moreover have "rule_active (rules (upd_rule a f st) b) \<Longrightarrow> rule_active (rules st b)" for b
    using assms(5) by (cases "b = a") simp_all
  then have "wf_queues A (upd_rule a f st)"
    using assms(1) unfolding pcd_ok_def wf_queues_def upd_rule_simps(7,8) rule_of_upd by blast
  ultimately show ?thesis by (simp add: pcd_ok_def)
qed

lemma wf_set_state:
  assumes "pcd_ok A st" and "a \<in> A" and "s \<noteq> PCD_RULE_START_CONDITION_WAITING"
    and "s = PCD_RULE_END_CONDITION_WAITING \<Longrightarrow> rule_active (rules st a)"
  shows "pcd_ok A (set_state a s st)"
  unfolding set_state_def
  by (rule wf_upd_rule [OF assms(1,2)])
    (use assms in \<open>auto simp: same_rule_def rule_active_def rule_ok_def pcd_ok_def wf_db_def\<close>)

lemma wf_set_proc:
  assumes "pcd_ok A st" and "procs st p = Some x" and "p_rule y = p_rule x"
    and "proc (rules st (p_rule x)) = Some p \<Longrightarrow> attachable (p_state y)"
  shows "pcd_ok A (set_proc p y st)"
proof -
  have "db_ok (set_proc p y st)"
    by (rule db_ok_brk [of st]) (use assms(1) in \<open>simp_all add: pcd_ok_def wf_db_def\<close>)
  then have "wf_db A (set_proc p y st)" using assms(1) by (simp add: pcd_ok_def wf_db_def db_rules_def)
  moreover have "wf_procs A (set_proc p y st)"
    using assms by (auto simp: pcd_ok_def wf_procs_def)
  moreover have "wf_attached A (set_proc p y st)"
    using assms by (auto simp: pcd_ok_def wf_attached_def)
  moreover have "wf_timers A (set_proc p y st)" "wf_queues A (set_proc p y st)"
    using assms(1) by (simp_all add: pcd_ok_def wf_timers_def wf_queues_def)
  ultimately show ?thesis by (simp add: pcd_ok_def)
qed

text \<open>Updates of fields outside the invariant.\<close>

lemma wf_logs:
  assumes "pcd_ok A st"
  shows "pcd_ok A (st\<lparr>kills := k\<rparr>)" "pcd_ok A (st\<lparr>replies := r\<rparr>)" "pcd_ok A (st\<lparr>ipc_cleaned := i\<rparr>)"
    "pcd_ok A (st\<lparr>timerEnabled := e\<rparr>)" "pcd_ok A (st\<lparr>lastReturnedGroup := g\<rparr>)" "pcd_ok A (st\<lparr>lastReturnedRule := l\<rparr>)"
proof -
  have ok: "db_ok (st\<lparr>kills := k\<rparr>)" "db_ok (st\<lparr>replies := r\<rparr>)" "db_ok (st\<lparr>ipc_cleaned := i\<rparr>)"
    "db_ok (st\<lparr>timerEnabled := e\<rparr>)" "db_ok (st\<lparr>lastReturnedGroup := g\<rparr>)" "db_ok (st\<lparr>lastReturnedRule := l\<rparr>)"
    using assms by (auto simp: pcd_ok_def wf_db_def intro: db_ok_brk [of st])
  with assms show "pcd_ok A (st\<lparr>kills := k\<rparr>)" "pcd_ok A (st\<lparr>replies := r\<rparr>)" "pcd_ok A (st\<lparr>ipc_cleaned := i\<rparr>)"
    "pcd_ok A (st\<lparr>timerEnabled := e\<rparr>)" "pcd_ok A (st\<lparr>lastReturnedGroup := g\<rparr>)" "pcd_ok A (st\<lparr>lastReturnedRule := l\<rparr>)"
    by (simp_all add: wf_defs db_rules_def rule_of_def)
qed

lemma wf_set_timer:
  assumes "pcd_ok A st" and "timerObjs st t = Some x" and "t_rule y = t_rule x"
  shows "pcd_ok A (set_timer t y st)"
proof -
  have "db_ok (set_timer t y st)"
    by (rule db_ok_brk [of st]) (use assms(1) in \<open>simp_all add: pcd_ok_def wf_db_def\<close>)
  then have "wf_db A (set_timer t y st)" using assms(1) by (simp add: pcd_ok_def wf_db_def db_rules_def)
  moreover have "wf_timers A (set_timer t y st)"
    using assms by (auto simp: pcd_ok_def wf_timers_def)
  moreover have "rule_of (set_timer t y st) = rule_of st"
    using assms(2,3) by (auto simp: rule_of_def fun_eq_iff)
  then have "wf_queues A (set_timer t y st)"
    using assms(1) by (simp add: pcd_ok_def wf_queues_def)
  moreover have "wf_procs A (set_timer t y st)" "wf_attached A (set_timer t y st)"
    using assms(1) by (simp_all add: pcd_ok_def wf_procs_def wf_attached_def)
  ultimately show ?thesis by (simp add: pcd_ok_def)
qed

lemma wf_pending:
  assumes "pcd_ok A st"
  shows "timerObjs st t = Some x \<Longrightarrow> \<not> rule_active (rules st (t_rule x)) \<Longrightarrow> t \<notin> set (dequeueList st)
      \<Longrightarrow> pcd_ok A (add_to_dequeue_list t st)"
    "b \<in> A \<Longrightarrow> pcd_ok A (st\<lparr>enqueueList := b # enqueueList st\<rparr>)"
proof -
  have ok: "db_ok (st\<lparr>dequeueList := d\<rparr>)" "db_ok (st\<lparr>enqueueList := d\<rparr>)" for d
    using assms by (auto simp: pcd_ok_def wf_db_def intro: db_ok_brk [of st])
  show "timerObjs st t = Some x \<Longrightarrow> \<not> rule_active (rules st (t_rule x)) \<Longrightarrow> t \<notin> set (dequeueList st)
      \<Longrightarrow> pcd_ok A (add_to_dequeue_list t st)"
    using assms ok by (auto simp: add_to_dequeue_list_def wf_defs db_rules_def rule_of_def)
  show "b \<in> A \<Longrightarrow> pcd_ok A (st\<lparr>enqueueList := b # enqueueList st\<rparr>)"
    using assms ok by (simp add: wf_defs db_rules_def rule_of_def)
qed

section \<open>Creating and removing objects\<close>

text \<open>A fresh process is attached to its rule.\<close>

lemma wf_new_proc:
  assumes "pcd_ok A st" and "a \<in> A" and "proc (rules st a) = None" and "p_rule x = a" and "attachable (p_state x)"
  shows "pcd_ok A (upd_rule a (\<lambda>r. r\<lparr>proc := Some (brk st)\<rparr>)
    (NODE_ADD (brk st) ((set_proc (brk st) x st)\<lparr>brk := brk st + 1\<rparr>)))" (is "pcd_ok A ?st")
proof -
  let ?s = "NODE_ADD (brk st) ((set_proc (brk st) x st)\<lparr>brk := brk st + 1\<rparr>)"
  have "db_ok ?s"
    by (rule db_ok_brk [of st]) (use assms(1) in \<open>simp_all add: NODE_ADD_def pcd_ok_def wf_db_def\<close>)
  then have "db_ok ?st" by (subst db_ok_upd) simp_all
  then have "wf_db A ?st" using assms(1) by (simp add: pcd_ok_def wf_db_def db_rules_def NODE_ADD_def rule_ok_def)
  moreover have fresh: "brk st \<notin> set (procList st)" using assms(1) by (auto simp: pcd_ok_def wf_procs_def)
  then have "procs st (brk st) = None" using assms(1) by (auto simp: pcd_ok_def wf_procs_def)
  then have "wf_attached A ?st"
    using assms by (auto simp: pcd_ok_def wf_attached_def NODE_ADD_def)
  moreover have "wf_procs A ?st"
    using assms fresh by (auto simp: pcd_ok_def wf_procs_def NODE_ADD_def intro: less_SucI)
  moreover have "wf_timers A ?st" using assms(1)
    by (auto simp: pcd_ok_def wf_timers_def NODE_ADD_def intro: less_SucI)
  moreover have "rule_of ?st = rule_of st" by (simp add: rule_of_def NODE_ADD_def fun_eq_iff)
  then have "wf_queues A ?st" using assms(1)
    by (auto simp: pcd_ok_def wf_queues_def NODE_ADD_def rule_active_def)
  ultimately show ?thesis by (simp add: pcd_ok_def)
qed

lemma wf_del_proc:
  assumes "pcd_ok A st" and "\<forall>a \<in> A. proc (rules st a) \<noteq> Some p"
  shows "pcd_ok A (PCD_process_free p (NODE_DEL p st))" (is "pcd_ok A ?st")
proof -
  have "db_ok ?st"
    by (rule db_ok_brk [of st])
      (use assms(1) in \<open>simp_all add: PCD_process_free_def NODE_DEL_def pcd_ok_def wf_db_def\<close>)
  then have "wf_db A ?st"
    using assms(1) by (simp add: pcd_ok_def wf_db_def db_rules_def PCD_process_free_def NODE_DEL_def)
  moreover have "wf_procs A ?st"
    using assms(1) by (auto simp: pcd_ok_def wf_procs_def PCD_process_free_def NODE_DEL_def)
  moreover have "wf_attached A ?st"
    using assms by (auto simp: pcd_ok_def wf_attached_def PCD_process_free_def NODE_DEL_def)
  moreover have "wf_timers A ?st" "wf_queues A ?st"
    using assms(1) by (simp_all add: pcd_ok_def wf_timers_def wf_queues_def PCD_process_free_def
        NODE_DEL_def rule_of_def)
  ultimately show ?thesis by (simp add: pcd_ok_def)
qed

text \<open>A new timer object makes its rule wait.\<close>

definition arm_rule :: "addr \<Rightarrow> pcd \<Rightarrow> pcd" where
  "arm_rule a st = (case PCD_timer_new (Some a) st of
      (None, st) \<Rightarrow> st
    | (Some t, st) \<Rightarrow> PCD_timer_enqueue t (set_state a PCD_RULE_START_CONDITION_WAITING st))"

lemma arm_rule_simps [simp]:
  "procs (arm_rule a st) = procs st" "procList (arm_rule a st) = procList st"
  "enqueueList (arm_rule a st) = enqueueList st" "dequeueList (arm_rule a st) = dequeueList st"
  "timerTick (arm_rule a st) = timerTick st" "timerEnabled (arm_rule a st) = timerEnabled st"
  "groups (arm_rule a st) = groups st" "kills (arm_rule a st) = kills st"
  "timerQueue (arm_rule a st) = timerQueue st @ [brk st]"
  "rules (arm_rule a st) = (rules st)(a := (rules st a)\<lparr>ruleState := PCD_RULE_START_CONDITION_WAITING\<rparr>)"
  by (simp_all add: arm_rule_def PCD_timer_new_def PCD_timer_enqueue_def set_state_def upd_rule_def set_timer_def Let_def)

lemma wf_arm_rule:
  assumes "pcd_ok A st" and "a \<in> A"
    and "\<forall>t \<in> set (dequeueList st). rule_of st t \<noteq> Some a"
  shows "pcd_ok A (arm_rule a st)"
proof -
  let ?t = "brk st" and ?st = "arm_rule a st"
  have brk: "brk ?st = Suc (brk st)"
    and objs: "timerObjs ?st = (timerObjs st)(?t \<mapsto> \<lparr>t_rule = a, t_timeout = timeout (rules st a)\<rparr>)"
    by (simp_all add: arm_rule_def PCD_timer_new_def PCD_timer_enqueue_def set_state_def upd_rule_def set_timer_def Let_def)
  have fresh: "?t \<notin> set (timerQueue st)" using assms(1) by (auto simp: pcd_ok_def wf_timers_def)
  have ids: "ruleId (rules ?st b) = ruleId (rules st b)" for b by simp
  have "db_ok ?st"
    by (rule db_ok_ids [of st, OF _ _ ids]) (use assms(1) in \<open>simp_all add: pcd_ok_def wf_db_def brk\<close>)
  then have db: "wf_db A ?st" using assms(1) by (simp add: pcd_ok_def wf_db_def db_rules_def rule_ok_def)
  have pr: "wf_procs A ?st" using assms(1) by (auto simp: pcd_ok_def wf_procs_def brk intro: less_SucI)
  have at: "wf_attached A ?st" using assms(1) by (auto simp: pcd_ok_def wf_attached_def)
  have tm: "wf_timers A ?st" using assms(1,2) fresh
    by (auto simp: pcd_ok_def wf_timers_def brk objs intro: less_SucI)
  have none: "timerObjs st ?t = None" using assms(1) fresh by (auto simp: pcd_ok_def wf_timers_def)
  have of_st: "rule_of ?st = (rule_of st)(?t \<mapsto> a)" by (simp add: rule_of_def objs fun_eq_iff)
  have t_none: "rule_of st ?t = None" using none by (simp add: rule_of_def)
  have q: "wf_queues A st" using assms(1) by (simp add: pcd_ok_def)
  have "\<exists>b. rule_of ?st u = Some b \<and> \<not> rule_active (rules ?st b)" if u: "u \<in> set (dequeueList st)" for u
  proof -
    from q u obtain b where b: "rule_of st u = Some b" "\<not> rule_active (rules st b)"
      unfolding wf_queues_def by blast
    moreover have "u \<noteq> ?t" "b \<noteq> a" using b t_none assms(3) u by auto
    ultimately show ?thesis by (simp add: of_st)
  qed
  moreover have "\<exists>u. rule_of ?st u = Some b" if b: "b \<in> A" "rule_active (rules ?st b)" for b
  proof (cases "b = a")
    case True
    then show ?thesis by (intro exI [of _ ?t]) (simp add: of_st)
  next
    case False
    with b have "rule_active (rules st b)" by simp
    with q b(1) obtain u where u: "rule_of st u = Some b" unfolding wf_queues_def by blast
    then have "u \<noteq> ?t" using t_none by auto
    with u show ?thesis by (intro exI [of _ u]) (simp add: of_st)
  qed
  ultimately have "wf_queues A ?st" using q unfolding wf_queues_def arm_rule_simps(3,4) by blast
  with db pr at tm show ?thesis by (simp add: pcd_ok_def)
qed

lemma wf_dequeue:
  assumes "pcd_ok A st" and "rule_of st t = Some a" and "\<not> rule_active (rules st a)"
    and "t \<notin> set (dequeueList st) \<or> dequeueList st = t # ds"
  shows "\<exists>st'. PCD_timer_dequeue t st = Inr st'
    \<and> st' = st\<lparr>timerQueue := remove1 t (timerQueue st), timerObjs := (timerObjs st)(t := None)\<rparr>
    \<and> pcd_ok A (st'\<lparr>dequeueList := filter (\<lambda>u. u \<noteq> t) (dequeueList st)\<rparr>)"
proof -
  from assms(2) obtain x where x: "timerObjs st t = Some x" "t_rule x = a" by (auto simp: rule_of_def)
  let ?st = "st\<lparr>timerQueue := remove1 t (timerQueue st), timerObjs := (timerObjs st)(t := None)\<rparr>"
  let ?s = "?st\<lparr>dequeueList := filter (\<lambda>u. u \<noteq> t) (dequeueList st)\<rparr>"
  have "db_ok ?s"
    by (rule db_ok_brk [of st]) (use assms(1) in \<open>simp_all add: pcd_ok_def wf_db_def\<close>)
  then have "wf_db A ?s" using assms(1) by (simp add: pcd_ok_def wf_db_def db_rules_def)
  moreover have "wf_procs A ?s" "wf_attached A ?s"
    using assms(1) by (simp_all add: pcd_ok_def wf_procs_def wf_attached_def)
  moreover have "wf_timers A ?s" using assms(1) by (auto simp: pcd_ok_def wf_timers_def)
  moreover have of_s: "rule_of ?s = (rule_of st)(t := None)" by (simp add: rule_of_def fun_eq_iff)
  have "\<exists>u. rule_of ?s u = Some b" if b: "b \<in> A" "rule_active (rules st b)" for b
  proof -
    from assms(1) b obtain u where u: "rule_of st u = Some b" by (auto simp: pcd_ok_def wf_queues_def)
    moreover have "u \<noteq> t" using u b(2) assms(2,3) by auto
    ultimately show ?thesis unfolding of_s by auto
  qed
  then have "wf_queues A ?s" using assms(1) by (auto simp: pcd_ok_def wf_queues_def of_s)
  ultimately have "pcd_ok A ?s" by (simp add: pcd_ok_def)
  with x show ?thesis by (simp add: PCD_timer_dequeue_def)
qed

end
