(* ===== verification/PcdOps.thy ===== *)
theory PcdOps imports PcdInv begin

text \<open>
  Every operation of the process, timer and condition modules keeps the invariant \<open>PcdInv.pcd_ok\<close> and
  returns, unless the REBOOT action ends the daemon.  \<open>quiet\<close> and \<open>only_rule\<close> say what an operation
  leaves alone.
\<close>

section \<open>Reading the invariant\<close>

lemma wf_rule: "pcd_ok A st \<Longrightarrow> a \<in> A \<Longrightarrow> rule_ok A (rules st a)"
  by (simp add: pcd_ok_def wf_db_def)

lemma wf_attachedD:
  "pcd_ok A st \<Longrightarrow> a \<in> A \<Longrightarrow> proc (rules st a) = Some p
     \<Longrightarrow> \<exists>x. procs st p = Some x \<and> p_rule x = a \<and> attachable (p_state x)"
  by (auto simp: pcd_ok_def wf_attached_def)

lemma wf_timerD: "pcd_ok A st \<Longrightarrow> t \<in> set (timerQueue st) \<Longrightarrow> \<exists>x. timerObjs st t = Some x \<and> t_rule x \<in> A"
  by (fastforce simp: pcd_ok_def wf_timers_def)

lemma wf_procD: "pcd_ok A st \<Longrightarrow> p \<in> set (procList st) \<Longrightarrow> \<exists>x. procs st p = Some x \<and> p_rule x \<in> A"
  by (fastforce simp: pcd_ok_def wf_procs_def)

lemma wf_lookup:
  assumes "pcd_ok A st"
  shows "PCD_rulesdb_get_rule_by_id (Some rid) st = Inr (db_map st rid, st)"
    and "db_map st rid = Some b \<Longrightarrow> b \<in> A"
proof -
  have db: "db_ok st" "set (db_rules st) = A" using assms by (simp_all add: pcd_ok_def wf_db_def)
  moreover have "\<forall>a \<in> set (db_rules st). \<not> indexed (rules st a)"
    using assms db(2) by (auto simp: rule_ok_def dest: wf_rule)
  ultimately show "PCD_rulesdb_get_rule_by_id (Some rid) st = Inr (db_map st rid, st)"
    by (intro get_rule_plain)
  show "db_map st rid = Some b \<Longrightarrow> b \<in> A" using db_map_Some [OF db(1)] db(2) by auto
qed

section \<open>Frames\<close>

text \<open>Only processes and the pointers of rules to them are touched.\<close>

definition quiet :: "pcd \<Rightarrow> pcd \<Rightarrow> bool" where
  "quiet st st' \<longleftrightarrow> groups st' = groups st \<and> timerQueue st' = timerQueue st \<and> timerObjs st' = timerObjs st
     \<and> dequeueList st' = dequeueList st \<and> enqueueList st' = enqueueList st \<and> procList st' = procList st
     \<and> timerTick st' = timerTick st \<and> timerEnabled st' = timerEnabled st \<and> replies st' = replies st
     \<and> (\<forall>b. rules st' b = rules st b \<or> rules st' b = (rules st b)\<lparr>proc := None\<rparr>)"

lemma quiet_refl: "quiet st st"
  by (simp add: quiet_def)

lemma quiet_trans:
  assumes "quiet st st1" and "quiet st1 st2"
  shows "quiet st st2"
proof -
  have "rules st2 b = rules st b \<or> rules st2 b = (rules st b)\<lparr>proc := None\<rparr>" for b
  proof -
    have "rules st1 b = rules st b \<or> rules st1 b = (rules st b)\<lparr>proc := None\<rparr>"
      "rules st2 b = rules st1 b \<or> rules st2 b = (rules st1 b)\<lparr>proc := None\<rparr>"
      using assms unfolding quiet_def by blast+
    then show ?thesis by (elim disjE) simp_all
  qed
  with assms show ?thesis by (simp add: quiet_def)
qed

lemma quietD:
  assumes "quiet st st'"
  shows "timerQueue st' = timerQueue st" "timerObjs st' = timerObjs st" "dequeueList st' = dequeueList st"
    "enqueueList st' = enqueueList st" "procList st' = procList st" "timerTick st' = timerTick st"
    "timerEnabled st' = timerEnabled st" "replies st' = replies st"
    "rule_active (rules st' b) = rule_active (rules st b)" "ruleState (rules st' b) = ruleState (rules st b)"
    "failureAction (rules st' b) = failureAction (rules st b)" "daemon (rules st' b) = daemon (rules st b)"
    "endCondition (rules st' b) = endCondition (rules st b)"
    "proc (rules st b) = None \<Longrightarrow> proc (rules st' b) = None"
proof -
  have "rules st' b = rules st b \<or> rules st' b = (rules st b)\<lparr>proc := None\<rparr>"
    using assms unfolding quiet_def by blast
  then show "rule_active (rules st' b) = rule_active (rules st b)" "ruleState (rules st' b) = ruleState (rules st b)"
    "failureAction (rules st' b) = failureAction (rules st b)" "daemon (rules st' b) = daemon (rules st b)"
    "endCondition (rules st' b) = endCondition (rules st b)"
    "proc (rules st b) = None \<Longrightarrow> proc (rules st' b) = None"
    by (elim disjE; simp add: rule_active_def)+
qed (use assms in \<open>simp_all add: quiet_def\<close>)

text \<open>
  Only the rule \<open>a\<close> is touched, and not its identifier, command, failure action and process, its
  state included when \<open>s\<close>.
\<close>

definition only_rule :: "bool \<Rightarrow> addr \<Rightarrow> pcd \<Rightarrow> pcd \<Rightarrow> bool" where
  "only_rule s a st st' \<longleftrightarrow> (\<exists>r. st' = st\<lparr>rules := r\<rparr>) \<and> (\<forall>b. b \<noteq> a \<longrightarrow> rules st' b = rules st b)
     \<and> proc (rules st' a) = proc (rules st a) \<and> command (rules st' a) = command (rules st a)
     \<and> ruleId (rules st' a) = ruleId (rules st a) \<and> failureAction (rules st' a) = failureAction (rules st a)
     \<and> (s \<longrightarrow> ruleState (rules st' a) = ruleState (rules st a))"

lemma only_rule_refl: "only_rule s a st st"
  by (auto simp: only_rule_def intro: exI [of _ "rules st"])

lemma only_rule_trans: "only_rule True a st st1 \<Longrightarrow> only_rule s a st1 st2 \<Longrightarrow> only_rule s a st st2"
  by (fastforce simp: only_rule_def)

lemma only_rule_upd:
  "proc (f (rules st a)) = proc (rules st a) \<Longrightarrow> command (f (rules st a)) = command (rules st a)
     \<Longrightarrow> ruleId (f (rules st a)) = ruleId (rules st a) \<Longrightarrow> failureAction (f (rules st a)) = failureAction (rules st a)
     \<Longrightarrow> (s \<Longrightarrow> ruleState (f (rules st a)) = ruleState (rules st a)) \<Longrightarrow> only_rule s a st (upd_rule a f st)"
  by (auto simp: only_rule_def upd_rule_def)

lemma only_ruleD:
  assumes "only_rule s a st st'"
  shows "timerQueue st' = timerQueue st" "timerObjs st' = timerObjs st" "dequeueList st' = dequeueList st"
    "enqueueList st' = enqueueList st" "procList st' = procList st" "procs st' = procs st"
    "timerTick st' = timerTick st" "timerEnabled st' = timerEnabled st"
proof -
  from assms obtain r where "st' = st\<lparr>rules := r\<rparr>" by (auto simp: only_rule_def)
  then show "timerQueue st' = timerQueue st" "timerObjs st' = timerObjs st" "dequeueList st' = dequeueList st"
    "enqueueList st' = enqueueList st" "procList st' = procList st" "procs st' = procs st"
    "timerTick st' = timerTick st" "timerEnabled st' = timerEnabled st" by simp_all
qed

section \<open>Processes\<close>

lemma upd_rule_set_proc: "upd_rule a f (set_proc p x st) = set_proc p x (upd_rule a f st)"
  by (simp add: upd_rule_def set_proc_def)

lemma wf_detach: "pcd_ok A st \<Longrightarrow> a \<in> A \<Longrightarrow> pcd_ok A (upd_rule a (\<lambda>r. r\<lparr>proc := None\<rparr>) st)"
  by (rule wf_upd_rule) (auto simp: same_rule_def rule_active_def rule_ok_def dest: wf_rule)

lemma process_stop_ok:
  assumes "pcd_ok A st" and "a \<in> A"
  shows "\<exists>s st'. PCD_process_stop (Some a) brutal ck st = Inr (s, st') \<and> pcd_ok A st' \<and> quiet st st'
    \<and> proc (rules st' a) = None"
proof (cases "proc (rules st a)")
  case None
  with assms show ?thesis by (simp add: PCD_process_stop_def quiet_refl)
next
  case (Some p)
  from wf_attachedD [OF assms Some] obtain x where
    x: "procs st p = Some x" "p_rule x = a" "attachable (p_state x)" by blast
  let ?y = "\<lambda>b. x\<lparr>signaled := b, p_state := (if brutal then PCD_PROCESS_KILLME else PCD_PROCESS_TERMME),
    tm := 0, cookie := ck\<rparr>"
  have "pcd_ok A (set_proc p (?y b) (upd_rule a (\<lambda>r. r\<lparr>proc := None\<rparr>) st))" for b
    by (rule wf_set_proc [OF wf_detach [OF assms], where x = x]) (use x in \<open>auto split: if_splits\<close>)
  moreover have "quiet st (set_proc p (?y b) (upd_rule a (\<lambda>r. r\<lparr>proc := None\<rparr>) st))" for b
    by (simp add: quiet_def set_proc_def)
  ultimately show ?thesis using Some x
    by (auto simp: PCD_process_stop_def attachable_def stoppable_def Let_def upd_rule_set_proc)
qed

lemma process_chld_ok:
  assumes "pcd_ok A st" and "set ps \<subseteq> set (procList st)"
  shows "\<exists>st'. process_chld q w ps st = Inr st' \<and> pcd_ok A st' \<and> quiet st st'"
  using assms
proof (induction ps)
  case Nil
  then show ?case by (simp add: quiet_refl)
next
  case (Cons p ps)
  then obtain x where x: "procs st p = Some x" using wf_procD [OF Cons.prems(1), of p] by auto
  have "pcd_ok A (set_proc p (record_exit w x) st)"
    by (rule wf_set_proc [OF Cons.prems(1) x])
      (simp_all add: record_exit_def attachable_def split: wait_status.splits)
  moreover have "quiet st (set_proc p (record_exit w x) st)" by (simp add: quiet_def set_proc_def)
  ultimately show ?case using Cons x by simp
qed

lemma start_node_ok:
  assumes "pcd_ok A st" and "p \<in> set (procList st)"
  shows "\<exists>st'. start_node os p st = Inr st' \<and> pcd_ok A st' \<and> quiet st st'"
proof -
  from wf_procD [OF assms] obtain x where x: "procs st p = Some x" "p_rule x \<in> A" by blast
  have *: "pcd_ok A (set_proc p y st)" if "p_rule y = p_rule x" "attachable (p_state x) \<Longrightarrow> attachable (p_state y)" for y
    by (rule wf_set_proc [OF assms(1) x(1) that(1)])
      (use wf_attachedD [OF assms(1) x(2), of p] x(1) that(2) in auto)
  have q: "quiet st (set_proc p y st)" for y by (simp add: quiet_def set_proc_def)
  show ?thesis using x(1) * q quiet_refl assms(1)
    by (cases "p_state x") (auto simp: start_node_def PCD_process_spawn_def attachable_def)
qed

lemma start_walk_ok:
  "pcd_ok A st \<Longrightarrow> set ps \<subseteq> set (procList st)
     \<Longrightarrow> \<exists>st'. start_walk os ps st = Inr st' \<and> pcd_ok A st' \<and> quiet st st'"
proof (induction ps arbitrary: st)
  case Nil
  then show ?case by (simp add: quiet_refl)
next
  case (Cons p ps)
  then obtain st1 where st1: "start_node os p st = Inr st1" "pcd_ok A st1" "quiet st st1"
    using start_node_ok [OF Cons.prems(1), of p os] by auto
  then have "set ps \<subseteq> set (procList st1)" using Cons.prems(2) by (simp add: quietD)
  from Cons.IH [OF st1(2) this] obtain st2 where
    st2: "start_walk os ps st1 = Inr st2" "pcd_ok A st2" "quiet st1 st2" by blast
  have "quiet st st2" by (rule quiet_trans [OF st1(3) st2(3)])
  with st1(1) st2 show ?case by simp
qed

section \<open>Conditions and failure actions\<close>

lemma set_cache_ok:
  assumes "pcd_ok A st" and "a \<in> A" and "\<And>b. v = Some b \<Longrightarrow> b \<in> A"
  shows "pcd_ok A (set_cache a i v st)" "only_rule True a st (set_cache a i v st)"
proof -
  let ?f = "\<lambda>r. r\<lparr>startCondition := (case startCondition r of
      START_RULE_COMPLETED cs \<Rightarrow> START_RULE_COMPLETED (cs[i := (cs ! i)\<lparr>rc_rule := v\<rparr>]) | c \<Rightarrow> c)\<rparr>"
  have eq: "set_cache a i v st = upd_rule a ?f st" by (simp add: set_cache_def)
  have ok: "rule_ok A (rules st a)" by (rule wf_rule [OF assms(1,2)])
  have "c \<in> A" if "startCondition (rules st a) = START_RULE_COMPLETED cs"
    and "d \<in> set (cs[i := (cs ! i)\<lparr>rc_rule := v\<rparr>])" and "rc_rule d = Some c" for c d cs
  proof (cases "i < length cs")
    case True
    then have "d \<in> set cs \<or> d = (cs ! i)\<lparr>rc_rule := v\<rparr>"
      using that(2) set_update_subset_insert [of cs i] by auto
    with ok that assms(3) show ?thesis by (auto simp: rule_ok_def)
  next
    case False
    then have "d \<in> set cs" using that(2) by (simp add: list_update_beyond)
    with ok that show ?thesis by (auto simp: rule_ok_def)
  qed
  then have "rule_ok A (?f (rules st a))"
    using ok by (cases "startCondition (rules st a)") (auto simp: rule_ok_def)
  then show "pcd_ok A (set_cache a i v st)" unfolding eq
    by (intro wf_upd_rule [OF assms(1,2)]) (simp_all add: same_rule_def rule_active_def)
  show "only_rule True a st (set_cache a i v st)" unfolding eq by (rule only_rule_upd) simp_all
qed

lemma only_rule_weaken: "only_rule True a st st' \<Longrightarrow> only_rule s a st st'"
  by (simp add: only_rule_def)

lemma only_rule_state: "only_rule False a st (set_state a s st)"
  unfolding set_state_def by (rule only_rule_upd) simp_all

text \<open>A check that does not succeed may have given the rule up.\<close>

lemma check_completed_ok:
  assumes "pcd_ok A st" and "a \<in> A" and "\<And>c b. c \<in> set cs \<Longrightarrow> rc_rule c = Some b \<Longrightarrow> b \<in> A"
  shows "\<exists>s st'. check_completed a i cs st = Inr (s, st') \<and> pcd_ok A st'
    \<and> only_rule (s = PCD_STATUS_OK) a st st'"
  using assms(1,3)
proof (induction cs arbitrary: i st)
  case Nil
  then show ?case by (auto simp: only_rule_refl)
next
  case (Cons c cs)
  show ?case
  proof (cases "groupName (rc_id c) = []")
    case True
    with Cons.prems(1) show ?thesis by (auto simp: only_rule_refl)
  next
    case False
    have "\<exists>b st1. (case rc_rule c of Some b \<Rightarrow> Inr (Some b, st)
         | None \<Rightarrow> bind_run (PCD_rulesdb_get_rule_by_id (Some (rc_id c)) st) (\<lambda>(b, st).
             Inr (b, set_cache a i b st))) = Inr (b, st1)
        \<and> pcd_ok A st1 \<and> only_rule True a st st1" (is "\<exists>b st1. ?run = _ \<and> _")
    proof (cases "rc_rule c")
      case None
      let ?v = "db_map st (rc_id c)"
      have "pcd_ok A (set_cache a i ?v st)" "only_rule True a st (set_cache a i ?v st)"
        using set_cache_ok [OF Cons.prems(1) assms(2), of ?v] wf_lookup(2) [OF Cons.prems(1)] by blast+
      with None wf_lookup(1) [OF Cons.prems(1)] show ?thesis by simp
    next
      case (Some b)
      with Cons.prems(1) only_rule_refl show ?thesis by auto
    qed
    then obtain b st1 where run: "?run = Inr (b, st1)" and st1: "pcd_ok A st1" "only_rule True a st st1"
      by blast
    show ?thesis
    proof (cases b)
      case None
      have "pcd_ok A (set_state a PCD_RULE_NOT_COMPLETED st1)"
        by (rule wf_set_state [OF st1(1) assms(2)]) simp_all
      with None False run only_rule_trans [OF st1(2) only_rule_state] show ?thesis by simp
    next
      case (Some b')
      from Cons.IH [OF st1(1), of "i + 1"] Cons.prems(2) obtain s st2 where
        st2: "check_completed a (i + 1) cs st1 = Inr (s, st2)" "pcd_ok A st2"
        "only_rule (s = PCD_STATUS_OK) a st1 st2" by auto
      with Some False run st1 only_rule_trans [OF st1(2) st2(3)] only_rule_weaken [OF st1(2)]
      show ?thesis by auto
    qed
  qed
qed

lemma start_cond_check_ok:
  assumes "pcd_ok A st" and "a \<in> A"
  shows "\<exists>s st'. PCD_start_cond_check os a st = Inr (s, st') \<and> pcd_ok A st'
    \<and> only_rule (s = PCD_STATUS_OK) a st st'"
proof (cases "startCondition (rules st a)")
  case (START_RULE_COMPLETED cs)
  have "b \<in> A" if "c \<in> set (take PCD_START_COND_MAX_IDS cs)" "rc_rule c = Some b" for c b
    using wf_rule [OF assms] START_RULE_COMPLETED in_set_takeD [OF that(1)] that(2)
    by (simp add: rule_ok_def)
  from check_completed_ok [OF assms this, where i = 0] START_RULE_COMPLETED show ?thesis
    by (simp add: PCD_start_cond_check_def)
qed (use assms in \<open>auto simp: PCD_start_cond_check_def only_rule_refl\<close>)

lemma wf_end_condition:
  assumes "pcd_ok A st" and "a \<in> A"
  shows "pcd_ok A (upd_rule a (\<lambda>r. r\<lparr>endCondition := e\<rparr>) st)"
    "only_rule True a st (upd_rule a (\<lambda>r. r\<lparr>endCondition := e\<rparr>) st)"
proof -
  show "pcd_ok A (upd_rule a (\<lambda>r. r\<lparr>endCondition := e\<rparr>) st)"
    by (rule wf_upd_rule [OF assms])
      (use wf_rule [OF assms] in \<open>simp_all add: same_rule_def rule_active_def rule_ok_def\<close>)
qed (rule only_rule_upd; simp)

lemma end_cond_check_ok:
  assumes "pcd_ok A st" and "a \<in> A"
  shows "\<exists>s st'. PCD_end_cond_check os a st = Inr (s, st') \<and> pcd_ok A st' \<and> only_rule True a st st'"
proof (cases "endCondition (rules st a)")
  case (END_EXIT c)
  show ?thesis
  proof (cases "proc (rules st a)")
    case None
    with END_EXIT assms show ?thesis
      by (simp add: PCD_end_cond_check_def PCD_end_cond_check_EXIT_def only_rule_refl)
  next
    case (Some p)
    with wf_attachedD [OF assms Some] END_EXIT assms show ?thesis
      by (auto simp: PCD_end_cond_check_def PCD_end_cond_check_EXIT_def only_rule_refl)
  qed
qed (use assms wf_end_condition [OF assms] in
    \<open>auto simp: PCD_end_cond_check_def PCD_end_cond_check_WAIT_def only_rule_refl\<close>)

text \<open>The rule to be started next has no process, and waits for nothing unless it is the failed one.\<close>

definition next_rule_ok :: "addr set \<Rightarrow> addr \<Rightarrow> pcd \<Rightarrow> addr option \<Rightarrow> bool" where
  "next_rule_ok A a st b \<longleftrightarrow> (\<forall>c. b = Some c \<longrightarrow> c \<in> A \<and> proc (rules st c) = None
     \<and> (c = a \<or> \<not> rule_active (rules st c)))"

lemma failure_RESTART_ok:
  assumes "pcd_ok A st" and "b \<in> A"
  shows "\<exists>st'. PCD_failure_action_RESTART (Some b) st = Inr (Some b, st') \<and> pcd_ok A st' \<and> quiet st st'
    \<and> proc (rules st' b) = None"
proof (cases "proc (rules st b) = None")
  case True
  with assms show ?thesis by (simp add: PCD_failure_action_RESTART_def quiet_refl)
next
  case False
  with process_stop_ok [OF assms, of True None] show ?thesis
    by (auto simp: PCD_failure_action_RESTART_def)
qed

lemma failure_action_ok:
  assumes "pcd_ok A st" and "a \<in> A"
  shows "safe (\<lambda>(b, st'). pcd_ok A st' \<and> quiet st st' \<and> next_rule_ok A a st' b) (PCD_failure_action a st)"
proof (cases "failureAction (rules st a)")
  case (FAIL_EXEC_RULE rid)
  note look = wf_lookup [OF assms(1), of rid]
  show ?thesis
  proof (cases "db_map st rid")
    case None
    with FAIL_EXEC_RULE look assms show ?thesis
      by (simp add: PCD_failure_action_def PCD_failure_action_EXEC_RULE_def quiet_refl next_rule_ok_def)
  next
    case (Some b)
    then have "b \<in> A" by (rule look(2))
    from failure_RESTART_ok [OF assms(1) this] obtain st' where
      st': "PCD_failure_action_RESTART (Some b) st = Inr (Some b, st')" "pcd_ok A st'" "quiet st st'"
      "proc (rules st' b) = None" by blast
    then show ?thesis using FAIL_EXEC_RULE look(1) Some assms \<open>b \<in> A\<close> quietD(9) [OF st'(3), of b]
      by (auto simp: PCD_failure_action_def PCD_failure_action_EXEC_RULE_def quiet_refl next_rule_ok_def)
  qed
next
  case FAIL_RESTART
  with failure_RESTART_ok [OF assms] assms(2) show ?thesis
    by (auto simp: PCD_failure_action_def next_rule_ok_def)
qed (use assms in \<open>simp_all add: PCD_failure_action_def quiet_refl next_rule_ok_def\<close>)

section \<open>The timer pass\<close>

text \<open>What the handling of the object \<open>t\<close> leaves of the queues.\<close>

definition walked :: "addr \<Rightarrow> pcd \<Rightarrow> pcd \<Rightarrow> bool" where
  "walked t st st' \<longleftrightarrow> timerQueue st' = timerQueue st \<and> rule_of st' = rule_of st
     \<and> set (dequeueList st') \<subseteq> insert t (set (dequeueList st))"

lemma walked_refl: "walked t st st"
  by (auto simp: walked_def)

lemma walked_trans: "walked t st st1 \<Longrightarrow> walked t st1 st2 \<Longrightarrow> walked t st st2"
  by (auto simp: walked_def)

lemma walked_quiet: "quiet st st' \<Longrightarrow> walked t st st'"
  by (auto simp: walked_def rule_of_def fun_eq_iff quietD)

lemma walked_only_rule: "only_rule s a st st' \<Longrightarrow> walked t st st'"
  by (auto simp: walked_def rule_of_def fun_eq_iff only_ruleD)

lemma walked_set_state: "walked t st (set_state a s st)"
  by (rule walked_only_rule [OF only_rule_state])

lemma fail_timer_ok:
  assumes "pcd_ok A st" and "timerObjs st t = Some x" and "t_rule x = a" and "a \<in> A"
    and "t \<notin> set (dequeueList st)" and "s \<in> {PCD_RULE_FAILED, PCD_RULE_NOT_COMPLETED}"
  shows "safe (\<lambda>st'. pcd_ok A st' \<and> walked t st st') (fail_timer t a s st)"
proof -
  let ?s1 = "set_state a s st" and ?s2 = "add_to_dequeue_list t (set_state a s st)"
  have s1: "pcd_ok A ?s1" by (rule wf_set_state [OF assms(1,4)]) (use assms(6) in auto)
  have "\<not> rule_active (rules ?s1 (t_rule x))"
    using assms(3,6) by (auto simp: set_state_def rule_active_def)
  moreover have "timerObjs ?s1 t = Some x" "t \<notin> set (dequeueList ?s1)"
    using assms(2,5) by (simp_all add: set_state_def)
  ultimately have s2: "pcd_ok A ?s2" by (intro wf_pending(1) [OF s1])
  have w: "walked t st ?s2"
    by (auto simp: walked_def add_to_dequeue_list_def set_state_def rule_of_def fun_eq_iff)
  show ?thesis unfolding fail_timer_def
  proof (rule safe_bind [OF failure_action_ok [OF s2 assms(4)]], clarify)
    fix b st'
    assume st': "pcd_ok A st'" "quiet ?s2 st'" "next_rule_ok A a st' b"
    have "pcd_ok A (add_to_enqueue_list b st')"
      using st' wf_pending(2) [OF st'(1)]
      by (cases b) (simp_all add: add_to_enqueue_list_def next_rule_ok_def)
    moreover have "walked t st' (add_to_enqueue_list b st')"
      by (cases b) (auto simp: walked_def add_to_enqueue_list_def rule_of_def fun_eq_iff)
    ultimately show "safe (\<lambda>st'. pcd_ok A st' \<and> walked t st st') (Inr (add_to_enqueue_list b st'))"
      using walked_trans [OF walked_trans [OF w walked_quiet [OF st'(2)]]] by simp
  qed
qed

lemma process_enqueue_ok:
  assumes "pcd_ok A st" and "a \<in> A" and "proc (rules st a) = None"
  shows "\<exists>st'. PCD_process_enqueue (Some a) st = (PCD_STATUS_OK, st') \<and> pcd_ok A st' \<and> walked t st st'
    \<and> rule_active (rules st' a) = rule_active (rules st a)"
proof -
  have "pcd_ok A (upd_rule a (\<lambda>r. r\<lparr>proc := Some (brk st)\<rparr>)
    (NODE_ADD (brk st) ((set_proc (brk st) (PCD_process_new a) st)\<lparr>brk := brk st + 1\<rparr>)))"
    by (rule wf_new_proc [OF assms]) (simp_all add: PCD_process_new_def attachable_def)
  then show ?thesis using assms(3)
    by (auto simp: PCD_process_enqueue_def Let_def walked_def NODE_ADD_def rule_of_def fun_eq_iff
        rule_active_def)
qed

lemma handle_start_ok:
  assumes "pcd_ok A st" and "timerObjs st t = Some x" and "t_rule x \<in> A"
    and "rule_active (rules st (t_rule x))" and "t \<notin> set (dequeueList st)"
  shows "safe (\<lambda>(f, st'). pcd_ok A st' \<and> walked t st st') (PCD_timer_handle_start_condition os t st)"
proof -
  let ?a = "t_rule x"
  from start_cond_check_ok [OF assms(1,3)] obtain s st1 where
    chk: "PCD_start_cond_check os ?a st = Inr (s, st1)" and st1: "pcd_ok A st1"
    "only_rule (s = PCD_STATUS_OK) ?a st st1" by blast
  note w1 = walked_only_rule [OF st1(2), of t]
  show ?thesis
  proof (cases "s = PCD_STATUS_OK")
    case False
    with assms(2) chk st1(1) w1 show ?thesis by (simp add: PCD_timer_handle_start_condition_def)
  next
    case True
    then have act: "rule_active (rules st1 ?a)"
      using assms(4) st1(2) by (simp add: only_rule_def rule_active_def)
    from wf_rule [OF st1(1) assms(3)] obtain cmd where cmd: "command (rules st1 ?a) = Some cmd"
      by (auto simp: rule_ok_def)
    have waiting: "pcd_ok A (set_state ?a PCD_RULE_END_CONDITION_WAITING st2)"
      if "pcd_ok A st2" "rule_active (rules st2 ?a)" for st2
      by (rule wf_set_state [OF that(1) assms(3)]) (use that(2) in simp_all)
    show ?thesis
    proof (cases "cmd = ''NONE''")
      case True
      with \<open>s = PCD_STATUS_OK\<close> assms(2) chk cmd waiting [OF st1(1) act] walked_trans [OF w1 walked_set_state]
      show ?thesis by (simp add: PCD_timer_handle_start_condition_def)
    next
      case cmd_not: False
      show ?thesis
      proof (cases "proc (rules st1 ?a)")
        case None
        from process_enqueue_ok [OF st1(1) assms(3) None, of t] obtain st2 where
          st2: "PCD_process_enqueue (Some ?a) st1 = (PCD_STATUS_OK, st2)" "pcd_ok A st2" "walked t st1 st2"
          "rule_active (rules st2 ?a)" using act by auto
        with True cmd_not assms(2) chk cmd waiting [OF st2(2,4)]
          walked_trans [OF walked_trans [OF w1 st2(3)] walked_set_state]
        show ?thesis by (simp add: PCD_timer_handle_start_condition_def)
      next
        case (Some p)
        then have "PCD_process_enqueue (Some ?a) st1 = (PCD_STATUS_INVALID_RULE, st1)"
          by (simp add: PCD_process_enqueue_def)
        moreover from process_stop_ok [OF st1(1) assms(3), of True None] obtain r st2 where
          "PCD_process_stop (Some ?a) True None st1 = Inr (r, st2)" "pcd_ok A st2" "quiet st1 st2" by blast
        moreover note walked_trans [OF w1 walked_quiet, of st2]
        ultimately show ?thesis using True cmd_not assms(2) chk cmd
          by (simp add: PCD_timer_handle_start_condition_def)
      qed
    qed
  qed
qed

lemma walked_set_timer: "timerObjs st t = Some x \<Longrightarrow> t_rule y = t_rule x \<Longrightarrow> walked t st (set_timer t y st)"
  by (auto simp: walked_def rule_of_def fun_eq_iff)

lemma maybe_stop_ok:
  assumes "pcd_ok A st" and "a \<in> A"
  shows "\<exists>s st'. (if proc (rules st a) \<noteq> None then PCD_process_stop (Some a) brutal ck st
      else Inr (PCD_STATUS_OK, st)) = Inr (s, st') \<and> pcd_ok A st' \<and> quiet st st' \<and> proc (rules st' a) = None"
  using process_stop_ok [OF assms, of brutal ck] assms(1) by (auto simp: quiet_refl)

lemma handle_end_ok:
  assumes "pcd_ok A st" and "timerObjs st t = Some x" and "t_rule x \<in> A" and "t \<notin> set (dequeueList st)"
  shows "safe (\<lambda>(f, st'). pcd_ok A st' \<and> walked t st st') (PCD_timer_handle_end_condition os t st)"
proof -
  let ?a = "t_rule x"
  from end_cond_check_ok [OF assms(1,3)] obtain s st1 where
    chk: "PCD_end_cond_check os ?a st = Inr (s, st1)" and st1: "pcd_ok A st1" "only_rule True ?a st st1" by blast
  have x1: "timerObjs st1 t = Some x" and d1: "t \<notin> set (dequeueList st1)"
    using assms(2,4) only_ruleD [OF st1(2)] by simp_all
  note w1 = walked_only_rule [OF st1(2), of t]
  consider "s = PCD_STATUS_OK" | "s \<noteq> PCD_STATUS_OK" "t_timeout x = - 1"
    | "s \<noteq> PCD_STATUS_OK" "t_timeout x = 0"
    | "s \<noteq> PCD_STATUS_OK" "t_timeout x \<noteq> - 1" "t_timeout x \<noteq> 0" by blast
  then show ?thesis
  proof cases
    case 1
    let ?s2 = "set_state ?a PCD_RULE_COMPLETED st1"
    have "pcd_ok A ?s2" by (rule wf_set_state [OF st1(1) assms(3)]) simp_all
    then have "pcd_ok A (add_to_dequeue_list t ?s2)"
      by (rule wf_pending(1) [where x = x])
        (use x1 d1 in \<open>simp_all add: set_state_def rule_active_def\<close>)
    moreover have "walked t ?s2 (add_to_dequeue_list t ?s2)"
      by (auto simp: walked_def add_to_dequeue_list_def rule_of_def fun_eq_iff)
    ultimately show ?thesis using 1 assms(2) chk walked_trans [OF walked_trans [OF w1 walked_set_state]]
      by (simp add: PCD_timer_handle_end_condition_def)
  next
    case 2
    with assms(2) chk st1(1) w1 show ?thesis by (simp add: PCD_timer_handle_end_condition_def)
  next
    case 3
    from maybe_stop_ok [OF st1(1) assms(3), of True None] obtain r st2 where
      stop: "(if proc (rules st1 ?a) \<noteq> None then PCD_process_stop (Some ?a) True None st1
        else Inr (PCD_STATUS_OK, st1)) = Inr (r, st2)" and st2: "pcd_ok A st2" "quiet st1 st2" by blast
    have "safe (\<lambda>st'. pcd_ok A st' \<and> walked t st2 st') (fail_timer t ?a PCD_RULE_NOT_COMPLETED st2)"
      by (rule fail_timer_ok [OF st2(1) _ refl assms(3)]) (use x1 d1 quietD [OF st2(2)] in simp_all)
    then have "safe (\<lambda>(f, st'). pcd_ok A st' \<and> walked t st st')
      (bind_run (fail_timer t ?a PCD_RULE_NOT_COMPLETED st2) (\<lambda>st. Inr (True, st)))"
      by (rule safe_bind) (use walked_trans [OF walked_trans [OF w1 walked_quiet [OF st2(2)]]] in simp)
    with 3 assms(2) chk stop show ?thesis by (simp add: PCD_timer_handle_end_condition_def del: not_None_eq)
  next
    case 4
    have "pcd_ok A (set_timer t (x\<lparr>t_timeout := w\<rparr>) st1)" for w by (rule wf_set_timer [OF st1(1) x1]) simp
    moreover have "walked t st (set_timer t (x\<lparr>t_timeout := w\<rparr>) st1)" for w
      by (rule walked_trans [OF w1 walked_set_timer [OF x1]]) simp
    ultimately show ?thesis using 4 assms(2) chk by (simp add: PCD_timer_handle_end_condition_def)
  qed
qed

lemma timer_node_ok:
  assumes "pcd_ok A st" and "t \<in> set (timerQueue st)" and "t \<notin> set (dequeueList st)"
  shows "safe (\<lambda>(f, st'). pcd_ok A st' \<and> walked t st st') (timer_node os t st)"
proof -
  from wf_timerD [OF assms(1,2)] obtain x where x: "timerObjs st t = Some x" "t_rule x \<in> A" by blast
  have inactive: "safe (\<lambda>(f, st'). pcd_ok A st' \<and> walked t st st') (Inr (False, add_to_dequeue_list t st))"
    if "\<not> rule_active (rules st (t_rule x))"
    using wf_pending(1) [OF assms(1) x(1) that assms(3)]
    by (auto simp: walked_def add_to_dequeue_list_def rule_of_def fun_eq_iff)
  show ?thesis
    using x inactive handle_start_ok [OF assms(1) x _ assms(3), of os] handle_end_ok [OF assms(1) x assms(3), of os]
    by (cases "ruleState (rules st (t_rule x))") (simp_all add: timer_node_def rule_active_def)
qed

lemma timer_walk_ok:
  "pcd_ok A st \<Longrightarrow> set ts \<subseteq> set (timerQueue st) \<Longrightarrow> distinct ts \<Longrightarrow> set ts \<inter> set (dequeueList st) = {}
     \<Longrightarrow> safe (\<lambda>(f, st'). pcd_ok A st') (timer_walk env ts flag st)"
proof (induction ts arbitrary: st flag)
  case Nil
  then show ?case by simp
next
  case (Cons t ts)
  have "safe (\<lambda>(f, st'). pcd_ok A st' \<and> walked t st st') (timer_node (env t) t st)"
    by (rule timer_node_ok) (use Cons.prems in auto)
  then show ?case unfolding timer_walk.simps
  proof (rule safe_bind, clarify)
    fix f st'
    assume st': "pcd_ok A st'" "walked t st st'"
    show "safe (\<lambda>(f, st'). pcd_ok A st') (timer_walk env ts (flag \<or> f) st')"
      by (rule Cons.IH [OF st'(1)]) (use Cons.prems(2-4) st'(2) in \<open>auto simp: walked_def\<close>)
  qed
qed

lemma dequeue_all_ok:
  "pcd_ok A st \<Longrightarrow> \<exists>st'. dequeue_all (dequeueList st) st = Inr st' \<and> pcd_ok A (st'\<lparr>dequeueList := []\<rparr>)"
proof (induction "dequeueList st" arbitrary: st)
  case Nil
  then have none: "dequeueList st = []" by simp
  then have same: "st\<lparr>dequeueList := []\<rparr> = st" by (cases st) simp
  have "dequeue_all (dequeueList st) st = Inr st" using none by simp
  moreover have "pcd_ok A (st\<lparr>dequeueList := []\<rparr>)" unfolding same by (rule Nil.prems)
  ultimately show ?case by blast
next
  case (Cons t ds)
  have q: "wf_queues A st" using Cons.prems by (simp add: pcd_ok_def)
  then obtain a where a: "rule_of st t = Some a" "\<not> rule_active (rules st a)"
    using Cons(2) unfolding wf_queues_def by (metis list.set_intros(1))
  have dist: "t \<notin> set ds" using q Cons(2) unfolding wf_queues_def by (metis distinct.simps(2))
  from wf_dequeue [OF Cons.prems a, of ds] Cons(2) obtain st1 where
    st1: "PCD_timer_dequeue t st = Inr st1"
    "st1 = st\<lparr>timerQueue := remove1 t (timerQueue st), timerObjs := (timerObjs st)(t := None)\<rparr>"
    "pcd_ok A (st1\<lparr>dequeueList := filter (\<lambda>u. u \<noteq> t) (dequeueList st)\<rparr>)" by auto
  have "filter (\<lambda>u. u \<noteq> t) (dequeueList st) = ds"
    using dist by (auto simp: Cons(2)[symmetric] filter_id_conv)
  then have w: "pcd_ok A (st1\<lparr>dequeueList := ds\<rparr>)" using st1(3) by simp
  obtain st2 where st2: "dequeue_all ds (st1\<lparr>dequeueList := ds\<rparr>) = Inr st2" "pcd_ok A (st2\<lparr>dequeueList := []\<rparr>)"
    using Cons(1) [OF _ w] by auto
  have "\<exists>st3. dequeue_all ts s = Inr st3 \<and> st3\<lparr>dequeueList := []\<rparr> = st2\<lparr>dequeueList := []\<rparr>"
    if "dequeue_all ts (s\<lparr>dequeueList := d\<rparr>) = Inr st2" for ts s d
    using that
  proof (induction ts arbitrary: s)
    case Nil
    then show ?case by (cases s) auto
  next
    case (Cons u us)
    then obtain y where y: "timerObjs s u = Some y"
      by (cases "timerObjs s u") (simp_all add: PCD_timer_dequeue_def)
    let ?s = "s\<lparr>timerQueue := remove1 u (timerQueue s), timerObjs := (timerObjs s)(u := None)\<rparr>"
    have swap: "s\<lparr>dequeueList := d, timerQueue := remove1 u (timerQueue s),
        timerObjs := (timerObjs s)(u := None)\<rparr> = ?s\<lparr>dequeueList := d\<rparr>" by simp
    have "dequeue_all us (?s\<lparr>dequeueList := d\<rparr>) = Inr st2"
      unfolding swap [symmetric] using Cons.prems y by (simp add: PCD_timer_dequeue_def)
    with Cons.IH [of ?s] y show ?case by (simp add: PCD_timer_dequeue_def)
  qed
  from this [OF st2(1)] obtain st3 where
    "dequeue_all ds st1 = Inr st3" "st3\<lparr>dequeueList := []\<rparr> = st2\<lparr>dequeueList := []\<rparr>" by blast
  with st1(1) st2(2) Cons(2) show ?case by (auto simp: Cons(2)[symmetric])
qed

lemma enqueue_all_arm: "enqueue_all (a # as) st = enqueue_all as (arm_rule a st)"
  by (simp add: arm_rule_def PCD_timer_new_def Let_def)

lemma enqueue_all_ok:
  "pcd_ok A st \<Longrightarrow> set as \<subseteq> A \<Longrightarrow> dequeueList st = []
     \<Longrightarrow> pcd_ok A (enqueue_all as st) \<and> dequeueList (enqueue_all as st) = []"
proof (induction as arbitrary: st)
  case Nil
  then show ?case by simp
next
  case (Cons a as)
  have "pcd_ok A (arm_rule a st)" by (rule wf_arm_rule) (use Cons.prems in simp_all)
  with Cons show ?case unfolding enqueue_all_arm by simp
qed

text \<open>Between passes nothing is pending.\<close>

definition settled :: "pcd \<Rightarrow> bool" where
  "settled st \<longleftrightarrow> dequeueList st = [] \<and> enqueueList st = []"

lemma wf_clear: "pcd_ok A st \<Longrightarrow> pcd_ok A (st\<lparr>enqueueList := []\<rparr>)"
proof -
  assume w: "pcd_ok A st"
  have "db_ok (st\<lparr>enqueueList := []\<rparr>)"
    by (rule db_ok_ids [of st]) (use w in \<open>simp_all add: pcd_ok_def wf_db_def\<close>)
  with w show ?thesis by (simp add: wf_defs db_rules_def rule_of_def)
qed

lemma timer_iterate_ok:
  assumes "pcd_ok A st" and "settled st"
  shows "safe (\<lambda>(f, st'). pcd_ok A st' \<and> settled st') (PCD_timer_iterate env st)"
proof (cases "\<not> timerEnabled st \<or> timerQueue st = []")
  case True
  with assms show ?thesis by (auto simp: PCD_timer_iterate_def)
next
  case False
  have "safe (\<lambda>(f, st'). pcd_ok A st') (timer_walk env (timerQueue st) False st)"
    by (rule timer_walk_ok [OF assms(1)])
      (use assms in \<open>simp_all add: pcd_ok_def wf_timers_def settled_def\<close>)
  then have "safe (\<lambda>(f, st'). pcd_ok A st' \<and> settled st')
    (bind_run (timer_walk env (timerQueue st) False st) (\<lambda>(processFlag, st).
        bind_run (PCD_timer_dequeue_handle st) (\<lambda>st. Inr (processFlag, PCD_timer_enqueue_handle st))))"
  proof (rule safe_bind, clarify)
    fix f st1
    assume "pcd_ok A st1"
    from dequeue_all_ok [OF this] obtain st2 where
      st2: "dequeue_all (dequeueList st1) st1 = Inr st2" "pcd_ok A (st2\<lparr>dequeueList := []\<rparr>)" by blast
    let ?s = "st2\<lparr>dequeueList := []\<rparr>"
    have "set (enqueueList ?s) \<subseteq> A" using st2(2) unfolding pcd_ok_def wf_queues_def by blast
    with enqueue_all_ok [OF st2(2)] have "pcd_ok A (enqueue_all (enqueueList ?s) ?s)"
      "dequeueList (enqueue_all (enqueueList ?s) ?s) = []" by simp_all
    with wf_clear [of A "enqueue_all (enqueueList ?s) ?s"] st2(1)
    show "safe (\<lambda>(f, st'). pcd_ok A st' \<and> settled st') (bind_run (PCD_timer_dequeue_handle st1)
        (\<lambda>st. Inr (f, PCD_timer_enqueue_handle st)))"
      by (simp add: PCD_timer_dequeue_handle_def PCD_timer_enqueue_handle_def settled_def)
  qed
  with False show ?thesis by (simp add: PCD_timer_iterate_def)
qed

section \<open>Enqueueing and dequeueing a rule\<close>

lemma timer_enqueue_rule_ok:
  assumes "pcd_ok A st" and "settled st" and "a \<in> A"
  shows "\<exists>s st'. PCD_timer_enqueue_rule (Some a) st = (s, st') \<and> pcd_ok A st' \<and> settled st'
    \<and> procList st' = procList st \<and> (\<forall>b. proc (rules st' b) = proc (rules st b))
    \<and> (\<not> rule_active (rules st a) \<and> proc (rules st a) = None \<longrightarrow> s = PCD_STATUS_OK)"
proof (cases "rule_active (rules st a) \<or> proc (rules st a) \<noteq> None")
  case True
  with assms show ?thesis by (simp add: PCD_timer_enqueue_rule_def)
next
  case False
  have "PCD_timer_enqueue_rule (Some a) st = (PCD_STATUS_OK, arm_rule a st)"
    using False by (simp add: PCD_timer_enqueue_rule_def arm_rule_def PCD_timer_new_def Let_def)
  moreover have "pcd_ok A (arm_rule a st)"
    by (rule wf_arm_rule [OF assms(1,3)]) (use assms(2) in \<open>simp add: settled_def\<close>)
  ultimately show ?thesis using assms(2) by (simp add: settled_def)
qed

lemma timer_of_rule_ok:
  "pcd_ok A st \<Longrightarrow> set ts \<subseteq> set (timerQueue st) \<Longrightarrow>
     \<exists>r. timer_of_rule st a ts = Inr r
       \<and> (case r of None \<Rightarrow> \<forall>t \<in> set ts. rule_of st t \<noteq> Some a | Some t \<Rightarrow> t \<in> set ts \<and> rule_of st t = Some a)"
proof (induction ts)
  case Nil
  then show ?case by simp
next
  case (Cons t ts)
  from wf_timerD [OF Cons.prems(1), of t] Cons.prems(2) obtain x where x: "timerObjs st t = Some x" by auto
  with Cons show ?case by (auto simp: rule_of_Some split: option.splits)
qed

lemma no_timer_inactive:
  assumes "pcd_ok A st" and "a \<in> A" and "\<forall>t \<in> set (timerQueue st). rule_of st t \<noteq> Some a"
  shows "\<not> rule_active (rules st a)"
proof
  assume "rule_active (rules st a)"
  with assms(1,2) obtain t where t: "rule_of st t = Some a" unfolding pcd_ok_def wf_queues_def by blast
  then have "t \<in> dom (timerObjs st)" by (auto simp: rule_of_def)
  then have "t \<in> set (timerQueue st)" using assms(1) by (simp add: pcd_ok_def wf_timers_def)
  with assms(3) t show False by simp
qed

lemma timer_dequeue_rule_ok:
  assumes "pcd_ok A st" and "settled st" and "a \<in> A"
  shows "\<exists>s st'. PCD_timer_dequeue_rule (Some a) failed st = Inr (s, st') \<and> pcd_ok A st' \<and> settled st'
    \<and> procList st' = procList st \<and> (\<forall>b p. proc (rules st' b) = Some p \<longrightarrow> proc (rules st b) = Some p)
    \<and> \<not> rule_active (rules st' a) \<and> (s = PCD_STATUS_OK \<or> s = PCD_STATUS_INVALID_RULE \<and> st' = st)"
proof -
  from timer_of_rule_ok [OF assms(1), of "timerQueue st" a] obtain r where
    r: "timer_of_rule st a (timerQueue st) = Inr r"
    "case r of None \<Rightarrow> \<forall>t \<in> set (timerQueue st). rule_of st t \<noteq> Some a
      | Some t \<Rightarrow> t \<in> set (timerQueue st) \<and> rule_of st t = Some a" by auto
  show ?thesis
  proof (cases r)
    case None
    with r no_timer_inactive [OF assms(1,3)] assms show ?thesis
      by (simp add: PCD_timer_dequeue_rule_def)
  next
    case (Some t)
    with r(2) have t: "rule_of st t = Some a" by simp
    from maybe_stop_ok [OF assms(1,3), of False None] obtain s st1 where
      stop: "(if proc (rules st a) \<noteq> None then PCD_process_stop (Some a) False None st
        else Inr (PCD_STATUS_OK, st)) = Inr (s, st1)" and st1: "pcd_ok A st1" "quiet st st1" by blast
    let ?d = "dequeued_state failed (ruleState (rules st1 a))" and ?s2 = "set_state a (dequeued_state failed (ruleState (rules st1 a))) st1"
    have d: "?d \<noteq> PCD_RULE_START_CONDITION_WAITING" "?d \<noteq> PCD_RULE_END_CONDITION_WAITING"
      by (auto simp: dequeued_state_def)
    then have s2: "pcd_ok A ?s2" by (intro wf_set_state [OF st1(1) assms(3)]) simp_all
    have inact: "\<not> rule_active (rules ?s2 a)" using d by (simp add: rule_active_def set_state_def)
    have t2: "rule_of ?s2 t = Some a" using t quietD(2) [OF st1(2)] by (simp add: set_state_def rule_of_def)
    have none: "dequeueList ?s2 = []" using assms(2) quietD(3) [OF st1(2)] by (simp add: set_state_def settled_def)
    from wf_dequeue [OF s2 t2 inact, of "[]"] none obtain st3 where
      st3: "PCD_timer_dequeue t ?s2 = Inr st3" "pcd_ok A (st3\<lparr>dequeueList := []\<rparr>)"
      and eq: "st3 = ?s2\<lparr>timerQueue := remove1 t (timerQueue ?s2), timerObjs := (timerObjs ?s2)(t := None)\<rparr>"
      by auto
    have "st3\<lparr>dequeueList := []\<rparr> = st3" using none eq by (cases st3) simp
    then have ok: "pcd_ok A st3" using st3(2) by metis
    obtain x where x: "timerObjs st1 t = Some x" using t quietD(2) [OF st1(2)] by (auto simp: rule_of_def)
    let ?s1 = "st1\<lparr>timerQueue := remove1 t (timerQueue st1), timerObjs := (timerObjs st1)(t := None)\<rparr>"
    have "set_state a ?d ?s1 = st3" by (simp add: eq set_state_def upd_rule_def)
    then have run: "PCD_timer_dequeue_rule (Some a) failed st = Inr (PCD_STATUS_OK, st3)"
      using r(1) Some stop x by (simp add: PCD_timer_dequeue_rule_def PCD_timer_dequeue_def del: not_None_eq)
    have "proc (rules st1 b) = Some p \<Longrightarrow> proc (rules st b) = Some p" for b p
      using st1(2) unfolding quiet_def by (metis option.distinct(1) rule.ext_inject rule.surjective rule.update_convs(14))
    then have "\<forall>b p. proc (rules st3 b) = Some p \<longrightarrow> proc (rules st b) = Some p"
      by (auto simp: eq set_state_def)
    moreover have "settled st3" "procList st3 = procList st"
      using assms(2) quietD [OF st1(2)] by (simp_all add: eq set_state_def settled_def)
    moreover have "\<not> rule_active (rules st3 a)" using inact by (simp add: eq)
    ultimately show ?thesis using run ok by simp
  qed
qed

section \<open>Removing stopped processes\<close>

text \<open>What is kept of the process list and of the pointers to processes.\<close>

definition keeps_procs :: "pcd \<Rightarrow> pcd \<Rightarrow> bool" where
  "keeps_procs st st' \<longleftrightarrow> procList st' = procList st
     \<and> (\<forall>b p. proc (rules st' b) = Some p \<longrightarrow> proc (rules st b) = Some p)"

lemma keeps_procs_trans: "keeps_procs st st1 \<Longrightarrow> keeps_procs st1 st2 \<Longrightarrow> keeps_procs st st2"
  by (auto simp: keeps_procs_def)

lemma quiet_proc: "quiet st st' \<Longrightarrow> proc (rules st' b) = Some p \<Longrightarrow> proc (rules st b) = Some p"
proof -
  assume q: "quiet st st'" and p: "proc (rules st' b) = Some p"
  have "rules st' b = rules st b \<or> rules st' b = (rules st b)\<lparr>proc := None\<rparr>"
    using q unfolding quiet_def by blast
  with p show ?thesis by (elim disjE) simp_all
qed

lemma keeps_procs_quiet: "quiet st st' \<Longrightarrow> keeps_procs st st'"
  by (auto simp: keeps_procs_def quietD dest: quiet_proc)

lemma settled_quiet: "quiet st st' \<Longrightarrow> settled st' = settled st"
  by (simp add: settled_def quietD)

text \<open>
  The failure action is carried out, or the daemon reboots: the enqueueing never fails, so the walk
  never comes back to a node.
\<close>

lemma trigger_action_ok:
  assumes "pcd_ok A st" and "settled st" and "a \<in> A"
  shows "safe (\<lambda>(s, st'). s = PCD_STATUS_OK \<and> pcd_ok A st' \<and> settled st' \<and> keeps_procs st st')
    (PCD_process_trigger_action a st)"
proof -
  from timer_dequeue_rule_ok [OF assms, of True] obtain s st1 where
    deq: "PCD_timer_dequeue_rule (Some a) True st = Inr (s, st1)" and st1: "pcd_ok A st1" "settled st1"
    "keeps_procs st st1" "\<not> rule_active (rules st1 a)" unfolding keeps_procs_def by blast
  have "safe (\<lambda>(s, st'). s = PCD_STATUS_OK \<and> pcd_ok A st' \<and> settled st' \<and> keeps_procs st st')
    (bind_run (PCD_failure_action a st1) (\<lambda>(tmpRule, st). case tmpRule of
       None \<Rightarrow> Inr (PCD_STATUS_OK, st)
     | Some b \<Rightarrow> (case PCD_timer_enqueue_rule (Some b) st of (retval, st) \<Rightarrow>
         if status_negative retval then Inr (retval, st) else Inr (PCD_STATUS_OK, st))))"
  proof (rule safe_bind [OF failure_action_ok [OF st1(1) assms(3)]], clarify)
    fix b st2
    assume st2: "pcd_ok A st2" "quiet st1 st2" "next_rule_ok A a st2 b"
    have k: "keeps_procs st st2" "settled st2"
      using keeps_procs_trans [OF st1(3) keeps_procs_quiet [OF st2(2)]] settled_quiet [OF st2(2)] st1(2)
      by simp_all
    show "safe (\<lambda>(s, st'). s = PCD_STATUS_OK \<and> pcd_ok A st' \<and> settled st' \<and> keeps_procs st st')
      (case b of None \<Rightarrow> Inr (PCD_STATUS_OK, st2)
       | Some b \<Rightarrow> (case PCD_timer_enqueue_rule (Some b) st2 of (retval, st) \<Rightarrow>
         if status_negative retval then Inr (retval, st) else Inr (PCD_STATUS_OK, st)))"
    proof (cases b)
      case None
      with st2(1) k show ?thesis by simp
    next
      case (Some c)
      with st2(3) have c: "c \<in> A" "proc (rules st2 c) = None" "c = a \<or> \<not> rule_active (rules st2 c)"
        by (simp_all add: next_rule_ok_def)
      with st1(4) quietD(9) [OF st2(2), of a] have "\<not> rule_active (rules st2 c)" by auto
      with timer_enqueue_rule_ok [OF st2(1) k(2) c(1)] c(2) obtain st3 where
        st3: "PCD_timer_enqueue_rule (Some c) st2 = (PCD_STATUS_OK, st3)" "pcd_ok A st3" "settled st3"
        "procList st3 = procList st2" "\<forall>b. proc (rules st3 b) = proc (rules st2 b)" by auto
      with Some k(1) show ?thesis by (simp add: status_negative_def keeps_procs_def)
    qed
  qed
  with deq show ?thesis by (simp add: PCD_process_trigger_action_def)
qed

lemma stop_stopped_ok:
  assumes "pcd_ok A st" and "settled st" and "p \<in> set (procList st)" and "procs st p = Some x"
  shows "safe (\<lambda>(again, st'). \<not> again \<and> pcd_ok A st' \<and> settled st' \<and> procList st' = remove1 p (procList st))
    (stop_stopped p x st)"
proof -
  let ?a = "p_rule x"
  have a: "?a \<in> A" using assms(1,4) by (auto simp: pcd_ok_def wf_procs_def)
  let ?s1 = "if proc (rules st ?a) = Some p then upd_rule ?a (\<lambda>r. r\<lparr>proc := None\<rparr>) st else st"
  let ?s2 = "?s1\<lparr>ipc_cleaned := ipc_cleaned ?s1 @ [pid x]\<rparr>"
  have "pcd_ok A ?s1" using assms(1) wf_detach [OF assms(1) a] by simp
  then have s2: "pcd_ok A ?s2" by (rule wf_logs)
  have set2: "settled ?s2" "procList ?s2 = procList st" using assms(2) by (simp_all add: settled_def)
  have det: "proc (rules ?s2 b) \<noteq> Some p" if b: "b \<in> A" for b
  proof (cases "proc (rules st b) = Some p")
    case True
    with wf_attachedD [OF assms(1) b True] assms(4) have "b = ?a" by auto
    with True show ?thesis by simp
  next
    case False
    then show ?thesis by simp
  qed
  let ?run = "if end_triggers (rules ?s2 ?a) x then PCD_process_trigger_action ?a ?s2
    else if end_replies x then Inr (PCD_STATUS_OK, PCD_api_reply_message (cookie x) PCD_STATUS_OK ?s2)
    else Inr (PCD_STATUS_OK, ?s2)"
  have "safe (\<lambda>(s, st'). s = PCD_STATUS_OK \<and> pcd_ok A st' \<and> settled st' \<and> keeps_procs ?s2 st') ?run"
  proof (cases "end_triggers (rules ?s2 ?a) x")
    case True
    with trigger_action_ok [OF s2 set2(1) a] show ?thesis by (simp only: if_True)
  next
    case False
    have "pcd_ok A (PCD_api_reply_message (cookie x) PCD_STATUS_OK ?s2)"
      "settled (PCD_api_reply_message (cookie x) PCD_STATUS_OK ?s2)"
      "keeps_procs ?s2 (PCD_api_reply_message (cookie x) PCD_STATUS_OK ?s2)"
      using s2 set2(1) wf_logs(2) [OF s2]
      by (cases "cookie x"; simp add: PCD_api_reply_message_def settled_def keeps_procs_def)+
    moreover have "keeps_procs ?s2 ?s2" by (simp add: keeps_procs_def)
    ultimately show ?thesis using False s2 set2(1) by (simp only: if_False) simp
  qed
  then have "safe (\<lambda>(again, st'). \<not> again \<and> pcd_ok A st' \<and> settled st' \<and> procList st' = remove1 p (procList st))
    (bind_run ?run (\<lambda>(s, st). if s \<noteq> PCD_STATUS_OK then Inr (True, st)
       else Inr (False, PCD_process_free p (NODE_DEL p st))))"
  proof (rule safe_bind, clarify)
    fix st3
    assume st3: "pcd_ok A st3" "settled st3" "keeps_procs ?s2 st3"
    have "\<forall>b \<in> A. proc (rules st3 b) \<noteq> Some p" using det st3(3) unfolding keeps_procs_def by blast
    with st3(1) have "pcd_ok A (PCD_process_free p (NODE_DEL p st3))" by (rule wf_del_proc)
    moreover have "procList st3 = procList st" using st3(3) set2(2) by (simp add: keeps_procs_def)
    ultimately show "safe (\<lambda>(again, st'). \<not> again \<and> pcd_ok A st' \<and> settled st'
        \<and> procList st' = remove1 p (procList st))
      (if PCD_STATUS_OK \<noteq> PCD_STATUS_OK then Inr (True, st3)
       else Inr (False, PCD_process_free p (NODE_DEL p st3)))"
      using st3(2) by (simp add: PCD_process_free_def NODE_DEL_def settled_def)
  qed
  then show ?thesis by (simp only: stop_stopped_def Let_def)
qed

lemma find_by_state_ok:
  "pcd_ok A st \<Longrightarrow> set ps \<subseteq> set (procList st) \<Longrightarrow> \<exists>r. find_by_state st ps s = Inr r"
proof (induction ps)
  case Nil
  then show ?case by simp
next
  case (Cons p ps)
  with wf_procD [OF Cons.prems(1), of p] show ?case by auto
qed

lemma removed_set: "set xs - {p} \<subseteq> set (remove1 p xs)"
  by (induction xs) auto

lemma stop_node_ok:
  assumes "pcd_ok A st" and "settled st" and "p \<in> set (procList st)"
  shows "safe (\<lambda>(again, st'). \<not> again \<and> pcd_ok A st' \<and> settled st'
    \<and> set (procList st) - {p} \<subseteq> set (procList st')) (stop_node os p st)"
proof -
  from wf_procD [OF assms(1,3)] obtain x where x: "procs st p = Some x" "p_rule x \<in> A" by blast
  have upd: "pcd_ok A (set_proc p y st) \<and> settled (set_proc p y st)"
    if "p_rule y = p_rule x" "attachable (p_state x) \<Longrightarrow> attachable (p_state y)" for y
    using wf_set_proc [OF assms(1) x(1) that(1)] wf_attachedD [OF assms(1) x(2), of p] x(1) that(2) assms(2)
    by (auto simp: settled_def)
  have sig: "pcd_ok A (send_signal q n s) = pcd_ok A s \<and> settled (send_signal q n s) = settled s" for q n s
  proof
    show "pcd_ok A (send_signal q n s) = pcd_ok A s"
    proof
      assume "pcd_ok A (send_signal q n s)"
      from wf_logs(1) [OF this, of "kills s"] show "pcd_ok A s" by (simp add: send_signal_def)
    qed (simp add: send_signal_def wf_logs)
  qed (simp add: send_signal_def settled_def)
  have comm: "set_proc p y (send_signal q n st) = send_signal q n (set_proc p y st)" for y q n
    by (simp add: set_proc_def send_signal_def)
  have sl: "procList (send_signal q n s) = procList s" for q n s by (simp add: send_signal_def)
  obtain k where k: "find_by_state st (procList st) PCD_PROCESS_KILLME = Inr k"
    using find_by_state_ok [OF assms(1), of "procList st"] by blast
  show ?thesis
  proof (cases "p_state x")
    case PCD_PROCESS_STOPPED
    have "safe (\<lambda>(again, st'). \<not> again \<and> pcd_ok A st' \<and> settled st'
      \<and> set (procList st) - {p} \<subseteq> set (procList st')) (stop_stopped p x st)"
      by (rule safe_mono [OF stop_stopped_ok [OF assms x(1)]]) (use removed_set [of "procList st" p] in auto)
    with PCD_PROCESS_STOPPED x(1) show ?thesis by (simp add: stop_node_def)
  qed (use x(1) k assms upd in \<open>auto simp: stop_node_def attachable_def Let_def comm sig sl\<close>)
qed

lemma stop_walk_ok:
  "pcd_ok A st \<Longrightarrow> settled st \<Longrightarrow> set ps \<subseteq> set (procList st) \<Longrightarrow> distinct ps
     \<Longrightarrow> \<exists>r. stop_walk os ps st = Some r \<and> safe (\<lambda>st'. pcd_ok A st' \<and> settled st') r"
proof (induction ps arbitrary: st)
  case Nil
  then show ?case by (subst stop_walk.simps) simp
next
  case (Cons p ps)
  have "safe (\<lambda>(again, st'). \<not> again \<and> pcd_ok A st' \<and> settled st'
    \<and> set (procList st) - {p} \<subseteq> set (procList st')) (stop_node os p st)"
    by (rule stop_node_ok) (use Cons.prems in auto)
  then consider "stop_node os p st = Inl (Exited 1)"
    | st' where "stop_node os p st = Inr (False, st')" "pcd_ok A st'" "settled st'"
      "set (procList st) - {p} \<subseteq> set (procList st')"
    by (auto simp: safe_def)
  then show ?case
  proof cases
    case 1
    then show ?thesis by (subst stop_walk.simps) simp
  next
    case (2 st')
    have "\<exists>r. stop_walk os ps st' = Some r \<and> safe (\<lambda>st'. pcd_ok A st' \<and> settled st') r"
      by (rule Cons.IH [OF 2(2,3)]) (use Cons.prems(3,4) 2(4) in auto)
    with 2(1) show ?thesis by (subst stop_walk.simps) simp
  qed
qed

lemma iterate_stop_ok:
  assumes "pcd_ok A st" and "settled st"
  shows "safe (\<lambda>(s, st'). s = PCD_STATUS_OK \<and> pcd_ok A st' \<and> settled st') (PCD_process_iterate_stop os st)"
proof -
  have "distinct (procList st)" using assms(1) by (simp add: pcd_ok_def wf_procs_def)
  from stop_walk_ok [OF assms subset_refl this] obtain r where
    "stop_walk os (procList st) st = Some r" "safe (\<lambda>st'. pcd_ok A st' \<and> settled st') r" by blast
  then show ?thesis by (auto simp: PCD_process_iterate_stop_def intro: safe_bind)
qed

lemma iterate_start_ok:
  assumes "pcd_ok A st" and "settled st"
  shows "\<exists>st'. PCD_process_iterate_start os st = Inr (PCD_STATUS_OK, st') \<and> pcd_ok A st' \<and> settled st'"
proof -
  from start_walk_ok [OF assms(1), of "procList st" os] obtain st' where
    "start_walk os (procList st) st = Inr st'" "pcd_ok A st'" "quiet st st'" by auto
  with assms(2) settled_quiet show ?thesis by (simp add: PCD_process_iterate_start_def)
qed

lemma chld_handler_ok:
  "pcd_ok A st \<Longrightarrow> settled st \<Longrightarrow>
     \<exists>st'. PCD_process_chld_handler ws st = Inr st' \<and> pcd_ok A st' \<and> settled st'"
proof (induction ws arbitrary: st)
  case Nil
  then show ?case by simp
next
  case (Cons w ws)
  obtain q s where w: "w = (q, s)" by (cases w)
  from process_chld_ok [OF Cons.prems(1), of "procList st" q s] obtain st1 where
    st1: "PCD_process_chld q s st = Inr st1" "pcd_ok A st1" "quiet st st1" by (auto simp: PCD_process_chld_def)
  with Cons.IH [OF st1(2)] Cons.prems settled_quiet w show ?case by auto
qed

end
