(* ===== verification/PcdApi.thy ===== *)
theory PcdApi imports ProcessStop begin

text \<open>
  The request side of the daemon's API, \<open>pcd/src/pcd_api.c\<close>, and \<open>pcd/src/misc.c\<close>.  A message is the
  structure \<open>pcdApiMessage_t\<close>; the member of its union that the type uses is \<open>m_arg\<close>.  The IPC
  library delivers the messages and sends the replies; \<open>m_context\<close> is whether \<open>IPC_get_msg\<close> and
  \<open>IPC_get_msg_context\<close> accept a message, that is, whether its magic number is right.  Allocation of
  the reply is assumed to succeed.
\<close>

section \<open>Messages\<close>

datatype api_type =
    PCD_API_START_PROCESS
  | PCD_API_TERMINATE_PROCESS
  | PCD_API_TERMINATE_PROCESS_SYNC
  | PCD_API_KILL_PROCESS
  | PCD_API_PROCESS_READY
  | PCD_API_SIGNAL_PROCESS
  | PCD_API_GET_RULE_STATE
  | PCD_API_REDUCE_NETRX_PRIORITY
  | PCD_API_RESTORE_NETRX_PRIORITY
  | PCD_API_OTHER int

record api_msg =
  m_addr :: addr
  m_type :: api_type
  m_arg :: int
  m_ruleId :: rule_id
  m_msgId :: u32
  m_params :: string
  m_context :: bool

datatype api_rule_state =
    PCD_API_RULE_IDLE
  | PCD_API_RULE_RUNNING
  | PCD_API_RULE_COMPLETED_PROCESS_RUNNING
  | PCD_API_RULE_COMPLETED_PROCESS_EXITED
  | PCD_API_RULE_NOT_COMPLETED
  | PCD_API_RULE_FAILED

record api_reply =
  r_msgId :: u32
  r_ruleState :: "api_rule_state option"
  r_retval :: PCD_status

section \<open>The net-rx task\<close>

record misc_state =
  netRxPid :: int
  netRxPriority :: u32

record misc_os =
  find_net_rx :: int
  sched_priority :: "u32 option"

definition PCD_misc_reduce_net_rx_priority :: "misc_os \<Rightarrow> misc_state \<Rightarrow> PCD_status \<times> misc_state" where
  "PCD_misc_reduce_net_rx_priority mo ms =
     (let ms = ms\<lparr>netRxPid := find_net_rx mo\<rparr> in
      if netRxPid ms \<noteq> 0
      then (PCD_STATUS_OK, ms\<lparr>netRxPriority := (case sched_priority mo of Some w \<Rightarrow> w | None \<Rightarrow> 50)\<rparr>)
      else (PCD_STATUS_NOK, ms))"

definition PCD_misc_restore_net_rx_priority :: "misc_state \<Rightarrow> PCD_status \<times> misc_state" where
  "PCD_misc_restore_net_rx_priority ms =
     (PCD_STATUS_OK, if netRxPid ms \<noteq> 0 then ms\<lparr>netRxPid := 0\<rparr> else ms)"

section \<open>Requests on a rule\<close>

definition PCD_api_stop :: "addr \<Rightarrow> bool \<Rightarrow> addr option \<Rightarrow> pcd \<Rightarrow> (PCD_status \<times> pcd) run" where
  "PCD_api_stop a brutal ck st =
     (case PCD_rulesdb_clear_optional_params (Some a) st of (_, st) \<Rightarrow>
      bind_run (PCD_timer_dequeue_rule (Some a) False st) (\<lambda>(retval, st).
      if retval = PCD_STATUS_INVALID_RULE then
        bind_run (PCD_process_stop (Some a) brutal ck st) (\<lambda>(retval, st).
        if retval = PCD_STATUS_OK
        then Inr (if ck \<noteq> None then PCD_STATUS_WAIT else PCD_STATUS_OK, set_state a PCD_RULE_IDLE st)
        else Inr (retval, st))
      else Inr (retval, st)))"

definition PCD_api_start :: "addr \<Rightarrow> pcd \<Rightarrow> PCD_status \<times> pcd" where
  "PCD_api_start a st = PCD_timer_enqueue_rule (Some a) st"

definition PCD_api_signal :: "addr \<Rightarrow> int \<Rightarrow> pcd \<Rightarrow> (PCD_status \<times> pcd) run" where
  "PCD_api_signal a sig st =
     (if sig = SIGUSR1 \<or> sig = SIGUSR2 then PCD_process_signal_by_rule (Some a) sig st
      else Inr (PCD_STATUS_BAD_PARAMS, st))"

definition api_state_of :: "rule \<Rightarrow> api_rule_state" where
  "api_state_of r = (case ruleState r of
      PCD_RULE_IDLE \<Rightarrow> PCD_API_RULE_IDLE
    | PCD_RULE_ACTIVE \<Rightarrow> PCD_API_RULE_RUNNING
    | PCD_RULE_START_CONDITION_WAITING \<Rightarrow> PCD_API_RULE_RUNNING
    | PCD_RULE_END_CONDITION_WAITING \<Rightarrow> PCD_API_RULE_RUNNING
    | PCD_RULE_COMPLETED \<Rightarrow> if proc r \<noteq> None then PCD_API_RULE_COMPLETED_PROCESS_RUNNING
        else PCD_API_RULE_COMPLETED_PROCESS_EXITED
    | PCD_RULE_FAILED \<Rightarrow> PCD_API_RULE_FAILED
    | PCD_RULE_NOT_COMPLETED \<Rightarrow> PCD_API_RULE_NOT_COMPLETED)"

text \<open>The switch over the type; the rule state goes through \<open>replyData\<close>, NULL without a context.\<close>

definition api_request :: "api_msg \<Rightarrow> addr \<Rightarrow> pcd \<Rightarrow> (PCD_status \<times> api_rule_state option \<times> pcd) run" where
  "api_request m a st = (case m_type m of
      PCD_API_START_PROCESS \<Rightarrow>
        (case (if m_params m \<noteq> [] then PCD_rulesdb_setup_optional_params (Some a) (Some (m_params m)) st
               else (PCD_STATUS_OK, st)) of (_, st) \<Rightarrow>
         case PCD_api_start a st of (retval, st) \<Rightarrow> Inr (retval, None, st))
    | PCD_API_TERMINATE_PROCESS_SYNC \<Rightarrow>
        bind_run (PCD_api_stop a False (Some (m_addr m)) st) (\<lambda>(retval, st). Inr (retval, None, st))
    | PCD_API_TERMINATE_PROCESS \<Rightarrow>
        bind_run (PCD_api_stop a False None st) (\<lambda>(retval, st). Inr (retval, None, st))
    | PCD_API_KILL_PROCESS \<Rightarrow>
        bind_run (PCD_api_stop a True None st) (\<lambda>(retval, st). Inr (retval, None, st))
    | PCD_API_SIGNAL_PROCESS \<Rightarrow>
        bind_run (PCD_api_signal a (m_arg m) st) (\<lambda>(retval, st). Inr (retval, None, st))
    | PCD_API_GET_RULE_STATE \<Rightarrow>
        if m_context m then Inr (PCD_STATUS_OK, Some (api_state_of (rules st a)), st) else Inl NullDeref
    | _ \<Rightarrow> Inr (PCD_STATUS_BAD_PARAMS, None, st))"

definition process_ready :: "int \<Rightarrow> pcd \<Rightarrow> (PCD_status \<times> pcd) run" where
  "process_ready q st = bind_run (PCD_process_get_rule_by_pid q st) (\<lambda>rule. case rule of
      None \<Rightarrow> Inr (PCD_STATUS_INVALID_RULE, st)
    | Some a \<Rightarrow> (case endCondition (rules st a) of
        END_PROCESS_READY _ \<Rightarrow>
          Inr (PCD_STATUS_OK, upd_rule a (\<lambda>r. r\<lparr>endCondition := END_PROCESS_READY True\<rparr>) st)
      | _ \<Rightarrow> Inr (PCD_STATUS_BAD_PARAMS, st)))"

section \<open>The message loop\<close>

record api_state =
  core :: pcd
  misc :: misc_state
  sent :: "(addr \<times> api_reply) list"
  freed_msgs :: "addr list"

definition api_dispatch ::
  "misc_os \<Rightarrow> api_msg \<Rightarrow> api_state \<Rightarrow> (PCD_status \<times> api_rule_state option \<times> api_state) run" where
  "api_dispatch mo m s =
     (if m_type m = PCD_API_PROCESS_READY then
        bind_run (process_ready (m_arg m) (core s)) (\<lambda>(retval, st). Inr (retval, None, s\<lparr>core := st\<rparr>))
      else if m_type m = PCD_API_REDUCE_NETRX_PRIORITY then
        (case PCD_misc_reduce_net_rx_priority mo (misc s) of (retval, ms) \<Rightarrow> Inr (retval, None, s\<lparr>misc := ms\<rparr>))
      else if m_type m = PCD_API_RESTORE_NETRX_PRIORITY then
        (case PCD_misc_restore_net_rx_priority (misc s) of (retval, ms) \<Rightarrow> Inr (retval, None, s\<lparr>misc := ms\<rparr>))
      else
        bind_run (PCD_rulesdb_get_rule_by_id (Some (m_ruleId m)) (core s)) (\<lambda>(rule, st). case rule of
          None \<Rightarrow> Inr (PCD_STATUS_INVALID_RULE, None, s\<lparr>core := st\<rparr>)
        | Some a \<Rightarrow> bind_run (api_request m a st) (\<lambda>(retval, rs, st). Inr (retval, rs, s\<lparr>core := st\<rparr>))))"

text \<open>
  A synchronous termination that has to wait is neither answered nor freed here: the message is the
  cookie of the process and \<open>PCD_api_reply_message\<close> answers it later.  For a message without the
  magic number \<open>IPC_get_msg\<close> returns NULL, and the type is read through that pointer.
\<close>

definition handle_message :: "misc_os \<Rightarrow> api_msg \<Rightarrow> api_state \<Rightarrow> api_state run" where
  "handle_message mo m s = (if \<not> m_context m then Inl NullDeref else
     bind_run (api_dispatch mo m s) (\<lambda>(retval, rs, s).
     let s = (if retval \<noteq> PCD_STATUS_WAIT
              then s\<lparr>sent := sent s @ [(m_addr m, \<lparr>r_msgId = m_msgId m, r_ruleState = rs, r_retval = retval\<rparr>)]\<rparr>
              else s)
     in Inr (if retval \<noteq> PCD_STATUS_WAIT then s\<lparr>freed_msgs := freed_msgs s @ [m_addr m]\<rparr> else s)))"

fun handle_messages :: "misc_os \<Rightarrow> nat \<Rightarrow> api_msg list \<Rightarrow> api_state \<Rightarrow> api_state run" where
  "handle_messages mo 0 ms s = Inr s"
| "handle_messages mo (Suc budget) [] s = Inr s"
| "handle_messages mo (Suc budget) (m # ms) s =
     bind_run (handle_message mo m s) (handle_messages mo budget ms)"

text \<open>\<open>ms\<close>: the messages that are waiting in the socket; at most five are taken.\<close>

definition PCD_api_check_messages :: "misc_os \<Rightarrow> api_msg list \<Rightarrow> api_state \<Rightarrow> (PCD_status \<times> api_state) run" where
  "PCD_api_check_messages mo ms s =
     bind_run (handle_messages mo 5 ms s) (\<lambda>s. Inr (PCD_STATUS_OK, s))"

end
