(* ===== verification/PcdMain.thy ===== *)
theory PcdMain imports PcdApi begin

text \<open>
  The main program of the daemon, \<open>pcd/src/main.c\<close>: the command line, the initialisation and the
  endless loop, of which \<open>PCD_main_round\<close> is one iteration.  The parser of the rules file and the
  initialisation of IPC are parameters here.
\<close>

section \<open>Command line\<close>

definition PCD_TIMER_TICK_DEFAULT :: u32 where
  "PCD_TIMER_TICK_DEFAULT = 200"

record pcd_options =
  verboseOutput :: bool
  debugMode :: bool
  crashDaemonMode :: bool
  parserVerbose :: bool
  rulesFilename :: "string option"
  errlogFilename :: "string option"
  PCD_TIMER_TICK :: u32

definition default_options :: pcd_options where
  "default_options = \<lparr>verboseOutput = False, debugMode = False, crashDaemonMode = False,
     parserVerbose = False, rulesFilename = None, errlogFilename = None,
     PCD_TIMER_TICK = PCD_TIMER_TICK_DEFAULT\<rparr>"

text \<open>\<open>atoi\<close> is the parameter \<open>num\<close>; the result is stored in an unsigned variable.\<close>

definition set_timer_tick :: "int \<Rightarrow> pcd_options \<Rightarrow> pcd_options" where
  "set_timer_tick num os =
     (let tick = (word_of_int num :: u32) in
      os\<lparr>PCD_TIMER_TICK := (if tick < 10 \<or> tick > 500 then PCD_TIMER_TICK_DEFAULT else tick)\<rparr>)"

definition parse_option :: "(string \<Rightarrow> int) \<Rightarrow> char \<Rightarrow> string \<Rightarrow> pcd_options \<Rightarrow> pcd_options run" where
  "parse_option atoi c optarg os =
     (if c = CHR ''d'' then Inr (os\<lparr>debugMode := True\<rparr>)
      else if c = CHR ''c'' then
        Inr (if rulesFilename os \<noteq> None then os else os\<lparr>crashDaemonMode := True\<rparr>)
      else if c = CHR ''p'' then Inr (os\<lparr>parserVerbose := True\<rparr>)
      else if c = CHR ''v'' then Inr (os\<lparr>verboseOutput := True\<rparr>)
      else if c = CHR ''f'' then
        (if crashDaemonMode os then Inl (Exited 1) else Inr (os\<lparr>rulesFilename := Some optarg\<rparr>))
      else if c = CHR ''h'' then Inl (Exited 0)
      else if c = CHR ''e'' then Inr (os\<lparr>errlogFilename := Some optarg\<rparr>)
      else if c = CHR ''t'' then Inr (set_timer_tick (atoi optarg) os)
      else if c = CHR ''V'' then Inl (Exited 0)
      else Inr os)"

text \<open>The options that \<open>getopt_long\<close> returns, in order; an unknown one is \<open>?\<close> and is ignored.\<close>

fun PCD_main_parse_params :: "(string \<Rightarrow> int) \<Rightarrow> (char \<times> string) list \<Rightarrow> pcd_options \<Rightarrow> pcd_options run" where
  "PCD_main_parse_params atoi [] os = Inr os"
| "PCD_main_parse_params atoi ((c, optarg) # opts) os =
     bind_run (parse_option atoi c optarg os) (PCD_main_parse_params atoi opts)"

section \<open>Initialisation\<close>

text \<open>The signals that it ignores and the handlers it installs are not part of the state.\<close>

definition PCD_process_init :: "pcd \<Rightarrow> PCD_status \<times> pcd" where
  "PCD_process_init st = (PCD_STATUS_OK, st)"

text \<open>
  \<open>parse\<close> fills the database from the rules file, \<open>api_ok\<close> and \<open>exc_ok\<close> are the results of
  \<open>PCD_api_init\<close> and \<open>PCD_exception_init\<close>.
\<close>

definition PCD_main_init ::
  "(string option \<Rightarrow> pcd \<Rightarrow> (PCD_status \<times> pcd) run) \<Rightarrow> bool \<Rightarrow> bool \<Rightarrow> pcd_options \<Rightarrow> pcd \<Rightarrow> pcd run" where
  "PCD_main_init parse api_ok exc_ok os st =
     (case PCD_timer_init st of (s, st) \<Rightarrow>
      if s \<noteq> PCD_STATUS_OK then Inl (Exited 1)
      else case PCD_process_init st of (s, st) \<Rightarrow>
      if s \<noteq> PCD_STATUS_OK then Inl (Exited 1)
      else bind_run (if \<not> crashDaemonMode os then parse (rulesFilename os) st else Inr (PCD_STATUS_OK, st))
        (\<lambda>(s, st).
          if s \<noteq> PCD_STATUS_OK then Inl (Exited 1)
          else if \<not> api_ok then Inl (Exited 1)
          else bind_run (PCD_rulesdb_activate st) (\<lambda>(s, st).
            if s \<noteq> PCD_STATUS_OK then Inl (Exited 1)
            else (case PCD_timer_start st of (s, st) \<Rightarrow>
              if s \<noteq> PCD_STATUS_OK then Inl (Exited 1)
              else if \<not> exc_ok then Inl (Exited 1) else Inr st))))"

section \<open>The main loop\<close>

definition PCD_PROCESS_TICK :: u32 where
  "PCD_PROCESS_TICK = 1500"

text \<open>What one iteration meets: the waiting messages and the answers of the system.\<close>

record round_input =
  in_messages :: "api_msg list"
  in_misc :: misc_os
  in_env :: "addr \<Rightarrow> pcd_os"
  in_start :: pcd_os
  in_stop :: pcd_os

record main_state = api_state +
  tickCounter :: u32

definition api_part :: "main_state \<Rightarrow> api_state" where
  "api_part d = \<lparr>core = core d, misc = misc d, sent = sent d, freed_msgs = freed_msgs d\<rparr>"

definition with_api :: "main_state \<Rightarrow> api_state \<Rightarrow> main_state" where
  "with_api d s = d\<lparr>core := core s, misc := misc s, sent := sent s, freed_msgs := freed_msgs s\<rparr>"

definition PCD_main_round :: "round_input \<Rightarrow> main_state \<Rightarrow> main_state run" where
  "PCD_main_round i d =
     bind_run (PCD_api_check_messages (in_misc i) (in_messages i) (api_part d)) (\<lambda>(_, s).
     let d = with_api d s in
     bind_run (PCD_timer_iterate (in_env i) (core d)) (\<lambda>(flag, st).
     bind_run
       (if flag \<or> tickCounter d \<ge> PCD_PROCESS_TICK then
          bind_run (PCD_process_iterate_start (in_start i) st) (\<lambda>(_, st).
          bind_run (PCD_process_iterate_stop (in_stop i) st) (\<lambda>(_, st). Inr (st, 0)))
        else Inr (st, tickCounter d))
       (\<lambda>(st, tick). Inr (d\<lparr>core := st, tickCounter := tick + timerTick st\<rparr>))))"

text \<open>
  All messages have the magic number, which the IPC library writes into every message it allocates.
  \<open>IPC_wait_msg\<close> itself does not check it: any datagram on the socket is handed out.
\<close>

definition messages_ok :: "round_input \<Rightarrow> bool" where
  "messages_ok i \<longleftrightarrow> (\<forall>m \<in> set (in_messages i). m_context m)"

text \<open>
  The loop together with the SIGCHLD handler, which runs between two iterations: the states that the
  daemon passes through.
\<close>

inductive pcd_reach :: "main_state \<Rightarrow> main_state \<Rightarrow> bool" for d0 where
  reach_start: "pcd_reach d0 d0"
| reach_round: "pcd_reach d0 d \<Longrightarrow> messages_ok i \<Longrightarrow> PCD_main_round i d = Inr d' \<Longrightarrow> pcd_reach d0 d'"
| reach_chld: "pcd_reach d0 d \<Longrightarrow> PCD_process_chld_handler ws (core d) = Inr st
    \<Longrightarrow> pcd_reach d0 (d\<lparr>core := st\<rparr>)"

inductive_cases pcd_reach_cases: "pcd_reach d0 d"

end
