(* ===== verification/PcdSafe.thy ===== *)
theory PcdSafe imports PcdOps PcdMain begin

text \<open>
  The daemon as a whole: every state it passes through satisfies the invariant, and no iteration of
  its main loop touches freed memory, follows a NULL pointer or fails to return; it goes on for ever
  unless a REBOOT action ends it.
\<close>

section \<open>Requests\<close>

definition core_ok :: "addr set \<Rightarrow> pcd \<Rightarrow> bool" where
  "core_ok A st \<longleftrightarrow> pcd_ok A st \<and> settled st"

lemma settled_upd: "settled (upd_rule a f st) = settled st"
  by (simp add: settled_def)

lemma wf_optional_params:
  assumes "core_ok A st" and "a \<in> A"
  shows "core_ok A (upd_rule a (\<lambda>r. r\<lparr>optionalParams := p\<rparr>) st)"
proof -
  have "pcd_ok A st" using assms(1) by (simp add: core_ok_def)
  then have "pcd_ok A (upd_rule a (\<lambda>r. r\<lparr>optionalParams := p\<rparr>) st)"
    using wf_rule [OF _ assms(2)] assms(2)
    by (intro wf_upd_rule) (simp_all add: same_rule_def rule_active_def rule_ok_def)
  with assms(1) show ?thesis by (simp add: core_ok_def settled_upd)
qed

lemma api_stop_ok:
  assumes "core_ok A st" and "a \<in> A"
  shows "\<exists>s st'. PCD_api_stop a brutal ck st = Inr (s, st') \<and> core_ok A st'"
proof -
  let ?s1 = "upd_rule a (\<lambda>r. r\<lparr>optionalParams := None\<rparr>) st"
  have s1: "pcd_ok A ?s1" "settled ?s1" using wf_optional_params [OF assms] by (simp_all add: core_ok_def)
  from timer_dequeue_rule_ok [OF s1 assms(2), of False] obtain r st2 where
    deq: "PCD_timer_dequeue_rule (Some a) False ?s1 = Inr (r, st2)" and st2: "core_ok A st2"
    unfolding core_ok_def by blast
  have clear: "PCD_rulesdb_clear_optional_params (Some a) st = (PCD_STATUS_OK, ?s1)"
    by (simp add: PCD_rulesdb_clear_optional_params_def)
  show ?thesis
  proof (cases "r = PCD_STATUS_INVALID_RULE")
    case False
    with deq clear st2 show ?thesis by (simp add: PCD_api_stop_def)
  next
    case True
    have ok2: "pcd_ok A st2" using st2 by (simp add: core_ok_def)
    from process_stop_ok [OF ok2 assms(2), of brutal ck] obtain q st3 where
      stop: "PCD_process_stop (Some a) brutal ck st2 = Inr (q, st3)" "pcd_ok A st3" "quiet st2 st3" by blast
    have "settled st3" using st2 settled_quiet [OF stop(3)] by (simp add: core_ok_def)
    moreover have "pcd_ok A (set_state a PCD_RULE_IDLE st3)"
      by (rule wf_set_state [OF stop(2) assms(2)]) simp_all
    ultimately show ?thesis using True deq clear stop
      by (simp add: PCD_api_stop_def core_ok_def set_state_def settled_upd)
  qed
qed

lemma api_signal_ok:
  assumes "core_ok A st" and "a \<in> A"
  shows "\<exists>s st'. PCD_api_signal a sig st = Inr (s, st') \<and> core_ok A st'"
proof -
  have ok: "pcd_ok A st" using assms(1) by (simp add: core_ok_def)
  have sig: "core_ok A (send_signal q sig st)" for q
    using assms(1) wf_logs(1) [OF ok] by (simp add: core_ok_def settled_def send_signal_def)
  show ?thesis
  proof (cases "proc (rules st a)")
    case None
    with assms(1) show ?thesis by (simp add: PCD_api_signal_def PCD_process_signal_by_rule_def)
  next
    case (Some p)
    with wf_attachedD [OF ok assms(2) Some] assms(1) sig show ?thesis
      by (auto simp: PCD_api_signal_def PCD_process_signal_by_rule_def)
  qed
qed

lemma api_request_ok:
  assumes "core_ok A st" and "a \<in> A" and "m_context m"
  shows "\<exists>s rs st'. api_request m a st = Inr (s, rs, st') \<and> core_ok A st'"
proof (cases "m_type m")
  case PCD_API_START_PROCESS
  let ?s1 = "if m_params m \<noteq> [] then upd_rule a (\<lambda>r. r\<lparr>optionalParams := Some (m_params m)\<rparr>) st else st"
  have "core_ok A ?s1" using assms(1) wf_optional_params [OF assms(1,2)] by simp
  then have "pcd_ok A ?s1" "settled ?s1" by (simp_all only: core_ok_def)
  from timer_enqueue_rule_ok [OF this assms(2)] obtain s st' where
    "PCD_timer_enqueue_rule (Some a) ?s1 = (s, st')" "core_ok A st'" by (auto simp: core_ok_def)
  with PCD_API_START_PROCESS show ?thesis
    by (simp add: api_request_def PCD_api_start_def PCD_rulesdb_setup_optional_params_def split: if_splits)
next
  case PCD_API_TERMINATE_PROCESS
  with api_stop_ok [OF assms(1,2), of False None] show ?thesis by (auto simp: api_request_def)
next
  case PCD_API_TERMINATE_PROCESS_SYNC
  with api_stop_ok [OF assms(1,2), of False "Some (m_addr m)"] show ?thesis by (auto simp: api_request_def)
next
  case PCD_API_KILL_PROCESS
  with api_stop_ok [OF assms(1,2), of True None] show ?thesis by (auto simp: api_request_def)
next
  case PCD_API_SIGNAL_PROCESS
  with api_signal_ok [OF assms(1,2), of "m_arg m"] show ?thesis by (auto simp: api_request_def)
qed (use assms in \<open>simp_all add: api_request_def\<close>)

lemma rule_of_pid_ok:
  "pcd_ok A st \<Longrightarrow> set ps \<subseteq> set (procList st)
     \<Longrightarrow> \<exists>r. rule_of_pid st q ps = Inr r \<and> (\<forall>a. r = Some a \<longrightarrow> a \<in> A)"
proof (induction ps)
  case Nil
  then show ?case by simp
next
  case (Cons p ps)
  with wf_procD [OF Cons.prems(1), of p] show ?case by auto
qed

lemma process_ready_ok:
  assumes "core_ok A st"
  shows "\<exists>s st'. process_ready q st = Inr (s, st') \<and> core_ok A st'"
proof -
  have ok: "pcd_ok A st" using assms by (simp add: core_ok_def)
  from rule_of_pid_ok [OF ok subset_refl] obtain r where
    r: "PCD_process_get_rule_by_pid q st = Inr r" "\<And>a. r = Some a \<Longrightarrow> a \<in> A"
    by (auto simp: PCD_process_get_rule_by_pid_def)
  show ?thesis
  proof (cases r)
    case None
    with r(1) assms show ?thesis by (simp add: process_ready_def)
  next
    case (Some a)
    with wf_end_condition(1) [OF ok r(2) [OF Some]] r(1) assms show ?thesis
      by (auto simp: process_ready_def core_ok_def settled_upd split: end_cond.splits)
  qed
qed

lemma api_dispatch_ok:
  assumes "core_ok A (core s)" and "m_context m"
  shows "\<exists>r rs s'. api_dispatch mo m s = Inr (r, rs, s') \<and> core_ok A (core s')"
proof -
  have ok: "pcd_ok A (core s)" using assms(1) by (simp add: core_ok_def)
  note look = wf_lookup [OF ok, of "m_ruleId m"]
  have request: "\<exists>r rs s'. bind_run (PCD_rulesdb_get_rule_by_id (Some (m_ruleId m)) (core s)) (\<lambda>(rule, st).
      case rule of None \<Rightarrow> Inr (PCD_STATUS_INVALID_RULE, None, s\<lparr>core := st\<rparr>)
      | Some a \<Rightarrow> bind_run (api_request m a st) (\<lambda>(retval, rs, st). Inr (retval, rs, s\<lparr>core := st\<rparr>)))
    = Inr (r, rs, s') \<and> core_ok A (core s')"
  proof (cases "db_map (core s) (m_ruleId m)")
    case None
    with look(1) assms(1) show ?thesis by simp
  next
    case (Some a)
    with api_request_ok [OF assms(1) look(2) [OF Some] assms(2)] look(1) show ?thesis by auto
  qed
  show ?thesis
    using process_ready_ok [OF assms(1), of "m_arg m"] request assms(1)
    by (auto simp: api_dispatch_def split: prod.splits)
qed

lemma handle_messages_ok:
  "core_ok A (core s) \<Longrightarrow> \<forall>m \<in> set ms. m_context m \<Longrightarrow>
     \<exists>s'. handle_messages mo n ms s = Inr s' \<and> core_ok A (core s')"
proof (induction mo n ms s rule: handle_messages.induct)
  case (3 mo budget m ms s)
  from api_dispatch_ok [OF 3(2), of m mo] 3(3) obtain r rs s1 where
    "api_dispatch mo m s = Inr (r, rs, s1)" "core_ok A (core s1)" by auto
  moreover have "m_context m" using 3(3) by simp
  ultimately obtain s2 where "handle_message mo m s = Inr s2" "core_ok A (core s2)"
    by (auto simp: handle_message_def Let_def)
  with 3 show ?case by simp
qed simp_all

section \<open>The main loop\<close>

lemma main_round_ok:
  assumes "core_ok A (core d)" and "messages_ok i"
  shows "safe (\<lambda>d'. core_ok A (core d')) (PCD_main_round i d)"
proof -
  from handle_messages_ok [of A "api_part d" "in_messages i" "in_misc i" 5] assms obtain s where
    s: "handle_messages (in_misc i) 5 (in_messages i) (api_part d) = Inr s" "core_ok A (core s)"
    by (auto simp: api_part_def messages_ok_def)
  have w: "core (with_api d s) = core s" by (simp add: with_api_def)
  have procs: "safe (\<lambda>(st, t). core_ok A st)
      (if c then bind_run (PCD_process_iterate_start (in_start i) st) (\<lambda>(_, st).
          bind_run (PCD_process_iterate_stop (in_stop i) st) (\<lambda>(_, st). Inr (st, 0))) else Inr (st, t))"
    if st: "core_ok A st" for c st and t :: u32
  proof -
    from iterate_start_ok [of A st "in_start i"] st obtain st1 where
      st1: "PCD_process_iterate_start (in_start i) st = Inr (PCD_STATUS_OK, st1)" "pcd_ok A st1" "settled st1"
      by (auto simp: core_ok_def)
    have "safe (\<lambda>(st, t). core_ok A st)
      (bind_run (PCD_process_iterate_stop (in_stop i) st1) (\<lambda>(_, st). Inr (st, 0 :: u32)))"
      by (rule safe_bind [OF iterate_stop_ok [OF st1(2,3), of "in_stop i"]]) (auto simp: core_ok_def)
    with st st1(1) show ?thesis by simp
  qed
  have "pcd_ok A (core s)" "settled (core s)" using s(2) by (simp_all add: core_ok_def)
  note iter = timer_iterate_ok [OF this, of "in_env i"]
  have "safe (\<lambda>d'. core_ok A (core d'))
    (bind_run (PCD_timer_iterate (in_env i) (core s)) (\<lambda>(flag, st).
     bind_run
       (if flag \<or> tickCounter (with_api d s) \<ge> PCD_PROCESS_TICK then
          bind_run (PCD_process_iterate_start (in_start i) st) (\<lambda>(_, st).
          bind_run (PCD_process_iterate_stop (in_stop i) st) (\<lambda>(_, st). Inr (st, 0)))
        else Inr (st, tickCounter (with_api d s)))
       (\<lambda>(st, tick). Inr ((with_api d s)\<lparr>core := st, tickCounter := tick + timerTick st\<rparr>))))"
  proof (rule safe_bind [OF iter], clarify)
    fix flag st
    assume "pcd_ok A st" "settled st"
    then have st: "core_ok A st" by (simp add: core_ok_def)
    show "safe (\<lambda>d'. core_ok A (core d')) (bind_run
       (if flag \<or> tickCounter (with_api d s) \<ge> PCD_PROCESS_TICK then
          bind_run (PCD_process_iterate_start (in_start i) st) (\<lambda>(_, st).
          bind_run (PCD_process_iterate_stop (in_stop i) st) (\<lambda>(_, st). Inr (st, 0)))
        else Inr (st, tickCounter (with_api d s)))
       (\<lambda>(st, tick). Inr ((with_api d s)\<lparr>core := st, tickCounter := tick + timerTick st\<rparr>)))"
      by (rule safe_bind [OF procs [OF st]]) auto
  qed
  then show ?thesis using s(1) w by (simp add: PCD_main_round_def PCD_api_check_messages_def Let_def)
qed


lemma reach_ok: "pcd_reach d0 d \<Longrightarrow> core_ok A (core d0) \<Longrightarrow> core_ok A (core d)"
proof (induction rule: pcd_reach.induct)
  case (reach_round d i d')
  with main_round_ok [of A d i] show ?case by (simp add: safe_def)
next
  case (reach_chld d ws st)
  then have "pcd_ok A (core d)" "settled (core d)" by (simp_all add: core_ok_def)
  from chld_handler_ok [OF this, of ws] reach_chld show ?case by (simp add: core_ok_def)
qed simp

section \<open>Activation\<close>

text \<open>The enumeration stands at the first rule of \<open>as\<close>, the rest of the database.\<close>

definition at_rule :: "pcd \<Rightarrow> addr list \<Rightarrow> bool" where
  "at_rule st as \<longleftrightarrow> (\<exists>gs1 g xs1 a xs2 gs2. groups st = gs1 @ (g, xs1 @ a # xs2) # gs2
     \<and> lastReturnedGroup st = Some g \<and> lastReturnedRule st = Some a
     \<and> as = a # xs2 @ concat (map snd gs2))"

lemma next_of_append: "x \<notin> set ys \<Longrightarrow> next_of x (ys @ x # zs) = opt_hd zs"
  by (induction ys) auto

lemma group_distinct: "group_ok rs b (g, xs) \<Longrightarrow> distinct xs"
proof -
  assume "group_ok rs b (g, xs)"
  then have "sorted_wrt (\<lambda>x y. rname rs x < rname rs y) xs" by (simp add: group_ok_def)
  then show ?thesis by (induction xs) auto
qed

lemma find_group_at:
  "distinct (map fst (gs1 @ (g, xs) # gs2)) \<Longrightarrow> find_group g (gs1 @ (g, xs) # gs2) = Some xs"
  by (simp add: find_group_Some)

lemma get_next_at:
  assumes "db_ok st" and "at_rule st (a # as)"
  shows "\<exists>lg lr. PCD_rulesdb_get_next st = (opt_hd as, st\<lparr>lastReturnedGroup := lg, lastReturnedRule := lr\<rparr>)
    \<and> (as \<noteq> [] \<longrightarrow> at_rule (st\<lparr>lastReturnedGroup := lg, lastReturnedRule := lr\<rparr>) as)"
proof -
  from assms(2) obtain gs1 g xs1 xs2 gs2 where
    gs: "groups st = gs1 @ (g, xs1 @ a # xs2) # gs2" and last: "lastReturnedGroup st = Some g"
    "lastReturnedRule st = Some a" and as: "as = xs2 @ concat (map snd gs2)"
    by (auto simp: at_rule_def)
  have dist: "distinct (map fst (groups st))" and ok: "\<forall>g \<in> set (groups st). group_ok (rules st) (brk st) g"
    using assms(1) by (simp_all add: db_ok_def)
  have fg: "find_group g (groups st) = Some (xs1 @ a # xs2)" using find_group_at dist unfolding gs by blast
  have "distinct (xs1 @ a # xs2)" using ok gs by (intro group_distinct [of "rules st" "brk st" g]) simp
  then have n1: "next_of a (xs1 @ a # xs2) = opt_hd xs2" by (intro next_of_append) simp
  have "g \<notin> set (map fst gs1)" using dist unfolding gs by simp
  then have n2: "next_of g (map fst (groups st)) = opt_hd (map fst gs2)"
    using next_of_append [of g "map fst gs1" "map fst gs2"] unfolding gs by simp
  show ?thesis
  proof (cases xs2)
    case (Cons b ys)
    have "at_rule (st\<lparr>lastReturnedGroup := Some g, lastReturnedRule := Some b\<rparr>) as"
      unfolding at_rule_def
      by (intro exI [of _ gs1] exI [of _ g] exI [of _ "xs1 @ [a]"] exI [of _ b] exI [of _ ys] exI [of _ gs2])
        (simp add: gs as Cons)
    moreover have "PCD_rulesdb_get_next st
      = (opt_hd as, st\<lparr>lastReturnedGroup := Some g, lastReturnedRule := Some b\<rparr>)"
      using last fg n1 Cons as by (simp add: PCD_rulesdb_get_next_def)
    ultimately show ?thesis by blast
  next
    case Nil
    show ?thesis
    proof (cases gs2)
      case Nil
      then have "PCD_rulesdb_get_next st
        = (opt_hd as, st\<lparr>lastReturnedGroup := None, lastReturnedRule := Some a\<rparr>)"
        using last fg n1 n2 \<open>xs2 = []\<close> as by (simp add: PCD_rulesdb_get_next_def)
      then show ?thesis using Nil \<open>xs2 = []\<close> as by auto
    next
      case (Cons h hs)
      obtain g2 ys where h: "h = (g2, ys)" by (cases h)
      have "group_ok (rules st) (brk st) (g2, ys)" using ok gs Cons h by simp
      then obtain b zs where ys: "ys = b # zs" by (cases ys) (auto simp: group_ok_def)
      have "find_group g2 (groups st) = Some ys"
        using find_group_at [of "gs1 @ [(g, xs1 @ a # xs2)]" g2 ys hs] dist unfolding gs Cons h by simp
      then have "PCD_rulesdb_get_next st
        = (opt_hd as, st\<lparr>lastReturnedGroup := Some g2, lastReturnedRule := Some b\<rparr>)"
        using last fg n1 n2 \<open>xs2 = []\<close> as Cons h ys by (simp add: PCD_rulesdb_get_next_def Let_def)
      moreover have "at_rule (st\<lparr>lastReturnedGroup := Some g2, lastReturnedRule := Some b\<rparr>) as"
        unfolding at_rule_def
        by (intro exI [of _ "gs1 @ [(g, xs1 @ a # xs2)]"] exI [of _ g2] exI [of _ "[]"] exI [of _ b]
            exI [of _ zs] exI [of _ hs])
          (simp add: gs as Cons h ys \<open>xs2 = []\<close>)
      ultimately show ?thesis by blast
    qed
  qed
qed

text \<open>What is left to do in the loop: every rule that was active is enqueued in turn.\<close>

definition bootable :: "rule \<Rightarrow> bool" where
  "bootable r \<longleftrightarrow> proc r = None \<and> (ruleState r = PCD_RULE_IDLE \<or> ruleState r = PCD_RULE_ACTIVE)"

lemma activate_loop_ok:
  assumes "pcd_ok A st" and "settled st" and "at_rule st as" and "set as \<subseteq> A" and "distinct as"
    and "\<forall>a \<in> set as. bootable (rules st a)"
  shows "\<exists>st'. activate_loop (opt_hd as) st = Some (PCD_STATUS_OK, st') \<and> core_ok A st'
    \<and> map (rule_of st') (timerQueue st') = map (rule_of st) (timerQueue st)
        @ map Some (filter (\<lambda>a. ruleState (rules st a) = PCD_RULE_ACTIVE) as)
    \<and> (\<forall>a. rules st' a = (if a \<in> set as \<and> ruleState (rules st a) = PCD_RULE_ACTIVE
        then (rules st a)\<lparr>ruleState := PCD_RULE_START_CONDITION_WAITING\<rparr> else rules st a))"
  using assms
proof (induction as arbitrary: st)
  case Nil
  then show ?case by (auto simp: at_rule_def)
next
  case (Cons a as)
  let ?act = "ruleState (rules st a) = PCD_RULE_ACTIVE"
  let ?s1 = "if ?act then arm_rule a st else st"
  have a: "a \<in> A" "bootable (rules st a)" using Cons.prems(4,6) by simp_all
  have enq: "PCD_timer_enqueue_rule (Some a) st = (PCD_STATUS_OK, arm_rule a st)" if ?act
    using a(2) that
    by (simp add: PCD_timer_enqueue_rule_def arm_rule_def PCD_timer_new_def Let_def rule_active_def bootable_def)
  have "pcd_ok A (arm_rule a st)"
    by (rule wf_arm_rule [OF Cons.prems(1) a(1)]) (use Cons.prems(2) in \<open>simp add: settled_def\<close>)
  then have s1: "pcd_ok A ?s1" "settled ?s1" using Cons.prems(1,2) by (simp_all add: settled_def)
  have gs: "groups ?s1 = groups st" "lastReturnedGroup ?s1 = lastReturnedGroup st"
    "lastReturnedRule ?s1 = lastReturnedRule st"
    by (simp_all add: arm_rule_def PCD_timer_new_def PCD_timer_enqueue_def set_state_def upd_rule_def
        set_timer_def Let_def)
  have at1: "at_rule ?s1 (a # as)" using Cons.prems(3) unfolding at_rule_def gs .
  have db1: "db_ok ?s1" using s1(1) by (simp add: pcd_ok_def wf_db_def)
  have fresh: "timerObjs st (brk st) = None"
  proof -
    have "brk st \<notin> dom (timerObjs st)" using Cons.prems(1) by (auto simp: pcd_ok_def wf_timers_def)
    then show ?thesis by auto
  qed
  have inq: "t \<noteq> brk st" if "t \<in> set (timerQueue st)" for t
    using Cons.prems(1) that by (auto simp: pcd_ok_def wf_timers_def)
  have of1: "rule_of (arm_rule a st) = (rule_of st)(brk st \<mapsto> a)"
    by (simp add: rule_of_def fun_eq_iff arm_rule_def PCD_timer_new_def PCD_timer_enqueue_def
        set_state_def upd_rule_def set_timer_def Let_def)
  have q1: "map (rule_of ?s1) (timerQueue ?s1) = map (rule_of st) (timerQueue st) @ (if ?act then [Some a] else [])"
    using inq by (simp add: of1)
  from get_next_at [OF db1 at1] obtain lg lr where
    nxt: "PCD_rulesdb_get_next ?s1 = (opt_hd as, ?s1\<lparr>lastReturnedGroup := lg, lastReturnedRule := lr\<rparr>)"
    and at2: "as \<noteq> [] \<longrightarrow> at_rule (?s1\<lparr>lastReturnedGroup := lg, lastReturnedRule := lr\<rparr>) as" by blast
  let ?s2 = "?s1\<lparr>lastReturnedGroup := lg, lastReturnedRule := lr\<rparr>"
  have s2: "pcd_ok A ?s2" "settled ?s2" using wf_logs(5,6) [OF s1(1)] wf_logs(6) s1(2)
    by (auto simp: settled_def)
  have same2: "rule_of ?s2 = rule_of ?s1" by (simp add: rule_of_def fun_eq_iff)
  have step: "activate_loop (opt_hd (a # as)) st = activate_loop (opt_hd as) ?s2"
    using enq nxt by (subst activate_loop.simps) (simp split: if_splits)
  have rs: "rules ?s2 b = rules st b" if "b \<noteq> a" for b using that by simp
  show ?case
  proof (cases "as = []")
    case True
    have "activate_loop (opt_hd []) ?s2 = Some (PCD_STATUS_OK, ?s2)" by (subst activate_loop.simps) simp
    moreover have "core_ok A ?s2" using s2 by (simp add: core_ok_def)
    moreover have "map (rule_of ?s2) (timerQueue ?s2) = map (rule_of st) (timerQueue st)
        @ map Some (filter (\<lambda>a. ruleState (rules st a) = PCD_RULE_ACTIVE) [a])"
      unfolding same2 using q1 by simp
    moreover have "rules ?s2 b = (if b \<in> set [a] \<and> ruleState (rules st b) = PCD_RULE_ACTIVE
        then (rules st b)\<lparr>ruleState := PCD_RULE_START_CONDITION_WAITING\<rparr> else rules st b)" for b
      by (cases "b = a") auto
    ultimately show ?thesis unfolding step unfolding True by blast
  next
    case False
    have "\<exists>st'. activate_loop (opt_hd as) ?s2 = Some (PCD_STATUS_OK, st') \<and> core_ok A st'
      \<and> map (rule_of st') (timerQueue st') = map (rule_of ?s2) (timerQueue ?s2)
        @ map Some (filter (\<lambda>a. ruleState (rules ?s2 a) = PCD_RULE_ACTIVE) as)
      \<and> (\<forall>b. rules st' b = (if b \<in> set as \<and> ruleState (rules ?s2 b) = PCD_RULE_ACTIVE
        then (rules ?s2 b)\<lparr>ruleState := PCD_RULE_START_CONDITION_WAITING\<rparr> else rules ?s2 b))"
    proof (rule Cons.IH [OF s2])
      show "at_rule ?s2 as" using at2 False by blast
      show "set as \<subseteq> A" "distinct as" using Cons.prems(4,5) by simp_all
      show "\<forall>b \<in> set as. bootable (rules ?s2 b)"
      proof
        fix b
        assume b: "b \<in> set as"
        then have "b \<noteq> a" using Cons.prems(5) by auto
        then show "bootable (rules ?s2 b)" using Cons.prems(6) b rs by simp
      qed
    qed
    then obtain st' where st': "activate_loop (opt_hd as) ?s2 = Some (PCD_STATUS_OK, st')" "core_ok A st'"
      and q: "map (rule_of st') (timerQueue st') = map (rule_of ?s2) (timerQueue ?s2)
        @ map Some (filter (\<lambda>a. ruleState (rules ?s2 a) = PCD_RULE_ACTIVE) as)"
      and r: "\<forall>b. rules st' b = (if b \<in> set as \<and> ruleState (rules ?s2 b) = PCD_RULE_ACTIVE
        then (rules ?s2 b)\<lparr>ruleState := PCD_RULE_START_CONDITION_WAITING\<rparr> else rules ?s2 b)" by blast
    have "a \<notin> set as" using Cons.prems(5) by simp
    then have "filter (\<lambda>a. ruleState (rules ?s2 a) = PCD_RULE_ACTIVE) as
      = filter (\<lambda>a. ruleState (rules st a) = PCD_RULE_ACTIVE) as"
      using rs by (intro filter_cong) auto
    then have "map (rule_of st') (timerQueue st') = map (rule_of st) (timerQueue st)
        @ map Some (filter (\<lambda>a. ruleState (rules st a) = PCD_RULE_ACTIVE) (a # as))"
      using q q1 unfolding same2 by simp
    moreover have "rules st' b = (if b \<in> set (a # as) \<and> ruleState (rules st b) = PCD_RULE_ACTIVE
        then (rules st b)\<lparr>ruleState := PCD_RULE_START_CONDITION_WAITING\<rparr> else rules st b)" for b
      using r \<open>a \<notin> set as\<close> by (cases "b = a") auto
    ultimately show ?thesis unfolding step using st' by blast
  qed
qed

lemma distinct_groups:
  "distinct (map fst gs) \<Longrightarrow> \<forall>g \<in> set gs. group_ok rs b g \<Longrightarrow> distinct (concat (map snd gs))"
proof (induction gs)
  case Nil
  then show ?case by simp
next
  case (Cons g gs)
  obtain n xs where g: "g = (n, xs)" by (cases g)
  have "distinct xs" using Cons.prems(2) g group_distinct by auto
  moreover have "set xs \<inter> set (concat (map snd gs)) = {}"
  proof (rule ccontr)
    assume "set xs \<inter> set (concat (map snd gs)) \<noteq> {}"
    then obtain a h where a: "a \<in> set xs" "h \<in> set gs" "a \<in> set (snd h)" by auto
    then have "rgroup rs a = n" "rgroup rs a = fst h" using Cons.prems(2) g by (auto simp: group_ok_def)
    with a(2) Cons.prems(1) g show False by auto
  qed
  ultimately show ?case using Cons g by simp
qed

lemma activate_ok:
  assumes "core_ok A st" and "\<forall>a \<in> A. bootable (rules st a)"
  shows "\<exists>st'. PCD_rulesdb_activate st = Inr (PCD_STATUS_OK, st') \<and> core_ok A st'
    \<and> map (rule_of st') (timerQueue st') = map (rule_of st) (timerQueue st)
        @ map Some (filter (\<lambda>a. ruleState (rules st a) = PCD_RULE_ACTIVE) (db_rules st))"
proof -
  have ok: "pcd_ok A st" "settled st" using assms(1) by (simp_all add: core_ok_def)
  have db: "db_ok st" "set (db_rules st) = A" using ok(1) by (simp_all add: pcd_ok_def wf_db_def)
  have dist: "distinct (db_rules st)"
    using db(1) distinct_groups unfolding db_ok_def db_rules_def by blast
  show ?thesis
  proof (cases "groups st")
    case Nil
    then have "PCD_rulesdb_activate st = Inr (PCD_STATUS_OK, st)"
      by (simp add: PCD_rulesdb_activate_def PCD_rulesdb_get_first_def activate_loop.simps)
    with assms(1) Nil show ?thesis by (simp add: db_rules_def)
  next
    case (Cons g gs)
    obtain n xs where g: "g = (n, xs)" by (cases g)
    have "group_ok (rules st) (brk st) (n, xs)" using db(1) Cons g by (simp add: db_ok_def)
    then obtain b ys where xs: "xs = b # ys" by (cases xs) (auto simp: group_ok_def)
    let ?s = "st\<lparr>lastReturnedGroup := Some n, lastReturnedRule := Some b\<rparr>"
    have first: "PCD_rulesdb_get_first st = (opt_hd (db_rules st), ?s)"
      using Cons g xs by (simp add: PCD_rulesdb_get_first_def db_rules_def)
    have "at_rule ?s (db_rules st)"
      unfolding at_rule_def
      by (intro exI [of _ "[]"] exI [of _ n] exI [of _ "[]"] exI [of _ b] exI [of _ ys] exI [of _ gs])
        (simp add: Cons g xs db_rules_def)
    moreover have "pcd_ok A ?s" "settled ?s"
      using wf_logs(6) [OF wf_logs(5) [OF ok(1)]] ok(2) by (simp_all add: settled_def)
    ultimately have "\<exists>st'. activate_loop (opt_hd (db_rules st)) ?s = Some (PCD_STATUS_OK, st') \<and> core_ok A st'
      \<and> map (rule_of st') (timerQueue st') = map (rule_of ?s) (timerQueue ?s)
          @ map Some (filter (\<lambda>a. ruleState (rules ?s a) = PCD_RULE_ACTIVE) (db_rules st))"
      using activate_loop_ok [of A ?s "db_rules st"] db(2) dist assms(2) by auto
    moreover have "rule_of ?s = rule_of st" by (simp add: rule_of_def fun_eq_iff)
    ultimately show ?thesis using first by (auto simp: PCD_rulesdb_activate_def)
  qed
qed

section \<open>Properties\<close>

text \<open>
  Activation enumerates the whole database and puts exactly the rules in the state ACTIVE into
  the timer queue, in the order of the database; the resulting state satisfies the invariant.
\<close>

theorem activate_enqueues_active_rules:
  assumes "core_ok A st" and "\<forall>a \<in> A. bootable (rules st a)"
  shows "\<exists>st'. PCD_rulesdb_activate st = Inr (PCD_STATUS_OK, st') \<and> core_ok A st'
    \<and> map (rule_of st') (timerQueue st') = map (rule_of st) (timerQueue st)
        @ map Some (filter (\<lambda>a. ruleState (rules st a) = PCD_RULE_ACTIVE) (db_rules st))"
  by (rule activate_ok [OF assms])

text \<open>A database of three rules in two groups, of which two are to be started.\<close>

definition boot_rule :: "string \<Rightarrow> string \<Rightarrow> rule_state \<Rightarrow> rule" where
  "boot_rule g n s = (named_rule g n)\<lparr>ruleState := s, failureAction := FAIL_RESTART\<rparr>"

definition boot_pcd :: pcd where
  "boot_pcd = pcd_init\<lparr>rules := (\<lambda>a. blank_rule)(0 := boot_rule ''sys'' ''a'' PCD_RULE_ACTIVE,
     1 := boot_rule ''sys'' ''b'' PCD_RULE_IDLE, 2 := boot_rule ''app'' ''c'' PCD_RULE_ACTIVE),
     groups := [(''sys'', [0, 1]), (''app'', [2])], brk := 3\<rparr>"

lemma boot_core_ok: "core_ok {0, 1, 2} boot_pcd" "\<forall>a \<in> {0, 1, 2}. bootable (rules boot_pcd a)"
proof -
  have "db_ok boot_pcd"
    by (simp add: db_ok_def group_ok_def boot_pcd_def pcd_init_def boot_rule_def named_rule_def)
  then show "core_ok {0, 1, 2} boot_pcd"
    by (simp add: core_ok_def settled_def pcd_ok_def wf_db_def wf_procs_def wf_attached_def wf_timers_def
        wf_queues_def db_rules_def boot_pcd_def pcd_init_def boot_rule_def named_rule_def blank_rule_def
        rule_ok_def rule_active_def insert_commute)
  show "\<forall>a \<in> {0, 1, 2}. bootable (rules boot_pcd a)"
    by (simp add: boot_pcd_def boot_rule_def named_rule_def blank_rule_def bootable_def)
qed

theorem activate_enqueues_active_rules_witness:
  "\<exists>st'. PCD_rulesdb_activate boot_pcd = Inr (PCD_STATUS_OK, st') \<and> core_ok {0, 1, 2} st'
    \<and> map (rule_of st') (timerQueue st') = [Some 0, Some 2]"
  using activate_enqueues_active_rules [OF boot_core_ok]
  by (simp add: db_rules_def boot_pcd_def pcd_init_def boot_rule_def named_rule_def)

text \<open>
  C6: Whatever messages arrive, whatever the system answers and whenever children end, every state
  of the daemon satisfies the invariant: the timer queue and the process list hold exactly the
  live objects, a rule points only to a live process of its own that was not told to stop, every
  waiting rule is in the queue.
\<close>

theorem daemon_state_invariant:
  assumes "core_ok A (core d0)" and "pcd_reach d0 d"
  shows "core_ok A (core d)"
  by (rule reach_ok [OF assms(2,1)])

definition boot_state :: main_state where
  "boot_state = \<lparr>core = boot_pcd, misc = \<lparr>netRxPid = 0, netRxPriority = 0\<rparr>, sent = [], freed_msgs = [],
     tickCounter = PCD_PROCESS_TICK\<rparr>"

theorem daemon_state_invariant_witness:
  "core_ok {0, 1, 2} (core (boot_state\<lparr>core := boot_pcd\<rparr>))"
proof (rule daemon_state_invariant [of _ boot_state])
  show "core_ok {0, 1, 2} (core boot_state)" using boot_core_ok(1) by (simp add: boot_state_def)
  show "pcd_reach boot_state (boot_state\<lparr>core := boot_pcd\<rparr>)"
    by (rule reach_chld [OF reach_start, of "[]"]) (simp add: boot_state_def)
qed

text \<open>
  C5: From every reachable state an iteration of the main loop returns: it touches no freed
  object, follows no NULL pointer and its walks end (the retry loop of the process list is never
  taken); the only other outcome is the exit of the REBOOT action.
\<close>

theorem main_round_never_crashes:
  assumes "core_ok A (core d0)" and "pcd_reach d0 d" and "messages_ok i"
  shows "(\<exists>d'. PCD_main_round i d = Inr d') \<or> PCD_main_round i d = Inl (Exited 1)"
  using main_round_ok [OF reach_ok [OF assms(2,1)] assms(3)] by (auto simp: safe_def)

definition quiet_os :: pcd_os where
  "quiet_os = \<lparr>stat_ok = (\<lambda>f. False), netdev_ok = (\<lambda>d. False), env_var = (\<lambda>n. None),
     ipc_owner = (\<lambda>w. PCD_STATUS_NOK), fork_pid = (\<lambda>p. 100 + int p), kill_ret = (\<lambda>q s. 0)\<rparr>"

definition kill_round :: round_input where
  "kill_round = \<lparr>in_messages = [\<lparr>m_addr = 50, m_type = PCD_API_KILL_PROCESS, m_arg = 0,
       m_ruleId = \<lparr>groupName = ''sys'', ruleName = ''a''\<rparr>, m_msgId = 1, m_params = [], m_context = True\<rparr>],
     in_misc = \<lparr>find_net_rx = 0, sched_priority = None\<rparr>, in_env = (\<lambda>t. quiet_os), in_start = quiet_os,
     in_stop = quiet_os\<rparr>"

theorem main_round_never_crashes_witness:
  "(\<exists>d'. PCD_main_round kill_round boot_state = Inr d') \<or> PCD_main_round kill_round boot_state = Inl (Exited 1)"
proof (rule main_round_never_crashes [OF _ reach_start])
  show "core_ok {0, 1, 2} (core boot_state)" using boot_core_ok(1) by (simp add: boot_state_def)
  show "messages_ok kill_round" by (simp add: messages_ok_def kill_round_def)
qed

end
