(* ===== verification/PcdParserOk.thy ===== *)
theory PcdParserOk imports PcdParser PcdSafe begin

text \<open>
  What the parser guarantees whatever the files contain: the status word always stands for a prefix
  of the mandatory keywords, and every rule in the database is complete and in a state from which it
  can be activated.  With theory \<open>PcdSafe\<close>: a daemon that was started from any rules file without
  indexed rules never crashes.
\<close>

section \<open>The status word\<close>

fun flag_of :: "parserKeywords_e \<Rightarrow> u32" where
  "flag_of KW_RULE = 1"
| "flag_of KW_START_COND = 2"
| "flag_of KW_COMMAND = 4"
| "flag_of KW_END_COND = 8"
| "flag_of KW_END_COND_TIMEOUT = 16"
| "flag_of KW_FAILURE_ACTION = 32"
| "flag_of KW_ACTIVE = 64"
| "flag_of k = 0"

definition flags_ok :: "parser \<Rightarrow> bool" where
  "flags_ok st \<longleftrightarrow> parse_flag st = flag_of \<and> writableParseStatus st = 127"

text \<open>The status word when the first \<open>i\<close> mandatory keywords were read.\<close>

definition status_of :: "nat \<Rightarrow> u32" where
  "status_of i = [0, 1, 3, 7, 15, 31, 63, 127] ! i"

lemma below_8: "i \<le> 7 \<Longrightarrow> i = 0 \<or> i = 1 \<or> i = 2 \<or> i = 3 \<or> i = 4 \<or> i = 5 \<or> i = 6 \<or> i = (7 :: nat)"
  by arith

lemma kw_name_eq [simp]: "kw_name a = kw_name b \<longleftrightarrow> a = b"
  by (cases a; cases b) simp_all

lemma init_flags_ok:
  assumes "parse_flag st = (\<lambda>k. 0)"
  shows "flags_ok (PCD_parser_init_kwHandlersList st)"
proof -
  have "parse_flag (PCD_parser_init_kwHandlersList st) = flag_of"
  proof
    fix k
    show "parse_flag (PCD_parser_init_kwHandlersList st) k = flag_of k"
      using assms by (cases k) (simp_all add: PCD_parser_init_kwHandlersList_def keywordHandlersList_def)
  qed
  moreover have "writableParseStatus (PCD_parser_init_kwHandlersList st) = 127"
    by (simp add: PCD_parser_init_kwHandlersList_def keywordHandlersList_def)
  ultimately show ?thesis by (simp add: flags_ok_def)
qed

lemma init_rest:
  "cur (PCD_parser_init_kwHandlersList st) = blank_rule"
  "readParseStatus (PCD_parser_init_kwHandlersList st) = readParseStatus st"
  "rulesdb (PCD_parser_init_kwHandlersList st) = rulesdb st"
  by (simp_all add: PCD_parser_init_kwHandlersList_def keywordHandlersList_def)

text \<open>A mandatory keyword is accepted exactly when it is the next one.\<close>

lemma update_status:
  assumes "flags_ok st" and "readParseStatus st = status_of i" and "i \<le> 7" and "mandatory_flag k"
  shows "PCD_parser_update_parse_status k st =
    (if i < 7 \<and> keywordHandlersList ! i = k then (0, st\<lparr>readParseStatus := status_of (Suc i)\<rparr>) else (- 1, st))"
  using below_8 [OF assms(3)] assms(1,2,4)
  by (elim disjE)
    (auto simp add: PCD_parser_update_parse_status_def flags_ok_def keywordHandlersList_def status_of_def
      simp del: kw_name.simps)

lemma rule_flag_set:
  assumes "flags_ok st" and "readParseStatus st = status_of i" and "i \<le> 7"
  shows "PCD_parser_is_parse_status_set KW_RULE st \<longleftrightarrow> i \<noteq> 0"
  using below_8 [OF assms(3)] assms(1,2)
  by (elim disjE) (simp_all add: PCD_parser_is_parse_status_set_def flags_ok_def status_of_def)

lemma clear_status:
  assumes "flags_ok st" and "readParseStatus st = 127"
  shows "PCD_parser_clear_parse_status KW_RULE st = st\<lparr>readParseStatus := 0\<rparr>"
  using assms by (simp add: PCD_parser_clear_parse_status_def flags_ok_def keywordHandlersList_def)

lemma status_complete: "i \<le> 7 \<Longrightarrow> status_of i = 127 \<longleftrightarrow> i = 7"
  using below_8 [of i] by (auto simp: status_of_def)

section \<open>The invariant\<close>

text \<open>A rule that has never been in the hands of the daemon.\<close>

definition no_cache :: "start_cond \<Rightarrow> bool" where
  "no_cache c \<longleftrightarrow> (case c of START_RULE_COMPLETED cs \<Rightarrow> \<forall>x \<in> set cs. rc_rule x = None | _ \<Rightarrow> True)"

definition fresh_rule :: "rule \<Rightarrow> bool" where
  "fresh_rule r \<longleftrightarrow> proc r = None \<and> ruleState r \<in> {PCD_RULE_IDLE, PCD_RULE_ACTIVE} \<and> no_cache (startCondition r)"

definition complete_rule :: "rule \<Rightarrow> bool" where
  "complete_rule r \<longleftrightarrow> fresh_rule r \<and> command r \<noteq> None"

text \<open>The database grows; the rest of the daemon's state stays as it was.\<close>

definition rest_of :: "pcd \<Rightarrow> pcd" where
  "rest_of db = db\<lparr>rules := \<lambda>a. blank_rule, groups := [], brk := 0\<rparr>"

definition db_grown :: "pcd \<Rightarrow> pcd \<Rightarrow> bool" where
  "db_grown db0 db \<longleftrightarrow> db_ok db \<and> (\<forall>a \<in> set (db_rules db). complete_rule (rules db a))
     \<and> rest_of db = rest_of db0"

definition parser_ok :: "pcd \<Rightarrow> parser \<Rightarrow> bool" where
  "parser_ok db0 st \<longleftrightarrow> flags_ok st \<and> fresh_rule (cur st) \<and> db_grown db0 (rulesdb st)
     \<and> (\<exists>i \<le> 7. readParseStatus st = status_of i \<and> (3 \<le> i \<longrightarrow> command (cur st) \<noteq> None))"

lemma blank_fresh [simp]: "fresh_rule blank_rule"
  by (simp add: fresh_rule_def blank_rule_def no_cache_def)

lemma add_rule_grown:
  assumes "db_grown db0 db" and "complete_rule r"
  shows "\<exists>db'. PCD_rulesdb_add_rule (Some r) db = (PCD_STATUS_OK, db') \<and> db_grown db0 db'"
proof -
  have ok: "db_ok db" using assms(1) by (simp add: db_grown_def)
  from add_rule_eq [OF ok, of r] obtain db' where
    add: "PCD_rulesdb_add_rule (Some r) db = (PCD_STATUS_OK, db')" and ok': "db_ok db'"
    and m: "db_map db' = (if db_map db (ruleId r) = None then (db_map db)(ruleId r \<mapsto> brk db) else db_map db)"
    and rs: "rules db' = (rules db)(brk db := r)"
    and rest: "db' = db\<lparr>rules := rules db', groups := groups db', brk := Suc (brk db)\<rparr>" by blast
  have "complete_rule (rules db' a)" if "a \<in> set (db_rules db')" for a
  proof (cases "a = brk db")
    case True
    with rs assms(2) show ?thesis by simp
  next
    case False
    have "db_map db' (ruleId (rules db' a)) = Some a" using db_map_Some [OF ok'] that by blast
    with m False have "db_map db (ruleId (rules db' a)) = Some a" by (auto split: if_splits)
    then have "a \<in> set (db_rules db)" using db_map_Some [OF ok] by blast
    with assms(1) rs False show ?thesis by (simp add: db_grown_def)
  qed
  moreover have "rest_of db' = rest_of db0"
  proof -
    have "rest_of db' = rest_of db" by (subst rest) (simp add: rest_of_def)
    with assms(1) show ?thesis by (simp add: db_grown_def)
  qed
  ultimately show ?thesis using add ok' by (auto simp: db_grown_def)
qed

section \<open>Every handler keeps it\<close>

lemma parser_okE:
  assumes "parser_ok db0 st"
  obtains i where "flags_ok st" "fresh_rule (cur st)" "db_grown db0 (rulesdb st)" "i \<le> 7"
    "readParseStatus st = status_of i" "3 \<le> i \<longrightarrow> command (cur st) \<noteq> None"
  using assms by (auto simp: parser_ok_def)

lemma parser_okI:
  assumes "flags_ok st" and "fresh_rule (cur st)" and "db_grown db0 (rulesdb st)" and "i \<le> 7"
    and "readParseStatus st = status_of i" and "3 \<le> i \<longrightarrow> command (cur st) \<noteq> None"
  shows "parser_ok db0 st"
  using assms by (auto simp: parser_ok_def)

lemma flags_ok_upd [simp]:
  "flags_ok (set_cur f st) = flags_ok st" "flags_ok (st\<lparr>readParseStatus := w\<rparr>) = flags_ok st"
  "flags_ok (st\<lparr>rulesdb := db\<rparr>) = flags_ok st" "flags_ok (st\<lparr>lineNumber := n\<rparr>) = flags_ok st"
  "flags_ok (st\<lparr>cur := r\<rparr>) = flags_ok st" "flags_ok (st\<lparr>fileVersion := v\<rparr>) = flags_ok st"
  "flags_ok (st\<lparr>totalRuleRecords := n\<rparr>) = flags_ok st"
  by (simp_all add: flags_ok_def set_cur_def)

lemma set_cur_simps [simp]:
  "cur (set_cur f st) = f (cur st)" "readParseStatus (set_cur f st) = readParseStatus st"
  "rulesdb (set_cur f st) = rulesdb st" "totalRuleRecords (set_cur f st) = totalRuleRecords st"
  by (simp_all add: set_cur_def)

text \<open>A change of the current rule that keeps it fresh and its command.\<close>

lemma set_cur_ok:
  assumes "parser_ok db0 st" and "fresh_rule (f (cur st))"
    and "command (cur st) \<noteq> None \<Longrightarrow> command (f (cur st)) \<noteq> None"
  shows "parser_ok db0 (set_cur f st)"
  using assms by (auto simp: parser_ok_def)

text \<open>The handlers of the mandatory keywords after RULE: either an error, or the next status.\<close>

lemma update_ok:
  assumes "parser_ok db0 st" and "PCD_parser_update_parse_status k st = (r, st')"
    and "mandatory_flag k" and "k \<noteq> KW_COMMAND"
  shows "parser_ok db0 st' \<and> cur st' = cur st"
proof -
  from assms(1) obtain i where i: "flags_ok st" "fresh_rule (cur st)" "db_grown db0 (rulesdb st)" "i \<le> 7"
    "readParseStatus st = status_of i" "3 \<le> i \<longrightarrow> command (cur st) \<noteq> None" by (rule parser_okE)
  show ?thesis
  proof (cases "i < 7 \<and> keywordHandlersList ! i = k")
    case True
    with update_status [OF i(1,5,4) assms(3)] assms(2) have st': "st' = st\<lparr>readParseStatus := status_of (Suc i)\<rparr>" by simp
    have "i \<noteq> 2" using True assms(4) by (auto simp: keywordHandlersList_def)
    then have "3 \<le> Suc i \<longrightarrow> 3 \<le> i" by simp
    with i True st' show ?thesis by (intro conjI parser_okI [where i = "Suc i"]) simp_all
  next
    case False
    with update_status [OF i(1,5,4) assms(3)] assms have "st' = st" by auto
    with assms(1) show ?thesis by simp
  qed
qed

lemma handle_VERSION_ok: "parser_ok db0 st \<Longrightarrow> parser_ok db0 (snd (handle_VERSION line st))"
  by (simp add: handle_VERSION_def parser_ok_def)

lemma handle_DAEMON_ok: "parser_ok db0 st \<Longrightarrow> parser_ok db0 (snd (handle_DAEMON line st))"
  by (auto simp: handle_DAEMON_def parser_ok_def fresh_rule_def)

lemma handle_SCHED_ok: "parser_ok db0 st \<Longrightarrow> parser_ok db0 (snd (handle_SCHED line st))"
  by (auto simp: handle_SCHED_def parser_ok_def fresh_rule_def Let_def split: option.splits prod.splits)

lemma handle_USER_ok: "parser_ok db0 st \<Longrightarrow> parser_ok db0 (snd (handle_USER users line st))"
  by (auto simp: handle_USER_def parser_ok_def fresh_rule_def split: option.splits)

lemma handle_ACTIVE_ok:
  assumes "parser_ok db0 st"
  shows "parser_ok db0 (snd (handle_ACTIVE line st))"
proof (cases "PCD_parser_update_parse_status KW_ACTIVE st")
  case (Pair r st')
  with update_ok [OF assms Pair, simplified] show ?thesis
    by (auto simp: handle_ACTIVE_def parser_ok_def fresh_rule_def intro!: set_cur_ok)
qed

lemma handle_END_COND_TIMEOUT_ok:
  assumes "parser_ok db0 st"
  shows "parser_ok db0 (snd (handle_END_COND_TIMEOUT line st))"
proof (cases "PCD_parser_update_parse_status KW_END_COND_TIMEOUT st")
  case (Pair r st')
  with update_ok [OF assms Pair, simplified] show ?thesis
    by (auto simp: handle_END_COND_TIMEOUT_def Let_def parser_ok_def fresh_rule_def)
qed

lemma handle_END_COND_ok:
  assumes "parser_ok db0 st"
  shows "parser_ok db0 (snd (handle_END_COND line st))"
proof (cases "PCD_parser_update_parse_status KW_END_COND st")
  case (Pair r st')
  with update_ok [OF assms Pair, simplified] show ?thesis
    by (auto simp: handle_END_COND_def parser_ok_def fresh_rule_def split: option.splits prod.splits)
qed

lemma handle_FAILURE_ACTION_ok:
  assumes "parser_ok db0 st"
  shows "parser_ok db0 (snd (handle_FAILURE_ACTION line st))"
proof (cases "PCD_parser_update_parse_status KW_FAILURE_ACTION st")
  case (Pair r st')
  with update_ok [OF assms Pair, simplified] show ?thesis
    by (auto simp: handle_FAILURE_ACTION_def parser_ok_def fresh_rule_def split: option.splits prod.splits)
qed

lemma parse_completed_no_cache: "parse_completed n s = Some cs \<Longrightarrow> \<forall>x \<in> set cs. rc_rule x = None"
  by (induction n s arbitrary: cs rule: parse_completed.induct) (auto split: prod.splits option.splits)

lemma parse_start_cond_no_cache: "parse_start_cond t s = Some c \<Longrightarrow> no_cache c"
  by (auto simp: parse_start_cond_def no_cache_def Let_def dest: parse_completed_no_cache
      split: if_splits option.splits prod.splits)

lemma handle_START_COND_ok:
  assumes "parser_ok db0 st"
  shows "parser_ok db0 (snd (handle_START_COND line st))"
proof (cases "PCD_parser_update_parse_status KW_START_COND st")
  case (Pair r st')
  with update_ok [OF assms Pair, simplified] have st': "parser_ok db0 st'" by simp
  have "parser_ok db0 (set_cur (\<lambda>r. r\<lparr>startCondition := c\<rparr>) st')" if "parse_start_cond t s = Some c" for t s c
    by (rule set_cur_ok [OF st']) (use st' parse_start_cond_no_cache [OF that] in \<open>simp_all add: parser_ok_def fresh_rule_def\<close>)
  with Pair st' show ?thesis
    by (auto simp: handle_START_COND_def split: option.splits prod.splits)
qed

lemma kw_command_mandatory: "mandatory_flag KW_COMMAND"
  by simp

lemma handle_COMMAND_ok:
  assumes "parser_ok db0 st"
  shows "parser_ok db0 (snd (handle_COMMAND line st))"
proof -
  from assms obtain i where i: "flags_ok st" "fresh_rule (cur st)" "db_grown db0 (rulesdb st)" "i \<le> 7"
    "readParseStatus st = status_of i" "3 \<le> i \<longrightarrow> command (cur st) \<noteq> None" by (rule parser_okE)
  show ?thesis
  proof (cases "i < 7 \<and> keywordHandlersList ! i = KW_COMMAND")
    case True
    with update_status [OF i(1,5,4), of KW_COMMAND, OF kw_command_mandatory] i show ?thesis
      by (intro parser_okI [where i = "Suc i"])
        (auto simp: handle_COMMAND_def fresh_rule_def)
  next
    case False
    with update_status [OF i(1,5,4), of KW_COMMAND, OF kw_command_mandatory] assms show ?thesis by (auto simp: handle_COMMAND_def)
  qed
qed

text \<open>Handing over the current rule.\<close>

lemma write_rule_ok:
  assumes "parser_ok db0 st"
  shows "parser_ok db0 (snd (PCD_parser_write_rule_to_db KW_RULE st))
    \<and> cur (snd (PCD_parser_write_rule_to_db KW_RULE st)) = cur st
    \<and> (fst (PCD_parser_write_rule_to_db KW_RULE st) = 0
        \<longrightarrow> readParseStatus (snd (PCD_parser_write_rule_to_db KW_RULE st)) = 0)"
proof -
  from assms obtain i where i: "flags_ok st" "fresh_rule (cur st)" "db_grown db0 (rulesdb st)" "i \<le> 7"
    "readParseStatus st = status_of i" "3 \<le> i \<longrightarrow> command (cur st) \<noteq> None" by (rule parser_okE)
  show ?thesis
  proof (cases "readParseStatus st = 127")
    case False
    with assms i(1) show ?thesis by (simp add: PCD_parser_write_rule_to_db_def flags_ok_def)
  next
    case True
    with i(4,5) have "i = 7" using status_complete by simp
    with i(2,6) have "complete_rule (cur st)" by (simp add: complete_rule_def)
    from add_rule_grown [OF i(3) this] obtain db' where
      db': "PCD_rulesdb_add_rule (Some (cur st)) (rulesdb st) = (PCD_STATUS_OK, db')" "db_grown db0 db'" by blast
    let ?s = "st\<lparr>rulesdb := db', totalRuleRecords := totalRuleRecords st + 1\<rparr>"
    have "PCD_parser_write_rule_to_db KW_RULE st = (0, ?s\<lparr>readParseStatus := 0\<rparr>)"
      using True i(1) db'(1) clear_status [of ?s]
      by (simp add: PCD_parser_write_rule_to_db_def PCD_parser_add_rule_def flags_ok_def)
    moreover have "parser_ok db0 (?s\<lparr>readParseStatus := 0\<rparr>)"
      using i(1,2) db'(2) by (intro parser_okI [where i = 0]) (simp_all add: status_of_def)
    ultimately show ?thesis by simp
  qed
qed

lemma strip_index_fresh:
  "fresh_rule (strip_index (r\<lparr>ruleId := x\<rparr>)) = fresh_rule r" "command (strip_index (r\<lparr>ruleId := x\<rparr>)) = command r"
  by (simp_all add: strip_index_def fresh_rule_def Let_def)

lemma handle_RULE_ok:
  assumes "parser_ok db0 st"
  shows "parser_ok db0 (snd (handle_RULE line st))"
proof -
  have named: "parser_ok db0 (snd (case PCD_parser_update_parse_status KW_RULE s of (r, s) \<Rightarrow>
      if r \<noteq> 0 then (- 1 :: int, s) else case PCD_parser_parse_rule_id line of
        None \<Rightarrow> (- 1, set_cur (\<lambda>r. r\<lparr>ruleId := no_id\<rparr>) s)
      | Some rid \<Rightarrow> (0, set_cur (\<lambda>r. strip_index (r\<lparr>ruleId := rid\<rparr>)) s)))" if "parser_ok db0 s" for s
  proof (cases "PCD_parser_update_parse_status KW_RULE s")
    case (Pair r s')
    with update_ok [OF that Pair, simplified] have s': "parser_ok db0 s'" by simp
    then have f: "fresh_rule (cur s')" by (simp add: parser_ok_def)
    have "parser_ok db0 (set_cur (\<lambda>r. r\<lparr>ruleId := no_id\<rparr>) s')"
      by (rule set_cur_ok [OF s']) (use f in \<open>simp_all add: fresh_rule_def\<close>)
    moreover have "parser_ok db0 (set_cur (\<lambda>r. strip_index (r\<lparr>ruleId := rid\<rparr>)) s')" for rid
      by (rule set_cur_ok [OF s']) (use f in \<open>simp_all add: strip_index_fresh\<close>)
    ultimately show ?thesis using Pair s' by (auto split: option.splits)
  qed
  show ?thesis
  proof (cases "PCD_parser_is_parse_status_set KW_RULE st")
    case False
    with named [OF assms] show ?thesis by (simp add: handle_RULE_def)
  next
    case True
    obtain r s where w: "PCD_parser_write_rule_to_db KW_RULE st = (r, s)" by fastforce
    with write_rule_ok [OF assms] have s: "parser_ok db0 s" "r = 0 \<longrightarrow> readParseStatus s = 0" by simp_all
    then have "r = 0 \<longrightarrow> parser_ok db0 (s\<lparr>cur := blank_rule\<rparr>)"
      by (auto simp: parser_ok_def status_of_def intro!: exI [of _ 0])
    with True w s named show ?thesis by (simp add: handle_RULE_def)
  qed
qed

section \<open>The reader keeps it\<close>

definition reader_ok :: "pcd \<Rightarrow> reader \<Rightarrow> bool" where
  "reader_ok db0 rc \<longleftrightarrow> (\<forall>f st r st'. parser_ok db0 st \<longrightarrow> rc f st = Inr (r, st') \<longrightarrow> parser_ok db0 st')"

lemma handle_INCLUDE_ok:
  assumes "reader_ok db0 rc" and "parser_ok db0 st" and "handle_INCLUDE rc line st = Inr (r, st')"
  shows "parser_ok db0 st'"
proof -
  let ?s = "st\<lparr>cur := blank_rule, lineNumber := 0, readParseStatus := 0\<rparr>"
  have "parser_ok db0 ?s" using assms(2) by (auto simp: parser_ok_def status_of_def intro!: exI [of _ 0])
  moreover obtain q s2 where "rc line ?s = Inr (q, s2)"
    and st': "st' = s2\<lparr>readParseStatus := readParseStatus st, lineNumber := lineNumber st, cur := cur st\<rparr>"
    using assms(3) by (auto simp: handle_INCLUDE_def bind_run_eq_Inr)
  ultimately have "parser_ok db0 s2" using assms(1) by (auto simp: reader_ok_def)
  with assms(2) st' show ?thesis by (auto simp: parser_ok_def)
qed

lemma kw_handler_ok:
  assumes "reader_ok db0 rc" and "parser_ok db0 st" and "kw_handler rc users k line st = Inr (r, st')"
  shows "parser_ok db0 st'"
  using assms(3) handle_INCLUDE_ok [OF assms(1,2)]
    handle_RULE_ok [OF assms(2), of line] handle_START_COND_ok [OF assms(2), of line]
    handle_COMMAND_ok [OF assms(2), of line] handle_END_COND_ok [OF assms(2), of line]
    handle_END_COND_TIMEOUT_ok [OF assms(2), of line] handle_FAILURE_ACTION_ok [OF assms(2), of line]
    handle_ACTIVE_ok [OF assms(2), of line] handle_SCHED_ok [OF assms(2), of line]
    handle_DAEMON_ok [OF assms(2), of line] handle_USER_ok [OF assms(2), of users line]
    handle_VERSION_ok [OF assms(2), of line]
  by (cases k) (simp_all add: kw_handler_def)

lemma try_keywords_ok:
  assumes "reader_ok db0 rc" and "parser_ok db0 st" and "try_keywords rc users token ks line st = Inr (r, st')"
  shows "parser_ok db0 st'"
  using assms(2,3)
proof (induction ks arbitrary: st)
  case (Cons k ks)
  show ?case
  proof (cases "strcaseeq token (kw_name k)")
    case True
    with Cons.prems(2) obtain q s where h: "kw_handler rc users k line st = Inr (q, s)"
      and n: "(if q \<noteq> 0 then Inr (- 1, s) else try_keywords rc users token ks line s) = Inr (r, st')"
      by (auto simp: bind_run_eq_Inr)
    from kw_handler_ok [OF assms(1) Cons.prems(1) h] have "parser_ok db0 s" .
    with n Cons.IH [of s] show ?thesis by (auto split: if_splits)
  next
    case False
    with Cons show ?thesis by simp
  qed
qed simp

lemma read_lines_ok:
  assumes "reader_ok db0 rc" and "parser_ok db0 st" and "read_lines rc users bs st = Inr (r, st')"
  shows "parser_ok db0 st'"
  using assms(2,3)
proof (induction bs arbitrary: st)
  case (Cons b bs)
  let ?s = "st\<lparr>lineNumber := lineNumber st + 1\<rparr>"
  have s: "parser_ok db0 ?s" using Cons.prems(1) by (simp add: parser_ok_def)
  show ?case
  proof (cases "split_line b")
    case None
    with Cons.prems(2) Cons.IH [OF s] show ?thesis by (simp add: Let_def)
  next
    case (Some tl)
    then obtain token line where "split_line b = Some (token, line)" by (cases tl) auto
    with Cons.prems(2) obtain q s2 where h: "try_keywords rc users token keywordHandlersList line ?s = Inr (q, s2)"
      and n: "(if q \<noteq> 0 then Inr (- 1, s2) else read_lines rc users bs s2) = Inr (r, st')"
      by (auto simp: bind_run_eq_Inr Let_def)
    from try_keywords_ok [OF assms(1) s h] n Cons.IH [of s2] show ?thesis by (auto split: if_splits)
  qed
qed simp

lemma flush_rule_ok: "parser_ok db0 st \<Longrightarrow> parser_ok db0 (snd (flush_rule (r, st)))"
  using write_rule_ok [of db0 st] by (auto simp: flush_rule_def split: prod.splits)

lemma read_config_ok: "reader_ok db0 (PCD_parser_read_config depth files users)"
proof (induction depth)
  case 0
  show ?case by (simp add: reader_ok_def)
next
  case (Suc depth)
  show ?case unfolding reader_ok_def
  proof (intro allI impI)
    fix f st r st'
    assume st: "parser_ok db0 st" and run: "PCD_parser_read_config (Suc depth) files users f st = Inr (r, st')"
    show "parser_ok db0 st'"
    proof (cases "files f")
      case None
      with run st show ?thesis by simp
    next
      case (Some content)
      with run obtain q s where h: "read_lines (PCD_parser_read_config depth files users) users (file_lines content) st = Inr (q, s)"
        and e: "flush_rule (q, s) = (r, st')" by (auto simp: bind_run_eq_Inr)
      from flush_rule_ok [OF read_lines_ok [OF Suc st h], of q] e show ?thesis by simp
    qed
  qed
qed

lemma parse_ok:
  assumes "PCD_parser_parse depth files users filename (parser_init db0) = Inr (s, st)" and "db_ok db0"
    and "db_rules db0 = []"
  shows "parser_ok db0 st"
proof -
  let ?i = "PCD_parser_init_kwHandlersList (parser_init db0)"
  have "parser_ok db0 ?i"
    using assms(2,3) init_flags_ok [of "parser_init db0"]
    by (intro parser_okI [where i = 0]) (simp_all add: init_rest parser_init_def db_grown_def status_of_def)
  moreover obtain r where "PCD_parser_read_config depth files users filename ?i = Inr (r, st)"
    using assms(1) by (auto simp: PCD_parser_parse_def PCD_parser_generate_config_def bind_run_eq_Inr)
  ultimately show ?thesis using read_config_ok unfolding reader_ok_def by blast
qed

end
