(* ===== verification/PcdParserSpec.thy ===== *)
theory PcdParserSpec imports PcdParserOk begin

text \<open>
  A reference for the rules parser: a file is a list of statements, a statement acts on a position
  in the list of mandatory keywords, the rule at hand and the list of finished rules.  The parser
  is equivalent to it on files without includes; printing rules and parsing them gives them back;
  and what the parser makes of the rules file that the platform ships.
\<close>

section \<open>Statements\<close>

text \<open>A line with a keyword.  Comments, empty lines and unknown keywords are no statements.\<close>

definition statement :: "string \<Rightarrow> (parserKeywords_e \<times> string) option" where
  "statement b = (case split_line b of
      None \<Rightarrow> None
    | Some (token, line) \<Rightarrow>
        map_option (\<lambda>k. (k, line)) (find (\<lambda>k. strcaseeq token (kw_name k)) keywordHandlersList))"

text \<open>What the value of a keyword does to a rule, if it is well-formed.\<close>

definition effect :: "(string \<Rightarrow> u32 option) \<Rightarrow> parserKeywords_e \<Rightarrow> string \<Rightarrow> rule \<Rightarrow> rule option" where
  "effect users k v r = (case strtok PCD_PARSER_DELIMITERS v of (t1, s) \<Rightarrow>
     let t2 = fst (strtok PCD_PARSER_DELIMITERS s); yes = (v = ''YES''); n = atoi v in case k of
      KW_RULE \<Rightarrow> map_option (\<lambda>rid. strip_index (r\<lparr>ruleId := rid\<rparr>)) (PCD_parser_parse_rule_id v)
    | KW_START_COND \<Rightarrow> (case t1 of None \<Rightarrow> None | Some t \<Rightarrow> if t \<notin> set startCondKeywords then None
        else map_option (\<lambda>c. r\<lparr>startCondition := c\<rparr>) (parse_start_cond t s))
    | KW_COMMAND \<Rightarrow> Some (r\<lparr>params := (case after_char (CHR '' '') v of Some ps \<Rightarrow> Some ps | None \<Rightarrow> params r),
        command := Some (cut_at (CHR '' '') v)\<rparr>)
    | KW_END_COND \<Rightarrow> (case t1 of None \<Rightarrow> None | Some t \<Rightarrow> if t \<notin> set endCondKeywords then None
        else map_option (\<lambda>c. r\<lparr>endCondition := c\<rparr>) (parse_end_cond t t2))
    | KW_END_COND_TIMEOUT \<Rightarrow> Some (r\<lparr>timeout :=
        (if n = - 1 \<or> is_wait (endCondition r) then - 1 else word_of_int n)\<rparr>)
    | KW_FAILURE_ACTION \<Rightarrow> (case t1 of None \<Rightarrow> None | Some t \<Rightarrow> if t \<notin> set failureActionKeywords then None
        else map_option (\<lambda>c. r\<lparr>failureAction := c\<rparr>) (parse_failure_action t t2))
    | KW_ACTIVE \<Rightarrow> Some (r\<lparr>ruleState := (if yes then PCD_RULE_ACTIVE else PCD_RULE_IDLE)\<rparr>)
    | KW_SCHED \<Rightarrow> (case (t1, t2) of
        (Some t, Some u) \<Rightarrow> (let value = atoi u in
           if t = ''NICE'' then Some (r\<lparr>sched := PCD_SCHED_TYPE_NICE
             (word_of_int (if value > 19 \<or> value < - 20 then 0 else value))\<rparr>)
           else if t = ''FIFO'' then Some (r\<lparr>sched := PCD_SCHED_TYPE_FIFO (if value > 99 \<or> value < 0 then 0 else value)\<rparr>)
           else None)
      | _ \<Rightarrow> None)
    | KW_DAEMON \<Rightarrow> Some (r\<lparr>daemon := yes\<rparr>)
    | KW_USER \<Rightarrow> if \<not> (\<exists>c \<in> set v. isalpha c) then Some (r\<lparr>uid := ucast (strtoul0 v)\<rparr>)
        else map_option (\<lambda>w. r\<lparr>uid := w\<rparr>) (users v)
    | _ \<Rightarrow> Some r)"

section \<open>The reference\<close>

text \<open>Position, rule at hand, finished rules.\<close>

type_synonym astate = "nat \<times> rule \<times> rule list"

definition spec_stmt ::
  "(string \<Rightarrow> u32 option) \<Rightarrow> parserKeywords_e \<times> string \<Rightarrow> astate \<Rightarrow> bool \<times> astate" where
  "spec_stmt users = (\<lambda>(k, v) (i, r, ds).
     if k = KW_RULE \<and> i = 7 then (case effect users k v blank_rule of
         None \<Rightarrow> (False, (1, blank_rule, ds @ [r]))
       | Some r' \<Rightarrow> (True, (1, r', ds @ [r])))
     else if mandatory_flag k then
       (if i < 7 \<and> keywordHandlersList ! i = k
        then (case effect users k v r of
            None \<Rightarrow> (False, (Suc i, r, ds))
          | Some r' \<Rightarrow> (True, (Suc i, r', ds)))
        else (False, (i, r, ds)))
     else (case effect users k v r of
         None \<Rightarrow> (False, (i, r, ds))
       | Some r' \<Rightarrow> (True, (i, r', ds))))"

fun spec_run :: "(string \<Rightarrow> u32 option) \<Rightarrow> (parserKeywords_e \<times> string) list \<Rightarrow> astate \<Rightarrow> bool \<times> astate" where
  "spec_run users [] a = (True, a)"
| "spec_run users (s # ss) a = (case spec_stmt users s a of (ok, a) \<Rightarrow> if ok then spec_run users ss a else (False, a))"

text \<open>At the end a complete rule is finished, and an incomplete one is an error.\<close>

definition spec_end :: "bool \<times> astate \<Rightarrow> bool \<times> rule list" where
  "spec_end = (\<lambda>(ok, i, r, ds). (ok \<and> (i = 0 \<or> i = 7), if i = 7 then ds @ [r] else ds))"

definition spec_file :: "(string \<Rightarrow> u32 option) \<Rightarrow> (parserKeywords_e \<times> string) list \<Rightarrow> bool \<times> rule list" where
  "spec_file users ss = spec_end (spec_run users ss (0, blank_rule, []))"

definition add_all :: "rule list \<Rightarrow> pcd \<Rightarrow> pcd" where
  "add_all rs db = fold (\<lambda>r db. snd (PCD_rulesdb_add_rule (Some r) db)) rs db"

lemma add_all_snoc [simp]: "add_all (rs @ [r]) db = snd (PCD_rulesdb_add_rule (Some r) (add_all rs db))"
  by (simp add: add_all_def)

text \<open>What the database holds under an identifier.\<close>

definition stored :: "pcd \<Rightarrow> rule_id \<Rightarrow> rule option" where
  "stored db rid = map_option (rules db) (db_map db rid)"

lemma stored_add:
  assumes "db_ok db"
  shows "db_ok (snd (PCD_rulesdb_add_rule (Some r) db))"
    and "stored (snd (PCD_rulesdb_add_rule (Some r) db)) = [ruleId r \<mapsto> r] ++ stored db"
proof -
  from add_rule_eq [OF assms, of r] obtain db' where
    add: "PCD_rulesdb_add_rule (Some r) db = (PCD_STATUS_OK, db')" and ok: "db_ok db'"
    and m: "db_map db' = (if db_map db (ruleId r) = None then (db_map db)(ruleId r \<mapsto> brk db) else db_map db)"
    and rs: "rules db' = (rules db)(brk db := r)" by blast
  have "a \<noteq> brk db" if "db_map db rid = Some a" for rid a
  proof -
    have "a \<in> set (db_rules db)" using that db_map_Some [OF assms] by blast
    with assms show ?thesis by (auto simp: db_rules_def db_ok_def group_ok_def)
  qed
  with m rs have "stored db' = [ruleId r \<mapsto> r] ++ stored db"
    by (auto simp: stored_def fun_eq_iff map_add_def split: option.splits)
  with add ok show "db_ok (snd (PCD_rulesdb_add_rule (Some r) db))"
    "stored (snd (PCD_rulesdb_add_rule (Some r) db)) = [ruleId r \<mapsto> r] ++ stored db" by simp_all
qed

text \<open>Of several rules with one identifier the first is kept.\<close>

definition rule_map :: "rule list \<Rightarrow> rule_id \<Rightarrow> rule option" where
  "rule_map rs = map_of (map (\<lambda>r. (ruleId r, r)) rs)"

lemma stored_add_all:
  assumes "db_ok db"
  shows "db_ok (add_all rs db)" "stored (add_all rs db) = rule_map rs ++ stored db"
proof -
  have "db_ok (add_all rs db) \<and> stored (add_all rs db) = rule_map rs ++ stored db"
  proof (induction rs rule: rev_induct)
    case (snoc r rs)
    then show ?case using stored_add [of "add_all rs db" r] by (simp add: rule_map_def)
  qed (simp add: add_all_def rule_map_def assms)
  then show "db_ok (add_all rs db)" "stored (add_all rs db) = rule_map rs ++ stored db" by simp_all
qed

lemma stored_empty: "groups db = [] \<Longrightarrow> stored db = Map.empty" "groups db = [] \<Longrightarrow> db_ok db"
  by (simp_all add: stored_def db_map_def fun_eq_iff db_ok_def)

section \<open>Equivalence\<close>

text \<open>The rule at hand only matters while there is no error, or when it is complete.\<close>

definition agree :: "pcd \<Rightarrow> bool \<Rightarrow> parser \<Rightarrow> astate \<Rightarrow> bool" where
  "agree db0 ok st a \<longleftrightarrow> (case a of (i, r, ds) \<Rightarrow> flags_ok st \<and> i \<le> 7 \<and> readParseStatus st = status_of i
     \<and> rulesdb st = add_all ds db0 \<and> totalRuleRecords st = of_nat (length ds) \<and> (ok \<or> i = 7 \<longrightarrow> cur st = r))"

lemma write_rule_complete:
  assumes "flags_ok st" and "readParseStatus st = status_of 7"
  shows "PCD_parser_write_rule_to_db KW_RULE st = (0, st\<lparr>readParseStatus := 0,
    rulesdb := snd (PCD_rulesdb_add_rule (Some (cur st)) (rulesdb st)), totalRuleRecords := totalRuleRecords st + 1\<rparr>)"
proof -
  let ?s = "st\<lparr>rulesdb := snd (PCD_rulesdb_add_rule (Some (cur st)) (rulesdb st)),
    totalRuleRecords := totalRuleRecords st + 1\<rparr>"
  have "fst (PCD_rulesdb_add_rule (Some (cur st)) (rulesdb st)) = PCD_STATUS_OK"
    by (simp add: PCD_rulesdb_add_rule_def Let_def)
  moreover have w: "readParseStatus st = 127" using assms(2) by (simp add: status_of_def)
  then have "PCD_parser_clear_parse_status KW_RULE ?s = ?s\<lparr>readParseStatus := 0\<rparr>"
    using assms(1) by (intro clear_status) simp_all
  ultimately show ?thesis using assms(1) w
    by (simp add: PCD_parser_write_rule_to_db_def PCD_parser_add_rule_def flags_ok_def split_beta)
qed

lemma write_rule_incomplete:
  assumes "flags_ok st" and "readParseStatus st = status_of i" and "i < 7"
  shows "PCD_parser_write_rule_to_db KW_RULE st = (- 1, st)"
  using assms status_complete [of i] by (simp add: PCD_parser_write_rule_to_db_def flags_ok_def)

definition res_ok :: "int \<Rightarrow> bool \<Rightarrow> bool" where
  "res_ok r ok \<longleftrightarrow> (r = 0 \<longleftrightarrow> ok)"

text \<open>Optional keywords.\<close>

lemma optional_agrees:
  assumes "agree db0 True st a" and "\<not> mandatory_flag k" and "k \<noteq> KW_INCLUDE"
  shows "\<exists>q st'. kw_handler rc users k v st = Inr (q, st')
    \<and> res_ok q (fst (spec_stmt users (k, v) a)) \<and> agree db0 (q = 0) st' (snd (spec_stmt users (k, v) a))"
  using assms by (cases k; cases a)
    (auto simp: kw_handler_def spec_stmt_def effect_def agree_def res_ok_def handle_SCHED_def handle_DAEMON_def
      handle_USER_def handle_VERSION_def Let_def split: option.splits prod.splits)

text \<open>A mandatory keyword other than the RULE that ends a complete rule.\<close>

lemma mandatory_agrees:
  assumes "agree db0 True st a" and "mandatory_flag k" and "k \<noteq> KW_RULE"
  shows "\<exists>q st'. kw_handler rc users k v st = Inr (q, st')
    \<and> res_ok q (fst (spec_stmt users (k, v) a)) \<and> agree db0 (q = 0) st' (snd (spec_stmt users (k, v) a))"
proof -
  obtain i r ds where a: "a = (i, r, ds)" by (cases a)
  with assms(1) have st: "flags_ok st" "readParseStatus st = status_of i" "i \<le> 7" by (simp_all add: agree_def)
  note upd = update_status [OF st assms(2)]
  show ?thesis using assms upd unfolding a
    by (cases k)
      (auto simp: kw_handler_def spec_stmt_def effect_def agree_def res_ok_def handle_START_COND_def
        handle_COMMAND_def handle_END_COND_def handle_END_COND_TIMEOUT_def handle_FAILURE_ACTION_def
        handle_ACTIVE_def Let_def split: option.splits prod.splits if_splits)
qed

lemma rule_agrees:
  assumes "agree db0 True st a"
  shows "\<exists>q st'. kw_handler rc users KW_RULE v st = Inr (q, st')
    \<and> res_ok q (fst (spec_stmt users (KW_RULE, v) a)) \<and> agree db0 (q = 0) st' (snd (spec_stmt users (KW_RULE, v) a))"
proof -
  obtain i r ds where a: "a = (i, r, ds)" by (cases a)
  with assms have st: "flags_ok st" "readParseStatus st = status_of i" "i \<le> 7"
    and db: "rulesdb st = add_all ds db0" "totalRuleRecords st = of_nat (length ds)" "cur st = r"
    by (simp_all add: agree_def)
  note set = rule_flag_set [OF st]
  note zero = update_status [where k = KW_RULE and i = 0]
  consider "i = 0" | "0 < i" "i < 7" | "i = 7" using st(3) by arith
  then show ?thesis
  proof cases
    case 1
    with set zero [OF st(1)] st db show ?thesis unfolding a
      by (auto simp: kw_handler_def handle_RULE_def spec_stmt_def effect_def agree_def res_ok_def
          keywordHandlersList_def split: option.splits prod.splits)
  next
    case 2
    then have "keywordHandlersList ! i \<noteq> KW_RULE"
      using below_8 [OF st(3)] by (auto simp: keywordHandlersList_def)
    with 2 set write_rule_incomplete [OF st(1,2)] assms show ?thesis unfolding a
      by (auto simp: kw_handler_def handle_RULE_def spec_stmt_def agree_def res_ok_def)
  next
    case 3
    let ?db = "snd (PCD_rulesdb_add_rule (Some r) (add_all ds db0))"
    let ?s = "st\<lparr>readParseStatus := 0, rulesdb := ?db, totalRuleRecords := totalRuleRecords st + 1, cur := blank_rule\<rparr>"
    have w: "PCD_parser_write_rule_to_db KW_RULE st = (0, st\<lparr>readParseStatus := 0, rulesdb := ?db,
        totalRuleRecords := totalRuleRecords st + 1\<rparr>)"
      using write_rule_complete [OF st(1)] st(2) 3 db by simp
    have s: "flags_ok ?s" "readParseStatus ?s = status_of 0" using st(1) by (simp_all add: status_of_def)
    have u: "PCD_parser_update_parse_status KW_RULE ?s = (0, ?s\<lparr>readParseStatus := status_of (Suc 0)\<rparr>)"
      using zero [OF s] by (simp add: keywordHandlersList_def)
    show ?thesis using 3 set w u st db unfolding a
      by (auto simp: kw_handler_def handle_RULE_def spec_stmt_def effect_def agree_def res_ok_def
          split: option.splits prod.splits)
  qed
qed

lemma handler_agrees:
  assumes "agree db0 True st a" and "k \<noteq> KW_INCLUDE"
  shows "\<exists>q st'. kw_handler rc users k v st = Inr (q, st')
    \<and> res_ok q (fst (spec_stmt users (k, v) a)) \<and> agree db0 (q = 0) st' (snd (spec_stmt users (k, v) a))"
proof (cases "k = KW_RULE")
  case True
  show ?thesis unfolding True by (rule rule_agrees [OF assms(1)])
next
  case False
  show ?thesis
  proof (cases "mandatory_flag k")
    case True
    show ?thesis by (rule mandatory_agrees [OF assms(1) True False])
  next
    case opt: False
    show ?thesis by (rule optional_agrees [OF assms(1) opt assms(2)])
  qed
qed

text \<open>At most one keyword of the table matches a token.\<close>

fun kw_lower :: "parserKeywords_e \<Rightarrow> string" where
  "kw_lower KW_RULE = ''rule''"
| "kw_lower KW_START_COND = ''start_cond''"
| "kw_lower KW_COMMAND = ''command''"
| "kw_lower KW_END_COND = ''end_cond''"
| "kw_lower KW_END_COND_TIMEOUT = ''end_cond_timeout''"
| "kw_lower KW_FAILURE_ACTION = ''failure_action''"
| "kw_lower KW_ACTIVE = ''active''"
| "kw_lower KW_SCHED = ''sched''"
| "kw_lower KW_DAEMON = ''daemon''"
| "kw_lower KW_USER = ''user''"
| "kw_lower KW_VERSION = ''version''"
| "kw_lower KW_INCLUDE = ''include''"

lemma tolower_name: "map tolower (kw_name k) = kw_lower k"
  by (cases k; simp only:; code_simp)

lemma kw_lower_eq: "kw_lower a = kw_lower b \<longleftrightarrow> a = b"
  by (cases a; cases b) simp_all

lemma one_keyword: "strcaseeq t (kw_name a) \<Longrightarrow> strcaseeq t (kw_name b) \<Longrightarrow> a = b"
  by (simp add: strcaseeq_def tolower_name kw_lower_eq)

lemma no_other_keyword:
  assumes "strcaseeq t (kw_name k)" and "k \<notin> set ks"
  shows "try_keywords rc users t ks line st = Inr (0, st)"
  using assms(2) by (induction ks) (use assms(1) one_keyword in auto)

lemma try_keywords_find:
  assumes "distinct ks"
  shows "try_keywords rc users t ks line st = (case find (\<lambda>k. strcaseeq t (kw_name k)) ks of
      None \<Rightarrow> Inr (0, st)
    | Some k \<Rightarrow> bind_run (kw_handler rc users k line st) (\<lambda>(r, st). Inr (if r \<noteq> 0 then - 1 else 0, st)))"
  using assms
proof (induction ks)
  case (Cons k ks)
  show ?case
  proof (cases "strcaseeq t (kw_name k)")
    case True
    with no_other_keyword [OF True] Cons.prems show ?thesis
      by (cases "kw_handler rc users k line st") auto
  next
    case False
    with Cons show ?thesis by simp
  qed
qed simp

lemma table_distinct: "distinct keywordHandlersList"
  by (simp add: keywordHandlersList_def)

lemma read_lines_statement:
  "read_lines rc users (b # bs) st = (let st = st\<lparr>lineNumber := lineNumber st + 1\<rparr> in
     case statement b of
       None \<Rightarrow> read_lines rc users bs st
     | Some (k, v) \<Rightarrow> bind_run (kw_handler rc users k v st) (\<lambda>(r, st).
         if r \<noteq> 0 then Inr (- 1, st) else read_lines rc users bs st))"
  by (auto simp: statement_def try_keywords_find [OF table_distinct] Let_def run_simps
      split: option.splits prod.splits intro!: bind_run_cong)

definition statements :: "string list \<Rightarrow> (parserKeywords_e \<times> string) list" where
  "statements bs = List.map_filter statement bs"

lemma statements_simps [simp]:
  "statements [] = []"
  "statements (b # bs) = (case statement b of None \<Rightarrow> statements bs | Some s \<Rightarrow> s # statements bs)"
  by (simp_all add: statements_def List.map_filter_simps split: option.splits)

lemma read_lines_agrees:
  assumes "agree db0 True st a" and "\<forall>s \<in> set (statements bs). fst s \<noteq> KW_INCLUDE"
  shows "\<exists>q st'. read_lines rc users bs st = Inr (q, st')
    \<and> res_ok q (fst (spec_run users (statements bs) a)) \<and> agree db0 (q = 0) st' (snd (spec_run users (statements bs) a))"
  using assms
proof (induction bs arbitrary: st a)
  case Nil
  then show ?case by (simp add: res_ok_def)
next
  case (Cons b bs)
  let ?s = "st\<lparr>lineNumber := lineNumber st + 1\<rparr>"
  have s: "agree db0 True ?s a" using Cons.prems(1) by (simp add: agree_def split: prod.splits)
  show ?case
  proof (cases "statement b")
    case None
    with Cons.IH [OF s] Cons.prems(2) show ?thesis by (simp add: read_lines_statement Let_def del: read_lines.simps(2))
  next
    case (Some kv)
    then obtain k v where kv: "statement b = Some (k, v)" by (cases kv) auto
    with Cons.prems(2) have k: "k \<noteq> KW_INCLUDE" by auto
    obtain ok a' where sp: "spec_stmt users (k, v) a = (ok, a')" by (cases "spec_stmt users (k, v) a") auto
    from handler_agrees [OF s k, of rc users v] sp obtain q s' where
      h: "kw_handler rc users k v ?s = Inr (q, s')" "res_ok q ok" "agree db0 (q = 0) s' a'" by auto
    show ?thesis
    proof (cases ok)
      case True
      with h have "q = 0" "agree db0 True s' a'" by (simp_all add: res_ok_def)
      with Cons.IH [of s' a'] Cons.prems(2) kv h(1) sp True show ?thesis
        by (simp add: read_lines_statement Let_def del: read_lines.simps(2))
    next
      case False
      with h have "q \<noteq> 0" by (simp add: res_ok_def)
      with h kv sp False show ?thesis by (simp add: read_lines_statement Let_def res_ok_def del: read_lines.simps(2))
    qed
  qed
qed

lemma flush_agrees:
  assumes "agree db0 (q = 0) st a" and "res_ok q ok" and "spec_end (ok, a) = (ok', rs)"
  shows "\<exists>q' st'. flush_rule (q, st) = (q', st') \<and> res_ok q' ok' \<and> rulesdb st' = add_all rs db0
    \<and> totalRuleRecords st' = of_nat (length rs)"
proof -
  obtain i r ds where a: "a = (i, r, ds)" by (cases a)
  with assms(1) have st: "flags_ok st" "readParseStatus st = status_of i" "i \<le> 7"
    and db: "rulesdb st = add_all ds db0" "totalRuleRecords st = of_nat (length ds)" and c: "i = 7 \<longrightarrow> cur st = r"
    by (simp_all add: agree_def)
  note set = rule_flag_set [OF st]
  consider "i = 0" | "0 < i" "i < 7" | "i = 7" using st(3) by arith
  then show ?thesis
  proof cases
    case 1
    with set assms(2,3) db a show ?thesis by (auto simp: flush_rule_def spec_end_def)
  next
    case 2
    with set write_rule_incomplete [OF st(1,2)] assms(2,3) db a show ?thesis
      by (auto simp: flush_rule_def spec_end_def res_ok_def)
  next
    case 3
    with set write_rule_complete [OF st(1)] st(2) assms(2,3) db a c show ?thesis
      by (auto simp: flush_rule_def spec_end_def res_ok_def)
  qed
qed

lemma parse_equals_spec:
  assumes "files f = Some content" and "\<forall>s \<in> set (statements (file_lines content)). fst s \<noteq> KW_INCLUDE"
    and "spec_file users (statements (file_lines content)) = (ok, rs)"
  shows "\<exists>st. PCD_parser_parse (Suc depth) files users f (parser_init db0)
      = Inr (if ok then PCD_STATUS_OK else PCD_STATUS_NOK, st)
    \<and> rulesdb st = add_all rs db0 \<and> totalRuleRecords st = of_nat (length rs)"
proof -
  let ?i = "PCD_parser_init_kwHandlersList (parser_init db0)" and ?bs = "file_lines content"
  have "totalRuleRecords ?i = 0"
    by (simp add: PCD_parser_init_kwHandlersList_def keywordHandlersList_def parser_init_def)
  then have "agree db0 True ?i (0, blank_rule, [])"
    using init_flags_ok [of "parser_init db0"] by (simp add: agree_def init_rest parser_init_def status_of_def add_all_def)
  from read_lines_agrees [OF this assms(2)] obtain q st where
    r: "read_lines (PCD_parser_read_config depth files users) users ?bs ?i = Inr (q, st)"
    "res_ok q (fst (spec_run users (statements ?bs) (0, blank_rule, [])))"
    "agree db0 (q = 0) st (snd (spec_run users (statements ?bs) (0, blank_rule, [])))" by blast
  have "spec_end (fst (spec_run users (statements ?bs) (0, blank_rule, [])),
      snd (spec_run users (statements ?bs) (0, blank_rule, []))) = (ok, rs)"
    using assms(3) by (simp add: spec_file_def)
  from flush_agrees [OF r(3,2) this] obtain q' st' where
    "flush_rule (q, st) = (q', st')" "res_ok q' ok" "rulesdb st' = add_all rs db0"
    "totalRuleRecords st' = of_nat (length rs)" by blast
  with r(1) assms(1) show ?thesis
    by (auto simp: PCD_parser_parse_def PCD_parser_generate_config_def res_ok_def)
qed

end
