(* ===== verification/PcdRulesFile.thy ===== *)
theory PcdRulesFile imports PcdParserSpec begin

text \<open>
  Rules files: printing rules in the syntax of the parser, and that parsing gives them back; the
  file \<open>config/system.pcd\<close> that the platform ships; and the inclusion of other files.
\<close>

section \<open>Printing\<close>

definition plain :: "char \<Rightarrow> bool" where
  "plain c \<longleftrightarrow> \<not> isspace c \<and> c \<notin> {CHR '','', CHR ''#'', CHR ''='', NUL}"

definition solid :: "string \<Rightarrow> bool" where
  "solid w \<longleftrightarrow> w \<noteq> [] \<and> (\<forall>c \<in> set w. plain c)"

definition word :: "nat \<Rightarrow> string \<Rightarrow> bool" where
  "word n w \<longleftrightarrow> solid w \<and> length w \<le> n"

text \<open>A value as it stands in a line: no comment sign or line end, no white space at its ends.\<close>

definition value_text :: "string \<Rightarrow> bool" where
  "value_text v \<longleftrightarrow> v \<noteq> [] \<and> (\<forall>c \<in> set v. c \<notin> {LF, NUL, CHR ''#''})
     \<and> hd v \<notin> {CHR '' '', TAB, CHR ''=''} \<and> \<not> isspace (last v)"

definition print_id :: "rule_id \<Rightarrow> string" where
  "print_id rid = groupName rid @ ''_'' @ ruleName rid"

definition good_id :: "rule_id \<Rightarrow> bool" where
  "good_id rid \<longleftrightarrow> word 15 (groupName rid) \<and> CHR ''_'' \<notin> set (groupName rid) \<and> word 15 (ruleName rid)"

definition print_ids :: "rule_cache list \<Rightarrow> string" where
  "print_ids cs = concat (map (\<lambda>c. '' '' @ print_id (rc_id c)) cs)"

definition print_word :: "u32 \<Rightarrow> string" where
  "print_word w = int_str (sint w)"

fun print_start :: "start_cond \<Rightarrow> string" where
  "print_start START_NONE = ''NONE''"
| "print_start (START_FILE f) = ''FILE'' @ '' '' @ f"
| "print_start (START_RULE_COMPLETED cs) = ''RULE_COMPLETED'' @ print_ids cs"
| "print_start (START_NETDEVICE d) = ''NETDEVICE'' @ '' '' @ d"
| "print_start (START_IPC_OWNER w) = ''IPC_OWNER'' @ '' '' @ print_word w"
| "print_start (START_ENV_VAR n v) = ''ENV_VAR'' @ '' '' @ n @ '' '' @ v"

fun good_start :: "start_cond \<Rightarrow> bool" where
  "good_start START_NONE = True"
| "good_start (START_FILE f) = word 31 f"
| "good_start (START_RULE_COMPLETED cs) =
     (cs \<noteq> [] \<and> length cs \<le> 8 \<and> (\<forall>c \<in> set cs. good_id (rc_id c) \<and> rc_rule c = None))"
| "good_start (START_NETDEVICE d) = word 15 d"
| "good_start (START_IPC_OWNER w) = True"
| "good_start (START_ENV_VAR n v) = (word 31 n \<and> word 32 v)"

fun print_end :: "end_cond \<Rightarrow> string" where
  "print_end END_NONE = ''NONE''"
| "print_end (END_FILE f) = ''FILE'' @ '' '' @ f"
| "print_end (END_EXIT c) = ''EXIT'' @ '' '' @ print_word c"
| "print_end (END_NETDEVICE d) = ''NETDEVICE'' @ '' '' @ d"
| "print_end (END_IPC_OWNER w) = ''IPC_OWNER'' @ '' '' @ print_word w"
| "print_end (END_PROCESS_READY b) = ''PROCESS_READY''"
| "print_end (END_WAIT d e) = ''WAIT'' @ '' '' @ print_word d"

fun good_end :: "end_cond \<Rightarrow> bool" where
  "good_end (END_FILE f) = word 31 f"
| "good_end (END_NETDEVICE d) = word 15 d"
| "good_end (END_PROCESS_READY b) = (\<not> b)"
| "good_end (END_WAIT d e) = (d = e)"
| "good_end c = True"

fun print_failure :: "failure_action \<Rightarrow> string" where
  "print_failure FAIL_NONE = ''NONE''"
| "print_failure FAIL_REBOOT = ''REBOOT''"
| "print_failure FAIL_RESTART = ''RESTART''"
| "print_failure (FAIL_EXEC_RULE rid) = ''EXEC_RULE'' @ '' '' @ print_id rid"

fun good_failure :: "failure_action \<Rightarrow> bool" where
  "good_failure (FAIL_EXEC_RULE rid) = good_id rid"
| "good_failure a = True"

fun print_sched :: "sched_type \<Rightarrow> string" where
  "print_sched (PCD_SCHED_TYPE_FIFO p) = ''FIFO'' @ '' '' @ int_str p"
| "print_sched (PCD_SCHED_TYPE_NICE w) = ''NICE'' @ '' '' @ print_word w"

fun good_sched :: "sched_type \<Rightarrow> bool" where
  "good_sched (PCD_SCHED_TYPE_FIFO p) = (0 \<le> p \<and> p \<le> 99)"
| "good_sched (PCD_SCHED_TYPE_NICE w) = (- 20 \<le> sint w \<and> sint w \<le> 19)"

definition print_yes :: "bool \<Rightarrow> string" where
  "print_yes b = (if b then ''YES'' else ''NO'')"

text \<open>The statements of a rule; an indexed rule has a dollar sign behind its name.\<close>

definition rule_statements :: "rule \<Rightarrow> (parserKeywords_e \<times> string) list" where
  "rule_statements r =
     [(KW_RULE, print_id (ruleId r) @ (if indexed r then ''$'' else [])),
      (KW_SCHED, print_sched (sched r)),
      (KW_DAEMON, print_yes (daemon r)),
      (KW_USER, int_str (uint (uid r))),
      (KW_START_COND, print_start (startCondition r)),
      (KW_COMMAND, the (command r) @ (case params r of None \<Rightarrow> [] | Some ps \<Rightarrow> '' '' @ ps)),
      (KW_END_COND, print_end (endCondition r)),
      (KW_END_COND_TIMEOUT, print_word (timeout r)),
      (KW_FAILURE_ACTION, print_failure (failureAction r)),
      (KW_ACTIVE, print_yes (ruleState r = PCD_RULE_ACTIVE))]"

definition print_stmt :: "parserKeywords_e \<times> string \<Rightarrow> string" where
  "print_stmt s = kw_name (fst s) @ '' = '' @ snd s"

definition rules_text :: "rule list \<Rightarrow> string" where
  "rules_text rs = concat (map (\<lambda>l. l @ [LF]) (map print_stmt (concat (map rule_statements rs))))"

definition good_command :: "rule \<Rightarrow> bool" where
  "good_command r \<longleftrightarrow> (case command r of None \<Rightarrow> False | Some c \<Rightarrow> value_text c \<and> CHR '' '' \<notin> set c
     \<and> (case params r of None \<Rightarrow> True | Some ps \<Rightarrow> value_text (c @ '' '' @ ps) \<and> ps \<noteq> []))"

text \<open>A rule that the syntax can express and that is not in use.\<close>

definition printable :: "rule \<Rightarrow> bool" where
  "printable r \<longleftrightarrow> good_id (ruleId r) \<and> length (ruleName (ruleId r)) + of_bool (indexed r) \<le> 15
     \<and> CHR ''$'' \<notin> set (ruleName (ruleId r))
     \<and> good_start (startCondition r) \<and> good_end (endCondition r) \<and> good_failure (failureAction r)
     \<and> good_sched (sched r) \<and> good_command r
     \<and> (is_wait (endCondition r) \<longrightarrow> timeout r = - 1)
     \<and> optionalParams r = None \<and> proc r = None \<and> ruleState r \<in> {PCD_RULE_ACTIVE, PCD_RULE_IDLE}
     \<and> (\<forall>s \<in> set (rule_statements r). length (print_stmt s) < 255)"

section \<open>Reading back the values\<close>

lemma wordD: "word n w \<Longrightarrow> solid w" "word n w \<Longrightarrow> length w \<le> n"
  by (simp_all add: word_def)

lemma solid_append: "solid a \<Longrightarrow> solid b \<Longrightarrow> solid (a @ b)"
  by (auto simp: solid_def)

lemma plain_not_special:
  assumes "plain c"
  shows "c \<notin> set PCD_PARSER_DELIMITERS" "c \<noteq> LF" "c \<noteq> NUL" "c \<noteq> CHR ''#''" "c \<noteq> CHR '' ''" "c \<noteq> TAB"
    "c \<noteq> CHR ''=''" "\<not> isspace c"
  using assms by (auto simp: plain_def isspace_def PCD_PARSER_DELIMITERS_def LF_def TAB_def)

lemma solid_no_delim: "solid w \<Longrightarrow> set w \<inter> set PCD_PARSER_DELIMITERS = {}"
  using plain_not_special(1) by (auto simp: solid_def)

lemma strtok_solid:
  assumes "solid w"
  shows "strtok PCD_PARSER_DELIMITERS w = (Some w, [])" "strtok PCD_PARSER_DELIMITERS (w @ CHR '' '' # s) = (Some w, s)"
proof -
  have w: "w \<noteq> []" using assms by (simp add: solid_def)
  have sp: "CHR '' '' \<in> set PCD_PARSER_DELIMITERS" by (simp add: PCD_PARSER_DELIMITERS_def)
  show "strtok PCD_PARSER_DELIMITERS w = (Some w, [])"
    using strtok_token [OF w solid_no_delim [OF assms], of "[]"] by simp
  show "strtok PCD_PARSER_DELIMITERS (w @ CHR '' '' # s) = (Some w, s)"
    using strtok_token [OF w solid_no_delim [OF assms], of "CHR '' '' # s"] sp by simp
qed

lemma solid_keywords:
  "\<forall>w \<in> set (startCondKeywords @ endCondKeywords @ failureActionKeywords @ [''FIFO'', ''NICE'', ''YES'', ''NO'']). solid w"
  by code_simp

lemma solid_underscore: "solid ''_''"
  by code_simp

lemma solid_id: "good_id rid \<Longrightarrow> solid (print_id rid)"
  unfolding print_id_def good_id_def word_def by (intro solid_append solid_underscore) simp_all

lemma int_str_chars: "set (int_str i) \<subseteq> insert (CHR ''-'') (set ''0123456789'')"
proof -
  have one: "set s \<subseteq> S \<Longrightarrow> set (c # s) \<subseteq> insert c S" "set s \<subseteq> S \<Longrightarrow> set s \<subseteq> insert c S" for s :: string and S c
    by auto
  show ?thesis
    by (cases "i < 0"; simp only: int_str_def if_True if_False not_False_eq_True)
      (rule one(1) one(2); rule base_digits_chars)+
qed

lemma solid_int_str: "solid (int_str i)"
proof -
  have "\<forall>c \<in> insert (CHR ''-'') (set ''0123456789''). plain c" by code_simp
  moreover have "int_str i \<noteq> []" by (simp add: int_str_def)
  ultimately show ?thesis using int_str_chars [of i] unfolding solid_def by (meson subsetD)
qed

lemma solid_print_word: "solid (print_word w)"
  by (simp add: print_word_def solid_int_str)

lemma atoi_print_word [simp]: "atoi (print_word w) = sint w" for w :: u32
  using sint_greater_eq [of w] sint_lt [of w] by (simp add: print_word_def atoi_int_str)

lemma word_of_sint_id [simp]: "word_of_int (sint w) = (w :: u32)"
  by simp

lemma after_append: "c \<notin> set a \<Longrightarrow> after_char c (a @ c # b) = Some b" "c \<notin> set a \<Longrightarrow> cut_at c (a @ c # b) = a"
  "c \<notin> set a \<Longrightarrow> after_char c a = None" "c \<notin> set a \<Longrightarrow> cut_at c a = a"
proof -
  show "c \<notin> set a \<Longrightarrow> after_char c (a @ c # b) = Some b" "c \<notin> set a \<Longrightarrow> cut_at c (a @ c # b) = a"
    by (induction a) (auto simp: after_char_def cut_at_def)
  show "c \<notin> set a \<Longrightarrow> after_char c a = None" "c \<notin> set a \<Longrightarrow> cut_at c a = a"
    by (induction a) (auto simp: after_char_def cut_at_def)
qed

lemma parse_printed_id:
  assumes "good_id rid"
  shows "PCD_parser_parse_rule_id (print_id rid) = Some rid" "length (print_id rid) \<le> 31"
  using assms after_append [of "CHR ''_''" "groupName rid"]
  by (simp_all add: good_id_def print_id_def PCD_parser_parse_rule_id_def PCD_RULEID_MAX_GROUP_NAME_SIZE_def
      PCD_RULEID_MAX_RULE_NAME_SIZE_def word_def)

lemma print_ids_simps [simp]:
  "print_ids [] = []" "print_ids (c # cs) = CHR '' '' # print_id (rc_id c) @ print_ids cs"
  by (simp_all add: print_ids_def)

lemma strtok_before_ids:
  assumes "solid w"
  shows "strtok PCD_PARSER_DELIMITERS (w @ print_ids cs) = (Some w, drop 1 (print_ids cs))"
  using strtok_solid [OF assms] by (cases cs) simp_all

lemma parse_completed_drop: "parse_completed n (drop 1 (print_ids cs)) = parse_completed n (print_ids cs)"
proof (cases n)
  case (Suc m)
  have "CHR '' '' \<in> set PCD_PARSER_DELIMITERS" by (simp add: PCD_PARSER_DELIMITERS_def)
  then show ?thesis using Suc strtok_skip by (cases cs) (auto simp del: strtok_solid)
qed simp

lemma parse_printed_ids:
  assumes "length cs \<le> n" and "\<forall>c \<in> set cs. good_id (rc_id c) \<and> rc_rule c = None"
  shows "parse_completed n (print_ids cs) = Some cs"
  using assms
proof (induction cs arbitrary: n)
  case Nil
  then show ?case by (cases n) simp_all
next
  case (Cons c cs)
  then obtain m where n: "n = Suc m" "length cs \<le> m" by (cases n) auto
  have id: "good_id (rc_id c)" "rc_rule c = None" using Cons.prems by simp_all
  have "CHR '' '' \<in> set PCD_PARSER_DELIMITERS" by (simp add: PCD_PARSER_DELIMITERS_def)
  then have t: "strtok PCD_PARSER_DELIMITERS (print_ids (c # cs)) = (Some (print_id (rc_id c)), drop 1 (print_ids cs))"
    using strtok_before_ids [OF solid_id [OF id(1)]] by (simp add: strtok_skip)
  have "take 33 (print_id (rc_id c)) = print_id (rc_id c)" using parse_printed_id(2) [OF id(1)] by simp
  moreover have "\<lparr>rc_rule = None, rc_id = rc_id c\<rparr> = c" using id(2) by simp
  moreover have "parse_completed m (print_ids cs) = Some cs" using Cons n by simp
  ultimately show ?case unfolding n(1) parse_completed.simps t
    using parse_printed_id(1) [OF id(1)] parse_completed_drop [of m cs]
    by (simp add: PCD_RULEID_MAX_GROUP_NAME_SIZE_def PCD_RULEID_MAX_RULE_NAME_SIZE_def)
qed

lemma start_roundtrip:
  assumes "good_start c"
  shows "\<exists>t s. strtok PCD_PARSER_DELIMITERS (print_start c) = (Some t, s) \<and> t \<in> set startCondKeywords
    \<and> parse_start_cond t s = Some c"
proof -
  have k: "solid w" if "w \<in> set startCondKeywords" for w using solid_keywords that by simp
  have kw: "solid ''NONE''" "solid ''FILE''" "solid ''RULE_COMPLETED''" "solid ''NETDEVICE''" "solid ''IPC_OWNER''"
    "solid ''ENV_VAR''" by (rule k; simp add: startCondKeywords_def)+
  show ?thesis
  proof (cases c)
    case (START_RULE_COMPLETED cs)
    with assms show ?thesis
      using strtok_before_ids [OF kw(3), of cs] parse_printed_ids [of cs 8] parse_completed_drop [of 8 cs]
      by (simp add: startCondKeywords_def parse_start_cond_def PCD_START_COND_MAX_IDS_def)
  next
    case (START_ENV_VAR n v)
    with assms have "solid n" "solid v" "length n \<le> 31" "length v \<le> 32" by (simp_all add: word_def)
    with START_ENV_VAR show ?thesis
      using strtok_solid(2) [OF kw(6), of "n @ CHR '' '' # v"] strtok_solid(2) [of n v] strtok_solid(1) [of v]
      by (simp add: startCondKeywords_def parse_start_cond_def PCD_COND_MAX_SIZE_def)
  next
    case START_NONE
    then show ?thesis using strtok_solid(1) [OF kw(1)] by (simp add: startCondKeywords_def parse_start_cond_def)
  next
    case (START_FILE f)
    with assms show ?thesis using strtok_solid(2) [OF kw(2), of f] strtok_solid(1) [of f]
      by (simp add: startCondKeywords_def parse_start_cond_def PCD_COND_MAX_SIZE_def word_def)
  next
    case (START_NETDEVICE d)
    with assms show ?thesis using strtok_solid(2) [OF kw(4), of d] strtok_solid(1) [of d]
      by (simp add: startCondKeywords_def parse_start_cond_def IF_NAMESIZE_def word_def)
  next
    case (START_IPC_OWNER w)
    then show ?thesis using strtok_solid(2) [OF kw(5), of "print_word w"] strtok_solid(1) [OF solid_print_word, of w]
      by (simp add: startCondKeywords_def parse_start_cond_def)
  qed
qed

lemma end_roundtrip:
  assumes "good_end c"
  shows "\<exists>t s. strtok PCD_PARSER_DELIMITERS (print_end c) = (Some t, s) \<and> t \<in> set endCondKeywords
    \<and> parse_end_cond t (fst (strtok PCD_PARSER_DELIMITERS s)) = Some c"
proof -
  have k: "solid w" if "w \<in> set endCondKeywords" for w using solid_keywords that by simp
  have kw: "solid ''NONE''" "solid ''FILE''" "solid ''EXIT''" "solid ''NETDEVICE''" "solid ''IPC_OWNER''"
    "solid ''PROCESS_READY''" "solid ''WAIT''" by (rule k; simp add: endCondKeywords_def)+
  note num = strtok_solid(1) [OF solid_print_word]
  note defs = endCondKeywords_def parse_end_cond_def PCD_COND_MAX_SIZE_def IF_NAMESIZE_def word_def
  show ?thesis
  proof (cases c)
    case END_NONE
    then show ?thesis using strtok_solid(1) [OF kw(1)] by (simp add: defs)
  next
    case (END_FILE f)
    with assms show ?thesis using strtok_solid(2) [OF kw(2), of f] strtok_solid(1) [of f] by (simp add: defs)
  next
    case (END_EXIT w)
    then show ?thesis using strtok_solid(2) [OF kw(3), of "print_word w"] num [of w] by (simp add: defs)
  next
    case (END_NETDEVICE d)
    with assms show ?thesis using strtok_solid(2) [OF kw(4), of d] strtok_solid(1) [of d] by (simp add: defs)
  next
    case (END_IPC_OWNER w)
    then show ?thesis using strtok_solid(2) [OF kw(5), of "print_word w"] num [of w] by (simp add: defs)
  next
    case (END_PROCESS_READY b)
    with assms show ?thesis using strtok_solid(1) [OF kw(6)] by (simp add: defs)
  next
    case (END_WAIT d e)
    with assms show ?thesis using strtok_solid(2) [OF kw(7), of "print_word d"] num [of d] by (simp add: defs)
  qed
qed

lemma failure_roundtrip:
  assumes "good_failure c"
  shows "\<exists>t s. strtok PCD_PARSER_DELIMITERS (print_failure c) = (Some t, s) \<and> t \<in> set failureActionKeywords
    \<and> parse_failure_action t (fst (strtok PCD_PARSER_DELIMITERS s)) = Some c"
proof -
  have k: "solid w" if "w \<in> set failureActionKeywords" for w using solid_keywords that by simp
  have kw: "solid ''NONE''" "solid ''REBOOT''" "solid ''RESTART''" "solid ''EXEC_RULE''"
    by (rule k; simp add: failureActionKeywords_def)+
  note defs = failureActionKeywords_def parse_failure_action_def
  show ?thesis
  proof (cases c)
    case (FAIL_EXEC_RULE rid)
    with assms show ?thesis
      using strtok_solid(2) [OF kw(4), of "print_id rid"] strtok_solid(1) [OF solid_id, of rid] parse_printed_id(1) [of rid]
      by (simp add: defs)
  qed (use strtok_solid(1) [OF kw(1)] strtok_solid(1) [OF kw(2)] strtok_solid(1) [OF kw(3)] in \<open>simp_all add: defs\<close>)
qed

lemma sched_roundtrip:
  assumes "good_sched c"
  shows "effect users KW_SCHED (print_sched c) r = Some (r\<lparr>sched := c\<rparr>)"
proof -
  have kw: "solid ''FIFO''" "solid ''NICE''" using solid_keywords by simp_all
  show ?thesis
  proof (cases c)
    case (PCD_SCHED_TYPE_FIFO p)
    with assms show ?thesis
      using strtok_solid(2) [OF kw(1), of "int_str p"] strtok_solid(1) [OF solid_int_str, of p] atoi_int_str [of p]
      by (simp add: effect_def Let_def)
  next
    case (PCD_SCHED_TYPE_NICE w)
    with assms show ?thesis
      using strtok_solid(2) [OF kw(2), of "print_word w"] strtok_solid(1) [OF solid_print_word, of w]
      by (simp add: effect_def Let_def)
  qed
qed

lemma user_roundtrip: "effect users KW_USER (int_str (uint w)) r = Some (r\<lparr>uid := w\<rparr>)"
proof -
  have "\<forall>c \<in> insert (CHR ''-'') (set ''0123456789''). \<not> isalpha c" by code_simp
  then have "\<not> (\<exists>c \<in> set (int_str (uint w)). isalpha c)" using int_str_chars by (meson subsetD)
  moreover have "strtoul0 (int_str (uint w)) = word_of_int (uint w)"
    using uint_bounded [of w] by (intro strtoul0_int_str) simp_all
  moreover have "ucast (word_of_int (uint w) :: u64) = w"
    by (intro bit_word_eqI) (simp add: bit_simps)
  ultimately show ?thesis by (simp add: effect_def split_beta)
qed

lemma command_roundtrip:
  assumes "good_command r" and "params q = None"
  shows "effect users KW_COMMAND (the (command r) @ (case params r of None \<Rightarrow> [] | Some ps \<Rightarrow> '' '' @ ps)) q
    = Some (q\<lparr>command := command r, params := params r\<rparr>)"
proof -
  from assms(1) obtain c where c: "command r = Some c" "CHR '' '' \<notin> set c"
    by (auto simp: good_command_def split: option.splits)
  show ?thesis
  proof (cases "params r")
    case None
    with c assms(2) after_append(3,4) [OF c(2)] show ?thesis by (simp add: effect_def split_beta)
  next
    case (Some ps)
    with c after_append(1,2) [OF c(2), of ps] show ?thesis by (simp add: effect_def split_beta)
  qed
qed

lemma id_roundtrip:
  assumes "good_id rid" and "length (ruleName rid) + of_bool ix \<le> 15" and "CHR ''$'' \<notin> set (ruleName rid)"
  shows "effect users KW_RULE (print_id rid @ (if ix then ''$'' else [])) q
    = Some (q\<lparr>ruleId := rid, indexed := (ix \<or> indexed q)\<rparr>)"
proof -
  have g: "CHR ''_'' \<notin> set (groupName rid)" "length (groupName rid) \<le> 15" using assms(1) by (simp_all add: good_id_def word_def)
  have e: "\<lparr>groupName = groupName rid, ruleName = ruleName rid\<rparr> = rid" by simp
  show ?thesis
  proof (cases ix)
    case True
    have "after_char (CHR ''_'') (groupName rid @ CHR ''_'' # ruleName rid @ ''$'') = Some (ruleName rid @ ''$'')"
      "cut_at (CHR ''_'') (groupName rid @ CHR ''_'' # ruleName rid @ ''$'') = groupName rid"
      using after_append(1,2) [OF g(1)] by simp_all
    moreover have "cut_at (CHR ''$'') (ruleName rid @ ''$'') = ruleName rid"
      using after_append(2) [OF assms(3), of "[]"] by simp
    ultimately show ?thesis using True assms(2) g(2) e
      by (simp add: effect_def split_beta print_id_def PCD_parser_parse_rule_id_def PCD_RULEID_MAX_GROUP_NAME_SIZE_def
          PCD_RULEID_MAX_RULE_NAME_SIZE_def strip_index_def Let_def)
  next
    case False
    then show ?thesis using parse_printed_id(1) [OF assms(1)] assms(3)
      by (simp add: effect_def split_beta strip_index_def Let_def)
  qed
qed

section \<open>Reading back the statements\<close>

lemma run_mandatory:
  assumes "mandatory_flag k" and "keywordHandlersList ! i = k" and "i < 7" and "effect users k v r = Some r'"
  shows "spec_run users ((k, v) # ss) (i, r, ds) = spec_run users ss (Suc i, r', ds)"
  using assms by (simp add: spec_stmt_def)

lemma run_optional:
  assumes "\<not> mandatory_flag k" and "effect users k v r = Some r'"
  shows "spec_run users ((k, v) # ss) (i, r, ds) = spec_run users ss (i, r', ds)"
proof -
  have "k \<noteq> KW_RULE" using assms(1) by auto
  with assms show ?thesis by (simp add: spec_stmt_def)
qed

lemma run_next_rule:
  assumes "effect users KW_RULE v blank_rule = Some r'"
  shows "spec_run users ((KW_RULE, v) # ss) (7, r, ds) = spec_run users ss (1, r', ds @ [r])"
  using assms by (simp add: spec_stmt_def)

lemma keyword_positions:
  "keywordHandlersList ! 0 = KW_RULE" "keywordHandlersList ! 1 = KW_START_COND"
  "keywordHandlersList ! Suc 1 = KW_COMMAND" "keywordHandlersList ! Suc (Suc 1) = KW_END_COND"
  "keywordHandlersList ! Suc (Suc (Suc 1)) = KW_END_COND_TIMEOUT"
  "keywordHandlersList ! Suc (Suc (Suc (Suc 1))) = KW_FAILURE_ACTION"
  "keywordHandlersList ! Suc (Suc (Suc (Suc (Suc 1)))) = KW_ACTIVE"
  by (simp_all add: keywordHandlersList_def)

text \<open>The statements of a rule take the reference from the start, or from a complete rule, to it.\<close>

lemma rule_statements_run:
  assumes "printable r"
  shows "spec_run users (rule_statements r @ ss) (0, blank_rule, ds) = spec_run users ss (7, r, ds)"
    and "spec_run users (rule_statements r @ ss) (7, q, ds) = spec_run users ss (7, r, ds @ [q])"
proof -
  note p = assms [unfolded printable_def]
  let ?r1 = "blank_rule\<lparr>ruleId := ruleId r, indexed := indexed r\<rparr>"
  let ?r4 = "?r1\<lparr>sched := sched r, daemon := daemon r, uid := uid r\<rparr>"
  let ?r5 = "?r4\<lparr>startCondition := startCondition r\<rparr>"
  let ?r6 = "?r5\<lparr>params := params r, command := command r\<rparr>"
  let ?r7 = "?r6\<lparr>endCondition := endCondition r\<rparr>"
  let ?r8 = "?r7\<lparr>timeout := timeout r\<rparr>"
  let ?r9 = "?r8\<lparr>failureAction := failureAction r\<rparr>"
  let ?ra = "?r9\<lparr>ruleState := ruleState r\<rparr>"
  have e1: "effect users KW_RULE (print_id (ruleId r) @ (if indexed r then ''$'' else [])) blank_rule = Some ?r1"
    using id_roundtrip [of "ruleId r" "indexed r" users blank_rule] p by (simp add: blank_rule_def)
  have yes: "print_yes b = ''YES'' \<longleftrightarrow> b" for b by (simp add: print_yes_def)
  have e2: "effect users KW_SCHED (print_sched (sched r)) x = Some (x\<lparr>sched := sched r\<rparr>)" for x
    using p by (intro sched_roundtrip) simp
  have e3: "effect users KW_DAEMON (print_yes (daemon r)) x = Some (x\<lparr>daemon := daemon r\<rparr>)" for x
    by (simp add: effect_def split_beta yes Let_def)
  have e5: "effect users KW_START_COND (print_start (startCondition r)) x = Some (x\<lparr>startCondition := startCondition r\<rparr>)" for x
    using start_roundtrip [of "startCondition r"] p by (auto simp: effect_def Let_def)
  have e6: "effect users KW_COMMAND (the (command r) @ (case params r of None \<Rightarrow> [] | Some ps \<Rightarrow> '' '' @ ps)) ?r5 = Some ?r6"
    using command_roundtrip [of r ?r5 users] p by (simp add: blank_rule_def)
  have e7: "effect users KW_END_COND (print_end (endCondition r)) x = Some (x\<lparr>endCondition := endCondition r\<rparr>)" for x
    using end_roundtrip [of "endCondition r"] p by (auto simp: effect_def Let_def)
  have e8: "effect users KW_END_COND_TIMEOUT (print_word (timeout r)) ?r7 = Some ?r8"
  proof -
    have "sint (timeout r) = - 1 \<Longrightarrow> timeout r = - 1" by (metis word_of_int_neg_1 word_of_sint_id)
    moreover have "is_wait (endCondition r) \<Longrightarrow> timeout r = - 1" using p by simp
    ultimately have "(if sint (timeout r) = - 1 \<or> is_wait (endCondition r) then - 1 else word_of_int (sint (timeout r))) = timeout r"
      by (metis word_of_sint_id)
    then show ?thesis by (simp add: effect_def split_beta)
  qed
  have e9: "effect users KW_FAILURE_ACTION (print_failure (failureAction r)) x = Some (x\<lparr>failureAction := failureAction r\<rparr>)" for x
    using failure_roundtrip [of "failureAction r"] p by (auto simp: effect_def Let_def)
  have ea: "effect users KW_ACTIVE (print_yes (ruleState r = PCD_RULE_ACTIVE)) ?r9 = Some ?ra"
    using p by (auto simp: effect_def split_beta yes Let_def)
  have last: "?ra = r" using p by (cases r) (simp add: blank_rule_def)
  note idx = keyword_positions
  have seven: "Suc (Suc (Suc (Suc (Suc (Suc 1))))) = 7" by simp
  have rest: "spec_run users (tl (rule_statements r) @ ss) (1, ?r1, es) = spec_run users ss (7, ?ra, es)" for es
    unfolding rule_statements_def list.sel append_Cons append_Nil seven [symmetric]
    apply (subst run_optional [OF _ e2], simp)
    apply (subst run_optional [OF _ e3], simp)
    apply (subst run_optional [OF _ user_roundtrip], simp)
    apply (subst run_mandatory [OF _ idx(2) _ e5], simp, simp)
    apply (subst run_mandatory [OF _ idx(3) _ e6 [unfolded append_Cons append_Nil]], simp, simp)
    apply (subst run_mandatory [OF _ idx(4) _ e7], simp, simp)
    apply (subst run_mandatory [OF _ idx(5) _ e8], simp, simp)
    apply (subst run_mandatory [OF _ idx(6) _ e9], simp, simp)
    apply (subst run_mandatory [OF _ idx(7) _ ea], simp, simp)
    by (rule refl)
  have hd: "rule_statements r @ ss
    = (KW_RULE, print_id (ruleId r) @ (if indexed r then ''$'' else [])) # (tl (rule_statements r) @ ss)"
    by (simp add: rule_statements_def)
  show "spec_run users (rule_statements r @ ss) (0, blank_rule, ds) = spec_run users ss (7, r, ds)"
    unfolding hd using run_mandatory [OF _ idx(1) _ e1] rest [of ds] unfolding last by simp
  show "spec_run users (rule_statements r @ ss) (7, q, ds) = spec_run users ss (7, r, ds @ [q])"
    unfolding hd run_next_rule [OF e1] rest last by (rule refl)
qed

end
