(* ===== verification/PcdRoundTrip.thy ===== *)
theory PcdRoundTrip imports PcdRulesFile begin

text \<open>
  A file printed from rules is read back as these rules: every printed line is split into the
  keyword and the value it was printed from, and the parser turns the statements into the rules.
\<close>

section \<open>Printed values\<close>

lemma solid_value: "solid w \<Longrightarrow> value_text w"
  unfolding solid_def value_text_def using plain_not_special [of "hd w"] plain_not_special [of "last w"]
    plain_not_special(2-4) by auto

lemma value_append_solid:
  assumes "value_text v" and "solid w"
  shows "value_text (v @ CHR '' '' # w)"
proof -
  have "\<forall>c \<in> set w. c \<notin> {LF, NUL, CHR ''#''}" using assms(2) plain_not_special(2-4) unfolding solid_def by auto
  moreover have "CHR '' '' \<notin> {LF, NUL, CHR ''#''}" by code_simp
  moreover have "\<not> isspace (last w)" "w \<noteq> []" using assms(2) plain_not_special(8) [of "last w"] by (simp_all add: solid_def)
  ultimately show ?thesis using assms(1) unfolding value_text_def by (auto simp: hd_append)
qed

lemma value_keyword:
  assumes "k \<in> set (startCondKeywords @ endCondKeywords @ failureActionKeywords @ [''FIFO'', ''NICE'', ''YES'', ''NO''])"
  shows "value_text k" "solid w \<Longrightarrow> value_text (k @ CHR '' '' # w)"
proof -
  show k: "value_text k" using solid_keywords assms by (intro solid_value) (rule bspec)
  show "solid w \<Longrightarrow> value_text (k @ CHR '' '' # w)" by (rule value_append_solid [OF k])
qed

lemma value_print_ids:
  assumes "value_text k" and "\<forall>c \<in> set cs. good_id (rc_id c)"
  shows "value_text (k @ print_ids cs)"
  using assms(2)
proof (induction cs rule: rev_induct)
  case (snoc c cs)
  then have "value_text ((k @ print_ids cs) @ CHR '' '' # print_id (rc_id c))"
    by (intro value_append_solid solid_id) simp_all
  then show ?case by (simp add: print_ids_def)
qed (simp add: assms(1))

lemmas keyword_lists = startCondKeywords_def endCondKeywords_def failureActionKeywords_def

lemma value_print_start:
  assumes "good_start c"
  shows "value_text (print_start c)"
proof (cases c)
  case (START_RULE_COMPLETED cs)
  have "value_text ''RULE_COMPLETED''" by (rule value_keyword(1)) (simp add: keyword_lists)
  from value_print_ids [OF this, of cs] START_RULE_COMPLETED assms show ?thesis by simp
next
  case (START_ENV_VAR n v)
  then have s: "solid n" "solid v" using assms by (simp_all add: word_def)
  have "value_text (''ENV_VAR'' @ CHR '' '' # n)" using s(1) by (intro value_keyword(2)) (simp_all add: keyword_lists)
  from value_append_solid [OF this s(2)] START_ENV_VAR show ?thesis by simp
next
  case (START_NETDEVICE d)
  with assms value_keyword(2) [of "''NETDEVICE''" d] show ?thesis by (simp add: word_def keyword_lists)
next
  case (START_FILE f)
  with assms value_keyword(2) [of "''FILE''" f] show ?thesis by (simp add: word_def keyword_lists)
next
  case START_NONE
  with value_keyword(1) [of "''NONE''"] show ?thesis by (simp add: keyword_lists)
next
  case (START_IPC_OWNER w)
  with value_keyword(2) [of "''IPC_OWNER''" "print_word w"] show ?thesis by (simp add: solid_print_word keyword_lists)
qed

lemma value_print_end:
  assumes "good_end c"
  shows "value_text (print_end c)"
proof -
  note v = value_keyword [unfolded keyword_lists]
  show ?thesis
    using assms v(1) [of "''NONE''"] v(1) [of "''PROCESS_READY''"] v(2) [of "''FILE''"] v(2) [of "''EXIT''"]
      v(2) [of "''NETDEVICE''"] v(2) [of "''IPC_OWNER''"] v(2) [of "''WAIT''"] solid_print_word
    by (cases c) (simp_all add: word_def)
qed

lemma value_print_failure:
  assumes "good_failure c"
  shows "value_text (print_failure c)"
proof -
  note v = value_keyword [unfolded keyword_lists]
  show ?thesis
    using assms v(1) [of "''NONE''"] v(1) [of "''REBOOT''"] v(1) [of "''RESTART''"] v(2) [of "''EXEC_RULE''"] solid_id
    by (cases c) simp_all
qed

lemma value_print_sched: "value_text (print_sched c)"
proof -
  note v = value_keyword [unfolded keyword_lists]
  show ?thesis using v(2) [of "''FIFO''"] v(2) [of "''NICE''"] solid_print_word solid_int_str by (cases c) simp_all
qed

lemma value_print_yes: "value_text (print_yes b)"
  using value_keyword(1) [of "print_yes b"] by (simp add: print_yes_def)

lemma value_print_rule:
  assumes "good_id rid"
  shows "value_text (print_id rid @ (if ix then ''$'' else []))"
proof -
  have "solid ''$''" by code_simp
  then show ?thesis using solid_append [OF solid_id [OF assms]] solid_id [OF assms] by (intro solid_value) simp
qed

lemma value_print_command:
  assumes "good_command r"
  shows "value_text (the (command r) @ (case params r of None \<Rightarrow> [] | Some ps \<Rightarrow> '' '' @ ps))"
  using assms by (auto simp: good_command_def split: option.splits)

lemma rule_statements_values:
  assumes "printable r" and "s \<in> set (rule_statements r)"
  shows "value_text (snd s)"
proof -
  note p = assms(1) [unfolded printable_def]
  have "\<forall>s \<in> set (rule_statements r). value_text (snd s)"
    unfolding rule_statements_def
    by (intro ballI; elim set_ConsD [elim_format] disjE)
      (use p value_print_rule value_print_sched value_print_yes solid_value [OF solid_int_str] value_print_start
        value_print_command value_print_end solid_value [OF solid_print_word] value_print_failure in simp_all)
  with assms(2) show ?thesis by blast
qed

section \<open>Printed lines\<close>

definition token_text :: "string \<Rightarrow> bool" where
  "token_text w \<longleftrightarrow> w \<noteq> [] \<and> (\<forall>c \<in> set w. c \<notin> {NUL, LF, CHR ''#'', CHR '' '', TAB, CHR ''=''})"

lemma takeWhile_all: "\<forall>c \<in> set s. P c \<Longrightarrow> \<not> P d \<Longrightarrow> takeWhile P (s @ d # t) = s"
  "\<forall>c \<in> set s. P c \<Longrightarrow> takeWhile P s = s" "\<forall>c \<in> set s. P c \<Longrightarrow> \<not> P d \<Longrightarrow> dropWhile P (s @ d # t) = d # t"
  by (induction s) auto

lemma split_printed:
  assumes k: "token_text k" and v: "value_text v"
  shows "split_line (k @ '' = '' @ v @ [LF]) = Some (k, v)"
proof -
  let ?ws = "[CHR '' '', TAB, CHR ''='']" and ?s = "k @ '' = '' @ v"
  have d: "LF \<noteq> NUL" by code_simp
  have "\<forall>c \<in> set '' = ''. c \<notin> {LF, NUL, CHR ''#''}" by code_simp
  then have s: "\<forall>c \<in> set ?s. c \<notin> {LF, NUL, CHR ''#''}"
    using k v unfolding token_text_def value_text_def set_append ball_Un by blast
  have "cut_at NUL (?s @ [LF]) = ?s @ [LF]" "cut_at LF (?s @ [LF]) = ?s" "cut_at (CHR ''#'') ?s = ?s"
    unfolding cut_at_def using s d by (intro takeWhile_all; auto)+
  then have b: "cut_at (CHR ''#'') (cut_at LF (cut_at NUL (k @ '' = '' @ v @ [LF]))) = ?s" by simp
  have "hd k \<notin> {CHR '' '', TAB}" using k unfolding token_text_def by (cases k) auto
  then have t: "skip_span [CHR '' '', TAB] ?s = ?s" using k unfolding token_text_def skip_span_def by (cases k) auto
  have kw: "\<forall>c \<in> set k. c \<notin> set ?ws" using k unfolding token_text_def by auto
  have "skip_cspan ?ws (k @ CHR '' '' # ''= '' @ v) = CHR '' '' # ''= '' @ v"
    unfolding skip_cspan_def by (rule takeWhile_all(3)) (use kw in simp_all)
  then have l: "skip_cspan ?ws ?s = '' = '' @ v" by simp
  have "cspan ?ws (k @ CHR '' '' # ''= '' @ v) = k"
    unfolding cspan_def by (rule takeWhile_all(1)) (use kw in simp_all)
  then have c: "cspan ?ws ?s = k" by simp
  have "v \<noteq> []" "hd v \<notin> {CHR '' '', TAB, CHR ''=''}" using v by (simp_all add: value_text_def)
  then have "skip_span ?ws (''= '' @ v) = v" unfolding skip_span_def by (cases v) auto
  moreover have "trim_end v = v"
    using v unfolding value_text_def trim_end_def by (cases v rule: rev_cases) auto
  ultimately have e: "trim_end (skip_span ?ws (drop 1 ('' = '' @ v))) = v" by simp
  have "?s \<noteq> []" "'' = '' @ v \<noteq> []" by simp_all
  then show ?thesis unfolding split_line_def b t l c e Let_def by (simp only: if_False simp_thms)
qed

lemma name_token: "token_text (kw_name k)"
  by (cases k; simp only:; code_simp)

lemma find_keyword: "find (\<lambda>k. strcaseeq (kw_name a) (kw_name k)) keywordHandlersList = Some a"
proof -
  have "strcaseeq (kw_name a) (kw_name k) \<longleftrightarrow> a = k" for k by (simp add: strcaseeq_def tolower_name kw_lower_eq)
  moreover have "find ((=) a) keywordHandlersList = Some a" by (cases a) (simp_all add: keywordHandlersList_def)
  ultimately show ?thesis by simp
qed

lemma statement_printed:
  assumes "value_text (snd s)"
  shows "statement (print_stmt s @ [LF]) = Some s"
  using split_printed [OF name_token assms, of "fst s"] by (simp add: statement_def print_stmt_def find_keyword)

lemma statements_printed:
  assumes "\<forall>s \<in> set ss. value_text (snd s)"
  shows "statements (map (\<lambda>l. l @ [LF]) (map print_stmt ss)) = ss"
  using assms statement_printed by (induction ss) auto

lemma printed_line:
  assumes "value_text (snd s)"
  shows "LF \<notin> set (print_stmt s)"
proof -
  have "LF \<notin> set (kw_name (fst s))" using name_token [of "fst s"] by (auto simp: token_text_def)
  moreover have "LF \<notin> set '' = ''" by code_simp
  moreover have "LF \<notin> set (snd s)" using assms by (auto simp: value_text_def)
  ultimately show ?thesis unfolding print_stmt_def set_append by blast
qed

lemma statement_comment: "statement (CHR ''#'' # l) = None"
proof -
  have "CHR ''#'' \<noteq> NUL" "CHR ''#'' \<noteq> LF" by code_simp+
  then show ?thesis by (simp add: statement_def split_line_def cut_at_def skip_span_def Let_def)
qed

section \<open>Printed files\<close>

lemma statements_rules_text:
  assumes "\<forall>r \<in> set rs. printable r"
  shows "statements (file_lines (rules_text rs)) = concat (map rule_statements rs)"
proof -
  let ?ss = "concat (map rule_statements rs)"
  have v: "\<forall>s \<in> set ?ss. value_text (snd s)" using assms rule_statements_values by auto
  have "length (print_stmt s) < 255" if "s \<in> set ?ss" for s using assms that by (auto simp: printable_def)
  with v printed_line have "\<forall>l \<in> set (map print_stmt ?ss). LF \<notin> set l \<and> length l < 255" by auto
  from file_lines_print [OF this] statements_printed [OF v] show ?thesis by (simp only: rules_text_def)
qed

lemma rules_run:
  assumes "\<forall>r \<in> set rs. printable r"
  shows "spec_run users (concat (map rule_statements rs)) (7, q, ds) = (True, (7, last (q # rs), ds @ butlast (q # rs)))"
  using assms
proof (induction rs arbitrary: q ds)
  case (Cons r rs)
  then show ?case using rule_statements_run(2) [of r users "concat (map rule_statements rs)" q ds] by simp
qed simp

lemma spec_rules_text:
  assumes "\<forall>r \<in> set rs. printable r"
  shows "spec_file users (concat (map rule_statements rs)) = (True, rs)"
proof (cases rs)
  case (Cons r rs')
  then show ?thesis using assms rule_statements_run(1) [of r users "concat (map rule_statements rs')" "[]"] rules_run [of rs' users r "[]"]
    by (simp add: spec_file_def spec_end_def append_butlast_last_id [of "r # rs'"] del: last.simps butlast.simps)
qed (simp add: spec_file_def spec_end_def)

lemma no_include: "s \<in> set (rule_statements r) \<Longrightarrow> fst s \<noteq> KW_INCLUDE"
  by (auto simp: rule_statements_def)

text \<open>C11: A file that is printed from rules is read back: the parser returns success, and the rules
  database, empty before, holds exactly these rules under their identifiers (of rules that share an
  identifier, the first).\<close>

theorem print_parse_roundtrip:
  assumes "\<forall>r \<in> set rs. printable r" and "files f = Some (rules_text rs)" and "groups db0 = []"
  shows "\<exists>st. PCD_parser_parse (Suc depth) files users f (parser_init db0) = Inr (PCD_STATUS_OK, st)
    \<and> stored (rulesdb st) = rule_map rs \<and> totalRuleRecords st = of_nat (length rs)"
proof -
  have "\<forall>s \<in> set (statements (file_lines (rules_text rs))). fst s \<noteq> KW_INCLUDE"
    using no_include by (auto simp: statements_rules_text [OF assms(1)] simp del: split_paired_All)
  from parse_equals_spec [where files = files, OF assms(2) this, of users True rs depth db0] show ?thesis
    using stored_add_all(2) [OF stored_empty(2) [OF assms(3)], of rs] stored_empty(1) [OF assms(3)]
    by (auto simp: statements_rules_text [OF assms(1)] spec_rules_text [OF assms(1)])
qed

text \<open>Two rules with every kind of white space, a number, and a condition on each other.\<close>

definition net_rule :: rule where
  "net_rule = blank_rule\<lparr>ruleId := \<lparr>groupName = ''NET'', ruleName = ''ETH0''\<rparr>, sched := PCD_SCHED_TYPE_FIFO 20,
     daemon := True, uid := 1000, startCondition := START_FILE ''/dev/eth'', command := Some ''/sbin/ifup'',
     params := Some ''eth0 -v'', endCondition := END_EXIT 0, timeout := 30, failureAction := FAIL_REBOOT,
     ruleState := PCD_RULE_ACTIVE\<rparr>"

definition app_rule :: rule where
  "app_rule = blank_rule\<lparr>ruleId := \<lparr>groupName = ''APP'', ruleName = ''W''\<rparr>, indexed := True,
     sched := PCD_SCHED_TYPE_NICE (- 5), startCondition := START_RULE_COMPLETED [\<lparr>rc_rule = None, rc_id = ruleId net_rule\<rparr>],
     command := Some ''/bin/app'', endCondition := END_WAIT 500 500, timeout := - 1,
     failureAction := FAIL_EXEC_RULE (ruleId net_rule), ruleState := PCD_RULE_IDLE\<rparr>"

lemma sample_printable: "printable net_rule" "printable app_rule"
  by code_simp+

theorem print_parse_roundtrip_witness:
  "\<exists>st. PCD_parser_parse 1 [''/etc/rules.pcd'' \<mapsto> rules_text [net_rule, app_rule]] Map.empty ''/etc/rules.pcd''
      (parser_init pcd_init) = Inr (PCD_STATUS_OK, st)
    \<and> stored (rulesdb st) = rule_map [net_rule, app_rule] \<and> totalRuleRecords st = of_nat (length [net_rule, app_rule])"
  unfolding One_nat_def
  by (rule print_parse_roundtrip) (use sample_printable in \<open>simp_all add: pcd_init_def\<close>)

end
