(* ===== verification/PcdShipped.thy ===== *)
theory PcdShipped imports PcdRoundTrip begin

text \<open>
  The rules file \<open>config/system.pcd\<close> that the platform ships, and what the daemon makes of it.
\<close>

section \<open>The file\<close>

text \<open>Its lines; each ends in a carriage return and a line feed.\<close>

definition system_lines :: "string list" where
  "system_lines =
   [''#################################################################'',
    ''# system.pcd: Example PCD script for system services startup'',
    ''#'',
    ''#################################################################'',
    ''RULE = SYSTEM_APPMANAGER'',
    ''START_COND = NONE'',
    ''#START_COND = RULE_COMPLETED,SYSTEM_TIMER,SYSTEM_INIT,SYSTEM_LOGGER'',
    ''COMMAND = sudo /home/melharrar/Projects/cyber-platform-april-24/bins/app_manager --config-file /home/melharrar/Projects/cyber-platform-april-24/config/ressources.json'',
    ''#SCHED = FIFO,99'',
    ''DAEMON = YES'',
    ''#END_COND = PROCESS_READY'',
    ''END_COND = WAIT 5000'',
    ''END_COND_TIMEOUT = -1'',
    ''FAILURE_ACTION = RESTART'',
    ''ACTIVE = YES'',
    ''#################################################################'',
    ''RULE = SYSTEM_DISPATCHER_1'',
    ''START_COND = RULE_COMPLETED SYSTEM_APPMANAGER'',
    ''#START_COND = NONE'',
    ''COMMAND = sudo /home/melharrar/Projects/cyber-platform-april-24/bins/dispatcher --config-file /home/melharrar/Projects/cyber-platform-april-24/config/dispatcher_1.json'',
    ''#SCHED = FIFO,99'',
    ''DAEMON = YES'',
    ''END_COND = PROCESS_READY'',
    ''END_COND_TIMEOUT = -1'',
    ''FAILURE_ACTION = RESTART'',
    ''ACTIVE = YES'',
    '''']"

definition CR :: char where "CR = CHR 0x0D"

definition system_pcd :: string where
  "system_pcd = concat (map (\<lambda>l. l @ [LF]) (map (\<lambda>l. l @ [CR]) system_lines))"

definition appmanager_rule :: rule where
  "appmanager_rule = blank_rule\<lparr>ruleId := \<lparr>groupName = ''SYSTEM'', ruleName = ''APPMANAGER''\<rparr>,
     daemon := True, startCondition := START_NONE, command := Some ''sudo'',
     params := Some (''/home/melharrar/Projects/cyber-platform-april-24/bins/app_manager --config-file ''
       @ ''/home/melharrar/Projects/cyber-platform-april-24/config/ressources.json''),
     endCondition := END_WAIT 5000 5000, timeout := - 1, failureAction := FAIL_RESTART,
     ruleState := PCD_RULE_ACTIVE\<rparr>"

definition dispatcher_rule :: rule where
  "dispatcher_rule = blank_rule\<lparr>ruleId := \<lparr>groupName = ''SYSTEM'', ruleName = ''DISPATCHER_1''\<rparr>,
     daemon := True, startCondition := START_RULE_COMPLETED [\<lparr>rc_rule = None, rc_id = ruleId appmanager_rule\<rparr>],
     command := Some ''sudo'',
     params := Some (''/home/melharrar/Projects/cyber-platform-april-24/bins/dispatcher --config-file ''
       @ ''/home/melharrar/Projects/cyber-platform-april-24/config/dispatcher_1.json''),
     endCondition := END_PROCESS_READY False, timeout := - 1, failureAction := FAIL_RESTART,
     ruleState := PCD_RULE_ACTIVE\<rparr>"

lemma system_lines_fit: "\<forall>l \<in> set (map (\<lambda>l. l @ [CR]) system_lines). LF \<notin> set l \<and> length l < 255"
  by code_simp

definition system_statements :: "(parserKeywords_e \<times> string) list" where
  "system_statements =
     [(KW_RULE, ''SYSTEM_APPMANAGER''), (KW_START_COND, ''NONE''),
      (KW_COMMAND, ''sudo '' @ the (params appmanager_rule)), (KW_DAEMON, ''YES''), (KW_END_COND, ''WAIT 5000''),
      (KW_END_COND_TIMEOUT, ''-1''), (KW_FAILURE_ACTION, ''RESTART''), (KW_ACTIVE, ''YES''),
      (KW_RULE, ''SYSTEM_DISPATCHER_1''), (KW_START_COND, ''RULE_COMPLETED SYSTEM_APPMANAGER''),
      (KW_COMMAND, ''sudo '' @ the (params dispatcher_rule)), (KW_DAEMON, ''YES''), (KW_END_COND, ''PROCESS_READY''),
      (KW_END_COND_TIMEOUT, ''-1''), (KW_FAILURE_ACTION, ''RESTART''), (KW_ACTIVE, ''YES'')]"

lemma statement_lines:
  "statement ((''RULE = SYSTEM_APPMANAGER'' @ [CR]) @ [LF]) = Some (KW_RULE, ''SYSTEM_APPMANAGER'')"
  "statement ((''START_COND = NONE'' @ [CR]) @ [LF]) = Some (KW_START_COND, ''NONE'')"
  "statement ((''COMMAND = sudo /home/melharrar/Projects/cyber-platform-april-24/bins/app_manager --config-file /home/melharrar/Projects/cyber-platform-april-24/config/ressources.json'' @ [CR]) @ [LF])
    = Some (KW_COMMAND, ''sudo '' @ the (params appmanager_rule))"
  "statement ((''DAEMON = YES'' @ [CR]) @ [LF]) = Some (KW_DAEMON, ''YES'')"
  "statement ((''END_COND = WAIT 5000'' @ [CR]) @ [LF]) = Some (KW_END_COND, ''WAIT 5000'')"
  "statement ((''END_COND_TIMEOUT = -1'' @ [CR]) @ [LF]) = Some (KW_END_COND_TIMEOUT, ''-1'')"
  "statement ((''FAILURE_ACTION = RESTART'' @ [CR]) @ [LF]) = Some (KW_FAILURE_ACTION, ''RESTART'')"
  "statement ((''ACTIVE = YES'' @ [CR]) @ [LF]) = Some (KW_ACTIVE, ''YES'')"
  "statement ((''RULE = SYSTEM_DISPATCHER_1'' @ [CR]) @ [LF]) = Some (KW_RULE, ''SYSTEM_DISPATCHER_1'')"
  "statement ((''START_COND = RULE_COMPLETED SYSTEM_APPMANAGER'' @ [CR]) @ [LF])
    = Some (KW_START_COND, ''RULE_COMPLETED SYSTEM_APPMANAGER'')"
  "statement ((''COMMAND = sudo /home/melharrar/Projects/cyber-platform-april-24/bins/dispatcher --config-file /home/melharrar/Projects/cyber-platform-april-24/config/dispatcher_1.json'' @ [CR]) @ [LF])
    = Some (KW_COMMAND, ''sudo '' @ the (params dispatcher_rule))"
  "statement ((''END_COND = PROCESS_READY'' @ [CR]) @ [LF]) = Some (KW_END_COND, ''PROCESS_READY'')"
  "statement (([] @ [CR]) @ [LF]) = None"
  by code_simp+

lemma comment_line: "statement (((CHR ''#'' # l) @ [CR]) @ [LF]) = None"
  using statement_comment by simp

lemma statements_map:
  "map (\<lambda>l. statement ((l @ [CR]) @ [LF])) ls = os
    \<Longrightarrow> statements (map (\<lambda>l. l @ [LF]) (map (\<lambda>l. l @ [CR]) ls)) = List.map_filter id os"
  by (auto simp: statements_def List.map_filter_def comp_def filter_map)

lemma map_filter_id:
  "List.map_filter id [] = []" "List.map_filter id (None # os) = List.map_filter id os"
  "List.map_filter id (Some x # os) = x # List.map_filter id os"
  by (simp_all add: List.map_filter_simps)

lemma system_lines_map: "List.map_filter id (map (\<lambda>l. statement ((l @ [CR]) @ [LF])) system_lines) = system_statements"
  unfolding system_lines_def system_statements_def
  by (simp only: list.map statement_lines comment_line map_filter_id)

lemma system_statements_eq: "statements (map (\<lambda>l. l @ [LF]) (map (\<lambda>l. l @ [CR]) system_lines)) = system_statements"
  unfolding statements_map [OF refl] by (rule system_lines_map)

section \<open>Its rules\<close>

lemma system_numbers: "atoi ''5000'' = 5000" "atoi ''-1'' = - 1"
proof -
  have d: "\<forall>c \<in> set ''0123456789''. isdigit c" by code_simp
  have s: "signed_text ''5000'' = (False, ''5000'')" "signed_text ''-1'' = (True, ''1'')" by code_simp+
  have "number_in 10 ''5000'' = 5000" "number_in 10 ''1'' = 1" using d by (simp_all add: number_in_def)
  with s show "atoi ''5000'' = 5000" "atoi ''-1'' = - 1" by (simp_all add: atoi_def)
qed

lemma system_effects:
  "effect users KW_RULE ''SYSTEM_APPMANAGER'' blank_rule = Some (blank_rule\<lparr>ruleId := ruleId appmanager_rule\<rparr>)"
  "effect users KW_RULE ''SYSTEM_DISPATCHER_1'' blank_rule = Some (blank_rule\<lparr>ruleId := ruleId dispatcher_rule\<rparr>)"
  "effect users KW_START_COND ''NONE'' r = Some (r\<lparr>startCondition := START_NONE\<rparr>)"
  "effect users KW_START_COND ''RULE_COMPLETED SYSTEM_APPMANAGER'' r = Some (r\<lparr>startCondition := startCondition dispatcher_rule\<rparr>)"
  "effect users KW_COMMAND (''sudo '' @ the (params appmanager_rule)) r
    = Some (r\<lparr>params := params appmanager_rule, command := Some ''sudo''\<rparr>)"
  "effect users KW_COMMAND (''sudo '' @ the (params dispatcher_rule)) r
    = Some (r\<lparr>params := params dispatcher_rule, command := Some ''sudo''\<rparr>)"
  "effect users KW_DAEMON ''YES'' r = Some (r\<lparr>daemon := True\<rparr>)"
  "effect users KW_END_COND ''PROCESS_READY'' r = Some (r\<lparr>endCondition := END_PROCESS_READY False\<rparr>)"
  "effect users KW_FAILURE_ACTION ''RESTART'' r = Some (r\<lparr>failureAction := FAIL_RESTART\<rparr>)"
  "effect users KW_ACTIVE ''YES'' r = Some (r\<lparr>ruleState := PCD_RULE_ACTIVE\<rparr>)"
  by code_simp+

lemma system_timings:
  "effect users KW_END_COND_TIMEOUT ''-1'' r = Some (r\<lparr>timeout := - 1\<rparr>)"
  "effect users KW_END_COND ''WAIT 5000'' r = Some (r\<lparr>endCondition := END_WAIT 5000 5000\<rparr>)"
proof -
  show "effect users KW_END_COND_TIMEOUT ''-1'' r = Some (r\<lparr>timeout := - 1\<rparr>)"
    by (simp add: effect_def split_beta system_numbers)
  have "strtok PCD_PARSER_DELIMITERS ''WAIT 5000'' = (Some ''WAIT'', ''5000'')"
    "strtok PCD_PARSER_DELIMITERS ''5000'' = (Some ''5000'', [])" by code_simp+
  then show "effect users KW_END_COND ''WAIT 5000'' r = Some (r\<lparr>endCondition := END_WAIT 5000 5000\<rparr>)"
    by (simp add: effect_def endCondKeywords_def parse_end_cond_def system_numbers)
qed

lemma system_spec: "spec_file users system_statements = (True, [appmanager_rule, dispatcher_rule])"
proof -
  note e = system_effects [of users] and t = system_timings [of users] and k = keyword_positions
  have seven: "Suc (Suc (Suc (Suc (Suc (Suc 1))))) = 7" by simp
  have "spec_run users system_statements (0, blank_rule, []) = (True, (7, dispatcher_rule, [appmanager_rule]))"
    unfolding system_statements_def
    apply (subst run_mandatory [OF _ k(1) _ e(1)], simp, simp, unfold One_nat_def [symmetric])
    apply (subst run_mandatory [OF _ k(2) _ e(3)], simp, simp)
    apply (subst run_mandatory [OF _ k(3) _ e(5)], simp, simp)
    apply (subst run_optional [OF _ e(7)], simp)
    apply (subst run_mandatory [OF _ k(4) _ t(2)], simp, simp)
    apply (subst run_mandatory [OF _ k(5) _ t(1)], simp, simp)
    apply (subst run_mandatory [OF _ k(6) _ e(9)], simp, simp)
    apply (subst run_mandatory [OF _ k(7) _ e(10)], simp, simp, unfold seven)
    apply (subst run_next_rule [OF e(2)])
    apply (subst run_mandatory [OF _ k(2) _ e(4)], simp, simp)
    apply (subst run_mandatory [OF _ k(3) _ e(6)], simp, simp)
    apply (subst run_optional [OF _ e(7)], simp)
    apply (subst run_mandatory [OF _ k(4) _ e(8)], simp, simp)
    apply (subst run_mandatory [OF _ k(5) _ t(1)], simp, simp)
    apply (subst run_mandatory [OF _ k(6) _ e(9)], simp, simp)
    apply (subst run_mandatory [OF _ k(7) _ e(10)], simp, simp, unfold seven)
    by (simp add: appmanager_rule_def dispatcher_rule_def blank_rule_def)
  then show ?thesis by (simp add: spec_file_def spec_end_def)
qed

section \<open>What the parser makes of it\<close>

lemma system_rule_map:
  "rule_map [appmanager_rule, dispatcher_rule]
    = [ruleId appmanager_rule \<mapsto> appmanager_rule, ruleId dispatcher_rule \<mapsto> dispatcher_rule]"
  by (simp add: rule_map_def fun_eq_iff appmanager_rule_def dispatcher_rule_def)

lemma system_statements_file:
  "statements (file_lines system_pcd) = system_statements" "\<forall>s \<in> set system_statements. fst s \<noteq> KW_INCLUDE"
  unfolding system_pcd_def file_lines_print [OF system_lines_fit]
  by (rule system_statements_eq) (simp add: system_statements_def)

lemma shipped_parsed:
  assumes "files f = Some system_pcd"
  shows "\<exists>st. PCD_parser_parse (Suc depth) files users f (parser_init db0) = Inr (PCD_STATUS_OK, st)
    \<and> rulesdb st = add_all [appmanager_rule, dispatcher_rule] db0 \<and> totalRuleRecords st = 2"
proof -
  show ?thesis
    using parse_equals_spec [where files = files, OF assms, of users True "[appmanager_rule, dispatcher_rule]" depth db0]
    by (simp add: system_spec system_statements_file)
qed

text \<open>C14: From the rules file that the platform ships the parser builds exactly two rules, the one of the
  application manager and the one of the dispatcher, which waits for the completion of the first.\<close>

theorem shipped_rules_loaded:
  assumes "files f = Some system_pcd" and "groups db0 = []"
  shows "\<exists>st. PCD_parser_parse (Suc depth) files users f (parser_init db0) = Inr (PCD_STATUS_OK, st)
    \<and> stored (rulesdb st) = [ruleId appmanager_rule \<mapsto> appmanager_rule, ruleId dispatcher_rule \<mapsto> dispatcher_rule]
    \<and> totalRuleRecords st = 2"
  using shipped_parsed [where files = files, OF assms(1), of depth users db0] stored_add_all(2) [OF stored_empty(2) [OF assms(2)]]
    stored_empty(1) [OF assms(2)] system_rule_map by auto

theorem shipped_rules_loaded_witness:
  "\<exists>st. PCD_parser_parse 1 [''config/system.pcd'' \<mapsto> system_pcd] Map.empty ''config/system.pcd'' (parser_init pcd_init)
      = Inr (PCD_STATUS_OK, st)
    \<and> stored (rulesdb st) = [ruleId appmanager_rule \<mapsto> appmanager_rule, ruleId dispatcher_rule \<mapsto> dispatcher_rule]
    \<and> totalRuleRecords st = 2"
  unfolding One_nat_def by (rule shipped_rules_loaded) (simp_all add: pcd_init_def)

section \<open>The parser in general, with the shipped file as an example\<close>

text \<open>C10: On a file without includes the parser is the reference: it reports success exactly when the
  reference does, and adds the rules of the reference to the database, in their order.\<close>

theorem parser_equals_reference:
  assumes "files f = Some content" and "\<forall>s \<in> set (statements (file_lines content)). fst s \<noteq> KW_INCLUDE"
    and "spec_file users (statements (file_lines content)) = (ok, rs)"
  shows "\<exists>st. PCD_parser_parse (Suc depth) files users f (parser_init db0)
      = Inr (if ok then PCD_STATUS_OK else PCD_STATUS_NOK, st)
    \<and> rulesdb st = add_all rs db0 \<and> totalRuleRecords st = of_nat (length rs)"
  by (rule parse_equals_spec [where files = files, OF assms])

theorem parser_equals_reference_witness:
  "\<exists>st. PCD_parser_parse 1 [''system.pcd'' \<mapsto> system_pcd] Map.empty ''system.pcd'' (parser_init pcd_init)
      = Inr (PCD_STATUS_OK, st)
    \<and> rulesdb st = add_all [appmanager_rule, dispatcher_rule] pcd_init \<and> totalRuleRecords st = of_nat 2"
  using parser_equals_reference [of "[''system.pcd'' \<mapsto> system_pcd]" "''system.pcd''" system_pcd Map.empty True
      "[appmanager_rule, dispatcher_rule]" 0 pcd_init] system_spec
  by (simp add: system_statements_file numeral_2_eq_2)

text \<open>C12: Whatever the files contain, includes and errors too: the database that the parser leaves behind
  is well-formed, every rule in it is complete (a command, no process, idle or to be started, no
  cached pointers), and the rest of the daemon's state is as it was.\<close>

theorem parser_builds_wellformed_db:
  assumes "PCD_parser_parse depth files users filename (parser_init db0) = Inr (s, st)" and "groups db0 = []"
  shows "db_ok (rulesdb st) \<and> (\<forall>a \<in> set (db_rules (rulesdb st)). complete_rule (rules (rulesdb st) a))
    \<and> rest_of (rulesdb st) = rest_of db0"
proof -
  have "db_ok db0" "db_rules db0 = []" using assms(2) by (simp_all add: db_ok_def db_rules_def)
  from parse_ok [OF assms(1) this] show ?thesis by (simp add: parser_ok_def db_grown_def)
qed

theorem parser_builds_wellformed_db_witness:
  "\<exists>st. PCD_parser_parse 1 [''system.pcd'' \<mapsto> system_pcd] Map.empty ''system.pcd'' (parser_init pcd_init)
      = Inr (PCD_STATUS_OK, st)
    \<and> db_ok (rulesdb st) \<and> (\<forall>a \<in> set (db_rules (rulesdb st)). complete_rule (rules (rulesdb st) a))
    \<and> rest_of (rulesdb st) = rest_of pcd_init"
proof -
  have f: "[''system.pcd'' \<mapsto> system_pcd] ''system.pcd'' = Some system_pcd" by simp
  from shipped_parsed [where files = "[''system.pcd'' \<mapsto> system_pcd]", OF f, of 0 Map.empty pcd_init] obtain st where
    st: "PCD_parser_parse 1 [''system.pcd'' \<mapsto> system_pcd] Map.empty ''system.pcd'' (parser_init pcd_init)
      = Inr (PCD_STATUS_OK, st)" by auto
  have "groups pcd_init = []" by (simp add: pcd_init_def)
  from parser_builds_wellformed_db [OF st this] st show ?thesis by blast
qed

end
