(* ===== verification/PcdBoot.thy ===== *)
theory PcdBoot imports PcdShipped begin

text \<open>
  The daemon from its command line to its main loop: \<open>main\<close> of \<open>pcd/src/main.c\<close>, with the parser as the
  source of the rules database.  A daemon that starts from a rules file keeps the invariant of theory
  PcdInv and never crashes; what the daemon does with the rules file that the platform ships.
\<close>

section \<open>The main program\<close>

text \<open>The call of the parser in \<open>PCD_main_init\<close>; the parser's own variables have their static values.\<close>

definition parse_rules ::
  "nat \<Rightarrow> (string \<Rightarrow> string option) \<Rightarrow> (string \<Rightarrow> u32 option) \<Rightarrow> string option \<Rightarrow> pcd \<Rightarrow> (PCD_status \<times> pcd) run" where
  "parse_rules depth files users filename st =
     bind_run (deref filename) (\<lambda>f.
     bind_run (PCD_parser_parse depth files users f (parser_init st)) (\<lambda>(s, p). Inr (s, rulesdb p)))"

text \<open>What \<open>main\<close> meets besides its arguments.\<close>

record boot_env =
  other_pid :: int
  daemon_ret :: int
  api_ok :: bool
  exc_ok :: bool
  boot_files :: "string \<Rightarrow> string option"
  boot_users :: "string \<Rightarrow> u32 option"
  boot_misc :: misc_state

definition loop_start :: "misc_state \<Rightarrow> pcd \<Rightarrow> main_state" where
  "loop_start ms st = \<lparr>core = st, misc = ms, sent = [], freed_msgs = [], tickCounter = PCD_PROCESS_TICK\<rparr>"

text \<open>\<open>main\<close> up to the first iteration of the loop; \<open>depth\<close> bounds the nesting of included files.\<close>

definition PCD_main :: "nat \<Rightarrow> boot_env \<Rightarrow> (char \<times> string) list \<Rightarrow> main_state run" where
  "PCD_main depth env opts =
     (if other_pid env > 0 then Inl (Exited 1)
      else if daemon_ret env < 0 then Inl (Exited 1)
      else bind_run (PCD_main_parse_params atoi opts default_options) (\<lambda>os.
        if rulesFilename os = None \<and> \<not> crashDaemonMode os then Inl (Exited 1)
        else bind_run (PCD_main_init (parse_rules depth (boot_files env) (boot_users env)) (api_ok env) (exc_ok env) os
            (pcd_init\<lparr>timerTick := PCD_TIMER_TICK os\<rparr>))
          (\<lambda>st. Inr (loop_start (boot_misc env) st))))"

section \<open>A parsed database is a good start\<close>

lemma parsed_core_ok:
  assumes "parser_ok (pcd_init\<lparr>timerTick := tick\<rparr>) p" and "\<forall>a \<in> set (db_rules (rulesdb p)). \<not> indexed (rules (rulesdb p) a)"
  shows "core_ok (set (db_rules (rulesdb p))) (rulesdb p)" "\<forall>a \<in> set (db_rules (rulesdb p)). bootable (rules (rulesdb p) a)"
    "timerQueue (rulesdb p) = []"
proof -
  let ?db = "rulesdb p" and ?i = "pcd_init\<lparr>timerTick := tick\<rparr>"
  from assms(1) have db: "db_ok ?db" and r: "\<forall>a \<in> set (db_rules ?db). complete_rule (rules ?db a)"
    and e: "rest_of ?db = rest_of ?i" by (auto simp: parser_ok_def db_grown_def)
  have none: "timerQueue ?db = []" "timerObjs ?db = Map.empty" "procs ?db = Map.empty" "procList ?db = []"
    "enqueueList ?db = []" "dequeueList ?db = []"
    using arg_cong [OF e, of timerQueue] arg_cong [OF e, of timerObjs] arg_cong [OF e, of procs]
      arg_cong [OF e, of procList] arg_cong [OF e, of enqueueList] arg_cong [OF e, of dequeueList]
    by (simp_all add: rest_of_def pcd_init_def)
  have "rule_ok (set (db_rules ?db)) (rules ?db a)" "bootable (rules ?db a)" "\<not> rule_active (rules ?db a)"
    "proc (rules ?db a) = None" if "a \<in> set (db_rules ?db)" for a
    using bspec [OF r that] bspec [OF assms(2) that]
    by (auto simp: complete_rule_def fresh_rule_def rule_ok_def no_cache_def bootable_def rule_active_def)
  with db none show "core_ok (set (db_rules ?db)) ?db" "\<forall>a \<in> set (db_rules ?db). bootable (rules ?db a)"
    "timerQueue ?db = []"
    by (simp_all add: core_ok_def settled_def wf_defs)
qed

lemma timer_enabled_ok: "core_ok A st \<Longrightarrow> core_ok A (st\<lparr>timerEnabled := b\<rparr>)"
  by (simp add: core_ok_def settled_def wf_defs db_rules_def db_ok_def rule_of_def)

lemma boot_ok:
  assumes "PCD_main_parse_params atoi opts default_options = Inr os" and "rulesFilename os = Some f"
    and "\<not> crashDaemonMode os" and "other_pid env \<le> 0" and "0 \<le> daemon_ret env" and "api_ok env" and "exc_ok env"
    and "PCD_parser_parse depth (boot_files env) (boot_users env) f
        (parser_init (pcd_init\<lparr>timerTick := PCD_TIMER_TICK os\<rparr>)) = Inr (PCD_STATUS_OK, p)"
    and "\<forall>a \<in> set (db_rules (rulesdb p)). \<not> indexed (rules (rulesdb p) a)"
  shows "\<exists>d. PCD_main depth env opts = Inr d \<and> core_ok (set (db_rules (rulesdb p))) (core d)
    \<and> map (rule_of (core d)) (timerQueue (core d))
      = map Some (filter (\<lambda>a. ruleState (rules (rulesdb p) a) = PCD_RULE_ACTIVE) (db_rules (rulesdb p)))"
proof -
  have "db_ok (pcd_init\<lparr>timerTick := PCD_TIMER_TICK os\<rparr>)" "db_rules (pcd_init\<lparr>timerTick := PCD_TIMER_TICK os\<rparr>) = []"
    by (simp_all add: db_ok_def db_rules_def pcd_init_def)
  from parse_ok [OF assms(8) this] have "parser_ok (pcd_init\<lparr>timerTick := PCD_TIMER_TICK os\<rparr>) p" .
  note start = parsed_core_ok [OF this assms(9)]
  from activate_ok [OF start(1,2)] obtain st where
    st: "PCD_rulesdb_activate (rulesdb p) = Inr (PCD_STATUS_OK, st)" "core_ok (set (db_rules (rulesdb p))) st"
      "map (rule_of st) (timerQueue st)
        = map Some (filter (\<lambda>a. ruleState (rules (rulesdb p) a) = PCD_RULE_ACTIVE) (db_rules (rulesdb p)))"
    using start(3) by auto
  have "rule_of (st\<lparr>timerEnabled := True\<rparr>) = rule_of st" by (simp add: rule_of_def fun_eq_iff)
  moreover have "PCD_main depth env opts = Inr (loop_start (boot_misc env) (st\<lparr>timerEnabled := True\<rparr>))"
    using assms st(1)
    by (simp add: PCD_main_def PCD_main_init_def PCD_process_init_def PCD_timer_init_def PCD_timer_start_def parse_rules_def)
  ultimately show ?thesis using timer_enabled_ok [OF st(2)] st(3) by (simp add: loop_start_def)
qed

section \<open>Properties\<close>

text \<open>C1: A daemon that is started with a rules file which the parser accepts, and which has no indexed
  rules, comes up with exactly the active rules in its timer queue; and whatever it meets from then on,
  every iteration of its main loop returns or is the exit of the REBOOT action.\<close>

theorem booted_daemon_never_crashes:
  assumes "PCD_main_parse_params atoi opts default_options = Inr os" and "rulesFilename os = Some f"
    and "\<not> crashDaemonMode os" and "other_pid env \<le> 0" and "0 \<le> daemon_ret env" and "api_ok env" and "exc_ok env"
    and "PCD_parser_parse depth (boot_files env) (boot_users env) f
        (parser_init (pcd_init\<lparr>timerTick := PCD_TIMER_TICK os\<rparr>)) = Inr (PCD_STATUS_OK, p)"
    and "\<forall>a \<in> set (db_rules (rulesdb p)). \<not> indexed (rules (rulesdb p) a)"
  shows "\<exists>d0. PCD_main depth env opts = Inr d0
    \<and> map (rule_of (core d0)) (timerQueue (core d0))
      = map Some (filter (\<lambda>a. ruleState (rules (rulesdb p) a) = PCD_RULE_ACTIVE) (db_rules (rulesdb p)))
    \<and> (\<forall>d i. pcd_reach d0 d \<longrightarrow> messages_ok i \<longrightarrow>
        (\<exists>d'. PCD_main_round i d = Inr d') \<or> PCD_main_round i d = Inl (Exited 1))"
proof -
  from boot_ok [OF assms] obtain d0 where d0: "PCD_main depth env opts = Inr d0"
    "core_ok (set (db_rules (rulesdb p))) (core d0)"
    "map (rule_of (core d0)) (timerQueue (core d0))
      = map Some (filter (\<lambda>a. ruleState (rules (rulesdb p) a) = PCD_RULE_ACTIVE) (db_rules (rulesdb p)))" by blast
  have "(\<exists>d'. PCD_main_round i d = Inr d') \<or> PCD_main_round i d = Inl (Exited 1)"
    if "pcd_reach d0 d" "messages_ok i" for d i
    using main_round_ok [OF reach_ok [OF that(1) d0(2)] that(2)] by (auto simp: safe_def)
  with d0 show ?thesis by blast
qed

text \<open>The daemon with the shipped file.\<close>

definition shipped_env :: boot_env where
  "shipped_env = \<lparr>other_pid = - 1, daemon_ret = 0, api_ok = True, exc_ok = True,
     boot_files = [''system.pcd'' \<mapsto> system_pcd], boot_users = Map.empty,
     boot_misc = \<lparr>netRxPid = 0, netRxPriority = 0\<rparr>\<rparr>"

definition shipped_db :: pcd where
  "shipped_db = pcd_init\<lparr>rules := (\<lambda>a. blank_rule)(0 := appmanager_rule, 1 := dispatcher_rule),
     groups := [(''SYSTEM'', [0, 1])], brk := 2\<rparr>"

lemma shipped_db_eq: "add_all [appmanager_rule, dispatcher_rule] pcd_init = shipped_db"
proof -
  have "strcmp ''SYSTEM'' ''SYSTEM'' = 0" "0 < strcmp ''DISPATCHER_1'' ''APPMANAGER''" by code_simp+
  then show ?thesis
    by (simp add: add_all_def PCD_rulesdb_add_rule_def Let_def shipped_db_def pcd_init_def add_rule_to_group_def
        appmanager_rule_def dispatcher_rule_def blank_rule_def)
qed

theorem booted_daemon_never_crashes_witness:
  "\<exists>d0. PCD_main 1 shipped_env [(CHR ''f'', ''system.pcd'')] = Inr d0
    \<and> map (rule_of (core d0)) (timerQueue (core d0)) = [Some 0, Some 1]
    \<and> (\<forall>d i. pcd_reach d0 d \<longrightarrow> messages_ok i \<longrightarrow>
        (\<exists>d'. PCD_main_round i d = Inr d') \<or> PCD_main_round i d = Inl (Exited 1))"
proof -
  let ?os = "default_options\<lparr>rulesFilename := Some ''system.pcd''\<rparr>"
  have i: "pcd_init\<lparr>timerTick := PCD_TIMER_TICK ?os\<rparr> = pcd_init"
    by (simp add: pcd_init_def default_options_def PCD_TIMER_TICK_DEFAULT_def)
  from shipped_parsed [of "boot_files shipped_env" "''system.pcd''" 0 "boot_users shipped_env" pcd_init] obtain p where
    p: "PCD_parser_parse 1 (boot_files shipped_env) (boot_users shipped_env) ''system.pcd''
      (parser_init (pcd_init\<lparr>timerTick := PCD_TIMER_TICK ?os\<rparr>)) = Inr (PCD_STATUS_OK, p)" "rulesdb p = shipped_db"
    unfolding i by (auto simp: shipped_db_eq shipped_env_def)
  have "PCD_main_parse_params atoi [(CHR ''f'', ''system.pcd'')] default_options = Inr ?os"
    by (simp add: parse_option_def default_options_def)
  from booted_daemon_never_crashes [where env = shipped_env, OF this _ _ _ _ _ _ p(1)] p(2) show ?thesis
    by (simp add: shipped_env_def default_options_def shipped_db_def db_rules_def appmanager_rule_def dispatcher_rule_def
        blank_rule_def)
qed

end
