(* ===== verification/PcdInclude.thy ===== *)
theory PcdInclude imports PcdRoundTrip begin

text \<open>
  Included files: the reading ends when the files do not include each other in a circle, with the
  nesting depth as the bound; and the result of an included file is lost.
\<close>

section \<open>Which files are included\<close>

definition included :: "(string \<Rightarrow> string option) \<Rightarrow> string \<Rightarrow> string set" where
  "included files f = (case files f of None \<Rightarrow> {}
    | Some content \<Rightarrow> {g. (KW_INCLUDE, g) \<in> set (statements (file_lines content))})"

text \<open>Only the included files are asked for.\<close>

lemma kw_handler_cong:
  "k = KW_INCLUDE \<longrightarrow> (\<forall>st. rc v st = rc' v st) \<Longrightarrow> kw_handler rc users k v st = kw_handler rc' users k v st"
  by (cases k) (simp_all add: kw_handler_def handle_INCLUDE_def)

lemma kw_handler_total:
  "k = KW_INCLUDE \<longrightarrow> (\<forall>st. \<exists>res. rc v st = Inr res) \<Longrightarrow> \<exists>res. kw_handler rc users k v st = Inr res"
proof (cases "k = KW_INCLUDE")
  case True
  let ?s = "st\<lparr>cur := blank_rule, lineNumber := 0, readParseStatus := 0\<rparr>"
  assume "k = KW_INCLUDE \<longrightarrow> (\<forall>st. \<exists>res. rc v st = Inr res)"
  with True obtain q s where "rc v ?s = Inr (q, s)" by (metis surj_pair)
  with True show ?thesis by (simp add: kw_handler_def handle_INCLUDE_def)
next
  case False
  then show ?thesis by (cases k) (simp_all add: kw_handler_def)
qed

lemma read_lines_cong:
  assumes "\<forall>g. (KW_INCLUDE, g) \<in> set (statements bs) \<longrightarrow> (\<forall>st. rc g st = rc' g st)"
  shows "read_lines rc users bs st = read_lines rc' users bs st"
  using assms
proof (induction bs arbitrary: st)
  case (Cons b bs)
  let ?s = "st\<lparr>lineNumber := lineNumber st + 1\<rparr>"
  have bs: "read_lines rc users bs st = read_lines rc' users bs st" for st
    using Cons by (simp split: option.splits)
  show ?case
  proof (cases "statement b")
    case None
    with bs show ?thesis by (simp add: read_lines_statement Let_def del: read_lines.simps(2))
  next
    case (Some kv)
    then obtain k v where kv: "statement b = Some (k, v)" by (cases kv) auto
    have "kw_handler rc users k v ?s = kw_handler rc' users k v ?s"
      by (rule kw_handler_cong) (use Cons.prems kv in auto)
    with kv bs show ?thesis
      by (cases "kw_handler rc' users k v ?s") (simp_all add: read_lines_statement Let_def split_beta del: read_lines.simps(2))
  qed
qed simp

lemma read_lines_total:
  assumes "\<forall>g. (KW_INCLUDE, g) \<in> set (statements bs) \<longrightarrow> (\<forall>st. \<exists>res. rc g st = Inr res)"
  shows "\<exists>res. read_lines rc users bs st = Inr res"
  using assms
proof (induction bs arbitrary: st)
  case (Cons b bs)
  let ?s = "st\<lparr>lineNumber := lineNumber st + 1\<rparr>"
  have bs: "\<exists>res. read_lines rc users bs st = Inr res" for st
    using Cons by (simp split: option.splits)
  show ?case
  proof (cases "statement b")
    case None
    with bs show ?thesis by (simp add: read_lines_statement Let_def del: read_lines.simps(2))
  next
    case (Some kv)
    then obtain k v where kv: "statement b = Some (k, v)" by (cases kv) auto
    have "\<exists>res. kw_handler rc users k v ?s = Inr res"
      by (rule kw_handler_total) (use Cons.prems kv in auto)
    then obtain q s where "kw_handler rc users k v ?s = Inr (q, s)" by auto
    with kv bs [of s] show ?thesis by (simp add: read_lines_statement Let_def del: read_lines.simps(2))
  qed
qed simp

section \<open>Termination\<close>

lemma read_config_total:
  assumes "\<forall>f g. g \<in> included files f \<longrightarrow> rank g < rank f"
  shows "\<exists>res. \<forall>depth > rank f. PCD_parser_read_config depth files users f st = Inr res"
proof (induction "rank f" arbitrary: f st rule: less_induct)
  case less
  show ?case
  proof (cases "files f")
    case None
    have "PCD_parser_read_config depth files users f st = Inr (- 1, st)" if "depth > rank f" for depth
      using that None by (cases depth) simp_all
    then show ?thesis by blast
  next
    case (Some content)
    let ?bs = "file_lines content" and ?d = "rank f"
    have sub: "\<exists>res. \<forall>depth \<ge> ?d. PCD_parser_read_config depth files users g st = Inr res"
      if "(KW_INCLUDE, g) \<in> set (statements ?bs)" for g st
    proof -
      have "rank g < rank f" using assms that Some by (auto simp: included_def)
      with less [OF this, of st] show ?thesis by (meson le_trans less_le_trans)
    qed
    have "\<exists>res. read_lines (PCD_parser_read_config ?d files users) users ?bs st = Inr res"
      by (rule read_lines_total) (use sub in blast)
    then obtain res where res: "read_lines (PCD_parser_read_config ?d files users) users ?bs st = Inr res" by blast
    have "PCD_parser_read_config depth files users f st = Inr (flush_rule res)" if dep: "depth > ?d" for depth
    proof -
      obtain d where d: "depth = Suc d" "d \<ge> ?d" using dep by (cases depth) auto
      have "read_lines (PCD_parser_read_config d files users) users ?bs st
        = read_lines (PCD_parser_read_config ?d files users) users ?bs st"
        by (rule read_lines_cong) (use sub d(2) in \<open>metis order_refl\<close>)
      with res Some d(1) show ?thesis by simp
    qed
    then show ?thesis by blast
  qed
qed

text \<open>C13: If the files include each other only downwards in some rank, the parser returns; any nesting
  depth above the rank of the first file is enough, and all of them give the same result.\<close>

theorem parser_terminates:
  assumes "\<forall>f g. g \<in> included files f \<longrightarrow> rank g < rank f"
  shows "\<exists>s st'. \<forall>depth > rank f. PCD_parser_parse depth files users f st = Inr (s, st')"
proof -
  let ?i = "PCD_parser_init_kwHandlersList st"
  obtain q st' where r: "\<forall>depth > rank f. PCD_parser_read_config depth files users f ?i = Inr (q, st')"
    using read_config_total [where files = files and f = f and st = ?i and users = users, OF assms] by auto
  have "PCD_parser_parse depth files users f st = Inr (if q = 0 then PCD_STATUS_OK else PCD_STATUS_NOK, st')"
    if "depth > rank f" for depth
    using r that by (simp add: PCD_parser_parse_def PCD_parser_generate_config_def)
  then show ?thesis by blast
qed

text \<open>A file that includes another one.\<close>

definition outer_text :: string where "outer_text = ''INCLUDE = b.pcd'' @ [LF]"
definition inner_text :: string where "inner_text = ''DAEMON = YES'' @ [LF]"

definition nested_files :: "string \<Rightarrow> string option" where
  "nested_files = [''a.pcd'' \<mapsto> outer_text, ''b.pcd'' \<mapsto> inner_text]"

lemma nested_lines:
  "statements (file_lines outer_text) = [(KW_INCLUDE, ''b.pcd'')]"
  "statements (file_lines inner_text) = [(KW_DAEMON, ''YES'')]"
proof -
  have v: "value_text ''b.pcd''" "value_text ''YES''" by code_simp+
  have "file_lines (''INCLUDE = b.pcd'' @ [LF]) = [''INCLUDE = b.pcd'' @ [LF]]"
    "file_lines (''DAEMON = YES'' @ [LF]) = [''DAEMON = YES'' @ [LF]]"
    using file_lines_print [of "[''INCLUDE = b.pcd'']"] file_lines_print [of "[''DAEMON = YES'']"]
    by (simp_all add: LF_def)
  then show "statements (file_lines outer_text) = [(KW_INCLUDE, ''b.pcd'')]"
    "statements (file_lines inner_text) = [(KW_DAEMON, ''YES'')]"
    unfolding outer_text_def inner_text_def using statement_printed [of "(KW_INCLUDE, ''b.pcd'')"] statement_printed [of "(KW_DAEMON, ''YES'')"] v
    by (simp_all add: print_stmt_def)
qed

theorem parser_terminates_witness:
  "\<exists>s st'. \<forall>depth > 1. PCD_parser_parse depth nested_files Map.empty ''a.pcd'' (parser_init pcd_init) = Inr (s, st')"
proof -
  let ?rank = "\<lambda>f. if f = ''a.pcd'' then 1 else 0 :: nat"
  have "g \<in> included nested_files f \<Longrightarrow> ?rank g < ?rank f" for f g
    by (auto simp: included_def nested_files_def nested_lines split: if_splits)
  from parser_terminates [where rank = ?rank and f = "''a.pcd''"] this show ?thesis by simp
qed

section \<open>The result of an included file\<close>

text \<open>The parser ignores how the reading of an included file ends: whatever the result \<open>q\<close> of that
  reading, a missing file or one with errors too, the parser reports success, with the rules that the
  included file has left in the database.\<close>

theorem include_result_is_lost:
  assumes "files f = Some (''INCLUDE = '' @ g @ [LF])" and "value_text g" and "length g < 245"
    and "PCD_parser_read_config depth files users g
        ((PCD_parser_init_kwHandlersList (parser_init db0))\<lparr>lineNumber := 0\<rparr>) = Inr (q, s)"
  shows "\<exists>st. PCD_parser_parse (Suc depth) files users f (parser_init db0) = Inr (PCD_STATUS_OK, st)
    \<and> rulesdb st = rulesdb s"
proof -
  let ?i = "PCD_parser_init_kwHandlersList (parser_init db0)" and ?l = "''INCLUDE = '' @ g"
  let ?s = "s\<lparr>readParseStatus := 0, lineNumber := 1, cur := blank_rule\<rparr>"
  have i: "readParseStatus ?i = 0" "lineNumber ?i = 0" "cur ?i = blank_rule"
    by (simp_all add: init_rest parser_init_def PCD_parser_init_kwHandlersList_def keywordHandlersList_def)
  have stmt: "print_stmt (KW_INCLUDE, g) = ?l" by (simp add: print_stmt_def)
  have "LF \<notin> set ?l" using printed_line [of "(KW_INCLUDE, g)"] assms(2) unfolding stmt by simp
  then have lines: "file_lines (?l @ [LF]) = [?l @ [LF]]" using file_lines_print [of "[?l]"] assms(3) by simp
  have "statement (?l @ [LF]) = Some (KW_INCLUDE, g)"
    using statement_printed [of "(KW_INCLUDE, g)"] assms(2) unfolding stmt by simp
  moreover have same: "?i\<lparr>cur := blank_rule, lineNumber := 0, readParseStatus := 0\<rparr> = ?i\<lparr>lineNumber := 0\<rparr>"
    using i by (cases ?i) simp
  have "handle_INCLUDE (PCD_parser_read_config depth files users) g (?i\<lparr>lineNumber := 1\<rparr>) = Inr (0, ?s)"
    using assms(4) [folded same] i by (simp add: handle_INCLUDE_def)
  ultimately have "read_lines (PCD_parser_read_config depth files users) users [?l @ [LF]] ?i = Inr (0, ?s)"
    using i by (simp add: read_lines_statement [of _ _ _ "[]"] read_lines.simps(1) Let_def kw_handler_def del: read_lines.simps(2))
  moreover have "flush_rule (0, ?s) = (0, ?s)"
    by (simp add: flush_rule_def PCD_parser_is_parse_status_set_def)
  ultimately show ?thesis using assms(1) lines
    by (simp add: PCD_parser_parse_def PCD_parser_generate_config_def)
qed

theorem include_result_is_lost_witness:
  "\<exists>st. PCD_parser_parse 2 [''a.pcd'' \<mapsto> ''INCLUDE = none.pcd'' @ [LF]] Map.empty ''a.pcd'' (parser_init pcd_init)
      = Inr (PCD_STATUS_OK, st) \<and> rulesdb st = pcd_init"
proof -
  let ?i = "(PCD_parser_init_kwHandlersList (parser_init pcd_init))\<lparr>lineNumber := 0\<rparr>"
  let ?files = "[''a.pcd'' \<mapsto> ''INCLUDE = none.pcd'' @ [LF]]"
  have "value_text ''none.pcd''" by code_simp
  moreover have "PCD_parser_read_config 1 ?files Map.empty ''none.pcd'' ?i = Inr (- 1, ?i)" by simp
  moreover have "rulesdb ?i = pcd_init"
    by (simp add: parser_init_def PCD_parser_init_kwHandlersList_def keywordHandlersList_def)
  ultimately show ?thesis
    using include_result_is_lost [of ?files "''a.pcd''" "''none.pcd''" 1 Map.empty pcd_init "- 1" ?i]
    by (simp add: numeral_2_eq_2)
qed

end
