(* ===== verification/Ipc.thy ===== *)
theory Ipc imports Prelude begin

text \<open>
  The message library of the daemon and its clients, \<open>ipc/src/ipc.c\<close>: a table of destination points in
  shared memory, and datagram sockets in the file system.  The state is what one process sees: the
  shared part (table, its lock, sockets, socket files) and its own part (pid, mapping of the table,
  its lock, messages on its heap).  The body of a message has the type \<open>'d\<close>; what the allocator
  leaves in it is a parameter.

  Of the system the model has the documented behaviour of \<open>socket\<close>, \<open>bind\<close>, \<open>connect\<close>, \<open>unlink\<close>,
  \<open>sendto\<close> and \<open>recv\<close> on local datagram sockets.  A blocked lock is the halt \<open>Diverges\<close>.
\<close>

section \<open>Data\<close>

datatype IPC_status = IPC_STATUS_OK | IPC_STATUS_NOK

record ipc_client =
  c_fd :: int
  c_path :: string
  c_flags :: u32
  c_owner :: u32
  c_pid :: int

definition no_client :: ipc_client where
  "no_client = \<lparr>c_fd = 0, c_path = [], c_flags = 0, c_owner = 0, c_pid = 0\<rparr>"

record 'd ipc_msg =
  magic :: u32
  msg_size :: u32
  msg_context :: int
  data :: 'd

definition IPC_MAX_LIST_SIZE :: nat where "IPC_MAX_LIST_SIZE = 32"
definition IPC_MAX_BUFFER_SIZE :: nat where "IPC_MAX_BUFFER_SIZE = 1024"
definition IPC_SOCKET_PATH :: string where "IPC_SOCKET_PATH = ''/var/tmp''"
definition IPC_UNIX_PATH_MAX :: nat where "IPC_UNIX_PATH_MAX = 108"
definition IPC_MESSAGE_MAGIC :: u32 where "IPC_MESSAGE_MAGIC = 0x78AC39D1"
definition IPC_NO_OWNER :: u32 where "IPC_NO_OWNER = - 1"
definition MSG_DONTWAIT :: u32 where "MSG_DONTWAIT = 0x40"

text \<open>The size of the header: \<open>sizeof(IPC_message_t)\<close>.\<close>

definition header_size :: nat where "header_size = 12"

text \<open>\<open>IPC_Clients\<close>: not set, the error value of \<open>shmat\<close>, mapped, or unmapped again.\<close>

datatype shm_ptr = ShmNull | ShmError | ShmMapped | ShmUnmapped

datatype ipc_timeout = IPC_TIMEOUT_IMMEDIATE | IPC_TIMEOUT_FOREVER | Millisec u32

text \<open>Sockets are named by process and descriptor, with the datagrams that wait in them.\<close>

record 'd ipc =
  clients :: "ipc_client list"
  list_lock :: bool
  socks :: "int \<times> int \<rightharpoonup> 'd ipc_msg list"
  paths :: "string \<rightharpoonup> int \<times> int"
  mypid :: int
  i_shmaddr :: bool
  IPC_Clients :: shm_ptr
  info_lock :: bool
  heap :: "addr \<rightharpoonup> 'd ipc_msg"
  ipc_brk :: addr

text \<open>Answers of the system.\<close>

record ipc_os =
  ftok_ok :: bool
  shm_exists :: bool
  shm_created :: bool
  shmat_ok :: bool
  shmdt_ok :: bool
  sock_fd :: int
  bind_denied :: "string \<Rightarrow> bool"
  queue_max :: nat
  malloc_ok :: bool

section \<open>Access\<close>

definition shm :: "'d ipc \<Rightarrow> unit run" where
  "shm st = (case IPC_Clients st of ShmNull \<Rightarrow> Inl NullDeref | ShmError \<Rightarrow> Inl OutOfBounds
     | ShmMapped \<Rightarrow> Inr () | ShmUnmapped \<Rightarrow> Inl UseAfterFree)"

definition get_client :: "int \<Rightarrow> 'd ipc \<Rightarrow> ipc_client run" where
  "get_client i st = bind_run (shm st) (\<lambda>_. if i < 0 then Inl OutOfBounds else read_at (clients st) (nat i))"

definition put_client :: "int \<Rightarrow> ipc_client \<Rightarrow> 'd ipc \<Rightarrow> 'd ipc run" where
  "put_client i c st = bind_run (shm st) (\<lambda>_. if i < 0 then Inl OutOfBounds
     else bind_run (write_at (clients st) (nat i) c) (\<lambda>cs. Inr (st\<lparr>clients := cs\<rparr>)))"

definition lock_list :: "'d ipc \<Rightarrow> 'd ipc run" where
  "lock_list st = bind_run (shm st) (\<lambda>_. if list_lock st then Inl Diverges else Inr (st\<lparr>list_lock := True\<rparr>))"

definition lock_info :: "'d ipc \<Rightarrow> 'd ipc run" where
  "lock_info st = (if info_lock st then Inl Diverges else Inr (st\<lparr>info_lock := True\<rparr>))"

abbreviation unlock_list :: "'d ipc \<Rightarrow> 'd ipc" where
  "unlock_list st \<equiv> st\<lparr>list_lock := False\<rparr>"

abbreviation unlock_info :: "'d ipc \<Rightarrow> 'd ipc" where
  "unlock_info st \<equiv> st\<lparr>info_lock := False\<rparr>"

definition get_msg :: "addr \<Rightarrow> 'd ipc \<Rightarrow> 'd ipc_msg run" where
  "get_msg a st = (case heap st a of None \<Rightarrow> Inl UseAfterFree | Some m \<Rightarrow> Inr m)"

text \<open>\<open>msg && msg->magic == IPC_MESSAGE_MAGIC\<close>.\<close>

definition valid_msg :: "addr option \<Rightarrow> 'd ipc \<Rightarrow> bool run" where
  "valid_msg p st = (case p of None \<Rightarrow> Inr False
     | Some a \<Rightarrow> bind_run (get_msg a st) (\<lambda>m. Inr (magic m = IPC_MESSAGE_MAGIC)))"

definition set_data :: "addr \<Rightarrow> 'd \<Rightarrow> 'd ipc \<Rightarrow> 'd ipc run" where
  "set_data a d st = bind_run (get_msg a st) (\<lambda>m. Inr (st\<lparr>heap := (heap st)(a \<mapsto> m\<lparr>data := d\<rparr>)\<rparr>))"

section \<open>Sockets\<close>

definition sys_bind :: "ipc_os \<Rightarrow> int \<Rightarrow> string \<Rightarrow> 'd ipc \<Rightarrow> 'd ipc option" where
  "sys_bind os fd p st = (if paths st p \<noteq> None \<or> bind_denied os p then None
     else Some (st\<lparr>paths := (paths st)(p \<mapsto> (mypid st, fd))\<rparr>))"

text \<open>Whether a socket is open at the path: \<open>connect\<close> succeeds.\<close>

definition listening :: "string \<Rightarrow> 'd ipc \<Rightarrow> bool" where
  "listening p st \<longleftrightarrow> (case paths st p of None \<Rightarrow> False | Some k \<Rightarrow> socks st k \<noteq> None)"

definition sys_unlink :: "string \<Rightarrow> 'd ipc \<Rightarrow> 'd ipc" where
  "sys_unlink p st = st\<lparr>paths := (paths st)(p := None)\<rparr>"

definition sys_close :: "int \<Rightarrow> 'd ipc \<Rightarrow> 'd ipc" where
  "sys_close fd st = st\<lparr>socks := (socks st)((mypid st, fd) := None)\<rparr>"

definition sys_sendto :: "ipc_os \<Rightarrow> int \<Rightarrow> 'd ipc_msg \<Rightarrow> string \<Rightarrow> 'd ipc \<Rightarrow> 'd ipc option" where
  "sys_sendto os fd m p st = (if socks st (mypid st, fd) = None then None
     else case paths st p of None \<Rightarrow> None
     | Some k \<Rightarrow> (case socks st k of None \<Rightarrow> None
       | Some q \<Rightarrow> if length q \<ge> queue_max os then None else Some (st\<lparr>socks := (socks st)(k \<mapsto> q @ [m])\<rparr>)))"

section \<open>The library\<close>

definition IPC_init :: "ipc_os \<Rightarrow> 'd ipc \<Rightarrow> (IPC_status \<times> 'd ipc) run" where
  "IPC_init os st =
     (if i_shmaddr st then Inr (IPC_STATUS_OK, st)
      else if \<not> ftok_ok os then Inr (IPC_STATUS_NOK, st)
      else if \<not> shm_exists os \<and> \<not> shm_created os then Inr (IPC_STATUS_NOK, st)
      else let st = st\<lparr>i_shmaddr := True, info_lock := False, IPC_Clients := (if shmat_ok os then ShmMapped else ShmError)\<rparr>
        in if shm_exists os then Inr (IPC_STATUS_OK, st)
        else bind_run (shm st) (\<lambda>_.
          Inr (IPC_STATUS_OK, st\<lparr>clients := replicate IPC_MAX_LIST_SIZE no_client, list_lock := False\<rparr>)))"

text \<open>The lock is destroyed; the model lets it be free, as \<open>IPC_init\<close> would make it.\<close>

definition IPC_deinit :: "ipc_os \<Rightarrow> 'd ipc \<Rightarrow> (IPC_status \<times> 'd ipc) run" where
  "IPC_deinit os st =
     (if \<not> i_shmaddr st then Inr (IPC_STATUS_OK, st)
      else bind_run (lock_list st) (\<lambda>st.
        let st = st\<lparr>i_shmaddr := False\<rparr>;
            st = fold (\<lambda>c st. if c_fd c \<noteq> 0 then sys_unlink (c_path c) st else st) (clients st) st;
            st = unlock_list (st\<lparr>clients := replicate IPC_MAX_LIST_SIZE no_client\<rparr>)
        in if shmdt_ok os then Inr (IPC_STATUS_OK, st\<lparr>IPC_Clients := ShmUnmapped, info_lock := False\<rparr>)
           else Inr (IPC_STATUS_NOK, st)))"

text \<open>The index of the first free entry, or the size of the list.\<close>

definition free_slot :: "ipc_client list \<Rightarrow> nat" where
  "free_slot cs = length (takeWhile (\<lambda>c. c_fd c \<noteq> 0) cs)"

definition socket_path :: "string \<Rightarrow> string" where
  "socket_path name = take (IPC_UNIX_PATH_MAX - 1) (IPC_SOCKET_PATH @ ''/'' @ name @ ''.ctl'')"

text \<open>
  The binding of a new socket, with the removal of a file that a dead process has left behind.  When
  an instance is running, or the file cannot be removed, the new socket is left open.
\<close>

definition bind_socket :: "ipc_os \<Rightarrow> int \<Rightarrow> string \<Rightarrow> 'd ipc \<Rightarrow> bool \<times> 'd ipc" where
  "bind_socket os fd p st = (case sys_bind os fd p st of
      Some st \<Rightarrow> (True, st)
    | None \<Rightarrow> if listening p st then (False, st)
        else if paths st p = None then (False, st)
        else let st = sys_unlink p st in
          (case sys_bind os fd p st of
             Some st \<Rightarrow> (True, st)
           | None \<Rightarrow> (False, sys_close fd st)))"

definition IPC_start :: "ipc_os \<Rightarrow> string option \<Rightarrow> u32 \<Rightarrow> 'd ipc \<Rightarrow> (IPC_status \<times> int option \<times> 'd ipc) run" where
  "IPC_start os myName flags st =
     (case myName of None \<Rightarrow> Inr (IPC_STATUS_NOK, None, st) | Some name \<Rightarrow>
      if \<not> i_shmaddr st then Inr (IPC_STATUS_NOK, None, st)
      else bind_run (lock_list st) (\<lambda>st.
        let i = free_slot (clients st) in
        if i \<ge> IPC_MAX_LIST_SIZE then Inr (IPC_STATUS_NOK, None, unlock_list st)
        else let fd = sock_fd os in
        if fd = - 1 then Inr (IPC_STATUS_NOK, None, unlock_list st)
        else let st = st\<lparr>socks := (socks st)((mypid st, fd) \<mapsto> [])\<rparr>; p = socket_path name in
          case bind_socket os fd p st of
            (False, st) \<Rightarrow> Inr (IPC_STATUS_NOK, None, unlock_list st)
          | (True, st) \<Rightarrow>
              bind_run (put_client (int i) \<lparr>c_fd = fd, c_path = p, c_flags = flags OR MSG_DONTWAIT,
                  c_owner = IPC_NO_OWNER, c_pid = mypid st\<rparr> st) (\<lambda>st.
              Inr (IPC_STATUS_OK, Some (int i), unlock_list st))))"

text \<open>The check \<open>i >= IPC_MAX_LIST_SIZE || list[ i ].fd == 0\<close>; a negative index reads below the list.\<close>

definition unused :: "int \<Rightarrow> 'd ipc \<Rightarrow> bool run" where
  "unused i st = (if i \<ge> int IPC_MAX_LIST_SIZE then Inr True
     else bind_run (get_client i st) (\<lambda>c. Inr (c_fd c = 0)))"

definition IPC_stop :: "int \<Rightarrow> 'd ipc \<Rightarrow> (IPC_status \<times> 'd ipc) run" where
  "IPC_stop i st =
     (if \<not> i_shmaddr st then Inr (IPC_STATUS_NOK, st)
      else bind_run (unused i st) (\<lambda>u. if u then Inr (IPC_STATUS_NOK, st)
      else bind_run (lock_list st) (\<lambda>st.
        bind_run (get_client i st) (\<lambda>c.
        let st = sys_unlink (c_path c) (if c_pid c = mypid st then sys_close (c_fd c) st else st) in
        bind_run (put_client i (c\<lparr>c_path := [], c_fd := 0, c_owner := IPC_NO_OWNER, c_pid := 0\<rparr>) st) (\<lambda>st.
        Inr (IPC_STATUS_OK, unlock_list st))))))"

definition IPC_alloc_msg :: "ipc_os \<Rightarrow> 'd \<Rightarrow> int \<Rightarrow> u32 \<Rightarrow> 'd ipc \<Rightarrow> (addr option \<times> 'd ipc) run" where
  "IPC_alloc_msg os junk i sz st =
     (if unat sz + header_size > IPC_MAX_BUFFER_SIZE then Inr (None, st)
      else bind_run (unused i st) (\<lambda>u. if u then Inr (None, st)
      else if \<not> malloc_ok os then Inr (None, st)
      else let a = ipc_brk st in
        Inr (Some a, st\<lparr>heap := (heap st)(a \<mapsto> \<lparr>magic = IPC_MESSAGE_MAGIC,
            msg_size = sz + of_nat header_size, msg_context = i, data = junk\<rparr>), ipc_brk := a + 1\<rparr>)))"

text \<open>The pointer to the data is the address of the message.\<close>

definition IPC_get_msg :: "addr option \<Rightarrow> 'd ipc \<Rightarrow> addr option run" where
  "IPC_get_msg p st = bind_run (valid_msg p st) (\<lambda>v. Inr (if v then p else None))"

definition IPC_free_msg :: "addr option \<Rightarrow> 'd ipc \<Rightarrow> (IPC_status \<times> 'd ipc) run" where
  "IPC_free_msg p st = bind_run (valid_msg p st) (\<lambda>v.
     if \<not> v then Inr (IPC_STATUS_NOK, st)
     else Inr (IPC_STATUS_OK, st\<lparr>heap := (heap st)(the p := None)\<rparr>))"

definition IPC_send_msg :: "ipc_os \<Rightarrow> int \<Rightarrow> addr option \<Rightarrow> 'd ipc \<Rightarrow> (IPC_status \<times> 'd ipc) run" where
  "IPC_send_msg os destIdx p st =
     (if \<not> i_shmaddr st then Inr (IPC_STATUS_NOK, st)
      else bind_run (valid_msg p st) (\<lambda>v. if \<not> v then Inr (IPC_STATUS_NOK, st)
      else bind_run (unused destIdx st) (\<lambda>u. if u then Inr (IPC_STATUS_NOK, st)
      else bind_run (get_client destIdx st) (\<lambda>to.
        bind_run (lock_info st) (\<lambda>st.
        bind_run (get_msg (the p) st) (\<lambda>m.
        bind_run (get_client (msg_context m) st) (\<lambda>from.
        case sys_sendto os (c_fd from) m (c_path to) st of
          None \<Rightarrow> Inr (IPC_STATUS_NOK, unlock_info st)
        | Some st \<Rightarrow> bind_run (IPC_free_msg p (unlock_info st)) (\<lambda>(_, st). Inr (IPC_STATUS_OK, st)))))))))"

text \<open>The time to wait that is handed to \<open>select\<close>, in seconds and microseconds; \<open>None\<close> is no limit.\<close>

definition wait_timeval :: "ipc_timeout \<Rightarrow> (nat \<times> nat) option" where
  "wait_timeval timeout = (case timeout of
      IPC_TIMEOUT_FOREVER \<Rightarrow> None
    | IPC_TIMEOUT_IMMEDIATE \<Rightarrow> Some (0, 0)
    | Millisec w \<Rightarrow> Some (unat w div 1000, unat w - (unat w div 1000) * 1000))"

text \<open>
  Waiting: \<open>others\<close> is what the rest of the system does until a message arrives or the time is over.
  The buffer is handed out without a look at the magic number.
\<close>

definition IPC_wait_msg ::
  "ipc_os \<Rightarrow> ('d ipc \<Rightarrow> 'd ipc) \<Rightarrow> int \<Rightarrow> ipc_timeout \<Rightarrow> 'd ipc \<Rightarrow> (addr option \<times> 'd ipc) run" where
  "IPC_wait_msg os others i timeout st =
     (if \<not> i_shmaddr st then Inr (None, st)
      else bind_run (unused i st) (\<lambda>u. if u then Inr (None, st)
      else bind_run (get_client i st) (\<lambda>c.
        let k = (mypid st, c_fd c) in
        bind_run (lock_info st) (\<lambda>st.
        if socks st k = None then Inr (None, unlock_info st)
        else let st = (if socks st k = Some [] \<and> timeout \<noteq> IPC_TIMEOUT_IMMEDIATE then others st else st) in
          case socks st k of
            Some (m # q) \<Rightarrow>
              if \<not> malloc_ok os then Inr (None, st)
              else let a = ipc_brk st in
                Inr (Some a, unlock_info (st\<lparr>socks := (socks st)(k \<mapsto> q), heap := (heap st)(a \<mapsto> m), ipc_brk := a + 1\<rparr>))
          | _ \<Rightarrow> if timeout = IPC_TIMEOUT_FOREVER then Inl Diverges else Inr (None, unlock_info st)))))"

text \<open>The index in the incoming message comes from its sender and is not checked.\<close>

definition IPC_reply_msg :: "ipc_os \<Rightarrow> addr option \<Rightarrow> addr option \<Rightarrow> 'd ipc \<Rightarrow> (IPC_status \<times> 'd ipc) run" where
  "IPC_reply_msg os inp rep st =
     (if \<not> i_shmaddr st then Inr (IPC_STATUS_NOK, st)
      else bind_run (valid_msg inp st) (\<lambda>v. if \<not> v then Inr (IPC_STATUS_NOK, st)
      else bind_run (valid_msg rep st) (\<lambda>v. if \<not> v then Inr (IPC_STATUS_NOK, st)
      else bind_run (get_msg (the inp) st) (\<lambda>m.
        bind_run (get_client (msg_context m) st) (\<lambda>to.
        bind_run (lock_info st) (\<lambda>st.
        bind_run (get_msg (the rep) st) (\<lambda>r.
        bind_run (get_client (msg_context r) st) (\<lambda>from.
        case sys_sendto os (c_fd from) r (c_path to) st of
          None \<Rightarrow> Inr (IPC_STATUS_NOK, unlock_info st)
        | Some st \<Rightarrow> bind_run (IPC_free_msg rep (unlock_info st)) (\<lambda>(_, st). Inr (IPC_STATUS_OK, st))))))))))"

definition IPC_get_msg_context :: "addr option \<Rightarrow> 'd ipc \<Rightarrow> int option run" where
  "IPC_get_msg_context p st = bind_run (valid_msg p st) (\<lambda>v.
     if \<not> v then Inr None else bind_run (get_msg (the p) st) (\<lambda>m. Inr (Some (msg_context m))))"

text \<open>The index of the first entry with a property.\<close>

definition first_slot :: "(ipc_client \<Rightarrow> bool) \<Rightarrow> ipc_client list \<Rightarrow> nat" where
  "first_slot P cs = length (takeWhile (\<lambda>c. \<not> P c) cs)"

definition IPC_cleanup_proc :: "int \<Rightarrow> 'd ipc \<Rightarrow> (IPC_status \<times> 'd ipc) run" where
  "IPC_cleanup_proc pid st =
     (if \<not> i_shmaddr st then Inr (IPC_STATUS_NOK, st)
      else bind_run (shm st) (\<lambda>_.
        let i = first_slot (\<lambda>c. c_fd c \<noteq> 0 \<and> c_pid c = pid) (clients st) in
        if i < IPC_MAX_LIST_SIZE then IPC_stop (int i) st else Inr (IPC_STATUS_OK, st)))"

definition IPC_set_owner :: "int \<Rightarrow> u32 \<Rightarrow> 'd ipc \<Rightarrow> (IPC_status \<times> 'd ipc) run" where
  "IPC_set_owner i owner st =
     (if \<not> i_shmaddr st \<or> i \<ge> int IPC_MAX_LIST_SIZE then Inr (IPC_STATUS_NOK, st)
      else bind_run (lock_list st) (\<lambda>st.
        bind_run (get_client i st) (\<lambda>c.
        bind_run (put_client i (c\<lparr>c_owner := owner\<rparr>) st) (\<lambda>st. Inr (IPC_STATUS_OK, unlock_list st)))))"

definition IPC_get_context_by_owner :: "u32 \<Rightarrow> 'd ipc \<Rightarrow> (int option \<times> 'd ipc) run" where
  "IPC_get_context_by_owner owner st =
     (if \<not> i_shmaddr st then Inr (None, st)
      else bind_run (lock_list st) (\<lambda>st.
        let i = first_slot (\<lambda>c. c_fd c \<noteq> 0 \<and> c_owner c = owner) (clients st) in
        Inr (if i < IPC_MAX_LIST_SIZE then Some (int i) else None, unlock_list st)))"

definition IPC_general_func :: "u32 \<Rightarrow> IPC_status" where
  "IPC_general_func value = IPC_STATUS_OK"

end
