(* ===== verification/IpcOk.thy ===== *)
theory IpcOk imports Ipc begin

text \<open>
  The processes that use the message library: what all of them keep of the shared table and of the
  messages, and that a destination point is a first-in first-out queue.
\<close>

section \<open>Access to a mapped table\<close>

lemma shm_mapped [simp]: "IPC_Clients st = ShmMapped \<Longrightarrow> shm st = Inr ()"
  by (simp add: shm_def)

lemma get_client_in [simp]:
  "IPC_Clients st = ShmMapped \<Longrightarrow> i < length (clients st) \<Longrightarrow> get_client (int i) st = Inr (clients st ! i)"
  by (simp add: get_client_def)

lemma get_clientD: "get_client i st = Inr c \<Longrightarrow> 0 \<le> i \<and> nat i < length (clients st) \<and> c = clients st ! nat i"
  by (auto simp: get_client_def read_at_def bind_run_eq_Inr split: if_splits)

lemma put_client_in [simp]:
  "IPC_Clients st = ShmMapped \<Longrightarrow> i < length (clients st)
    \<Longrightarrow> put_client (int i) c st = Inr (st\<lparr>clients := (clients st)[i := c]\<rparr>)"
  by (simp add: put_client_def)

lemma put_clientD: "put_client i c st = Inr st' \<Longrightarrow> 0 \<le> i \<and> st' = st\<lparr>clients := (clients st)[nat i := c]\<rparr>"
  by (auto simp: put_client_def write_at_def bind_run_eq_Inr split: if_splits)

lemma lock_listD: "lock_list st = Inr st' \<Longrightarrow> st' = st\<lparr>list_lock := True\<rparr> \<and> \<not> list_lock st \<and> IPC_Clients st = ShmMapped"
  by (auto simp: lock_list_def shm_def bind_run_eq_Inr split: if_splits shm_ptr.splits)

lemma lock_list_free [simp]:
  "IPC_Clients st = ShmMapped \<Longrightarrow> \<not> list_lock st \<Longrightarrow> lock_list st = Inr (st\<lparr>list_lock := True\<rparr>)"
  by (simp add: lock_list_def)

lemma lock_infoD: "lock_info st = Inr st' \<Longrightarrow> st' = st\<lparr>info_lock := True\<rparr> \<and> \<not> info_lock st"
  by (auto simp: lock_info_def split: if_splits)

lemma lock_info_free [simp]: "\<not> info_lock st \<Longrightarrow> lock_info st = Inr (st\<lparr>info_lock := True\<rparr>)"
  by (simp add: lock_info_def)

lemma get_msg_in [simp]: "heap st a = Some m \<Longrightarrow> get_msg a st = Inr m"
  by (simp add: get_msg_def)

lemma get_msgD: "get_msg a st = Inr m \<Longrightarrow> heap st a = Some m"
  by (simp add: get_msg_def split: option.splits)

lemma valid_msgD: "valid_msg p st = Inr True \<Longrightarrow> \<exists>a m. p = Some a \<and> heap st a = Some m \<and> magic m = IPC_MESSAGE_MAGIC"
  by (auto simp: valid_msg_def bind_run_eq_Inr dest: get_msgD split: option.splits)

lemma valid_msg_in [simp]: "heap st a = Some m \<Longrightarrow> valid_msg (Some a) st = Inr (magic m = IPC_MESSAGE_MAGIC)"
  by (simp add: valid_msg_def)

lemma unused_in: "IPC_Clients st = ShmMapped \<Longrightarrow> i < length (clients st) \<Longrightarrow> length (clients st) = IPC_MAX_LIST_SIZE
    \<Longrightarrow> unused (int i) st = Inr (c_fd (clients st ! i) = 0)"
  by (simp add: unused_def)

lemma unusedD: "unused i st = Inr False \<Longrightarrow> 0 \<le> i \<and> nat i < IPC_MAX_LIST_SIZE \<and> c_fd (clients st ! nat i) \<noteq> 0"
  by (auto simp: unused_def bind_run_eq_Inr dest: get_clientD split: if_splits)

lemma takeWhile_slot: "length (takeWhile P xs) < length xs \<Longrightarrow> \<not> P (xs ! length (takeWhile P xs))"
  by (rule nth_length_takeWhile)

section \<open>What every call keeps\<close>

definition msg_ok :: "'d ipc_msg \<Rightarrow> bool" where
  "msg_ok m \<longleftrightarrow> magic m = IPC_MESSAGE_MAGIC \<and> unat (msg_size m) \<le> IPC_MAX_BUFFER_SIZE
     \<and> 0 \<le> msg_context m \<and> msg_context m < int IPC_MAX_LIST_SIZE"

text \<open>The shared part, and the part of a process.\<close>

definition shared_ok :: "'d ipc \<Rightarrow> bool" where
  "shared_ok st \<longleftrightarrow> length (clients st) = IPC_MAX_LIST_SIZE \<and> \<not> list_lock st
     \<and> (\<forall>k q m. socks st k = Some q \<longrightarrow> m \<in> set q \<longrightarrow> msg_ok m)"

definition self_ok :: "'d ipc \<Rightarrow> bool" where
  "self_ok st \<longleftrightarrow> \<not> info_lock st \<and> (\<forall>a m. heap st a = Some m \<longrightarrow> msg_ok m \<and> a < ipc_brk st)"

definition ipc_ok :: "'d ipc \<Rightarrow> bool" where
  "ipc_ok st \<longleftrightarrow> shared_ok st \<and> self_ok st"

lemmas ipc_defs = ipc_ok_def shared_ok_def self_ok_def

text \<open>The calls of the library, with waiting as a step of its own, and a write into a message.\<close>

datatype 'd ipc_call =
    C_init | C_deinit | C_start "string option" u32 | C_stop int | C_alloc 'd int u32 | C_write addr 'd
  | C_free "addr option" | C_send int "addr option" | C_wait int ipc_timeout | C_reply "addr option" "addr option"
  | C_cleanup int | C_set_owner int u32 | C_get_owner u32

definition run_call :: "ipc_os \<Rightarrow> 'd ipc_call \<Rightarrow> 'd ipc \<Rightarrow> 'd ipc run" where
  "run_call os c st = (case c of
      C_init \<Rightarrow> bind_run (IPC_init os st) (\<lambda>(_, st). Inr st)
    | C_deinit \<Rightarrow> bind_run (IPC_deinit os st) (\<lambda>(_, st). Inr st)
    | C_start n f \<Rightarrow> bind_run (IPC_start os n f st) (\<lambda>(_, _, st). Inr st)
    | C_stop i \<Rightarrow> bind_run (IPC_stop i st) (\<lambda>(_, st). Inr st)
    | C_alloc j i s \<Rightarrow> bind_run (IPC_alloc_msg os j i s st) (\<lambda>(_, st). Inr st)
    | C_write a d \<Rightarrow> set_data a d st
    | C_free p \<Rightarrow> bind_run (IPC_free_msg p st) (\<lambda>(_, st). Inr st)
    | C_send i p \<Rightarrow> bind_run (IPC_send_msg os i p st) (\<lambda>(_, st). Inr st)
    | C_wait i t \<Rightarrow> bind_run (IPC_wait_msg os id i t st) (\<lambda>(_, st). Inr st)
    | C_reply p r \<Rightarrow> bind_run (IPC_reply_msg os p r st) (\<lambda>(_, st). Inr st)
    | C_cleanup q \<Rightarrow> bind_run (IPC_cleanup_proc q st) (\<lambda>(_, st). Inr st)
    | C_set_owner i w \<Rightarrow> bind_run (IPC_set_owner i w st) (\<lambda>(_, st). Inr st)
    | C_get_owner w \<Rightarrow> bind_run (IPC_get_context_by_owner w st) (\<lambda>(_, st). Inr st))"

lemma unlink_ok [simp]: "ipc_ok (sys_unlink p st) = ipc_ok st"
  by (simp_all add: sys_unlink_def ipc_defs)

lemma close_ok: "shared_ok st \<Longrightarrow> shared_ok (sys_close fd st)"
  by (auto simp: sys_close_def shared_ok_def split: if_splits)

lemma init_ok: "ipc_ok st \<Longrightarrow> IPC_init os st = Inr (r, st') \<Longrightarrow> ipc_ok st'"
  by (auto simp: IPC_init_def ipc_defs Let_def bind_run_eq_Inr split: if_splits)

text \<open>Only the network changes, and no datagram is added.\<close>

definition net_only :: "'d ipc \<Rightarrow> 'd ipc \<Rightarrow> bool" where
  "net_only st st' \<longleftrightarrow> clients st' = clients st \<and> list_lock st' = list_lock st \<and> info_lock st' = info_lock st
     \<and> heap st' = heap st \<and> ipc_brk st' = ipc_brk st \<and> mypid st' = mypid st \<and> i_shmaddr st' = i_shmaddr st
     \<and> IPC_Clients st' = IPC_Clients st \<and> (\<forall>k q. socks st' k = Some q \<longrightarrow> socks st k = Some q)"

lemma net_only_refl [simp]: "net_only st st"
  by (simp add: net_only_def)

lemma net_only_trans: "net_only a b \<Longrightarrow> net_only b c \<Longrightarrow> net_only a c"
  by (simp add: net_only_def)

lemma net_only_sys [simp]:
  "net_only st (sys_unlink p st)" "net_only st (sys_close fd st)" "sys_bind os fd p st = Some st' \<Longrightarrow> net_only st st'"
  by (auto simp: net_only_def sys_unlink_def sys_close_def sys_bind_def split: if_splits)

lemma net_only_ok: "net_only st st' \<Longrightarrow> shared_ok st \<Longrightarrow> shared_ok st'" "net_only st st' \<Longrightarrow> self_ok st \<Longrightarrow> self_ok st'"
  by (simp_all add: net_only_def shared_ok_def self_ok_def) blast

lemma net_only_fold:
  "net_only st (fold (\<lambda>c st. if c_fd c \<noteq> 0 then sys_unlink (c_path c) st else st) cs st)"
proof (induction cs arbitrary: st)
  case (Cons c cs)
  have "net_only st (if c_fd c \<noteq> 0 then sys_unlink (c_path c) st else st)" by simp
  from net_only_trans [OF this Cons] show ?case by simp
qed simp

lemma net_only_bind: "bind_socket os fd p st = (b, st') \<Longrightarrow> net_only st st'"
proof -
  assume "bind_socket os fd p st = (b, st')"
  moreover have "net_only st (sys_close fd (sys_unlink p st))" by (rule net_only_trans [of _ "sys_unlink p st"]) simp_all
  moreover have "sys_bind os fd p (sys_unlink p st) = Some u \<Longrightarrow> net_only st u" for u
    by (rule net_only_trans [of _ "sys_unlink p st"]) simp_all
  ultimately show "net_only st st'"
    by (auto simp: bind_socket_def Let_def split: if_splits option.splits)
qed

text \<open>The lock of the table is taken and given back.\<close>

definition locked_ok :: "'d ipc \<Rightarrow> bool" where
  "locked_ok st \<longleftrightarrow> ipc_ok (unlock_list st)"

lemma lock_list_ok: "ipc_ok st \<Longrightarrow> lock_list st = Inr st' \<Longrightarrow> locked_ok st'"
  by (auto simp: locked_ok_def ipc_defs dest!: lock_listD)

lemma locked_net: "locked_ok st \<Longrightarrow> net_only st st' \<Longrightarrow> locked_ok st'"
proof -
  assume ok: "locked_ok st" and n: "net_only st st'"
  then have "net_only (unlock_list st) (unlock_list st')" by (simp add: net_only_def)
  with ok net_only_ok show "locked_ok st'" by (auto simp: locked_ok_def ipc_ok_def)
qed

lemma locked_put: "locked_ok st \<Longrightarrow> put_client i c st = Inr st' \<Longrightarrow> locked_ok st'"
  by (auto simp: locked_ok_def ipc_defs dest!: put_clientD)

lemma locked_socket: "locked_ok st \<Longrightarrow> locked_ok (st\<lparr>socks := (socks st)(k \<mapsto> [])\<rparr>)"
  by (simp add: locked_ok_def ipc_defs)

lemma locked_end: "locked_ok st \<Longrightarrow> ipc_ok (unlock_list st)"
  by (simp add: locked_ok_def)

lemma deinit_ok: "ipc_ok st \<Longrightarrow> IPC_deinit os st = Inr (r, st') \<Longrightarrow> ipc_ok st'"
proof -
  assume ok: "ipc_ok st" and run: "IPC_deinit os st = Inr (r, st')"
  let ?f = "\<lambda>st. fold (\<lambda>c st. if c_fd c \<noteq> 0 then sys_unlink (c_path c) st else st) (clients st) st"
  show "ipc_ok st'"
  proof (cases "i_shmaddr st")
    case True
    with run obtain s where s: "lock_list st = Inr s"
      and st': "st' = unlock_list ((?f (s\<lparr>i_shmaddr := False\<rparr>))\<lparr>clients := replicate IPC_MAX_LIST_SIZE no_client\<rparr>)
        \<or> st' = (unlock_list ((?f (s\<lparr>i_shmaddr := False\<rparr>))\<lparr>clients := replicate IPC_MAX_LIST_SIZE no_client\<rparr>))
          \<lparr>IPC_Clients := ShmUnmapped, info_lock := False\<rparr>"
      by (auto simp: IPC_deinit_def Let_def bind_run_eq_Inr split: if_splits)
    have "locked_ok (s\<lparr>i_shmaddr := False\<rparr>)" using lock_list_ok [OF ok s] by (simp add: locked_ok_def ipc_defs)
    from locked_net [OF this net_only_fold [of _ "clients (s\<lparr>i_shmaddr := False\<rparr>)"]] have "locked_ok (?f (s\<lparr>i_shmaddr := False\<rparr>))" .
    with st' show ?thesis by (auto simp: locked_ok_def ipc_defs)
  next
    case False
    with run ok show ?thesis by (simp add: IPC_deinit_def)
  qed
qed

lemma start_ok: "ipc_ok st \<Longrightarrow> IPC_start os n f st = Inr (r, i, st') \<Longrightarrow> ipc_ok st'"
proof -
  assume ok: "ipc_ok st" and run: "IPC_start os n f st = Inr (r, i, st')"
  show "ipc_ok st'"
  proof (cases "n = None \<or> \<not> i_shmaddr st")
    case True
    with run ok show ?thesis by (auto simp: IPC_start_def split: option.splits)
  next
    case False
    then obtain name where n: "n = Some name" "i_shmaddr st" by auto
    with run obtain s where s: "lock_list st = Inr s" by (auto simp: IPC_start_def bind_run_eq_Inr)
    let ?s = "s\<lparr>socks := (socks s)((mypid s, sock_fd os) \<mapsto> [])\<rparr>"
    obtain b u where u: "bind_socket os (sock_fd os) (socket_path name) ?s = (b, u)" by (cases "bind_socket os (sock_fd os) (socket_path name) ?s")
    have l: "locked_ok s" "locked_ok ?s" using lock_list_ok [OF ok s] locked_socket by blast+
    with u net_only_bind have lu: "locked_ok u" using locked_net by blast
    show ?thesis using run n s u l(1) lu
      by (auto simp: IPC_start_def Let_def bind_run_eq_Inr intro: locked_end locked_put split: if_splits bool.splits)
  qed
qed

lemma stop_ok: "ipc_ok st \<Longrightarrow> IPC_stop i st = Inr (r, st') \<Longrightarrow> ipc_ok st'"
proof -
  assume ok: "ipc_ok st" and run: "IPC_stop i st = Inr (r, st')"
  have l: "lock_list st = Inr s \<Longrightarrow> locked_ok s" for s using lock_list_ok [OF ok] .
  have n: "net_only s (sys_unlink p (sys_close fd s))" for s :: "'a ipc" and p fd
    by (rule net_only_trans [of _ "sys_close fd s"]) simp_all
  from run ok show "ipc_ok st'"
    by (auto simp: IPC_stop_def Let_def bind_run_eq_Inr intro: locked_end [OF locked_put [OF locked_net [OF l n]]]
        locked_end [OF locked_put [OF locked_net [OF l net_only_sys(1)]]] split: if_splits)
qed

lemma new_msg_ok:
  assumes "ipc_ok st" and "msg_ok m"
  shows "ipc_ok (st\<lparr>heap := (heap st)(ipc_brk st \<mapsto> m), ipc_brk := Suc (ipc_brk st)\<rparr>)"
  using assms by (auto simp: ipc_defs less_SucI)

lemma alloc_ok: "ipc_ok st \<Longrightarrow> IPC_alloc_msg os j i sz st = Inr (r, st') \<Longrightarrow> ipc_ok st'"
proof -
  assume ok: "ipc_ok st" and run: "IPC_alloc_msg os j i sz st = Inr (r, st')"
  have "msg_ok \<lparr>magic = IPC_MESSAGE_MAGIC, msg_size = sz + of_nat header_size, msg_context = i, data = j\<rparr>"
    if "unat sz + header_size \<le> IPC_MAX_BUFFER_SIZE" "unused i st = Inr False"
  proof -
    have "unat (sz + of_nat header_size) = unat sz + header_size"
      using that(1) by (simp add: unat_word_ariths header_size_def IPC_MAX_BUFFER_SIZE_def)
    with that unusedD [OF that(2)] show ?thesis by (auto simp: msg_ok_def)
  qed
  with ok run new_msg_ok [OF ok] show "ipc_ok st'"
    by (auto simp: IPC_alloc_msg_def Let_def bind_run_eq_Inr split: if_splits)
qed

lemma free_ok: "ipc_ok st \<Longrightarrow> IPC_free_msg p st = Inr (r, st') \<Longrightarrow> ipc_ok st'"
  by (auto simp: IPC_free_msg_def ipc_defs bind_run_eq_Inr split: if_splits)

lemma write_ok: "ipc_ok st \<Longrightarrow> set_data a d st = Inr st' \<Longrightarrow> ipc_ok st'"
  by (auto simp: set_data_def ipc_defs bind_run_eq_Inr msg_ok_def dest!: get_msgD split: if_splits)

lemma sendto_ok:
  assumes "sys_sendto os fd m p (st\<lparr>info_lock := True\<rparr>) = Some st'" and "msg_ok m" and "ipc_ok st"
  shows "ipc_ok (unlock_info st')"
  using assms by (auto simp: sys_sendto_def ipc_defs split: if_splits option.splits)

lemma unlock_ok: "ipc_ok st \<Longrightarrow> ipc_ok (st\<lparr>info_lock := False\<rparr>)"
  by (simp add: ipc_defs)

lemma heap_ok: "ipc_ok st \<Longrightarrow> get_msg a (st\<lparr>info_lock := b\<rparr>) = Inr m \<Longrightarrow> msg_ok m"
  by (auto simp: ipc_defs dest!: get_msgD)

text \<open>The end of both sending functions.\<close>

lemma send_end_ok:
  assumes "ipc_ok st" and "lock_info st = Inr s" and "get_msg a s = Inr m"
    and "(case sys_sendto os fd m p s of
          None \<Rightarrow> Inr (IPC_STATUS_NOK, unlock_info s)
        | Some s \<Rightarrow> bind_run (IPC_free_msg q (unlock_info s)) (\<lambda>(_, s). Inr (IPC_STATUS_OK, s))) = Inr (r, st')"
  shows "ipc_ok st'"
proof -
  from assms(2) have s: "s = st\<lparr>info_lock := True\<rparr>" by (simp add: lock_infoD)
  show ?thesis
  proof (cases "sys_sendto os fd m p s")
    case None
    with assms(4) have "st' = unlock_info s" by simp
    with s unlock_ok [OF assms(1)] show ?thesis by simp
  next
    case (Some u)
    with assms(4) obtain x where "IPC_free_msg q (unlock_info u) = Inr (x, st')" by (auto simp: bind_run_eq_Inr)
    moreover have "ipc_ok (unlock_info u)"
      by (rule sendto_ok [OF Some [unfolded s] heap_ok [OF assms(1) assms(3) [unfolded s]] assms(1)])
    ultimately show ?thesis by (rule free_ok [rotated])
  qed
qed

lemma send_ok: "ipc_ok st \<Longrightarrow> IPC_send_msg os i p st = Inr (r, st') \<Longrightarrow> ipc_ok st'"
  unfolding IPC_send_msg_def by (auto simp: bind_run_eq_Inr split: if_splits elim: send_end_ok)

lemma reply_ok: "ipc_ok st \<Longrightarrow> IPC_reply_msg os p q st = Inr (r, st') \<Longrightarrow> ipc_ok st'"
  unfolding IPC_reply_msg_def by (auto simp: bind_run_eq_Inr split: if_splits elim: send_end_ok)

lemma taken_ok:
  assumes "ipc_ok st" and "socks st k = Some (m # q)"
  shows "ipc_ok (st\<lparr>socks := (socks st)(k \<mapsto> q)\<rparr>)" "msg_ok m"
proof -
  have "msg_ok x" if "x \<in> set (m # q)" for x using assms that unfolding ipc_defs by blast
  with assms(1) show "ipc_ok (st\<lparr>socks := (socks st)(k \<mapsto> q)\<rparr>)" "msg_ok m" by (auto simp: ipc_defs)
qed

lemma wait_ok:
  assumes "ipc_ok st" and "malloc_ok os" and "IPC_wait_msg os id i t st = Inr (r, st')"
  shows "ipc_ok st'"
proof -
  have "ipc_ok (unlock_info (st\<lparr>socks := (socks st)(k \<mapsto> q), heap := (heap st)(ipc_brk st \<mapsto> m), ipc_brk := Suc (ipc_brk st)\<rparr>))"
    if "socks st k = Some (m # q)" for k m q
    using unlock_ok [OF new_msg_ok [OF taken_ok [OF assms(1) that]]] by simp
  with assms unlock_ok [OF assms(1)] show ?thesis
    by (auto simp: IPC_wait_msg_def Let_def bind_run_eq_Inr dest!: lock_infoD
        split: if_splits option.splits list.splits)
qed

lemma cleanup_ok: "ipc_ok st \<Longrightarrow> IPC_cleanup_proc q st = Inr (r, st') \<Longrightarrow> ipc_ok st'"
  by (auto simp: IPC_cleanup_proc_def Let_def bind_run_eq_Inr intro: stop_ok split: if_splits)

lemma set_owner_ok: "ipc_ok st \<Longrightarrow> IPC_set_owner i w st = Inr (r, st') \<Longrightarrow> ipc_ok st'"
  by (auto simp: IPC_set_owner_def bind_run_eq_Inr intro: locked_end [OF locked_put [OF lock_list_ok]] split: if_splits)

lemma get_owner_ok: "ipc_ok st \<Longrightarrow> IPC_get_context_by_owner w st = Inr (r, st') \<Longrightarrow> ipc_ok st'"
  by (auto simp: IPC_get_context_by_owner_def Let_def bind_run_eq_Inr intro: locked_end [OF lock_list_ok] split: if_splits)

lemma run_call_ok:
  assumes "ipc_ok st" and "malloc_ok os" and "run_call os c st = Inr st'"
  shows "ipc_ok st'"
  using assms(3) init_ok [OF assms(1)] deinit_ok [OF assms(1)] start_ok [OF assms(1)] stop_ok [OF assms(1)] alloc_ok [OF assms(1)]
    write_ok [OF assms(1)] free_ok [OF assms(1)] send_ok [OF assms(1)] wait_ok [OF assms(1,2)] reply_ok [OF assms(1)]
    cleanup_ok [OF assms(1)] set_owner_ok [OF assms(1)] get_owner_ok [OF assms(1)]
  by (cases c) (auto simp: run_call_def bind_run_eq_Inr)

end
