(* ===== verification/IpcNet.thy ===== *)
theory IpcNet imports IpcOk begin

text \<open>
  The library between processes: the system of all processes that use it, the effect of each call
  where nothing goes wrong, and destination points as queues.
\<close>

section \<open>The effect of the calls\<close>

definition ipc_ready :: "'d ipc \<Rightarrow> bool" where
  "ipc_ready st \<longleftrightarrow> ipc_ok st \<and> i_shmaddr st \<and> IPC_Clients st = ShmMapped"

lemma ready_simps:
  assumes "ipc_ready st"
  shows "i_shmaddr st" "IPC_Clients st = ShmMapped" "length (clients st) = 32" "\<not> list_lock st" "\<not> info_lock st"
    "heap st a = Some m \<Longrightarrow> magic m = IPC_MESSAGE_MAGIC"
  using assms by (auto simp: ipc_ready_def ipc_defs msg_ok_def IPC_MAX_LIST_SIZE_def)

lemma ready_above: "ipc_ready st \<Longrightarrow> ipc_brk st \<le> a \<Longrightarrow> heap st a = None"
  unfolding ipc_ready_def ipc_defs by (cases "heap st a") (auto dest!: spec [of _ a])

lemma ready_fresh: "ipc_ready st \<Longrightarrow> heap st (ipc_brk st) = None"
  by (simp add: ready_above)

definition open_slot :: "nat \<Rightarrow> 'd ipc \<Rightarrow> bool" where
  "open_slot i st \<longleftrightarrow> i < 32 \<and> c_fd (clients st ! i) \<noteq> 0"

lemma unused_slot [simp]:
  assumes "ipc_ready st"
  shows "open_slot i st \<Longrightarrow> unused (int i) st = Inr False"
  using ready_simps [OF assms] by (simp add: open_slot_def unused_in IPC_MAX_LIST_SIZE_def)

lemma slot_client:
  assumes "ipc_ready st" and "i < 32"
  shows "get_client (int i) (st\<lparr>info_lock := b\<rparr>) = Inr (clients st ! i)"
    "get_client (int i) (st\<lparr>list_lock := b\<rparr>) = Inr (clients st ! i)" "get_client (int i) st = Inr (clients st ! i)"
  using ready_simps [OF assms(1)] assms(2) by (simp_all add: get_client_def shm_def)

lemma same_info: "\<not> info_lock st \<Longrightarrow> st\<lparr>info_lock := False\<rparr> = st"
  by (cases st) simp

lemma same_list: "\<not> list_lock st \<Longrightarrow> st\<lparr>list_lock := False\<rparr> = st"
  by (cases st) simp

lemma free_eq:
  assumes "ipc_ready st" and "heap st a = Some m"
  shows "IPC_free_msg (Some a) st = Inr (IPC_STATUS_OK, st\<lparr>heap := (heap st)(a := None)\<rparr>)"
  using assms(2) ready_simps(6) [OF assms] by (simp add: IPC_free_msg_def)

lemma alloc_eq:
  assumes "ipc_ready st" and "open_slot i st" and "malloc_ok os" and "unat sz + header_size \<le> IPC_MAX_BUFFER_SIZE"
  shows "IPC_alloc_msg os j (int i) sz st = Inr (Some (ipc_brk st), st\<lparr>heap := (heap st)(ipc_brk st \<mapsto>
      \<lparr>magic = IPC_MESSAGE_MAGIC, msg_size = sz + of_nat header_size, msg_context = int i, data = j\<rparr>),
      ipc_brk := Suc (ipc_brk st)\<rparr>)"
  using assms by (simp add: IPC_alloc_msg_def Let_def)

lemma sendto_info: "sys_sendto os fd m p (st\<lparr>info_lock := b\<rparr>) = map_option (\<lambda>s. s\<lparr>info_lock := b\<rparr>) (sys_sendto os fd m p st)"
  by (simp add: sys_sendto_def split: option.split)

lemma sendto_frame: "sys_sendto os fd m p st = Some s \<Longrightarrow> s = st\<lparr>socks := socks s\<rparr>"
  by (auto simp: sys_sendto_def split: if_splits option.splits)

lemma sendto_eq:
  assumes "socks st (mypid st, fd) \<noteq> None" and "paths st p = Some k" and "socks st k = Some q" and "length q < queue_max os"
  shows "sys_sendto os fd m p st = Some (st\<lparr>socks := (socks st)(k \<mapsto> q @ [m])\<rparr>)"
  using assms by (simp add: sys_sendto_def)

text \<open>The end of both sending functions.\<close>

definition send_end :: "addr \<Rightarrow> 'd ipc option \<Rightarrow> 'd ipc \<Rightarrow> (IPC_status \<times> 'd ipc) run" where
  "send_end a out st = (case out of None \<Rightarrow> Inr (IPC_STATUS_NOK, st)
     | Some s \<Rightarrow> Inr (IPC_STATUS_OK, s\<lparr>heap := (heap s)(a := None)\<rparr>))"

lemma send_end_eq:
  assumes "\<not> info_lock st" and "heap st a = Some m" and "magic m = IPC_MESSAGE_MAGIC"
  shows "(case sys_sendto os fd m p (st\<lparr>info_lock := True\<rparr>) of
        None \<Rightarrow> Inr (IPC_STATUS_NOK, unlock_info (st\<lparr>info_lock := True\<rparr>))
      | Some s \<Rightarrow> bind_run (IPC_free_msg (Some a) (unlock_info s)) (\<lambda>(_, s). Inr (IPC_STATUS_OK, s)))
    = send_end a (sys_sendto os fd m p st) st"
proof (cases "sys_sendto os fd m p st")
  case None
  with assms(1) show ?thesis by (simp add: sendto_info send_end_def same_info)
next
  case (Some s)
  from sendto_frame [OF Some] obtain ss where s: "s = st\<lparr>socks := ss\<rparr>" by blast
  with assms(1) have "unlock_info s = s" by (intro same_info) simp
  moreover from assms(2) s have "heap s a = Some m" by simp
  ultimately show ?thesis using assms(3) Some by (simp add: sendto_info send_end_def IPC_free_msg_def)
qed

lemma send_msg_eq:
  assumes "ipc_ready st" and "heap st a = Some m" and "msg_context m = int i" and "i < 32" and "open_slot d st"
  shows "IPC_send_msg os (int d) (Some a) st
    = send_end a (sys_sendto os (c_fd (clients st ! i)) m (c_path (clients st ! d)) st) st"
proof -
  note r = ready_simps [OF assms(1)]
  have d: "d < 32" using assms(5) by (simp add: open_slot_def)
  show ?thesis
    using assms(2,3,5) r slot_client [OF assms(1,4)] slot_client [OF assms(1) d]
      send_end_eq [OF r(5) assms(2) r(6) [OF assms(2)], where os = os]
    by (simp add: IPC_send_msg_def unused_slot [OF assms(1)])
qed

lemma reply_msg_eq:
  assumes "ipc_ready st" and "heap st b = Some mb" and "msg_context mb = int d" and "d < 32"
    and "heap st a = Some m" and "msg_context m = int i" and "i < 32"
  shows "IPC_reply_msg os (Some b) (Some a) st
    = send_end a (sys_sendto os (c_fd (clients st ! i)) m (c_path (clients st ! d)) st) st"
proof -
  note r = ready_simps [OF assms(1)]
  show ?thesis
    using assms(2,3,5,6) r slot_client [OF assms(1,4)] slot_client [OF assms(1,7)] r(6) [OF assms(2)]
      send_end_eq [OF r(5) assms(5) r(6) [OF assms(5)], where os = os]
    by (simp add: IPC_reply_msg_def)
qed

lemma wait_eq:
  assumes "ipc_ready st" and "open_slot i st" and "socks st (mypid st, c_fd (clients st ! i)) = Some (m # q)" and "malloc_ok os"
  shows "IPC_wait_msg os others (int i) t st = Inr (Some (ipc_brk st),
    st\<lparr>socks := (socks st)((mypid st, c_fd (clients st ! i)) \<mapsto> q), heap := (heap st)(ipc_brk st \<mapsto> m),
       ipc_brk := Suc (ipc_brk st)\<rparr>)"
proof -
  note r = ready_simps [OF assms(1)]
  have "i < 32" using assms(2) by (simp add: open_slot_def)
  note c = slot_client [OF assms(1) this]
  have "st\<lparr>info_lock := False\<rparr> = st" using r(5) by (rule same_info)
  then show ?thesis using assms(2,3,4) r c unused_slot [OF assms(1)] by (simp add: IPC_wait_msg_def Let_def)
qed

lemma wait_none:
  assumes "ipc_ready st" and "open_slot i st" and "socks st (mypid st, c_fd (clients st ! i)) = Some []"
  shows "IPC_wait_msg os others (int i) IPC_TIMEOUT_IMMEDIATE st = Inr (None, st)"
proof -
  note r = ready_simps [OF assms(1)]
  have "i < 32" using assms(2) by (simp add: open_slot_def)
  note c = slot_client [OF assms(1) this]
  have "st\<lparr>info_lock := False\<rparr> = st" using r(5) by (rule same_info)
  then show ?thesis using assms(2,3) r c unused_slot [OF assms(1)] by (simp add: IPC_wait_msg_def Let_def)
qed

text \<open>A wait that others end with a message.\<close>

lemma wait_others:
  assumes "ipc_ready st" and "open_slot i st" and "socks st (mypid st, c_fd (clients st ! i)) = Some []"
    and "others (st\<lparr>info_lock := True\<rparr>) = st2" and "socks st2 (mypid st, c_fd (clients st ! i)) = Some (m # q)"
    and "malloc_ok os" and "t \<noteq> IPC_TIMEOUT_IMMEDIATE"
  shows "IPC_wait_msg os others (int i) t st = Inr (Some (ipc_brk st2),
    st2\<lparr>socks := (socks st2)((mypid st, c_fd (clients st ! i)) \<mapsto> q), heap := (heap st2)(ipc_brk st2 \<mapsto> m),
       ipc_brk := Suc (ipc_brk st2), info_lock := False\<rparr>)"
proof -
  note r = ready_simps [OF assms(1)]
  have "i < 32" using assms(2) by (simp add: open_slot_def)
  note c = slot_client [OF assms(1) this]
  show ?thesis using assms(2-7) r c unused_slot [OF assms(1)] by (simp add: IPC_wait_msg_def Let_def)
qed

section \<open>Starting and stopping\<close>

lemma free_slot_less: "free_slot cs < length cs \<Longrightarrow> c_fd (cs ! free_slot cs) = 0"
  using nth_length_takeWhile [of "\<lambda>c. c_fd c \<noteq> 0" cs] by (simp add: free_slot_def)

text \<open>The path is free, or a file that a dead process has left behind.\<close>

definition path_free :: "ipc_os \<Rightarrow> string \<Rightarrow> 'd ipc \<Rightarrow> bool" where
  "path_free os p st \<longleftrightarrow> \<not> bind_denied os p \<and> \<not> listening p st \<and> paths st p \<noteq> Some (mypid st, sock_fd os)"

lemma bind_free:
  assumes "path_free os p st"
  shows "bind_socket os (sock_fd os) p (st\<lparr>list_lock := b, socks := (socks st)((mypid st, sock_fd os) \<mapsto> [])\<rparr>)
    = (True, st\<lparr>list_lock := b, socks := (socks st)((mypid st, sock_fd os) \<mapsto> []), paths := (paths st)(p \<mapsto> (mypid st, sock_fd os))\<rparr>)"
proof (cases "paths st p")
  case None
  with assms show ?thesis by (simp add: path_free_def bind_socket_def sys_bind_def)
next
  case (Some k)
  with assms have "k \<noteq> (mypid st, sock_fd os)" "socks st k = None" by (auto simp: path_free_def listening_def)
  with Some assms show ?thesis
    by (simp add: path_free_def bind_socket_def sys_bind_def sys_unlink_def listening_def Let_def)
qed

lemma start_eq:
  assumes "ipc_ready st" and "free_slot (clients st) < 32" and "sock_fd os \<noteq> - 1" and "path_free os (socket_path name) st"
  shows "IPC_start os (Some name) flags st = Inr (IPC_STATUS_OK, Some (int (free_slot (clients st))),
    st\<lparr>clients := (clients st)[free_slot (clients st) := \<lparr>c_fd = sock_fd os, c_path = socket_path name,
         c_flags = flags OR MSG_DONTWAIT, c_owner = IPC_NO_OWNER, c_pid = mypid st\<rparr>],
       socks := (socks st)((mypid st, sock_fd os) \<mapsto> []),
       paths := (paths st)(socket_path name \<mapsto> (mypid st, sock_fd os))\<rparr>)"
proof -
  note r = ready_simps [OF assms(1)]
  have "st\<lparr>list_lock := False\<rparr> = st" using r(4) by (rule same_list)
  then have "st\<lparr>clients := cs, list_lock := False, socks := ss, paths := ps\<rparr> = st\<lparr>clients := cs, socks := ss, paths := ps\<rparr>"
    for cs ss ps by (cases st) simp
  then show ?thesis using assms(2,3) r bind_free [OF assms(4), of True]
    by (simp add: IPC_start_def Let_def IPC_MAX_LIST_SIZE_def)
qed

text \<open>A running instance keeps its name: the new process gets no entry, but its socket stays open.\<close>

lemma start_refused:
  assumes "ipc_ready st" and "free_slot (clients st) < 32" and "sock_fd os \<noteq> - 1" and "listening (socket_path name) st"
  shows "IPC_start os (Some name) flags st = Inr (IPC_STATUS_NOK, None, st\<lparr>socks := (socks st)((mypid st, sock_fd os) \<mapsto> [])\<rparr>)"
proof -
  note r = ready_simps [OF assms(1)]
  let ?u = "st\<lparr>list_lock := True, socks := (socks st)((mypid st, sock_fd os) \<mapsto> [])\<rparr>"
  have "paths st (socket_path name) \<noteq> None" "listening (socket_path name) ?u"
    using assms(4) by (auto simp: listening_def split: option.splits)
  then have "bind_socket os (sock_fd os) (socket_path name) ?u = (False, ?u)"
    by (simp add: bind_socket_def sys_bind_def)
  moreover have "st\<lparr>list_lock := False, socks := ss\<rparr> = st\<lparr>socks := ss\<rparr>" for ss using r(4) by (cases st) simp
  ultimately show ?thesis using assms(2,3) r
    by (simp add: IPC_start_def Let_def IPC_MAX_LIST_SIZE_def)
qed

lemma stop_eq:
  assumes "ipc_ready st" and "open_slot i st" and "c_pid (clients st ! i) = mypid st"
  shows "IPC_stop (int i) st = Inr (IPC_STATUS_OK,
    st\<lparr>clients := (clients st)[i := (clients st ! i)\<lparr>c_path := [], c_fd := 0, c_owner := IPC_NO_OWNER, c_pid := 0\<rparr>],
       socks := (socks st)((mypid st, c_fd (clients st ! i)) := None),
       paths := (paths st)(c_path (clients st ! i) := None)\<rparr>)"
proof -
  note r = ready_simps [OF assms(1)]
  have i: "i < 32" using assms(2) by (simp add: open_slot_def)
  note c = slot_client [OF assms(1) this]
  have e: "st\<lparr>clients := cs, list_lock := False, socks := ss, paths := ps\<rparr> = st\<lparr>clients := cs, socks := ss, paths := ps\<rparr>"
    for cs ss ps using r(4) by (cases st) simp
  show ?thesis using assms(2,3) r c i e unused_slot [OF assms(1)]
    by (simp add: IPC_stop_def Let_def sys_unlink_def sys_close_def)
qed

lemma owner_eq:
  assumes "ipc_ready st" and "first_slot (\<lambda>c. c_fd c \<noteq> 0 \<and> c_owner c = w) (clients st) = i" and "i < 32"
  shows "IPC_get_context_by_owner w st = Inr (Some (int i), st)"
proof -
  note r = ready_simps [OF assms(1)]
  have "st\<lparr>list_lock := False\<rparr> = st" using r(4) by (rule same_list)
  then show ?thesis using assms(2,3) r by (simp add: IPC_get_context_by_owner_def Let_def IPC_MAX_LIST_SIZE_def)
qed

end
