(* ===== verification/IpcSys.thy ===== *)
theory IpcSys imports IpcNet begin

text \<open>
  All the processes that use the message library: their calls in any order, with exits at any moment
  between calls, what holds in every state they reach, and destination points as queues.
\<close>

section \<open>The system\<close>

text \<open>The shared part \<open>w\<close>, seen by a process with its own part \<open>me\<close>.\<close>

definition resume :: "'d ipc \<Rightarrow> 'd ipc \<Rightarrow> 'd ipc" where
  "resume me w = me\<lparr>clients := clients w, list_lock := list_lock w, socks := socks w, paths := paths w\<rparr>"

definition fresh_proc :: "int \<Rightarrow> 'd ipc" where
  "fresh_proc p = \<lparr>clients = replicate IPC_MAX_LIST_SIZE no_client, list_lock = False, socks = (\<lambda>_. None),
     paths = (\<lambda>_. None), mypid = p, i_shmaddr = False, IPC_Clients = ShmNull, info_lock = False,
     heap = (\<lambda>_. None), ipc_brk = 0\<rparr>"

text \<open>The exit of a process closes its sockets.\<close>

definition close_all :: "int \<Rightarrow> 'd ipc \<Rightarrow> 'd ipc" where
  "close_all p w = w\<lparr>socks := (\<lambda>k. if fst k = p then None else socks w k)\<rparr>"

inductive net_reach :: "'d ipc \<Rightarrow> (int \<Rightarrow> 'd ipc) \<Rightarrow> bool" where
  net_start: "net_reach (fresh_proc 0) fresh_proc"
| net_call: "net_reach w ps \<Longrightarrow> malloc_ok os \<Longrightarrow> run_call os c (resume (ps p) w) = Inr st
    \<Longrightarrow> net_reach st (ps(p := st))"
| net_exit: "net_reach w ps \<Longrightarrow> net_reach (close_all p w) (ps(p := fresh_proc p))"

lemma resume_shared [simp]: "shared_ok (resume me w) = shared_ok w"
  by (simp add: shared_ok_def resume_def)

lemma resume_self [simp]: "self_ok (resume me w) = self_ok me"
  by (simp add: self_ok_def resume_def)

lemma fresh_ok [simp]: "self_ok (fresh_proc p)" "shared_ok (fresh_proc p)"
  by (simp_all add: self_ok_def shared_ok_def fresh_proc_def)

lemma close_all_ok: "shared_ok w \<Longrightarrow> shared_ok (close_all p w)"
  by (auto simp: shared_ok_def close_all_def split: if_splits)

lemma net_reach_ok: "net_reach w ps \<Longrightarrow> shared_ok w \<and> (\<forall>p. self_ok (ps p))"
proof (induction rule: net_reach.induct)
  case (net_call w ps os c p st)
  then have "ipc_ok (resume (ps p) w)" by (simp add: ipc_ok_def)
  from run_call_ok [OF this net_call.hyps(2,3)] net_call.IH show ?case by (simp add: ipc_ok_def)
qed (simp_all add: close_all_ok)

lemma net_reach_ipc_ok: "net_reach w ps \<Longrightarrow> ipc_ok (resume (ps p) w)"
  using net_reach_ok [of w ps] by (simp add: ipc_ok_def)

lemma wait_msg_on_heap:
  assumes "IPC_wait_msg os others i t st = Inr (Some a, st')"
  shows "\<exists>m. heap st' a = Some m"
  using assms by (auto simp: IPC_wait_msg_def Let_def bind_run_eq_Inr split: if_splits option.splits list.splits)

text \<open>C4: in every state that the processes reach by library calls and exits, in any order, no lock of
  the library is held, every datagram that waits in a socket and every allocated message has the magic
  number, a size within the maximal buffer and the index of an entry of the table, and a message that
  \<open>IPC_wait_msg\<close> hands out is accepted by \<open>IPC_get_msg\<close>: the daemon that reads it through the
  returned pointer never reads through NULL, as long as every sender uses the library.\<close>

theorem library_invariant:
  assumes "net_reach w ps"
  shows "ipc_ok (resume (ps p) w) \<and>
    (\<forall>os i t a st'. malloc_ok os \<longrightarrow> IPC_wait_msg os id i t (resume (ps p) w) = Inr (Some a, st')
      \<longrightarrow> IPC_get_msg (Some a) st' = Inr (Some a) \<and> (\<exists>j. IPC_get_msg_context (Some a) st' = Inr (Some j) \<and> 0 \<le> j \<and> j < 32))"
proof (intro conjI allI impI)
  show ok: "ipc_ok (resume (ps p) w)" by (rule net_reach_ipc_ok [OF assms])
  fix os i t a st'
  assume os: "malloc_ok os" and w: "IPC_wait_msg os id i t (resume (ps p) w) = Inr (Some a, st')"
  from wait_msg_on_heap [OF w] obtain m where m: "heap st' a = Some m" by blast
  moreover have "ipc_ok st'" by (rule wait_ok [OF ok os w])
  ultimately have "msg_ok m" by (auto simp: ipc_defs)
  with m show "IPC_get_msg (Some a) st' = Inr (Some a)" "\<exists>j. IPC_get_msg_context (Some a) st' = Inr (Some j) \<and> 0 \<le> j \<and> j < 32"
    by (simp_all add: IPC_get_msg_def IPC_get_msg_context_def msg_ok_def IPC_MAX_LIST_SIZE_def)
qed

text \<open>A process that sends a message to itself.\<close>

definition calm_os :: ipc_os where
  "calm_os = \<lparr>ftok_ok = True, shm_exists = False, shm_created = True, shmat_ok = True, shmdt_ok = True, sock_fd = 3,
     bind_denied = (\<lambda>p. False), queue_max = 10, malloc_ok = True\<rparr>"

lemma calm_simps [simp]: "sock_fd calm_os = 3" "malloc_ok calm_os" "queue_max calm_os = 10" "bind_denied calm_os = (\<lambda>p. False)"
  by (simp_all add: calm_os_def)

fun run_calls :: "ipc_os \<Rightarrow> 'd ipc_call list \<Rightarrow> 'd ipc \<Rightarrow> 'd ipc run" where
  "run_calls os [] st = Inr st"
| "run_calls os (c # cs) st = bind_run (run_call os c st) (run_calls os cs)"

lemma resume_same [simp]: "resume st st = st"
  by (simp add: resume_def)

lemma net_calls:
  "net_reach w ps \<Longrightarrow> malloc_ok os \<Longrightarrow> resume (ps p) w = s \<Longrightarrow> run_calls os (c # cs) s = Inr st \<Longrightarrow> net_reach st (ps(p := st))"
proof (induction cs arbitrary: w ps s c)
  case Nil
  then have "run_call os c (resume (ps p) w) = Inr st" by (cases "run_call os c s") auto
  then show ?case by (rule net_call [OF Nil.prems(1,2)])
next
  case (Cons c' cs)
  then obtain u where u: "run_call os c (resume (ps p) w) = Inr u" "run_calls os (c' # cs) u = Inr st" by (auto simp: bind_run_eq_Inr)
  have "net_reach u (ps(p := u))" by (rule net_call [OF Cons.prems(1,2) u(1)])
  moreover have "resume ((ps(p := u)) p) u = u" by simp
  ultimately have "net_reach st ((ps(p := u))(p := st))" using Cons.IH [OF _ Cons.prems(2) _ u(2)] by blast
  then show ?case unfolding fun_upd_upd .
qed

definition self_sent :: "unit ipc" where
  "self_sent = (fresh_proc 7)\<lparr>i_shmaddr := True, IPC_Clients := ShmMapped, ipc_brk := 1,
     clients := (replicate 32 no_client)[0 := \<lparr>c_fd = 3, c_path = socket_path ''a'', c_flags = MSG_DONTWAIT, c_owner = IPC_NO_OWNER, c_pid = 7\<rparr>],
     socks := [(7, 3) \<mapsto> [\<lparr>magic = IPC_MESSAGE_MAGIC, msg_size = 16, msg_context = 0, data = ()\<rparr>]],
     paths := [socket_path ''a'' \<mapsto> (7, 3)]\<rparr>"

lemma self_sent_run:
  "run_calls calm_os [C_init, C_start (Some ''a'') 0, C_alloc () 0 4, C_send 0 (Some 0)] (resume (fresh_proc 7) (fresh_proc 0)) = Inr self_sent"
proof -
  let ?s = "(fresh_proc 7)\<lparr>i_shmaddr := True, IPC_Clients := ShmMapped\<rparr> :: unit ipc"
  have r: "replicate 32 no_client = no_client # replicate 31 no_client" by (simp add: numeral_eq_Suc)
  have ready: "ipc_ready ?s" by (simp add: ipc_ready_def ipc_defs fresh_proc_def)
  have slot: "free_slot (clients ?s) = 0" by (simp add: free_slot_def fresh_proc_def IPC_MAX_LIST_SIZE_def r no_client_def)
  have "path_free calm_os (socket_path ''a'') ?s" by (simp add: path_free_def listening_def fresh_proc_def)
  from start_eq [OF ready _ _ this, of 0] slot
  obtain u where start: "IPC_start calm_os (Some ''a'') 0 ?s = Inr (IPC_STATUS_OK, Some 0, u)"
    and u: "u = ?s\<lparr>clients := (replicate 32 no_client)[0 := \<lparr>c_fd = 3, c_path = socket_path ''a'', c_flags = MSG_DONTWAIT, c_owner = IPC_NO_OWNER, c_pid = 7\<rparr>],
      socks := [(7, 3) \<mapsto> []], paths := [socket_path ''a'' \<mapsto> (7, 3)]\<rparr>"
    by (simp add: fresh_proc_def IPC_MAX_LIST_SIZE_def)
  have ini: "IPC_init calm_os (resume (fresh_proc 7) (fresh_proc 0)) = Inr (IPC_STATUS_OK, ?s)"
    by (simp add: IPC_init_def calm_os_def resume_def fresh_proc_def)
  have uready: "ipc_ready u" using ready u by (simp add: ipc_ready_def ipc_defs fresh_proc_def IPC_MAX_LIST_SIZE_def)
  have open0: "open_slot 0 u" using u by (simp add: open_slot_def)
  have alloc: "IPC_alloc_msg calm_os () 0 4 u = Inr (Some 0, u\<lparr>heap := [0 \<mapsto> \<lparr>magic = IPC_MESSAGE_MAGIC, msg_size = 16, msg_context = 0, data = ()\<rparr>], ipc_brk := 1\<rparr>)"
    (is "_ = Inr (_, ?v)")
    using alloc_eq [OF uready open0, of calm_os 4 "()"] u by (simp add: header_size_def IPC_MAX_BUFFER_SIZE_def fresh_proc_def)
  have v: "ipc_ready ?v" using uready u by (auto simp: ipc_ready_def ipc_defs fresh_proc_def msg_ok_def IPC_MAX_BUFFER_SIZE_def IPC_MAX_LIST_SIZE_def)
  have send: "IPC_send_msg calm_os 0 (Some 0) ?v = Inr (IPC_STATUS_OK, self_sent)"
    using send_msg_eq [OF v, of 0 "\<lparr>magic = IPC_MESSAGE_MAGIC, msg_size = 16, msg_context = 0, data = ()\<rparr>" 0 0 calm_os] open0 u
    by (simp add: open_slot_def sys_sendto_def send_end_def self_sent_def fresh_proc_def)
  show ?thesis by (simp add: run_call_def ini start alloc send [simplified])
qed

theorem library_invariant_witness:
  "\<exists>ps st'. net_reach self_sent ps \<and> ipc_ok (resume (ps 7) self_sent)
    \<and> IPC_wait_msg calm_os id 0 IPC_TIMEOUT_IMMEDIATE (resume (ps 7) self_sent) = Inr (Some 1, st')
    \<and> IPC_get_msg (Some 1) st' = Inr (Some 1)"
proof -
  let ?ps = "fresh_proc(7 := self_sent)"
  have reach: "net_reach self_sent ?ps"
    by (rule net_calls [OF net_start _ refl self_sent_run]) simp
  have same: "resume (?ps 7) self_sent = self_sent" by simp
  have "ipc_ready self_sent" using library_invariant [OF reach, of 7] same
    by (simp add: ipc_ready_def self_sent_def)
  then obtain st' where w: "IPC_wait_msg calm_os id 0 IPC_TIMEOUT_IMMEDIATE self_sent = Inr (Some 1, st')"
    using wait_eq [of self_sent 0 "\<lparr>magic = IPC_MESSAGE_MAGIC, msg_size = 16, msg_context = 0, data = ()\<rparr>" "[]" calm_os id IPC_TIMEOUT_IMMEDIATE]
    by (auto simp: open_slot_def self_sent_def fresh_proc_def)
  with library_invariant [OF reach, of 7] reach same show ?thesis by (metis calm_simps(2))
qed

end
