(* ===== verification/PcdClient.thy ===== *)
theory PcdClient imports IpcSys PcdApi begin

text \<open>
  The client library of the daemon, \<open>pcd/src/pcdapi/src/pcdapi.c\<close>: the requests a process sends to the
  daemon over the message library.  How a compiler lays out the two structures in the body of a
  message is the parameter \<open>api_layout\<close>; \<open>first_word\<close> is the word at the start of a body, which the
  client reads before it has written there.

  A request may wait for several messages.  \<open>rounds\<close> is what the system does and answers in each of
  these waits; when it is used up the client is still waiting.
\<close>

section \<open>Messages in memory\<close>

record 'd api_layout =
  put_request :: "api_msg \<Rightarrow> 'd"
  request_of :: "'d \<Rightarrow> api_msg"
  put_reply :: "api_reply \<Rightarrow> 'd \<Rightarrow> 'd"
  reply_of :: "'d \<Rightarrow> api_reply"
  first_word :: "'d \<Rightarrow> u32"

definition PCD_OWNER_ID :: u32 where "PCD_OWNER_ID = 3085"
definition PCD_SERVER_NAME :: string where "PCD_SERVER_NAME = ''pcd-server''"
definition PCD_CLIENTS_NAME_PREFIX :: string where "PCD_CLIENTS_NAME_PREFIX = ''pcd-client-''"
definition PCD_MAX_PARAM_SIZE :: nat where "PCD_MAX_PARAM_SIZE = 256"
definition PCD_API_REPLY_TIMEOUT :: u32 where "PCD_API_REPLY_TIMEOUT = 5000"

text \<open>\<open>sizeof( pcdApiMessage_t )\<close> and \<open>sizeof( pcdApiReplyMessage_t )\<close>.\<close>

definition api_message_size :: u32 where "api_message_size = 300"
definition api_reply_size :: u32 where "api_reply_size = 12"

text \<open>
  What a layout promises: a request is read back as it was written, and so are the members of a reply
  that were set.
\<close>

definition plain_request :: "api_msg \<Rightarrow> bool" where
  "plain_request m \<longleftrightarrow> m_addr m = 0 \<and> m_context m \<and> length (m_params m) < PCD_MAX_PARAM_SIZE
     \<and> length (groupName (m_ruleId m)) < 16 \<and> length (ruleName (m_ruleId m)) < 16
     \<and> CHR 0x00 \<notin> set (m_params m @ groupName (m_ruleId m) @ ruleName (m_ruleId m))"

definition layout_ok :: "'d api_layout \<Rightarrow> bool" where
  "layout_ok L \<longleftrightarrow> (\<forall>m. plain_request m \<longrightarrow> request_of L (put_request L m) = m)
     \<and> (\<forall>r d. r_msgId (reply_of L (put_reply L r d)) = r_msgId r \<and> r_retval (reply_of L (put_reply L r d)) = r_retval r
         \<and> (r_ruleState r \<noteq> None \<longrightarrow> r_ruleState (reply_of L (put_reply L r d)) = r_ruleState r))"

section \<open>Sending a request\<close>

record 'd client =
  net :: "'d ipc"
  pcdApiInitDone :: bool

text \<open>\<open>wanted\<close>: the request is for the state of a rule and the caller has room for it.\<close>

fun wait_reply ::
  "'d api_layout \<Rightarrow> u32 \<Rightarrow> int \<Rightarrow> ipc_timeout \<Rightarrow> bool \<Rightarrow> (ipc_os \<times> ('d ipc \<Rightarrow> 'd ipc)) list \<Rightarrow> 'd ipc
    \<Rightarrow> (PCD_status \<times> api_rule_state option \<times> 'd ipc) run" where
  "wait_reply L msgId ctx t wanted [] st = Inl Diverges"
| "wait_reply L msgId ctx t wanted ((os, others) # rounds) st =
     bind_run (IPC_wait_msg os others ctx t st) (\<lambda>(reply, st). case reply of
       None \<Rightarrow> Inr (PCD_STATUS_TIMEOUT, None, st)
     | Some a \<Rightarrow> bind_run (IPC_get_msg (Some a) st) (\<lambda>p. bind_run (deref p) (\<lambda>a.
         bind_run (get_msg a st) (\<lambda>m. let r = reply_of L (data m) in
         if r_msgId r \<noteq> msgId
         then bind_run (IPC_free_msg reply st) (\<lambda>(_, st). wait_reply L msgId ctx t wanted rounds st)
         else bind_run (IPC_free_msg reply st) (\<lambda>(_, st).
           Inr (r_retval r, if wanted then r_ruleState r else None, st))))))"

text \<open>The union and the parameters of a request, as the switch sets them; \<open>None\<close> for other types.\<close>

definition request_args :: "api_type \<Rightarrow> string option \<Rightarrow> int \<Rightarrow> (int \<times> string) option" where
  "request_args type ps value = (case type of
      PCD_API_PROCESS_READY \<Rightarrow> Some (value, [])
    | PCD_API_START_PROCESS \<Rightarrow> Some (0, case ps of None \<Rightarrow> [] | Some s \<Rightarrow> take (PCD_MAX_PARAM_SIZE - 1) s)
    | PCD_API_SIGNAL_PROCESS \<Rightarrow> Some (value, [])
    | PCD_API_REDUCE_NETRX_PRIORITY \<Rightarrow> Some (value, [])
    | PCD_API_OTHER _ \<Rightarrow> None
    | _ \<Rightarrow> Some (0, []))"

definition reply_timeout :: "api_type \<Rightarrow> ipc_timeout" where
  "reply_timeout type = Millisec (if type = PCD_API_TERMINATE_PROCESS_SYNC then PCD_API_REPLY_TIMEOUT * 4
     else PCD_API_REPLY_TIMEOUT)"

definition valid_id :: "rule_id option \<Rightarrow> bool" where
  "valid_id rid = (case rid of None \<Rightarrow> True | Some r \<Rightarrow> groupName r \<noteq> [] \<and> ruleName r \<noteq> [])"

definition no_rule_id :: rule_id where
  "no_rule_id = \<lparr>groupName = [], ruleName = []\<rparr>"

text \<open>
  The part between the start and the stop of the destination point \<open>ctx\<close>, with the jumps to the end as
  results.
\<close>

definition request_reply ::
  "ipc_os \<Rightarrow> 'd api_layout \<Rightarrow> 'd \<Rightarrow> (ipc_os \<times> ('d ipc \<Rightarrow> 'd ipc)) list \<Rightarrow> rule_id option \<Rightarrow> api_type
    \<Rightarrow> string option \<Rightarrow> bool \<Rightarrow> int \<Rightarrow> int \<Rightarrow> int \<Rightarrow> 'd ipc \<Rightarrow> (PCD_status \<times> api_rule_state option \<times> 'd ipc) run" where
  "request_reply os L junk rounds rid type ps wanted value pcdCtx ctx st =
     bind_run (IPC_alloc_msg os junk ctx api_message_size st) (\<lambda>(msg, st). case msg of
       None \<Rightarrow> Inr (PCD_STATUS_NOK, None, st)
     | Some _ \<Rightarrow> bind_run (IPC_get_msg msg st) (\<lambda>p. bind_run (deref p) (\<lambda>a. bind_run (get_msg a st) (\<lambda>m.
         let msgId = first_word L (data m) - word_of_int ctx in
         if \<not> valid_id rid then bind_run (IPC_free_msg msg st) (\<lambda>(_, st). Inr (PCD_STATUS_NOK, None, st))
         else case request_args type ps value of
           None \<Rightarrow> bind_run (IPC_free_msg msg st) (\<lambda>(_, st). Inr (PCD_STATUS_BAD_PARAMS, None, st))
         | Some (arg, prm) \<Rightarrow>
             bind_run (set_data a (put_request L \<lparr>m_addr = 0, m_type = type, m_arg = arg,
               m_ruleId = (case rid of None \<Rightarrow> no_rule_id | Some r \<Rightarrow> r), m_msgId = msgId, m_params = prm,
               m_context = True\<rparr>) st) (\<lambda>st.
             bind_run (IPC_send_msg os pcdCtx msg st) (\<lambda>(sent, st).
             if sent = IPC_STATUS_OK
             then wait_reply L msgId ctx (reply_timeout type) (wanted \<and> type = PCD_API_GET_RULE_STATE) rounds st
             else bind_run (IPC_free_msg msg st) (\<lambda>(_, st). Inr (PCD_STATUS_NOK, None, st))))))))"

definition PCD_api_malloc_and_send ::
  "ipc_os \<Rightarrow> 'd api_layout \<Rightarrow> 'd \<Rightarrow> (ipc_os \<times> ('d ipc \<Rightarrow> 'd ipc)) list \<Rightarrow> rule_id option \<Rightarrow> api_type
    \<Rightarrow> string option \<Rightarrow> bool \<Rightarrow> int \<Rightarrow> 'd client \<Rightarrow> (PCD_status \<times> api_rule_state option \<times> 'd client) run" where
  "PCD_api_malloc_and_send os L junk rounds rid type ps wanted value c =
     bind_run (if pcdApiInitDone c then Inr c
         else bind_run (IPC_init os (net c)) (\<lambda>(_, st). Inr \<lparr>net = st, pcdApiInitDone = True\<rparr>)) (\<lambda>c.
     bind_run (IPC_get_context_by_owner PCD_OWNER_ID (net c)) (\<lambda>(pcdCtx, st). case pcdCtx of
       None \<Rightarrow> Inr (PCD_STATUS_INVALID_RULE, None, c\<lparr>net := st\<rparr>)
     | Some pcdCtx \<Rightarrow>
         bind_run (IPC_start os (Some (PCD_CLIENTS_NAME_PREFIX @ int_str (mypid st))) 0 st) (\<lambda>(ok, ctx, st). case ctx of
           None \<Rightarrow> Inr (PCD_STATUS_NOK, None, c\<lparr>net := st\<rparr>)
         | Some ctx \<Rightarrow>
             bind_run (request_reply os L junk rounds rid type ps wanted value pcdCtx ctx st) (\<lambda>(retval, rs, st).
             bind_run (IPC_stop ctx st) (\<lambda>(_, st). Inr (retval, rs, c\<lparr>net := st\<rparr>))))))"

section \<open>The functions of the library\<close>

text \<open>All take the answers of the system, the layout, fresh memory and the rounds of waiting.\<close>

type_synonym 'd request = "ipc_os \<Rightarrow> 'd api_layout \<Rightarrow> 'd \<Rightarrow> (ipc_os \<times> ('d ipc \<Rightarrow> 'd ipc)) list \<Rightarrow> 'd client
  \<Rightarrow> (PCD_status \<times> api_rule_state option \<times> 'd client) run"

definition PCD_api_start_process :: "rule_id option \<Rightarrow> string option \<Rightarrow> 'd request" where
  "PCD_api_start_process rid ps os L junk rounds c =
     PCD_api_malloc_and_send os L junk rounds rid PCD_API_START_PROCESS ps False (- 1) c"

definition PCD_api_signal_process :: "rule_id option \<Rightarrow> int \<Rightarrow> 'd request" where
  "PCD_api_signal_process rid sig os L junk rounds c =
     PCD_api_malloc_and_send os L junk rounds rid PCD_API_SIGNAL_PROCESS None False sig c"

definition PCD_api_terminate_process :: "rule_id option \<Rightarrow> 'd request" where
  "PCD_api_terminate_process rid os L junk rounds c =
     PCD_api_malloc_and_send os L junk rounds rid PCD_API_TERMINATE_PROCESS_SYNC None False (- 1) c"

definition PCD_api_terminate_process_non_blocking :: "rule_id option \<Rightarrow> 'd request" where
  "PCD_api_terminate_process_non_blocking rid os L junk rounds c =
     PCD_api_malloc_and_send os L junk rounds rid PCD_API_TERMINATE_PROCESS None False (- 1) c"

definition PCD_api_kill_process :: "rule_id option \<Rightarrow> 'd request" where
  "PCD_api_kill_process rid os L junk rounds c =
     PCD_api_malloc_and_send os L junk rounds rid PCD_API_KILL_PROCESS None False (- 1) c"

definition PCD_api_send_process_ready :: "'d request" where
  "PCD_api_send_process_ready os L junk rounds c =
     PCD_api_malloc_and_send os L junk rounds None PCD_API_PROCESS_READY None False (mypid (net c)) c"

definition PCD_api_get_rule_state :: "rule_id option \<Rightarrow> bool \<Rightarrow> 'd request" where
  "PCD_api_get_rule_state rid wanted os L junk rounds c =
     (if \<not> wanted then Inr (PCD_STATUS_BAD_PARAMS, None, c)
      else PCD_api_malloc_and_send os L junk rounds rid PCD_API_GET_RULE_STATE None wanted (- 1) c)"

definition PCD_api_reduce_net_rx_priority :: "int \<Rightarrow> 'd request" where
  "PCD_api_reduce_net_rx_priority priority os L junk rounds c =
     PCD_api_malloc_and_send os L junk rounds None PCD_API_REDUCE_NETRX_PRIORITY None False priority c"

definition PCD_api_restore_net_rx_priority :: "'d request" where
  "PCD_api_restore_net_rx_priority os L junk rounds c =
     PCD_api_malloc_and_send os L junk rounds None PCD_API_RESTORE_NETRX_PRIORITY None False 0 c"

end
