(* ===== verification/PcdLink.thy ===== *)
theory PcdLink imports PcdClient begin

text \<open>
  The daemon's end of the connection, the parts of \<open>pcd/src/pcd_api.c\<close> that theory PcdApi leaves to the
  message library: the destination point of the daemon, and the message loop with the real calls.
\<close>

section \<open>The daemon's end\<close>

record 'd daemon =
  d_net :: "'d ipc"
  d_api :: api_state
  pcdContext :: int

definition PCD_api_init :: "ipc_os \<Rightarrow> 'd daemon \<Rightarrow> (PCD_status \<times> 'd daemon) run" where
  "PCD_api_init os d =
     bind_run (IPC_init os (d_net d)) (\<lambda>(ok, st).
     if ok \<noteq> IPC_STATUS_OK then Inr (PCD_STATUS_NOK, d\<lparr>d_net := st\<rparr>)
     else bind_run (IPC_start os (Some PCD_SERVER_NAME) 0 st) (\<lambda>(ok, ctx, st). case ctx of
       None \<Rightarrow> Inr (PCD_STATUS_NOK, d\<lparr>d_net := st\<rparr>)
     | Some i \<Rightarrow> bind_run (IPC_set_owner i PCD_OWNER_ID st) (\<lambda>(ok, st).
         if ok = IPC_STATUS_OK then Inr (PCD_STATUS_OK, d\<lparr>d_net := st, pcdContext := i\<rparr>)
         else bind_run (IPC_stop i st) (\<lambda>(_, st). Inr (PCD_STATUS_NOK, d\<lparr>d_net := st, pcdContext := i\<rparr>)))))"

definition PCD_api_deinit :: "'d daemon \<Rightarrow> (PCD_status \<times> 'd daemon) run" where
  "PCD_api_deinit d =
     bind_run (IPC_stop (pcdContext d) (d_net d)) (\<lambda>(_, st). Inr (PCD_STATUS_OK, d\<lparr>d_net := st\<rparr>))"

text \<open>
  One message of the loop; the result is whether the loop goes on.  Without the magic number there is
  no reply, and \<open>data\<close> is NULL.
\<close>

definition serve_message ::
  "ipc_os \<Rightarrow> misc_os \<Rightarrow> 'd api_layout \<Rightarrow> 'd \<Rightarrow> addr \<Rightarrow> 'd daemon \<Rightarrow> (bool \<times> 'd daemon) run" where
  "serve_message os mo L junk a d =
     bind_run (IPC_get_msg (Some a) (d_net d)) (\<lambda>p.
     bind_run (IPC_get_msg_context (Some a) (d_net d)) (\<lambda>ctx. case ctx of
       None \<Rightarrow> Inl NullDeref
     | Some _ \<Rightarrow> bind_run (IPC_alloc_msg os junk (pcdContext d) api_reply_size (d_net d)) (\<lambda>(reply, st). case reply of
         None \<Rightarrow> bind_run (IPC_free_msg (Some a) st) (\<lambda>(_, st). Inr (False, d\<lparr>d_net := st\<rparr>))
       | Some r \<Rightarrow> bind_run (deref p) (\<lambda>b. bind_run (get_msg b st) (\<lambda>raw.
           let m = (request_of L (data raw))\<lparr>m_addr := a, m_context := True\<rparr> in
           bind_run (api_dispatch mo m (d_api d)) (\<lambda>(retval, rs, api).
           bind_run (if m_type m = PCD_API_TERMINATE_PROCESS_SYNC \<and> retval = PCD_STATUS_WAIT
             then bind_run (IPC_free_msg reply st) (\<lambda>(_, st). Inr st)
             else bind_run (get_msg r st) (\<lambda>x.
               bind_run (set_data r (put_reply L \<lparr>r_msgId = m_msgId m, r_ruleState = rs, r_retval = retval\<rparr> (data x)) st) (\<lambda>st.
               bind_run (IPC_reply_msg os (Some a) reply st) (\<lambda>(sent, st).
               if sent = IPC_STATUS_OK then Inr st
               else bind_run (IPC_free_msg reply st) (\<lambda>(_, st). Inr st))))) (\<lambda>st.
           if retval \<noteq> PCD_STATUS_WAIT
           then bind_run (IPC_free_msg (Some a) st) (\<lambda>(_, st). Inr (True, d\<lparr>d_net := st, d_api := api\<rparr>))
           else Inr (True, d\<lparr>d_net := st, d_api := api\<rparr>))))))))"

fun serve_messages ::
  "ipc_os \<Rightarrow> misc_os \<Rightarrow> 'd api_layout \<Rightarrow> 'd \<Rightarrow> nat \<Rightarrow> 'd daemon \<Rightarrow> (PCD_status \<times> 'd daemon) run" where
  "serve_messages os mo L junk 0 d = Inr (PCD_STATUS_OK, d)"
| "serve_messages os mo L junk (Suc budget) d =
     bind_run (IPC_wait_msg os id (pcdContext d) IPC_TIMEOUT_IMMEDIATE (d_net d)) (\<lambda>(msg, st). case msg of
       None \<Rightarrow> Inr (PCD_STATUS_OK, d\<lparr>d_net := st\<rparr>)
     | Some a \<Rightarrow> bind_run (serve_message os mo L junk a (d\<lparr>d_net := st\<rparr>)) (\<lambda>(more, d).
         if more then serve_messages os mo L junk budget d else Inr (PCD_STATUS_NOK, d)))"

definition check_messages ::
  "ipc_os \<Rightarrow> misc_os \<Rightarrow> 'd api_layout \<Rightarrow> 'd \<Rightarrow> 'd daemon \<Rightarrow> (PCD_status \<times> 'd daemon) run" where
  "check_messages os mo L junk d = serve_messages os mo L junk 5 d"

text \<open>\<open>PCD_api_reply_message\<close> with the real calls.\<close>

definition answer_cookie ::
  "ipc_os \<Rightarrow> 'd api_layout \<Rightarrow> 'd \<Rightarrow> addr option \<Rightarrow> PCD_status \<Rightarrow> 'd daemon \<Rightarrow> 'd daemon run" where
  "answer_cookie os L junk ck retval d = (case ck of None \<Rightarrow> Inr d | Some a \<Rightarrow>
     bind_run (IPC_get_msg_context ck (d_net d)) (\<lambda>ctx.
     bind_run (case ctx of None \<Rightarrow> Inr (d_net d)
       | Some _ \<Rightarrow> bind_run (IPC_alloc_msg os junk (pcdContext d) api_reply_size (d_net d)) (\<lambda>(reply, st). case reply of
           None \<Rightarrow> Inr st
         | Some r \<Rightarrow> bind_run (get_msg a st) (\<lambda>raw. bind_run (get_msg r st) (\<lambda>x.
             bind_run (set_data r (put_reply L \<lparr>r_msgId = m_msgId (request_of L (data raw)), r_ruleState = None,
               r_retval = retval\<rparr> (data x)) st) (\<lambda>st.
             bind_run (IPC_reply_msg os ck reply st) (\<lambda>(sent, st).
             if sent = IPC_STATUS_OK then Inr st
             else bind_run (IPC_free_msg reply st) (\<lambda>(_, st). Inr st))))))) (\<lambda>st.
     bind_run (IPC_free_msg ck st) (\<lambda>(_, st). Inr (d\<lparr>d_net := st\<rparr>)))))"

end
