(* ===== verification/PcdServe.thy ===== *)
theory PcdServe imports PcdLink begin

text \<open>
  The message loop of the daemon over the message library does what the abstract loop of theory PcdApi
  does with the datagrams that wait in the daemon's socket.
\<close>

section \<open>The dispatch of a message\<close>

text \<open>Only a synchronous termination is left waiting.\<close>

lemma no_wait:
  "PCD_timer_dequeue_rule p b st = Inr (r, st') \<Longrightarrow> r \<noteq> PCD_STATUS_WAIT"
  "PCD_process_stop p b ck st = Inr (r, st') \<Longrightarrow> r \<noteq> PCD_STATUS_WAIT"
  "PCD_process_signal_by_rule p sig st = Inr (r, st') \<Longrightarrow> r \<noteq> PCD_STATUS_WAIT"
  by (auto simp: PCD_timer_dequeue_rule_def PCD_process_stop_def PCD_process_signal_by_rule_def
      bind_run_eq_Inr Let_def split: option.splits if_splits)

lemma stop_wait: "PCD_api_stop a b None st = Inr (r, st') \<Longrightarrow> r \<noteq> PCD_STATUS_WAIT"
  by (auto simp: PCD_api_stop_def bind_run_eq_Inr dest: no_wait split: prod.splits if_splits)

lemma signal_wait: "PCD_api_signal a sig st = Inr (r, st') \<Longrightarrow> r \<noteq> PCD_STATUS_WAIT"
  by (auto simp: PCD_api_signal_def dest: no_wait split: if_splits)

lemma start_wait: "PCD_api_start a st = (r, st') \<Longrightarrow> r \<noteq> PCD_STATUS_WAIT"
  by (auto simp: PCD_api_start_def PCD_timer_enqueue_rule_def split: if_splits prod.splits option.splits)

lemma api_request_wait:
  assumes "api_request m a st = Inr (PCD_STATUS_WAIT, rs, st')"
  shows "m_type m = PCD_API_TERMINATE_PROCESS_SYNC"
  using assms by (cases "m_type m")
    (auto simp: api_request_def bind_run_eq_Inr dest!: start_wait stop_wait signal_wait split: prod.splits if_splits)

lemma ready_wait: "process_ready q st = Inr (r, st') \<Longrightarrow> r \<noteq> PCD_STATUS_WAIT"
proof -
  assume "process_ready q st = Inr (r, st')"
  then obtain rule where "(case rule of None \<Rightarrow> Inr (PCD_STATUS_INVALID_RULE, st)
    | Some a \<Rightarrow> (case endCondition (rules st a) of
        END_PROCESS_READY _ \<Rightarrow>
          Inr (PCD_STATUS_OK, upd_rule a (\<lambda>r. r\<lparr>endCondition := END_PROCESS_READY True\<rparr>) st)
      | _ \<Rightarrow> Inr (PCD_STATUS_BAD_PARAMS, st))) = (Inr (r, st') :: (PCD_status \<times> pcd) run)"
    by (auto simp: process_ready_def bind_run_eq_Inr)
  then show ?thesis by (cases rule) (auto split: end_cond.splits)
qed

lemma dispatch_wait:
  "api_dispatch mo m s = Inr (PCD_STATUS_WAIT, rs, s') \<Longrightarrow> m_type m = PCD_API_TERMINATE_PROCESS_SYNC"
  by (auto simp: api_dispatch_def PCD_misc_reduce_net_rx_priority_def PCD_misc_restore_net_rx_priority_def Let_def bind_run_eq_Inr
      dest: api_request_wait ready_wait split: prod.splits option.splits if_splits)

text \<open>The records of what was sent and freed play no role.\<close>

definition unlogged :: "api_state \<Rightarrow> api_state" where
  "unlogged s = s\<lparr>sent := [], freed_msgs := []\<rparr>"

lemma dispatch_unlogged:
  "bind_run (api_dispatch mo m (unlogged s)) (\<lambda>(r, rs, s'). Inr (r, rs, unlogged s'))
    = bind_run (api_dispatch mo m s) (\<lambda>(r, rs, s'). Inr (r, rs, unlogged s'))"
proof -
  have e: "bind_run m f = bind_run m g" if "\<And>x. f x = g x" for m :: "'x run" and f g :: "'x \<Rightarrow> 'y run"
    using that by (intro bind_run_cong) simp_all
  show ?thesis unfolding api_dispatch_def unlogged_def
    by (simp add: bind_run_assoc split_beta, intro conjI impI e) (auto simp: bind_run_assoc split_beta split: option.split intro!: e)
qed

section \<open>One message\<close>

definition reply_to :: "'d api_layout \<Rightarrow> 'd \<Rightarrow> nat \<Rightarrow> u32 \<Rightarrow> api_rule_state option \<Rightarrow> PCD_status \<Rightarrow> 'd ipc_msg" where
  "reply_to L junk D mid rs retval = \<lparr>magic = IPC_MESSAGE_MAGIC, msg_size = api_reply_size + of_nat header_size,
     msg_context = int D, data = put_reply L \<lparr>r_msgId = mid, r_ruleState = rs, r_retval = retval\<rparr> junk\<rparr>"

text \<open>A datagram goes to the entry \<open>i\<close>, or is lost.\<close>

definition delivered :: "ipc_os \<Rightarrow> nat \<Rightarrow> nat \<Rightarrow> 'd ipc_msg \<Rightarrow> 'd ipc \<Rightarrow> 'd ipc" where
  "delivered os D i r st = (case sys_sendto os (c_fd (clients st ! D)) r (c_path (clients st ! i)) st of
     None \<Rightarrow> st | Some s \<Rightarrow> s)"

text \<open>The state of the library after a message at address \<open>a\<close> was handled with the result \<open>retval\<close>.\<close>

definition after_message :: "ipc_os \<Rightarrow> nat \<Rightarrow> addr \<Rightarrow> nat \<Rightarrow> 'd ipc_msg \<Rightarrow> PCD_status \<Rightarrow> 'd ipc \<Rightarrow> 'd ipc" where
  "after_message os D a i r retval st =
     (if retval = PCD_STATUS_WAIT then st\<lparr>ipc_brk := Suc (ipc_brk st)\<rparr>
      else (delivered os D i r st)\<lparr>heap := (heap st)(a := None), ipc_brk := Suc (ipc_brk st)\<rparr>)"

lemma delivered_frame: "\<exists>ss. delivered os D i r st = st\<lparr>socks := ss\<rparr>"
proof (cases "sys_sendto os (c_fd (clients st ! D)) r (c_path (clients st ! i)) st")
  case None
  then have "delivered os D i r st = st\<lparr>socks := socks st\<rparr>" by (simp add: delivered_def)
  then show ?thesis by (rule exI [of _ "socks st"])
next
  case (Some s)
  from sendto_frame [OF this] Some have "delivered os D i r st = st\<lparr>socks := socks s\<rparr>" by (simp add: delivered_def)
  then show ?thesis by (rule exI [of _ "socks s"])
qed

lemma sendto_heap:
  "sys_sendto os fd m p (st\<lparr>heap := h, ipc_brk := b\<rparr>) = map_option (\<lambda>s. s\<lparr>heap := h, ipc_brk := b\<rparr>) (sys_sendto os fd m p st)"
  by (simp add: sys_sendto_def split: option.split)

lemma reply_size: "unat api_reply_size + header_size \<le> IPC_MAX_BUFFER_SIZE"
  by (simp add: api_reply_size_def header_size_def IPC_MAX_BUFFER_SIZE_def)

lemma reply_to_ok: "D < 32 \<Longrightarrow> msg_ok (reply_to L junk D mid rs retval)"
  by (simp add: msg_ok_def reply_to_def api_reply_size_def header_size_def IPC_MAX_BUFFER_SIZE_def IPC_MAX_LIST_SIZE_def)

lemma ready_new:
  "ipc_ready st \<Longrightarrow> msg_ok m \<Longrightarrow> ipc_ready (st\<lparr>heap := (heap st)(ipc_brk st \<mapsto> m), ipc_brk := Suc (ipc_brk st)\<rparr>)"
  using new_msg_ok [of st m] by (simp add: ipc_ready_def)

text \<open>The reply of one message.\<close>

lemma reply_step:
  fixes st :: "'d ipc"
  assumes "ipc_ready st" and "open_slot D st" and "heap st a = Some raw" and "a \<noteq> b" and "heap st b = None"
    and r: "r = reply_to L junk D mid rs retval"
    and u: "u = st\<lparr>heap := (heap st)(b \<mapsto> r), ipc_brk := n\<rparr>" and ready: "ipc_ready u"
  shows "bind_run (IPC_reply_msg os (Some a) (Some b) u) (\<lambda>(sent, st).
      if sent = IPC_STATUS_OK then Inr st else bind_run (IPC_free_msg (Some b) st) (\<lambda>(_, st). Inr st))
    = Inr ((delivered os D (nat (msg_context raw)) r st)\<lparr>heap := heap st, ipc_brk := n\<rparr>)"
proof -
  have D: "D < 32" using assms(2) by (simp add: open_slot_def)
  have "msg_ok raw" using assms(1,3) by (auto simp: ipc_ready_def ipc_defs)
  then have i: "msg_context raw = int (nat (msg_context raw))" "nat (msg_context raw) < 32"
    by (auto simp: msg_ok_def IPC_MAX_LIST_SIZE_def)
  have h: "heap u a = Some raw" "heap u b = Some r" using assms(3,4) u by simp_all
  have c: "msg_context r = int D" using r by (simp add: reply_to_def)
  note eq = reply_msg_eq [OF ready h(1) i h(2) c D, where os = os]
  have e: "(heap st)(b := None) = heap st" using assms(5) by auto
  show ?thesis
  proof (cases "sys_sendto os (c_fd (clients st ! D)) r (c_path (clients st ! nat (msg_context raw))) st")
    case None
    then have "sys_sendto os (c_fd (clients u ! D)) r (c_path (clients u ! nat (msg_context raw))) u = None"
      by (simp add: u sendto_heap)
    with None e show ?thesis unfolding eq by (simp add: send_end_def delivered_def u free_eq [OF ready h(2), unfolded u])
  next
    case (Some s)
    then have "sys_sendto os (c_fd (clients u ! D)) r (c_path (clients u ! nat (msg_context raw))) u
        = Some (s\<lparr>heap := (heap st)(b \<mapsto> r), ipc_brk := n\<rparr>)"
      by (simp add: u sendto_heap)
    with Some e show ?thesis unfolding eq by (simp add: send_end_def delivered_def)
  qed
qed

lemma serve_message_eq:
  fixes d :: "'d daemon"
  assumes "ipc_ready (d_net d)" and "open_slot D (d_net d)" and "pcdContext d = int D" and "malloc_ok os"
    and "heap (d_net d) a = Some raw"
  shows "serve_message os mo L junk a d =
    bind_run (api_dispatch mo ((request_of L (data raw))\<lparr>m_addr := a, m_context := True\<rparr>) (d_api d)) (\<lambda>(retval, rs, api).
      Inr (True, d\<lparr>d_net := after_message os D a (nat (msg_context raw))
          (reply_to L junk D (m_msgId (request_of L (data raw))) rs retval) retval (d_net d), d_api := api\<rparr>))"
proof -
  let ?st = "d_net d"
  let ?b = "ipc_brk ?st"
  let ?m = "(request_of L (data raw))\<lparr>m_addr := a, m_context := True\<rparr>"
  let ?new = "\<lparr>magic = IPC_MESSAGE_MAGIC, msg_size = api_reply_size + of_nat header_size, msg_context = int D, data = junk\<rparr>"
  let ?u = "?st\<lparr>heap := (heap ?st)(?b \<mapsto> ?new), ipc_brk := Suc ?b\<rparr>"
  note ready = assms(1)
  have D: "D < 32" using assms(2) by (simp add: open_slot_def)
  have mg: "magic raw = IPC_MESSAGE_MAGIC" by (rule ready_simps(6) [OF ready assms(5)])
  note fresh = ready_fresh [OF ready]
  have ab: "a \<noteq> ?b" using fresh assms(5) by auto
  have new: "msg_ok ?new" using reply_to_ok [OF D, of L junk] by (simp add: reply_to_def msg_ok_def)
  note u = ready_new [OF ready new]
  have e: "(heap ?st)(?b := None) = heap ?st" using fresh by auto
  have free: "IPC_free_msg (Some ?b) ?u = Inr (IPC_STATUS_OK, ?st\<lparr>ipc_brk := Suc ?b\<rparr>)"
    using free_eq [OF u, of ?b ?new] e by simp
  have reply: "bind_run (IPC_reply_msg os (Some a) (Some ?b) (?st\<lparr>heap := (heap ?st)(?b \<mapsto> reply_to L junk D mid rs retval), ipc_brk := Suc ?b\<rparr>))
      (\<lambda>(sent, st). if sent = IPC_STATUS_OK then Inr st else bind_run (IPC_free_msg (Some ?b) st) (\<lambda>(_, st). Inr st))
    = Inr ((delivered os D (nat (msg_context raw)) (reply_to L junk D mid rs retval) ?st)\<lparr>heap := heap ?st, ipc_brk := Suc ?b\<rparr>)"
    for mid rs retval
    by (rule reply_step [OF ready assms(2,5) ab fresh refl refl ready_new [OF ready reply_to_ok [OF D]]])
  have wr: "set_data ?b (put_reply L \<lparr>r_msgId = mid, r_ruleState = rs, r_retval = retval\<rparr> junk) ?u
    = Inr (?st\<lparr>heap := (heap ?st)(?b \<mapsto> reply_to L junk D mid rs retval), ipc_brk := Suc ?b\<rparr>)" for mid rs retval
    by (simp add: set_data_def reply_to_def)
  have last: "IPC_free_msg (Some a) (s\<lparr>heap := heap ?st, ipc_brk := Suc ?b\<rparr>)
      = Inr (IPC_STATUS_OK, s\<lparr>heap := (heap ?st)(a := None), ipc_brk := Suc ?b\<rparr>)" for s
    using assms(5) mg by (simp add: IPC_free_msg_def)
  have alloc: "IPC_alloc_msg os junk (pcdContext d) api_reply_size ?st = Inr (Some ?b, ?u)"
    using alloc_eq [OF ready assms(2,4) reply_size] assms(3) by simp
  have g: "IPC_get_msg (Some a) ?st = Inr (Some a)" "IPC_get_msg_context (Some a) ?st = Inr (Some (msg_context raw))"
    using assms(5) mg by (simp_all add: IPC_get_msg_def IPC_get_msg_context_def)
  have raw: "get_msg a ?u = Inr raw" "get_msg ?b ?u = Inr ?new" using assms(5) ab by simp_all
  show ?thesis
    unfolding serve_message_def g alloc bind_run.simps option.case prod.case deref_simps raw Let_def free reply
    by (rule bind_run_cong [OF refl]) (auto simp: wr reply free last after_message_def dest!: dispatch_wait split: if_splits)
qed

section \<open>The loop\<close>

text \<open>
  The datagrams of the daemon's socket as requests: each takes an address for itself and the next for
  its reply.
\<close>

fun incoming :: "'d api_layout \<Rightarrow> addr \<Rightarrow> 'd ipc_msg list \<Rightarrow> api_msg list" where
  "incoming L b [] = []"
| "incoming L b (m # q) = (request_of L (data m))\<lparr>m_addr := b, m_context := True\<rparr> # incoming L (b + 2) q"

definition own_sock :: "nat \<Rightarrow> 'd ipc \<Rightarrow> int \<times> int" where
  "own_sock D st = (mypid st, c_fd (clients st ! D))"

text \<open>No request asks for its reply in the daemon's own socket.\<close>

definition foreign :: "nat \<Rightarrow> 'd ipc \<Rightarrow> 'd ipc_msg list \<Rightarrow> bool" where
  "foreign D st q \<longleftrightarrow> (\<forall>m \<in> set q. paths st (c_path (clients st ! nat (msg_context m))) \<noteq> Some (own_sock D st))"

definition daemon_ready :: "ipc_os \<Rightarrow> nat \<Rightarrow> 'd daemon \<Rightarrow> 'd ipc_msg list \<Rightarrow> bool" where
  "daemon_ready os D d q \<longleftrightarrow> ipc_ready (d_net d) \<and> open_slot D (d_net d) \<and> pcdContext d = int D \<and> malloc_ok os
     \<and> socks (d_net d) (own_sock D (d_net d)) = Some q \<and> foreign D (d_net d) q"

lemma delivered_ready: "ipc_ready st \<Longrightarrow> msg_ok r \<Longrightarrow> ipc_ready (delivered os D i r st)"
  by (auto simp: delivered_def sys_sendto_def ipc_ready_def ipc_defs split: option.split)

lemma delivered_own:
  assumes "paths st (c_path (clients st ! i)) \<noteq> Some (own_sock D st)"
  shows "socks (delivered os D i r st) (own_sock D st) = socks st (own_sock D st)"
  using assms by (auto simp: delivered_def sys_sendto_def own_sock_def split: option.splits)

lemma ready_less: "ipc_ready st \<Longrightarrow> ipc_ready (st\<lparr>ipc_brk := Suc (ipc_brk st)\<rparr>)"
  by (auto simp: ipc_ready_def ipc_defs less_SucI)

lemma ready_free: "ipc_ready st \<Longrightarrow> ipc_ready (st\<lparr>heap := (heap st)(a := None), ipc_brk := Suc (ipc_brk st)\<rparr>)"
  by (auto simp: ipc_ready_def ipc_defs less_SucI)

lemma after_message_ready:
  assumes "ipc_ready st" and "msg_ok r" and "paths st (c_path (clients st ! i)) \<noteq> Some (own_sock D st)"
  shows "ipc_ready (after_message os D a i r retval st)"
    and "\<exists>ss h. after_message os D a i r retval st = st\<lparr>socks := ss, heap := h, ipc_brk := Suc (ipc_brk st)\<rparr>
      \<and> ss (own_sock D st) = socks st (own_sock D st)"
proof -
  obtain ss where ss: "delivered os D i r st = st\<lparr>socks := ss\<rparr>" using delivered_frame by blast
  with delivered_own [OF assms(3), of os r] have k: "ss (own_sock D st) = socks st (own_sock D st)" by simp
  show "\<exists>ss h. after_message os D a i r retval st = st\<lparr>socks := ss, heap := h, ipc_brk := Suc (ipc_brk st)\<rparr>
      \<and> ss (own_sock D st) = socks st (own_sock D st)"
  proof (cases "retval = PCD_STATUS_WAIT")
    case True
    then show ?thesis by (intro exI [of _ "socks st"] exI [of _ "heap st"]) (simp add: after_message_def)
  next
    case False
    with ss k show ?thesis
      by (intro exI [of _ ss] exI [of _ "(heap st)(a := None)"]) (simp add: after_message_def)
  qed
  show "ipc_ready (after_message os D a i r retval st)"
    using ready_less [OF assms(1)] ready_free [OF delivered_ready [OF assms(1,2), of os D i], of a] ss
    by (simp add: after_message_def)
qed

lemma handle_message_unlogged:
  "m_context m \<Longrightarrow> bind_run (handle_message mo m s) (\<lambda>s. Inr (unlogged s))
    = bind_run (api_dispatch mo m s) (\<lambda>(r, rs, s). Inr (unlogged s))"
  by (auto simp: handle_message_def bind_run_assoc Let_def unlogged_def intro!: bind_run_cong)

lemma dispatch_same:
  assumes "unlogged s = unlogged t"
  shows "bind_run (api_dispatch mo m s) (\<lambda>(r, rs, s'). Inr (unlogged s'))
    = bind_run (api_dispatch mo m t) (\<lambda>(r, rs, s'). Inr (unlogged s'))"
proof -
  have e: "bind_run (api_dispatch mo m s) (\<lambda>(r, rs, s'). Inr (unlogged s')) = bind_run
     (bind_run (api_dispatch mo m (unlogged s)) (\<lambda>(r, rs, s'). Inr (r, rs, unlogged s'))) (\<lambda>(r, rs, s'). Inr s')" for s
    unfolding dispatch_unlogged by (simp add: bind_run_assoc split_def)
  show ?thesis unfolding e [of s] e [of t] assms ..
qed

text \<open>What comes after a step depends only on the unlogged state.\<close>

lemma bind_unlogged:
  assumes "bind_run m (\<lambda>x. Inr (unlogged (f x))) = bind_run n (\<lambda>y. Inr (unlogged (g y)))"
    and "\<And>x y. unlogged (f x) = unlogged (g y) \<Longrightarrow> m = Inr x \<Longrightarrow> n = Inr y \<Longrightarrow> h x = k y"
  shows "bind_run m h = bind_run n k"
  using assms by (cases m; cases n) auto

lemma serve_messages_eq:
  assumes "daemon_ready os D d q" and "unlogged s = unlogged (d_api d)"
  shows "bind_run (serve_messages os mo L junk budget d) (\<lambda>(r, d'). Inr (r, unlogged (d_api d')))
    = bind_run (handle_messages mo budget (incoming L (ipc_brk (d_net d)) q) s) (\<lambda>s'. Inr (PCD_STATUS_OK, unlogged s'))"
  using assms
proof (induction budget arbitrary: d q s)
  case 0
  then show ?case by simp
next
  case (Suc n)
  let ?st = "d_net d"
  from Suc.prems(1) have ready: "ipc_ready ?st" and slot: "open_slot D ?st" and ctx: "pcdContext d = int D" and os: "malloc_ok os"
    and k: "socks ?st (mypid ?st, c_fd (clients ?st ! D)) = Some q" and fo: "foreign D ?st q"
    by (simp_all add: daemon_ready_def own_sock_def)
  show ?case
  proof (cases q)
    case Nil
    with k have "socks ?st (mypid ?st, c_fd (clients ?st ! D)) = Some []" by simp
    from wait_none [OF ready slot this, of os id] Nil ctx Suc.prems(2) show ?thesis by simp
  next
    case (Cons m r)
    let ?a = "ipc_brk ?st"
    let ?w = "?st\<lparr>socks := (socks ?st)(own_sock D ?st \<mapsto> r), heap := (heap ?st)(?a \<mapsto> m), ipc_brk := Suc ?a\<rparr>"
    let ?m = "(request_of L (data m))\<lparr>m_addr := ?a, m_context := True\<rparr>"
    have km: "socks ?st (mypid ?st, c_fd (clients ?st ! D)) = Some (m # r)" using k Cons by simp
    have wait: "IPC_wait_msg os id (pcdContext d) IPC_TIMEOUT_IMMEDIATE ?st = Inr (Some ?a, ?w)"
      using wait_eq [OF ready slot km os, of id] ctx by (simp add: own_sock_def)
    have "ipc_ok ?st" using ready by (simp add: ipc_ready_def)
    then have "msg_ok m" "ipc_ok (?st\<lparr>socks := (socks ?st)(own_sock D ?st \<mapsto> r)\<rparr>)"
      using taken_ok [of ?st "own_sock D ?st" m r] km by (simp_all add: own_sock_def)
    then have ready_w: "ipc_ready ?w" using new_msg_ok [of "?st\<lparr>socks := (socks ?st)(own_sock D ?st \<mapsto> r)\<rparr>" m] ready
      by (simp add: ipc_ready_def)
    let ?d = "d\<lparr>d_net := ?w\<rparr>"
    have D: "D < 32" using slot by (simp add: open_slot_def)
    have to: "paths ?w (c_path (clients ?w ! nat (msg_context m))) \<noteq> Some (own_sock D ?w)"
      using fo Cons by (simp add: foreign_def own_sock_def)
    let ?after = "\<lambda>retval rs. after_message os D ?a (nat (msg_context m)) (reply_to L junk D (m_msgId (request_of L (data m))) rs retval) retval ?w"
    have next_ready: "daemon_ready os D (?d\<lparr>d_net := ?after retval rs, d_api := api\<rparr>) r \<and> ipc_brk (?after retval rs) = ?a + 2" for retval rs api
    proof -
      from after_message_ready(2) [OF ready_w reply_to_ok [OF D] to, of os ?a L junk "m_msgId (request_of L (data m))" rs retval retval]
      obtain ss h where e: "?after retval rs = ?w\<lparr>socks := ss, heap := h, ipc_brk := Suc (Suc ?a)\<rparr>"
        and ss: "ss (own_sock D ?st) = Some r" by (auto simp: own_sock_def)
      have "ipc_ready (?after retval rs)" by (rule after_message_ready(1) [OF ready_w reply_to_ok [OF D] to])
      moreover have "foreign D ?st r" using fo Cons by (simp add: foreign_def)
      ultimately show ?thesis using e ss slot ctx os
        by (simp add: daemon_ready_def open_slot_def own_sock_def foreign_def)
    qed
    have serve: "serve_message os mo L junk ?a ?d = bind_run (api_dispatch mo ?m (d_api d)) (\<lambda>(retval, rs, api).
        Inr (True, ?d\<lparr>d_net := ?after retval rs, d_api := api\<rparr>))"
      using serve_message_eq [of ?d D os ?a m mo L junk] ready_w slot ctx os by (simp add: open_slot_def)
    have "bind_run (handle_message mo ?m s) (\<lambda>s. Inr (unlogged s)) = bind_run (api_dispatch mo ?m (d_api d)) (\<lambda>x. Inr (unlogged (snd (snd x))))"
      using handle_message_unlogged [of ?m mo s] dispatch_same [OF Suc.prems(2), of mo ?m] by (simp add: split_def)
    from bind_unlogged [OF this] have step: "bind_run (handle_message mo ?m s) h = bind_run (api_dispatch mo ?m (d_api d)) g"
      if "\<And>x y. unlogged x = unlogged (snd (snd y)) \<Longrightarrow> h x = g y" for h :: "api_state \<Rightarrow> (PCD_status \<times> api_state) run" and g
      using that by blast
    have tail: "bind_run (handle_messages mo n (incoming L (Suc (Suc ?a)) r) x) (\<lambda>s'. Inr (PCD_STATUS_OK, unlogged s'))
        = bind_run (serve_messages os mo L junk n (d\<lparr>d_net := ?after (fst y) (fst (snd y)), d_api := snd (snd y)\<rparr>))
          (\<lambda>(r, d'). Inr (r, unlogged (d_api d')))"
      if "unlogged x = unlogged (snd (snd y))" for x and y :: "PCD_status \<times> api_rule_state option \<times> api_state"
      using Suc.IH [of "d\<lparr>d_net := ?after (fst y) (fst (snd y)), d_api := snd (snd y)\<rparr>" r x]
        next_ready [where retval = "fst y" and rs = "fst (snd y)" and api = "snd (snd y)"] that by simp
    show ?thesis
      using Cons wait serve
      by (simp add: bind_run_assoc split_def) (rule step [symmetric], use tail in \<open>simp add: split_def\<close>)
  qed
qed

end
