(* ===== verification/PcdCall.thy ===== *)
theory PcdCall imports PcdServe begin

text \<open>
  A request of a client, from the call in the client library to the answer of the daemon: the client
  side is proved once for any service that answers, and the daemon is such a service.
\<close>

section \<open>The service\<close>

text \<open>The entry \<open>D\<close> of the table is in use and leads to the open socket \<open>dk\<close>.\<close>

definition service_up :: "nat \<Rightarrow> int \<times> int \<Rightarrow> 'd ipc \<Rightarrow> bool" where
  "service_up D dk st \<longleftrightarrow> shared_ok st \<and> open_slot D st \<and> c_pid (clients st ! D) = fst dk \<and> c_fd (clients st ! D) = snd dk
     \<and> paths st (c_path (clients st ! D)) = Some dk \<and> socks st dk = Some []"

text \<open>
  Given the one datagram \<open>m\<close> in its socket, the service puts its reply into the socket that the sender
  waits at and changes nothing else of what is shared.
\<close>

locale service =
  fixes L :: "'d api_layout" and D :: nat and dk :: "int \<times> int" and serve :: "'d ipc \<Rightarrow> 'd ipc"
    and answer :: "api_msg \<Rightarrow> (PCD_status \<times> api_rule_state option) option"
  assumes answers: "service_up D dk st \<Longrightarrow> msg_ok m \<Longrightarrow> open_slot i st \<Longrightarrow> msg_context m = int i
    \<Longrightarrow> paths st (c_path (clients st ! i)) = Some ck \<Longrightarrow> ck \<noteq> dk \<Longrightarrow> socks st ck = Some [] \<Longrightarrow> layout_ok L
    \<Longrightarrow> answer (request_of L (data m)) = Some (rv, rs)
    \<Longrightarrow> \<exists>r. msg_ok r \<and> r_msgId (reply_of L (data r)) = m_msgId (request_of L (data m))
      \<and> r_retval (reply_of L (data r)) = rv \<and> (rs \<noteq> None \<longrightarrow> r_ruleState (reply_of L (data r)) = rs)
      \<and> serve (st\<lparr>info_lock := b, socks := (socks st)(dk \<mapsto> [m])\<rparr>) = st\<lparr>info_lock := b, socks := (socks st)(dk \<mapsto> [], ck \<mapsto> [r])\<rparr>"

section \<open>The client\<close>

text \<open>Where a process can start a destination point and find the service.\<close>

definition client_name :: "'d ipc \<Rightarrow> string" where
  "client_name st = PCD_CLIENTS_NAME_PREFIX @ int_str (mypid st)"

definition can_start :: "ipc_os \<Rightarrow> string \<Rightarrow> 'd ipc \<Rightarrow> bool" where
  "can_start os name st \<longleftrightarrow> free_slot (clients st) < 32 \<and> 0 < sock_fd os \<and> paths st (socket_path name) = None
     \<and> \<not> bind_denied os (socket_path name)"

definition can_call :: "ipc_os \<Rightarrow> nat \<Rightarrow> int \<times> int \<Rightarrow> 'd ipc \<Rightarrow> bool" where
  "can_call os D dk st \<longleftrightarrow> ipc_ready st \<and> service_up D dk st \<and> can_start os (client_name st) st \<and> malloc_ok os \<and> 0 < queue_max os
     \<and> first_slot (\<lambda>c. c_fd c \<noteq> 0 \<and> c_owner c = PCD_OWNER_ID) (clients st) = D \<and> (mypid st, sock_fd os) \<noteq> dk"

definition request_msg :: "'d api_layout \<Rightarrow> 'd \<Rightarrow> nat \<Rightarrow> rule_id option \<Rightarrow> api_type \<Rightarrow> int \<times> string \<Rightarrow> api_msg" where
  "request_msg L junk i rid type args = \<lparr>m_addr = 0, m_type = type, m_arg = fst args,
     m_ruleId = (case rid of None \<Rightarrow> no_rule_id | Some r \<Rightarrow> r), m_msgId = first_word L junk - word_of_int (int i),
     m_params = snd args, m_context = True\<rparr>"

text \<open>The state after the start of the destination point.\<close>

definition started :: "ipc_os \<Rightarrow> string \<Rightarrow> u32 \<Rightarrow> 'd ipc \<Rightarrow> 'd ipc" where
  "started os name flags st = st\<lparr>clients := (clients st)[free_slot (clients st) := \<lparr>c_fd = sock_fd os, c_path = socket_path name,
         c_flags = flags OR MSG_DONTWAIT, c_owner = IPC_NO_OWNER, c_pid = mypid st\<rparr>],
       socks := (socks st)((mypid st, sock_fd os) \<mapsto> []),
       paths := (paths st)(socket_path name \<mapsto> (mypid st, sock_fd os))\<rparr>"

lemma started_ok: "ipc_ready st \<Longrightarrow> ipc_ready (started os name flags st)"
  by (auto simp: ipc_ready_def ipc_defs started_def)

lemma start_started:
  "ipc_ready st \<Longrightarrow> can_start os name st \<Longrightarrow>
    IPC_start os (Some name) flags st = Inr (IPC_STATUS_OK, Some (int (free_slot (clients st))), started os name flags st)"
  using start_eq [of st os name flags] by (simp add: can_start_def started_def path_free_def listening_def)

lemma first_slot_less: "first_slot P cs < length cs \<Longrightarrow> P (cs ! first_slot P cs)"
  using nth_length_takeWhile [of "\<lambda>c. \<not> P c" cs] by (simp add: first_slot_def)

lemma api_size: "unat api_message_size + header_size \<le> IPC_MAX_BUFFER_SIZE"
  by (simp add: api_message_size_def header_size_def IPC_MAX_BUFFER_SIZE_def)

definition request_datagram :: "nat \<Rightarrow> 'd \<Rightarrow> 'd ipc_msg" where
  "request_datagram i d = \<lparr>magic = IPC_MESSAGE_MAGIC, msg_size = api_message_size + of_nat header_size,
     msg_context = int i, data = d\<rparr>"

lemma datagram_ok: "i < 32 \<Longrightarrow> msg_ok (request_datagram i d)"
  by (simp add: msg_ok_def request_datagram_def api_message_size_def header_size_def IPC_MAX_BUFFER_SIZE_def IPC_MAX_LIST_SIZE_def)

lemma datagram_simps [simp]: "magic (request_datagram i d) = IPC_MESSAGE_MAGIC" "msg_context (request_datagram i d) = int i"
  "data (request_datagram i d) = d" "request_datagram i d\<lparr>data := e\<rparr> = request_datagram i e"
  by (simp_all add: request_datagram_def)

text \<open>The request up to the point where the client waits.\<close>

lemma request_sent:
  fixes s :: "'d ipc"
  assumes "ipc_ready s" and "open_slot i s" and "service_up D dk s" and "socks s (mypid s, c_fd (clients s ! i)) \<noteq> None"
    and "malloc_ok os" and "0 < queue_max os" and "valid_id rid" and "request_args type ps value = Some args"
  shows "request_reply os L junk rounds rid type ps wanted value (int D) (int i) s
    = wait_reply L (first_word L junk - word_of_int (int i)) (int i) (reply_timeout type) (wanted \<and> type = PCD_API_GET_RULE_STATE) rounds
        (s\<lparr>socks := (socks s)(dk \<mapsto> [request_datagram i (put_request L (request_msg L junk i rid type args))]), ipc_brk := Suc (ipc_brk s)\<rparr>)"
proof -
  let ?b = "ipc_brk s"
  let ?d = "put_request L (request_msg L junk i rid type args)"
  let ?u = "s\<lparr>heap := (heap s)(?b \<mapsto> request_datagram i junk), ipc_brk := Suc ?b\<rparr>"
  let ?v = "s\<lparr>heap := (heap s)(?b \<mapsto> request_datagram i ?d), ipc_brk := Suc ?b\<rparr>"
  have i: "i < 32" using assms(2) by (simp add: open_slot_def)
  have alloc: "IPC_alloc_msg os junk (int i) api_message_size s = Inr (Some ?b, ?u)"
    using alloc_eq [OF assms(1,2,5) api_size] by (simp add: request_datagram_def)
  have valid: "IPC_get_msg (Some ?b) ?u = Inr (Some ?b)" "get_msg ?b ?u = Inr (request_datagram i junk)"
    by (simp_all add: IPC_get_msg_def)
  have set: "set_data ?b ?d ?u = Inr ?v" by (simp add: set_data_def)
  have v: "ipc_ready ?v" by (rule ready_new [OF assms(1) datagram_ok [OF i]])
  have up: "open_slot D ?v" "paths s (c_path (clients s ! D)) = Some dk" "socks s dk = Some []"
    using assms(3) by (simp_all add: service_up_def open_slot_def)
  have h: "heap ?v ?b = Some (request_datagram i ?d)" by simp
  have e: "(heap s)(?b := None) = heap s" using ready_fresh [OF assms(1)] by auto
  have send: "IPC_send_msg os (int D) (Some ?b) ?v
    = Inr (IPC_STATUS_OK, s\<lparr>socks := (socks s)(dk \<mapsto> [request_datagram i ?d]), ipc_brk := Suc ?b\<rparr>)"
    using send_msg_eq [OF v h _ i up(1), of os] assms(4,6) up(2,3) e
    by (simp add: sys_sendto_def send_end_def)
  have "request_msg L junk i rid type args = \<lparr>m_addr = 0, m_type = type, m_arg = fst args,
       m_ruleId = (case rid of None \<Rightarrow> no_rule_id | Some r \<Rightarrow> r), m_msgId = first_word L junk - word_of_int (int i), m_params = snd args,
       m_context = True\<rparr>" by (simp add: request_msg_def)
  with alloc valid set send assms(7,8) show ?thesis
    by (simp add: request_reply_def Let_def split_def)
qed

lemma ready_socks: "ipc_ready s \<Longrightarrow> (\<And>m. m \<in> set q \<Longrightarrow> msg_ok m) \<Longrightarrow> ipc_ready (s\<lparr>socks := (socks s)(k \<mapsto> q), ipc_brk := Suc (ipc_brk s)\<rparr>)"
  by (auto simp: ipc_ready_def ipc_defs less_SucI split: if_splits)

context service
begin

lemma waited:
  fixes s :: "'d ipc"
  assumes "ipc_ready s" and "open_slot i s" and "service_up D dk s" and ck: "ck = (mypid s, c_fd (clients s ! i))"
    and "socks s ck = Some []" and "ck \<noteq> dk" and "paths s (c_path (clients s ! i)) = Some ck" and "layout_ok L" and "malloc_ok os"
    and m: "m = request_datagram i (put_request L req)" and "answer (request_of L (put_request L req)) = Some (rv, rs)"
    and "m_msgId (request_of L (put_request L req)) = mid"
  shows "\<exists>x. wait_reply L mid (int i) (Millisec t) wanted ((os, serve) # rounds) (s\<lparr>socks := (socks s)(dk \<mapsto> [m]), ipc_brk := Suc (ipc_brk s)\<rparr>)
      = Inr (rv, x, s\<lparr>ipc_brk := Suc (Suc (ipc_brk s))\<rparr>) \<and> (wanted \<and> rs \<noteq> None \<longrightarrow> x = rs) \<and> (\<not> wanted \<longrightarrow> x = None)"
proof -
  let ?b = "Suc (ipc_brk s)"
  let ?s = "s\<lparr>socks := (socks s)(dk \<mapsto> [m]), ipc_brk := ?b\<rparr>"
  have i: "i < 32" using assms(2) by (simp add: open_slot_def)
  have mok: "msg_ok m" unfolding m by (rule datagram_ok [OF i])
  have ready: "ipc_ready ?s" by (rule ready_socks [OF assms(1)]) (use mok in simp)
  have slot: "open_slot i ?s" using assms(2) by (simp add: open_slot_def)
  have empty: "socks ?s (mypid ?s, c_fd (clients ?s ! i)) = Some []" using assms(5,6) ck by auto
  have up: "service_up D dk (s\<lparr>ipc_brk := ?b\<rparr>)" using assms(3) by (simp add: service_up_def shared_ok_def open_slot_def)
  have "answer (request_of L (data m)) = Some (rv, rs)" "msg_context m = int i" "open_slot i (s\<lparr>ipc_brk := ?b\<rparr>)"
    "paths (s\<lparr>ipc_brk := ?b\<rparr>) (c_path (clients (s\<lparr>ipc_brk := ?b\<rparr>) ! i)) = Some ck" "socks (s\<lparr>ipc_brk := ?b\<rparr>) ck = Some []"
    using assms(2,5,7,11) m by (simp_all add: open_slot_def)
  from answers [OF up mok this(3) this(2) this(4) assms(6) this(5) assms(8) this(1), of True] m assms(12)
  obtain r where r: "msg_ok r" "r_msgId (reply_of L (data r)) = mid" "r_retval (reply_of L (data r)) = rv"
      "rs \<noteq> None \<Longrightarrow> r_ruleState (reply_of L (data r)) = rs"
      "serve (s\<lparr>ipc_brk := ?b, info_lock := True, socks := (socks s)(dk \<mapsto> [m])\<rparr>)
        = s\<lparr>ipc_brk := ?b, info_lock := True, socks := (socks s)(dk \<mapsto> [], ck \<mapsto> [r])\<rparr>"
    by auto
  have swap: "s\<lparr>ipc_brk := ?b, info_lock := True, socks := x\<rparr> = s\<lparr>socks := x, ipc_brk := ?b, info_lock := True\<rparr>" for x
    by (cases s) simp
  have served: "serve (?s\<lparr>info_lock := True\<rparr>) = s\<lparr>socks := (socks s)(dk \<mapsto> [], ck \<mapsto> [r]), ipc_brk := ?b, info_lock := True\<rparr>"
    using r(5) unfolding swap .
  have got: "IPC_wait_msg os serve (int i) (Millisec t) ?s = Inr (Some ?b,
      s\<lparr>socks := (socks s)(dk \<mapsto> [], ck \<mapsto> []), heap := (heap s)(?b \<mapsto> r), ipc_brk := Suc ?b\<rparr>)" (is "_ = Inr (_, ?t)")
  proof -
    have "\<not> info_lock s" using ready_simps [OF assms(1)] by simp
    then have "s\<lparr>info_lock := False\<rparr> = s" by (rule same_info)
    then have "s\<lparr>socks := ss, heap := h, ipc_brk := b, info_lock := False\<rparr> = s\<lparr>socks := ss, heap := h, ipc_brk := b\<rparr>" for ss h b
      by (cases s) simp
    with wait_others [where others = serve, OF ready slot empty served, of r "[]"] ck assms(9) show ?thesis by simp
  qed
  have h: "heap ?t ?b = Some r" by simp
  have mg: "magic r = IPC_MESSAGE_MAGIC" using r(1) by (simp add: msg_ok_def)
  have "heap s ?b = None" by (rule ready_above [OF assms(1)]) simp
  then have e: "(heap s)(?b := None) = heap s" by auto
  have "(socks s)(dk \<mapsto> [], ck \<mapsto> []) = socks s" using assms(3,5) by (auto simp: service_up_def)
  with e mg have free: "IPC_free_msg (Some ?b) ?t = Inr (IPC_STATUS_OK, s\<lparr>ipc_brk := Suc ?b\<rparr>)"
    by (simp add: IPC_free_msg_def)
  show ?thesis using got free r(2,3,4) mg
    by (simp add: IPC_get_msg_def Let_def)
qed

end

text \<open>What a completed call leaves behind: a closed entry, no socket, no file, no message.\<close>

definition closed_entry :: ipc_client where
  "closed_entry = \<lparr>c_fd = 0, c_path = [], c_flags = MSG_DONTWAIT, c_owner = IPC_NO_OWNER, c_pid = 0\<rparr>"

definition after_call :: "ipc_os \<Rightarrow> 'd ipc \<Rightarrow> 'd ipc" where
  "after_call os st = st\<lparr>clients := (clients st)[free_slot (clients st) := closed_entry],
     socks := (socks st)((mypid st, sock_fd os) := None), ipc_brk := Suc (Suc (ipc_brk st))\<rparr>"

lemma stop_started:
  assumes "ipc_ready st" and "can_start os name st" and "s = started os name 0 st"
  shows "IPC_stop (int (free_slot (clients st))) (s\<lparr>ipc_brk := Suc (Suc (ipc_brk s))\<rparr>) = Inr (IPC_STATUS_OK, after_call os st)"
proof -
  let ?i = "free_slot (clients st)"
  let ?u = "s\<lparr>ipc_brk := Suc (Suc (ipc_brk s))\<rparr>"
  have i: "?i < 32" "?i < length (clients st)" using assms(2) ready_simps(3) [OF assms(1)] by (simp_all add: can_start_def)
  have "ipc_ready s" unfolding assms(3) by (rule started_ok [OF assms(1)])
  then have u: "ipc_ready ?u" by (auto simp: ipc_ready_def ipc_defs less_SucI)
  have o: "open_slot ?i ?u" "c_pid (clients ?u ! ?i) = mypid ?u"
    using i assms(2) by (simp_all add: assms(3) started_def open_slot_def can_start_def)
  have "(paths st)(socket_path name := None) = paths st" using assms(2) by (auto simp: can_start_def)
  then show ?thesis unfolding stop_eq [OF u o]
    using i by (cases st) (simp add: assms(3) started_def after_call_def closed_entry_def)
qed

lemma service_started:
  assumes "ipc_ready st" and "service_up D dk st" and "can_start os name st" and "(mypid st, sock_fd os) \<noteq> dk"
  shows "service_up D dk (started os name flags st)"
proof -
  have i: "free_slot (clients st) < length (clients st)" using assms(3) ready_simps(3) [OF assms(1)] by (simp add: can_start_def)
  have "free_slot (clients st) \<noteq> D" using free_slot_less [OF i] assms(2) by (auto simp: service_up_def open_slot_def)
  moreover have "socket_path name \<noteq> c_path (clients st ! D)" using assms(2,3) by (auto simp: service_up_def can_start_def)
  moreover have "ipc_ready (started os name flags st)" by (rule started_ok [OF assms(1)])
  ultimately show ?thesis using assms(2,4)
    by (auto simp: service_up_def started_def open_slot_def ipc_ready_def ipc_ok_def)
qed

lemma plain_back: "layout_ok L \<Longrightarrow> plain_request m \<Longrightarrow> request_of L (put_request L m) = m"
  by (simp add: layout_ok_def)

context service
begin

lemma call_answered:
  fixes c :: "'d client"
  assumes call: "can_call os D dk (net c)" and L: "layout_ok L" and os': "malloc_ok os'" and rid: "valid_id rid"
    and args: "request_args type ps value = Some args"
    and req: "req = request_msg L junk (free_slot (clients (net c))) rid type args" and plain: "plain_request req"
    and ans: "answer req = Some (rv, rs)"
  shows "\<exists>x. PCD_api_malloc_and_send os L junk ((os', serve) # rounds) rid type ps wanted value c
      = Inr (rv, x, \<lparr>net = after_call os (net c), pcdApiInitDone = True\<rparr>)
    \<and> (wanted \<and> type = PCD_API_GET_RULE_STATE \<and> rs \<noteq> None \<longrightarrow> x = rs)"
proof -
  let ?st = "net c"
  let ?i = "free_slot (clients ?st)"
  let ?name = "PCD_CLIENTS_NAME_PREFIX @ int_str (mypid ?st)"
  let ?s = "started os ?name 0 ?st"
  let ?ck = "(mypid ?s, c_fd (clients ?s ! ?i))"
  from call have ready: "ipc_ready ?st" and up: "service_up D dk ?st" and start: "can_start os ?name ?st" and os: "malloc_ok os"
    and room: "0 < queue_max os" and own: "first_slot (\<lambda>c. c_fd c \<noteq> 0 \<and> c_owner c = PCD_OWNER_ID) (clients ?st) = D"
    and other: "(mypid ?st, sock_fd os) \<noteq> dk" by (simp_all add: can_call_def client_name_def)
  have i: "?i < 32" "?i < length (clients ?st)" using start ready_simps(3) [OF ready] by (simp_all add: can_start_def)
  have D: "D < 32" using up by (simp add: service_up_def open_slot_def)
  have ready_s: "ipc_ready ?s" by (rule started_ok [OF ready])
  have slot: "open_slot ?i ?s" using i start by (simp add: started_def open_slot_def can_start_def)
  have up_s: "service_up D dk ?s" by (rule service_started [OF ready up start other])
  have ck: "?ck = (mypid ?st, sock_fd os)" "socks ?s ?ck = Some []" "paths ?s (c_path (clients ?s ! ?i)) = Some ?ck"
    using i by (simp_all add: started_def)
  have bk: "request_of L (put_request L req) = req" by (rule plain_back [OF L plain])
  obtain x where x: "wait_reply L (first_word L junk - word_of_int (int ?i)) (int ?i) (reply_timeout type)
        (wanted \<and> type = PCD_API_GET_RULE_STATE) ((os', serve) # rounds)
        (?s\<lparr>socks := (socks ?s)(dk \<mapsto> [request_datagram ?i (put_request L req)]), ipc_brk := Suc (ipc_brk ?s)\<rparr>)
      = Inr (rv, x, ?s\<lparr>ipc_brk := Suc (Suc (ipc_brk ?s))\<rparr>)"
    and st: "wanted \<and> type = PCD_API_GET_RULE_STATE \<and> rs \<noteq> None \<longrightarrow> x = rs"
    using waited [OF ready_s slot up_s refl ck(2) _ ck(3) L os' refl, of req rv rs
        "first_word L junk - word_of_int (int ?i)" _ "wanted \<and> type = PCD_API_GET_RULE_STATE" rounds] ck(1) other bk ans req
    by (auto simp: reply_timeout_def request_msg_def)
  have rr: "request_reply os L junk ((os', serve) # rounds) rid type ps wanted value (int D) (int ?i) ?s
      = Inr (rv, x, ?s\<lparr>ipc_brk := Suc (Suc (ipc_brk ?s))\<rparr>)"
    using request_sent [OF ready_s slot up_s _ os room rid args, of L junk "(os', serve) # rounds" wanted] ck(2) x req by simp
  have ini: "(if pcdApiInitDone c then Inr c else bind_run (IPC_init os ?st) (\<lambda>(_, st). Inr \<lparr>net = st, pcdApiInitDone = True\<rparr>))
      = Inr \<lparr>net = ?st, pcdApiInitDone = True\<rparr>"
    using ready_simps(1) [OF ready] by (cases c) (simp add: IPC_init_def)
  show ?thesis
    using st stop_started [OF ready start refl] rr
    by (simp add: PCD_api_malloc_and_send_def ini owner_eq [OF ready own D] start_started [OF ready start])
qed

end

section \<open>The daemon as the service\<close>

text \<open>A pass of the daemon over its messages, seen by a process that waits.\<close>

definition daemon_pass :: "ipc_os \<Rightarrow> misc_os \<Rightarrow> 'd api_layout \<Rightarrow> 'd \<Rightarrow> 'd daemon \<Rightarrow> 'd ipc \<Rightarrow> 'd ipc" where
  "daemon_pass os mo L junk d st = (case check_messages os mo L junk (d\<lparr>d_net := resume (d_net d) st\<rparr>) of
     Inl h \<Rightarrow> st | Inr (_, d') \<Rightarrow> resume st (d_net d'))"

text \<open>The process of the daemon is attached to the table and has its destination point at \<open>D\<close>.\<close>

definition attached :: "nat \<Rightarrow> int \<Rightarrow> 'd daemon \<Rightarrow> bool" where
  "attached D p d \<longleftrightarrow> i_shmaddr (d_net d) \<and> IPC_Clients (d_net d) = ShmMapped \<and> pcdContext d = int D \<and> mypid (d_net d) = p"

definition daemon_answer ::
  "ipc_os \<Rightarrow> misc_os \<Rightarrow> nat \<Rightarrow> int \<times> int \<Rightarrow> 'd daemon \<Rightarrow> api_msg \<Rightarrow> (PCD_status \<times> api_rule_state option) option" where
  "daemon_answer os mo D dk d m =
     (if malloc_ok os \<and> 0 < queue_max os \<and> self_ok (d_net d) \<and> attached D (fst dk) d
      then case api_dispatch mo (m\<lparr>m_addr := ipc_brk (d_net d), m_context := True\<rparr>) (d_api d) of
          Inl _ \<Rightarrow> None | Inr (rv, rs, _) \<Rightarrow> if rv = PCD_STATUS_WAIT then None else Some (rv, rs)
      else None)"

text \<open>A pass with one message: the wait, the handling, and the wait that ends the loop.\<close>

lemma serve_single:
  fixes d :: "'d daemon"
  assumes "ipc_ready (d_net d)" and "open_slot D (d_net d)" and "pcdContext d = int D" and "malloc_ok os"
    and own: "own_sock D (d_net d) = dk" and "socks (d_net d) dk = Some [m]"
    and "paths (d_net d) (c_path (clients (d_net d) ! nat (msg_context m))) \<noteq> Some dk"
    and disp: "api_dispatch mo ((request_of L (data m))\<lparr>m_addr := ipc_brk (d_net d), m_context := True\<rparr>) (d_api d) = Inr (rv, rs, api)"
    and w: "w = (d_net d)\<lparr>socks := (socks (d_net d))(dk \<mapsto> []), heap := (heap (d_net d))(ipc_brk (d_net d) \<mapsto> m),
      ipc_brk := Suc (ipc_brk (d_net d))\<rparr>"
    and v: "v = after_message os D (ipc_brk (d_net d)) (nat (msg_context m)) (reply_to L junk D (m_msgId (request_of L (data m))) rs rv) rv w"
  shows "check_messages os mo L junk d = Inr (PCD_STATUS_OK, d\<lparr>d_net := v, d_api := api\<rparr>)" and "ipc_ready v" and "ipc_ready w"
proof -
  let ?st = "d_net d"
  let ?a = "ipc_brk ?st"
  have dk: "dk = (mypid ?st, c_fd (clients ?st ! D))" using own by (simp add: own_sock_def)
  have km: "socks ?st (mypid ?st, c_fd (clients ?st ! D)) = Some (m # [])" using assms(6) dk by simp
  have wait: "IPC_wait_msg os id (pcdContext d) IPC_TIMEOUT_IMMEDIATE ?st = Inr (Some ?a, w)"
    using wait_eq [OF assms(1,2) km assms(4), of id] assms(3) dk w by simp
  have "ipc_ok ?st" using assms(1) by (simp add: ipc_ready_def)
  from taken_ok [OF this km] have m: "msg_ok m" "ipc_ok (?st\<lparr>socks := (socks ?st)(dk \<mapsto> [])\<rparr>)" using dk by simp_all
  then show ready_w: "ipc_ready w" using new_msg_ok [of "?st\<lparr>socks := (socks ?st)(dk \<mapsto> [])\<rparr>" m] assms(1) w
    by (simp add: ipc_ready_def)
  have D: "D < 32" using assms(2) by (simp add: open_slot_def)
  have serve: "serve_message os mo L junk ?a (d\<lparr>d_net := w\<rparr>) = Inr (True, d\<lparr>d_net := v, d_api := api\<rparr>)"
    using serve_message_eq [of "d\<lparr>d_net := w\<rparr>" D os ?a m mo L junk] ready_w assms(2,3,4) disp w v by (simp add: open_slot_def)
  have ow: "own_sock D w = dk" using own w by (simp add: own_sock_def)
  then have to: "paths w (c_path (clients w ! nat (msg_context m))) \<noteq> Some (own_sock D w)" using assms(7) w by simp
  show ready_v: "ipc_ready v" unfolding v by (rule after_message_ready(1) [OF ready_w reply_to_ok [OF D] to])
  obtain ss h where e: "v = w\<lparr>socks := ss, heap := h, ipc_brk := Suc (ipc_brk w)\<rparr>" and ss: "ss dk = socks w dk"
    using after_message_ready(2) [OF ready_w reply_to_ok [OF D] to] ow unfolding v by metis
  have "open_slot D v" "socks v (mypid v, c_fd (clients v ! D)) = Some []"
    using assms(2) dk ss unfolding e w by (simp_all add: open_slot_def)
  from wait_none [OF ready_v this, of os id]
  have none: "IPC_wait_msg os id (pcdContext d) IPC_TIMEOUT_IMMEDIATE v = Inr (None, v)" using assms(3) by simp
  have "serve_messages os mo L junk (Suc (Suc n)) d = Inr (PCD_STATUS_OK, d\<lparr>d_net := v, d_api := api\<rparr>)" for n
    using wait serve none by simp
  from this [of 3] show "check_messages os mo L junk d = Inr (PCD_STATUS_OK, d\<lparr>d_net := v, d_api := api\<rparr>)"
    by (simp add: check_messages_def)
qed

lemma serve_one:
  fixes d :: "'d daemon"
  assumes "ipc_ready (d_net d)" and "open_slot D (d_net d)" and "pcdContext d = int D" and "malloc_ok os"
    and own: "own_sock D (d_net d) = dk" and "socks (d_net d) dk = Some [m]" and "0 < queue_max os"
    and "paths (d_net d) (c_path (clients (d_net d) ! nat (msg_context m))) = Some ck" and "ck \<noteq> dk" and "socks (d_net d) ck = Some []"
    and disp: "api_dispatch mo ((request_of L (data m))\<lparr>m_addr := ipc_brk (d_net d), m_context := True\<rparr>) (d_api d) = Inr (rv, rs, api)"
    and "rv \<noteq> PCD_STATUS_WAIT"
  shows "\<exists>d'. check_messages os mo L junk d = Inr (PCD_STATUS_OK, d')
    \<and> clients (d_net d') = clients (d_net d) \<and> list_lock (d_net d') = list_lock (d_net d) \<and> paths (d_net d') = paths (d_net d)
    \<and> socks (d_net d') = (socks (d_net d))(dk \<mapsto> [], ck \<mapsto> [reply_to L junk D (m_msgId (request_of L (data m))) rs rv])
    \<and> heap (d_net d') = heap (d_net d) \<and> d_api d' = api"
proof -
  let ?st = "d_net d"
  let ?a = "ipc_brk ?st"
  let ?r = "reply_to L junk D (m_msgId (request_of L (data m))) rs rv"
  let ?w = "?st\<lparr>socks := (socks ?st)(dk \<mapsto> []), heap := (heap ?st)(?a \<mapsto> m), ipc_brk := Suc ?a\<rparr>"
  let ?v = "after_message os D ?a (nat (msg_context m)) ?r rv ?w"
  have "paths ?st (c_path (clients ?st ! nat (msg_context m))) \<noteq> Some dk" using assms(8,9) by simp
  from serve_single(1) [OF assms(1-6) this disp refl refl]
  have "check_messages os mo L junk d = Inr (PCD_STATUS_OK, d\<lparr>d_net := ?v, d_api := api\<rparr>)" .
  moreover have "?v = ?st\<lparr>socks := (socks ?st)(dk \<mapsto> [], ck \<mapsto> [?r]), heap := (heap ?w)(?a := None), ipc_brk := Suc (Suc ?a)\<rparr>"
    using assms(6-10,12) own by (simp add: after_message_def delivered_def sys_sendto_def own_sock_def)
  moreover have "(heap ?w)(?a := None) = heap ?st" using ready_fresh [OF assms(1)] by auto
  ultimately show ?thesis by simp
qed

text \<open>A synchronous termination: the message stays on the heap, and its address is what it is answered by.\<close>

lemma serve_wait:
  fixes d :: "'d daemon"
  assumes "ipc_ready (d_net d)" and "open_slot D (d_net d)" and "pcdContext d = int D" and "malloc_ok os"
    and own: "own_sock D (d_net d) = dk" and "socks (d_net d) dk = Some [m]" and room: "0 < queue_max os"
    and to: "paths (d_net d) (c_path (clients (d_net d) ! nat (msg_context m))) = Some ck" and "ck \<noteq> dk" and "socks (d_net d) ck = Some []"
    and disp: "api_dispatch mo ((request_of L (data m))\<lparr>m_addr := ipc_brk (d_net d), m_context := True\<rparr>) (d_api d)
      = Inr (PCD_STATUS_WAIT, rs, api)"
  shows "\<exists>d1. check_messages os mo L junk d = Inr (PCD_STATUS_OK, d1) \<and> d_api d1 = api
    \<and> heap (d_net d1) = (heap (d_net d))(ipc_brk (d_net d) \<mapsto> m) \<and> socks (d_net d1) = (socks (d_net d))(dk \<mapsto> [])
    \<and> (\<exists>d2. answer_cookie os L junk (Some (ipc_brk (d_net d))) retval d1 = Inr d2 \<and> heap (d_net d2) = heap (d_net d) \<and> d_api d2 = api
      \<and> socks (d_net d2) = (socks (d_net d))(dk \<mapsto> [], ck \<mapsto> [reply_to L junk D (m_msgId (request_of L (data m))) None retval]))"
proof -
  let ?st = "d_net d"
  let ?a = "ipc_brk ?st"
  let ?w = "?st\<lparr>socks := (socks ?st)(dk \<mapsto> []), heap := (heap ?st)(?a \<mapsto> m), ipc_brk := Suc ?a\<rparr>"
  let ?v = "?w\<lparr>ipc_brk := Suc (Suc ?a)\<rparr>"
  let ?d1 = "d\<lparr>d_net := ?v, d_api := api\<rparr>"
  let ?b = "Suc (Suc ?a)"
  let ?mid = "m_msgId (request_of L (data m))"
  let ?r = "reply_to L junk D ?mid None retval"
  let ?new = "\<lparr>magic = IPC_MESSAGE_MAGIC, msg_size = api_reply_size + of_nat header_size, msg_context = int D, data = junk\<rparr>"
  have D: "D < 32" using assms(2) by (simp add: open_slot_def)
  have np: "paths ?st (c_path (clients ?st ! nat (msg_context m))) \<noteq> Some dk" using assms(8,9) by simp
  have v: "?v = after_message os D ?a (nat (msg_context m)) (reply_to L junk D ?mid rs PCD_STATUS_WAIT) PCD_STATUS_WAIT ?w"
    by (simp add: after_message_def)
  note single = serve_single [OF assms(1-6) np disp refl v]
  note ready = single(2)
  have slot: "open_slot D ?v" using assms(2) by (simp add: open_slot_def)
  have ha: "heap ?v ?a = Some m" by simp
  have mg: "magic m = IPC_MESSAGE_MAGIC" by (rule ready_simps(6) [OF ready ha])
  have fresh: "heap ?v ?b = None" using ready_fresh [OF ready] by simp
  have e: "(heap ?v)(?b := None) = heap ?v" using fresh by auto
  have new: "msg_ok ?new" using reply_to_ok [OF D, of L junk] by (simp add: reply_to_def msg_ok_def)
  let ?u = "?v\<lparr>heap := (heap ?v)(?b \<mapsto> ?new), ipc_brk := Suc ?b\<rparr>"
  have alloc: "IPC_alloc_msg os junk (pcdContext ?d1) api_reply_size ?v = Inr (Some ?b, ?u)"
    using alloc_eq [OF ready slot assms(4) reply_size] assms(3) by simp
  let ?x = "?v\<lparr>heap := (heap ?v)(?b \<mapsto> ?r), ipc_brk := Suc ?b\<rparr>"
  have wr: "set_data ?b (put_reply L \<lparr>r_msgId = ?mid, r_ruleState = None, r_retval = retval\<rparr> junk) ?u = Inr ?x"
    by (simp add: set_data_def reply_to_def)
  have "ipc_ready ?x" using ready_new [OF ready reply_to_ok [OF D]] by simp
  from reply_step [OF ready slot ha _ fresh refl refl this]
  have reply: "bind_run (IPC_reply_msg os (Some ?a) (Some ?b) ?x)
      (\<lambda>(sent, st). if sent = IPC_STATUS_OK then Inr st else bind_run (IPC_free_msg (Some ?b) st) (\<lambda>(_, st). Inr st))
    = Inr ((delivered os D (nat (msg_context m)) ?r ?v)\<lparr>heap := heap ?v, ipc_brk := Suc ?b\<rparr>)" by simp
  have dl: "delivered os D (nat (msg_context m)) ?r ?v = ?v\<lparr>socks := (socks ?st)(dk \<mapsto> [], ck \<mapsto> [?r])\<rparr>"
    using own to assms(9,10) room by (simp add: delivered_def sys_sendto_def own_sock_def)
  let ?y = "?v\<lparr>socks := (socks ?st)(dk \<mapsto> [], ck \<mapsto> [?r]), heap := heap ?v, ipc_brk := Suc ?b\<rparr>"
  have g: "IPC_get_msg_context (Some ?a) ?v = Inr (Some (msg_context m))" "get_msg ?a ?u = Inr m" "get_msg ?b ?u = Inr ?new"
    using mg by (simp_all add: IPC_get_msg_context_def)
  have free: "IPC_free_msg (Some ?a) ?y = Inr (IPC_STATUS_OK, ?y\<lparr>heap := (heap ?v)(?a := None)\<rparr>)"
    using mg by (simp add: IPC_free_msg_def)
  have h: "(heap ?v)(?a := None) = heap ?st" using ready_fresh [OF assms(1)] by auto
  have "answer_cookie os L junk (Some ?a) retval ?d1 = Inr (?d1\<lparr>d_net := ?y\<lparr>heap := (heap ?v)(?a := None)\<rparr>\<rparr>)"
    unfolding answer_cookie_def option.case
    using g alloc wr reply dl free by simp
  with single(1) h show ?thesis by (intro exI [of _ ?d1]) simp
qed

interpretation daemon: service L D dk "daemon_pass os mo L junk d" "daemon_answer os mo D dk d"
  for L :: "'d api_layout" and D dk os mo junk and d :: "'d daemon"
proof
  fix st :: "'d ipc" and m i ck rv rs b
  assume up: "service_up D dk st" and m: "msg_ok m" and i: "open_slot i st" "msg_context m = int i"
    and ck: "paths st (c_path (clients st ! i)) = Some ck" "ck \<noteq> dk" "socks st ck = Some []" and L: "layout_ok L"
    and ans: "daemon_answer os mo D dk d (request_of L (data m)) = Some (rv, rs)"
  let ?st = "st\<lparr>info_lock := b, socks := (socks st)(dk \<mapsto> [m])\<rparr>"
  let ?d = "d\<lparr>d_net := resume (d_net d) ?st\<rparr>"
  let ?r = "reply_to L junk D (m_msgId (request_of L (data m))) rs rv"
  from ans obtain api where os: "malloc_ok os" "0 < queue_max os" and self: "self_ok (d_net d)" and at: "attached D (fst dk) d"
    and disp: "api_dispatch mo ((request_of L (data m))\<lparr>m_addr := ipc_brk (d_net d), m_context := True\<rparr>) (d_api d) = Inr (rv, rs, api)"
    and rv: "rv \<noteq> PCD_STATUS_WAIT"
    by (auto simp: daemon_answer_def split: if_splits sum.splits prod.splits)
  have D: "D < 32" using up by (simp add: service_up_def open_slot_def)
  have "shared_ok ?st" using up m by (auto simp: service_up_def shared_ok_def split: if_splits)
  then have ready: "ipc_ready (d_net ?d)" using self at by (simp add: ipc_ready_def ipc_ok_def attached_def resume_def shared_ok_def self_ok_def)
  have dk: "own_sock D (d_net ?d) = dk" using up at by (simp add: own_sock_def resume_def service_up_def attached_def)
  have slot: "open_slot D (d_net ?d)" using up by (simp add: service_up_def open_slot_def resume_def)
  have "\<exists>d'. check_messages os mo L junk ?d = Inr (PCD_STATUS_OK, d')
    \<and> clients (d_net d') = clients (d_net ?d) \<and> list_lock (d_net d') = list_lock (d_net ?d) \<and> paths (d_net d') = paths (d_net ?d)
    \<and> socks (d_net d') = (socks (d_net ?d))(dk \<mapsto> [], ck \<mapsto> [?r]) \<and> heap (d_net d') = heap (d_net ?d) \<and> d_api d' = api"
    using at i ck disp
    by (intro serve_one [OF ready slot _ os(1) dk _ os(2) _ ck(2) _ _ rv]) (simp_all add: resume_def attached_def)
  then have "daemon_pass os mo L junk d ?st = st\<lparr>info_lock := b, socks := (socks st)(dk \<mapsto> [], ck \<mapsto> [?r])\<rparr>"
    by (auto simp: daemon_pass_def resume_def)
  moreover have "msg_ok ?r" by (rule reply_to_ok [OF D])
  ultimately show "\<exists>r. msg_ok r \<and> r_msgId (reply_of L (data r)) = m_msgId (request_of L (data m))
      \<and> r_retval (reply_of L (data r)) = rv \<and> (rs \<noteq> None \<longrightarrow> r_ruleState (reply_of L (data r)) = rs)
      \<and> daemon_pass os mo L junk d (st\<lparr>info_lock := b, socks := (socks st)(dk \<mapsto> [m])\<rparr>)
        = st\<lparr>info_lock := b, socks := (socks st)(dk \<mapsto> [], ck \<mapsto> [r])\<rparr>"
    using L by (intro exI [of _ ?r]) (simp add: layout_ok_def reply_to_def)
qed

end
