(* ===== verification/PcdTimes.thy ===== *)
theory PcdTimes imports PcdApi begin

text \<open>
  How long things take, counted in passes of the timer: how many ticks a timeout lasts, and when the
  WAIT condition is met.  \<open>repeat_wait\<close> are the repeated checks of the condition.
\<close>

section \<open>Timeouts\<close>

text \<open>How many checks a timeout of \<open>w\<close> survives.\<close>

definition ticks_in :: "u32 \<Rightarrow> u32 \<Rightarrow> nat" where
  "ticks_in k w = (unat w + unat k - 1) div unat k"

lemma ticks_in_0: "0 < k \<Longrightarrow> ticks_in k 0 = 0"
  by (simp add: ticks_in_def word_less_nat_alt)

lemma ticks_in_last:
  assumes "0 < k" and "w \<noteq> 0" and "w \<le> k"
  shows "ticks_in k w = 1"
proof -
  have "0 < unat w" "unat w \<le> unat k" "0 < unat k"
    using assms by (simp_all add: word_le_nat_alt word_less_nat_alt unat_gt_0)
  then show ?thesis unfolding ticks_in_def by (intro div_nat_eqI) simp_all
qed

lemma ticks_in_step:
  assumes "0 < k" and "k < w"
  shows "ticks_in k w = Suc (ticks_in k (w - k))"
proof -
  have k: "0 < unat k" "unat k < unat w" using assms by (simp_all add: word_less_nat_alt)
  have "unat (w - k) = unat w - unat k" using assms(2) by (simp add: unat_sub)
  then have "unat w + unat k - 1 = unat k + (unat (w - k) + unat k - 1)" using k by simp
  then have "(unat w + unat k - 1) div unat k = Suc ((unat (w - k) + unat k - 1) div unat k)"
    using k(1) by (simp only: div_add_self1)
  then show ?thesis by (simp only: ticks_in_def)
qed

section \<open>The WAIT condition\<close>

fun repeat_wait :: "pcd_os \<Rightarrow> addr \<Rightarrow> nat \<Rightarrow> pcd \<Rightarrow> (PCD_status \<times> pcd) run" where
  "repeat_wait os a 0 st = Inr (PCD_STATUS_NOK, st)"
| "repeat_wait os a (Suc n) st =
     bind_run (PCD_end_cond_check os a st) (\<lambda>(s, st).
       if s = PCD_STATUS_OK then Inr (s, st) else repeat_wait os a n st)"

abbreviation with_delay :: "addr \<Rightarrow> u32 \<Rightarrow> u32 \<Rightarrow> pcd \<Rightarrow> pcd" where
  "with_delay a d0 d1 st \<equiv> upd_rule a (\<lambda>r. r\<lparr>endCondition := END_WAIT d0 d1\<rparr>) st"

lemma with_delay_twice: "with_delay a d0 d1 (with_delay a e0 e1 st) = with_delay a d0 d1 st"
  by (simp add: upd_rule_def)

lemma repeat_wait_step:
  assumes "endCondition (rules st a) = END_WAIT d0 d1"
  shows "repeat_wait os a (Suc n) st = (if d0 < timerTick st then Inr (PCD_STATUS_OK, with_delay a d1 d1 st)
    else repeat_wait os a n (with_delay a (d0 - timerTick st) d1 st))"
  using assms by (simp add: PCD_end_cond_check_def PCD_end_cond_check_WAIT_def)

lemma with_delay_same: "endCondition (rules st a) = END_WAIT d0 d1 \<Longrightarrow> with_delay a d0 d1 st = st"
proof -
  assume e: "endCondition (rules st a) = END_WAIT d0 d1"
  then have "(rules st a)\<lparr>endCondition := END_WAIT d0 d1\<rparr> = rules st a" by (cases "rules st a") simp
  then show ?thesis by (simp add: upd_rule_def)
qed

lemma repeat_wait_eq:
  assumes "endCondition (rules st a) = END_WAIT d0 d1" and "0 < timerTick st"
  shows "repeat_wait os a n st = (if n \<le> unat d0 div unat (timerTick st)
    then Inr (PCD_STATUS_NOK, with_delay a (d0 - of_nat n * timerTick st) d1 st)
    else Inr (PCD_STATUS_OK, with_delay a d1 d1 st))"
  using assms
proof (induction n arbitrary: st d0)
  case 0
  then show ?case by (simp add: with_delay_same)
next
  case (Suc n)
  let ?k = "timerTick st"
  have k: "0 < unat ?k" using Suc.prems(2) by (simp add: word_less_nat_alt)
  show ?case
  proof (cases "d0 < ?k")
    case True
    then have "unat d0 div unat ?k = 0" by (simp add: word_less_nat_alt)
    with True show ?thesis unfolding repeat_wait_step [OF Suc.prems(1)] by simp
  next
    case False
    let ?s = "with_delay a (d0 - ?k) d1 st"
    have "unat (d0 - ?k) = unat d0 - unat ?k" using False by (simp add: unat_sub)
    moreover have "unat ?k \<le> unat d0" using False by (simp add: word_less_nat_alt)
    ultimately have q: "unat d0 div unat ?k = Suc (unat (d0 - ?k) div unat ?k)"
      using k by (simp add: le_div_geq)
    have "repeat_wait os a n ?s = (if n \<le> unat (d0 - ?k) div unat ?k
      then Inr (PCD_STATUS_NOK, with_delay a (d0 - ?k - of_nat n * ?k) d1 ?s)
      else Inr (PCD_STATUS_OK, with_delay a d1 d1 ?s))"
      using Suc.IH [of ?s "d0 - ?k"] Suc.prems(2) by simp
    then show ?thesis using False unfolding repeat_wait_step [OF Suc.prems(1)] with_delay_twice q
      by (simp add: algebra_simps)
  qed
qed

text \<open>A system in which nothing is there.\<close>

definition no_os :: pcd_os where
  "no_os = \<lparr>stat_ok = (\<lambda>f. False), netdev_ok = (\<lambda>d. False), env_var = (\<lambda>n. None),
     ipc_owner = (\<lambda>w. PCD_STATUS_NOK), fork_pid = (\<lambda>p. - 1), kill_ret = (\<lambda>q s. 0)\<rparr>"

text \<open>
  The WAIT condition counts down once per check and is met in check number \<open>d div tick + 1\<close>, not
  before; then the delay is set up again for the next start of the rule.
\<close>

theorem wait_condition_exact:
  assumes "endCondition (rules st a) = END_WAIT d0 d1" and "0 < timerTick st"
  shows "repeat_wait os a n st = (if n \<le> unat d0 div unat (timerTick st)
    then Inr (PCD_STATUS_NOK, with_delay a (d0 - of_nat n * timerTick st) d1 st)
    else Inr (PCD_STATUS_OK, with_delay a d1 d1 st))"
  by (rule repeat_wait_eq [OF assms])

definition wait_pcd :: pcd where
  "wait_pcd = pcd_init\<lparr>rules := (\<lambda>a. blank_rule\<lparr>endCondition := END_WAIT 1000 1000\<rparr>)\<rparr>"

theorem wait_condition_exact_witness:
  "repeat_wait no_os 0 5 wait_pcd = Inr (PCD_STATUS_NOK, with_delay 0 0 1000 wait_pcd)
   \<and> repeat_wait no_os 0 6 wait_pcd = Inr (PCD_STATUS_OK, with_delay 0 1000 1000 wait_pcd)"
proof -
  have "endCondition (rules wait_pcd 0) = END_WAIT 1000 1000" "0 < timerTick wait_pcd"
    by (simp_all add: wait_pcd_def pcd_init_def)
  from wait_condition_exact [OF this, of no_os 5] wait_condition_exact [OF this, of no_os 6]
  show ?thesis by (simp add: wait_pcd_def pcd_init_def)
qed

end
