(* ===== verification/PcdLife.thy ===== *)
theory PcdLife imports PcdTimes begin

text \<open>
  The last part of a process' life: the escalation from SIGTERM to SIGKILL and the answer to a
  synchronous termination, followed through several passes of \<open>PCD_process_iterate_stop\<close>; and two
  ways in which the process module goes wrong, a failing \<open>fork\<close> and instances of indexed rules.
\<close>

section \<open>Passes over a single process\<close>

fun stop_passes :: "pcd_os \<Rightarrow> nat \<Rightarrow> pcd \<Rightarrow> pcd run" where
  "stop_passes os 0 st = Inr st"
| "stop_passes os (Suc n) st = bind_run (PCD_process_iterate_stop os st) (\<lambda>(s, st). stop_passes os n st)"

lemma stop_passes_snoc:
  "stop_passes os (Suc n) st =
     bind_run (stop_passes os n st) (\<lambda>st. bind_run (PCD_process_iterate_stop os st) (\<lambda>(s, st). Inr st))"
proof (induction n arbitrary: st)
  case 0
  show ?case by (cases "PCD_process_iterate_stop os st") auto
next
  case (Suc n)
  show ?case
  proof (cases "PCD_process_iterate_stop os st")
    case (Inr r)
    then obtain s st1 where "PCD_process_iterate_stop os st = Inr (s, st1)" by (cases r) auto
    with Suc.IH [of st1] show ?thesis by simp
  qed simp
qed

text \<open>No process but \<open>p\<close> is being stopped.\<close>

definition only_stops :: "addr \<Rightarrow> pcd \<Rightarrow> bool" where
  "only_stops p st \<longleftrightarrow> distinct (procList st) \<and> p \<in> set (procList st)
     \<and> (\<forall>q \<in> set (procList st). q \<noteq> p
         \<longrightarrow> (\<exists>y. procs st q = Some y \<and> (p_state y = PCD_PROCESS_STARTING \<or> p_state y = PCD_PROCESS_RUNNING)))"

lemma only_stops_cong:
  "procList st' = procList st \<Longrightarrow> (\<And>q. q \<noteq> p \<Longrightarrow> procs st' q = procs st q) \<Longrightarrow> only_stops p st' = only_stops p st"
  by (auto simp: only_stops_def)

lemma only_stops_single: "procList st = [p] \<Longrightarrow> only_stops p st"
  by (simp add: only_stops_def)

lemma walk_running:
  "\<forall>q \<in> set qs. \<exists>y. procs st q = Some y \<and> (p_state y = PCD_PROCESS_STARTING \<or> p_state y = PCD_PROCESS_RUNNING)
    \<Longrightarrow> stop_walk os (qs @ rs) st = stop_walk os rs st"
proof (induction qs)
  case (Cons q qs)
  then obtain y where y: "procs st q = Some y" "p_state y = PCD_PROCESS_STARTING \<or> p_state y = PCD_PROCESS_RUNNING" by auto
  then have "stop_node os q st = Inr (False, st)" by (auto simp: stop_node_def)
  with Cons show ?case by (subst stop_walk.simps) simp
qed simp

lemma iterate_stop_single:
  assumes "only_stops p st" and "stop_node os p st = Inr (False, st')" and "\<And>q. q \<noteq> p \<Longrightarrow> procs st' q = procs st q"
  shows "PCD_process_iterate_stop os st = Inr (PCD_STATUS_OK, st')"
proof -
  from assms(1) obtain qs rs where l: "procList st = qs @ p # rs" by (auto simp: only_stops_def in_set_conv_decomp)
  with assms(1) have "p \<notin> set qs" "p \<notin> set rs" by (auto simp: only_stops_def)
  then have q: "\<forall>q \<in> set qs. \<exists>y. procs st q = Some y \<and> (p_state y = PCD_PROCESS_STARTING \<or> p_state y = PCD_PROCESS_RUNNING)"
    and r: "\<forall>q \<in> set rs. \<exists>y. procs st' q = Some y \<and> (p_state y = PCD_PROCESS_STARTING \<or> p_state y = PCD_PROCESS_RUNNING)"
    using assms(1,3) l unfolding only_stops_def by (metis Un_iff list.set_intros(2) set_append)+
  have "stop_walk os (p # rs) st = stop_walk os rs st'" using assms(2) by (subst stop_walk.simps) simp
  also have "\<dots> = Some (Inr st')" using walk_running [OF r, of os "[]"] by (simp add: stop_walk.simps)
  finally show ?thesis by (simp add: PCD_process_iterate_stop_def l walk_running [OF q])
qed

lemma stop_passes_next:
  assumes "stop_passes os n st = Inr s" and "only_stops p s" and "stop_node os p s = Inr (False, s')"
    and "\<And>q. q \<noteq> p \<Longrightarrow> procs s' q = procs s q"
  shows "stop_passes os (Suc n) st = Inr s'"
  unfolding stop_passes_snoc using assms(1) iterate_stop_single [OF assms(2-4)] by simp

lemma set_proc_same: "procs st p = Some x \<Longrightarrow> set_proc p x st = st"
  by (simp add: set_proc_def fun_upd_idem)

lemma set_proc_twice [simp]: "set_proc p y (set_proc p x st) = set_proc p y st"
  by (simp add: set_proc_def)

text \<open>A process that was sent SIGTERM is left alone until its counter is used up.\<close>

lemma countdown:
  assumes "only_stops p st" and "procs st p = Some x" and "p_state x = PCD_PROCESS_KILLME" and "n \<le> unat (tm x)"
  shows "stop_passes os n st = Inr (set_proc p (x\<lparr>tm := tm x - of_nat n\<rparr>) st)"
  using assms
proof (induction n arbitrary: st x)
  case 0
  then show ?case by (simp add: set_proc_same)
next
  case (Suc n)
  let ?x = "x\<lparr>tm := tm x - 1\<rparr>"
  have "tm x \<noteq> 0" using Suc.prems(4) by auto
  then have node: "stop_node os p st = Inr (False, set_proc p ?x st)" and "unat (tm x - 1) = unat (tm x) - 1"
    using Suc.prems(2,3) by (simp_all add: stop_node_def unat_minus_one)
  moreover have "only_stops p (set_proc p ?x st)" using Suc.prems(1) by (subst only_stops_cong) simp_all
  ultimately show ?case using Suc.IH [of "set_proc p ?x st" ?x] Suc.prems iterate_stop_single [OF Suc.prems(1) node]
    by (simp add: algebra_simps)
qed

lemma none_to_kill:
  "\<forall>q \<in> set ps. \<exists>y. procs st q = Some y \<and> p_state y \<noteq> s \<Longrightarrow> find_by_state st ps s = Inr None"
  by (induction ps) auto

text \<open>The passes from the request on: SIGTERM, the grace period, SIGKILL, and the removal.\<close>

definition sent_term :: "proc_obj \<Rightarrow> proc_obj" where
  "sent_term x = x\<lparr>p_state := PCD_PROCESS_KILLME, tm := 7, signaled := True\<rparr>"

lemma escalation:
  assumes "only_stops p st" and "procs st p = Some x" and "p_state x = PCD_PROCESS_TERMME" and "0 < pid x"
    and "0 \<le> kill_ret os (pid x) SIGTERM"
  defines "s1 \<equiv> set_proc p (sent_term x) (send_signal (pid x) SIGTERM st)"
  shows "k \<le> 7 \<Longrightarrow> stop_passes os (Suc k) st = Inr (set_proc p ((sent_term x)\<lparr>tm := 7 - of_nat k\<rparr>) s1)"
    and "stop_passes os 9 st = Inr (send_signal (pid x) SIGKILL (set_proc p ((sent_term x)\<lparr>tm := 0, p_state := PCD_PROCESS_STOPPED\<rparr>) s1))"
    and "retstat x = PCD_PROCESS_RETNOTHING \<Longrightarrow> \<exists>st'. stop_passes os 10 st = Inr st' \<and> procList st' = remove1 p (procList st)
      \<and> procs st' = (procs st)(p := None) \<and> replies st' = replies st
      \<and> kills st' = kills st @ [(pid x, SIGTERM), (pid x, SIGKILL)]"
proof -
  have only: "only_stops p s" if "procList s = procList st" "\<And>q. q \<noteq> p \<Longrightarrow> procs s q = procs st q" for s
    using only_stops_cong [of s st p] that assms(1) by simp
  have o1: "only_stops p s1" "procs s1 p = Some (sent_term x)" by (rule only) (simp_all add: s1_def send_signal_def)
  have "\<forall>q \<in> set (procList st). \<exists>y. procs st q = Some y \<and> p_state y \<noteq> PCD_PROCESS_KILLME"
    using assms(1-3) unfolding only_stops_def by (metis option.sel proc_state.distinct)
  from none_to_kill [OF this] have "stop_node os p st = Inr (False, s1)"
    using assms(2-5) by (simp add: stop_node_def Let_def s1_def sent_term_def)
  then have first: "stop_passes os (Suc k) st = stop_passes os k s1" for k
    using iterate_stop_single [OF assms(1)] by (simp add: s1_def send_signal_def)
  have down: "stop_passes os (Suc k) st = Inr (set_proc p ((sent_term x)\<lparr>tm := 7 - of_nat k\<rparr>) s1)" if "k \<le> 7" for k
    unfolding first using countdown [OF o1, of k os] that by (simp add: sent_term_def)
  then show "k \<le> 7 \<Longrightarrow> stop_passes os (Suc k) st = Inr (set_proc p ((sent_term x)\<lparr>tm := 7 - of_nat k\<rparr>) s1)" .
  let ?s8 = "set_proc p ((sent_term x)\<lparr>tm := 0\<rparr>) s1"
  let ?z = "(sent_term x)\<lparr>tm := 0, p_state := PCD_PROCESS_STOPPED\<rparr>"
  let ?s9 = "send_signal (pid x) SIGKILL (set_proc p ?z s1)"
  have eight: "stop_passes os 8 st = Inr ?s8" using down [of 7] by simp
  have kill: "stop_node os p ?s8 = Inr (False, ?s9)" using assms(4) by (cases x) (simp add: stop_node_def sent_term_def)
  have o8: "only_stops p ?s8" by (rule only) (simp_all add: s1_def send_signal_def)
  have e: "(9 :: nat) = Suc 8" "(10 :: nat) = Suc 9" by simp_all
  show nine: "stop_passes os 9 st = Inr ?s9"
    unfolding e(1) by (rule stop_passes_next [OF eight o8 kill]) (simp add: send_signal_def)
  assume ret: "retstat x = PCD_PROCESS_RETNOTHING"
  have o9: "only_stops p ?s9" by (rule only) (simp_all add: s1_def send_signal_def)
  obtain s10 where last: "stop_node os p ?s9 = Inr (False, s10)" and s10: "kills s10 = kills ?s9"
    "procList s10 = remove1 p (procList ?s9)" "procs s10 = (procs ?s9)(p := None)" "replies s10 = replies ?s9"
    using ret by (simp add: stop_node_def stop_stopped_def end_triggers_def end_replies_def Let_def
        PCD_process_free_def NODE_DEL_def sent_term_def send_signal_def)
  have "stop_passes os 10 st = Inr s10"
    unfolding e(2) by (rule stop_passes_next [OF nine o9 last]) (simp add: s10)
  with s10 show "\<exists>st'. stop_passes os 10 st = Inr st' \<and> procList st' = remove1 p (procList st)
      \<and> procs st' = (procs st)(p := None) \<and> replies st' = replies st
      \<and> kills st' = kills st @ [(pid x, SIGTERM), (pid x, SIGKILL)]"
    by (simp add: s1_def send_signal_def fun_eq_iff)
qed

text \<open>
  C35: Escalation.  A process that is to be terminated and of which nothing is heard gets SIGTERM in
  the next pass of the process list, nothing in the seven passes after that, SIGKILL in the ninth,
  and is removed in the tenth.  A client that waits for the termination is not answered when the
  child was not reaped by then.
\<close>

theorem kill_escalation:
  assumes "procList st = [p]" and "procs st p = Some x" and "p_state x = PCD_PROCESS_TERMME" and "0 < pid x"
    and "0 \<le> kill_ret os (pid x) SIGTERM" and "retstat x = PCD_PROCESS_RETNOTHING"
  shows "(1 \<le> n \<and> n \<le> 8 \<longrightarrow> (\<exists>st' y. stop_passes os n st = Inr st' \<and> kills st' = kills st @ [(pid x, SIGTERM)]
        \<and> procs st' p = Some y \<and> p_state y = PCD_PROCESS_KILLME))
    \<and> (\<exists>st'. stop_passes os 9 st = Inr st' \<and> kills st' = kills st @ [(pid x, SIGTERM), (pid x, SIGKILL)]
        \<and> procs st' p \<noteq> None)
    \<and> (\<exists>st'. stop_passes os 10 st = Inr st' \<and> kills st' = kills st @ [(pid x, SIGTERM), (pid x, SIGKILL)]
        \<and> procList st' = [] \<and> procs st' p = None \<and> replies st' = replies st)"
proof -
  note run = escalation [OF only_stops_single [OF assms(1)] assms(2-5)]
  show ?thesis
  proof (intro conjI impI)
    assume n: "1 \<le> n \<and> n \<le> 8"
    then obtain k where "n = Suc k" "k \<le> 7" by (cases n) auto
    with run(1) [of k] show "\<exists>st' y. stop_passes os n st = Inr st' \<and> kills st' = kills st @ [(pid x, SIGTERM)]
        \<and> procs st' p = Some y \<and> p_state y = PCD_PROCESS_KILLME" by (simp add: send_signal_def sent_term_def)
  next
    show "\<exists>st'. stop_passes os 9 st = Inr st' \<and> kills st' = kills st @ [(pid x, SIGTERM), (pid x, SIGKILL)]
        \<and> procs st' p \<noteq> None"
      unfolding run(2) by (simp add: send_signal_def)
  next
    show "\<exists>st'. stop_passes os 10 st = Inr st' \<and> kills st' = kills st @ [(pid x, SIGTERM), (pid x, SIGKILL)]
        \<and> procList st' = [] \<and> procs st' p = None \<and> replies st' = replies st"
      using run(3) [OF assms(6)] assms(1) by auto
  qed
qed

definition term_proc :: proc_obj where
  "term_proc = (PCD_process_new 0)\<lparr>pid := 321, p_state := PCD_PROCESS_TERMME, cookie := Some 77\<rparr>"

definition term_pcd :: pcd where
  "term_pcd = pcd_init\<lparr>procList := [4], procs := [4 \<mapsto> term_proc], brk := 5\<rparr>"

theorem kill_escalation_witness:
  "(\<exists>st' y. stop_passes no_os 8 term_pcd = Inr st' \<and> kills st' = [(321, SIGTERM)]
      \<and> procs st' 4 = Some y \<and> p_state y = PCD_PROCESS_KILLME)
   \<and> (\<exists>st'. stop_passes no_os 10 term_pcd = Inr st' \<and> procList st' = [] \<and> replies st' = [])"
proof -
  have "procList term_pcd = [4]" "procs term_pcd 4 = Some term_proc" "p_state term_proc = PCD_PROCESS_TERMME"
    "0 < pid term_proc" "0 \<le> kill_ret no_os (pid term_proc) SIGTERM" "retstat term_proc = PCD_PROCESS_RETNOTHING"
    "pid term_proc = 321" "kills term_pcd = []" "replies term_pcd = []"
    by (simp_all add: term_pcd_def term_proc_def PCD_process_new_def no_os_def pcd_init_def)
  then show ?thesis using kill_escalation [of term_pcd 4 term_proc no_os 8] by auto
qed

section \<open>A failing fork\<close>

text \<open>
  C38: When \<open>fork\<close> fails the process object is nevertheless marked as starting, with pid -1; a client
  that then sends SIGUSR1 to the rule makes the daemon send it to every process it may signal.
\<close>

theorem fork_failure_signals_everyone:
  assumes "procList st = [p]" and "procs st p = Some x" and "p_state x = PCD_PROCESS_RUNME"
    and "proc (rules st a) = Some p" and "fork_pid os p = - 1"
  shows "\<exists>st1 st2. PCD_process_iterate_start os st = Inr (PCD_STATUS_OK, st1)
    \<and> procs st1 p = Some (x\<lparr>pid := - 1, p_state := PCD_PROCESS_STARTING, tm := 3\<rparr>)
    \<and> PCD_api_signal a SIGUSR1 st1 = Inr (PCD_STATUS_OK, st2) \<and> kills st2 = kills st @ [(- 1, SIGUSR1)]"
proof -
  let ?y = "x\<lparr>pid := - 1, p_state := PCD_PROCESS_STARTING, tm := 3\<rparr>"
  let ?s1 = "set_proc p ?y st"
  have "PCD_process_iterate_start os st = Inr (PCD_STATUS_OK, ?s1)"
    using assms by (simp add: PCD_process_iterate_start_def start_node_def PCD_process_spawn_def)
  moreover have "PCD_api_signal a SIGUSR1 ?s1 = Inr (PCD_STATUS_OK, send_signal (- 1) SIGUSR1 ?s1)"
    using assms(4) by (simp add: PCD_api_signal_def PCD_process_signal_by_rule_def)
  moreover have "kills (send_signal (- 1) SIGUSR1 ?s1) = kills st @ [(- 1, SIGUSR1)]" by (simp add: send_signal_def)
  ultimately show ?thesis by auto
qed

definition fork_pcd :: pcd where
  "fork_pcd = pcd_init\<lparr>rules := (\<lambda>a. blank_rule\<lparr>proc := Some 4\<rparr>), procList := [4],
     procs := [4 \<mapsto> PCD_process_new 0], brk := 5\<rparr>"

theorem fork_failure_signals_everyone_witness:
  "\<exists>st1 st2. PCD_process_iterate_start no_os fork_pcd = Inr (PCD_STATUS_OK, st1)
    \<and> PCD_api_signal 0 SIGUSR1 st1 = Inr (PCD_STATUS_OK, st2) \<and> kills st2 = [(- 1, SIGUSR1)]"
proof -
  have "procList fork_pcd = [4]" "procs fork_pcd 4 = Some (PCD_process_new 0)"
    "p_state (PCD_process_new 0) = PCD_PROCESS_RUNME" "proc (rules fork_pcd 0) = Some 4"
    "fork_pid no_os 4 = - 1" "kills fork_pcd = []"
    by (simp_all add: fork_pcd_def PCD_process_new_def no_os_def pcd_init_def)
  then show ?thesis using fork_failure_signals_everyone [of fork_pcd 4 "PCD_process_new 0" 0 no_os] by auto
qed

section \<open>Synchronous termination\<close>

lemma api_stop_running:
  assumes "timer_of_rule st a (timerQueue st) = Inr None" and "proc (rules st a) = Some p" and "procs st p = Some x"
    and "stoppable (p_state x)"
  shows "\<exists>st'. PCD_api_stop a False (Some ck) st = Inr (PCD_STATUS_WAIT, st')
    \<and> procs st' = (procs st)(p \<mapsto> x\<lparr>p_state := PCD_PROCESS_TERMME, tm := 0, cookie := Some ck\<rparr>)
    \<and> procList st' = procList st \<and> kills st' = kills st \<and> replies st' = replies st
    \<and> rules st' = (rules st)(a := (rules st a)\<lparr>optionalParams := None, proc := None, ruleState := PCD_RULE_IDLE\<rparr>)"
proof -
  have keep: "timer_of_rule (upd_rule a f st) a ts = timer_of_rule st a ts" for f ts
    by (induction ts) (simp_all add: get_timer_def split: option.split)
  have "\<not> (p_state x = PCD_PROCESS_STOPPED \<or> p_state x = PCD_PROCESS_STOPPING)"
    using assms(4) by (auto simp: stoppable_def)
  then show ?thesis using assms keep
    by (simp add: PCD_api_stop_def PCD_rulesdb_clear_optional_params_def PCD_timer_dequeue_rule_def
        PCD_process_stop_def set_state_def Let_def)
qed

lemma end_triggers_proc: "end_triggers (r\<lparr>proc := v\<rparr>) x = end_triggers r x"
  by (cases "retstat x"; cases "endCondition r") (simp_all add: end_triggers_def wrong_exit_def)

text \<open>Two passes after the child was reaped the process is removed; a client is answered if a signal had been sent.\<close>

lemma reaped_is_removed:
  assumes "only_stops p st" and "procs st p = Some x" and "p_state x = PCD_PROCESS_STOPPING"
    and "retstat x = PCD_PROCESS_RETEXITED \<or> retstat x = PCD_PROCESS_RETSIGNALED" and "cookie x = Some ck"
    and "signaled x \<or> \<not> end_triggers (rules st (p_rule x)) x"
  shows "\<exists>st' st''. stop_passes os 1 st = Inr st' \<and> replies st' = replies st \<and> stop_passes os 2 st = Inr st''
    \<and> replies st'' = replies st @ (if signaled x then [(ck, PCD_STATUS_OK)] else []) \<and> procs st'' p = None"
proof -
  let ?y = "x\<lparr>p_state := PCD_PROCESS_STOPPED\<rparr>"
  let ?s1 = "set_proc p ?y st"
  have zero: "stop_passes os 0 st = Inr st" by simp
  have n1: "stop_node os p st = Inr (False, ?s1)" using assms(2,3) by (simp add: stop_node_def)
  have one: "stop_passes os (Suc 0) st = Inr ?s1" by (rule stop_passes_next [OF zero assms(1) n1]) simp
  have l: "only_stops p ?s1" using assms(1) by (subst only_stops_cong) simp_all
  have same: "end_triggers r ?y = end_triggers r x" for r
    by (cases "retstat x"; cases "endCondition r") (simp_all add: end_triggers_def wrong_exit_def)
  have nt: "\<not> end_triggers ((rules st (p_rule x))\<lparr>proc := v\<rparr>) ?y" "\<not> end_triggers (rules st (p_rule x)) ?y" for v
  proof -
    have "\<not> end_triggers (rules st (p_rule x)) x"
    proof (cases "signaled x")
      case True
      with assms(4) show ?thesis by (elim disjE) (simp_all add: end_triggers_def)
    qed (use assms(6) in simp)
    then show "\<not> end_triggers ((rules st (p_rule x))\<lparr>proc := v\<rparr>) ?y" "\<not> end_triggers (rules st (p_rule x)) ?y" for v
      unfolding same end_triggers_proc by simp_all
  qed
  have er: "end_replies ?y = signaled x" using assms(4) by (simp add: end_replies_def)
  let ?u = "if proc (rules ?s1 (p_rule x)) = Some p then upd_rule (p_rule x) (\<lambda>r. r\<lparr>proc := None\<rparr>) ?s1 else ?s1"
  let ?v = "?u\<lparr>ipc_cleaned := ipc_cleaned ?u @ [pid x]\<rparr>"
  let ?w = "if signaled x then PCD_api_reply_message (Some ck) PCD_STATUS_OK ?v else ?v"
  let ?s2 = "PCD_process_free p (NODE_DEL p ?w)"
  have "\<not> end_triggers (rules ?v (p_rule x)) ?y" using nt by simp
  then have n2: "stop_node os p ?s1 = Inr (False, ?s2)"
    using er assms(5) by (simp add: stop_node_def stop_stopped_def Let_def split del: if_split) (simp split: if_split)
  have s2: "replies ?s2 = replies st @ (if signaled x then [(ck, PCD_STATUS_OK)] else [])" "procs ?s2 = (procs st)(p := None)"
    by (simp_all add: PCD_process_free_def NODE_DEL_def PCD_api_reply_message_def)
  have "stop_passes os (Suc (Suc 0)) st = Inr ?s2" by (rule stop_passes_next [OF one l n2]) (simp add: s2)
  moreover have "replies ?s1 = replies st" by simp
  moreover have "procs ?s2 p = None" using s2(2) by simp
  ultimately show ?thesis using one s2(1) unfolding One_nat_def numeral_2_eq_2 by blast
qed

text \<open>The reaped child is found by its pid, which no other process of the list has.\<close>

lemma chld_finds:
  assumes "p \<in> set ps" and "procs st p = Some x" and "\<forall>q \<in> set ps. q \<noteq> p \<longrightarrow> (\<exists>y. procs st q = Some y \<and> pid y \<noteq> pid x)"
  shows "process_chld (pid x) w ps st = Inr (set_proc p (record_exit w x) st)"
  using assms by (induction ps) auto

lemma chld_reaps:
  assumes "only_stops p st" and "procs st p = Some x" and "0 < pid x"
    and "\<forall>q \<in> set (procList st). q \<noteq> p \<longrightarrow> (\<forall>y. procs st q = Some y \<longrightarrow> pid y \<noteq> pid x)"
  shows "PCD_process_chld_handler [(pid x, w)] st = Inr (set_proc p (record_exit w x) st)"
proof -
  have "process_chld (pid x) w (procList st) st = Inr (set_proc p (record_exit w x) st)"
    by (rule chld_finds) (use assms in \<open>auto simp: only_stops_def\<close>)
  with assms(3) show ?thesis by (simp add: PCD_process_chld_def)
qed

text \<open>The child is reaped in a state where its process has been told to end.\<close>

lemma reaped_in_time:
  assumes "only_stops p st" and "procs st p = Some x" and "0 < pid x" and "cookie x = Some ck"
    and "\<forall>q \<in> set (procList st). q \<noteq> p \<longrightarrow> (\<forall>y. procs st q = Some y \<longrightarrow> pid y \<noteq> pid x)"
    and "w = WExited c \<or> w = WSignaled c" and "signaled x \<or> \<not> end_triggers (rules st (p_rule x)) (record_exit w x)"
  shows "\<exists>st3 st4 st5. PCD_process_chld_handler [(pid x, w)] st = Inr st3 \<and> stop_passes os 1 st3 = Inr st4 \<and> replies st4 = replies st
    \<and> stop_passes os 2 st3 = Inr st5 \<and> replies st5 = replies st @ (if signaled x then [(ck, PCD_STATUS_OK)] else []) \<and> procs st5 p = None"
proof -
  let ?z = "record_exit w x"
  let ?s = "set_proc p ?z st"
  have z: "p_state ?z = PCD_PROCESS_STOPPING" "signaled ?z = signaled x" "cookie ?z = Some ck" "p_rule ?z = p_rule x"
    "retstat ?z = PCD_PROCESS_RETEXITED \<or> retstat ?z = PCD_PROCESS_RETSIGNALED"
    using assms(4,6) by (auto simp: record_exit_def)
  have s: "only_stops p ?s" "procs ?s p = Some ?z" using assms(1) by (subst only_stops_cong) simp_all
  have "signaled ?z \<or> \<not> end_triggers (rules ?s (p_rule ?z)) ?z" using assms(7) z(2,4) by simp
  from reaped_is_removed [OF s z(1,5,3) this, of os] chld_reaps [OF assms(1-3,5), of w] z(2)
  show ?thesis by auto
qed

text \<open>The first nine passes after the request: the process stays, with a signal sent and its client noted.\<close>

lemma passes_keep:
  assumes "only_stops p st" and "procs st p = Some x" and "p_state x = PCD_PROCESS_TERMME" and "0 < pid x"
    and "0 \<le> kill_ret os (pid x) SIGTERM" and "1 \<le> j" and "j \<le> 9"
  shows "\<exists>st' y. stop_passes os j st = Inr st' \<and> procs st' = (procs st)(p \<mapsto> y) \<and> procList st' = procList st
    \<and> replies st' = replies st \<and> signaled y \<and> cookie y = cookie x \<and> pid y = pid x"
proof -
  note run = escalation [OF assms(1-5)]
  from assms(6,7) consider k where "j = Suc k" "k \<le> 7" | "j = 9" by (cases j) force+
  then show ?thesis
  proof cases
    case 1
    show ?thesis unfolding 1(1) run(1) [OF 1(2)]
      by (rule exI, rule exI [of _ "(sent_term x)\<lparr>tm := 7 - of_nat k\<rparr>"], intro conjI, rule refl)
        (simp_all add: send_signal_def sent_term_def)
  next
    case 2
    show ?thesis unfolding 2 run(2)
      by (rule exI, rule exI [of _ "(sent_term x)\<lparr>tm := 0, p_state := PCD_PROCESS_STOPPED\<rparr>"], intro conjI, rule refl)
        (simp_all add: send_signal_def sent_term_def)
  qed
qed

text \<open>When all processes of the list run, a pass does nothing.\<close>

lemma passes_running:
  assumes "\<forall>q \<in> set (procList st). \<exists>y. procs st q = Some y \<and> (p_state y = PCD_PROCESS_STARTING \<or> p_state y = PCD_PROCESS_RUNNING)"
  shows "stop_passes os n st = Inr st"
proof (induction n)
  case (Suc n)
  have "stop_walk os (procList st) st = Some (Inr st)"
    using walk_running [OF assms, of os "[]"] by (simp add: stop_walk.simps)
  then show ?case using Suc by (simp add: PCD_process_iterate_stop_def)
qed simp

lemma stop_passes_add: "stop_passes os (m + n) st = bind_run (stop_passes os m st) (stop_passes os n)"
proof (induction m arbitrary: st)
  case (Suc m)
  then show ?case by (cases "PCD_process_iterate_stop os st") auto
qed simp

text \<open>A client \<open>ck\<close> waits for the end of the process \<open>p\<close>, which has not been sent a signal yet.\<close>

definition awaits :: "pcd_os \<Rightarrow> addr \<Rightarrow> proc_obj \<Rightarrow> addr \<Rightarrow> pcd \<Rightarrow> bool" where
  "awaits os p x ck st \<longleftrightarrow> only_stops p st \<and> procs st p = Some x \<and> p_state x = PCD_PROCESS_TERMME \<and> cookie x = Some ck
     \<and> 0 < pid x \<and> 0 \<le> kill_ret os (pid x) SIGTERM \<and> retstat x = PCD_PROCESS_RETNOTHING \<and> \<not> signaled x
     \<and> (\<forall>q \<in> set (procList st). q \<noteq> p \<longrightarrow> (\<forall>y. procs st q = Some y \<longrightarrow> pid y \<noteq> pid x))"

lemma awaits_first: "awaits os p x ck st \<Longrightarrow> \<exists>st'. stop_passes os 1 st = Inr st' \<and> kills st' = kills st @ [(pid x, SIGTERM)]"
  using escalation(1) [of p st x os 0] by (simp add: awaits_def send_signal_def)

lemma awaits_in_time:
  assumes "awaits os p x ck st" and "w = WExited c \<or> w = WSignaled c" and "1 \<le> j" and "j \<le> 9"
  shows "\<exists>st2 st3 st4 st5. stop_passes os j st = Inr st2 \<and> PCD_process_chld_handler [(pid x, w)] st2 = Inr st3
    \<and> stop_passes os 1 st3 = Inr st4 \<and> replies st4 = replies st
    \<and> stop_passes os 2 st3 = Inr st5 \<and> replies st5 = replies st @ [(ck, PCD_STATUS_OK)] \<and> procs st5 p = None"
proof -
  note a = assms(1) [unfolded awaits_def]
  from a passes_keep [of p st x os j] assms(3,4) obtain st2 z where st2: "stop_passes os j st = Inr st2" "procs st2 = (procs st)(p \<mapsto> z)"
    "procList st2 = procList st" "replies st2 = replies st" and z: "signaled z" "cookie z = Some ck" "pid z = pid x" by auto
  have "only_stops p st2" using conjunct1 [OF a] st2(2,3) by (subst only_stops_cong) simp_all
  moreover have "\<forall>q \<in> set (procList st2). q \<noteq> p \<longrightarrow> (\<forall>v. procs st2 q = Some v \<longrightarrow> pid v \<noteq> pid z)" using a st2 z(3) by simp
  ultimately obtain st3 st4 st5 where "PCD_process_chld_handler [(pid z, w)] st2 = Inr st3" "stop_passes os 1 st3 = Inr st4"
    "replies st4 = replies st2" "stop_passes os 2 st3 = Inr st5" "replies st5 = replies st2 @ [(ck, PCD_STATUS_OK)]" "procs st5 p = None"
    using reaped_in_time [where os = os, of p st2 z ck w c] st2(2) z a assms(2) by auto
  with st2 z(3) show ?thesis by auto
qed

lemma awaits_too_late:
  assumes "awaits os p x ck st"
  shows "\<exists>st2. stop_passes os (10 + n) st = Inr st2 \<and> replies st2 = replies st \<and> procs st2 p = None"
proof -
  note a = assms [unfolded awaits_def]
  from a escalation(3) [of p st x os] obtain st' where st': "stop_passes os 10 st = Inr st'" "procList st' = remove1 p (procList st)"
    "procs st' = (procs st)(p := None)" "replies st' = replies st" by blast
  have "stop_passes os n st' = Inr st'"
    by (rule passes_running) (use a st' in \<open>auto simp: only_stops_def\<close>)
  with st' show ?thesis unfolding stop_passes_add by simp
qed

lemma awaits_early:
  assumes "awaits os p x ck st" and "w = WExited c \<or> w = WSignaled c" and "\<not> end_triggers (rules st (p_rule x)) (record_exit w x)"
  shows "\<exists>st3 st5. PCD_process_chld_handler [(pid x, w)] st = Inr st3
    \<and> stop_passes os 2 st3 = Inr st5 \<and> replies st5 = replies st \<and> procs st5 p = None"
  using assms(1) reaped_in_time [of p st x ck w c os] assms(2,3) unfolding awaits_def by auto

text \<open>The request puts the process into that state, and no more.\<close>

lemma sync_request_accepted:
  assumes "db_map (core s) (m_ruleId m) = Some a" and "m_type m = PCD_API_TERMINATE_PROCESS_SYNC" and "m_context m"
    and "timer_of_rule (core s) a (timerQueue (core s)) = Inr None" and "proc (rules (core s) a) = Some p"
    and "procs (core s) p = Some x" and "p_state x = PCD_PROCESS_RUNNING"
  shows "\<exists>st1. handle_message mo m s = Inr (s\<lparr>core := st1\<rparr>)
    \<and> procs st1 = (procs (core s))(p \<mapsto> x\<lparr>p_state := PCD_PROCESS_TERMME, tm := 0, cookie := Some (m_addr m)\<rparr>)
    \<and> procList st1 = procList (core s) \<and> kills st1 = kills (core s) \<and> replies st1 = replies (core s)
    \<and> rules st1 = (rules (core s))(a := (rules (core s) a)\<lparr>optionalParams := None, proc := None, ruleState := PCD_RULE_IDLE\<rparr>)"
proof -
  have "stoppable (p_state x)" using assms(7) by (simp add: stoppable_def)
  from api_stop_running [OF assms(4-6) this, of "m_addr m"] obtain st1 where
    stop: "PCD_api_stop a False (Some (m_addr m)) (core s) = Inr (PCD_STATUS_WAIT, st1)"
    and st1: "procs st1 = (procs (core s))(p \<mapsto> x\<lparr>p_state := PCD_PROCESS_TERMME, tm := 0, cookie := Some (m_addr m)\<rparr>)"
      "procList st1 = procList (core s)" "kills st1 = kills (core s)" "replies st1 = replies (core s)"
      "rules st1 = (rules (core s))(a := (rules (core s) a)\<lparr>optionalParams := None, proc := None, ruleState := PCD_RULE_IDLE\<rparr>)"
    by blast
  have look: "PCD_rulesdb_get_rule_by_id (Some (m_ruleId m)) (core s) = Inr (Some a, core s)"
    using get_rule_known [OF assms(1)] by (simp add: PCD_rulesdb_get_rule_by_id_def numeral_2_eq_2)
  have "handle_message mo m s = Inr (s\<lparr>core := st1\<rparr>)"
    by (simp add: handle_message_def assms(3) api_dispatch_def assms(2) look api_request_def stop Let_def)
  with st1 show ?thesis by blast
qed


definition running_proc :: proc_obj where
  "running_proc = (PCD_process_new 0)\<lparr>pid := 321, p_state := PCD_PROCESS_RUNNING\<rparr>"

definition running_state :: api_state where
  "running_state = \<lparr>core = pcd_init\<lparr>rules := (\<lambda>a. (named_rule ''net'' ''b'')\<lparr>proc := Some 4,
       ruleState := PCD_RULE_COMPLETED\<rparr>), groups := [(''net'', [0])], procList := [4],
       procs := [4 \<mapsto> running_proc], brk := 5\<rparr>,
     misc = \<lparr>netRxPid = 0, netRxPriority = 0\<rparr>, sent = [], freed_msgs = []\<rparr>"

definition sync_msg :: api_msg where
  "sync_msg = \<lparr>m_addr = 60, m_type = PCD_API_TERMINATE_PROCESS_SYNC, m_arg = 0,
     m_ruleId = \<lparr>groupName = ''net'', ruleName = ''b''\<rparr>, m_msgId = 9, m_params = [], m_context = True\<rparr>"

text \<open>The child of a rule beside a process that runs on.\<close>

definition two_running :: api_state where
  "two_running = running_state\<lparr>core := (core running_state)\<lparr>procList := [5, 4],
     procs := [4 \<mapsto> running_proc, 5 \<mapsto> running_proc\<lparr>p_rule := 1, pid := 322\<rparr>], brk := 6\<rparr>\<rparr>"


section \<open>Instances of indexed rules\<close>

lemma lookup_procs: "get_rule_by_id n rid st = Inr (r, st') \<Longrightarrow> procs st' = procs st"
  by (induction n rid st arbitrary: r st' rule: get_rule_by_id.induct)
    (auto simp: PCD_rulesdb_add_rule_def Let_def split: option.splits prod.splits if_splits)

text \<open>
  The instance of an indexed rule that runs is created with a pointer to the template's process.
  When that process has ended and was removed, the pointer dangles: a request to stop the instance
  accesses freed memory.
\<close>

theorem indexed_instance_dangles:
  assumes "db_ok st" and "db_map st rid = None" and "template_of st rid = Some t"
    and "proc (rules st t) = Some p" and "procs st p = Some x" and "p_rule x = t"
    and "\<not> end_triggers (rules st t) x"
  shows "\<exists>st1 st2. PCD_rulesdb_get_rule_by_id (Some rid) st = Inr (Some (brk st), st1)
    \<and> stop_stopped p x st1 = Inr (False, st2) \<and> PCD_process_stop (Some (brk st)) brutal ck st2 = Inl UseAfterFree"
proof -
  from get_rule_template [OF assms(1-3)] obtain st1 where
    look: "PCD_rulesdb_get_rule_by_id (Some rid) st = Inr (Some (brk st), st1)"
    and rs: "rules st1 = (rules st)(brk st := instance_of (rules st t) (ruleName rid))"
    by blast
  have ps: "procs st1 = procs st" using look lookup_procs by (simp add: PCD_rulesdb_get_rule_by_id_def)
  have new: "t \<noteq> brk st" using template_in_db(1) [OF assms(1,3)] assms(1)
    by (fastforce simp: db_ok_def group_ok_def db_rules_def)
  let ?u = "upd_rule t (\<lambda>r. r\<lparr>proc := None\<rparr>) st1"
  let ?v = "?u\<lparr>ipc_cleaned := ipc_cleaned ?u @ [pid x]\<rparr>"
  let ?w = "if end_replies x then PCD_api_reply_message (cookie x) PCD_STATUS_OK ?v else ?v"
  have t: "rules st1 t = rules st t" using rs new by simp
  have trig: "\<not> end_triggers (rules ?v t) x" using assms(7) t end_triggers_proc by simp
  have "proc (rules st1 (p_rule x)) = Some p" using assms(4,6) t by simp
  with trig have st2: "stop_stopped p x st1 = Inr (False, PCD_process_free p (NODE_DEL p ?w))"
    unfolding stop_stopped_def Let_def assms(6) by (simp split del: if_split) simp
  let ?st2 = "PCD_process_free p (NODE_DEL p ?w)"
  have rs2: "rules ?st2 = rules ?u" by (simp add: PCD_process_free_def NODE_DEL_def PCD_api_reply_message_def split: option.splits)
  have "procs ?st2 p = None" by (simp add: PCD_process_free_def)
  moreover have "proc (rules ?st2 (brk st)) = Some p" unfolding rs2 using rs new assms(4) by (simp add: instance_of_def)
  ultimately have "PCD_process_stop (Some (brk st)) brutal ck ?st2 = Inl UseAfterFree"
    by (simp add: PCD_process_stop_def)
  with look st2 show ?thesis by blast
qed

text \<open>The template runs as process 9; the instance is created while it does.\<close>

definition ended_proc :: proc_obj where
  "ended_proc = (PCD_process_new 1)\<lparr>pid := 40, p_state := PCD_PROCESS_STOPPED,
     retstat := PCD_PROCESS_RETEXITED\<rparr>"

definition template_pcd :: pcd where
  "template_pcd = two_rules\<lparr>procList := [9], procs := [9 \<mapsto> ended_proc]\<rparr>"

theorem indexed_instance_dangles_witness:
  "\<exists>st1 st2. PCD_rulesdb_get_rule_by_id (Some \<lparr>groupName = ''net'', ruleName = ''d7''\<rparr>) template_pcd
      = Inr (Some 2, st1)
    \<and> stop_stopped 9 ended_proc st1 = Inr (False, st2)
    \<and> PCD_process_stop (Some 2) True None st2 = Inl UseAfterFree"
proof -
  let ?rid = "\<lparr>groupName = ''net'', ruleName = ''d7''\<rparr>"
  have same: "groups template_pcd = groups two_rules" "rules template_pcd = rules two_rules"
    "brk template_pcd = brk two_rules" by (simp_all add: template_pcd_def)
  then have "db_ok template_pcd" using two_rules_ok by (simp add: db_ok_def)
  moreover have "db_map template_pcd ?rid = None" "template_of template_pcd ?rid = Some 1"
    using two_rules_map(3,4) unfolding db_map_def template_of_def same by (simp_all only:)
  moreover have "proc (rules template_pcd 1) = Some 9" "procs template_pcd 9 = Some ended_proc"
    "p_rule ended_proc = 1" "\<not> end_triggers (rules template_pcd 1) ended_proc" "brk template_pcd = 2"
    by (simp_all add: template_pcd_def two_rules_def ended_proc_def PCD_process_new_def end_triggers_def
        wrong_exit_def named_rule_def blank_rule_def)
  ultimately show ?thesis
    using indexed_instance_dangles [of template_pcd ?rid 1 9 ended_proc True None] by simp
qed

end
