(* ===== verification/PcdNet.thy ===== *)
theory PcdNet imports PcdCall PcdLife begin

text \<open>
  The properties of the connection between the daemon and its clients: the start of the daemon's
  destination point, answered requests, the synchronous termination that is answered later, and what
  happens when memory is short or a datagram is malformed.
\<close>

section \<open>The daemon's destination point\<close>

text \<open>The state after the start of the destination point of the daemon.\<close>

definition daemon_up :: "ipc_os \<Rightarrow> 'd daemon \<Rightarrow> 'd daemon" where
  "daemon_up os d = (let st = started os PCD_SERVER_NAME 0 (d_net d); i = free_slot (clients (d_net d)) in
     d\<lparr>d_net := st\<lparr>clients := (clients st)[i := (clients st ! i)\<lparr>c_owner := PCD_OWNER_ID\<rparr>]\<rparr>, pcdContext := int i\<rparr>)"

lemma api_init_eq:
  assumes "ipc_ready (d_net d)" and "free_slot (clients (d_net d)) < 32" and "0 < sock_fd os"
    and "path_free os (socket_path PCD_SERVER_NAME) (d_net d)"
  shows "PCD_api_init os d = Inr (PCD_STATUS_OK, daemon_up os d)"
proof -
  let ?st = "d_net d"
  let ?i = "free_slot (clients ?st)"
  let ?s = "started os PCD_SERVER_NAME 0 ?st"
  note r = ready_simps [OF assms(1)]
  have ready: "ipc_ready ?s" by (rule started_ok [OF assms(1)])
  note rs = ready_simps [OF ready]
  have start: "IPC_start os (Some PCD_SERVER_NAME) 0 ?st = Inr (IPC_STATUS_OK, Some (int ?i), ?s)"
    using start_eq [OF assms(1,2) _ assms(4), of 0] assms(3) by (simp add: started_def)
  have "?s\<lparr>list_lock := True, clients := cs, list_lock := False\<rparr> = ?s\<lparr>clients := cs\<rparr>" for cs
    using rs(4) by (cases ?s) simp
  moreover note slot_client [OF ready assms(2)]
  ultimately have "IPC_set_owner (int ?i) PCD_OWNER_ID ?s
    = Inr (IPC_STATUS_OK, ?s\<lparr>clients := (clients ?s)[?i := (clients ?s ! ?i)\<lparr>c_owner := PCD_OWNER_ID\<rparr>]\<rparr>)"
    using rs assms(2) by (simp add: IPC_set_owner_def IPC_MAX_LIST_SIZE_def)
  with start r(1) show ?thesis
    by (simp add: PCD_api_init_def IPC_init_def daemon_up_def Let_def)
qed

lemma first_slot_eq:
  "i < length cs \<Longrightarrow> P (cs ! i) \<Longrightarrow> (\<And>j. j < i \<Longrightarrow> \<not> P (cs ! j)) \<Longrightarrow> first_slot P cs = i"
  unfolding first_slot_def by (subst takeWhile_eq_take_P_nth [of i]) auto

lemma daemon_up_ready: "ipc_ready (d_net d) \<Longrightarrow> ipc_ready (d_net (daemon_up os d))"
  by (auto simp: daemon_up_def Let_def ipc_ready_def ipc_defs started_def)

lemma daemon_up_entry:
  assumes "ipc_ready (d_net d)" and "free_slot (clients (d_net d)) < 32"
  shows "clients (d_net (daemon_up os d)) = (clients (d_net d))[free_slot (clients (d_net d)) :=
    \<lparr>c_fd = sock_fd os, c_path = socket_path PCD_SERVER_NAME, c_flags = MSG_DONTWAIT, c_owner = PCD_OWNER_ID, c_pid = mypid (d_net d)\<rparr>]"
  using assms(2) ready_simps(3) [OF assms(1)] by (simp add: daemon_up_def Let_def started_def)

text \<open>The state after \<open>IPC_init\<close>: the table of the running system, or a new one.\<close>

definition joined :: "ipc_os \<Rightarrow> 'd ipc \<Rightarrow> 'd ipc" where
  "joined os st = (let st = st\<lparr>i_shmaddr := True, info_lock := False, IPC_Clients := ShmMapped\<rparr>
     in if shm_exists os then st else st\<lparr>clients := replicate IPC_MAX_LIST_SIZE no_client, list_lock := False\<rparr>)"

lemma init_joined:
  "\<not> i_shmaddr st \<Longrightarrow> ftok_ok os \<Longrightarrow> shmat_ok os \<Longrightarrow> shm_exists os \<or> shm_created os \<Longrightarrow> IPC_init os st = Inr (IPC_STATUS_OK, joined os st)"
  by (auto simp: IPC_init_def joined_def Let_def)

lemma joined_ready: "self_ok st \<Longrightarrow> shared_ok st \<Longrightarrow> ipc_ready (joined os st)"
  by (auto simp: ipc_ready_def ipc_defs joined_def Let_def)

lemma joined_simps [simp]:
  "mypid (joined os st) = mypid st" "paths (joined os st) = paths st" "socks (joined os st) = socks st"
  "clients (joined os st) = (if shm_exists os then clients st else replicate 32 no_client)"
  by (simp_all add: joined_def Let_def IPC_MAX_LIST_SIZE_def)

lemma joined_path: "path_free os p (joined os' st) = path_free os p st"
  by (simp add: path_free_def listening_def cong: option.case_cong)

lemma api_init_joins:
  assumes "IPC_init os (d_net d) = Inr (IPC_STATUS_OK, st)" and "i_shmaddr st"
  shows "PCD_api_init os d = PCD_api_init os (d\<lparr>d_net := st\<rparr>)"
  using assms by (simp add: PCD_api_init_def IPC_init_def [of os st] cong: option.case_cong if_cong)

text \<open>
  The entries of the table that are in use under the daemon's owner id all have the daemon's path:
  entries that daemons left behind which did not live to remove them.
\<close>

definition stale_only :: "ipc_client list \<Rightarrow> bool" where
  "stale_only cs \<longleftrightarrow> (\<forall>c \<in> set cs. c_fd c \<noteq> 0 \<and> c_owner c = PCD_OWNER_ID \<longrightarrow> c_path c = socket_path PCD_SERVER_NAME)"

lemma takeWhile_shorter: "\<exists>x \<in> set xs. \<not> Q x \<Longrightarrow> length (takeWhile Q xs) < length xs"
  by (induction xs) auto

text \<open>The lookup finds an entry in use, of this daemon or an old one; either leads to its path.\<close>

lemma lookup_leads:
  assumes "length cs = 32" and "free_slot cs < 32" and "stale_only cs" and "c_fd c \<noteq> 0" and "c_owner c = PCD_OWNER_ID"
    and "c_path c = socket_path PCD_SERVER_NAME"
  shows "\<exists>e < 32. first_slot (\<lambda>c. c_fd c \<noteq> 0 \<and> c_owner c = PCD_OWNER_ID) (cs[free_slot cs := c]) = e
    \<and> c_fd (cs[free_slot cs := c] ! e) \<noteq> 0 \<and> c_path (cs[free_slot cs := c] ! e) = socket_path PCD_SERVER_NAME"
proof -
  let ?P = "\<lambda>c. c_fd c \<noteq> 0 \<and> c_owner c = PCD_OWNER_ID" and ?cs = "cs[free_slot cs := c]"
  have "c \<in> set ?cs" using assms(1,2) by (intro set_update_memI) simp
  with assms(4,5) have "first_slot ?P ?cs < length ?cs"
    unfolding first_slot_def by (intro takeWhile_shorter) blast
  then have e: "first_slot ?P ?cs < 32" "?P (?cs ! first_slot ?P ?cs)"
    using assms(1) first_slot_less [of ?P ?cs] by simp_all
  have "stale_only ?cs" using assms(3,6) set_update_subset_insert [of cs] unfolding stale_only_def by blast
  with e assms(1) have "c_path (?cs ! first_slot ?P ?cs) = socket_path PCD_SERVER_NAME" by (simp add: stale_only_def)
  with e show ?thesis by blast
qed

text \<open>
  What a process \<open>c\<close> may do with the service behind the socket \<open>k\<close>: the lookup by the daemon's owner id
  gives it an entry, and any message that it sends there arrives, alone, in the socket.
\<close>

definition reaches :: "int \<times> int \<Rightarrow> 'd ipc \<Rightarrow> bool" where
  "reaches k c \<longleftrightarrow> (\<exists>e. IPC_get_context_by_owner PCD_OWNER_ID c = Inr (Some (int e), c)
     \<and> (\<forall>(os :: ipc_os) j a m. heap c a = Some m \<and> msg_context m = int j \<and> open_slot j c
           \<and> socks c (mypid c, c_fd (clients c ! j)) \<noteq> None \<and> 0 < queue_max os
         \<longrightarrow> (\<exists>c'. IPC_send_msg os (int e) (Some a) c = Inr (IPC_STATUS_OK, c') \<and> socks c' k = Some [m])))"

lemma entry_reaches:
  assumes "ipc_ready c" and "first_slot (\<lambda>c. c_fd c \<noteq> 0 \<and> c_owner c = PCD_OWNER_ID) (clients c) = e" and "e < 32"
    and "c_fd (clients c ! e) \<noteq> 0" and "paths c (c_path (clients c ! e)) = Some k" and "socks c k = Some []"
  shows "reaches k c"
  unfolding reaches_def
proof (intro exI [of _ e] conjI allI impI)
  show "IPC_get_context_by_owner PCD_OWNER_ID c = Inr (Some (int e), c)" by (rule owner_eq [OF assms(1-3)])
  fix os :: ipc_os and j a m
  assume h: "heap c a = Some m \<and> msg_context m = int j \<and> open_slot j c
      \<and> socks c (mypid c, c_fd (clients c ! j)) \<noteq> None \<and> 0 < queue_max os"
  then have j: "heap c a = Some m" "msg_context m = int j" "j < 32" by (simp_all add: open_slot_def)
  have e: "open_slot e c" using assms(3,4) by (simp add: open_slot_def)
  have "sys_sendto os (c_fd (clients c ! j)) m (c_path (clients c ! e)) c = Some (c\<lparr>socks := (socks c)(k \<mapsto> [] @ [m])\<rparr>)"
    by (rule sendto_eq) (use h assms(5,6) in simp_all)
  then show "\<exists>c'. IPC_send_msg os (int e) (Some a) c = Inr (IPC_STATUS_OK, c') \<and> socks c' k = Some [m]"
    unfolding send_msg_eq [OF assms(1) j e] by (simp add: send_end_def)
qed

text \<open>C29: \<open>PCD_api_init\<close> of a process that has not yet attached itself to the table, with no running
  instance of the daemon (no file at its path, or one that a dead daemon left behind), in a system
  without a table or with one that has a free entry, entries of dead daemons included: the daemon is
  attached to its new destination point, which is open, empty and bound to its name, and every
  process that uses the table reaches it: the lookup by the daemon's owner id gives an entry, perhaps
  that of a dead daemon, and a message sent to this entry arrives in the new daemon's socket.\<close>

theorem api_init_opens_service:
  assumes "\<not> i_shmaddr (d_net d)" and "self_ok (d_net d)" and "shared_ok (d_net d)" and "ftok_ok os" and "shmat_ok os"
    and "if shm_exists os then free_slot (clients (d_net d)) < 32 \<and> stale_only (clients (d_net d)) else shm_created os"
    and "0 < sock_fd os" and "path_free os (socket_path PCD_SERVER_NAME) (d_net d)"
  shows "\<exists>d' D. PCD_api_init os d = Inr (PCD_STATUS_OK, d') \<and> d_api d' = d_api d
    \<and> attached D (mypid (d_net d)) d' \<and> service_up D (mypid (d_net d), sock_fd os) (d_net d')
    \<and> (\<forall>me. ipc_ready (resume me (d_net d')) \<longrightarrow> reaches (mypid (d_net d), sock_fd os) (resume me (d_net d')))"
proof -
  let ?d = "d\<lparr>d_net := joined os (d_net d)\<rparr>"
  let ?u = "daemon_up os ?d" and ?k = "(mypid (d_net d), sock_fd os)"
  let ?cs = "clients (d_net ?d)"
  let ?c = "\<lparr>c_fd = sock_fd os, c_path = socket_path PCD_SERVER_NAME, c_flags = MSG_DONTWAIT, c_owner = PCD_OWNER_ID, c_pid = mypid (d_net d)\<rparr>"
  have ini: "IPC_init os (d_net d) = Inr (IPC_STATUS_OK, joined os (d_net d))"
    by (rule init_joined) (use assms in \<open>auto split: if_splits\<close>)
  have ready: "ipc_ready (d_net ?d)" using joined_ready [OF assms(2,3)] by simp
  note r = ready_simps [OF ready]
  have new: "free_slot (replicate 32 no_client) = 0"
    by (simp add: free_slot_def no_client_def numeral_eq_Suc)
  have slot: "free_slot ?cs < 32" and stale: "stale_only ?cs"
    using assms(6) new by (auto simp: stale_only_def no_client_def split: if_splits)
  have path: "path_free os (socket_path PCD_SERVER_NAME) (d_net ?d)"
    using assms(8) by (simp add: joined_path)
  have run: "PCD_api_init os d = Inr (PCD_STATUS_OK, ?u)"
    using api_init_joins [OF ini] r(1) api_init_eq [OF ready slot assms(7) path] by simp
  note ready' = daemon_up_ready [OF ready, of os]
  have cs: "clients (d_net ?u) = ?cs[free_slot ?cs := ?c]" using daemon_up_entry [OF ready slot, of os] by simp
  have st: "paths (d_net ?u) = (paths (d_net d))(socket_path PCD_SERVER_NAME \<mapsto> ?k)"
    "socks (d_net ?u) = (socks (d_net d))(?k \<mapsto> [])" "pcdContext ?u = int (free_slot ?cs)" "d_api ?u = d_api d" "mypid (d_net ?u) = mypid (d_net d)"
    by (simp_all add: daemon_up_def started_def Let_def)
  have att: "attached (free_slot ?cs) (mypid (d_net d)) ?u" using ready' st by (simp add: attached_def ipc_ready_def)
  have up: "service_up (free_slot ?cs) ?k (d_net ?u)"
    using ready' st cs r(3) slot assms(7) by (simp add: service_up_def open_slot_def ipc_ready_def ipc_ok_def del: joined_simps(4))
  from lookup_leads [OF r(3) slot stale, of ?c] assms(7) obtain e where
    e: "e < 32" "first_slot (\<lambda>c. c_fd c \<noteq> 0 \<and> c_owner c = PCD_OWNER_ID) (clients (d_net ?u)) = e"
      "c_fd (clients (d_net ?u) ! e) \<noteq> 0" "c_path (clients (d_net ?u) ! e) = socket_path PCD_SERVER_NAME"
    unfolding cs by auto
  have reach: "reaches ?k (resume me (d_net ?u))" if me: "ipc_ready (resume me (d_net ?u))" for me
    by (rule entry_reaches [OF me _ e(1)]) (use e(2-4) st in \<open>simp_all add: resume_def\<close>)
  from run st(4) att up reach show ?thesis by blast
qed

section \<open>Requests and answers\<close>

text \<open>C2: a request of the client library returns what the daemon's dispatch of it returns.  When the table
  has a free entry and leads to the daemon, the daemon makes a pass over its messages while the client
  waits, and the dispatch neither stops nor leaves the request waiting, then the call returns the
  status of the dispatch (and the state of the rule, where one was asked for and found), through the
  allocation, both datagrams and the matching of the message id.  It leaves no message, no socket and
  no file behind and gives its entry of the table back.\<close>

theorem client_call_returns_daemon_answer:
  assumes "can_call osc D dk (net c)" and "malloc_ok osw" and "layout_ok L"
    and "valid_id rid" and "request_args type ps value = Some args"
    and "req = request_msg L junk (free_slot (clients (net c))) rid type args" and "plain_request req"
    and "malloc_ok os" and "0 < queue_max os" and "self_ok (d_net d)" and "attached D (fst dk) d"
    and "api_dispatch mo (req\<lparr>m_addr := ipc_brk (d_net d)\<rparr>) (d_api d) = Inr (rv, rs, api)" and "rv \<noteq> PCD_STATUS_WAIT"
  shows "\<exists>x. PCD_api_malloc_and_send osc L junk ((osw, daemon_pass os mo L junk' d) # rounds) rid type ps wanted value c
      = Inr (rv, x, \<lparr>net = after_call osc (net c), pcdApiInitDone = True\<rparr>)
    \<and> (wanted \<and> type = PCD_API_GET_RULE_STATE \<and> rs \<noteq> None \<longrightarrow> x = rs)"
proof -
  have "req\<lparr>m_addr := a, m_context := True\<rparr> = req\<lparr>m_addr := a\<rparr>" for a using assms(6) by (simp add: request_msg_def)
  then have "daemon_answer os mo D dk d req = Some (rv, rs)" using assms(8-13) by (simp add: daemon_answer_def)
  from daemon.call_answered [OF assms(1,3,2,4-7) this] show ?thesis by blast
qed

text \<open>C3: the message loop of the daemon, with the real calls of the message library, does exactly what the
  abstract loop does with the requests that wait in the daemon's socket: the same return, the same
  halts, and the same state of the daemon apart from the record of what was sent and freed.  In
  particular an answer that cannot be delivered changes nothing for the daemon.\<close>

theorem message_loop_refines:
  assumes "daemon_ready os D d q"
  shows "bind_run (check_messages os mo L junk d) (\<lambda>(r, d'). Inr (r, unlogged (d_api d')))
    = bind_run (PCD_api_check_messages mo (incoming L (ipc_brk (d_net d)) q) (d_api d)) (\<lambda>(r, s'). Inr (r, unlogged s'))"
  unfolding check_messages_def PCD_api_check_messages_def serve_messages_eq [OF assms refl]
  by (simp add: bind_run_assoc)

text \<open>C28: a request whose dispatch has to wait for the end of a process, over the real message library: the
  pass of the daemon sends no reply and keeps the message on its heap; when the message, the cookie of
  the process, is answered afterwards, the client gets exactly one datagram, with the id of its
  request and the status, and the message is released.\<close>

theorem sync_request_kept_then_answered:
  assumes "daemon_ready os D d [m]" and "0 < queue_max os"
    and "paths (d_net d) (c_path (clients (d_net d) ! nat (msg_context m))) = Some ck" and "socks (d_net d) ck = Some []"
    and "api_dispatch mo ((request_of L (data m))\<lparr>m_addr := ipc_brk (d_net d), m_context := True\<rparr>) (d_api d)
      = Inr (PCD_STATUS_WAIT, rs, api)"
  shows "\<exists>d1 d2. check_messages os mo L junk d = Inr (PCD_STATUS_OK, d1) \<and> d_api d1 = api
    \<and> heap (d_net d1) = (heap (d_net d))(ipc_brk (d_net d) \<mapsto> m) \<and> socks (d_net d1) ck = Some []
    \<and> answer_cookie os L junk (Some (ipc_brk (d_net d))) retval d1 = Inr d2 \<and> heap (d_net d2) = heap (d_net d)
    \<and> socks (d_net d2) ck = Some [reply_to L junk D (m_msgId (request_of L (data m))) None retval]"
proof -
  from assms(1) have d: "ipc_ready (d_net d)" "open_slot D (d_net d)" "pcdContext d = int D" "malloc_ok os"
    "socks (d_net d) (own_sock D (d_net d)) = Some [m]" "ck \<noteq> own_sock D (d_net d)"
    using assms(3) by (auto simp: daemon_ready_def foreign_def)
  from serve_wait [OF d(1-4) refl d(5) assms(2,3) d(6) assms(4,5), of junk retval] d(6) assms(4) show ?thesis by fastforce
qed

section \<open>What goes wrong\<close>

text \<open>C39: a datagram without the magic number, which any process can send to the socket file of the daemon,
  stops it: \<open>IPC_wait_msg\<close> hands the datagram out unchecked, \<open>IPC_get_msg\<close> returns NULL for it, and the
  message loop reads the type of the request through that pointer.\<close>

theorem malformed_datagram_stops_daemon:
  assumes "i_shmaddr (d_net d)" and "IPC_Clients (d_net d) = ShmMapped" and "length (clients (d_net d)) = 32"
    and "\<not> info_lock (d_net d)" and "open_slot D (d_net d)" and "pcdContext d = int D" and "malloc_ok os"
    and "socks (d_net d) (own_sock D (d_net d)) = Some (m # q)" and "magic m \<noteq> IPC_MESSAGE_MAGIC"
  shows "check_messages os mo L junk d = Inl NullDeref"
proof -
  let ?st = "d_net d"
  have D: "D < 32" "c_fd (clients ?st ! D) \<noteq> 0" using assms(5) by (simp_all add: open_slot_def)
  have u: "unused (int D) ?st = Inr False" using assms(2,3) D by (simp add: unused_def IPC_MAX_LIST_SIZE_def)
  have c: "get_client (int D) ?st = Inr (clients ?st ! D)" using assms(2,3) D by simp
  obtain st' where w: "IPC_wait_msg os id (int D) IPC_TIMEOUT_IMMEDIATE ?st = Inr (Some (ipc_brk ?st), st')"
    and h: "heap st' (ipc_brk ?st) = Some m"
    using assms(1,4,7,8) u c by (auto simp: IPC_wait_msg_def Let_def own_sock_def)
  have s: "serve_messages os mo L junk (Suc n) d = Inl NullDeref" for n
    using w h assms(6,9) by (simp add: serve_message_def IPC_get_msg_def IPC_get_msg_context_def)
  from s [of 4] show ?thesis by (simp add: check_messages_def)
qed

text \<open>when memory for an incoming message is short, \<open>IPC_wait_msg\<close> fails without releasing the lock of
  the process, and loses nothing else: the message still waits, but the next call of the process that
  waits on a destination point in use never returns.\<close>

theorem wait_without_memory_blocks:
  assumes "ipc_ready st" and "open_slot i st" and "socks st (own_sock i st) = Some (m # q)" and "\<not> malloc_ok os"
    and "open_slot j st"
  shows "\<exists>st'. IPC_wait_msg os others (int i) t st = Inr (None, st') \<and> socks st' = socks st \<and> info_lock st'
    \<and> IPC_wait_msg os' others' (int j) t' st' = Inl Diverges"
proof -
  note r = ready_simps [OF assms(1)]
  have ij: "i < 32" "j < 32" using assms(2,5) by (simp_all add: open_slot_def)
  note c = slot_client [OF assms(1) ij(1)]
  let ?s = "st\<lparr>info_lock := True\<rparr>"
  have "IPC_wait_msg os others (int i) t st = Inr (None, ?s)"
    using assms(3,4) r c unused_slot [OF assms(1,2)] by (simp add: IPC_wait_msg_def Let_def own_sock_def)
  moreover have "unused (int j) ?s = Inr False"
    using assms(5) r ij by (simp add: unused_def get_client_def shm_def IPC_MAX_LIST_SIZE_def open_slot_def)
  then have "IPC_wait_msg os' others' (int j) t' ?s = Inl Diverges"
    using r slot_client [OF assms(1) ij(2)] by (simp add: IPC_wait_msg_def Let_def lock_info_def)
  ultimately show ?thesis by auto
qed

text \<open>the rest of a timeout that is not a whole number of seconds is passed on as microseconds, not as
  milliseconds: a wait of \<open>w\<close> milliseconds ends after \<open>999 (w mod 1000)\<close> microseconds less, and a wait of
  less than a second after as many microseconds.  The timeouts of the client library, five and twenty
  seconds, are not affected.\<close>

theorem wait_time_exact:
  "\<exists>s us. wait_timeval (Millisec w) = Some (s, us) \<and> s * 1000000 + us = unat w * 1000 - 999 * (unat w mod 1000)
    \<and> wait_timeval (reply_timeout type) = Some (if type = PCD_API_TERMINATE_PROCESS_SYNC then 20 else 5, 0)"
proof -
  let ?n = "unat w"
  have d: "?n = ?n div 1000 * 1000 + ?n mod 1000" by simp
  have m: "?n - ?n div 1000 * 1000 = ?n mod 1000" by (simp add: modulo_nat_def)
  have "?n div 1000 * 1000000 + ?n mod 1000 = ?n * 1000 - 999 * (?n mod 1000)" using d by linarith
  with m show ?thesis by (simp add: wait_timeval_def reply_timeout_def PCD_API_REPLY_TIMEOUT_def)
qed

text \<open>a second daemon does not take over the name of a running one: its \<open>PCD_api_init\<close> fails and the
  table, the files and all open sockets stay as they are.  But the socket it has opened is left open:
  the process cannot close it any more, as nobody keeps its descriptor.\<close>

theorem second_daemon_refused:
  assumes "ipc_ready (d_net d)" and "free_slot (clients (d_net d)) < 32" and "sock_fd os \<noteq> - 1"
    and "paths (d_net d) (socket_path PCD_SERVER_NAME) = Some k" and "socks (d_net d) k = Some q"
  shows "PCD_api_init os d = Inr (PCD_STATUS_NOK,
    d\<lparr>d_net := (d_net d)\<lparr>socks := (socks (d_net d))((mypid (d_net d), sock_fd os) \<mapsto> [])\<rparr>\<rparr>)"
proof -
  have "listening (socket_path PCD_SERVER_NAME) (d_net d)" using assms(4,5) by (simp add: listening_def)
  from start_refused [OF assms(1-3) this, of 0] ready_simps(1) [OF assms(1)] show ?thesis
    by (simp add: PCD_api_init_def IPC_init_def)
qed

text \<open>\<open>IPC_cleanup_proc\<close>, called with the pid of a process that has died, removes the first entry of that
  process only: every other entry of the table stays, a second destination point of the process
  included.\<close>

theorem cleanup_removes_first_only:
  assumes "ipc_ready st" and "first_slot (\<lambda>c. c_fd c \<noteq> 0 \<and> c_pid c = p) (clients st) = i" and "i < 32"
  shows "\<exists>st'. IPC_cleanup_proc p st = Inr (IPC_STATUS_OK, st') \<and> c_fd (clients st' ! i) = 0
    \<and> (\<forall>j < 32. j \<noteq> i \<longrightarrow> clients st' ! j = clients st ! j)"
proof -
  note r = ready_simps [OF assms(1)]
  have slot: "open_slot i st" using first_slot_less [of "\<lambda>c. c_fd c \<noteq> 0 \<and> c_pid c = p" "clients st"] assms(2,3) r(3)
    by (simp add: open_slot_def)
  note c = slot_client [OF assms(1,3)]
  have "IPC_cleanup_proc p st = IPC_stop (int i) st"
    using assms(2,3) r by (simp add: IPC_cleanup_proc_def Let_def IPC_MAX_LIST_SIZE_def)
  moreover have "\<exists>st'. IPC_stop (int i) st = Inr (IPC_STATUS_OK, st')
      \<and> clients st' = (clients st)[i := (clients st ! i)\<lparr>c_path := [], c_fd := 0, c_owner := IPC_NO_OWNER, c_pid := 0\<rparr>]"
    using r c assms(3) unused_slot [OF assms(1) slot] by (simp add: IPC_stop_def Let_def sys_unlink_def sys_close_def)
  ultimately show ?thesis using r(3) assms(3) by auto
qed

section \<open>A concrete system\<close>

datatype body = Blank | Request api_msg | Reply api_reply

definition blank_msg :: api_msg where
  "blank_msg = \<lparr>m_addr = 0, m_type = PCD_API_START_PROCESS, m_arg = 0, m_ruleId = no_rule_id, m_msgId = 0, m_params = [], m_context = True\<rparr>"

definition blank_reply :: api_reply where
  "blank_reply = \<lparr>r_msgId = 0, r_ruleState = None, r_retval = PCD_STATUS_OK\<rparr>"

definition body_layout :: "body api_layout" where
  "body_layout = \<lparr>put_request = Request, request_of = (\<lambda>b. case b of Request m \<Rightarrow> m | _ \<Rightarrow> blank_msg),
     put_reply = (\<lambda>r d. Reply r), reply_of = (\<lambda>b. case b of Reply r \<Rightarrow> r | _ \<Rightarrow> blank_reply), first_word = (\<lambda>b. 7)\<rparr>"

definition calm_misc :: misc_os where
  "calm_misc = \<lparr>find_net_rx = 0, sched_priority = None\<rparr>"

text \<open>The table is new; the daemon is process 5.\<close>

definition new_table :: "int \<Rightarrow> body ipc" where
  "new_table p = (fresh_proc p)\<lparr>i_shmaddr := True, IPC_Clients := ShmMapped\<rparr>"

definition some_daemon :: "api_state \<Rightarrow> body daemon" where
  "some_daemon s = daemon_up calm_os \<lparr>d_net = new_table 5, d_api = s, pcdContext = 0\<rparr>"

definition some_client :: "body ipc \<Rightarrow> body client" where
  "some_client w = \<lparr>net = resume (new_table 9) w, pcdApiInitDone = True\<rparr>"

lemma body_layout_ok [simp]: "layout_ok body_layout"
  by (simp add: layout_ok_def body_layout_def)

lemma new_table_ready [simp]: "ipc_ready (new_table p)"
  by (simp add: ipc_ready_def ipc_defs new_table_def fresh_proc_def)

lemma new_table_slot [simp]: "free_slot (clients (new_table p)) = 0"
proof -
  have e: "IPC_MAX_LIST_SIZE = Suc 31" by (simp add: IPC_MAX_LIST_SIZE_def)
  show ?thesis by (simp add: free_slot_def new_table_def fresh_proc_def no_client_def e)
qed

lemma new_table_free [simp]: "path_free calm_os p (new_table q)"
  by (simp add: path_free_def listening_def new_table_def fresh_proc_def)

text \<open>A table with the daemon, process 5, and a client, process 9; \<open>q\<close> waits at the daemon.\<close>

definition demo_net :: "int \<Rightarrow> body ipc_msg list \<Rightarrow> body ipc" where
  "demo_net p q = (new_table p)\<lparr>clients := \<lparr>c_fd = 3, c_path = socket_path PCD_SERVER_NAME, c_flags = 0, c_owner = PCD_OWNER_ID, c_pid = 5\<rparr>
       # \<lparr>c_fd = 4, c_path = ''c'', c_flags = 0, c_owner = IPC_NO_OWNER, c_pid = 9\<rparr> # replicate 30 no_client,
     socks := [(5, 3) \<mapsto> q, (9, 4) \<mapsto> []], paths := [socket_path PCD_SERVER_NAME \<mapsto> (5, 3), ''c'' \<mapsto> (9, 4)]\<rparr>"

definition demo_daemon :: "body ipc_msg list \<Rightarrow> body daemon" where
  "demo_daemon q = \<lparr>d_net = demo_net 5 q, d_api = running_state, pcdContext = 0\<rparr>"

definition demo_msg :: "api_type \<Rightarrow> body ipc_msg" where
  "demo_msg t = request_datagram 1 (Request (sync_msg\<lparr>m_addr := 0, m_type := t\<rparr>))"

lemma server_path: "socket_path PCD_SERVER_NAME = ''/var/tmp/pcd-server.ctl''"
  by (simp add: socket_path_def IPC_UNIX_PATH_MAX_def IPC_SOCKET_PATH_def PCD_SERVER_NAME_def)

lemma demo_simps [simp]:
  "i_shmaddr (demo_net p q)" "IPC_Clients (demo_net p q) = ShmMapped" "length (clients (demo_net p q)) = 32"
  "\<not> info_lock (demo_net p q)" "\<not> list_lock (demo_net p q)" "mypid (demo_net p q) = p" "heap (demo_net p q) = (\<lambda>_. None)"
  "ipc_brk (demo_net p q) = 0" "socks (demo_net p q) = [(5, 3) \<mapsto> q, (9, 4) \<mapsto> []]"
  by (simp_all add: demo_net_def new_table_def fresh_proc_def)

lemma demo_entries [simp]:
  "c_fd (clients (demo_net p q) ! 0) = 3" "c_pid (clients (demo_net p q) ! 0) = 5" "c_fd (clients (demo_net p q) ! Suc 0) = 4"
  "c_path (clients (demo_net p q) ! Suc 0) = ''c''" "c_path (clients (demo_net p q) ! 0) = socket_path PCD_SERVER_NAME"
  "paths (demo_net p q) ''c'' = Some (9, 4)" "paths (demo_net p q) (socket_path PCD_SERVER_NAME) = Some (5, 3)"
  by (simp_all add: demo_net_def server_path)

lemma demo_ready: "(\<And>m. m \<in> set q \<Longrightarrow> msg_ok m) \<Longrightarrow> ipc_ready (demo_net p q)"
  by (auto simp: ipc_ready_def ipc_defs IPC_MAX_LIST_SIZE_def split: if_splits)

lemma demo_own [simp]: "own_sock 0 (demo_net 5 q) = (5, 3)" "open_slot 0 (demo_net p q)" "open_slot 1 (demo_net p q)"
  by (simp_all add: own_sock_def open_slot_def)

lemma demo_msg_ok [simp]: "msg_ok (demo_msg t)" "msg_context (demo_msg t) = 1"
  "request_of body_layout (data (demo_msg t)) = sync_msg\<lparr>m_addr := 0, m_type := t\<rparr>"
  by (simp_all add: demo_msg_def datagram_ok body_layout_def)

lemma demo_daemon_ready: "daemon_ready calm_os 0 (demo_daemon [demo_msg t]) [demo_msg t]"
  using demo_ready [of "[demo_msg t]" 5] by (simp add: daemon_ready_def demo_daemon_def foreign_def)

theorem message_loop_refines_witness:
  "bind_run (check_messages calm_os calm_misc body_layout Blank (demo_daemon [demo_msg PCD_API_GET_RULE_STATE])) (\<lambda>(r, d'). Inr (r, unlogged (d_api d')))
    = bind_run (PCD_api_check_messages calm_misc [sync_msg\<lparr>m_addr := 0, m_type := PCD_API_GET_RULE_STATE\<rparr>] running_state)
        (\<lambda>(r, s'). Inr (r, unlogged s'))"
  using message_loop_refines [OF demo_daemon_ready, of calm_misc body_layout Blank PCD_API_GET_RULE_STATE]
  by (simp add: demo_daemon_def sync_msg_def)

theorem malformed_datagram_stops_daemon_witness:
  "check_messages calm_os calm_misc body_layout Blank (demo_daemon [\<lparr>magic = 1, msg_size = 4, msg_context = 1, data = Blank\<rparr>]) = Inl NullDeref"
proof -
  let ?m = "\<lparr>magic = 1, msg_size = 4, msg_context = 1, data = Blank\<rparr>"
  have "magic ?m \<noteq> IPC_MESSAGE_MAGIC" by (simp add: IPC_MESSAGE_MAGIC_def)
  with malformed_datagram_stops_daemon [of "demo_daemon [?m]" 0 calm_os ?m "[]" calm_misc body_layout Blank]
  show ?thesis by (simp add: demo_daemon_def)
qed

theorem wait_without_memory_blocks_witness:
  "\<exists>st'. IPC_wait_msg (calm_os\<lparr>malloc_ok := False\<rparr>) id 0 IPC_TIMEOUT_FOREVER (demo_net 5 [demo_msg PCD_API_KILL_PROCESS]) = Inr (None, st')
    \<and> IPC_wait_msg calm_os id 0 IPC_TIMEOUT_FOREVER st' = Inl Diverges"
  using wait_without_memory_blocks [OF demo_ready, of "[demo_msg PCD_API_KILL_PROCESS]" 0 5 "demo_msg PCD_API_KILL_PROCESS" "[]"
      "calm_os\<lparr>malloc_ok := False\<rparr>" 0 id IPC_TIMEOUT_FOREVER calm_os id IPC_TIMEOUT_FOREVER]
  by (auto simp del: id_apply)

theorem second_daemon_refused_witness:
  "PCD_api_init calm_os \<lparr>d_net = demo_net 6 [], d_api = running_state, pcdContext = 0\<rparr> = Inr (PCD_STATUS_NOK,
    \<lparr>d_net = (demo_net 6 [])\<lparr>socks := (socks (demo_net 6 []))((6, 3) \<mapsto> [])\<rparr>, d_api = running_state, pcdContext = 0\<rparr>)"
proof -
  have "free_slot (clients (demo_net 6 [])) = 2"
    by (simp add: free_slot_def demo_net_def no_client_def numeral_eq_Suc)
  with second_daemon_refused [of "\<lparr>d_net = demo_net 6 [], d_api = running_state, pcdContext = 0\<rparr>" calm_os "(5, 3)" "[]"] demo_ready [of "[]" 6]
  show ?thesis by simp
qed

text \<open>
  A system after a crash: the entry and the file of the dead daemon, process 4, are still there, and
  a client, process 9, holds a message.
\<close>

definition crashed_net :: "int \<Rightarrow> body ipc" where
  "crashed_net p = (fresh_proc p)\<lparr>clients := \<lparr>c_fd = 3, c_path = socket_path PCD_SERVER_NAME, c_flags = MSG_DONTWAIT, c_owner = PCD_OWNER_ID, c_pid = 4\<rparr>
       # \<lparr>c_fd = 4, c_path = ''c'', c_flags = 0, c_owner = IPC_NO_OWNER, c_pid = 9\<rparr> # replicate 30 no_client,
     socks := [(9, 4) \<mapsto> []], paths := [socket_path PCD_SERVER_NAME \<mapsto> (4, 3), ''c'' \<mapsto> (9, 4)]\<rparr>"

definition old_client :: "body ipc" where
  "old_client = (new_table 9)\<lparr>heap := [0 \<mapsto> demo_msg PCD_API_GET_RULE_STATE], ipc_brk := 1\<rparr>"

theorem api_init_opens_service_witness:
  "\<exists>d' D e c'. PCD_api_init (calm_os\<lparr>shm_exists := True\<rparr>) \<lparr>d_net = crashed_net 5, d_api = undefined, pcdContext = 0\<rparr> = Inr (PCD_STATUS_OK, d')
    \<and> attached D 5 d'
    \<and> IPC_get_context_by_owner PCD_OWNER_ID (resume old_client (d_net d')) = Inr (Some e, resume old_client (d_net d'))
    \<and> IPC_send_msg calm_os e (Some 0) (resume old_client (d_net d')) = Inr (IPC_STATUS_OK, c')
    \<and> socks c' (5, 3) = Some [demo_msg PCD_API_GET_RULE_STATE]"
proof -
  let ?os = "calm_os\<lparr>shm_exists := True\<rparr>" and ?d = "\<lparr>d_net = crashed_net 5, d_api = undefined, pcdContext = 0\<rparr>"
  have slot: "free_slot (clients (crashed_net 5)) = 2"
    by (simp add: free_slot_def crashed_net_def no_client_def numeral_eq_Suc)
  have stale: "stale_only (clients (crashed_net 5))" by (simp add: stale_only_def crashed_net_def no_client_def IPC_NO_OWNER_def PCD_OWNER_ID_def)
  have h: "\<not> i_shmaddr (d_net ?d)" "self_ok (d_net ?d)" "shared_ok (d_net ?d)" "ftok_ok ?os" "shmat_ok ?os"
    "if shm_exists ?os then free_slot (clients (d_net ?d)) < 32 \<and> stale_only (clients (d_net ?d)) else shm_created ?os"
    "0 < sock_fd ?os" "path_free ?os (socket_path PCD_SERVER_NAME) (d_net ?d)"
    using slot stale by (simp_all add: calm_os_def ipc_defs crashed_net_def fresh_proc_def IPC_MAX_LIST_SIZE_def path_free_def
        listening_def server_path)
  have pid: "mypid (d_net ?d) = 5" "sock_fd ?os = 3" by (simp_all add: crashed_net_def fresh_proc_def)
  from api_init_opens_service [OF h, unfolded pid] obtain d' D where
    d': "PCD_api_init ?os ?d = Inr (PCD_STATUS_OK, d')" "attached D 5 d'" "service_up D (5, 3) (d_net d')"
    and reach: "\<And>me. ipc_ready (resume me (d_net d')) \<Longrightarrow> reaches (5, 3) (resume me (d_net d'))" by blast
  let ?c = "resume old_client (d_net d')"
  have ready: "ipc_ready ?c"
    using d'(3) by (auto simp: service_up_def ipc_ready_def ipc_defs resume_def old_client_def new_table_def fresh_proc_def)
  have own: "heap ?c 0 = Some (demo_msg PCD_API_GET_RULE_STATE)" by (simp add: resume_def old_client_def)
  have entry: "clients (d_net d') ! 1 = clients (crashed_net 5) ! 1" "socks (d_net d') (9, 4) = Some []"
  proof -
    have "PCD_api_init ?os ?d = PCD_api_init ?os (?d\<lparr>d_net := joined ?os (crashed_net 5)\<rparr>)"
      by (rule api_init_joins) (simp_all add: IPC_init_def joined_def crashed_net_def fresh_proc_def calm_os_def)
    moreover have "\<dots> = Inr (PCD_STATUS_OK, daemon_up ?os (?d\<lparr>d_net := joined ?os (crashed_net 5)\<rparr>))"
      by (rule api_init_eq) (use h slot joined_ready [of "crashed_net 5" ?os] in \<open>simp_all add: joined_path\<close>)
    ultimately have "d' = daemon_up ?os (?d\<lparr>d_net := joined ?os (crashed_net 5)\<rparr>)" using d'(1) by simp
    then show "clients (d_net d') ! 1 = clients (crashed_net 5) ! 1" "socks (d_net d') (9, 4) = Some []"
      using slot by (simp_all add: daemon_up_def started_def Let_def) (simp_all add: crashed_net_def fresh_proc_def)
  qed
  then have "open_slot 1 ?c" "socks ?c (mypid ?c, c_fd (clients ?c ! 1)) \<noteq> None" "msg_context (demo_msg PCD_API_GET_RULE_STATE) = int 1"
    by (simp_all add: open_slot_def resume_def crashed_net_def old_client_def new_table_def fresh_proc_def)
  with own reach [OF ready, unfolded reaches_def] obtain e c' where
    "IPC_get_context_by_owner PCD_OWNER_ID ?c = Inr (Some (int e), ?c)"
    "IPC_send_msg calm_os (int e) (Some 0) ?c = Inr (IPC_STATUS_OK, c')" "socks c' (5, 3) = Some [demo_msg PCD_API_GET_RULE_STATE]"
    using calm_simps(3) by (metis zero_less_numeral)
  with d'(1,2) show ?thesis by blast
qed

lemma running_facts:
  "db_map (core running_state) (m_ruleId sync_msg) = Some 0"
  "timer_of_rule (core running_state) 0 (timerQueue (core running_state)) = Inr None"
  "proc (rules (core running_state) 0) = Some 4" "procs (core running_state) 4 = Some running_proc"
  "p_state running_proc = PCD_PROCESS_RUNNING"
  by (simp_all add: db_map_def find_rule_def running_state_def running_proc_def sync_msg_def pcd_init_def
      named_rule_def blank_rule_def PCD_process_new_def)

lemma running_lookup:
  "PCD_rulesdb_get_rule_by_id (Some (m_ruleId sync_msg)) (core running_state) = Inr (Some 0, core running_state)"
  using get_rule_known [OF running_facts(1)] by (simp add: PCD_rulesdb_get_rule_by_id_def numeral_2_eq_2)

lemma running_sync:
  "\<exists>api. api_dispatch mo (sync_msg\<lparr>m_addr := a, m_type := PCD_API_TERMINATE_PROCESS_SYNC\<rparr>) running_state = Inr (PCD_STATUS_WAIT, None, api)"
proof -
  have "stoppable (p_state running_proc)" using running_facts(5) by (simp add: stoppable_def)
  from api_stop_running [OF running_facts(2-4) this, of a] obtain st1 where
    "PCD_api_stop 0 False (Some a) (core running_state) = Inr (PCD_STATUS_WAIT, st1)" by blast
  with running_lookup show ?thesis by (simp add: api_dispatch_def api_request_def)
qed

lemma running_rule_state:
  "m_type m = PCD_API_GET_RULE_STATE \<Longrightarrow> m_ruleId m = m_ruleId sync_msg \<Longrightarrow> m_context m \<Longrightarrow>
    api_dispatch mo m running_state = Inr (PCD_STATUS_OK, Some PCD_API_RULE_COMPLETED_PROCESS_RUNNING, running_state)"
  using running_lookup running_facts(3)
  by (simp add: api_dispatch_def api_request_def api_state_of_def running_state_def named_rule_def)

theorem sync_request_kept_then_answered_witness:
  "\<exists>d1 d2. check_messages calm_os calm_misc body_layout Blank (demo_daemon [demo_msg PCD_API_TERMINATE_PROCESS_SYNC]) = Inr (PCD_STATUS_OK, d1)
    \<and> socks (d_net d1) (9, 4) = Some [] \<and> answer_cookie calm_os body_layout Blank (Some 0) PCD_STATUS_OK d1 = Inr d2
    \<and> (\<exists>r. socks (d_net d2) (9, 4) = Some [r] \<and> reply_of body_layout (data r) = \<lparr>r_msgId = 9, r_ruleState = None, r_retval = PCD_STATUS_OK\<rparr>)"
proof -
  let ?m = "demo_msg PCD_API_TERMINATE_PROCESS_SYNC"
  let ?d = "demo_daemon [?m]"
  obtain api where "api_dispatch calm_misc (sync_msg\<lparr>m_addr := 0, m_type := PCD_API_TERMINATE_PROCESS_SYNC\<rparr>) running_state
      = Inr (PCD_STATUS_WAIT, None, api)" using running_sync by blast
  then have "api_dispatch calm_misc ((request_of body_layout (data ?m))\<lparr>m_addr := ipc_brk (d_net ?d), m_context := True\<rparr>) (d_api ?d)
      = Inr (PCD_STATUS_WAIT, None, api)" by (simp add: demo_daemon_def sync_msg_def)
  from sync_request_kept_then_answered [OF demo_daemon_ready _ _ _ this, of "(9, 4)" Blank PCD_STATUS_OK]
  obtain d1 d2 where "check_messages calm_os calm_misc body_layout Blank ?d = Inr (PCD_STATUS_OK, d1)" "socks (d_net d1) (9, 4) = Some []"
    "answer_cookie calm_os body_layout Blank (Some 0) PCD_STATUS_OK d1 = Inr d2"
    "socks (d_net d2) (9, 4) = Some [reply_to body_layout Blank 0 9 None PCD_STATUS_OK]"
    by (auto simp: demo_daemon_def sync_msg_def)
  then show ?thesis by (intro exI [of _ d1] exI [of _ d2]) (simp add: reply_to_def body_layout_def)
qed

text \<open>A process with two destination points.\<close>

definition two_points :: "body ipc" where
  "two_points = (demo_net 5 [])\<lparr>clients := (clients (demo_net 5 []))[2 := \<lparr>c_fd = 6, c_path = ''e'', c_flags = 0,
     c_owner = IPC_NO_OWNER, c_pid = 9\<rparr>]\<rparr>"

theorem cleanup_removes_first_only_witness:
  "\<exists>st'. IPC_cleanup_proc 9 two_points = Inr (IPC_STATUS_OK, st') \<and> c_fd (clients st' ! 1) = 0
    \<and> c_fd (clients st' ! 2) = 6 \<and> c_pid (clients st' ! 2) = 9"
proof -
  have ready: "ipc_ready two_points" using demo_ready [of "[]" 5] by (simp add: two_points_def ipc_ready_def ipc_defs)
  have first: "first_slot (\<lambda>c. c_fd c \<noteq> 0 \<and> c_pid c = 9) (clients two_points) = 1"
    by (simp add: first_slot_def two_points_def demo_net_def numeral_2_eq_2)
  have "c_fd (clients two_points ! 2) = 6" "c_pid (clients two_points ! 2) = 9" by (simp_all add: two_points_def)
  with cleanup_removes_first_only [OF ready first] show ?thesis by fastforce
qed

theorem client_call_returns_daemon_answer_witness:
  "\<exists>x c'. PCD_api_malloc_and_send (calm_os\<lparr>sock_fd := 7\<rparr>) body_layout Blank
      [(calm_os, daemon_pass calm_os calm_misc body_layout Blank (demo_daemon []))] (Some (m_ruleId sync_msg)) PCD_API_GET_RULE_STATE None True 0
      \<lparr>net = demo_net 9 [], pcdApiInitDone = True\<rparr> = Inr (PCD_STATUS_OK, x, c')
    \<and> x = Some PCD_API_RULE_COMPLETED_PROCESS_RUNNING"
proof -
  let ?os = "calm_os\<lparr>sock_fd := 7\<rparr>"
  let ?c = "\<lparr>net = demo_net 9 [], pcdApiInitDone = True\<rparr>"
  have nine: "int_str 9 = ''9''" by (subst int_str_def, subst base_digits.simps, simp add: digit_char_def)
  then have path: "socket_path (client_name (demo_net 9 [])) = ''/var/tmp/pcd-client-9.ctl''"
    by (simp add: client_name_def socket_path_def IPC_UNIX_PATH_MAX_def IPC_SOCKET_PATH_def PCD_CLIENTS_NAME_PREFIX_def)
  have slot: "free_slot (clients (demo_net 9 [])) = 2" by (simp add: free_slot_def demo_net_def no_client_def numeral_eq_Suc)
  have "paths (demo_net 9 []) ''/var/tmp/pcd-client-9.ctl'' = None" by (simp add: demo_net_def server_path)
  then have start: "can_start ?os (client_name (demo_net 9 [])) (demo_net 9 [])" by (simp add: can_start_def slot path)
  have own: "first_slot (\<lambda>c. c_fd c \<noteq> 0 \<and> c_owner c = PCD_OWNER_ID) (clients (demo_net 9 [])) = 0"
    by (simp add: first_slot_def demo_net_def)
  have ready: "ipc_ready (demo_net p [])" for p by (rule demo_ready) simp
  then have up: "service_up 0 (5, 3) (demo_net 9 [])" using ready [of 9] by (simp add: service_up_def ipc_ready_def ipc_ok_def)
  have call: "can_call ?os 0 (5, 3) (net ?c)" using ready up start own by (simp add: can_call_def)
  let ?req = "request_msg body_layout Blank 2 (Some (m_ruleId sync_msg)) PCD_API_GET_RULE_STATE (0, [])"
  have plain: "plain_request ?req"
    by (simp add: plain_request_def request_msg_def PCD_MAX_PARAM_SIZE_def sync_msg_def)
  have disp: "api_dispatch calm_misc (?req\<lparr>m_addr := ipc_brk (d_net (demo_daemon []))\<rparr>) (d_api (demo_daemon []))
      = Inr (PCD_STATUS_OK, Some PCD_API_RULE_COMPLETED_PROCESS_RUNNING, running_state)"
    using running_rule_state [of "?req\<lparr>m_addr := ipc_brk (d_net (demo_daemon []))\<rparr>"] by (simp add: request_msg_def demo_daemon_def)
  have d: "self_ok (d_net (demo_daemon []))" "attached 0 (fst (5, 3)) (demo_daemon [])"
    using ready [of 5] by (simp_all add: demo_daemon_def attached_def ipc_ready_def ipc_ok_def)
  have rid: "valid_id (Some (m_ruleId sync_msg))" by (simp add: valid_id_def sync_msg_def)
  have args: "request_args PCD_API_GET_RULE_STATE None 0 = Some (0, [])" by (simp add: request_args_def)
  have req: "?req = request_msg body_layout Blank (free_slot (clients (net ?c))) (Some (m_ruleId sync_msg)) PCD_API_GET_RULE_STATE (0, [])"
    using slot by simp
  from client_call_returns_daemon_answer [where osw = calm_os and junk' = Blank and rounds = "[]" and wanted = True,
      OF call _ body_layout_ok rid args req plain _ _ d disp]
  show ?thesis by auto
qed

end
