(* ===== verification/PcdFind.thy ===== *)
theory PcdFind imports CStrings PcdTypes begin

text \<open>
  The search for a process by its name and the reboot request of \<open>pcd/src/pcdapi/src/pcdapi.c\<close>.  The
  files \<open>/proc/PID/stat\<close> are the parameter \<open>stat\<close>: \<open>None\<close> when the file cannot be opened, otherwise what
  \<open>read\<close> can deliver.  The local buffer keeps its characters from one file to the next; what it holds
  at first is the parameter \<open>lbuf\<close>.
\<close>

section \<open>Strings in a buffer\<close>

text \<open>\<open>strchr\<close> on a buffer, up to its NUL: the position, and undefined past the end of the buffer.\<close>

fun strchr :: "char \<Rightarrow> string \<Rightarrow> nat option run" where
  "strchr c [] = Inl OutOfBounds"
| "strchr c (x # xs) = (if x = c then Inr (Some 0) else if x = NUL then Inr None
     else bind_run (strchr c xs) (\<lambda>r. Inr (map_option Suc r)))"

text \<open>The string that starts at a position.\<close>

definition string_at :: "nat \<Rightarrow> string \<Rightarrow> string run" where
  "string_at i buf = (if NUL \<in> set (drop i buf) then Inr (takeWhile (\<lambda>c. c \<noteq> NUL) (drop i buf)) else Inl OutOfBounds)"

text \<open>\<open>strncmp( p, name, strlen( p ) ) == 0\<close>.\<close>

definition starts_as :: "string \<Rightarrow> string \<Rightarrow> bool" where
  "starts_as p name \<longleftrightarrow> take (length p) name = p"

definition LBUF_SIZE :: nat where "LBUF_SIZE = 255"

text \<open>\<open>read\<close> overwrites the front of the buffer.\<close>

definition read_into :: "string \<Rightarrow> string \<Rightarrow> string" where
  "read_into content buf = take LBUF_SIZE content @ drop (length (take LBUF_SIZE content)) buf"

section \<open>The search\<close>

text \<open>One file: whether the command name in it is a prefix of the name, and the buffer after it.\<close>

definition match_stat :: "string \<Rightarrow> string \<Rightarrow> (bool \<times> string) run" where
  "match_stat name buf =
     bind_run (strchr (CHR ''('') buf) (\<lambda>p1. bind_run (strchr (CHR '')'') buf) (\<lambda>p2.
     case (p1, p2) of
       (Some i, Some j) \<Rightarrow> let buf = buf[j := NUL] in
         bind_run (string_at (i + 1) buf) (\<lambda>p. Inr (starts_as p name, buf))
     | _ \<Rightarrow> Inr (False, buf)))"

fun find_pid :: "(int \<Rightarrow> string option) \<Rightarrow> string \<Rightarrow> int list \<Rightarrow> string \<Rightarrow> int run" where
  "find_pid stat name [] buf = Inr 0"
| "find_pid stat name (p # ps) buf = (case stat p of
      None \<Rightarrow> find_pid stat name ps buf
    | Some content \<Rightarrow> if content = [] then find_pid stat name ps buf
        else bind_run (match_stat name (read_into content buf)) (\<lambda>(found, buf).
          if found then Inr p else find_pid stat name ps buf))"

definition PCD_api_find_process_id :: "(int \<Rightarrow> string option) \<Rightarrow> int \<Rightarrow> string \<Rightarrow> string \<Rightarrow> int run" where
  "PCD_api_find_process_id stat self lbuf name = find_pid stat name [1 .. self - 1] lbuf"

text \<open>The signal that a reboot request sends; afterwards the function loops forever.\<close>

definition PCD_api_reboot :: "(int \<Rightarrow> string option) \<Rightarrow> int \<Rightarrow> string \<Rightarrow> bool \<Rightarrow> (int \<times> int) run" where
  "PCD_api_reboot stat self lbuf force =
     bind_run (if force then Inr 0 else PCD_api_find_process_id stat self lbuf ''/usr/sbin/pcd'') (\<lambda>found.
     Inr (if \<not> force \<and> found > 0 then (found, SIGTERM) else (1, SIGTERM)))"

section \<open>What is found\<close>

text \<open>A file as the kernel writes it.\<close>

definition stat_file :: "string \<Rightarrow> string \<Rightarrow> string \<Rightarrow> string" where
  "stat_file num comm rest = num @ CHR ''('' # comm @ CHR '')'' # rest"

definition plain_stat :: "string \<Rightarrow> string \<Rightarrow> bool" where
  "plain_stat num comm \<longleftrightarrow> {CHR ''('', CHR '')'', NUL} \<inter> set (num @ comm) = {} \<and> length num + length comm + 2 \<le> LBUF_SIZE"

lemma strchr_found: "c \<notin> set xs \<Longrightarrow> NUL \<notin> set xs \<Longrightarrow> strchr c (xs @ c # ys) = Inr (Some (length xs))"
  by (induction xs) auto

lemma match_plain:
  assumes "plain_stat num comm"
  shows "match_stat name (num @ CHR ''('' # comm @ CHR '')'' # ys) =
    Inr (starts_as comm name, num @ CHR ''('' # comm @ NUL # ys)"
proof -
  have p: "strchr (CHR ''('') (num @ CHR ''('' # comm @ CHR '')'' # ys) = Inr (Some (length num))"
    using assms by (intro strchr_found) (auto simp: plain_stat_def)
  have "CHR '')'' \<notin> set (num @ CHR ''('' # comm)" "NUL \<notin> set (num @ CHR ''('' # comm)"
    using assms by (auto simp: plain_stat_def NUL_def)
  from strchr_found [OF this, of ys]
  have q: "strchr (CHR '')'') (num @ CHR ''('' # comm @ CHR '')'' # ys) = Inr (Some (Suc (length num + length comm)))" by simp
  have u: "(num @ CHR ''('' # comm @ CHR '')'' # ys)[Suc (length num + length comm) := NUL] = num @ CHR ''('' # comm @ NUL # ys"
    by (simp add: list_update_append)
  have "takeWhile (\<lambda>c. c \<noteq> NUL) (comm @ NUL # ys) = comm"
    using assms by (subst takeWhile_append2) (auto simp: plain_stat_def)
  with p q u show ?thesis by (simp add: match_stat_def string_at_def Let_def)
qed

lemma read_plain:
  assumes "plain_stat num comm" and "length buf = LBUF_SIZE"
  shows "\<exists>ys. read_into (stat_file num comm rest) buf = num @ CHR ''('' # comm @ CHR '')'' # ys
    \<and> length (num @ CHR ''('' # comm @ NUL # ys) = LBUF_SIZE"
proof -
  let ?xs = "num @ CHR ''('' # comm @ [CHR '')'']"
  have l: "length ?xs \<le> LBUF_SIZE" using assms(1) by (simp add: plain_stat_def)
  have "take LBUF_SIZE (stat_file num comm rest) = ?xs @ take (LBUF_SIZE - length ?xs) rest"
    using l take_append [of LBUF_SIZE ?xs rest] by (simp add: stat_file_def)
  moreover have "length (read_into (stat_file num comm rest) buf) = LBUF_SIZE"
    using assms(2) by (simp add: read_into_def)
  ultimately show ?thesis by (auto simp: read_into_def)
qed

text \<open>The files of the processes \<open>ps\<close>, with the command names \<open>comm\<close>.\<close>

definition plain_proc :: "(int \<Rightarrow> string option) \<Rightarrow> (int \<Rightarrow> string) \<Rightarrow> int set \<Rightarrow> bool" where
  "plain_proc stat comm ps \<longleftrightarrow> (\<forall>p \<in> ps. \<forall>c. stat p = Some c \<longrightarrow> (\<exists>num rest. c = stat_file num (comm p) rest \<and> plain_stat num (comm p)))"

lemma find_pid_eq:
  assumes "plain_proc stat comm (set ps)" and "length buf = LBUF_SIZE"
  shows "find_pid stat name ps buf
    = Inr (case List.find (\<lambda>p. stat p \<noteq> None \<and> starts_as (comm p) name) ps of Some p \<Rightarrow> p | None \<Rightarrow> 0)"
  using assms
proof (induction ps arbitrary: buf)
  case (Cons p ps)
  then have ps: "plain_proc stat comm (set ps)" by (simp add: plain_proc_def)
  show ?case
  proof (cases "stat p")
    case None
    with Cons.IH [OF ps Cons.prems(2)] show ?thesis by simp
  next
    case (Some c)
    with Cons.prems(1) obtain num rest where c: "c = stat_file num (comm p) rest" and plain: "plain_stat num (comm p)"
      by (auto simp: plain_proc_def)
    from read_plain [OF plain Cons.prems(2), of rest] obtain ys where
      r: "read_into c buf = num @ CHR ''('' # comm p @ CHR '')'' # ys" and l: "length (num @ CHR ''('' # comm p @ NUL # ys) = LBUF_SIZE"
      unfolding c by blast
    have "c \<noteq> []" by (simp add: c stat_file_def)
    with Some r match_plain [OF plain, of name ys] Cons.IH [OF ps l] show ?thesis by simp
  qed
qed simp

text \<open>\<open>PCD_api_find_process_id\<close> returns the smallest pid below the caller's own whose command name is a
  prefix of the given name, and 0 when there is none: it never reads outside its buffer when every
  \<open>/proc/PID/stat\<close> file starts with a number and a command name in parentheses that fit into it.\<close>

theorem find_process_id_exact:
  assumes "plain_proc stat comm {1..self - 1}" and "length lbuf = 255"
  shows "PCD_api_find_process_id stat self lbuf name
    = Inr (case List.find (\<lambda>p. stat p \<noteq> None \<and> starts_as (comm p) name) [1 .. self - 1] of Some p \<Rightarrow> p | None \<Rightarrow> 0)"
  using find_pid_eq [of stat comm "[1 .. self - 1]" lbuf name] assms
  by (simp add: PCD_api_find_process_id_def LBUF_SIZE_def)

lemma path_not_found:
  assumes "plain_proc stat comm {1..self - 1}" and "length lbuf = 255"
    and "\<forall>p. comm p \<noteq> [] \<and> hd (comm p) \<noteq> CHR ''/''"
  shows "PCD_api_find_process_id stat self lbuf (CHR ''/'' # path) = Inr 0"
proof -
  have "\<not> starts_as (comm p) (CHR ''/'' # path)" for p
    using assms(3) by (cases "comm p") (auto simp: starts_as_def dest: spec [of _ p])
  then have "List.find (\<lambda>p. stat p \<noteq> None \<and> starts_as (comm p) (CHR ''/'' # path)) ps = None" for ps
    by (simp add: find_None_iff)
  with find_pid_eq [of stat comm "[1 .. self - 1]" lbuf "CHR ''/'' # path"] assms(1,2) show ?thesis
    by (simp add: PCD_api_find_process_id_def LBUF_SIZE_def)
qed

text \<open>a command name in \<open>/proc\<close> is the last component of the path of the program and does not start
  with a slash, so a search for a name with an absolute path finds nothing.  The daemon that is started by its path therefore does not notice a running instance, and a
  reboot request always terminates \<open>init\<close>, never the daemon, whether it is forced or not.\<close>

theorem reboot_always_signals_init:
  assumes "plain_proc stat comm {1..self - 1}" and "length lbuf = 255"
    and "\<forall>p. comm p \<noteq> [] \<and> hd (comm p) \<noteq> CHR ''/''"
  shows "PCD_api_find_process_id stat self lbuf (CHR ''/'' # path) = Inr 0 \<and> PCD_api_reboot stat self lbuf force = Inr (1, SIGTERM)"
  using path_not_found [OF assms] by (simp add: PCD_api_reboot_def)

text \<open>Three processes; the daemon is the second.\<close>

definition three_procs :: "int \<Rightarrow> string option" where
  "three_procs p = (if p = 1 then Some ''1 (init) S 0'' else if p = 2 then Some ''2 (pcd) S 1'' else None)"

definition three_names :: "int \<Rightarrow> string" where
  "three_names p = (if p = 1 then ''init'' else ''pcd'')"

lemma three_plain: "plain_proc three_procs three_names {1..q}"
proof -
  have "\<exists>num rest. ''1 (init) S 0'' = stat_file num ''init'' rest \<and> plain_stat num ''init''"
    by (intro exI [of _ "''1 ''"] exI [of _ "'' S 0''"]) (simp add: stat_file_def plain_stat_def NUL_def LBUF_SIZE_def)
  moreover have "\<exists>num rest. ''2 (pcd) S 1'' = stat_file num ''pcd'' rest \<and> plain_stat num ''pcd''"
    by (intro exI [of _ "''2 ''"] exI [of _ "'' S 1''"]) (simp add: stat_file_def plain_stat_def NUL_def LBUF_SIZE_def)
  ultimately show ?thesis by (auto simp: plain_proc_def three_procs_def three_names_def)
qed

theorem find_process_id_exact_witness:
  "PCD_api_find_process_id three_procs 4 (replicate 255 NUL) ''pcd'' = Inr 2"
proof -
  have "[1 .. 4 - 1] = [1, 2, 3 :: int]" by (simp add: upto.simps)
  then show ?thesis
    using find_process_id_exact [OF three_plain, of "replicate 255 NUL" 4 "''pcd''"]
    by (simp add: three_procs_def three_names_def starts_as_def)
qed

theorem reboot_always_signals_init_witness:
  "PCD_api_reboot three_procs 4 (replicate 255 NUL) False = Inr (1, SIGTERM)"
  using reboot_always_signals_init [OF three_plain, of "replicate 255 NUL" 4 "[]" False] by (simp add: three_names_def)

end
