(* ===== verification/PcdTimeout.thy ===== *)
theory PcdTimeout imports PcdTimes PcdOps begin

text \<open>
  Timeouts in a daemon that is busy with other rules: a pass of the timer over a queue of any length
  leaves a waiting rule alone but for its own check, until the check that finds its timeout used up
  gives the rule up.  \<open>node_frame\<close> is what the check of one rule leaves of the others, \<open>waits\<close> and
  \<open>given_up\<close> are a rule before and after the end of its timeout.
\<close>

section \<open>What the check of one rule does to the others\<close>

text \<open>
  The handling of timer \<open>u\<close> of rule \<open>b\<close> keeps the other timer objects; of the other rules and their
  processes it touches only those that do not wait, which an EXEC_RULE action may restart.
\<close>

definition executes :: "pcd \<Rightarrow> addr \<Rightarrow> addr \<Rightarrow> bool" where
  "executes st b c \<longleftrightarrow> failureAction (rules st b) = FAIL_EXEC_RULE (ruleId (rules st c))"

definition node_frame :: "addr set \<Rightarrow> addr \<Rightarrow> addr \<Rightarrow> pcd \<Rightarrow> pcd \<Rightarrow> bool" where
  "node_frame A u b st st' \<longleftrightarrow> (\<forall>v. v \<noteq> u \<longrightarrow> timerObjs st' v = timerObjs st v)
     \<and> (\<forall>c. c \<noteq> b \<longrightarrow> rules st' c = rules st c \<or> \<not> rule_active (rules st c) \<and> rules st' c = (rules st c)\<lparr>proc := None\<rparr>)
     \<and> (\<forall>p x. procs st p = Some x \<longrightarrow> p_rule x \<noteq> b \<longrightarrow> procs st' p = Some x
          \<or> (\<exists>c \<in> A. c \<noteq> b \<and> \<not> rule_active (rules st c) \<and> proc (rules st c) = Some p))
     \<and> (\<forall>c. ruleId (rules st' c) = ruleId (rules st c) \<and> failureAction (rules st' c) = failureAction (rules st c))
     \<and> set (dequeueList st) \<subseteq> set (dequeueList st') \<and> set (enqueueList st) \<subseteq> set (enqueueList st')
     \<and> (\<forall>c \<in> set (enqueueList st'). c \<in> set (enqueueList st) \<or> c = b \<or> \<not> rule_active (rules st c) \<and> executes st b c)
     \<and> timerTick st' = timerTick st \<and> timerEnabled st' = timerEnabled st"

lemma nf_refl: "node_frame A u b st st"
  by (auto simp: node_frame_def)

lemma nf_rules: "node_frame A u b st st' \<Longrightarrow> c \<noteq> b \<Longrightarrow> rule_active (rules st' c) = rule_active (rules st c)"
proof -
  assume "node_frame A u b st st'" and "c \<noteq> b"
  then have "rules st' c = rules st c \<or> rules st' c = (rules st c)\<lparr>proc := None\<rparr>" unfolding node_frame_def by blast
  then show ?thesis by (elim disjE) (simp_all add: rule_active_def)
qed

lemma nf_trans:
  assumes "node_frame A u b st st1" and "node_frame A u b st1 st2"
  shows "node_frame A u b st st2"
proof -
  have act: "rule_active (rules st1 c) = rule_active (rules st c)" if "c \<noteq> b" for c
    by (rule nf_rules [OF assms(1) that])
  have r: "rules st2 c = rules st c \<or> \<not> rule_active (rules st c) \<and> rules st2 c = (rules st c)\<lparr>proc := None\<rparr>" if c: "c \<noteq> b" for c
  proof -
    have "rules st1 c = rules st c \<or> \<not> rule_active (rules st c) \<and> rules st1 c = (rules st c)\<lparr>proc := None\<rparr>"
      "rules st2 c = rules st1 c \<or> \<not> rule_active (rules st c) \<and> rules st2 c = (rules st1 c)\<lparr>proc := None\<rparr>"
      using assms c act [OF c] unfolding node_frame_def by blast+
    then show ?thesis by (elim disjE) simp_all
  qed
  have pr: "proc (rules st c) = Some p" if "c \<noteq> b" "proc (rules st1 c) = Some p" for c p
  proof -
    have "rules st1 c = rules st c \<or> rules st1 c = (rules st c)\<lparr>proc := None\<rparr>"
      using assms(1) that(1) unfolding node_frame_def by blast
    with that(2) show ?thesis by (elim disjE) simp_all
  qed
  have p: "procs st2 p = Some x \<or> (\<exists>c \<in> A. c \<noteq> b \<and> \<not> rule_active (rules st c) \<and> proc (rules st c) = Some p)"
    if x: "procs st p = Some x" "p_rule x \<noteq> b" for p x
  proof -
    from assms(1) x consider "procs st1 p = Some x" | "\<exists>c \<in> A. c \<noteq> b \<and> \<not> rule_active (rules st c) \<and> proc (rules st c) = Some p"
      unfolding node_frame_def by blast
    then show ?thesis
    proof cases
      case 1
      with assms(2) x(2) have "procs st2 p = Some x \<or> (\<exists>c \<in> A. c \<noteq> b \<and> \<not> rule_active (rules st1 c) \<and> proc (rules st1 c) = Some p)"
        unfolding node_frame_def by blast
      then show ?thesis using act pr by blast
    qed blast
  qed
  have ex: "executes st1 b c = executes st b c" for c
    using assms(1) by (simp add: node_frame_def executes_def)
  have e: "c \<in> set (enqueueList st) \<or> c = b \<or> \<not> rule_active (rules st c) \<and> executes st b c" if "c \<in> set (enqueueList st2)" for c
    using assms that act [of c] ex [of c] unfolding node_frame_def by blast
  show ?thesis using assms r p e unfolding node_frame_def by auto
qed

lemma nf_only_rule: "only_rule s b st st' \<Longrightarrow> node_frame A u b st st'"
  using only_ruleD [of s b st st'] by (auto simp: node_frame_def only_rule_def)

lemma nf_set_state: "node_frame A u b st (set_state b s st)"
  by (rule nf_only_rule [OF only_rule_state])

lemma nf_dequeue: "node_frame A u b st (add_to_dequeue_list u st)"
  by (auto simp: node_frame_def add_to_dequeue_list_def)

lemma nf_set_timer: "node_frame A u b st (set_timer u x st)"
  by (auto simp: node_frame_def)

lemma nf_enqueue_list: "(\<And>c. n = Some c \<Longrightarrow> c = b \<or> \<not> rule_active (rules st c) \<and> executes st b c) \<Longrightarrow> node_frame A u b st (add_to_enqueue_list n st)"
  by (cases n) (auto simp: node_frame_def add_to_enqueue_list_def)

lemma nf_stop:
  assumes "pcd_ok A st" and "c \<in> A" and "c = b \<or> \<not> rule_active (rules st c)" and "PCD_process_stop (Some c) brutal ck st = Inr (s, st')"
  shows "node_frame A u b st st'"
proof (cases "proc (rules st c)")
  case None
  with assms(4) show ?thesis by (auto simp: PCD_process_stop_def nf_refl)
next
  case (Some p)
  from wf_attachedD [OF assms(1,2) Some] obtain x where x: "procs st p = Some x" "p_rule x = c" by blast
  have "st' = st \<or> (\<exists>y. st' = upd_rule c (\<lambda>r. r\<lparr>proc := None\<rparr>) (set_proc p y st))"
    using assms(4) Some x(1) by (auto simp: PCD_process_stop_def Let_def split: if_splits)
  then show ?thesis
  proof (elim disjE exE)
    fix y
    assume st': "st' = upd_rule c (\<lambda>r. r\<lparr>proc := None\<rparr>) (set_proc p y st)"
    have "procs st' q = Some z \<or> (\<exists>d \<in> A. d \<noteq> b \<and> \<not> rule_active (rules st d) \<and> proc (rules st d) = Some q)"
      if "procs st q = Some z" "p_rule z \<noteq> b" for q z
      using that x assms(2,3) Some by (cases "q = p") (auto simp: st')
    then show ?thesis using assms(3) by (auto simp: node_frame_def st')
  qed (simp add: nf_refl)
qed

lemma nf_enqueue:
  assumes "pcd_ok A st" and "PCD_process_enqueue (Some b) st = (s, st')"
  shows "node_frame A u b st st'"
proof -
  have "procs st (brk st) = None" using assms(1) by (auto simp: pcd_ok_def wf_procs_def)
  with assms(2) show ?thesis
    by (auto simp: PCD_process_enqueue_def Let_def node_frame_def NODE_ADD_def split: if_splits)
qed

lemma nf_restart:
  assumes "pcd_ok A st" and "c \<in> A" and "c = b \<or> \<not> rule_active (rules st c)" and "PCD_failure_action_RESTART (Some c) st = Inr (n, st')"
  shows "node_frame A u b st st' \<and> n = Some c"
  using assms nf_stop [OF assms(1-3), of True None]
  by (auto simp: PCD_failure_action_RESTART_def bind_run_eq_Inr nf_refl split: if_splits)

lemma nf_failure_action:
  assumes "pcd_ok A st" and "b \<in> A" and "PCD_failure_action b st = Inr (n, st')"
  shows "node_frame A u b st st' \<and> (\<forall>c. n = Some c \<longrightarrow> c = b \<or> \<not> rule_active (rules st c) \<and> executes st b c)"
proof (cases "failureAction (rules st b)")
  case (FAIL_EXEC_RULE rid)
  note look = wf_lookup [OF assms(1), of rid]
  show ?thesis
  proof (cases "db_map st rid")
    case None
    with FAIL_EXEC_RULE look(1) assms(3) show ?thesis
      by (simp add: PCD_failure_action_def PCD_failure_action_EXEC_RULE_def nf_refl)
  next
    case (Some c)
    note c = look(2) [OF Some]
    have id: "ruleId (rules st c) = rid" using Some db_map_Some assms(1) by (auto simp: pcd_ok_def wf_db_def)
    show ?thesis
    proof (cases "rule_active (rules st c)")
      case True
      with FAIL_EXEC_RULE look(1) Some assms(3) show ?thesis
        by (simp add: PCD_failure_action_def PCD_failure_action_EXEC_RULE_def nf_refl)
    next
      case False
      with FAIL_EXEC_RULE look(1) Some assms(3) have "PCD_failure_action_RESTART (Some c) st = Inr (n, st')"
        by (simp add: PCD_failure_action_def PCD_failure_action_EXEC_RULE_def)
      with nf_restart [OF assms(1) c _ this, of b u] False id FAIL_EXEC_RULE show ?thesis by (auto simp: executes_def)
    qed
  qed
next
  case FAIL_RESTART
  with nf_restart [OF assms(1,2), of b n st' u] assms(3) show ?thesis by (simp add: PCD_failure_action_def)
qed (use assms in \<open>simp_all add: PCD_failure_action_def nf_refl\<close>)

lemma nf_fail_timer:
  assumes "pcd_ok A (add_to_dequeue_list u (set_state b s st))" and "b \<in> A" and "fail_timer u b s st = Inr st'"
    and "s \<in> {PCD_RULE_FAILED, PCD_RULE_NOT_COMPLETED}"
  shows "node_frame A u b st st'"
proof -
  let ?s = "add_to_dequeue_list u (set_state b s st)"
  from assms(3) obtain n st1 where fa: "PCD_failure_action b ?s = Inr (n, st1)" and st': "st' = add_to_enqueue_list n st1"
    by (auto simp: fail_timer_def bind_run_eq_Inr)
  from nf_failure_action [OF assms(1,2) fa, of u] have f: "node_frame A u b ?s st1"
    "\<And>c. n = Some c \<Longrightarrow> c = b \<or> \<not> rule_active (rules ?s c) \<and> executes ?s b c" by simp_all
  have "executes st1 b c = executes ?s b c" for c using f(1) by (simp add: node_frame_def executes_def)
  then have "node_frame A u b st1 st'" unfolding st'
    by (intro nf_enqueue_list) (use f nf_rules [OF f(1)] in blast)
  then show ?thesis using nf_trans [OF nf_trans [OF nf_trans [OF nf_set_state nf_dequeue] f(1)]] by blast
qed

lemma failed_wf:
  assumes "pcd_ok A st" and "timerObjs st u = Some x" and "t_rule x \<in> A" and "u \<notin> set (dequeueList st)"
    and "s \<in> {PCD_RULE_FAILED, PCD_RULE_NOT_COMPLETED}"
  shows "pcd_ok A (add_to_dequeue_list u (set_state (t_rule x) s st))"
proof -
  have s1: "pcd_ok A (set_state (t_rule x) s st)" by (rule wf_set_state [OF assms(1,3)]) (use assms(5) in auto)
  show ?thesis
    by (rule wf_pending(1) [OF s1, of u x]) (use assms(2,4,5) in \<open>auto simp: set_state_def rule_active_def\<close>)
qed

lemma nf_handle_start:
  assumes "pcd_ok A st" and "timerObjs st u = Some x" and "t_rule x \<in> A" and "u \<notin> set (dequeueList st)"
    and "PCD_timer_handle_start_condition os u st = Inr (f, st')"
  shows "node_frame A u (t_rule x) st st'"
proof -
  let ?b = "t_rule x"
  from start_cond_check_ok [OF assms(1,3)] obtain s st1 where
    chk: "PCD_start_cond_check os ?b st = Inr (s, st1)" and st1: "pcd_ok A st1" "only_rule (s = PCD_STATUS_OK) ?b st st1" by blast
  note f1 = nf_only_rule [OF st1(2), of A u]
  have x1: "timerObjs st1 u = Some x" "u \<notin> set (dequeueList st1)" using assms(2,4) only_ruleD [OF st1(2)] by simp_all
  note failed = failed_wf [OF st1(1) x1(1) assms(3) x1(2), of PCD_RULE_FAILED]
  show ?thesis
  proof (cases "s = PCD_STATUS_OK")
    case False
    with assms(2,5) chk f1 show ?thesis by (simp add: PCD_timer_handle_start_condition_def)
  next
    case True
    from wf_rule [OF st1(1) assms(3)] obtain cmd where cmd: "command (rules st1 ?b) = Some cmd" by (auto simp: rule_ok_def)
    obtain r st2 where enq: "PCD_process_enqueue (Some ?b) st1 = (r, st2)" by force
    note f2 = nf_enqueue [OF st1(1) enq, of u]
    have same: "st2 = st1" if "r \<noteq> PCD_STATUS_OK" using enq that by (auto simp: PCD_process_enqueue_def Let_def split: if_splits)
    have stop: "node_frame A u ?b st1 st3" if "PCD_process_stop (Some ?b) True None st1 = Inr (q, st3)" for q st3
      by (rule nf_stop [OF st1(1) assms(3) _ that]) simp
    have fail: "node_frame A u ?b st1 st3" if "fail_timer u ?b PCD_RULE_FAILED st1 = Inr st3" for st3
      by (rule nf_fail_timer [OF failed assms(3) that]) simp_all
    have "node_frame A u ?b st1 st'"
      using assms(2,5) chk True cmd enq same stop fail nf_set_state [of A u ?b st1] nf_trans [OF f2 nf_set_state]
      by (auto simp: PCD_timer_handle_start_condition_def bind_run_eq_Inr Let_def split: if_splits)
    with f1 show ?thesis by (rule nf_trans)
  qed
qed

lemma nf_handle_end:
  assumes "pcd_ok A st" and "timerObjs st u = Some x" and "t_rule x \<in> A" and "u \<notin> set (dequeueList st)"
    and "PCD_timer_handle_end_condition os u st = Inr (f, st')"
  shows "node_frame A u (t_rule x) st st'"
proof -
  let ?b = "t_rule x"
  from end_cond_check_ok [OF assms(1,3)] obtain s st1 where
    chk: "PCD_end_cond_check os ?b st = Inr (s, st1)" and st1: "pcd_ok A st1" "only_rule True ?b st st1" by blast
  note f1 = nf_only_rule [OF st1(2), of A u]
  have x1: "timerObjs st1 u = Some x" "u \<notin> set (dequeueList st1)" using assms(2,4) only_ruleD [OF st1(2)] by simp_all
  from maybe_stop_ok [OF st1(1) assms(3), of True None] obtain r st2 where
    stop: "(if proc (rules st1 ?b) \<noteq> None then PCD_process_stop (Some ?b) True None st1 else Inr (PCD_STATUS_OK, st1)) = Inr (r, st2)"
    and st2: "pcd_ok A st2" "quiet st1 st2" by blast
  have f2: "node_frame A u ?b st1 st2"
    using stop nf_stop [OF st1(1) assms(3), of ?b True None r st2 u] by (auto simp: nf_refl split: if_splits)
  have x2: "timerObjs st2 u = Some x" "u \<notin> set (dequeueList st2)" using x1 quietD [OF st2(2)] by simp_all
  note failed = failed_wf [OF st2(1) x2(1) assms(3) x2(2), of PCD_RULE_NOT_COMPLETED]
  have fail: "node_frame A u ?b st2 st3" if "fail_timer u ?b PCD_RULE_NOT_COMPLETED st2 = Inr st3" for st3
    by (rule nf_fail_timer [OF failed assms(3) that]) simp_all
  have "node_frame A u ?b st1 st'"
    using assms(2,5) chk stop nf_trans [OF f2 fail] nf_trans [OF nf_set_state nf_dequeue] nf_refl [of A u ?b st1] nf_set_timer [of A u ?b st1]
    by (auto simp: PCD_timer_handle_end_condition_def bind_run_eq_Inr Let_def simp del: not_None_eq split: if_splits)
  with f1 show ?thesis by (rule nf_trans)
qed

lemma nf_timer_node:
  assumes "pcd_ok A st" and "u \<in> set (timerQueue st)" and "u \<notin> set (dequeueList st)" and "rule_of st u = Some b"
    and "timer_node os u st = Inr (f, st')"
  shows "node_frame A u b st st'"
proof -
  from wf_timerD [OF assms(1,2)] obtain x where x: "timerObjs st u = Some x" "t_rule x \<in> A" by blast
  with assms(4) have b: "b = t_rule x" by (simp add: rule_of_def)
  show ?thesis
    using assms(5) x nf_handle_start [OF assms(1) x assms(3)] nf_handle_end [OF assms(1) x assms(3)] nf_dequeue [of A u b st]
    unfolding b by (cases "ruleState (rules st (t_rule x))") (simp_all add: timer_node_def)
qed

section \<open>When the daemon exits\<close>

text \<open>A pass ends the daemon only by the REBOOT action of a rule.\<close>

definition may_exit :: "bool \<Rightarrow> ('a \<Rightarrow> bool) \<Rightarrow> 'a run \<Rightarrow> bool" where
  "may_exit R P r \<longleftrightarrow> R \<and> r = Inl (Exited 1) \<or> (\<exists>x. r = Inr x \<and> P x)"

definition reboots :: "addr set \<Rightarrow> pcd \<Rightarrow> bool" where
  "reboots A st \<longleftrightarrow> (\<exists>b \<in> A. failureAction (rules st b) = FAIL_REBOOT)"

lemma may_exit_Inr [simp]: "may_exit R P (Inr x) \<longleftrightarrow> P x"
  by (simp add: may_exit_def)

lemma may_exit_bind: "may_exit R Q r \<Longrightarrow> (\<And>x. Q x \<Longrightarrow> may_exit R P (f x)) \<Longrightarrow> may_exit R P (bind_run r f)"
  by (elim may_exit_def [THEN iffD1, elim_format] disjE exE conjE) (simp add: may_exit_def, simp)

lemma may_exit_mono: "may_exit R Q r \<Longrightarrow> (\<And>x. Q x \<Longrightarrow> P x) \<Longrightarrow> may_exit R P r"
  by (auto simp: may_exit_def)

lemma failure_action_exit:
  assumes "pcd_ok A st" and "b \<in> A" and "PCD_failure_action b st = Inl h"
  shows "failureAction (rules st b) = FAIL_REBOOT"
proof (cases "failureAction (rules st b)")
  case (FAIL_EXEC_RULE rid)
  note look = wf_lookup [OF assms(1), of rid]
  show ?thesis
  proof (cases "db_map st rid")
    case (Some c)
    with FAIL_EXEC_RULE look(1) failure_RESTART_ok [OF assms(1) look(2) [OF Some]] assms(3) show ?thesis
      by (auto simp: PCD_failure_action_def PCD_failure_action_EXEC_RULE_def split: if_splits)
  qed (use FAIL_EXEC_RULE look(1) assms(3) in \<open>simp add: PCD_failure_action_def PCD_failure_action_EXEC_RULE_def\<close>)
qed (use failure_RESTART_ok [OF assms(1,2)] assms(3) in \<open>auto simp: PCD_failure_action_def\<close>)

lemma handle_start_returns:
  assumes "pcd_ok A st" and "timerObjs st u = Some x" and "t_rule x \<in> A"
  shows "PCD_timer_handle_start_condition os u st \<noteq> Inl h"
proof -
  from start_cond_check_ok [OF assms(1,3)] obtain s st1 where
    chk: "PCD_start_cond_check os (t_rule x) st = Inr (s, st1)" "pcd_ok A st1" by blast
  from wf_rule [OF chk(2) assms(3)] obtain cmd where cmd: "command (rules st1 (t_rule x)) = Some cmd" by (auto simp: rule_ok_def)
  obtain r st2 where enq: "PCD_process_enqueue (Some (t_rule x)) st1 = (r, st2)" by force
  then have r: "r = PCD_STATUS_OK \<or> r = PCD_STATUS_INVALID_RULE \<and> st2 = st1"
    by (auto simp: PCD_process_enqueue_def Let_def split: if_splits)
  from process_stop_ok [OF chk(2) assms(3), of True None] obtain q st3 where
    "PCD_process_stop (Some (t_rule x)) True None st1 = Inr (q, st3)" by blast
  with assms(2) chk(1) cmd enq r show ?thesis by (auto simp: PCD_timer_handle_start_condition_def Let_def split: if_splits)
qed

lemma handle_end_exit:
  assumes "pcd_ok A st" and "timerObjs st u = Some x" and "t_rule x \<in> A" and "u \<notin> set (dequeueList st)"
    and "PCD_timer_handle_end_condition os u st = Inl h"
  shows "failureAction (rules st (t_rule x)) = FAIL_REBOOT"
proof -
  let ?b = "t_rule x"
  from end_cond_check_ok [OF assms(1,3)] obtain s st1 where
    chk: "PCD_end_cond_check os ?b st = Inr (s, st1)" and st1: "pcd_ok A st1" "only_rule True ?b st st1" by blast
  from maybe_stop_ok [OF st1(1) assms(3), of True None] obtain r st2 where
    stop: "(if proc (rules st1 ?b) \<noteq> None then PCD_process_stop (Some ?b) True None st1 else Inr (PCD_STATUS_OK, st1)) = Inr (r, st2)"
    and st2: "pcd_ok A st2" "quiet st1 st2" by blast
  have x2: "timerObjs st2 u = Some x" "u \<notin> set (dequeueList st2)"
    using assms(2,4) only_ruleD [OF st1(2)] quietD [OF st2(2)] by simp_all
  have act: "failureAction (rules st2 ?b) = failureAction (rules st ?b)"
  proof -
    have "rules st2 ?b = rules st1 ?b \<or> rules st2 ?b = (rules st1 ?b)\<lparr>proc := None\<rparr>" using st2(2) by (simp add: quiet_def)
    then show ?thesis using st1(2) by (auto simp: only_rule_def)
  qed
  let ?s3 = "add_to_dequeue_list u (set_state ?b PCD_RULE_NOT_COMPLETED st2)"
  have "PCD_failure_action ?b ?s3 = Inl h"
    using assms(2,5) chk stop
    by (auto simp: PCD_timer_handle_end_condition_def fail_timer_def Let_def bind_run_eq_Inl simp del: not_None_eq split: if_splits)
  from failure_action_exit [OF failed_wf [OF st2(1) x2(1) assms(3) x2(2)] assms(3) this] act
  show ?thesis by (simp add: add_to_dequeue_list_def set_state_def)
qed

lemma timer_node_result:
  assumes "pcd_ok A st" and "u \<in> set (timerQueue st)" and "u \<notin> set (dequeueList st)" and "rule_of st u = Some b"
  shows "may_exit (reboots A st) (\<lambda>(f, st'). pcd_ok A st' \<and> walked u st st' \<and> node_frame A u b st st') (timer_node os u st)"
proof (cases "timer_node os u st")
  case (Inr r)
  then obtain f st' where r: "timer_node os u st = Inr (f, st')" by (cases r) auto
  with timer_node_ok [OF assms(1-3), of os] nf_timer_node [OF assms r] show ?thesis by simp
next
  case (Inl h)
  from wf_timerD [OF assms(1,2)] obtain x where x: "timerObjs st u = Some x" "t_rule x \<in> A" by blast
  have "failureAction (rules st (t_rule x)) = FAIL_REBOOT"
    using Inl x handle_start_returns [OF assms(1) x] handle_end_exit [OF assms(1) x assms(3)]
    by (cases "ruleState (rules st (t_rule x))") (simp_all add: timer_node_def)
  with x(2) have "reboots A st" by (auto simp: reboots_def)
  with timer_node_ok [OF assms(1-3), of os] Inl show ?thesis by (simp add: safe_def may_exit_def)
qed

lemma nf_reboots: "node_frame A u b st st' \<Longrightarrow> reboots A st' = reboots A st"
  by (simp add: node_frame_def reboots_def)

section \<open>A pass\<close>

text \<open>What the handling of the other timers keeps, the whole walk keeps.\<close>

lemma timer_walk_keeps:
  assumes "\<And>u b st st'. u \<in> set us \<Longrightarrow> pcd_ok A st \<Longrightarrow> rule_of st u = Some b \<Longrightarrow> node_frame A u b st st' \<Longrightarrow> walked u st st'
      \<Longrightarrow> P st \<Longrightarrow> P st'"
    and "pcd_ok A st" and "P st" and "set us \<subseteq> set (timerQueue st)" and "distinct us" and "set us \<inter> set (dequeueList st) = {}"
  shows "may_exit (reboots A st) (\<lambda>(f, st'). pcd_ok A st' \<and> P st' \<and> reboots A st' = reboots A st \<and> timerQueue st' = timerQueue st
    \<and> set (dequeueList st') \<subseteq> set us \<union> set (dequeueList st) \<and> (flag \<longrightarrow> f)) (timer_walk env us flag st)"
  using assms
proof (induction us arbitrary: st flag)
  case (Cons u us)
  from wf_timerD [OF Cons.prems(2), of u] Cons.prems(4) obtain x where "timerObjs st u = Some x" by auto
  then have u: "rule_of st u = Some (t_rule x)" by (rule rule_of_Some)
  have "u \<in> set (timerQueue st)" "u \<notin> set (dequeueList st)" using Cons.prems(4,6) by auto
  from timer_node_result [OF Cons.prems(2) this u, of "env u"] show ?case unfolding timer_walk.simps
  proof (rule may_exit_bind, clarify)
    fix f st'
    assume st': "pcd_ok A st'" "walked u st st'" "node_frame A u (t_rule x) st st'"
    have P': "P st'" by (rule Cons.prems(1) [OF _ Cons.prems(2) u st'(3,2) Cons.prems(3)]) simp
    have "may_exit (reboots A st') (\<lambda>(f', st''). pcd_ok A st'' \<and> P st'' \<and> reboots A st'' = reboots A st' \<and> timerQueue st'' = timerQueue st'
      \<and> set (dequeueList st'') \<subseteq> set us \<union> set (dequeueList st') \<and> (flag \<or> f \<longrightarrow> f')) (timer_walk env us (flag \<or> f) st')"
    proof (rule Cons.IH [OF _ st'(1) P'])
      fix v b s s'
      assume "v \<in> set us" "pcd_ok A s" "rule_of s v = Some b" "node_frame A v b s s'" "walked v s s'" "P s"
      then show "P s'" by (intro Cons.prems(1) [of v s b s']) simp_all
    qed (use Cons.prems(4-6) st'(2) in \<open>auto simp: walked_def\<close>)
    then show "may_exit (reboots A st) (\<lambda>(f, st'). pcd_ok A st' \<and> P st' \<and> reboots A st' = reboots A st \<and> timerQueue st' = timerQueue st
      \<and> set (dequeueList st') \<subseteq> set (u # us) \<union> set (dequeueList st) \<and> (flag \<longrightarrow> f)) (timer_walk env us (flag \<or> f) st')"
      unfolding nf_reboots [OF st'(3)] by (rule may_exit_mono) (use st'(2) in \<open>auto simp: walked_def\<close>)
  qed
qed simp

lemma timer_walk_append: "timer_walk env (us @ vs) flag st = bind_run (timer_walk env us flag st) (\<lambda>(f, st). timer_walk env vs f st)"
proof (induction us arbitrary: flag st)
  case (Cons u us)
  then show ?case by (cases "timer_node (env u) u st") auto
qed simp

text \<open>The end of a pass: objects that were marked go, rules that were marked get new ones.\<close>

lemma dequeue_all_effect:
  "dequeue_all ts st = Inr st' \<Longrightarrow> rules st' = rules st \<and> procs st' = procs st \<and> enqueueList st' = enqueueList st \<and> brk st' = brk st
    \<and> timerTick st' = timerTick st \<and> timerEnabled st' = timerEnabled st
    \<and> timerObjs st' = (\<lambda>v. if v \<in> set ts then None else timerObjs st v)"
proof (induction ts arbitrary: st)
  case (Cons t ts)
  then obtain st1 where st1: "PCD_timer_dequeue t st = Inr st1" "dequeue_all ts st1 = Inr st'" by (auto simp: bind_run_eq_Inr)
  from st1(1) have "st1 = st\<lparr>timerQueue := remove1 t (timerQueue st), timerObjs := (timerObjs st)(t := None)\<rparr>"
    by (auto simp: PCD_timer_dequeue_def bind_run_eq_Inr)
  with Cons.IH [OF st1(2)] show ?case by (auto simp: fun_eq_iff)
qed simp

lemma arm_rule_objs: "brk (arm_rule a st) = Suc (brk st)"
  "timerObjs (arm_rule a st) = (timerObjs st)(brk st \<mapsto> \<lparr>t_rule = a, t_timeout = timeout (rules st a)\<rparr>)"
  by (simp_all add: arm_rule_def PCD_timer_new_def PCD_timer_enqueue_def set_state_def upd_rule_def set_timer_def Let_def)

lemma enqueue_all_effect:
  "procs (enqueue_all as st) = procs st \<and> timerTick (enqueue_all as st) = timerTick st \<and> timerEnabled (enqueue_all as st) = timerEnabled st
    \<and> brk st \<le> brk (enqueue_all as st)
    \<and> (\<forall>c. proc (rules (enqueue_all as st) c) = proc (rules st c) \<and> ruleId (rules (enqueue_all as st) c) = ruleId (rules st c)
        \<and> failureAction (rules (enqueue_all as st) c) = failureAction (rules st c))
    \<and> (\<forall>c. c \<notin> set as \<longrightarrow> rules (enqueue_all as st) c = rules st c)
    \<and> (\<forall>c \<in> set as. ruleState (rules (enqueue_all as st) c) = PCD_RULE_START_CONDITION_WAITING
        \<and> (\<exists>u \<ge> brk st. rule_of (enqueue_all as st) u = Some c))
    \<and> (\<forall>v < brk st. timerObjs (enqueue_all as st) v = timerObjs st v)
    \<and> (\<forall>v x. timerObjs (enqueue_all as st) v = Some x \<longrightarrow> timerObjs st v = Some x \<or> t_rule x \<in> set as)"
proof (induction as arbitrary: st)
  case (Cons a as)
  let ?s = "arm_rule a st"
  note IH = Cons.IH [of ?s, unfolded arm_rule_simps arm_rule_objs]
  have new: "rule_of (enqueue_all as ?s) (brk st) = Some a" using IH by (simp add: rule_of_def)
  have "ruleState (rules (enqueue_all as ?s) a) = PCD_RULE_START_CONDITION_WAITING" using IH by (cases "a \<in> set as") simp_all
  moreover have "timerObjs st v = Some x \<or> t_rule x \<in> set (a # as)" if "timerObjs (enqueue_all as ?s) v = Some x" for v x
  proof -
    have "\<forall>v x. timerObjs (enqueue_all as ?s) v = Some x
        \<longrightarrow> ((timerObjs st)(brk st \<mapsto> \<lparr>t_rule = a, t_timeout = timeout (rules st a)\<rparr>)) v = Some x \<or> t_rule x \<in> set as"
      using IH by (elim conjE) assumption
    with that show ?thesis by (cases "v = brk st") (fastforce, fastforce)
  qed
  moreover have "\<exists>u \<ge> brk st. rule_of (enqueue_all as ?s) u = Some c" if "c \<in> set (a # as)" for c
  proof (cases "c = a")
    case False
    with that IH obtain u where "Suc (brk st) \<le> u" "rule_of (enqueue_all as ?s) u = Some c" by auto
    then show ?thesis by (intro exI [of _ u]) simp
  qed (use new in blast)
  ultimately show ?case using IH unfolding enqueue_all_arm by auto
qed simp

lemma end_of_pass:
  assumes "pcd_ok A st" and "PCD_timer_dequeue_handle st = Inr st1" and "st' = PCD_timer_enqueue_handle st1"
  shows "procs st' = procs st" "timerTick st' = timerTick st" "timerEnabled st' = timerEnabled st"
    "proc (rules st' c) = proc (rules st c)" "ruleId (rules st' c) = ruleId (rules st c)"
    "failureAction (rules st' c) = failureAction (rules st c)" "enqueueList st' = []"
    "c \<notin> set (enqueueList st) \<Longrightarrow> rules st' c = rules st c"
    "c \<in> set (enqueueList st) \<Longrightarrow> ruleState (rules st' c) = PCD_RULE_START_CONDITION_WAITING \<and> (\<exists>u. rule_of st' u = Some c)"
    "v < brk st \<Longrightarrow> timerObjs st' v = (if v \<in> set (dequeueList st) then None else timerObjs st v)"
    "timerObjs st' v = Some x \<Longrightarrow> timerObjs st v = Some x \<or> t_rule x \<in> set (enqueueList st)"
proof -
  from assms(2) obtain s where s: "dequeue_all (dequeueList st) st = Inr s" and st1: "st1 = s\<lparr>dequeueList := []\<rparr>"
    by (auto simp: PCD_timer_dequeue_handle_def bind_run_eq_Inr)
  note d = dequeue_all_effect [OF s]
  note e = enqueue_all_effect [of "enqueueList st1" st1]
  have l: "enqueueList st1 = enqueueList st" using d st1 by simp
  have st': "st' = (enqueue_all (enqueueList st1) st1)\<lparr>enqueueList := []\<rparr>" by (simp add: assms(3) PCD_timer_enqueue_handle_def)
  have same: "procs st1 = procs st" "rules st1 = rules st" "timerTick st1 = timerTick st" "timerEnabled st1 = timerEnabled st" "brk st1 = brk st"
    "timerObjs st1 = (\<lambda>v. if v \<in> set (dequeueList st) then None else timerObjs st v)" using d st1 by simp_all
  have ro: "rule_of st' = rule_of (enqueue_all (enqueueList st1) st1)" by (simp add: st' rule_of_def fun_eq_iff)
  note e' = e [unfolded l same]
  show "procs st' = procs st" "timerTick st' = timerTick st" "timerEnabled st' = timerEnabled st"
    "proc (rules st' c) = proc (rules st c)" "ruleId (rules st' c) = ruleId (rules st c)"
    "failureAction (rules st' c) = failureAction (rules st c)" "enqueueList st' = []" using e' unfolding st' l by simp_all
  show "c \<notin> set (enqueueList st) \<Longrightarrow> rules st' c = rules st c" using e' unfolding st' l by simp
  show "c \<in> set (enqueueList st) \<Longrightarrow> ruleState (rules st' c) = PCD_RULE_START_CONDITION_WAITING \<and> (\<exists>u. rule_of st' u = Some c)"
    using e' unfolding ro unfolding st' l by auto
  show "v < brk st \<Longrightarrow> timerObjs st' v = (if v \<in> set (dequeueList st) then None else timerObjs st v)"
    using e' unfolding st' l by simp
  show "timerObjs st' v = Some x \<Longrightarrow> timerObjs st v = Some x \<or> t_rule x \<in> set (enqueueList st)"
    using e' unfolding st' l by (auto split: if_splits)
qed

text \<open>
  A pass that handles timer \<open>t\<close>: the others keep what the handling of \<open>t\<close> needs, and what it leaves.
\<close>

definition others_keep :: "addr set \<Rightarrow> addr \<Rightarrow> (pcd \<Rightarrow> bool) \<Rightarrow> bool" where
  "others_keep A t P \<longleftrightarrow> (\<forall>u b s s'. u \<noteq> t \<longrightarrow> pcd_ok A s \<longrightarrow> rule_of s u = Some b \<longrightarrow> node_frame A u b s s' \<longrightarrow> walked u s s'
     \<longrightarrow> P s \<longrightarrow> P s')"

lemma one_pass:
  assumes "pcd_ok A st" and "settled st" and "timerEnabled st" and "t \<in> set (timerQueue st)" and "P st"
    and P: "others_keep A t P" and Q: "others_keep A t Q"
    and node: "\<And>s f s'. pcd_ok A s \<Longrightarrow> t \<in> set (timerQueue s) \<Longrightarrow> t \<notin> set (dequeueList s) \<Longrightarrow> P s
      \<Longrightarrow> timer_node (env t) t s = Inr (f, s') \<Longrightarrow> Q s' \<and> (flag \<longrightarrow> f)"
    and fin: "\<And>s s1. pcd_ok A s \<Longrightarrow> t \<in> set (timerQueue s) \<Longrightarrow> Q s \<Longrightarrow> PCD_timer_dequeue_handle s = Inr s1
      \<Longrightarrow> R (PCD_timer_enqueue_handle s1)"
  shows "may_exit (reboots A st) (\<lambda>(f, st'). pcd_ok A st' \<and> settled st' \<and> R st' \<and> (flag \<longrightarrow> f)) (PCD_timer_iterate env st)"
proof -
  from assms(4) obtain us vs where q: "timerQueue st = us @ t # vs" by (auto simp: in_set_conv_decomp)
  have dist: "distinct (us @ t # vs)" using assms(1) by (simp add: pcd_ok_def wf_timers_def q [symmetric])
  have d0: "dequeueList st = []" using assms(2) by (simp add: settled_def)
  have keepP: "P s'" if "u \<in> set us" "pcd_ok A s" "rule_of s u = Some b" "node_frame A u b s s'" "walked u s s'" "P s" for u b s s'
    using P that dist unfolding others_keep_def by auto
  have keepQ: "Q s'" if "u \<in> set vs" "pcd_ok A s" "rule_of s u = Some b" "node_frame A u b s s'" "walked u s s'" "Q s" for u b s s'
    using Q that dist unfolding others_keep_def by auto
  let ?fin = "\<lambda>(f, st). bind_run (PCD_timer_dequeue_handle st) (\<lambda>st. Inr (f, PCD_timer_enqueue_handle st))"
  have "may_exit (reboots A st) (\<lambda>(f, s). pcd_ok A s \<and> P s \<and> reboots A s = reboots A st \<and> timerQueue s = timerQueue st
      \<and> set (dequeueList s) \<subseteq> set us \<union> set (dequeueList st) \<and> (False \<longrightarrow> f)) (timer_walk env us False st)"
    by (rule timer_walk_keeps [where P = P, OF keepP assms(1,5)]) (use q d0 dist in auto)
  then have "may_exit (reboots A st) (\<lambda>(f, st'). pcd_ok A st' \<and> Q st' \<and> (flag \<longrightarrow> f) \<and> timerQueue st' = timerQueue st) (timer_walk env (timerQueue st) False st)"
    unfolding q timer_walk_append
  proof (rule may_exit_bind, clarify)
    fix f s
    assume s: "pcd_ok A s" "P s" "reboots A s = reboots A st" "timerQueue s = us @ t # vs" "set (dequeueList s) \<subseteq> set us \<union> set (dequeueList st)"
    then have t: "t \<in> set (timerQueue s)" "t \<notin> set (dequeueList s)" using q d0 dist by auto
    from wf_timerD [OF s(1) t(1)] obtain x where "timerObjs s t = Some x" by blast
    then have x: "rule_of s t = Some (t_rule x)" by (rule rule_of_Some)
    have "may_exit (reboots A s) (\<lambda>(f, s'). pcd_ok A s' \<and> walked t s s' \<and> reboots A s' = reboots A s \<and> Q s' \<and> (flag \<longrightarrow> f)) (timer_node (env t) t s)"
      using timer_node_result [OF s(1) t x, of "env t"] node [OF s(1) t s(2)] nf_reboots by (auto simp: may_exit_def)
    then show "may_exit (reboots A st) (\<lambda>(f, st'). pcd_ok A st' \<and> Q st' \<and> (flag \<longrightarrow> f) \<and> timerQueue st' = us @ t # vs) (timer_walk env (t # vs) f s)"
      unfolding timer_walk.simps s(3)
    proof (rule may_exit_bind, clarify)
      fix g s'
      assume s': "pcd_ok A s'" "walked t s s'" "reboots A s' = reboots A st" "Q s'" "flag \<longrightarrow> g"
      have "may_exit (reboots A s') (\<lambda>(h, st'). pcd_ok A st' \<and> Q st' \<and> reboots A st' = reboots A s' \<and> timerQueue st' = timerQueue s'
        \<and> set (dequeueList st') \<subseteq> set vs \<union> set (dequeueList s') \<and> (f \<or> g \<longrightarrow> h)) (timer_walk env vs (f \<or> g) s')"
      proof (rule timer_walk_keeps [where P = Q, OF keepQ s'(1,4)])
        show "set vs \<subseteq> set (timerQueue s')" "distinct vs" using s'(2) s(4) q dist by (auto simp: walked_def)
        show "set vs \<inter> set (dequeueList s') = {}" using s'(2) s(5) d0 dist by (auto simp: walked_def)
      qed
      then show "may_exit (reboots A st) (\<lambda>(f, st'). pcd_ok A st' \<and> Q st' \<and> (flag \<longrightarrow> f) \<and> timerQueue st' = us @ t # vs) (timer_walk env vs (f \<or> g) s')"
        unfolding s'(3) by (rule may_exit_mono) (use s'(2,5) s(4) q in \<open>auto simp: walked_def\<close>)
    qed
  qed
  then have "may_exit (reboots A st) (\<lambda>(f, st'). R st' \<and> (flag \<longrightarrow> f)) (bind_run (timer_walk env (timerQueue st) False st) ?fin)"
  proof (rule may_exit_bind, clarify)
    fix f s
    assume s: "pcd_ok A s" "Q s" "flag \<longrightarrow> f" "timerQueue s = timerQueue st"
    from dequeue_all_ok [OF s(1)] obtain s1 where "PCD_timer_dequeue_handle s = Inr s1" by (auto simp: PCD_timer_dequeue_handle_def)
    with fin [OF s(1) _ s(2) this] s(3,4) assms(4)
    show "may_exit (reboots A st) (\<lambda>(f, st'). R st' \<and> (flag \<longrightarrow> f)) (bind_run (PCD_timer_dequeue_handle s) (\<lambda>st. Inr (f, PCD_timer_enqueue_handle st)))"
      by simp
  qed
  moreover have "PCD_timer_iterate env st = bind_run (timer_walk env (timerQueue st) False st) ?fin"
    using assms(3) q by (simp add: PCD_timer_iterate_def)
  ultimately show ?thesis using timer_iterate_ok [OF assms(1,2), of env]
    by (auto simp: may_exit_def safe_def)
qed

section \<open>A rule that waits\<close>

text \<open>What the end condition asks for is not there.  A WAIT condition is met by waiting, so it is not meant.\<close>

definition end_unmet :: "pcd_os \<Rightarrow> addr \<Rightarrow> pcd \<Rightarrow> bool" where
  "end_unmet os a st = (case endCondition (rules st a) of
      END_FILE f \<Rightarrow> \<not> stat_ok os f
    | END_NETDEVICE d \<Rightarrow> \<not> netdev_ok os d
    | END_IPC_OWNER w \<Rightarrow> ipc_owner os w \<noteq> PCD_STATUS_OK
    | END_PROCESS_READY ready \<Rightarrow> \<not> ready
    | END_EXIT c \<Rightarrow> (case proc (rules st a) of
        None \<Rightarrow> True
      | Some p \<Rightarrow> (case procs st p of
          None \<Rightarrow> True
        | Some x \<Rightarrow> retstat x \<noteq> PCD_PROCESS_RETEXITED \<or> word_of_int (retcode x) \<noteq> c))
    | _ \<Rightarrow> False)"

text \<open>
  In \<open>st'\<close> the rule \<open>a\<close> still waits with its timer \<open>t\<close>, which has \<open>w\<close> left; it and its process are as
  they were in \<open>st\<close>.
\<close>

definition waits :: "addr \<Rightarrow> addr \<Rightarrow> u32 \<Rightarrow> pcd \<Rightarrow> pcd \<Rightarrow> bool" where
  "waits a t w st st' \<longleftrightarrow> timerObjs st' t = Some \<lparr>t_rule = a, t_timeout = w\<rparr> \<and> (\<forall>u. rule_of st' u = Some a \<longrightarrow> u = t)
     \<and> rules st' a = rules st a
     \<and> (\<forall>p x. proc (rules st a) = Some p \<longrightarrow> procs st p = Some x \<longrightarrow> procs st' p = Some x)
     \<and> a \<notin> set (enqueueList st') \<and> timerTick st' = timerTick st \<and> timerEnabled st' = timerEnabled st
     \<and> (\<forall>c. ruleId (rules st' c) = ruleId (rules st c) \<and> failureAction (rules st' c) = failureAction (rules st c))"

lemma other_timer: "others_keep A t P \<longleftrightarrow> (\<forall>u b s s'. u \<noteq> t \<longrightarrow> pcd_ok A s \<longrightarrow> rule_of s u = Some b \<longrightarrow> b \<in> A
   \<longrightarrow> node_frame A u b s s' \<longrightarrow> walked u s s' \<longrightarrow> P s \<longrightarrow> P s')"
proof -
  have "b \<in> A" if "pcd_ok A s" "rule_of s u = Some b" for s u b
    using that by (auto simp: pcd_ok_def wf_timers_def rule_of_def)
  then show ?thesis unfolding others_keep_def by blast
qed

lemma waits_others:
  assumes "pcd_ok A st" and "a \<in> A" and "rule_active (rules st a)"
  shows "others_keep A t (waits a t w st)"
  unfolding other_timer
proof (intro allI impI)
  fix u b s s'
  assume h: "u \<noteq> t" "pcd_ok A s" "rule_of s u = Some b" "node_frame A u b s s'" "walked u s s'" and w: "waits a t w st s"
  from w have r: "rules s a = rules st a" and ab: "b \<noteq> a" using h(1,3) unfolding waits_def by blast+
  have r': "rules s' a = rules s a" using h(4) ab r assms(3) unfolding node_frame_def by metis
  have "procs s' p = Some x" if p: "proc (rules st a) = Some p" "procs st p = Some x" for p x
  proof -
    have x: "procs s p = Some x" using w p unfolding waits_def by blast
    have "p_rule x = a" using wf_attachedD [OF assms(1,2) p(1)] p(2) by auto
    with h(4) x ab have "procs s' p = Some x \<or> (\<exists>c \<in> A. c \<noteq> b \<and> \<not> rule_active (rules s c) \<and> proc (rules s c) = Some p)"
      unfolding node_frame_def by blast
    moreover have "c = a" if "c \<in> A" "proc (rules s c) = Some p" for c
      using wf_attachedD [OF h(2) that] x \<open>p_rule x = a\<close> by auto
    ultimately show ?thesis using r assms(3) by metis
  qed
  moreover have "a \<notin> set (enqueueList s')" using h(4) w ab r assms(3) unfolding node_frame_def waits_def by metis
  moreover have "timerObjs s' t = timerObjs s t" using h(1,4) unfolding node_frame_def by metis
  moreover have "rule_of s' = rule_of s" using h(5) by (simp add: walked_def)
  moreover have "timerTick s' = timerTick s \<and> timerEnabled s' = timerEnabled s"
    "\<forall>c. ruleId (rules s' c) = ruleId (rules s c) \<and> failureAction (rules s' c) = failureAction (rules s c)"
    using h(4) by (simp_all add: node_frame_def)
  ultimately show "waits a t w st s'" using w r' unfolding waits_def by simp
qed

lemma waits_active: "pcd_ok A st \<Longrightarrow> timerObjs st t = Some x \<Longrightarrow> rule_active (rules st (t_rule x)) \<Longrightarrow> t \<notin> set (dequeueList st)"
  by (auto simp: pcd_ok_def wf_queues_def rule_of_def)

lemma waits_check:
  assumes "pcd_ok A st" and "a \<in> A" and "waits a t w st s" and "end_unmet os a st"
  shows "\<exists>q. PCD_end_cond_check os a s = Inr (q, s) \<and> q \<noteq> PCD_STATUS_OK"
proof (cases "endCondition (rules st a)")
  case (END_EXIT c)
  show ?thesis
  proof (cases "proc (rules st a)")
    case (Some p)
    from wf_attachedD [OF assms(1,2) Some] obtain x where "procs st p = Some x" by blast
    with Some END_EXIT assms(3,4) show ?thesis
      by (auto simp: waits_def end_unmet_def PCD_end_cond_check_def PCD_end_cond_check_EXIT_def)
  qed (use END_EXIT assms(3) in \<open>auto simp: waits_def PCD_end_cond_check_def PCD_end_cond_check_EXIT_def\<close>)
qed (use assms(3,4) in \<open>auto simp: waits_def end_unmet_def PCD_end_cond_check_def\<close>)

text \<open>What is left of the timeout after a check that fails.\<close>

definition time_left :: "u32 \<Rightarrow> u32 \<Rightarrow> u32" where
  "time_left k w = (if w = - 1 then - 1 else if w \<le> k then 0 else w - k)"

lemma waits_node:
  assumes "pcd_ok A st" and "a \<in> A" and "ruleState (rules st a) = PCD_RULE_END_CONDITION_WAITING"
    and "waits a t w st s" and "end_unmet os a st" and "w \<noteq> 0" and "timer_node os t s = Inr (f, s')"
  shows "waits a t (time_left (timerTick st) w) st s'"
proof -
  from waits_check [OF assms(1,2,4,5)] obtain q where q: "PCD_end_cond_check os a s = Inr (q, s)" "q \<noteq> PCD_STATUS_OK" by blast
  have k: "timerObjs s t = Some \<lparr>t_rule = a, t_timeout = w\<rparr>" "rules s a = rules st a" "timerTick s = timerTick st"
    using assms(4) by (simp_all add: waits_def)
  have "s' = (if w = - 1 then s else set_timer t \<lparr>t_rule = a, t_timeout = time_left (timerTick st) w\<rparr> s)"
    using assms(3,6,7) k q by (auto simp: timer_node_def PCD_timer_handle_end_condition_def Let_def time_left_def split: if_splits)
  moreover have "rule_of (set_timer t \<lparr>t_rule = a, t_timeout = v\<rparr> s) = rule_of s" for v
    using k(1) by (auto simp: rule_of_def fun_eq_iff)
  ultimately show ?thesis using assms(4) by (auto simp: waits_def time_left_def)
qed

lemma waits_end:
  assumes "a \<in> A" and "rule_active (rules st a)" and "pcd_ok A s" and "t \<in> set (timerQueue s)" and "waits a t w st s"
    and "PCD_timer_dequeue_handle s = Inr s1"
  shows "waits a t w st (PCD_timer_enqueue_handle s1)"
proof -
  note e = end_of_pass [OF assms(3,6) refl]
  have brk: "t < brk s" using assms(3,4) by (auto simp: pcd_ok_def wf_timers_def)
  have w: "timerObjs s t = Some \<lparr>t_rule = a, t_timeout = w\<rparr>" "a \<notin> set (enqueueList s)" "rules s a = rules st a"
    "\<And>u. rule_of s u = Some a \<Longrightarrow> u = t"
    using assms(5) unfolding waits_def by blast+
  have "t \<notin> set (dequeueList s)" by (rule waits_active [OF assms(3) w(1)]) (use assms(2) w(3) in simp)
  then have "timerObjs (PCD_timer_enqueue_handle s1) t = timerObjs s t" using e(10) [OF brk] by simp
  moreover have "u = t" if "rule_of (PCD_timer_enqueue_handle s1) u = Some a" for u
  proof -
    from that obtain x where x: "timerObjs (PCD_timer_enqueue_handle s1) u = Some x" "t_rule x = a" by (auto simp: rule_of_def)
    with e(11) [OF x(1)] w(2) have "timerObjs s u = Some x" by auto
    with x(2) w(4) show ?thesis by (auto simp: rule_of_def)
  qed
  ultimately show ?thesis using assms(5) w(2) e by (simp add: waits_def)
qed

section \<open>A rule that is given up\<close>

text \<open>The process is marked to be killed at once.\<close>

definition killed :: "proc_obj \<Rightarrow> proc_obj" where
  "killed x = x\<lparr>signaled := (p_state x = PCD_PROCESS_STOPPED \<or> p_state x = PCD_PROCESS_STOPPING \<or> signaled x),
     p_state := PCD_PROCESS_KILLME, tm := 0, cookie := None\<rparr>"

text \<open>
  The rules that the failure action of \<open>a\<close> starts: \<open>a\<close> itself, or the rule that an EXEC_RULE action
  names, unless that one waits already.
\<close>

definition follow_ups :: "addr set \<Rightarrow> addr \<Rightarrow> pcd \<Rightarrow> addr set" where
  "follow_ups A a st = (case failureAction (rules st a) of
      FAIL_RESTART \<Rightarrow> {a}
    | FAIL_EXEC_RULE rid \<Rightarrow> {b \<in> A. ruleId (rules st b) = rid \<and> (b = a \<or> (\<forall>u. rule_of st u \<noteq> Some b))}
    | _ \<Rightarrow> {})"

definition starts_again :: "addr set \<Rightarrow> addr \<Rightarrow> pcd \<Rightarrow> bool" where
  "starts_again A a st \<longleftrightarrow> failureAction (rules st a) = FAIL_RESTART \<or> (\<exists>b \<in> A. executes st b a)"

definition waits_again :: "addr \<Rightarrow> pcd \<Rightarrow> bool" where
  "waits_again b st \<longleftrightarrow> ruleState (rules st b) = PCD_RULE_START_CONDITION_WAITING \<and> (\<exists>u. rule_of st u = Some b)"

text \<open>
  From \<open>st\<close> to \<open>st'\<close> the rule \<open>a\<close> was given up: its timer is gone, its process is detached and marked,
  what its failure action names waits for its start condition, and the rule is NOT_COMPLETED unless
  an action started it again.
\<close>

definition given_up :: "addr set \<Rightarrow> addr \<Rightarrow> addr \<Rightarrow> pcd \<Rightarrow> pcd \<Rightarrow> bool" where
  "given_up A a t st st' \<longleftrightarrow> failureAction (rules st a) \<noteq> FAIL_REBOOT
     \<and> timerObjs st' t = None \<and> proc (rules st' a) = None
     \<and> (\<forall>p x. proc (rules st a) = Some p \<longrightarrow> procs st p = Some x \<longrightarrow> procs st' p = Some (killed x))
     \<and> (\<forall>b \<in> follow_ups A a st. waits_again b st')
     \<and> (ruleState (rules st' a) = PCD_RULE_NOT_COMPLETED \<or> starts_again A a st \<and> waits_again a st')"

text \<open>The same before the pass is at its end, \<open>st\<close> the state at its start.\<close>

definition marked :: "addr set \<Rightarrow> addr \<Rightarrow> addr \<Rightarrow> pcd \<Rightarrow> pcd \<Rightarrow> bool" where
  "marked A a t st s \<longleftrightarrow> t \<in> set (dequeueList s) \<and> rule_of s = rule_of st
     \<and> proc (rules s a) = None \<and> ruleState (rules s a) = PCD_RULE_NOT_COMPLETED
     \<and> (\<forall>p x. proc (rules st a) = Some p \<longrightarrow> procs st p = Some x \<longrightarrow> procs s p = Some (killed x))
     \<and> follow_ups A a st \<subseteq> set (enqueueList s) \<and> (a \<in> set (enqueueList s) \<longrightarrow> starts_again A a st)
     \<and> (\<forall>c. ruleId (rules s c) = ruleId (rules st c) \<and> failureAction (rules s c) = failureAction (rules st c))"

text \<open>The handling of another rule, and the start of another rule by the failure action, keep it but for the follow-ups.\<close>

lemma marked_frame:
  assumes "pcd_ok A st" and "a \<in> A" and "b \<in> A" and "b \<noteq> a" and "pcd_ok A s" and "node_frame A u b s s'" and "rule_of s' = rule_of s"
    and "follow_ups A a st \<subseteq> set (enqueueList s')" and "marked A a t st s"
  shows "marked A a t st s'"
proof -
  note m = assms(9) [unfolded marked_def] and f = assms(6) [unfolded node_frame_def]
  have ids: "\<forall>c. ruleId (rules s' c) = ruleId (rules st c) \<and> failureAction (rules s' c) = failureAction (rules st c)"
    using m f by simp
  have "rules s' a = rules s a \<or> rules s' a = (rules s a)\<lparr>proc := None\<rparr>" using f assms(4) [symmetric] by blast
  then have r: "proc (rules s' a) = None" "ruleState (rules s' a) = PCD_RULE_NOT_COMPLETED"
    using m by (elim disjE; simp)+
  have "procs s' p = Some (killed x)" if p: "proc (rules st a) = Some p" "procs st p = Some x" for p x
  proof -
    have x: "procs s p = Some (killed x)" using m p by blast
    have "p_rule x = a" using wf_attachedD [OF assms(1,2) p(1)] p(2) by auto
    then have "p_rule (killed x) \<noteq> b" using assms(4) by (simp add: killed_def)
    with f x have "procs s' p = Some (killed x) \<or> (\<exists>c \<in> A. c \<noteq> b \<and> \<not> rule_active (rules s c) \<and> proc (rules s c) = Some p)"
      by blast
    moreover have False if "c \<in> A" "proc (rules s c) = Some p" for c
      using wf_attachedD [OF assms(5) that] x by (auto simp: attachable_def killed_def)
    ultimately show ?thesis by blast
  qed
  moreover have "starts_again A a st" if "a \<in> set (enqueueList s')"
  proof -
    have "a \<in> set (enqueueList s) \<or> executes s b a" using f that assms(4) by blast
    moreover have "executes s b a = executes st b a" using m by (simp add: executes_def)
    ultimately show ?thesis using m assms(3) by (auto simp: starts_again_def)
  qed
  moreover have "t \<in> set (dequeueList s')" using m f by blast
  ultimately show ?thesis using m r ids assms(7,8) unfolding marked_def by simp
qed

lemma marked_others:
  assumes "pcd_ok A st" and "a \<in> A" and "\<forall>u. rule_of st u = Some a \<longrightarrow> u = t"
  shows "others_keep A t (marked A a t st)"
  unfolding other_timer
proof (intro allI impI)
  fix u b s s'
  assume h: "u \<noteq> t" "pcd_ok A s" "rule_of s u = Some b" "b \<in> A" "node_frame A u b s s'" "walked u s s'" and m: "marked A a t st s"
  from m have "rule_of s = rule_of st" "follow_ups A a st \<subseteq> set (enqueueList s)" by (simp_all add: marked_def)
  moreover from this have "b \<noteq> a" using h(1,3) assms(3) by auto
  moreover have "set (enqueueList s) \<subseteq> set (enqueueList s')" using h(5) by (simp add: node_frame_def)
  ultimately show "marked A a t st s'"
    by (intro marked_frame [OF assms(1,2) h(4) _ h(2,5) _ _ m]) (use h(6) in \<open>auto simp: walked_def\<close>)
qed

text \<open>The check that finds no time left.\<close>

lemma stop_killed:
  assumes "pcd_ok A s" and "a \<in> A" and "(if proc (rules s a) \<noteq> None then PCD_process_stop (Some a) True None s else Inr (PCD_STATUS_OK, s)) = Inr (q, s2)"
  shows "\<forall>p x. proc (rules s a) = Some p \<longrightarrow> procs s p = Some x \<longrightarrow> procs s2 p = Some (killed x)"
proof (cases "proc (rules s a)")
  case (Some p)
  from wf_attachedD [OF assms(1,2) Some] obtain x where "procs s p = Some x" "attachable (p_state x)" by blast
  with Some assms(3) show ?thesis
    by (auto simp: PCD_process_stop_def attachable_def stoppable_def killed_def Let_def)
qed simp

lemma failure_action_marks:
  assumes st: "pcd_ok A st" "a \<in> A" and s: "pcd_ok A s" "\<not> rule_active (rules s a)" and m: "t \<in> set (dequeueList s)" "rule_of s = rule_of st"
    "proc (rules s a) = None" "ruleState (rules s a) = PCD_RULE_NOT_COMPLETED"
    "\<forall>p x. proc (rules st a) = Some p \<longrightarrow> procs st p = Some x \<longrightarrow> procs s p = Some (killed x)" "a \<notin> set (enqueueList s)"
    "\<forall>c. ruleId (rules s c) = ruleId (rules st c) \<and> failureAction (rules s c) = failureAction (rules st c)"
    and fa: "PCD_failure_action a s = Inr (n, s')"
  shows "failureAction (rules st a) \<noteq> FAIL_REBOOT \<and> marked A a t st (add_to_enqueue_list n s')"
proof (cases "failureAction (rules st a)")
  case FAIL_NONE
  with fa m show ?thesis by (auto simp: PCD_failure_action_def marked_def add_to_enqueue_list_def follow_ups_def)
next
  case FAIL_REBOOT
  with fa m(7) show ?thesis by (simp add: PCD_failure_action_def)
next
  case FAIL_RESTART
  with fa m show ?thesis
    by (auto simp: PCD_failure_action_def PCD_failure_action_RESTART_def marked_def add_to_enqueue_list_def follow_ups_def
        starts_again_def rule_of_def fun_eq_iff)
next
  case (FAIL_EXEC_RULE rid)
  note look = wf_lookup [OF s(1), of rid]
  have known: "db_map s rid = Some c \<longleftrightarrow> c \<in> A \<and> ruleId (rules st c) = rid" for c
    using db_map_Some s(1) m(7) by (auto simp: pcd_ok_def wf_db_def)
  have run: "PCD_failure_action a s = (case db_map s rid of None \<Rightarrow> Inr (None, s)
      | Some c \<Rightarrow> if rule_active (rules s c) then Inr (None, s) else PCD_failure_action_RESTART (Some c) s)"
    using FAIL_EXEC_RULE m(7) look(1) by (simp add: PCD_failure_action_def PCD_failure_action_EXEC_RULE_def split: option.splits)
  have base: "marked A a t st s" if "follow_ups A a st = {}" using m that by (simp add: marked_def)
  show ?thesis
  proof (cases "db_map s rid")
    case None
    then have "follow_ups A a st = {}" using known FAIL_EXEC_RULE by (auto simp: follow_ups_def)
    with base fa run None FAIL_EXEC_RULE show ?thesis by (simp add: add_to_enqueue_list_def)
  next
    case (Some c)
    then have c: "c \<in> A" "ruleId (rules st c) = rid" using known by blast+
    have only: "follow_ups A a st \<subseteq> {c}" using known Some FAIL_EXEC_RULE by (fastforce simp: follow_ups_def)
    show ?thesis
    proof (cases "c = a")
      case True
      then have "starts_again A a st" using c(2) FAIL_EXEC_RULE st(2) by (auto simp: starts_again_def executes_def)
      moreover have "n = Some a" "s' = s" using True fa run Some s(2) m(3) by (auto simp: PCD_failure_action_RESTART_def)
      ultimately show ?thesis using True m only FAIL_EXEC_RULE
        by (auto simp: marked_def add_to_enqueue_list_def rule_of_def fun_eq_iff)
    next
      case ca: False
      show ?thesis
      proof (cases "rule_active (rules s c)")
        case True
        with s(1) c(1) obtain u where "rule_of s u = Some c" by (auto simp: pcd_ok_def wf_queues_def)
        with only ca m(2) FAIL_EXEC_RULE have "follow_ups A a st = {}" by (auto simp: follow_ups_def)
        with base fa run Some True FAIL_EXEC_RULE show ?thesis by (simp add: add_to_enqueue_list_def)
      next
        case False
        with fa run Some have re: "PCD_failure_action_RESTART (Some c) s = Inr (n, s')" by simp
        from nf_restart [OF s(1) c(1) _ re, of c t] have n: "node_frame A t c s s'" "n = Some c" by simp_all
        from failure_RESTART_ok [OF s(1) c(1)] re have q: "quiet s s'" by auto
        let ?s = "add_to_enqueue_list n s'"
        have enq: "node_frame A t c s' ?s" by (rule nf_enqueue_list) (use n(2) in simp)
        note f = nf_trans [OF n(1) enq, unfolded node_frame_def]
        have r': "rule_of ?s = rule_of s" "enqueueList ?s = c # enqueueList s"
          using n(2) quietD [OF q] by (simp_all add: add_to_enqueue_list_def rule_of_def fun_eq_iff)
        have "rules ?s a = rules s a \<or> rules ?s a = (rules s a)\<lparr>proc := None\<rparr>" using f ca [symmetric] by blast
        then have r: "proc (rules ?s a) = None" "ruleState (rules ?s a) = PCD_RULE_NOT_COMPLETED" using m(3,4) by (elim disjE; simp)+
        have "procs ?s p = Some (killed x)" if p: "proc (rules st a) = Some p" "procs st p = Some x" for p x
        proof -
          have x: "procs s p = Some (killed x)" using m(5) p by blast
          have "p_rule x = a" using wf_attachedD [OF st p(1)] p(2) by auto
          then have "p_rule (killed x) \<noteq> c" using ca by (simp add: killed_def)
          with f x have "procs ?s p = Some (killed x) \<or> (\<exists>d \<in> A. d \<noteq> c \<and> \<not> rule_active (rules s d) \<and> proc (rules s d) = Some p)"
            by blast
          moreover have False if "d \<in> A" "proc (rules s d) = Some p" for d
            using wf_attachedD [OF s(1) that] x by (auto simp: attachable_def killed_def)
          ultimately show ?thesis by blast
        qed
        moreover have "t \<in> set (dequeueList ?s)" using m(1) f by blast
        moreover have "\<forall>d. ruleId (rules ?s d) = ruleId (rules st d) \<and> failureAction (rules ?s d) = failureAction (rules st d)"
          using m(7) f by simp
        ultimately show ?thesis using r r' m(2,6) only ca FAIL_EXEC_RULE by (auto simp: marked_def)
      qed
    qed
  qed
qed

lemma gives_up_node:
  assumes st: "pcd_ok A st" "a \<in> A" "ruleState (rules st a) = PCD_RULE_END_CONDITION_WAITING"
    and s: "pcd_ok A s" "t \<notin> set (dequeueList s)" "waits a t 0 st s" "rule_of s = rule_of st"
    and os: "end_unmet os a st" and run: "timer_node os t s = Inr (f, s')"
  shows "failureAction (rules st a) \<noteq> FAIL_REBOOT \<and> marked A a t st s' \<and> f"
proof -
  from waits_check [OF st(1,2) s(3) os] obtain q where q: "PCD_end_cond_check os a s = Inr (q, s)" "q \<noteq> PCD_STATUS_OK" by blast
  have k: "timerObjs s t = Some \<lparr>t_rule = a, t_timeout = 0\<rparr>" "rules s a = rules st a" using s(3) by (simp_all add: waits_def)
  from maybe_stop_ok [OF s(1) st(2), of True None] obtain r s2 where
    stop: "(if proc (rules s a) \<noteq> None then PCD_process_stop (Some a) True None s else Inr (PCD_STATUS_OK, s)) = Inr (r, s2)"
    and s2: "pcd_ok A s2" "quiet s s2" "proc (rules s2 a) = None" by blast
  let ?s3 = "add_to_dequeue_list t (set_state a PCD_RULE_NOT_COMPLETED s2)"
  have x2: "timerObjs s2 t = Some \<lparr>t_rule = a, t_timeout = 0\<rparr>" "t \<notin> set (dequeueList s2)"
    using k(1) s(2) quietD [OF s2(2)] by simp_all
  have s3: "pcd_ok A ?s3" using failed_wf [OF s2(1) x2(1) _ x2(2), of PCD_RULE_NOT_COMPLETED] st(2) by simp
  define x where "x = \<lparr>t_rule = a, t_timeout = 0 :: u32\<rparr>"
  have x: "timerObjs s t = Some x" "t_timeout x = 0" and a: "t_rule x = a" using k(1) by (simp_all add: x_def)
  have "timer_node os t s = bind_run (fail_timer t (t_rule x) PCD_RULE_NOT_COMPLETED s2) (\<lambda>st. Inr (True, st))"
    using st(3) k(2) x(2) q(2) q(1) [folded a] stop [folded a] unfolding a [symmetric]
    by (simp add: timer_node_def PCD_timer_handle_end_condition_def x(1) Let_def del: not_None_eq)
  with run obtain n s4 where fa: "PCD_failure_action a ?s3 = Inr (n, s4)" and s': "s' = add_to_enqueue_list n s4" and f
    by (auto simp: fail_timer_def a bind_run_eq_Inr)
  have ids: "ruleId (rules s2 c) = ruleId (rules s c) \<and> failureAction (rules s2 c) = failureAction (rules s c)" for c
  proof -
    have "rules s2 c = rules s c \<or> rules s2 c = (rules s c)\<lparr>proc := None\<rparr>" using s2(2) by (simp add: quiet_def)
    then show ?thesis by (elim disjE) simp_all
  qed
  have "failureAction (rules st a) \<noteq> FAIL_REBOOT \<and> marked A a t st (add_to_enqueue_list n s4)"
  proof (rule failure_action_marks [OF st(1,2) s3])
    show "\<forall>p x. proc (rules st a) = Some p \<longrightarrow> procs st p = Some x \<longrightarrow> procs ?s3 p = Some (killed x)"
      using stop_killed [OF s(1) st(2) stop] s(3) unfolding waits_def by (simp add: add_to_dequeue_list_def set_state_def)
  qed (use s(3,4) s2(3) quietD [OF s2(2)] ids fa in
      \<open>auto simp: add_to_dequeue_list_def set_state_def rule_active_def waits_def rule_of_def fun_eq_iff\<close>)
  with s' \<open>f\<close> show ?thesis by simp
qed

lemma gives_up_end:
  assumes "failureAction (rules st a) \<noteq> FAIL_REBOOT" and "pcd_ok A s" and "t \<in> set (timerQueue s)" and "marked A a t st s"
    and "PCD_timer_dequeue_handle s = Inr s1"
  shows "given_up A a t st (PCD_timer_enqueue_handle s1)"
proof -
  note e = end_of_pass [OF assms(2,5) refl] and m = assms(4) [unfolded marked_def]
  have "t < brk s" using assms(2,3) by (auto simp: pcd_ok_def wf_timers_def)
  with e(10) m have "timerObjs (PCD_timer_enqueue_handle s1) t = None" by simp
  moreover have again: "waits_again b (PCD_timer_enqueue_handle s1)" if "b \<in> set (enqueueList s)" for b
    using e(9) [OF that] by (simp add: waits_again_def)
  moreover have "\<forall>b \<in> follow_ups A a st. waits_again b (PCD_timer_enqueue_handle s1)" using again m by blast
  moreover have "ruleState (rules (PCD_timer_enqueue_handle s1) a) = PCD_RULE_NOT_COMPLETED
      \<or> starts_again A a st \<and> waits_again a (PCD_timer_enqueue_handle s1)"
    using again [of a] e(8) [of a] m by (cases "a \<in> set (enqueueList s)") simp_all
  ultimately show ?thesis using assms(1) m e(1,4) by (simp add: given_up_def)
qed

section \<open>Many passes\<close>

text \<open>The passes of the timer one after the other, each with what the system answers in it.\<close>

fun timer_passes :: "(addr \<Rightarrow> pcd_os) list \<Rightarrow> pcd \<Rightarrow> pcd run" where
  "timer_passes [] st = Inr st"
| "timer_passes (env # envs) st = bind_run (PCD_timer_iterate env st) (\<lambda>(f, st). timer_passes envs st)"

lemma end_unmet_waits:
  assumes "pcd_ok A st" and "a \<in> A" and "waits a t w st s"
  shows "end_unmet os a s = end_unmet os a st"
proof (cases "proc (rules st a)")
  case (Some p)
  from wf_attachedD [OF assms(1,2) Some] obtain x where "procs st p = Some x" by blast
  with Some assms(3) show ?thesis by (simp add: waits_def end_unmet_def cong: end_cond.case_cong)
qed (use assms(3) in \<open>simp add: waits_def end_unmet_def cong: end_cond.case_cong\<close>)

lemma waits_queue: "pcd_ok A st \<Longrightarrow> timerObjs st t = Some x \<Longrightarrow> t \<in> set (timerQueue st)"
  by (auto simp: pcd_ok_def wf_timers_def)

lemma pass_waits:
  assumes st: "pcd_ok A st" "a \<in> A" "ruleState (rules st a) = PCD_RULE_END_CONDITION_WAITING" "timerEnabled st"
    and s: "pcd_ok A s" "settled s" "waits a t w st s" and "end_unmet (env t) a st" and "w \<noteq> 0"
  shows "may_exit (reboots A st) (\<lambda>(f, s'). pcd_ok A s' \<and> settled s' \<and> waits a t (time_left (timerTick st) w) st s')
    (PCD_timer_iterate env s)"
proof -
  have act: "rule_active (rules st a)" using st(3) by (simp add: rule_active_def)
  have t: "t \<in> set (timerQueue s)" using waits_queue [OF s(1)] s(3) by (auto simp: waits_def)
  have en: "timerEnabled s" using s(3) st(4) by (simp add: waits_def)
  have "reboots A s = reboots A st" using s(3) by (simp add: waits_def reboots_def)
  moreover have "may_exit (reboots A s) (\<lambda>(f, s'). pcd_ok A s' \<and> settled s' \<and> waits a t (time_left (timerTick st) w) st s' \<and> (False \<longrightarrow> f))
      (PCD_timer_iterate env s)"
    by (rule one_pass [OF s(1,2) en t s(3) waits_others [OF st(1,2) act] waits_others [OF st(1,2) act]])
      (use waits_node [OF st(1-3) _ assms(8,9)] waits_end [OF st(2) act] in auto)
  ultimately show ?thesis by (auto elim: may_exit_mono)
qed

lemma pass_gives_up:
  assumes st: "pcd_ok A st" "settled st" "a \<in> A" "ruleState (rules st a) = PCD_RULE_END_CONDITION_WAITING" "timerEnabled st"
    and "waits a t 0 st st" and "end_unmet (env t) a st"
  shows "may_exit (reboots A st) (\<lambda>(f, st'). f \<and> given_up A a t st st') (PCD_timer_iterate env st)"
proof -
  let ?P = "\<lambda>s. waits a t 0 st s \<and> rule_of s = rule_of st"
    and ?Q = "\<lambda>s. failureAction (rules st a) \<noteq> FAIL_REBOOT \<and> marked A a t st s"
  have act: "rule_active (rules st a)" using st(4) by (simp add: rule_active_def)
  have only: "\<forall>u. rule_of st u = Some a \<longrightarrow> u = t" using assms(6) by (simp add: waits_def)
  have t: "t \<in> set (timerQueue st)" using waits_queue [OF st(1)] assms(6) by (auto simp: waits_def)
  have P: "others_keep A t ?P"
    using waits_others [OF st(1,3) act] by (auto simp: others_keep_def walked_def)
  have Q: "others_keep A t ?Q"
    using marked_others [OF st(1,3) only] unfolding others_keep_def by blast
  have "may_exit (reboots A st) (\<lambda>(f, st'). pcd_ok A st' \<and> settled st' \<and> given_up A a t st st' \<and> (True \<longrightarrow> f)) (PCD_timer_iterate env st)"
    by (rule one_pass [OF st(1,2,5) t _ P Q])
      (use assms(6) gives_up_node [OF st(1,3,4) _ _ _ _ assms(7)] gives_up_end in auto)
  then show ?thesis by (auto elim: may_exit_mono)
qed

lemma time_left_ticks:
  assumes "0 < k" and "w \<noteq> - 1" and "w \<noteq> 0"
  shows "time_left k w \<noteq> - 1" "ticks_in k w = Suc (ticks_in k (time_left k w))"
proof -
  show "ticks_in k w = Suc (ticks_in k (time_left k w))"
    using ticks_in_last [OF assms(1,3)] ticks_in_step [OF assms(1), of w] ticks_in_0 [OF assms(1)] assms(2)
    by (auto simp: time_left_def)
  show "time_left k w \<noteq> - 1"
  proof (cases "w \<le> k")
    case False
    have "w - k \<noteq> - 1"
    proof
      assume "w - k = - 1"
      then have "unat (w - k) = 2 ^ 32 - 1" by (simp add: unsigned_minus_1_eq_mask mask_eq_exp_minus_1)
      moreover have "unat (w - k) = unat w - unat k" using False by (intro unat_sub) simp
      moreover have "unat w < 2 ^ 32" using unsigned_less [of w] by simp
      moreover have "0 < unat k" using assms(1) by (simp add: word_less_nat_alt)
      ultimately show False by simp
    qed
    with False assms(2) show ?thesis by (simp add: time_left_def)
  qed (use assms(2) in \<open>simp add: time_left_def\<close>)
qed

lemma ticks_in_none: "0 < k \<Longrightarrow> ticks_in k w = 0 \<Longrightarrow> w = 0"
  using ticks_in_last [of k w] ticks_in_step [of k w] by (cases "w \<le> k") auto

lemma passes_wait:
  assumes st: "pcd_ok A st" "a \<in> A" "ruleState (rules st a) = PCD_RULE_END_CONDITION_WAITING" "timerEnabled st" "0 < timerTick st"
    and "pcd_ok A s" and "settled s" and "waits a t w st s" and "\<forall>env \<in> set envs. end_unmet (env t) a st"
    and "w = - 1 \<or> length envs \<le> ticks_in (timerTick st) w"
  shows "may_exit (reboots A st) (\<lambda>s'. pcd_ok A s' \<and> settled s' \<and> (\<exists>v. waits a t v st s'
      \<and> (w = - 1 \<longrightarrow> v = - 1) \<and> (w \<noteq> - 1 \<longrightarrow> ticks_in (timerTick st) v = ticks_in (timerTick st) w - length envs))) (timer_passes envs s)"
  using assms(6-10)
proof (induction envs arbitrary: s w)
  case Nil
  then show ?case by auto
next
  case (Cons env envs)
  have w0: "w \<noteq> 0" using Cons.prems(5) ticks_in_0 [OF st(5)] by auto
  let ?v = "time_left (timerTick st) w"
  have v: "w = - 1 \<Longrightarrow> ?v = - 1" "w \<noteq> - 1 \<Longrightarrow> ?v \<noteq> - 1 \<and> ticks_in (timerTick st) w = Suc (ticks_in (timerTick st) ?v)"
    using time_left_ticks [OF st(5) _ w0] by (auto simp: time_left_def)
  have "end_unmet (env t) a st" using Cons.prems(4) by simp
  from pass_waits [where env = env, OF st(1-4) Cons.prems(1-3) this w0] show ?case unfolding timer_passes.simps
  proof (rule may_exit_bind, clarify)
    fix s'
    assume s': "pcd_ok A s'" "settled s'" "waits a t ?v st s'"
    have "?v = - 1 \<or> length envs \<le> ticks_in (timerTick st) ?v" using Cons.prems(5) v by (cases "w = - 1") auto
    with Cons.IH [OF s'] Cons.prems(4) have "may_exit (reboots A st) (\<lambda>s'. pcd_ok A s' \<and> settled s' \<and> (\<exists>u. waits a t u st s'
      \<and> (?v = - 1 \<longrightarrow> u = - 1) \<and> (?v \<noteq> - 1 \<longrightarrow> ticks_in (timerTick st) u = ticks_in (timerTick st) ?v - length envs))) (timer_passes envs s')"
      by simp
    then show "may_exit (reboots A st) (\<lambda>s'. pcd_ok A s' \<and> settled s' \<and> (\<exists>v. waits a t v st s'
      \<and> (w = - 1 \<longrightarrow> v = - 1) \<and> (w \<noteq> - 1 \<longrightarrow> ticks_in (timerTick st) v = ticks_in (timerTick st) w - length (env # envs)))) (timer_passes envs s')"
      by (rule may_exit_mono) (use v in auto)
  qed
qed

text \<open>
  C27: A timeout is exact, in a daemon with any number of other rules.  A rule that waits for its end
  condition (a file, a network device, an IPC owner, the PROCESS_READY call or the exit of its
  process; a WAIT condition, which time itself meets, apart) stays as it is, with its process, for
  exactly as many passes of the timer, nothing else happening between them and the condition not met
  in any of them, as it takes ticks to use up the timeout, and for ever when the timeout is all ones.  In the next such pass it is given up: its timer
  is removed, its process is detached and marked to be killed at once, the failure action is carried
  out (RESTART and EXEC_RULE leave the rule they name waiting for its start condition, REBOOT ends
  the daemon), and the rule is NOT_COMPLETED unless its own action or the EXEC_RULE action of a rule
  that names it started it again.  The daemon exits in these passes only when a rule has the
  REBOOT action.
\<close>

theorem timeout_exact:
  assumes "pcd_ok A st" and "settled st" and "timerEnabled st" and "0 < timerTick st"
    and "timerObjs st t = Some \<lparr>t_rule = a, t_timeout = w\<rparr>" and "\<forall>u. rule_of st u = Some a \<longrightarrow> u = t"
    and "ruleState (rules st a) = PCD_RULE_END_CONDITION_WAITING" and "\<forall>env \<in> set envs. end_unmet (env t) a st"
  shows "(w = - 1 \<or> length envs \<le> ticks_in (timerTick st) w
        \<longrightarrow> may_exit (reboots A st) (\<lambda>st'. \<exists>v. waits a t v st st') (timer_passes envs st))
    \<and> (w \<noteq> - 1 \<and> length envs = ticks_in (timerTick st) w \<and> timer_passes envs st = Inr st1 \<and> end_unmet (env t) a st
        \<longrightarrow> may_exit (reboots A st) (\<lambda>(f, st'). f \<and> given_up A a t st1 st') (PCD_timer_iterate env st1))"
proof (intro conjI impI)
  have a: "a \<in> A" using assms(1,5) by (fastforce simp: pcd_ok_def wf_timers_def)
  have w: "waits a t w st st" using assms(2,5,6) by (simp add: waits_def settled_def)
  note passes = passes_wait [OF assms(1) a assms(7,3,4,1,2) w assms(8)]
  show "w = - 1 \<or> length envs \<le> ticks_in (timerTick st) w
      \<Longrightarrow> may_exit (reboots A st) (\<lambda>st'. \<exists>v. waits a t v st st') (timer_passes envs st)"
    by (rule may_exit_mono [OF passes]) auto
  assume last: "w \<noteq> - 1 \<and> length envs = ticks_in (timerTick st) w \<and> timer_passes envs st = Inr st1 \<and> end_unmet (env t) a st"
  with passes obtain v where st1: "pcd_ok A st1" "settled st1" "waits a t v st st1" "ticks_in (timerTick st) v = 0"
    by (auto simp: may_exit_def)
  have v: "v = 0" by (rule ticks_in_none [OF assms(4) st1(4)])
  have same: "rules st1 a = rules st a" "timerEnabled st1 = timerEnabled st" "waits a t 0 st1 st1" "reboots A st1 = reboots A st"
    using st1(3) v by (auto simp: waits_def reboots_def)
  have unmet: "end_unmet (env t) a st1" using last end_unmet_waits [OF assms(1) a st1(3)] by simp
  show "may_exit (reboots A st) (\<lambda>(f, st'). f \<and> given_up A a t st1 st') (PCD_timer_iterate env st1)"
    using pass_gives_up [where env = env, OF st1(1,2) a _ _ same(3) unmet] same assms(3,7) by simp
qed

text \<open>
  A rule that is to be restarted, with half a second and a tick of 200 milliseconds, beside a rule
  that waits for ever: three passes, then the end.
\<close>

definition up_rule :: rule where
  "up_rule = blank_rule\<lparr>ruleId := \<lparr>groupName = ''SYS'', ruleName = ''A''\<rparr>, endCondition := END_FILE ''/var/run/up'',
     timeout := 500, ruleState := PCD_RULE_END_CONDITION_WAITING, command := Some ''/bin/up'',
     failureAction := FAIL_RESTART, proc := Some 2\<rparr>"

definition late_rule :: rule where
  "late_rule = blank_rule\<lparr>ruleId := \<lparr>groupName = ''SYS'', ruleName = ''B''\<rparr>, endCondition := END_NETDEVICE ''eth0'',
     timeout := - 1, ruleState := PCD_RULE_END_CONDITION_WAITING, command := Some ''NONE''\<rparr>"

definition busy_pcd :: pcd where
  "busy_pcd = pcd_init\<lparr>rules := (\<lambda>a. if a = 0 then up_rule else late_rule), groups := [(''SYS'', [0, 1])],
     timerEnabled := True, timerQueue := [4, 3],
     timerObjs := [3 \<mapsto> \<lparr>t_rule = 0, t_timeout = 500\<rparr>, 4 \<mapsto> \<lparr>t_rule = 1, t_timeout = - 1\<rparr>],
     procs := [2 \<mapsto> (PCD_process_new 0)\<lparr>pid := 77, p_state := PCD_PROCESS_RUNNING\<rparr>], procList := [2], brk := 5\<rparr>"

lemmas busy_defs = busy_pcd_def up_rule_def late_rule_def pcd_init_def blank_rule_def

lemma busy_ok: "pcd_ok {0, 1} busy_pcd"
proof -
  have "wf_db {0, 1} busy_pcd"
    by (simp add: wf_db_def busy_defs db_rules_def db_ok_def group_ok_def rule_ok_def less_list_code less_char_def)
  moreover have "wf_procs {0, 1} busy_pcd" "wf_attached {0, 1} busy_pcd"
    by (simp_all add: wf_procs_def wf_attached_def busy_defs PCD_process_new_def attachable_def)
  moreover have "wf_timers {0, 1} busy_pcd" by (auto simp: wf_timers_def busy_defs)
  moreover have "wf_queues {0, 1} busy_pcd"
    by (auto simp: wf_queues_def busy_defs rule_of_def intro: exI [of _ 3] exI [of _ 4])
  ultimately show ?thesis by (simp add: pcd_ok_def)
qed

theorem timeout_exact_witness:
  "\<exists>st1 st'. timer_passes [\<lambda>t. no_os, \<lambda>t. no_os, \<lambda>t. no_os] busy_pcd = Inr st1 \<and> rules st1 0 = up_rule \<and> timerObjs st1 3 \<noteq> None
     \<and> PCD_timer_iterate (\<lambda>t. no_os) st1 = Inr (True, st') \<and> timerObjs st' 3 = None \<and> proc (rules st' 0) = None
     \<and> ruleState (rules st' 0) = PCD_RULE_START_CONDITION_WAITING \<and> map_option p_state (procs st' 2) = Some PCD_PROCESS_KILLME"
proof -
  let ?e = "\<lambda>t. no_os"
  have a: "settled busy_pcd" "timerEnabled busy_pcd" "0 < timerTick busy_pcd"
    "timerObjs busy_pcd 3 = Some \<lparr>t_rule = 0, t_timeout = 500\<rparr>"
    "\<forall>u. rule_of busy_pcd u = Some 0 \<longrightarrow> u = 3"
    "ruleState (rules busy_pcd 0) = PCD_RULE_END_CONDITION_WAITING"
    by (simp_all add: settled_def busy_defs rule_of_def)
  have unmet: "end_unmet no_os 0 busy_pcd" by (simp add: end_unmet_def busy_defs no_os_def)
  then have es: "\<forall>env \<in> set [?e, ?e, ?e]. end_unmet (env 3) 0 busy_pcd" by simp
  have t: "ticks_in (timerTick busy_pcd) 500 = 3" by (simp add: ticks_in_def busy_defs)
  have nr: "\<not> reboots {0, 1} busy_pcd" by (simp add: reboots_def busy_defs)
  note th = timeout_exact [OF busy_ok a es]
  from th [THEN conjunct1] t nr obtain st1 v where st1: "timer_passes [?e, ?e, ?e] busy_pcd = Inr st1" "waits 0 3 v busy_pcd st1"
    by (auto simp: may_exit_def)
  from th [of st1 ?e, THEN conjunct2] t nr st1(1) unmet obtain st' where
    st': "PCD_timer_iterate ?e st1 = Inr (True, st')" "given_up {0, 1} 0 3 st1 st'" by (auto simp: may_exit_def)
  have r: "rules st1 0 = up_rule" "procs st1 2 = procs busy_pcd 2" "timerObjs st1 3 \<noteq> None"
    using st1(2) by (auto simp: waits_def busy_defs)
  have "follow_ups {0, 1} 0 st1 = {0}" by (simp add: follow_ups_def r(1)) (simp add: up_rule_def)
  with st'(2) have "ruleState (rules st' 0) = PCD_RULE_START_CONDITION_WAITING" "timerObjs st' 3 = None" "proc (rules st' 0) = None"
    "map_option p_state (procs st' 2) = Some PCD_PROCESS_KILLME"
    using r by (simp_all add: given_up_def waits_again_def busy_pcd_def up_rule_def killed_def)
  with st1(1) r st'(1) show ?thesis by blast
qed

end
