(* ===== verification/PcdChild.thy ===== *)
theory PcdChild imports CStrings PcdTypes begin

text \<open>
  What a forked child does before it becomes the program of its rule, the first branch of
  \<open>PCD_process_spawn\<close> in \<open>process.c\<close>: the command line is split into words, variables in it are replaced
  by the contents of a file or of the environment, output is redirected, and priority and user are set.

  Arguments are pointers: into the command line, which \<open>strtok\<close> has cut into words, or into the local
  buffer \<open>vars\<close>, whose contents still change while other words are handled.  They are read when
  \<open>execvp\<close> is called.  The buffer is a list of 256 characters, an access outside it is \<open>OutOfBounds\<close>.
\<close>

section \<open>State\<close>

definition PCD_PROCESS_MAX_PARAMS :: nat where "PCD_PROCESS_MAX_PARAMS = 32"
definition PCD_PROCESS_WHITE_SPACES :: string where "PCD_PROCESS_WHITE_SPACES = [CHR '' '', TAB, LF, CHR 0x0D]"
definition MAX_PARAM_SIZE :: nat where "MAX_PARAM_SIZE = 256"
definition VAR_NAME_SIZE :: nat where "VAR_NAME_SIZE = 64"

text \<open>\<open>Unset\<close> is an entry of the array that no statement has written.\<close>

datatype arg = Word string | InVars nat | Unset

record child =
  c_args :: "arg list"
  vars :: string
  varsIdx :: u32
  redirect :: "string option"

text \<open>The files of the directory for temporary files, as far as they can be read, and the environment.\<close>

record child_env =
  temp_file :: "string \<Rightarrow> string option"
  getenv :: "string \<Rightarrow> string option"

section \<open>The buffer\<close>

definition write_from :: "nat \<Rightarrow> string \<Rightarrow> string \<Rightarrow> string run" where
  "write_from k s buf = (if k + length s \<le> length buf then Inr (take k buf @ s @ drop (k + length s) buf)
     else Inl OutOfBounds)"

text \<open>\<open>strncpy\<close> pads with NUL up to the given length.\<close>

definition strncpy_at :: "nat \<Rightarrow> string \<Rightarrow> nat \<Rightarrow> string \<Rightarrow> string run" where
  "strncpy_at k s n buf = (if n \<le> length buf then write_from k (take n s @ replicate (n - length s) NUL) buf
     else Inl OutOfBounds)"

definition cstr :: "nat \<Rightarrow> string \<Rightarrow> string run" where
  "cstr k buf = (if NUL \<in> set (drop k buf) then Inr (takeWhile (\<lambda>c. c \<noteq> NUL) (drop k buf)) else Inl OutOfBounds)"

definition strncat_at :: "nat \<Rightarrow> string \<Rightarrow> nat \<Rightarrow> string \<Rightarrow> string run" where
  "strncat_at k s n buf = bind_run (cstr k buf) (\<lambda>old. write_from (k + length old) (take n s @ [NUL]) buf)"

definition put_nul :: "nat \<Rightarrow> string \<Rightarrow> string run" where
  "put_nul k buf = write_from k [NUL] buf"

text \<open>\<open>strpbrk( env, PCD_PROCESS_WHITE_SPACES )\<close>: the position of the first white space of the string at \<open>k\<close>.\<close>

definition white_at :: "nat \<Rightarrow> string \<Rightarrow> nat option run" where
  "white_at k buf = bind_run (cstr k buf) (\<lambda>s. let n = length (cspan PCD_PROCESS_WHITE_SPACES s) in
     Inr (if n < length s then Some (k + n) else None))"

text \<open>\<open>CONFIG_PCD_MAX_PARAM_SIZE - varsIdx - 1\<close>, in unsigned arithmetic.\<close>

definition space_left :: "u32 \<Rightarrow> nat" where
  "space_left idx = unat (of_nat MAX_PARAM_SIZE - idx - 1)"

section \<open>A word with a variable\<close>

text \<open>
  The name of the variable in the text after the dollar sign, and what follows the closing brace.
  Without braces the buffer for the name is never written; a name that is too long ends the word.
\<close>

datatype var_ref = NoName | LongName | Name string string

definition var_name :: "string \<Rightarrow> var_ref" where
  "var_name s = (case s of [] \<Rightarrow> NoName | c # t \<Rightarrow>
     if c \<noteq> CHR ''{'' then NoName
     else case after_char (CHR ''}'') t of None \<Rightarrow> NoName
     | Some rest \<Rightarrow> if length (cut_at (CHR ''}'') t) \<ge> VAR_NAME_SIZE then LongName
         else Name (cut_at (CHR ''}'') t) rest)"

text \<open>The value: up to 255 characters, up to the first NUL.\<close>

definition value_of :: "string \<Rightarrow> string" where
  "value_of s = cut_at NUL (take (MAX_PARAM_SIZE - 1) s)"

definition find_value :: "child_env \<Rightarrow> string \<Rightarrow> string option" where
  "find_value e name = (case temp_file e name of
      Some content \<Rightarrow> if content \<noteq> [] then Some (value_of content) else map_option value_of (getenv e name)
    | None \<Rightarrow> map_option value_of (getenv e name))"

text \<open>What follows the variable in its word is appended to an argument in the buffer.\<close>

definition append_rest :: "string \<Rightarrow> nat \<Rightarrow> child \<Rightarrow> child run" where
  "append_rest rest k c = bind_run (strncat_at k rest (space_left (varsIdx c)) (vars c)) (\<lambda>b.
     Inr (c\<lparr>vars := b, varsIdx := varsIdx c + of_nat (length rest)\<rparr>))"

text \<open>
  The loop that makes an argument of each word of the value, with \<open>i\<close> the index of the next argument;
  it ends by its \<open>break\<close>s, after which the caller advances \<open>i\<close>, or by its bound, after which the
  caller advances it past an entry that was not written.
\<close>

function value_args :: "string \<Rightarrow> nat \<Rightarrow> nat \<Rightarrow> nat option \<Rightarrow> child \<Rightarrow> child run" where
  "value_args rest i env var c =
     (if i \<ge> PCD_PROCESS_MAX_PARAMS then Inr (c\<lparr>c_args := c_args c @ [Unset]\<rparr>)
      else let c = c\<lparr>c_args := c_args c @ [InVars env]\<rparr> in
      case var of
        None \<Rightarrow> append_rest rest env c
      | Some v \<Rightarrow> let next = v + 1 in
          bind_run (white_at next (vars c)) (\<lambda>w. case w of
            Some v' \<Rightarrow> bind_run (put_nul v' (vars c)) (\<lambda>b. value_args rest (i + 1) next (Some v') (c\<lparr>vars := b\<rparr>))
          | None \<Rightarrow> bind_run (cstr next (vars c)) (\<lambda>s.
              if s = [] then append_rest rest env c else value_args rest (i + 1) next None c)))"
  by pat_completeness auto
termination by (relation "measure (\<lambda>(rest, i, env, var, c). PCD_PROCESS_MAX_PARAMS - i)") auto

declare value_args.simps [simp del]

definition args_next :: "child \<Rightarrow> nat" where
  "args_next c = 2 + length (c_args c)"

definition clamp_idx :: "u32 \<Rightarrow> u32" where
  "clamp_idx idx = (if idx \<ge> of_nat MAX_PARAM_SIZE - 1 then of_nat MAX_PARAM_SIZE - 1 else idx)"

text \<open>The index advances by the length of the first string of the buffer, not of the new one.\<close>

definition put_value :: "string \<Rightarrow> string \<Rightarrow> child \<Rightarrow> child run" where
  "put_value s rest c =
     (let env = unat (varsIdx c) in
      bind_run (strncpy_at env s (space_left (varsIdx c)) (vars c)) (\<lambda>b.
      bind_run (cstr 0 b) (\<lambda>first.
      let idx = clamp_idx (varsIdx c + of_nat (length first) + 1) in
      bind_run (white_at env b) (\<lambda>var.
      bind_run (case var of None \<Rightarrow> Inr b | Some v \<Rightarrow> put_nul v b) (\<lambda>b.
      value_args rest (args_next c) env var (c\<lparr>vars := b, varsIdx := idx\<rparr>))))))"

definition variable_word :: "child_env \<Rightarrow> string \<Rightarrow> child \<Rightarrow> child run" where
  "variable_word e s c = (case var_name s of
      NoName \<Rightarrow> Inl Uninitialised
    | LongName \<Rightarrow> Inr c
    | Name name rest \<Rightarrow> (case find_value e name of
        None \<Rightarrow> Inr c
      | Some v \<Rightarrow> put_value v rest c))"

section \<open>The command line\<close>

lemma strtok_less: "strtok ds s = (Some t, s') \<Longrightarrow> length s' < length s"
proof -
  assume a: "strtok ds s = (Some t, s')"
  have "length (skip_cspan ds x) \<le> length x" "length (skip_span ds x) \<le> length x" for x
    by (simp_all add: skip_cspan_def skip_span_def length_dropWhile_le)
  note l = this(1) [of "skip_span ds s"] this(2) [of s]
  from a have "0 < length (skip_span ds s)" "s' = drop 1 (skip_cspan ds (skip_span ds s))"
    by (auto simp: strtok_def Let_def split: if_splits)
  with l have "length s' \<le> length (skip_cspan ds (skip_span ds s)) - 1" "0 < length (skip_span ds s)" by simp_all
  with l show ?thesis by linarith
qed

lemma strtok_none: "strtok ds s = (None, s') \<Longrightarrow> s' = []"
  by (auto simp: strtok_def Let_def split: if_splits)

text \<open>\<open>s\<close> is what \<open>strtok\<close> has left.\<close>

function words_loop :: "child_env \<Rightarrow> string \<Rightarrow> child \<Rightarrow> child run" where
  "words_loop e s c = (case strtok PCD_PROCESS_WHITE_SPACES s of
      (None, _) \<Rightarrow> Inr c
    | (Some token, s) \<Rightarrow>
        if args_next c \<ge> PCD_PROCESS_MAX_PARAMS then Inr c
        else case after_char (CHR ''$'') token of
          Some v \<Rightarrow> bind_run (variable_word e v c) (words_loop e s)
        | None \<Rightarrow> if CHR ''>'' \<in> set token
            then (case strtok PCD_PROCESS_WHITE_SPACES s of
                (None, _) \<Rightarrow> Inr c
              | (Some target, s) \<Rightarrow> words_loop e s (c\<lparr>redirect := Some target\<rparr>))
            else words_loop e s (c\<lparr>c_args := c_args c @ [Word token]\<rparr>))"
  by pat_completeness auto
termination
proof (relation "measure (\<lambda>(e, s, c). length s)", goal_cases)
  case 1
  show ?case by simp
qed (auto dest!: sym [of "(Some _, _)"] strtok_less)

declare words_loop.simps [simp del]

definition start_child :: child where
  "start_child = \<lparr>c_args = [], vars = replicate MAX_PARAM_SIZE NUL, varsIdx = 0, redirect = None\<rparr>"

text \<open>The text of the parameters: those of a request, or those of the rule.\<close>

definition child_params :: "rule \<Rightarrow> string option run" where
  "child_params r = (case optionalParams r of
      Some p \<Rightarrow> if length p < MAX_PARAM_SIZE then Inr (Some p) else Inl OutOfBounds
    | None \<Rightarrow> (case params r of Some p \<Rightarrow> Inr (Some (take (MAX_PARAM_SIZE - 1) p)) | None \<Rightarrow> Inr None))"

text \<open>What \<open>execvp\<close> reads through the arguments.\<close>

fun read_arg :: "string \<Rightarrow> arg \<Rightarrow> string run" where
  "read_arg buf (Word s) = Inr s"
| "read_arg buf (InVars k) = cstr k buf"
| "read_arg buf Unset = Inl Uninitialised"

fun read_args :: "string \<Rightarrow> arg list \<Rightarrow> string list run" where
  "read_args buf [] = Inr []"
| "read_args buf (a # as) = bind_run (read_arg buf a) (\<lambda>s. bind_run (read_args buf as) (\<lambda>ss. Inr (s # ss)))"

datatype sched_call = SCHED_OTHER u32 | SCHED_FIFO int

record program =
  p_file :: string
  p_args :: "string list"
  p_stdout :: "string option"
  p_sched :: "sched_call option"
  p_uid :: "u32 option"

definition child_sched :: "bool \<Rightarrow> rule \<Rightarrow> sched_call option" where
  "child_sched getparam_ok r = (if \<not> getparam_ok then None
     else Some (case sched r of PCD_SCHED_TYPE_NICE w \<Rightarrow> SCHED_OTHER w | PCD_SCHED_TYPE_FIFO p \<Rightarrow> SCHED_FIFO p))"

text \<open>The whole branch; the terminating NULL of the arguments is the last entry that is written.\<close>

definition spawn_child :: "child_env \<Rightarrow> bool \<Rightarrow> rule \<Rightarrow> program run" where
  "spawn_child e getparam_ok r =
     bind_run (child_params r) (\<lambda>ps.
     bind_run (case ps of None \<Rightarrow> Inr start_child | Some s \<Rightarrow> words_loop e s start_child) (\<lambda>c.
     if args_next c \<ge> PCD_PROCESS_MAX_PARAMS + 3 then Inl OutOfBounds
     else bind_run (deref (command r)) (\<lambda>cmd.
     bind_run (read_args (vars c) (c_args c)) (\<lambda>ss.
     Inr \<lparr>p_file = cmd, p_args = cmd # ss, p_stdout = redirect c, p_sched = child_sched getparam_ok r,
       p_uid = (if uid r \<noteq> 0 then Some (uid r) else None)\<rparr>))))"

end
