(* ===== verification/PcdChildArgs.thy ===== *)
theory PcdChildArgs imports PcdChild begin

text \<open>
  The arguments that a child gets: the command line as a list of words, the effect of a variable on
  the buffer, and where the buffer is used wrongly.
\<close>

section \<open>Words\<close>

function tokens :: "string \<Rightarrow> string list" where
  "tokens s = (case strtok PCD_PROCESS_WHITE_SPACES s of (None, _) \<Rightarrow> [] | (Some t, s') \<Rightarrow> t # tokens s')"
  by pat_completeness auto
termination by (relation "measure length") (auto dest!: sym [of "(Some _, _)"] strtok_less)

declare tokens.simps [simp del]

text \<open>The loop over the words of the command line.\<close>

fun token_loop :: "child_env \<Rightarrow> string list \<Rightarrow> child \<Rightarrow> child run" where
  "token_loop e [] c = Inr c"
| "token_loop e (t # ts) c =
     (if args_next c \<ge> PCD_PROCESS_MAX_PARAMS then Inr c
      else case after_char (CHR ''$'') t of
        Some v \<Rightarrow> bind_run (variable_word e v c) (token_loop e ts)
      | None \<Rightarrow> if CHR ''>'' \<in> set t
          then (case ts of [] \<Rightarrow> Inr c | target # ts \<Rightarrow> token_loop e ts (c\<lparr>redirect := Some target\<rparr>))
          else token_loop e ts (c\<lparr>c_args := c_args c @ [Word t]\<rparr>))"

lemma words_loop_tokens: "words_loop e s c = token_loop e (tokens s) c"
proof (induction s arbitrary: c rule: length_induct)
  case (1 s)
  obtain t s' where st: "strtok PCD_PROCESS_WHITE_SPACES s = (t, s')" by force
  show ?case
  proof (cases t)
    case None
    with st show ?thesis by (simp add: words_loop.simps [of e s] tokens.simps [of s])
  next
    case (Some token)
    have l: "length s' < length s" using st Some strtok_less by blast
    then have IH: "words_loop e s' = token_loop e (tokens s')" using 1 by blast
    obtain u r where su: "strtok PCD_PROCESS_WHITE_SPACES s' = (u, r)" by force
    show ?thesis
    proof (cases u)
      case None
      then have "tokens s' = []" using su by (simp add: tokens.simps [of s'])
      with st Some su None IH show ?thesis by (simp add: words_loop.simps [of e s] tokens.simps [of s] split: option.split)
    next
      case (Some target)
      have "length r < length s" using strtok_less su Some l by (meson order.strict_trans)
      then have "words_loop e r d = token_loop e (tokens r) d" for d using 1 by blast
      moreover have "tokens s' = target # tokens r" using su Some by (simp add: tokens.simps [of s'])
      ultimately show ?thesis using st \<open>t = Some token\<close> su Some IH
        by (simp add: words_loop.simps [of e s] tokens.simps [of s] split: option.split)
    qed
  qed
qed

lemma token_loop_words:
  assumes "\<forall>t \<in> set ts. CHR ''$'' \<notin> set t \<and> CHR ''>'' \<notin> set t" and "args_next c + length ts \<le> PCD_PROCESS_MAX_PARAMS"
  shows "token_loop e (ts @ us) c = token_loop e us (c\<lparr>c_args := c_args c @ map Word ts\<rparr>)"
  using assms by (induction ts arbitrary: c) (simp_all add: after_char_def args_next_def)

section \<open>The buffer\<close>

definition pad :: "string \<Rightarrow> string" where
  "pad s = s @ replicate (MAX_PARAM_SIZE - length s) NUL"

lemma cstr_at: "NUL \<notin> set s \<Longrightarrow> cstr (length pre) (pre @ s @ NUL # rest) = Inr s"
  by (simp add: cstr_def) (induction s; auto)

lemma pad_nul: "length s < MAX_PARAM_SIZE \<Longrightarrow> pad s = s @ NUL # replicate (MAX_PARAM_SIZE - Suc (length s)) NUL"
  by (simp add: pad_def Suc_diff_Suc flip: replicate_Suc)

lemma cstr_pad: "NUL \<notin> set s \<Longrightarrow> length pre + length s < MAX_PARAM_SIZE \<Longrightarrow> cstr (length pre) (pad (pre @ s)) = Inr s"
  using cstr_at [of s pre] by (simp add: pad_nul)

lemma pad_length: "length s \<le> MAX_PARAM_SIZE \<Longrightarrow> length (pad s) = MAX_PARAM_SIZE"
  by (simp add: pad_def)

text \<open>\<open>strncpy\<close> up to the last character but one, behind \<open>pre\<close>.\<close>

lemma strncpy_pad:
  assumes "length buf = MAX_PARAM_SIZE" and "buf ! (MAX_PARAM_SIZE - 1) = NUL" and "take k buf = pre" and "length pre = k"
    and "k + length s < MAX_PARAM_SIZE"
  shows "strncpy_at k s (MAX_PARAM_SIZE - 1 - k) buf = Inr (pad (pre @ s))"
proof -
  have "drop (MAX_PARAM_SIZE - 1) buf = [NUL]"
    using assms(1,2) by (metis Cons_nth_drop_Suc MAX_PARAM_SIZE_def One_nat_def Suc_diff_1 diff_less drop_all le_refl zero_less_numeral zero_less_one)
  moreover have "pad (pre @ s) = pre @ (s @ replicate (MAX_PARAM_SIZE - 1 - k - length s) NUL) @ [NUL]"
  proof -
    have "MAX_PARAM_SIZE - length (pre @ s) = Suc (MAX_PARAM_SIZE - 1 - k - length s)" using assms(4,5) by simp
    then show ?thesis by (simp add: pad_def replicate_append_same flip: replicate_Suc)
  qed
  ultimately show ?thesis using assms by (simp add: strncpy_at_def write_from_def)
qed

lemma strncat_pad:
  assumes "NUL \<notin> set s" and "length pre + length s + length r < MAX_PARAM_SIZE" and "length r \<le> n"
  shows "strncat_at (length pre) r n (pad (pre @ s)) = Inr (pad (pre @ s @ r))"
proof -
  have c: "cstr (length pre) (pad (pre @ s)) = Inr s" using assms(1,2) by (intro cstr_pad) simp_all
  let ?k = "length pre + length s"
  have d: "drop (?k + Suc (length r)) (pad (pre @ s)) = replicate (MAX_PARAM_SIZE - (?k + Suc (length r))) NUL"
    by (simp add: pad_def)
  have "pad (pre @ s @ r) = pre @ s @ r @ NUL # replicate (MAX_PARAM_SIZE - (?k + Suc (length r))) NUL"
    using pad_nul [of "pre @ s @ r"] assms(2) by (simp add: add.assoc)
  moreover have "length (pad (pre @ s)) = MAX_PARAM_SIZE" using assms(2) by (simp add: pad_length)
  moreover have "take ?k (pad (pre @ s)) = pre @ s" by (simp add: pad_def)
  ultimately show ?thesis using c d assms(2,3) by (simp add: strncat_at_def write_from_def)
qed

section \<open>A variable\<close>

text \<open>A text that is one word.\<close>

definition one_word :: "string \<Rightarrow> bool" where
  "one_word s \<longleftrightarrow> NUL \<notin> set s \<and> set PCD_PROCESS_WHITE_SPACES \<inter> set s = {}"

lemma space_left_less: "unat idx < MAX_PARAM_SIZE \<Longrightarrow> space_left idx = MAX_PARAM_SIZE - 1 - unat idx"
proof -
  assume "unat idx < MAX_PARAM_SIZE"
  then have "idx \<le> 255" by (simp add: word_le_nat_alt MAX_PARAM_SIZE_def)
  then have "unat (255 - idx) = 255 - unat idx" by (simp add: unat_sub)
  then show ?thesis by (simp add: space_left_def MAX_PARAM_SIZE_def)
qed

text \<open>The buffer of a child that has handled the variables so far: NUL from some position on.\<close>

definition buf_ok :: "child \<Rightarrow> string \<Rightarrow> bool" where
  "buf_ok c pre \<longleftrightarrow> length (vars c) = MAX_PARAM_SIZE \<and> vars c ! (MAX_PARAM_SIZE - 1) = NUL \<and> unat (varsIdx c) = length pre
     \<and> take (length pre) (vars c) = pre"

lemma clamp_same: "unat i < MAX_PARAM_SIZE \<Longrightarrow> clamp_idx i = i"
proof (cases "255 \<le> i")
  case True
  assume "unat i < MAX_PARAM_SIZE"
  with True have "unat i = unat (255 :: u32)" by (simp add: word_le_nat_alt MAX_PARAM_SIZE_def)
  then have "i = 255" using word_unat_eq_iff by blast
  then show ?thesis by (simp add: clamp_idx_def MAX_PARAM_SIZE_def)
qed (simp add: clamp_idx_def MAX_PARAM_SIZE_def)

section \<open>Values of several words\<close>

text \<open>
  The words of a value: it is cut at every white space, so that neighbouring white spaces enclose an
  empty word; only an empty word at the end is left out.
\<close>

function value_fields :: "string \<Rightarrow> string list" where
  "value_fields s = (let f = cspan PCD_PROCESS_WHITE_SPACES s; g = drop (Suc (length f)) s in
     if g = [] then [f] else f # value_fields g)"
  by pat_completeness auto
termination by (relation "measure length") auto

declare value_fields.simps [simp del]

text \<open>The last word with what follows the variable.\<close>

fun with_rest :: "string list \<Rightarrow> string \<Rightarrow> string list" where
  "with_rest [] r = []"
| "with_rest [f] r = [f @ r]"
| "with_rest (f # fs) r = f # with_rest fs r"

lemma with_rest_Cons: "fs \<noteq> [] \<Longrightarrow> with_rest (f # fs) r = f # with_rest fs r"
  by (cases fs) simp_all

lemma value_fields_not_Nil [simp]: "value_fields s \<noteq> []"
  by (subst value_fields.simps) (simp add: Let_def)

lemma cspan_split: "cspan ds s \<noteq> s \<Longrightarrow> \<exists>w. s = cspan ds s @ w # drop (Suc (length (cspan ds s))) s"
  by (induction s) (auto simp: cspan_def)

lemma cspan_set: "set (cspan ds s) \<subseteq> set s"
  by (auto simp: cspan_def dest: set_takeWhileD)

text \<open>The buffer and the position of the first white space when an argument at \<open>pre\<close> has been found.\<close>

definition cut_buf :: "string \<Rightarrow> string \<Rightarrow> string" where
  "cut_buf pre s = (let f = cspan PCD_PROCESS_WHITE_SPACES s in
     if f = s then pad (pre @ s) else pad (pre @ f @ NUL # drop (Suc (length f)) s))"

definition cut_pos :: "string \<Rightarrow> string \<Rightarrow> nat option" where
  "cut_pos pre s = (let f = cspan PCD_PROCESS_WHITE_SPACES s in if f = s then None else Some (length pre + length f))"

lemma cspan_less: "cspan ds s \<noteq> s \<Longrightarrow> length (cspan ds s) < length s"
  by (metis cspan_def length_takeWhile_le nat_less_le takeWhile_eq_take take_all)

lemma white_at_pad:
  assumes "NUL \<notin> set s" and "length pre + length s < MAX_PARAM_SIZE"
  shows "white_at (length pre) (pad (pre @ s)) = Inr (cut_pos pre s)"
proof -
  have "length (cspan PCD_PROCESS_WHITE_SPACES s) < length s \<longleftrightarrow> cspan PCD_PROCESS_WHITE_SPACES s \<noteq> s"
    using cspan_less by fastforce
  then show ?thesis using cstr_pad [OF assms] by (simp add: white_at_def cut_pos_def Let_def)
qed

lemma put_nul_pad:
  assumes "length (pre @ f @ w # g) < MAX_PARAM_SIZE"
  shows "put_nul (length pre + length f) (pad (pre @ f @ w # g)) = Inr (pad (pre @ f @ NUL # g))"
  using assms by (simp add: put_nul_def write_from_def pad_def)

lemma cut_done:
  assumes "length pre + length s < MAX_PARAM_SIZE"
  shows "(case cut_pos pre s of None \<Rightarrow> Inr (pad (pre @ s)) | Some v \<Rightarrow> put_nul v (pad (pre @ s))) = Inr (cut_buf pre s)"
proof (cases "cspan PCD_PROCESS_WHITE_SPACES s = s")
  case False
  then obtain w where s: "s = cspan PCD_PROCESS_WHITE_SPACES s @ w # drop (Suc (length (cspan PCD_PROCESS_WHITE_SPACES s))) s"
    (is "s = ?f @ w # ?g") using cspan_split by blast
  have "put_nul (length pre + length ?f) (pad (pre @ ?f @ w # ?g)) = Inr (pad (pre @ ?f @ NUL # ?g))"
    using assms s by (intro put_nul_pad) (metis length_append)
  then have "put_nul (length pre + length ?f) (pad (pre @ s)) = Inr (pad (pre @ ?f @ NUL # ?g))" using s by argo
  with False show ?thesis by (simp add: cut_pos_def cut_buf_def Let_def)
qed (simp add: cut_pos_def cut_buf_def Let_def)

lemma append_rest_pad:
  assumes "vars c = pad (pre @ s)" and "NUL \<notin> set s" and "length pre + length s + length (take (space_left (varsIdx c)) rest) < MAX_PARAM_SIZE"
  shows "append_rest rest (length pre) c
    = Inr (c\<lparr>vars := pad (pre @ s @ take (space_left (varsIdx c)) rest), varsIdx := varsIdx c + of_nat (length rest)\<rparr>)"
proof -
  let ?n = "space_left (varsIdx c)"
  have "strncat_at (length pre) rest ?n (vars c) = strncat_at (length pre) (take ?n rest) ?n (pad (pre @ s))"
    by (simp add: strncat_at_def assms(1))
  also have "\<dots> = Inr (pad (pre @ s @ take ?n rest))" by (rule strncat_pad [OF assms(2,3)]) simp
  finally show ?thesis by (simp add: append_rest_def)
qed

text \<open>The loop over the words of the value makes an argument of each of them.\<close>

lemma value_args_fields:
  assumes "NUL \<notin> set s" and "NUL \<notin> set rest" and "length pre + length s + length (take (space_left (varsIdx c)) rest) < MAX_PARAM_SIZE"
    and "i + length (value_fields s) \<le> PCD_PROCESS_MAX_PARAMS" and "vars c = cut_buf pre s"
  shows "\<exists>as B. value_args rest i (length pre) (cut_pos pre s) c
      = Inr (c\<lparr>c_args := c_args c @ as, vars := B, varsIdx := varsIdx c + of_nat (length rest)\<rparr>)
    \<and> length as = length (value_fields s) \<and> length B = MAX_PARAM_SIZE \<and> take (length pre) B = pre
    \<and> read_args B as = Inr (with_rest (value_fields s) (take (space_left (varsIdx c)) rest))"
  using assms
proof (induction s arbitrary: pre i c rule: value_fields.induct)
  case (1 s)
  let ?f = "cspan PCD_PROCESS_WHITE_SPACES s"
  let ?g = "drop (Suc (length ?f)) s"
  let ?r = "take (space_left (varsIdx c)) rest"
  let ?c = "c\<lparr>c_args := c_args c @ [InVars (length pre)]\<rparr>"
  have i: "i < PCD_PROCESS_MAX_PARAMS" using 1(5) value_fields_not_Nil [of s] by (cases "value_fields s") auto
  have nf: "NUL \<notin> set ?f" using 1(2) cspan_set by blast
  have nr: "NUL \<notin> set ?r" using 1(3) by (meson in_set_takeD)
  have lf: "length ?f \<le> length s" by (simp add: cspan_def length_takeWhile_le)
  have last: ?case if one: "value_fields s = [?f]" and b: "vars c = pad (pre @ ?f)"
    and run: "value_args rest i (length pre) (cut_pos pre s) c = append_rest rest (length pre) ?c"
  proof -
    let ?B = "pad (pre @ ?f @ ?r)"
    have fits: "length pre + length ?f + length ?r < MAX_PARAM_SIZE" using 1(4) lf by simp
    have "append_rest rest (length pre) ?c = Inr (?c\<lparr>vars := ?B, varsIdx := varsIdx c + of_nat (length rest)\<rparr>)"
      using append_rest_pad [of ?c pre ?f rest] b nf fits by simp
    moreover have "cstr (length pre) ?B = Inr (?f @ ?r)" using cstr_pad [of "?f @ ?r" pre] nf nr fits by simp
    moreover have "length ?B = MAX_PARAM_SIZE" using fits by (intro pad_length) simp
    ultimately show ?thesis unfolding one run
      by (intro exI [of _ "[InVars (length pre)]"] exI [of _ ?B]) (simp add: pad_def)
  qed
  show ?case
  proof (cases "?f = s")
    case True
    then have "?g = []" by simp
    then have "value_fields s = [?f]" by (subst value_fields.simps) (simp add: Let_def)
    moreover have "vars c = pad (pre @ ?f)" using 1(6) True by (simp add: cut_buf_def)
    moreover have "value_args rest i (length pre) (cut_pos pre s) c = append_rest rest (length pre) ?c"
      using i True by (subst value_args.simps) (simp add: Let_def cut_pos_def)
    ultimately show ?thesis by (rule last)
  next
    case False
    define f g where f: "f = ?f" and g: "g = ?g"
    have g': "g = drop (Suc (length f)) s" by (simp add: f g)
    let ?pre = "pre @ f @ [NUL]"
    have fg: "length s = Suc (length f + length g)" using cspan_less [OF False] by (simp add: f g)
    have b: "vars c = pad (?pre @ g)" using 1(6) False by (simp add: cut_buf_def Let_def f g)
    have ng: "NUL \<notin> set g" unfolding g using 1(2) by (meson in_set_dropD)
    have fits: "length ?pre + length g < MAX_PARAM_SIZE" using 1(4) fg by simp
    have pos: "cut_pos pre s = Some (length pre + length f)" using False by (simp add: cut_pos_def f)
    note w = white_at_pad [OF ng fits] and z = cstr_pad [OF ng fits] and cut = cut_done [OF fits]
    have l: "length ?pre = length pre + length f + 1" by simp
    show ?thesis
    proof (cases "g = []")
      case True
      then have "value_fields s = [?f]" using g by (subst value_fields.simps) (simp add: Let_def)
      moreover have "length (pre @ f) < MAX_PARAM_SIZE" using 1(4) fg by simp
      then have "vars c = pad (pre @ ?f)" using b True pad_nul [of "pre @ f"] pad_def [of ?pre] by (simp add: f)
      moreover have "cut_pos ?pre g = None" using True by (simp add: cut_pos_def cspan_def)
      then have "value_args rest i (length pre) (cut_pos pre s) c = append_rest rest (length pre) ?c"
        using i w z b unfolding pos l by (subst value_args.simps) (simp add: Let_def True)
      ultimately show ?thesis by (rule last)
    next
      case more: False
      then have vf: "value_fields s = f # value_fields g" unfolding f g by (subst value_fields.simps) (simp add: Let_def)
      let ?c1 = "?c\<lparr>vars := cut_buf ?pre g\<rparr>"
      have "\<exists>as B. value_args rest (i + 1) (length ?pre) (cut_pos ?pre g) ?c1
          = Inr (?c1\<lparr>c_args := c_args ?c1 @ as, vars := B, varsIdx := varsIdx ?c1 + of_nat (length rest)\<rparr>)
        \<and> length as = length (value_fields g) \<and> length B = MAX_PARAM_SIZE \<and> take (length ?pre) B = ?pre
        \<and> read_args B as = Inr (with_rest (value_fields g) (take (space_left (varsIdx ?c1)) rest))"
        by (rule 1(1) [OF f g' more ng 1(3)]) (use 1(4,5) vf fg in simp_all)
      then obtain as B where IH: "value_args rest (i + 1) (length ?pre) (cut_pos ?pre g) ?c1
          = Inr (c\<lparr>c_args := c_args c @ InVars (length pre) # as, vars := B, varsIdx := varsIdx c + of_nat (length rest)\<rparr>)"
        "length as = length (value_fields g)" "length B = MAX_PARAM_SIZE" "take (length ?pre) B = ?pre"
        "read_args B as = Inr (with_rest (value_fields g) ?r)" by auto
      have "value_args rest i (length pre) (cut_pos pre s) c = value_args rest (i + 1) (length ?pre) (cut_pos ?pre g) ?c1"
      proof (cases "cut_pos ?pre g")
        case None
        then have "cut_buf ?pre g = vars c" unfolding b by (simp add: cut_pos_def cut_buf_def Let_def split: if_splits)
        then have "?c1 = ?c" by simp
        with None i w z b more show ?thesis unfolding pos l by (subst value_args.simps) (simp add: Let_def)
      next
        case (Some v)
        with i w cut b show ?thesis unfolding pos l by (subst value_args.simps) (simp add: Let_def)
      qed
      moreover have "B = pre @ f @ NUL # drop (length ?pre) B" using IH(4) append_take_drop_id [of "length ?pre" B] by simp
      then have "cstr (length pre) B = Inr f" "take (length pre) B = pre"
        using cstr_at [OF nf] f by (metis, metis append_eq_conv_conj)
      ultimately show ?thesis using IH unfolding vf
        by (intro exI [of _ "InVars (length pre) # as"] exI [of _ B]) (simp add: with_rest_Cons)
    qed
  qed
qed

section \<open>The effect of a variable\<close>

text \<open>
  The buffer has room for the value; what follows the variable is cut to the space that the index
  leaves, but the index advances by all of it.
\<close>

definition fits_at :: "string \<Rightarrow> string \<Rightarrow> string \<Rightarrow> string \<Rightarrow> nat \<Rightarrow> bool" where
  "fits_at pre v r f n \<longleftrightarrow> NUL \<notin> set v \<and> NUL \<notin> set r \<and> cstr 0 (pad (pre @ v)) = Inr f \<and> length pre + length f + 1 < MAX_PARAM_SIZE
     \<and> n = MAX_PARAM_SIZE - 1 - (length pre + length f + 1) \<and> length pre + length v + length (take n r) < MAX_PARAM_SIZE
     \<and> length r < MAX_PARAM_SIZE"

lemma put_value_start:
  assumes ok: "buf_ok c pre" and fits: "fits_at pre v r f n"
  shows "put_value v r c = value_args r (args_next c) (length pre) (cut_pos pre v)
      (c\<lparr>vars := cut_buf pre v, varsIdx := of_nat (length pre + length f + 1)\<rparr>)"
    "space_left (of_nat (length pre + length f + 1)) = n"
    "unat (of_nat (length pre + length f + 1) + of_nat (length r) :: u32) = length pre + length f + 1 + length r"
proof -
  let ?m = "length pre + length f + 1"
  let ?i = "of_nat ?m :: u32"
  from ok have c: "length (vars c) = MAX_PARAM_SIZE" "vars c ! (MAX_PARAM_SIZE - 1) = NUL" "unat (varsIdx c) = length pre"
    "take (length pre) (vars c) = pre" by (simp_all add: buf_ok_def)
  from fits have f: "NUL \<notin> set v" "cstr 0 (pad (pre @ v)) = Inr f" "?m < MAX_PARAM_SIZE" "n = MAX_PARAM_SIZE - 1 - ?m"
    "length pre + length v < MAX_PARAM_SIZE" "length r < MAX_PARAM_SIZE" by (simp_all add: fits_at_def)
  have s0: "space_left (varsIdx c) = MAX_PARAM_SIZE - 1 - length pre" using space_left_less [of "varsIdx c"] f(5) c(3) by simp
  have cp: "strncpy_at (length pre) v (space_left (varsIdx c)) (vars c) = Inr (pad (pre @ v))"
    unfolding s0 using f(5) by (intro strncpy_pad c refl)
  have "of_nat (unat (varsIdx c)) = varsIdx c" by simp
  then have "of_nat (length pre) = varsIdx c" unfolding c(3) .
  then have i: "varsIdx c + of_nat (length f) + 1 = ?i" by (simp add: ac_simps)
  have u: "unat ?i = ?m" using f(3) by (intro unat_u32) (simp add: MAX_PARAM_SIZE_def)
  have cl: "clamp_idx (varsIdx c + of_nat (length f) + 1) = ?i" unfolding i using f(3) u by (intro clamp_same) simp
  show "put_value v r c = value_args r (args_next c) (length pre) (cut_pos pre v) (c\<lparr>vars := cut_buf pre v, varsIdx := ?i\<rparr>)"
    using cp f(2) white_at_pad [OF f(1,5)] cut_done [OF f(5)] by (simp add: put_value_def Let_def c(3) cl)
  show "space_left ?i = n" using space_left_less [of ?i] u f(3,4) by simp
  have "unat (of_nat (?m + length r) :: u32) = ?m + length r" using f(3,6) by (intro unat_u32) (simp add: MAX_PARAM_SIZE_def)
  then show "unat (?i + of_nat (length r)) = ?m + length r" by (simp only: of_nat_add)
qed

text \<open>Each word of the value becomes an argument.\<close>

lemma put_value_fields:
  assumes ok: "buf_ok c pre" and fits: "fits_at pre v r f n" and room: "args_next c + length (value_fields v) \<le> PCD_PROCESS_MAX_PARAMS"
  shows "\<exists>c' as. put_value v r c = Inr c' \<and> c_args c' = c_args c @ as \<and> length as = length (value_fields v) \<and> redirect c' = redirect c
    \<and> length (vars c') = MAX_PARAM_SIZE \<and> read_args (vars c') as = Inr (with_rest (value_fields v) (take n r))
    \<and> unat (varsIdx c') = length pre + length f + 1 + length r"
proof -
  note start = put_value_start [OF ok fits]
  let ?c = "c\<lparr>vars := cut_buf pre v, varsIdx := of_nat (length pre + length f + 1)\<rparr>"
  have sl: "space_left (varsIdx ?c) = n" using start(2) by simp
  have len: "length pre + length v + length (take (space_left (varsIdx ?c)) r) < MAX_PARAM_SIZE"
    using fits unfolding fits_at_def sl by blast
  have "\<exists>as B. value_args r (args_next c) (length pre) (cut_pos pre v) ?c
      = Inr (?c\<lparr>c_args := c_args ?c @ as, vars := B, varsIdx := varsIdx ?c + of_nat (length r)\<rparr>)
    \<and> length as = length (value_fields v) \<and> length B = MAX_PARAM_SIZE \<and> take (length pre) B = pre
    \<and> read_args B as = Inr (with_rest (value_fields v) (take (space_left (varsIdx ?c)) r))"
    by (intro value_args_fields len) (use fits room in \<open>simp_all add: fits_at_def\<close>)
  with start(1,3) show ?thesis unfolding sl by auto
qed

text \<open>A value of one word.\<close>

lemma one_word_cut: "one_word v \<Longrightarrow> cut_pos pre v = None" "one_word v \<Longrightarrow> cut_buf pre v = pad (pre @ v)"
proof -
  assume "one_word v"
  then have "cspan PCD_PROCESS_WHITE_SPACES v = v" unfolding cspan_def one_word_def by (intro takeWhile_eq_all_conv [THEN iffD2]) auto
  then show "cut_pos pre v = None" "cut_buf pre v = pad (pre @ v)" by (simp_all add: cut_pos_def cut_buf_def)
qed

lemma put_value_word:
  assumes ok: "buf_ok c pre" and v: "one_word v" and r: "NUL \<notin> set r" and room: "args_next c < PCD_PROCESS_MAX_PARAMS"
    and first: "cstr 0 (pad (pre @ v)) = Inr f" and idx: "length pre + length f + 1 < MAX_PARAM_SIZE"
    and n: "n = MAX_PARAM_SIZE - 1 - (length pre + length f + 1)" and len: "length pre + length v + length (take n r) < MAX_PARAM_SIZE"
    and short: "length r < MAX_PARAM_SIZE"
  shows "\<exists>c'. put_value v r c = Inr c' \<and> c_args c' = c_args c @ [InVars (length pre)] \<and> redirect c' = redirect c
    \<and> vars c' = pad (pre @ v @ take n r) \<and> unat (varsIdx c') = length pre + length f + 1 + length r"
proof -
  have nv: "NUL \<notin> set v" using v by (simp add: one_word_def)
  then have "fits_at pre v r f n" using r first idx n len short by (simp add: fits_at_def)
  note start = put_value_start [OF ok this]
  let ?i = "of_nat (length pre + length f + 1) :: u32"
  let ?c = "c\<lparr>vars := pad (pre @ v), varsIdx := ?i, c_args := c_args c @ [InVars (length pre)]\<rparr>"
  have "put_value v r c = append_rest r (length pre) ?c"
    using room unfolding start(1) one_word_cut [OF v] by (subst value_args.simps) (simp add: Let_def)
  also have "\<dots> = Inr (?c\<lparr>vars := pad (pre @ v @ take n r), varsIdx := ?i + of_nat (length r)\<rparr>)"
    using append_rest_pad [of ?c pre v r] nv len start(2) by simp
  finally show ?thesis using start(3) by auto
qed

section \<open>Words with variables\<close>

definition var_token :: "string \<Rightarrow> string \<Rightarrow> string" where
  "var_token name post = CHR ''$'' # CHR ''{'' # name @ CHR ''}'' # post"

definition good_name :: "string \<Rightarrow> bool" where
  "good_name name \<longleftrightarrow> CHR ''}'' \<notin> set name \<and> length name < VAR_NAME_SIZE"

lemma after_char_append: "c \<notin> set a \<Longrightarrow> after_char c (a @ c # s) = Some s"
  by (induction a) (auto simp: after_char_def)

lemma cut_at_append: "c \<notin> set a \<Longrightarrow> cut_at c (a @ c # s) = a"
  by (induction a) (auto simp: cut_at_def)

lemma var_token_word:
  assumes "CHR ''$'' \<notin> set a" and "good_name name" and "find_value e name = Some v"
  shows "after_char (CHR ''$'') (a @ var_token name post) = Some (CHR ''{'' # name @ CHR ''}'' # post)"
    "variable_word e (CHR ''{'' # name @ CHR ''}'' # post) c = put_value v post c"
  using assms by (simp_all add: var_token_def after_char_append variable_word_def var_name_def cut_at_append good_name_def)

lemma start_buf: "buf_ok start_child []"
  by (simp add: buf_ok_def start_child_def MAX_PARAM_SIZE_def)

lemma read_args_append: "read_args buf (as @ bs) = bind_run (read_args buf as) (\<lambda>x. bind_run (read_args buf bs) (\<lambda>y. Inr (x @ y)))"
  by (induction as) (simp_all add: bind_run_assoc)

lemma read_args_words [simp]: "read_args buf (map Word ts) = Inr ts"
  by (induction ts) simp_all

lemma spawn_eq:
  assumes "child_params r = Inr (Some s)" and "command r = Some cmd" and "token_loop e (tokens s) start_child = Inr c"
    and "args_next c < PCD_PROCESS_MAX_PARAMS + 3" and "read_args (vars c) (c_args c) = Inr ss"
  shows "spawn_child e ok r = Inr \<lparr>p_file = cmd, p_args = cmd # ss, p_stdout = redirect c, p_sched = child_sched ok r,
    p_uid = (if uid r \<noteq> 0 then Some (uid r) else None)\<rparr>"
  using assms by (simp add: spawn_child_def words_loop_tokens)

end
