(* ===== verification/PcdChildSafe.thy ===== *)
theory PcdChildSafe imports PcdChildArgs begin

text \<open>
  The properties of the arguments of a child: the intended reading of a command line with a variable,
  and the two ways in which the buffer for the values is corrupted.
\<close>

definition plain_word :: "string \<Rightarrow> bool" where
  "plain_word t \<longleftrightarrow> CHR ''$'' \<notin> set t \<and> CHR ''>'' \<notin> set t"

lemma value_of_nul: "NUL \<notin> set (value_of s)"
  by (auto simp: value_of_def cut_at_def dest: set_takeWhileD)

lemma find_value_nul: "find_value e name = Some v \<Longrightarrow> NUL \<notin> set v"
  by (auto simp: find_value_def value_of_nul split: option.splits if_splits)

text \<open>The state of the child behind the first variable of a command line.\<close>

lemma first_variable:
  assumes ts: "\<forall>t \<in> set ts. plain_word t" and room: "length ts + length (value_fields v) \<le> 30"
    and name: "CHR ''$'' \<notin> set a" "good_name name" "find_value e name = Some v"
    and post: "NUL \<notin> set post" and len: "length v < 255" "length post < 256"
  shows "\<exists>c as. token_loop e (ts @ [a @ var_token name post] @ us) start_child = token_loop e us c
    \<and> c_args c = map Word ts @ as \<and> length as = length (value_fields v) \<and> redirect c = None \<and> length (vars c) = MAX_PARAM_SIZE
    \<and> read_args (vars c) as = Inr (with_rest (value_fields v) (take (254 - length v) post)) \<and> unat (varsIdx c) = length v + 1 + length post"
proof -
  let ?c1 = "start_child\<lparr>c_args := map Word ts\<rparr>"
  have n1: "args_next ?c1 = 2 + length ts" "args_next start_child = 2" by (simp_all add: args_next_def start_child_def)
  have some: "0 < length (value_fields v)" by simp
  have first: "token_loop e (ts @ [a @ var_token name post] @ us) start_child = token_loop e ([a @ var_token name post] @ us) ?c1"
    using token_loop_words [of ts start_child e "[a @ var_token name post] @ us"] ts room n1(2)
    by (simp add: plain_word_def PCD_PROCESS_MAX_PARAMS_def start_child_def)
  have buf: "buf_ok ?c1 []" using start_buf by (simp add: buf_ok_def)
  have "NUL \<notin> set v" by (rule find_value_nul [OF name(3)])
  with cstr_pad [of v "[]"] post len have fits: "fits_at [] v post v (254 - length v)"
    by (simp add: fits_at_def MAX_PARAM_SIZE_def)
  have enough: "args_next ?c1 + length (value_fields v) \<le> PCD_PROCESS_MAX_PARAMS" using room n1(1) by (simp add: PCD_PROCESS_MAX_PARAMS_def)
  from put_value_fields [OF buf fits enough] obtain c as where c: "put_value v post ?c1 = Inr c" "c_args c = c_args ?c1 @ as" "length as = length (value_fields v)"
    "redirect c = redirect ?c1" "length (vars c) = MAX_PARAM_SIZE" "read_args (vars c) as = Inr (with_rest (value_fields v) (take (254 - length v) post))"
    "unat (varsIdx c) = length v + 1 + length post" by auto
  have "\<not> args_next ?c1 \<ge> PCD_PROCESS_MAX_PARAMS" using room some n1(1) unfolding PCD_PROCESS_MAX_PARAMS_def by linarith
  then have "token_loop e ([a @ var_token name post] @ us) ?c1 = token_loop e us c"
    using c(1) by (simp add: var_token_word [OF name])
  with first c show ?thesis by (intro exI [of _ c] exI [of _ as]) (simp add: start_child_def)
qed

text \<open>C32: a command line of plain words and one word that holds a variable in braces: the program of the
  rule is run with the plain words, in their places, and with the words of the value as arguments.  The
  value is cut at every white space, only an empty word at its end is left out.  What follows the
  variable in its word is appended to the last word of the value; what precedes the variable in its
  word is lost.  Output is not redirected, and the priority and the user are those of the rule.  The
  conditions are that the arguments fit into the array and the value and what follows it into the
  buffer.\<close>

theorem child_single_variable:
  assumes "child_params r = Inr (Some s)" and "command r = Some cmd"
    and "tokens s = ts @ [a @ var_token name post] @ us" and "\<forall>t \<in> set (ts @ us). plain_word t"
    and "CHR ''$'' \<notin> set a" and "good_name name" and "find_value e name = Some v"
    and "NUL \<notin> set post" and "length v + length post < 255" and "length ts + length (value_fields v) + length us \<le> 30"
  shows "spawn_child e ok r = Inr \<lparr>p_file = cmd, p_args = cmd # ts @ with_rest (value_fields v) post @ us, p_stdout = None,
    p_sched = child_sched ok r, p_uid = (if uid r \<noteq> 0 then Some (uid r) else None)\<rparr>"
proof -
  have ts: "\<forall>t \<in> set ts. plain_word t" and us: "\<forall>t \<in> set us. CHR ''$'' \<notin> set t \<and> CHR ''>'' \<notin> set t"
    using assms(4) by (auto simp: plain_word_def)
  have post: "take (254 - length v) post = post" using assms(9) by simp
  from first_variable [OF ts _ assms(5-8), of us] assms(9,10) obtain c as where
    c: "token_loop e (ts @ [a @ var_token name post] @ us) start_child = token_loop e us c" "c_args c = map Word ts @ as"
      "length as = length (value_fields v)" "redirect c = None" "read_args (vars c) as = Inr (with_rest (value_fields v) post)"
    unfolding post by auto
  let ?c = "c\<lparr>c_args := c_args c @ map Word us\<rparr>"
  have n: "args_next c + length us \<le> PCD_PROCESS_MAX_PARAMS" using assms(10) c(2,3) by (simp add: args_next_def PCD_PROCESS_MAX_PARAMS_def)
  from token_loop_words [OF us n, of e "[]"] c(1) have loop: "token_loop e (tokens s) start_child = Inr ?c" by (simp add: assms(3))
  have args: "read_args (vars ?c) (c_args ?c) = Inr (ts @ with_rest (value_fields v) post @ us)"
    using c(2,5) by (simp add: read_args_append)
  have "args_next ?c < PCD_PROCESS_MAX_PARAMS + 3" using n by (simp add: args_next_def)
  from spawn_eq [OF assms(1,2) loop this args, of ok] c(4) show ?thesis by simp
qed

text \<open>with three variables the value of the third is written over the end of the second one whenever
  the second is longer than the first, because the position in the buffer advances by the length of
  the first string in it: the program gets a mixture of both as its second argument.\<close>

theorem third_variable_overwrites_second:
  assumes "child_params r = Inr (Some s)" and "command r = Some cmd"
    and "tokens s = [var_token n1 [], var_token n2 [], var_token n3 []]" and "good_name n1" "good_name n2" "good_name n3"
    and "find_value e n1 = Some u" and "find_value e n2 = Some v" and "find_value e n3 = Some w"
    and "one_word u" and "one_word v" and "one_word w" and "length u < length v"
    and "length u + 1 + length v < 255" and "2 * length u + 2 + length w < 255" and "3 * length u + 3 < 255"
  shows "\<exists>p. spawn_child e ok r = Inr p \<and> p_args p = [cmd, u, take (length u + 1) v @ w, w]"
proof -
  let ?k = "length u + 1"
  have nul: "NUL \<notin> set u" "NUL \<notin> set v" "NUL \<notin> set w" using assms(10-12) by (simp_all add: one_word_def)
  have nr: "NUL \<notin> set []" by simp
  have cu: "cstr 0 (pad ([] @ u)) = Inr u" using cstr_pad [OF nul(1), of "[]"] assms(14) by (simp add: MAX_PARAM_SIZE_def)
  from put_value_word [OF start_buf assms(10) nr _ cu _ refl] assms(14)
  obtain c1 where c1: "put_value u [] start_child = Inr c1" "c_args c1 = [InVars 0]" "redirect c1 = None" "vars c1 = pad u"
    "unat (varsIdx c1) = ?k" by (auto simp: MAX_PARAM_SIZE_def PCD_PROCESS_MAX_PARAMS_def start_child_def args_next_def)
  have sz: "length (pad x) = MAX_PARAM_SIZE" "pad x ! (MAX_PARAM_SIZE - 1) = NUL" if "length x < MAX_PARAM_SIZE" for x
    using that by (simp_all add: pad_length, auto simp: pad_def nth_append)
  have pu: "pad u = (u @ [NUL]) @ replicate (MAX_PARAM_SIZE - Suc (length u)) NUL"
    using assms(14) by (subst pad_nul) (simp_all add: MAX_PARAM_SIZE_def)
  have "buf_ok c1 (u @ [NUL])" using c1(4,5) sz [of u] assms(14) pu by (simp add: buf_ok_def MAX_PARAM_SIZE_def)
  note b1 = this
  have f: "cstr 0 (pad ((u @ [NUL]) @ x)) = Inr u" for x using cstr_at [OF nul(1), of "[]"] by (simp add: pad_def)
  from put_value_word [OF b1 assms(11) nr _ f _ refl] assms(14,15) c1(2)
  obtain c2 where c2: "put_value v [] c1 = Inr c2" "c_args c2 = [InVars 0, InVars ?k]" "redirect c2 = None" "vars c2 = pad ((u @ [NUL]) @ v)"
    "unat (varsIdx c2) = 2 * length u + 2" using c1(3) by (auto simp: MAX_PARAM_SIZE_def PCD_PROCESS_MAX_PARAMS_def args_next_def)
  let ?pre = "(u @ [NUL]) @ take ?k v"
  have tk: "take (length ?pre) (pad ((u @ [NUL]) @ v)) = ?pre" "length ?pre = 2 * length u + 2" using assms(13) by (simp_all add: pad_def)
  have b2: "buf_ok c2 ?pre" using c2(4,5) sz [of "(u @ [NUL]) @ v"] tk assms(14) by (simp add: buf_ok_def MAX_PARAM_SIZE_def)
  have f2: "cstr 0 (pad (?pre @ w)) = Inr u" using f [of "take ?k v @ w"] by simp
  from put_value_word [OF b2 assms(12) nr _ f2 _ refl] assms(15,16) c2(2) tk(2)
  obtain c3 where c3: "put_value w [] c2 = Inr c3" "c_args c3 = [InVars 0, InVars ?k, InVars (2 * length u + 2)]" "vars c3 = pad (?pre @ w)"
    by (auto simp: MAX_PARAM_SIZE_def PCD_PROCESS_MAX_PARAMS_def args_next_def)
  have start: "args_next start_child = 2" "args_next c1 = 3" "args_next c2 = 4" "args_next c3 = 5"
    using c1(2) c2(2) c3(2) by (simp_all add: args_next_def start_child_def)
  note t = var_token_word [of "[]", simplified]
  have loop: "token_loop e (tokens s) start_child = Inr c3"
    using c1(1) c2(1) c3(1) start t [OF assms(4,7)] t [OF assms(5,8)] t [OF assms(6,9)]
    by (simp add: assms(3) PCD_PROCESS_MAX_PARAMS_def)
  have r1: "cstr 0 (pad (?pre @ w)) = Inr u" by (rule f2)
  have "NUL \<notin> set (take ?k v @ w)" using nul by (auto dest: in_set_takeD)
  from cstr_pad [OF this, of "u @ [NUL]"] assms(13,15)
  have r2: "cstr ?k (pad (?pre @ w)) = Inr (take ?k v @ w)" by (simp add: MAX_PARAM_SIZE_def)
  from cstr_pad [OF nul(3), of ?pre] tk(2) assms(15)
  have r3: "cstr (2 * length u + 2) (pad (?pre @ w)) = Inr w" by (simp add: MAX_PARAM_SIZE_def mult_2)
  have args: "read_args (vars c3) (c_args c3) = Inr [u, take ?k v @ w, w]" using c3(2,3) r1 r2 r3 by simp
  show ?thesis using spawn_eq [OF assms(1,2) loop _ args, of ok] start(4) by (simp add: PCD_PROCESS_MAX_PARAMS_def)
qed

text \<open>C40: text behind a variable that does not fit into the buffer together with the value is cut, but
  the position in the buffer advances by its full length, past the end.  In a command line where this
  happens at the first variable, the next word with a variable is then written outside the buffer,
  without any bound, whatever the value of that variable is and whatever plain words stand around the
  two.\<close>

theorem variable_after_cut_text_overflows:
  assumes "child_params r = Inr (Some s)"
    and "tokens s = ts @ [a @ var_token n1 post] @ us @ [b @ var_token n2 post2] @ ws" and "\<forall>t \<in> set (ts @ us). plain_word t"
    and "CHR ''$'' \<notin> set a" and "good_name n1" and "find_value e n1 = Some v"
    and "CHR ''$'' \<notin> set b" and "good_name n2" and "find_value e n2 = Some w"
    and "NUL \<notin> set post" and "length v < 255" and "length post < 256" and "256 \<le> length v + 1 + length post"
    and "length ts + length (value_fields v) + length us < 30"
  shows "spawn_child e ok r = Inl OutOfBounds"
proof -
  have ts: "\<forall>t \<in> set ts. plain_word t" and us: "\<forall>t \<in> set us. CHR ''$'' \<notin> set t \<and> CHR ''>'' \<notin> set t"
    using assms(3) by (auto simp: plain_word_def)
  let ?rest = "[b @ var_token n2 post2] @ ws"
  from first_variable [OF ts _ assms(4-6,10-12), of "us @ ?rest"] assms(14) obtain c as where
    c: "token_loop e (ts @ [a @ var_token n1 post] @ us @ ?rest) start_child = token_loop e (us @ ?rest) c"
      "c_args c = map Word ts @ as" "length as = length (value_fields v)" "length (vars c) = MAX_PARAM_SIZE" "unat (varsIdx c) = length v + 1 + length post"
    by auto
  let ?c = "c\<lparr>c_args := c_args c @ map Word us\<rparr>"
  have n: "args_next c + length us < PCD_PROCESS_MAX_PARAMS" using assms(14) c(2,3) by (simp add: args_next_def PCD_PROCESS_MAX_PARAMS_def)
  then have loop: "token_loop e (us @ ?rest) c = token_loop e ?rest ?c" by (intro token_loop_words us) simp
  have "255 < varsIdx ?c" using c(5) assms(13) by (simp add: word_less_nat_alt)
  then have "256 < unat (255 - varsIdx ?c)" using c(5) assms(11,12) by (simp add: unat_sub_if' word_less_nat_alt)
  then have "256 < space_left (varsIdx ?c)" by (simp add: space_left_def MAX_PARAM_SIZE_def)
  then have put: "put_value w post2 ?c = Inl OutOfBounds"
    using c(4) by (simp add: put_value_def strncpy_at_def Let_def MAX_PARAM_SIZE_def)
  have "args_next ?c < PCD_PROCESS_MAX_PARAMS" using n by (simp add: args_next_def)
  then have "token_loop e (tokens s) start_child = Inl OutOfBounds"
    using put c(1) loop var_token_word [OF assms(7-9)] by (simp add: assms(2))
  with assms(1) show ?thesis by (simp add: spawn_child_def words_loop_tokens)
qed

section \<open>Instances\<close>

definition child_rule :: "string \<Rightarrow> rule" where
  "child_rule p = blank_rule\<lparr>command := Some ''/bin/app'', params := Some p\<rparr>"

definition letters :: child_env where
  "letters = \<lparr>temp_file = (\<lambda>n. None), getenv = (\<lambda>n. if n = ''A'' then Some ''a'' else if n = ''B'' then Some ''bbb''
     else if n = ''W'' then Some ''aa  bb '' else if n = ''L'' then Some (replicate 200 CHR ''l'') else None)\<rparr>"

lemma child_rule_params: "length p < 256 \<Longrightarrow> child_params (child_rule p) = Inr (Some p)"
  by (simp add: child_params_def child_rule_def blank_rule_def MAX_PARAM_SIZE_def)

lemma child_rule_simps [simp]: "command (child_rule p) = Some ''/bin/app''" "sched (child_rule p) = sched blank_rule" "uid (child_rule p) = uid blank_rule"
  by (simp_all add: child_rule_def)

lemma letter_values: "find_value letters ''A'' = Some ''a''" "find_value letters ''B'' = Some ''bbb''"
  "find_value letters ''W'' = Some ''aa  bb ''"
  by (simp_all add: find_value_def letters_def value_of_def cut_at_def MAX_PARAM_SIZE_def NUL_def)

lemma letter_words: "one_word ''a''" "one_word ''bbb''"
  by (simp_all add: one_word_def PCD_PROCESS_WHITE_SPACES_def NUL_def TAB_def LF_def)

lemma good_letters: "good_name ''A''" "good_name ''B''" "good_name ''L''" "good_name ''W''"
  by (simp_all add: good_name_def VAR_NAME_SIZE_def)

lemma no_nul: "NUL \<notin> set ''s''" "NUL \<notin> set []"
  by (simp_all add: NUL_def)

text \<open>The value of \<open>W\<close> has three words, the second of them empty, and a white space at the end.\<close>

lemma letter_fields: "value_fields ''aa  bb '' = [''aa'', [], ''bb'']"
  by (simp add: value_fields.simps cspan_def PCD_PROCESS_WHITE_SPACES_def TAB_def LF_def)

theorem child_single_variable_witness:
  "\<exists>p. spawn_child letters True (child_rule ''-x p${W}s y'') = Inr p
    \<and> p_args p = [''/bin/app'', ''-x'', ''aa'', [], ''bbs'', ''y'']"
proof -
  have t: "tokens ''-x p${W}s y'' = [''-x''] @ [''p'' @ var_token ''W'' ''s''] @ [''y'']" by code_simp
  have h: "\<forall>t \<in> set ([''-x''] @ [''y'']). plain_word t" by (simp add: plain_word_def)
  show ?thesis
    using child_single_variable [OF child_rule_params _ t h _ good_letters(4) letter_values(3) no_nul(1), of "''/bin/app''" True]
    by (simp add: letter_fields)
qed

theorem third_variable_overwrites_second_witness:
  "\<exists>p. spawn_child letters True (child_rule ''${A} ${B} ${A}'') = Inr p \<and> p_args p = [''/bin/app'', ''a'', ''bba'', ''a'']"
proof -
  have t: "tokens ''${A} ${B} ${A}'' = [var_token ''A'' [], var_token ''B'' [], var_token ''A'' []]" by code_simp
  show ?thesis
    using third_variable_overwrites_second [OF child_rule_params _ t good_letters(1,2,1) letter_values(1,2,1) letter_words(1,2,1), of "''/bin/app''" True]
    by simp
qed

definition sixty :: string where
  "sixty = ''012345678901234567890123456789012345678901234567890123456789''"

theorem variable_after_cut_text_overflows_witness:
  "spawn_child letters True (child_rule (''-x ${L}'' @ sixty @ '' y ${A}'')) = Inl OutOfBounds"
proof -
  have t: "tokens (''-x ${L}'' @ sixty @ '' y ${A}'') = [''-x''] @ [[] @ var_token ''L'' sixty] @ [''y''] @ [[] @ var_token ''A'' []] @ []"
    by code_simp
  have v: "find_value letters ''L'' = Some (replicate 200 CHR ''l'')"
    by (simp add: find_value_def letters_def value_of_def cut_at_def MAX_PARAM_SIZE_def NUL_def)
  have f: "value_fields (replicate 200 CHR ''l'') = [replicate 200 CHR ''l'']"
    by (subst value_fields.simps) (simp add: cspan_def PCD_PROCESS_WHITE_SPACES_def TAB_def LF_def)
  have n: "NUL \<notin> set sixty" "length sixty = 60" by (simp_all add: sixty_def NUL_def)
  have h: "\<forall>t \<in> set ([''-x''] @ [''y'']). plain_word t" by (simp add: plain_word_def)
  show ?thesis
    using variable_after_cut_text_overflows [OF child_rule_params t h _ good_letters(3) v _ good_letters(1) letter_values(1) n(1), of True] n(2)
    by (simp add: f)
qed

end
