(* ===== verification/PcdErrlog.thy ===== *)
theory PcdErrlog imports CStrings PcdTypes "HOL-Library.Sublist" begin

text \<open>
  The error log of the daemon, \<open>pcd/src/errlog.c\<close>: a file of bounded size that keeps the newest
  entries.  The answers of the system are the record \<open>log_os\<close>; \<open>log_fd\<close> is whether the file is open.
\<close>

section \<open>The module\<close>

definition PCD_ERRLOG_MAX_FILE_SIZE :: nat where "PCD_ERRLOG_MAX_FILE_SIZE = 4096"
definition PCD_ERRLOG_MIN_FREE_SIZE :: nat where "PCD_ERRLOG_MIN_FREE_SIZE = (PCD_ERRLOG_MAX_FILE_SIZE * 3) div 4"
definition PCD_PRINT_PREFIX :: string where "PCD_PRINT_PREFIX = ''pcd: ''"

record errlog =
  logFilename :: "string option"
  log_fd :: bool
  log_file :: "string option"

record log_os =
  open_append :: bool
  open_rotate :: bool
  open_again :: bool
  seek_end :: bool
  seek_old :: bool
  seek_start :: bool
  read_works :: bool
  trunc_works :: bool
  write_works :: bool
  ctime_now :: "string option"

definition PCD_errlog_init :: "string option \<Rightarrow> bool \<Rightarrow> errlog \<Rightarrow> PCD_status \<times> errlog" where
  "PCD_errlog_init logFile mem st = (case logFile of
      None \<Rightarrow> (PCD_STATUS_BAD_PARAMS, st)
    | Some f \<Rightarrow> if mem then (PCD_STATUS_OK, st\<lparr>logFilename := Some f\<rparr>) else (PCD_STATUS_NOK, st\<lparr>logFilename := None\<rparr>))"

text \<open>Opening creates the file when there is none.\<close>

definition file_open :: "bool \<Rightarrow> errlog \<Rightarrow> errlog" where
  "file_open works st = (if works
     then st\<lparr>log_fd := True, log_file := Some (case log_file st of None \<Rightarrow> [] | Some c \<Rightarrow> c)\<rparr>
     else st\<lparr>log_fd := False\<rparr>)"

definition content :: "errlog \<Rightarrow> string" where
  "content st = (case log_file st of None \<Rightarrow> [] | Some c \<Rightarrow> c)"

text \<open>Writing at the start of the file, which has been cut to its minimal size.\<close>

definition overwrite :: "string \<Rightarrow> string \<Rightarrow> string" where
  "overwrite s c = s @ drop (length s) c"

definition rotate :: "log_os \<Rightarrow> errlog \<Rightarrow> PCD_status \<times> errlog" where
  "rotate os st =
     (let st = file_open (open_rotate os) st in
      if \<not> open_rotate os then (PCD_STATUS_NOK, st)
      else if \<not> seek_old os then (PCD_STATUS_NOK, st)
      else let tempBuffer = take PCD_ERRLOG_MAX_FILE_SIZE
                 (drop (PCD_ERRLOG_MAX_FILE_SIZE - PCD_ERRLOG_MIN_FREE_SIZE) (content st));
               bytes = (if read_works os then length tempBuffer else 0) in
      if bytes > 0 \<and> trunc_works os \<and> \<not> seek_start os
      then (PCD_STATUS_NOK, st\<lparr>log_file := Some (take PCD_ERRLOG_MIN_FREE_SIZE (content st))\<rparr>)
      else let st = (if bytes > 0 \<and> trunc_works os
             then st\<lparr>log_file := Some (let c = take PCD_ERRLOG_MIN_FREE_SIZE (content st) in
                 if write_works os then overwrite tempBuffer c else c)\<rparr>
             else st\<lparr>log_file := None\<rparr>);
           st = file_open (open_again os) st
      in (if open_again os then PCD_STATUS_OK else PCD_STATUS_NOK, st))"

definition PCD_errlog_open_file :: "log_os \<Rightarrow> errlog \<Rightarrow> PCD_status \<times> errlog" where
  "PCD_errlog_open_file os st =
     (let st = file_open (open_append os) st in
      if \<not> open_append os then (PCD_STATUS_NOK, st)
      else if \<not> seek_end os then (PCD_STATUS_NOK, st)
      else if length (content st) \<ge> PCD_ERRLOG_MAX_FILE_SIZE then rotate os st
      else (PCD_STATUS_OK, st))"

definition PCD_errlog_close_file :: "errlog \<Rightarrow> PCD_status \<times> errlog" where
  "PCD_errlog_close_file st = (PCD_STATUS_OK, st\<lparr>log_fd := False\<rparr>)"

definition PCD_errlog_close :: "errlog \<Rightarrow> PCD_status \<times> errlog" where
  "PCD_errlog_close st = (PCD_STATUS_OK, (snd (PCD_errlog_close_file st))\<lparr>logFilename := None\<rparr>)"

definition file_append :: "string \<Rightarrow> errlog \<Rightarrow> errlog" where
  "file_append s st = st\<lparr>log_file := Some (content st @ s)\<rparr>"

text \<open>
  The line end of the time becomes a blank; the prefix of the message is skipped, whether there is a
  time or not.  A message shorter than the prefix would be read from behind its end.
\<close>

definition PCD_errlog_log :: "log_os \<Rightarrow> string \<Rightarrow> bool \<Rightarrow> errlog \<Rightarrow> errlog run" where
  "PCD_errlog_log os buffer timeStamp st =
     (if logFilename st = None then Inr st
      else case PCD_errlog_open_file os st of (ok, st) \<Rightarrow>
      if ok \<noteq> PCD_STATUS_OK then Inr st
      else if \<not> timeStamp then Inr (snd (PCD_errlog_close_file (if write_works os then file_append buffer st else st)))
      else case ctime_now os of
          Some t \<Rightarrow> if t = [] then Inl OutOfBounds
            else if \<not> write_works os then Inr (snd (PCD_errlog_close_file st))
            else if length buffer < length PCD_PRINT_PREFIX then Inl OutOfBounds
            else Inr (snd (PCD_errlog_close_file (file_append (drop (length PCD_PRINT_PREFIX) buffer) (file_append (butlast t @ '' '') st))))
        | None \<Rightarrow> if length buffer < length PCD_PRINT_PREFIX then Inl OutOfBounds
            else Inr (snd (PCD_errlog_close_file (if write_works os then file_append (drop (length PCD_PRINT_PREFIX) buffer) st else st))))"

section \<open>The newest entries\<close>

text \<open>The text that one call adds.\<close>

definition entry :: "log_os \<Rightarrow> string \<times> bool \<Rightarrow> string" where
  "entry os e = (if snd e then (case ctime_now os of None \<Rightarrow> [] | Some t \<Rightarrow> butlast t @ '' '') @ drop (length PCD_PRINT_PREFIX) (fst e)
     else fst e)"

definition log_healthy :: "log_os \<Rightarrow> bool" where
  "log_healthy os \<longleftrightarrow> open_append os \<and> open_rotate os \<and> open_again os \<and> seek_end os \<and> seek_old os \<and> seek_start os
     \<and> read_works os \<and> trunc_works os \<and> write_works os \<and> ctime_now os \<noteq> Some []"

fun log_all :: "log_os \<Rightarrow> (string \<times> bool) list \<Rightarrow> errlog \<Rightarrow> errlog run" where
  "log_all os [] st = Inr st"
| "log_all os (e # es) st = bind_run (PCD_errlog_log os (fst e) (snd e) st) (log_all os es)"

lemmas log_sizes = PCD_ERRLOG_MAX_FILE_SIZE_def PCD_ERRLOG_MIN_FREE_SIZE_def

lemma open_file_healthy:
  assumes "log_healthy os" and "length (content st) < 5120"
  shows "PCD_errlog_open_file os st = (PCD_STATUS_OK, st\<lparr>log_fd := True,
    log_file := Some (if length (content st) \<ge> 4096 then drop 1024 (content st) else content st)\<rparr>)"
proof (cases "length (content st) \<ge> 4096")
  case True
  let ?t = "take 4096 (drop 1024 (content st))"
  have t: "?t = drop 1024 (content st)" "?t \<noteq> []" "3072 \<le> length ?t" using True assms(2) by simp_all
  have "overwrite ?t (take 3072 (content st)) = drop 1024 (content st)" using t by (simp add: overwrite_def)
  with True t(2) assms(1) show ?thesis
    by (simp add: PCD_errlog_open_file_def rotate_def file_open_def content_def log_healthy_def log_sizes Let_def)
next
  case False
  with assms(1) show ?thesis
    by (simp add: PCD_errlog_open_file_def file_open_def content_def log_healthy_def log_sizes Let_def)
qed

lemma log_healthy_step:
  assumes "log_healthy os" and "length (content st) < 5120" and "logFilename st \<noteq> None" and "snd e \<Longrightarrow> 5 \<le> length (fst e)"
  shows "PCD_errlog_log os (fst e) (snd e) st = Inr (st\<lparr>log_fd := False,
    log_file := Some ((if length (content st) \<ge> 4096 then drop 1024 (content st) else content st) @ entry os e)\<rparr>)"
  using assms(1,3,4) open_file_healthy [OF assms(1,2)]
  by (auto simp: PCD_errlog_log_def PCD_errlog_close_file_def file_append_def content_def entry_def log_healthy_def
      PCD_PRINT_PREFIX_def split: option.split)

text \<open>C31: as long as no single entry is longer than a quarter of the maximal size, the log file holds
  exactly the newest part of everything that was ever logged, without a gap: all of it, or at least
  the last 3072 characters; and it is never longer than five quarters of the maximal size.  (The
  messages of the daemon have at most 279 characters, its exception reports 1022.)\<close>

theorem errlog_keeps_newest:
  assumes "log_healthy os" and "logFilename st \<noteq> None" and "length (content st) < 5120"
    and "\<forall>e \<in> set es. length (entry os e) \<le> 1024 \<and> (snd e \<longrightarrow> 5 \<le> length (fst e))"
  shows "\<exists>st'. log_all os es st = Inr st' \<and> suffix (content st') (content st @ concat (map (entry os) es))
    \<and> (content st' = content st @ concat (map (entry os) es) \<or> 3072 \<le> length (content st')) \<and> length (content st') < 5120"
  using assms(2-4)
proof (induction es arbitrary: st)
  case (Cons e es)
  let ?c = "if length (content st) \<ge> 4096 then drop 1024 (content st) else content st"
  let ?st = "st\<lparr>log_fd := False, log_file := Some (?c @ entry os e)\<rparr>"
  have step: "PCD_errlog_log os (fst e) (snd e) st = Inr ?st"
    using log_healthy_step [OF assms(1) Cons.prems(2,1)] Cons.prems(3) by simp
  have c: "content ?st = ?c @ entry os e" by (simp add: content_def)
  have len: "length (content ?st) < 5120" using Cons.prems(2,3) unfolding c by auto
  have "logFilename ?st \<noteq> None" "\<forall>e \<in> set es. length (entry os e) \<le> 1024 \<and> (snd e \<longrightarrow> 5 \<le> length (fst e))"
    using Cons.prems by simp_all
  from Cons.IH [OF this(1) len this(2)] obtain st' where st': "log_all os es ?st = Inr st'"
    and suf: "suffix (content st') (content ?st @ concat (map (entry os) es))"
    and all: "content st' = content ?st @ concat (map (entry os) es) \<or> 3072 \<le> length (content st')"
    and bound: "length (content st') < 5120" by blast
  have "suffix (content ?st @ x) (content st @ entry os e @ x)" for x
    unfolding c by (auto simp: suffix_def) (metis append_take_drop_id)
  then have "suffix (content st') (content st @ concat (map (entry os) (e # es)))"
    using suf suffix_order.trans by fastforce
  moreover have "content st' = content st @ concat (map (entry os) (e # es)) \<or> 3072 \<le> length (content st')"
  proof (cases "length (content st) \<ge> 4096")
    case True
    then have "3072 \<le> length (content ?st)" unfolding c by simp
    with all show ?thesis by auto
  next
    case False
    with all c show ?thesis by simp
  qed
  ultimately show ?case using step st' bound by simp
qed simp

definition long_message :: string where
  "long_message = replicate 1000 CHR ''x''"

lemma length_long_message [simp]: "length long_message = 1000"
  by (simp add: long_message_def)

lemma entry_plain: "entry os (s, False) = s"
  by (simp add: entry_def)

definition fresh_log :: errlog where
  "fresh_log = \<lparr>logFilename = Some ''/tmp/log'', log_fd = False, log_file = None\<rparr>"

definition good_log_os :: log_os where
  "good_log_os = \<lparr>open_append = True, open_rotate = True, open_again = True, seek_end = True, seek_old = True, seek_start = True,
     read_works = True, trunc_works = True, write_works = True, ctime_now = Some ''T.''\<rparr>"

theorem errlog_keeps_newest_witness:
  "\<exists>st'. log_all good_log_os (replicate 5 (long_message, False)) fresh_log = Inr st'
    \<and> suffix (content st') (concat (replicate 5 long_message)) \<and> length (content st') < 5120"
proof -
  have all: "concat (map (entry good_log_os) (replicate 5 (long_message, False))) = concat (replicate 5 long_message)"
    by (simp only: map_replicate entry_plain)
  have len: "\<forall>e \<in> set (replicate 5 (long_message, False)). length (entry good_log_os e) \<le> 1024 \<and> (snd e \<longrightarrow> 5 \<le> length (fst e))"
    by (simp add: entry_plain)
  have "log_healthy good_log_os" by (simp add: log_healthy_def good_log_os_def)
  from errlog_keeps_newest [OF this _ _ len, of fresh_log] show ?thesis
    unfolding all by (auto simp: fresh_log_def content_def)
qed

end
