(* ===== verification/PcdExcept.thy ===== *)
theory PcdExcept imports PcdErrlog begin

text \<open>
  Crash reports: the exception handler that the client library installs (\<open>pcdapi.c\<close>), the FIFO, and
  the daemon's end of it (\<open>except.c\<close>), for the platform of the shipped configuration, which has no
  register dump.  The layout of \<open>exception_t\<close> in memory and the texts of \<open>ctime\<close>, \<open>strsignal\<close> and
  \<open>strerror\<close> are parameters.
\<close>

section \<open>The record\<close>

definition PCD_EXCEPTION_MAX_PROCESS_NAME :: nat where "PCD_EXCEPTION_MAX_PROCESS_NAME = 32"
definition PCD_EXCEPTION_MAGIC :: u32 where "PCD_EXCEPTION_MAGIC = 0x09CD0D0D"
definition PCD_ERRLOG_BUF_SIZE :: nat where "PCD_ERRLOG_BUF_SIZE = 1024"
definition CONFIG_PCD_TEMP_PATH :: string where "CONFIG_PCD_TEMP_PATH = ''/tmp''"

record exception_t =
  exc_magic :: u32
  process_name :: string
  exc_time :: "int \<times> int"
  process_id :: int
  signal_number :: u32
  signal_code :: u32
  fault_address :: u64
  signal_errno :: u32
  handler_errno :: u32

text \<open>The bytes of a record; any bytes of the right number are some record.\<close>

record 'b exc_layout =
  sizeof_exception :: nat
  encode :: "exception_t \<Rightarrow> 'b list"
  decode :: "'b list \<Rightarrow> exception_t"

definition exc_layout_ok :: "'b exc_layout \<Rightarrow> bool" where
  "exc_layout_ok L \<longleftrightarrow> 0 < sizeof_exception L \<and> (\<forall>e. length (encode L e) = sizeof_exception L \<and> decode L (encode L e) = e)"

section \<open>The daemon's end\<close>

text \<open>
  \<open>exc_fd\<close> is whether the FIFO is open, \<open>rdset\<close> whether it is in the set of \<open>select\<close>, \<open>fifo\<close> what
  is in it, \<open>console\<close> what has been written to standard error, \<open>tmp_files\<close> the files by their paths.
\<close>

record 'b exc_world =
  exc_fd :: bool
  rdset :: bool
  exc_path :: bool
  fifo :: "'b list"
  console :: string
  exc_log :: errlog
  tmp_files :: "string \<Rightarrow> string option"

datatype mkfifo_answer = FifoCreated | FifoExists | FifoFails

record exc_os =
  mkfifo :: mkfifo_answer
  fifo_readable :: bool
  select_fails :: bool
  stderr_works :: bool
  maps_opens :: bool
  log_answers :: log_os
  ctime :: "int \<Rightarrow> string"
  strsignal :: "int \<Rightarrow> string"
  strerror :: "int \<Rightarrow> string"

definition PCD_exception_init :: "exc_os \<Rightarrow> 'b exc_world \<Rightarrow> PCD_status \<times> 'b exc_world" where
  "PCD_exception_init os st =
     (if mkfifo os = FifoFails then (PCD_STATUS_NOK, st)
      else let st = (if mkfifo os = FifoCreated then st\<lparr>exc_path := True, fifo := []\<rparr> else st) in
      if \<not> fifo_readable os then (PCD_STATUS_NOK, st\<lparr>exc_fd := False\<rparr>)
      else (PCD_STATUS_OK, st\<lparr>exc_fd := True, rdset := True\<rparr>))"

definition PCD_exception_close :: "'b exc_world \<Rightarrow> PCD_status \<times> 'b exc_world" where
  "PCD_exception_close st =
     (if exc_fd st then (PCD_STATUS_OK, st\<lparr>exc_fd := False, exc_path := False, fifo := []\<rparr>) else (PCD_STATUS_OK, st))"

text \<open>The reason of a signal, with the numbers of Linux.\<close>

definition PCD_code2str :: "int \<Rightarrow> int \<Rightarrow> string" where
  "PCD_code2str code signal =
     (case map_of [(0, ''Kill, sigsend or raise ''), (0x80, ''Kernel''), (- 1, ''sigqueue'')] code of
        Some s \<Rightarrow> s
      | None \<Rightarrow>
     (case (if signal = 4 then map_of
          [(1, ''Illegal opcode''), (2, ''Illegal operand''), (3, ''Illegal addressing mode''), (4, ''Illegal trap''),
           (5, ''Privileged register''), (7, ''Coprocessor error''), (8, ''Internal stack error'')] code
        else if signal = 8 then map_of
          [(1, ''Integer divide by zero''), (2, ''Integer overflow''), (3, ''Floating point divide by zero''),
           (4, ''Floating point overflow''), (5, ''Floating point underflow''), (6, ''Floating point inexact result''),
           (7, ''Floating point invalid operation''), (8, ''Subscript out of range'')] code
        else if signal = 11 then map_of
          [(1, ''Address not mapped to object''), (2, ''Invalid permissions for mapped object'')] code
        else if signal = 7 then map_of
          [(1, ''Invalid address alignment''), (2, ''Non-existent physical address''), (3, ''Object specific hardware error'')] code
        else if signal = 5 then map_of [(1, ''Process breakpoint''), (2, ''Process trace trap'')] code
        else None) of
        Some s \<Rightarrow> s
      | None \<Rightarrow> ''Unhandled signal handler''))"

definition stderr_write :: "exc_os \<Rightarrow> string \<Rightarrow> 'b exc_world \<Rightarrow> 'b exc_world" where
  "stderr_write os s st = (if stderr_works os then st\<lparr>console := console st @ s\<rparr> else st)"

definition maps_path :: "int \<Rightarrow> string" where
  "maps_path p = CONFIG_PCD_TEMP_PATH @ ''/'' @ int_str p @ ''.maps''"

definition PCD_dump_maps_file :: "exc_os \<Rightarrow> int \<Rightarrow> 'b exc_world \<Rightarrow> 'b exc_world run" where
  "PCD_dump_maps_file os p st = bind_run (sprintf_cap 22 (maps_path p)) (\<lambda>mapsFile.
     case tmp_files st mapsFile of
       None \<Rightarrow> Inr st
     | Some t \<Rightarrow> if \<not> maps_opens os then Inr st
         else let st = stderr_write os t (stderr_write os ([LF] @ ''Maps file:'' @ [LF, LF]) st)
              in Inr (st\<lparr>tmp_files := (tmp_files st)(mapsFile := None)\<rparr>))"

definition ptr_str :: "u64 \<Rightarrow> string" where
  "ptr_str p = (if p = 0 then ''(nil)'' else ''0x'' @ hex_str (unat p))"

definition c_str :: "string \<Rightarrow> string" where
  "c_str s = takeWhile (\<lambda>c. c \<noteq> NUL) s"

definition fault_report :: "exc_os \<Rightarrow> exception_t \<Rightarrow> string" where
  "fault_report os e =
     [LF] @ ''Signal information:'' @ [LF, LF] @ ''Time: '' @ ctime os (fst (exc_time e))
     @ ''Process name: '' @ c_str (process_name e) @ [LF] @ ''PID: '' @ int_str (process_id e) @ [LF]
     @ ''Fault Address: '' @ ptr_str (fault_address e) @ [LF]
     @ ''Signal: '' @ strsignal os (sint (signal_number e)) @ [LF]
     @ ''Signal Code: '' @ PCD_code2str (sint (signal_code e)) (sint (signal_number e)) @ [LF]
     @ ''Last error: '' @ strerror os (sint (handler_errno e)) @ '' ('' @ int_str (sint (handler_errno e)) @ '')'' @ [LF]
     @ ''Last error (by signal): '' @ int_str (sint (signal_errno e)) @ [LF]"

definition star_line :: string where
  "star_line = [LF] @ replicate 74 CHR ''*'' @ [LF]"

definition exception_banner :: string where
  "exception_banner = star_line @ replicate 28 CHR ''*'' @ '' Exception Caught '' @ replicate 28 CHR ''*'' @ star_line"

text \<open>
  The report is cut to the buffer less two, but its full length is the number of bytes written, so a
  report longer than the buffer is written from behind its end; a name without its terminator is read
  on.  After the blocks of the platforms with registers the same buffer is written and logged again.
\<close>

definition log_report :: "exc_os \<Rightarrow> string \<Rightarrow> 'b exc_world \<Rightarrow> 'b exc_world run" where
  "log_report os buffer st = bind_run (PCD_errlog_log (log_answers os) buffer False (exc_log st)) (\<lambda>l. Inr (st\<lparr>exc_log := l\<rparr>))"

definition PCD_dump_fault_info :: "exc_os \<Rightarrow> exception_t \<Rightarrow> 'b exc_world \<Rightarrow> 'b exc_world run" where
  "PCD_dump_fault_info os e st =
     (let st = stderr_write os exception_banner st in
      if NUL \<notin> set (process_name e) then Inl OutOfBounds
      else let i = length (fault_report os e); buffer = take (PCD_ERRLOG_BUF_SIZE - 2) (fault_report os e) in
      if i > PCD_ERRLOG_BUF_SIZE then Inl OutOfBounds
      else let bytes = buffer @ replicate (i - length buffer) NUL in
        bind_run (log_report os buffer (stderr_write os bytes st)) (\<lambda>st.
        bind_run (log_report os buffer (stderr_write os bytes st)) (\<lambda>st.
        bind_run (PCD_dump_maps_file os (process_id e) st) (\<lambda>st.
        Inr (stderr_write os star_line st)))))"

section \<open>Reading a record\<close>

text \<open>
  What happens before each \<open>read\<close>: bytes arrive, or a signal interrupts it.  A read of an empty FIFO
  returns 0 when no writer has it open and fails otherwise; both end the loop, and the part that
  has been read is lost.
\<close>

datatype 'b arrival = Written "'b list" | Signalled

fun written :: "'b arrival \<Rightarrow> 'b list" where
  "written (Written bs) = bs"
| "written Signalled = []"

definition arrived :: "'b arrival list \<Rightarrow> 'b list" where
  "arrived as = concat (map written as)"

function read_record :: "nat \<Rightarrow> 'b arrival list \<Rightarrow> 'b list \<Rightarrow> 'b list \<Rightarrow> 'b list option \<times> 'b list" where
  "read_record remainingBytes (Signalled # as) buffer p = read_record remainingBytes as buffer p"
| "read_record remainingBytes (Written bs # as) buffer p =
     (let p = p @ bs; ret = min remainingBytes (length p) in
      if ret = 0 then (None, p @ arrived as)
      else if remainingBytes - ret > 0 then read_record (remainingBytes - ret) as (buffer @ take ret p) (drop ret p)
      else (Some (buffer @ take ret p), drop ret p @ arrived as))"
| "read_record remainingBytes [] buffer p =
     (let ret = min remainingBytes (length p) in
      if ret = 0 then (None, p)
      else if remainingBytes - ret > 0 then read_record (remainingBytes - ret) [] (buffer @ take ret p) (drop ret p)
      else (Some (buffer @ take ret p), drop ret p))"
  by pat_completeness auto
termination by (relation "measure (\<lambda>(n, as, _, _). n + length as)") auto

text \<open>An interrupted \<open>select\<close> is repeated; its count is not looked at, and it takes the FIFO out of the set when nothing is there.\<close>

definition PCD_exception_listen :: "exc_os \<Rightarrow> 'b exc_layout \<Rightarrow> 'b arrival list \<Rightarrow> 'b exc_world \<Rightarrow> 'b exc_world run" where
  "PCD_exception_listen os L as st =
     (if select_fails os then Inr (st\<lparr>fifo := fifo st @ arrived as\<rparr>)
      else let st = st\<lparr>rdset := rdset st \<and> fifo st \<noteq> []\<rparr> in
      if \<not> exc_fd st then Inr (st\<lparr>fifo := fifo st @ arrived as\<rparr>)
      else case read_record (sizeof_exception L) as [] (fifo st) of
          (None, rest) \<Rightarrow> Inr (st\<lparr>fifo := rest\<rparr>)
        | (Some bytes, rest) \<Rightarrow> PCD_dump_fault_info os (decode L bytes) (st\<lparr>fifo := rest\<rparr>))"

section \<open>The client's end\<close>

text \<open>\<open>procName\<close> is the buffer of 32 characters, \<open>handled\<close> the signals with the handler installed.\<close>

record crash_client =
  procName :: string
  cleanupFunc :: bool
  mapsTmpFile :: string
  handled :: "int set"

definition PCD_api_register_exception_handlers ::
    "string option \<Rightarrow> bool \<Rightarrow> int \<Rightarrow> crash_client \<Rightarrow> (PCD_status \<times> crash_client) run" where
  "PCD_api_register_exception_handlers name cleanup self c = (case name of
      None \<Rightarrow> Inr (PCD_STATUS_NOK, c)
    | Some nm \<Rightarrow>
        (let c = (if cleanup then c\<lparr>cleanupFunc := True\<rparr> else c);
             k = PCD_EXCEPTION_MAX_PROCESS_NAME - 1;
             c = c\<lparr>procName := take k (nm @ replicate k NUL) @ [NUL]\<rparr>
         in bind_run (sprintf_cap 22 (maps_path self)) (\<lambda>f.
            Inr (PCD_STATUS_OK, c\<lparr>mapsTmpFile := f, handled := handled c \<union> {2, 11, 4, 7, 3, 8}\<rparr>))))"

record siginfo =
  si_code :: int
  si_errno :: int
  si_addr :: u64

text \<open>
  The system as the handler sees it: its process id, \<open>errno\<close>, the clock, its own maps, the number of
  blocks that can be written to the temporary file, and the answers of the writes to the FIFO, \<open>None\<close>
  for a failure.
\<close>

record crash_os =
  self_pid :: int
  errno_now :: int
  clock_now :: "int \<times> int"
  maps_text :: "string option"
  tmp_opens :: bool
  copied_blocks :: nat
  fifo_opens :: bool
  write_answers :: "nat \<Rightarrow> nat option"

definition crash_record :: "crash_os \<Rightarrow> crash_client \<Rightarrow> int \<Rightarrow> siginfo \<Rightarrow> exception_t" where
  "crash_record os c signo info =
     \<lparr>exc_magic = PCD_EXCEPTION_MAGIC, process_name = procName c, exc_time = clock_now os, process_id = self_pid os,
      signal_number = word_of_int signo, signal_code = word_of_int (si_code info), fault_address = si_addr info,
      signal_errno = word_of_int (si_errno info), handler_errno = word_of_int (errno_now os)\<rparr>"

text \<open>The temporary file is created, but an old one is not cut to length zero.\<close>

definition copy_maps :: "crash_os \<Rightarrow> crash_client \<Rightarrow> 'b exc_world \<Rightarrow> 'b exc_world" where
  "copy_maps os c st = (case maps_text os of
      None \<Rightarrow> st
    | Some t \<Rightarrow> if \<not> tmp_opens os then st
        else let old = (case tmp_files st (mapsTmpFile c) of None \<Rightarrow> [] | Some x \<Rightarrow> x)
             in st\<lparr>tmp_files := (tmp_files st)(mapsTmpFile c := Some (overwrite (take (512 * copied_blocks os) t) old))\<rparr>)"

text \<open>Each write starts at the beginning of the record again; a failed write is repeated.\<close>

partial_function (option) send_record :: "(nat \<Rightarrow> nat option) \<Rightarrow> 'b list \<Rightarrow> nat \<Rightarrow> int \<Rightarrow> 'b list \<Rightarrow> 'b list option" where
  "send_record answer bytes n rest q =
     (if rest > 0 then
        (case answer n of
           None \<Rightarrow> send_record answer bytes (Suc n) rest q
         | Some k \<Rightarrow> send_record answer bytes (Suc n) (rest - int k) (q @ take k bytes))
      else Some q)"

text \<open>
  The handler ends with \<open>exit\<close>; the result is the world and whether the cleanup function has been
  called, or \<open>None\<close> when the loop never ends.
\<close>

definition PCD_exception_default_handler ::
    "crash_os \<Rightarrow> 'b exc_layout \<Rightarrow> crash_client \<Rightarrow> int \<Rightarrow> siginfo \<Rightarrow> 'b exc_world \<Rightarrow> ('b exc_world \<times> bool) option" where
  "PCD_exception_default_handler os L c signo info st =
     (let bytes = encode L (crash_record os c signo info); st = copy_maps os c st in
      if \<not> fifo_opens os then Some (st, False)
      else case send_record (write_answers os) bytes 0 (int (sizeof_exception L)) (fifo st) of
          None \<Rightarrow> None
        | Some q \<Rightarrow> Some (st\<lparr>fifo := q\<rparr>, cleanupFunc c))"

section \<open>A crash of the daemon\<close>

text \<open>
  The first part of \<open>PCD_process_terminate\<close>: on a fault signal the daemon writes a record with its own
  name to a file, which is not cut to length zero either.  The messages are written with their
  terminators.
\<close>

definition fault_message :: string where
  "fault_message = ''pcd: Caught fault signal.'' @ [LF, NUL]"

definition wrote_message :: string where
  "wrote_message = ''pcd: Wrote exception information.'' @ [LF, NUL]"

definition self_record :: "crash_os \<Rightarrow> int \<Rightarrow> siginfo \<Rightarrow> exception_t" where
  "self_record os signo info =
     crash_record os \<lparr>procName = ''pcd'' @ replicate (PCD_EXCEPTION_MAX_PROCESS_NAME - 3) NUL, cleanupFunc = False,
       mapsTmpFile = [], handled = {}\<rparr> signo info"

definition terminate_fault ::
    "crash_os \<Rightarrow> 'b exc_layout \<Rightarrow> bool \<Rightarrow> int \<Rightarrow> siginfo \<Rightarrow> 'b list option \<Rightarrow> 'b list option \<times> string" where
  "terminate_fault os L opens signo info file =
     (if signo = 15 then (file, [])
      else if \<not> opens then (file, fault_message)
      else (Some (encode L (self_record os signo info)
              @ (case file of None \<Rightarrow> [] | Some old \<Rightarrow> drop (sizeof_exception L) old)), fault_message @ wrote_message))"

end
