(* ===== verification/PcdCrash.thy ===== *)
theory PcdCrash imports PcdExcept begin

text \<open>
  What becomes of a crash report on its way from the handler in the client to the console and the
  error log of the daemon.
\<close>

section \<open>Assembling a record\<close>

lemma arrived_simps [simp]:
  "arrived [] = []"
  "arrived (Written bs # as) = bs @ arrived as"
  "arrived (Signalled # as) = arrived as"
  by (simp_all add: arrived_def)

text \<open>Something can be read at every read until \<open>n\<close> bytes are there.\<close>

fun keeps_coming :: "nat \<Rightarrow> 'b arrival list \<Rightarrow> 'b list \<Rightarrow> bool" where
  "keeps_coming n [] p \<longleftrightarrow> n \<le> length p"
| "keeps_coming n (Signalled # as) p \<longleftrightarrow> keeps_coming n as p"
| "keeps_coming n (Written bs # as) p \<longleftrightarrow> p @ bs \<noteq> [] \<and>
     (n \<le> length (p @ bs) \<or> keeps_coming (n - length (p @ bs)) as [])"

lemma read_record_whole:
  "0 < n \<Longrightarrow> n \<le> length p \<Longrightarrow> read_record n [] buffer p = (Some (buffer @ take n p), drop n p)"
  by (simp add: Let_def)

lemma read_record_assembles:
  assumes "keeps_coming n as p" and "0 < n"
  shows "read_record n as buffer p = (Some (buffer @ take n (p @ arrived as)), drop n (p @ arrived as))"
  using assms
proof (induction n as p arbitrary: buffer rule: keeps_coming.induct)
  case (1 n p)
  then show ?case by (simp add: read_record_whole)
next
  case (3 n bs as p)
  then show ?case
    by (cases "n \<le> length (p @ bs)") (simp_all add: Let_def min_def)
qed simp

lemma read_record_short:
  "length p < n \<Longrightarrow> read_record n [] buffer p = (None, [])"
  by (cases p) (simp_all add: Let_def min_def)

lemma listen_assembled:
  assumes "exc_layout_ok L" and "exc_fd st" and "\<not> select_fails os"
    and "keeps_coming (sizeof_exception L) as (fifo st)" and "fifo st @ arrived as = encode L e @ following"
  shows "PCD_exception_listen os L as st
    = PCD_dump_fault_info os e (st\<lparr>rdset := rdset st \<and> fifo st \<noteq> [], fifo := following\<rparr>)"
  using assms by (simp add: PCD_exception_listen_def read_record_assembles exc_layout_ok_def Let_def)

text \<open>a record that arrives in parts, with signals in between, is reported as a whole, and what
  follows it stays in the FIFO, as long as there is something to read at every read.\<close>

theorem record_in_parts_is_reported:
  assumes "exc_layout_ok L" and "exc_fd st" and "\<not> select_fails os"
    and "keeps_coming (sizeof_exception L) as (fifo st)" and "fifo st @ arrived as = encode L e @ following"
  shows "PCD_exception_listen os L as st
    = PCD_dump_fault_info os e (st\<lparr>rdset := rdset st \<and> fifo st \<noteq> [], fifo := following\<rparr>)"
  using assms by (rule listen_assembled)

section \<open>A report\<close>

lemma errlog_without_time: "\<exists>l'. PCD_errlog_log os buffer False l = Inr l'"
  by (simp add: PCD_errlog_log_def split: prod.split)

lemma console_write: "stderr_works os \<Longrightarrow> stderr_write os s st = st\<lparr>console := console st @ s\<rparr>"
  by (simp add: stderr_write_def)

text \<open>The part of the report for the memory maps.\<close>

definition maps_report :: "string \<Rightarrow> string" where
  "maps_report t = [LF] @ ''Maps file:'' @ [LF, LF] @ t"

lemma dump_report:
  assumes "stderr_works os" and "NUL \<in> set (process_name e)" and "length (fault_report os e) \<le> 1022"
    and "length (maps_path (process_id e)) < 22" and "tmp_files st (maps_path (process_id e)) = Some t" and "maps_opens os"
  shows "\<exists>l. log_all (log_answers os) [(fault_report os e, False), (fault_report os e, False)] (exc_log st) = Inr l
    \<and> PCD_dump_fault_info os e st = Inr (st\<lparr>exc_log := l, tmp_files := (tmp_files st)(maps_path (process_id e) := None),
        console := console st @ exception_banner @ fault_report os e @ fault_report os e @ maps_report t @ star_line\<rparr>)"
proof -
  let ?r = "fault_report os e"
  obtain l where l: "PCD_errlog_log (log_answers os) ?r False (exc_log st) = Inr l" using errlog_without_time by blast
  obtain l' where l': "PCD_errlog_log (log_answers os) ?r False l = Inr l'" using errlog_without_time by blast
  have "PCD_dump_fault_info os e st = Inr (st\<lparr>exc_log := l', tmp_files := (tmp_files st)(maps_path (process_id e) := None),
        console := console st @ exception_banner @ ?r @ ?r @ maps_report t @ star_line\<rparr>)"
    using assms l l' by (cases st) (simp add: PCD_dump_fault_info_def PCD_dump_maps_file_def log_report_def
        console_write maps_report_def PCD_ERRLOG_BUF_SIZE_def Let_def)
  with l l' show ?thesis by simp
qed

section \<open>From the handler to the console\<close>

lemma send_record_whole:
  assumes "\<forall>i < m. answer (n + i) = None" and "answer (n + m) = Some (length bytes)" and "bytes \<noteq> []"
  shows "send_record answer bytes n (int (length bytes)) q = Some (q @ bytes)"
  using assms(1,2)
proof (induction m arbitrary: n)
  case 0
  with assms(3) show ?case by (simp add: send_record.simps)
next
  case (Suc m)
  have "answer n = None" using Suc.prems(1) by (metis add.right_neutral zero_less_Suc)
  moreover have "\<forall>i < m. answer (Suc n + i) = None" using Suc.prems(1) by (metis Suc_less_eq add_Suc_shift)
  ultimately show ?case using Suc.IH [of "Suc n"] Suc.prems(2) assms(3) by (subst send_record.simps) simp
qed

text \<open>C30: a crash of a registered client reaches the console of the daemon as one banner with the
  report of that crash and the memory maps of the process; the temporary file is gone, the FIFO is
  empty again, and the report has been written twice, on the console and in the error log: the code
  behind the platform blocks repeats the first buffer on a platform without registers.\<close>

theorem crash_reaches_console:
  assumes "exc_layout_ok L" and "PCD_api_register_exception_handlers (Some nm) cleanup (self_pid cos) c0 = Inr (PCD_STATUS_OK, c)"
    and "maps_text cos = Some t" and "tmp_opens cos" and "length t \<le> 512 * copied_blocks cos" and "tmp_files st (mapsTmpFile c) = None"
    and "fifo_opens cos" and "\<forall>i < m. write_answers cos i = None" and "write_answers cos m = Some (sizeof_exception L)"
    and "exc_fd st" and "fifo st = []" and "stderr_works os" and "maps_opens os" and "\<not> select_fails os"
    and "length (fault_report os (crash_record cos c signo info)) \<le> 1022"
  shows "\<exists>st1 st2. PCD_exception_default_handler cos L c signo info st = Some (st1, cleanup \<or> cleanupFunc c0)
    \<and> PCD_exception_listen os L [] st1 = Inr st2 \<and> fifo st2 = [] \<and> tmp_files st2 = tmp_files st
    \<and> console st2 = console st @ exception_banner @ fault_report os (crash_record cos c signo info)
        @ fault_report os (crash_record cos c signo info) @ maps_report t @ star_line
    \<and> log_all (log_answers os) [(fault_report os (crash_record cos c signo info), False),
        (fault_report os (crash_record cos c signo info), False)] (exc_log st) = Inr (exc_log st2)"
proof -
  let ?e = "crash_record cos c signo info"
  let ?f = "maps_path (self_pid cos)"
  have c: "mapsTmpFile c = ?f" "length ?f < 22" "NUL \<in> set (procName c)" "cleanupFunc c = (cleanup \<or> cleanupFunc c0)"
    using assms(2) by (auto simp: PCD_api_register_exception_handlers_def sprintf_cap_def Let_def split: if_splits)
  have L: "0 < sizeof_exception L" "length (encode L ?e) = sizeof_exception L" using assms(1) by (simp_all add: exc_layout_ok_def)
  define st1 where "st1 = st\<lparr>tmp_files := (tmp_files st)(?f \<mapsto> t), fifo := encode L ?e\<rparr>"
  have copied: "copy_maps cos c st = st\<lparr>tmp_files := (tmp_files st)(?f \<mapsto> t)\<rparr>"
    using assms(3-6) c(1) by (simp add: copy_maps_def overwrite_def)
  have "send_record (write_answers cos) (encode L ?e) 0 (int (sizeof_exception L)) [] = Some (encode L ?e)"
    using send_record_whole [of m "write_answers cos" 0 "encode L ?e" "[]"] assms(8,9) L by fastforce
  then have handler: "PCD_exception_default_handler cos L c signo info st = Some (st1, cleanup \<or> cleanupFunc c0)"
    using assms(7,11) c(4) copied by (simp add: PCD_exception_default_handler_def st1_def Let_def)
  have "PCD_exception_listen os L [] st1 = PCD_dump_fault_info os ?e (st1\<lparr>rdset := rdset st1 \<and> fifo st1 \<noteq> [], fifo := []\<rparr>)"
    by (rule listen_assembled) (use assms(1,10,14) L in \<open>simp_all add: st1_def\<close>)
  moreover have "tmp_files st1 ?f = Some t" "process_id ?e = self_pid cos" "process_name ?e = procName c"
    by (simp_all add: st1_def crash_record_def)
  moreover have "(tmp_files st)(?f := None) = tmp_files st" using assms(6) c(1) by (simp add: fun_upd_idem)
  ultimately show ?thesis
    using handler c(2,3) dump_report [of os ?e "st1\<lparr>rdset := rdset st1 \<and> fifo st1 \<noteq> [], fifo := []\<rparr>" t] assms(12,13,15)
    by (auto simp: st1_def)
qed

section \<open>Losing a record\<close>

text \<open>when only a part of a record is there, it is read and forgotten without a trace; what arrives
  next is read from the middle of that record, so the daemon reports a crash that is made of the end
  of one record and the beginning of the next, and stays shifted by that part.  The magic number,
  which would show it, is not looked at.\<close>

theorem partial_record_shifts_the_stream:
  assumes "exc_layout_ok L" and "exc_fd st" and "\<not> select_fails os" and "0 < k" and "k < sizeof_exception L"
    and "fifo st = take k (encode L e1)"
  shows "\<exists>st1. PCD_exception_listen os L [] st = Inr st1 \<and> fifo st1 = [] \<and> console st1 = console st \<and> exc_log st1 = exc_log st
    \<and> PCD_exception_listen os L [Written (drop k (encode L e1) @ encode L e2)] st1
      = PCD_dump_fault_info os (decode L (drop k (encode L e1) @ take k (encode L e2)))
          (st1\<lparr>rdset := False, fifo := drop k (encode L e2)\<rparr>)"
proof -
  let ?n = "sizeof_exception L"
  have len: "length (encode L e) = ?n" for e using assms(1) by (simp add: exc_layout_ok_def)
  define st1 where "st1 = st\<lparr>rdset := rdset st \<and> fifo st \<noteq> [], fifo := []\<rparr>"
  have "read_record ?n [] [] (fifo st) = (None, [])" using assms(5,6) len by (intro read_record_short) simp
  then have one: "PCD_exception_listen os L [] st = Inr st1"
    using assms(2,3) by (simp add: PCD_exception_listen_def st1_def Let_def)
  let ?bs = "drop k (encode L e1) @ encode L e2"
  have "keeps_coming ?n [Written ?bs] (fifo st1)" using len assms(4,5) by (simp add: st1_def)
  from read_record_assembles [OF this, of "[]"] len assms(4,5)
  have "read_record ?n [Written ?bs] [] (fifo st1) = (Some (drop k (encode L e1) @ take k (encode L e2)), drop k (encode L e2))"
    by (simp add: st1_def)
  then have "PCD_exception_listen os L [Written ?bs] st1
      = PCD_dump_fault_info os (decode L (drop k (encode L e1) @ take k (encode L e2))) (st1\<lparr>rdset := False, fifo := drop k (encode L e2)\<rparr>)"
    using assms(2,3) by (simp add: PCD_exception_listen_def st1_def Let_def del: read_record.simps)
  with one show ?thesis by (auto simp: st1_def)
qed

lemma send_record_stuck:
  assumes "send_record answer bytes n rest q = Some r" and "rest > 0" and "\<forall>i. answer i = None"
  shows False
proof -
  have "rest > 0 \<longrightarrow> (\<forall>i. answer i = None) \<longrightarrow> False"
    by (rule send_record.raw_induct [where P = "\<lambda>answer bytes n rest q r. rest > 0 \<longrightarrow> (\<forall>i. answer i = None) \<longrightarrow> False", OF _ assms(1)])
      (auto split: if_splits option.splits)
  with assms show False by simp
qed

text \<open>a handler whose writes all fail never ends: the crashed process stays, in an endless loop at
  full speed, and its cleanup function is not called.\<close>

theorem handler_spins_when_writes_fail:
  assumes "exc_layout_ok L" and "fifo_opens cos" and "\<forall>i. write_answers cos i = None"
  shows "PCD_exception_default_handler cos L c signo info st = None"
proof (cases "send_record (write_answers cos) (encode L (crash_record cos c signo info)) 0 (int (sizeof_exception L)) (fifo (copy_maps cos c st))")
  case None
  with assms(2) show ?thesis by (simp add: PCD_exception_default_handler_def Let_def)
next
  case (Some q)
  from send_record_stuck [OF this] assms show ?thesis by (simp add: exc_layout_ok_def)
qed

section \<open>Examples\<close>

definition two_parts :: "(exception_t \<times> bool) exc_layout" where
  "two_parts = \<lparr>sizeof_exception = 2, encode = (\<lambda>e. [(e, False), (e, True)]), decode = (\<lambda>bs. fst (hd bs))\<rparr>"

definition quiet_os :: exc_os where
  "quiet_os = \<lparr>mkfifo = FifoCreated, fifo_readable = True, select_fails = False, stderr_works = True, maps_opens = True,
     log_answers = good_log_os, ctime = (\<lambda>t. int_str t @ [LF]), strsignal = int_str, strerror = int_str\<rparr>"

definition listening :: "(exception_t \<times> bool) exc_world" where
  "listening = snd (PCD_exception_init quiet_os
     \<lparr>exc_fd = False, rdset = False, exc_path = False, fifo = [], console = [], exc_log = fresh_log, tmp_files = (\<lambda>_. None)\<rparr>)"

definition no_handlers :: crash_client where
  "no_handlers = \<lparr>procName = replicate 32 NUL, cleanupFunc = False, mapsTmpFile = [], handled = {}\<rparr>"

definition crash_of :: "(nat \<Rightarrow> nat option) \<Rightarrow> crash_os" where
  "crash_of answers = \<lparr>self_pid = 7, errno_now = 0, clock_now = (3, 4), maps_text = Some ''0-1 r-xp'', tmp_opens = True,
     copied_blocks = 1, fifo_opens = True, write_answers = answers\<rparr>"

lemma example_layout: "exc_layout_ok two_parts"
  by (simp add: exc_layout_ok_def two_parts_def)

lemma example_daemon:
  "exc_fd listening" "fifo listening = []" "tmp_files listening = (\<lambda>_. None)" "console listening = []" "rdset listening"
  by (simp_all add: listening_def PCD_exception_init_def quiet_os_def)

lemma example_os: "\<not> select_fails quiet_os" "stderr_works quiet_os" "maps_opens quiet_os"
  by (simp_all add: quiet_os_def)

definition example_crash :: exception_t where
  "example_crash = crash_record (crash_of (\<lambda>_. Some 2)) no_handlers 11 \<lparr>si_code = 1, si_errno = 0, si_addr = 0\<rparr>"

theorem record_in_parts_is_reported_witness:
  "PCD_exception_listen quiet_os two_parts [Signalled, Written [(example_crash, False)], Signalled,
      Written [(example_crash, True), (example_crash, False)]] listening
    = PCD_dump_fault_info quiet_os example_crash (listening\<lparr>rdset := False, fifo := [(example_crash, False)]\<rparr>)"
  using record_in_parts_is_reported [OF example_layout example_daemon(1) example_os(1),
      of "[Signalled, Written [(example_crash, False)], Signalled, Written [(example_crash, True), (example_crash, False)]]"
        example_crash "[(example_crash, False)]"]
  by (simp add: example_daemon two_parts_def)

theorem partial_record_shifts_the_stream_witness:
  "\<exists>st1. PCD_exception_listen quiet_os two_parts [] (listening\<lparr>fifo := [(example_crash, False)]\<rparr>) = Inr st1 \<and> console st1 = []"
  using partial_record_shifts_the_stream [OF example_layout, of "listening\<lparr>fifo := [(example_crash, False)]\<rparr>" quiet_os 1 example_crash]
  by (auto simp: example_daemon example_os two_parts_def)

theorem handler_spins_when_writes_fail_witness:
  "PCD_exception_default_handler (crash_of (\<lambda>_. None)) two_parts no_handlers 11 \<lparr>si_code = 1, si_errno = 0, si_addr = 0\<rparr> listening = None"
  by (rule handler_spins_when_writes_fail [OF example_layout]) (simp_all add: crash_of_def)

definition demo_client :: crash_client where
  "demo_client = \<lparr>procName = ''demo'' @ replicate 28 NUL, cleanupFunc = True, mapsTmpFile = ''/tmp/7.maps'', handled = {2, 11, 4, 7, 3, 8}\<rparr>"

lemma demo_registered:
  "PCD_api_register_exception_handlers (Some ''demo'') True 7 no_handlers = Inr (PCD_STATUS_OK, demo_client)"
proof -
  have path: "maps_path 7 = ''/tmp/7.maps''" by code_simp
  show ?thesis
    by (simp add: PCD_api_register_exception_handlers_def path no_handlers_def demo_client_def PCD_EXCEPTION_MAX_PROCESS_NAME_def
        numeral_eq_Suc)
qed

definition demo_info :: siginfo where
  "demo_info = \<lparr>si_code = 1, si_errno = 0, si_addr = 0\<rparr>"

lemma demo_report: "length (fault_report quiet_os (crash_record (crash_of (\<lambda>i. if i = 0 then None else Some 2)) demo_client 11 demo_info)) \<le> 1022"
  by code_simp

theorem crash_reaches_console_witness:
  "\<exists>st1 st2. PCD_exception_default_handler (crash_of (\<lambda>i. if i = 0 then None else Some 2)) two_parts demo_client 11 demo_info listening
      = Some (st1, True) \<and> PCD_exception_listen quiet_os two_parts [] st1 = Inr st2 \<and> fifo st2 = []"
proof -
  let ?cos = "crash_of (\<lambda>i. if i = 0 then None else Some 2)"
  have os: "self_pid ?cos = 7" "maps_text ?cos = Some ''0-1 r-xp''" "tmp_opens ?cos" "copied_blocks ?cos = 1" "fifo_opens ?cos"
    "write_answers ?cos = (\<lambda>i. if i = 0 then None else Some 2)" by (simp_all add: crash_of_def)
  have reg: "PCD_api_register_exception_handlers (Some ''demo'') True (self_pid ?cos) no_handlers = Inr (PCD_STATUS_OK, demo_client)"
    unfolding os(1) by (rule demo_registered)
  from crash_reaches_console [OF example_layout reg os(2,3) _ _ os(5), of listening 1 quiet_os 11 demo_info] demo_report
  show ?thesis by (auto simp: os example_daemon example_os two_parts_def)
qed

end
