(* ===== verification/PcdTool.thy ===== *)
theory PcdTool imports CStrings PcdTypes begin

text \<open>
  The offline tool \<open>pcdparser\<close> (\<open>pcd/src/parser/src\<close>): it reads a rules file with the parser of the
  daemon and writes a C header with the names of the rules (\<open>outputhdr.c\<close>) and a graph of their start
  conditions in the DOT language (\<open>graph.c\<close>).  A file's text is kept with its handle and appears in the
  file system when the file is closed.
\<close>

section \<open>Lines of text\<close>

definition quoted :: "string \<Rightarrow> string" where
  "quoted s = [CHR 0x22] @ s @ [CHR 0x22]"

definition line :: "string \<Rightarrow> string" where
  "line s = s @ [LF]"

definition BACKSLASH :: char where "BACKSLASH = CHR 0x5C"

section \<open>The header\<close>

definition MAX_FILENAME_LEN :: nat where "MAX_FILENAME_LEN = 255"
definition MAX_GROUPS :: nat where "MAX_GROUPS = 16"

record header_file =
  h_text :: string
  h_groups :: "string list"

definition base_name :: "string \<Rightarrow> string" where
  "base_name s = rev (takeWhile (\<lambda>c. c \<noteq> CHR ''/'') (rev s))"

text \<open>Letters in lower case become capitals, dots and underscores become underscores, the rest is dropped.\<close>

definition guard_chars :: "char \<Rightarrow> string" where
  "guard_chars c = (if 97 \<le> (of_char c :: nat) \<and> (of_char c :: nat) \<le> 122 then [char_of ((of_char c :: nat) - 97 + 65)]
     else if c = CHR ''.'' \<or> c = CHR ''_'' then ''_'' else [])"

definition header_guard :: "string \<Rightarrow> string" where
  "header_guard s = ''_'' @ take (MAX_FILENAME_LEN - 3) (concat (map guard_chars s)) @ ''_''"

definition stars :: string where "stars = replicate 74 CHR ''*''"

definition header_preamble :: "string \<Rightarrow> string" where
  "header_preamble name =
     line (''/'' @ stars) @ line ''*'' @ line (''*   FILE:  '' @ base_name name)
     @ line ''*   PURPOSE: PCD definitions file (auto generated).'' @ line ''*'' @ line (stars @ ''/'') @ line ''''
     @ line (''#ifndef '' @ header_guard (base_name name)) @ line (''#define '' @ header_guard (base_name name)) @ line ''''
     @ line (''#include '' @ quoted ''pcdapi.h'') @ line ''''"

definition PCD_output_header_create_file :: "bool \<Rightarrow> string \<Rightarrow> header_file option \<Rightarrow> PCD_status \<times> header_file option" where
  "PCD_output_header_create_file opens name h =
     (if \<not> opens then (PCD_STATUS_NOK, h)
      else (PCD_STATUS_OK, Some \<lparr>h_text = header_preamble name, h_groups = replicate MAX_GROUPS []\<rparr>))"

text \<open>The index where the search for a group ends, and whether it has been found.\<close>

fun group_slot :: "string list \<Rightarrow> string \<Rightarrow> nat \<times> bool" where
  "group_slot [] g = (0, False)"
| "group_slot (x # xs) g =
     (if x = [] then (0, False) else if strcmp x g = 0 then (0, True)
      else case group_slot xs g of (i, found) \<Rightarrow> (Suc i, found))"

definition group_lines :: "string \<Rightarrow> string" where
  "group_lines g = line '''' @ line (''/*! '' @ [BACKSLASH] @ ''def '' @ g @ ''_PCD_GROUP_NAME'')
     @ line ('' *  '' @ [BACKSLASH] @ ''brief Define group ID string for '' @ g) @ line ''*/''
     @ line (''#define '' @ g @ ''_PCD_GROUP_NAME'' @ [TAB] @ quoted g) @ line ''''"

definition rule_line :: "rule_id \<Rightarrow> string" where
  "rule_line i = line (''#define '' @ groupName i @ ''_PCD_RULE_'' @ ruleName i @ [TAB] @ quoted (ruleName i))"

definition PCD_output_header_update_file :: "rule \<Rightarrow> header_file \<Rightarrow> header_file run" where
  "PCD_output_header_update_file r h =
     (let g = groupName (ruleId r); (i, found) = group_slot (h_groups h) g in
      bind_run (if found then Inr h
        else bind_run (sprintf_cap 32 g) (\<lambda>g.
             bind_run (write_at (h_groups h) i g) (\<lambda>gs. Inr (h\<lparr>h_groups := gs, h_text := h_text h @ group_lines g\<rparr>))))
      (\<lambda>h. Inr (h\<lparr>h_text := h_text h @ rule_line (ruleId r)\<rparr>)))"

definition macro_lines :: "string \<Rightarrow> string" where
  "macro_lines g = line '''' @ line (''/*! '' @ [BACKSLASH] @ ''def '' @ g @ ''_DECLARE_PCD_RULEID()'')
     @ line ('' *  '' @ [BACKSLASH] @ ''brief Define a ruleId easily when calling PCD API'') @ line ''*/''
     @ line (''#define '' @ g @ ''_DECLARE_PCD_RULEID( ruleId, RULE_NAME ) '' @ [BACKSLASH])
     @ line ([TAB] @ ''PCD_DECLARE_RULEID( ruleId, '' @ g @ ''_PCD_GROUP_NAME, RULE_NAME )'')"

definition PCD_output_header_close_file :: "header_file \<Rightarrow> string" where
  "PCD_output_header_close_file h =
     h_text h @ concat (map macro_lines (takeWhile (\<lambda>g. g \<noteq> []) (h_groups h))) @ line '''' @ line ''#endif'' @ line ''''"

section \<open>The graph\<close>

datatype pcdGraph = PCD_MAIN_GRAPH_ACTIVE_ONLY | PCD_MAIN_GRAPH_FULL_DISPLAY | PCD_MAIN_GRAPH_INACTIVE_ONLY | PCD_MAIN_GRAPH_LAST

record graph_file =
  g_text :: string
  graphNoStartCondCreated :: bool

definition PCD_graph_create_file :: "bool \<Rightarrow> graph_file option \<Rightarrow> PCD_status \<times> graph_file option" where
  "PCD_graph_create_file opens g =
     (if \<not> opens then (PCD_STATUS_NOK, g)
      else (PCD_STATUS_OK, Some \<lparr>g_text = line ''digraph G {'' @ line '''', graphNoStartCondCreated = False\<rparr>))"

definition PCD_graph_close_file :: "graph_file \<Rightarrow> string" where
  "PCD_graph_close_file g = g_text g @ line '''' @ line ''}''"

definition displayed :: "pcdGraph \<Rightarrow> rule \<Rightarrow> bool" where
  "displayed d r \<longleftrightarrow>
     ruleState r = PCD_RULE_ACTIVE \<and> (d = PCD_MAIN_GRAPH_ACTIVE_ONLY \<or> d = PCD_MAIN_GRAPH_FULL_DISPLAY)
     \<or> ruleState r = PCD_RULE_IDLE \<and> (d = PCD_MAIN_GRAPH_INACTIVE_ONLY \<or> d = PCD_MAIN_GRAPH_FULL_DISPLAY)"

definition node :: "rule_id \<Rightarrow> string" where
  "node i = groupName i @ ''_'' @ ruleName i"

definition label :: "string \<Rightarrow> string \<Rightarrow> string" where
  "label a b = '' [ label = '' @ quoted (a @ [BACKSLASH] @ ''n'' @ b) @ '', shape = ''"

definition no_start_node :: string where
  "no_start_node = line (''NoStartCondition'' @ label ''No Start'' ''Condition'' @ ''diamond ];'')"

text \<open>The copies into the buffer of 32 characters are bounded by those of the rule itself.\<close>

definition condition_lines :: "rule \<Rightarrow> graph_file \<Rightarrow> graph_file run" where
  "condition_lines r g =
     (let i = ruleId r;
          boxed = (\<lambda>kind s. bind_run (sprintf_cap 32 s) (\<lambda>condStr.
            Inr (g\<lparr>g_text := g_text g @ line (kind @ ''_'' @ condStr @ label (groupName i @ '':'') (ruleName i) @ ''box ];'')\<rparr>))) in
      case startCondition r of
        START_RULE_COMPLETED ids \<Rightarrow> Inr (g\<lparr>g_text := g_text g @ concat (map (\<lambda>c. line (node (rc_id c) @ '' -> '' @ node i @ '';''))
            (takeWhile (\<lambda>c. groupName (rc_id c) \<noteq> []) (take PCD_START_COND_MAX_IDS ids)))\<rparr>)
      | START_NONE \<Rightarrow> Inr (g\<lparr>g_text := g_text g @ (if graphNoStartCondCreated g then [] else no_start_node)
            @ line (''NoStartCondition -> '' @ node i @ '';''), graphNoStartCondCreated := True\<rparr>)
      | START_FILE f \<Rightarrow> boxed ''File'' f
      | START_NETDEVICE d \<Rightarrow> boxed ''Net deivce'' d
      | START_IPC_OWNER o' \<Rightarrow> boxed ''IPC'' (int_str (sint o'))
      | START_ENV_VAR n v \<Rightarrow> boxed ''Variable'' n)"

definition PCD_graph_update_file :: "pcdGraph \<Rightarrow> rule \<Rightarrow> graph_file \<Rightarrow> graph_file run" where
  "PCD_graph_update_file d r g =
     (if \<not> displayed d r then Inr g
      else bind_run (deref (command r)) (\<lambda>cmd.
        let i = ruleId r; shape = (if strcmp cmd ''NONE'' = 0 then ''diamond'' else ''ellipse'') in
        condition_lines r (g\<lparr>g_text := g_text g @ line (node i @ label (groupName i) (ruleName i) @ shape @ '' ];'')\<rparr>)))"

section \<open>The program\<close>

record tool =
  t_rules :: "string option"
  headerFilename :: "string option"
  headerHandle :: "header_file option"
  graphFilename :: "string option"
  graphHandle :: "graph_file option"
  graphDisplay :: pcdGraph
  hostPrefix :: string
  t_verbose :: bool

definition tool_init :: tool where
  "tool_init = \<lparr>t_rules = None, headerFilename = None, headerHandle = None, graphFilename = None, graphHandle = None,
     graphDisplay = PCD_MAIN_GRAPH_ACTIVE_ONLY, hostPrefix = [], t_verbose = False\<rparr>"

text \<open>\<open>graphDisplay\<close> is unsigned, and the value \<open>PCD_MAIN_GRAPH_LAST\<close> is let through.\<close>

definition display_of :: "int \<Rightarrow> pcdGraph" where
  "display_of n = (let d = (word_of_int n :: u32) in
     if d = 1 then PCD_MAIN_GRAPH_FULL_DISPLAY else if d = 2 then PCD_MAIN_GRAPH_INACTIVE_ONLY
     else if d = 3 then PCD_MAIN_GRAPH_LAST else PCD_MAIN_GRAPH_ACTIVE_ONLY)"

text \<open>An option without a case of its own, such as \<open>t\<close>, ends in \<open>abort\<close>, that is by signal 6.\<close>

definition tool_option :: "(string \<Rightarrow> bool) \<Rightarrow> char \<Rightarrow> string \<Rightarrow> tool \<Rightarrow> tool run" where
  "tool_option opens c optarg t =
     (if c = CHR ''v'' then Inr (t\<lparr>t_verbose := True\<rparr>)
      else if c = CHR ''f'' then Inr (t\<lparr>t_rules := Some optarg\<rparr>)
      else if c = CHR ''h'' then Inl (Exited 0)
      else if c = CHR ''o'' then
        (case PCD_output_header_create_file (opens optarg) optarg (headerHandle t) of (s, h) \<Rightarrow>
           if s = PCD_STATUS_NOK then Inl (Exited 1) else Inr (t\<lparr>headerFilename := Some optarg, headerHandle := h\<rparr>))
      else if c = CHR ''g'' then
        (case PCD_graph_create_file (opens optarg) (graphHandle t) of (s, g) \<Rightarrow>
           if s = PCD_STATUS_NOK then Inl (Exited 1) else Inr (t\<lparr>graphFilename := Some optarg, graphHandle := g\<rparr>))
      else if c = CHR ''d'' then Inr (t\<lparr>graphDisplay := display_of (atoi optarg)\<rparr>)
      else if c = CHR ''b'' then Inr (t\<lparr>hostPrefix := take 127 optarg\<rparr>)
      else if c = CHR ''?'' then Inr t
      else Inl (Exited 134))"

fun tool_options :: "(string \<Rightarrow> bool) \<Rightarrow> (char \<times> string) list \<Rightarrow> tool \<Rightarrow> tool run" where
  "tool_options opens [] t = Inr t"
| "tool_options opens ((c, optarg) # opts) t = bind_run (tool_option opens c optarg t) (tool_options opens opts)"

text \<open>The tool's own \<open>PCD_rulesdb_add_rule\<close>, which the parser calls for each rule.\<close>

definition tool_add_rule :: "rule \<Rightarrow> tool \<Rightarrow> tool run" where
  "tool_add_rule r t =
     bind_run (case headerHandle t of None \<Rightarrow> Inr None | Some h \<Rightarrow> bind_run (PCD_output_header_update_file r h) (\<lambda>h. Inr (Some h))) (\<lambda>h.
     bind_run (case graphHandle t of None \<Rightarrow> Inr None | Some g \<Rightarrow> bind_run (PCD_graph_update_file (graphDisplay t) r g) (\<lambda>g. Inr (Some g))) (\<lambda>g.
     Inr (t\<lparr>headerHandle := h, graphHandle := g\<rparr>)))"

fun tool_add_rules :: "rule list \<Rightarrow> tool \<Rightarrow> tool run" where
  "tool_add_rules [] t = Inr t"
| "tool_add_rules (r # rs) t = bind_run (tool_add_rule r t) (tool_add_rules rs)"

text \<open>
  \<open>parse\<close> gives, for a rules file and the prefix for included files, whether the parser succeeds and
  the rules that it hands over, in order.  The result is the exit status and the files that remain: those
  of the last \<open>-g\<close> and \<open>-o\<close> option.  A file that an earlier one of these options opened and a later one
  replaced would remain as well, and is not in the result.
\<close>

definition close_outputs :: "bool \<Rightarrow> tool \<Rightarrow> string \<Rightarrow> string option" where
  "close_outputs failed t =
     (let out = (\<lambda>name text files. case (name, text) of
            (Some f, Some s) \<Rightarrow> files(f := if failed then None else Some s)
          | _ \<Rightarrow> files)
      in out (graphFilename t) (map_option PCD_graph_close_file (graphHandle t))
        (out (headerFilename t) (map_option PCD_output_header_close_file (headerHandle t)) Map.empty))"

definition tool_main ::
    "(string \<Rightarrow> bool) \<Rightarrow> (string \<Rightarrow> string \<Rightarrow> bool \<times> rule list) \<Rightarrow> (char \<times> string) list \<Rightarrow> (int \<times> (string \<Rightarrow> string option)) run" where
  "tool_main opens parse opts =
     bind_run (tool_options opens opts tool_init) (\<lambda>t.
     case t_rules t of
       None \<Rightarrow> Inr (1, close_outputs True t)
     | Some f \<Rightarrow> (case parse f (hostPrefix t) of (ok, rs) \<Rightarrow>
         bind_run (tool_add_rules rs t) (\<lambda>t.
         if ok then Inr (0, close_outputs False t) else Inr (1, close_outputs True t))))"

end
