(* ===== verification/PcdToolOk.thy ===== *)
theory PcdToolOk imports PcdTool PcdShipped begin

text \<open>
  The header that the offline tool writes, as a function of the rules of the file.
\<close>

section \<open>First occurrences\<close>

definition firsts :: "'a list \<Rightarrow> 'a list" where
  "firsts xs = rev (remdups (rev xs))"

lemma firsts_Nil [simp]: "firsts [] = []"
  by (simp add: firsts_def)

lemma firsts_snoc: "firsts (xs @ [x]) = firsts xs @ (if x \<in> set xs then [] else [x])"
  by (simp add: firsts_def)

lemma set_firsts [simp]: "set (firsts xs) = set xs"
  by (simp add: firsts_def)

lemma distinct_firsts [simp]: "distinct (firsts xs)"
  by (simp add: firsts_def)

section \<open>What the header consists of\<close>

datatype header_item = GroupDef string | RuleDef rule_id

definition group_of :: "rule \<Rightarrow> string" where
  "group_of r = groupName (ruleId r)"

text \<open>Before its first rule a group is defined; then each rule.\<close>

definition items_at :: "rule list \<Rightarrow> nat \<Rightarrow> header_item list" where
  "items_at rs i = (if group_of (rs ! i) \<in> group_of ` set (take i rs) then [] else [GroupDef (group_of (rs ! i))])
     @ [RuleDef (ruleId (rs ! i))]"

definition header_items :: "rule list \<Rightarrow> header_item list" where
  "header_items rs = concat (map (items_at rs) [0..<length rs])"

fun item_text :: "header_item \<Rightarrow> string" where
  "item_text (GroupDef g) = group_lines g"
| "item_text (RuleDef i) = rule_line i"

definition groups_in :: "rule list \<Rightarrow> string list" where
  "groups_in rs = firsts (map group_of rs)"

definition header_of :: "string \<Rightarrow> rule list \<Rightarrow> string" where
  "header_of name rs = header_preamble name @ concat (map item_text (header_items rs))
     @ concat (map macro_lines (groups_in rs)) @ line '''' @ line ''#endif'' @ line ''''"

lemma items_at_append: "i < length rs \<Longrightarrow> items_at (rs @ ss) i = items_at rs i"
  by (simp add: items_at_def nth_append)

lemma header_items_snoc:
  "header_items (rs @ [r]) = header_items rs
     @ (if group_of r \<in> group_of ` set rs then [] else [GroupDef (group_of r)]) @ [RuleDef (ruleId r)]"
proof -
  have "map (items_at (rs @ [r])) [0..<length rs] = map (items_at rs) [0..<length rs]"
    by (rule map_cong) (simp_all add: items_at_append)
  then have "header_items (rs @ [r]) = header_items rs @ items_at (rs @ [r]) (length rs)"
    by (simp only: header_items_def length_append_singleton upt_Suc_append le0 map_append concat_append list.map concat.simps append_Nil2)
  then show ?thesis by (simp add: items_at_def)
qed

lemma header_items_Nil [simp]: "header_items [] = []"
  by (simp add: header_items_def)

lemma groups_in_snoc: "groups_in (rs @ [r]) = groups_in rs @ (if group_of r \<in> group_of ` set rs then [] else [group_of r])"
  by (simp add: groups_in_def firsts_snoc)

lemma groups_in_Nil [simp]: "groups_in [] = []"
  by (simp add: groups_in_def)

lemma set_groups_in [simp]: "set (groups_in rs) = group_of ` set rs"
  by (simp add: groups_in_def)

lemma header_items_rules: "[i. RuleDef i \<leftarrow> header_items rs] = map ruleId rs"
  by (induction rs rule: rev_induct) (simp_all add: header_items_snoc)

lemma header_items_groups: "[g. GroupDef g \<leftarrow> header_items rs] = groups_in rs"
  by (induction rs rule: rev_induct) (simp_all add: header_items_snoc groups_in_snoc)

section \<open>The table of groups\<close>

definition table :: "string list \<Rightarrow> string list" where
  "table gs = gs @ replicate (MAX_GROUPS - length gs) []"

lemma group_slot_table:
  assumes "[] \<notin> set gs" and "g \<noteq> []"
  shows "group_slot (gs @ replicate k []) g = (if g \<in> set gs then (length (takeWhile (\<lambda>x. x \<noteq> g) gs), True) else (length gs, False))"
  using assms(1)
proof (induction gs)
  case Nil
  show ?case by (cases k) simp_all
next
  case (Cons x gs)
  then show ?case by auto
qed

lemma table_known:
  assumes "[] \<notin> set gs" and "g \<in> set gs"
  shows "snd (group_slot (table gs) g)"
proof -
  from assms have "g \<noteq> []" by auto
  with assms show ?thesis by (simp add: table_def group_slot_table)
qed

lemma table_new:
  assumes "[] \<notin> set gs" and "g \<noteq> []" and "g \<notin> set gs" and "length gs < MAX_GROUPS"
  shows "group_slot (table gs) g = (length gs, False)" "write_at (table gs) (length gs) g = Inr (table (gs @ [g]))"
proof -
  show "group_slot (table gs) g = (length gs, False)" using assms by (simp add: table_def group_slot_table)
  have "table gs = gs @ [] # replicate (MAX_GROUPS - Suc (length gs)) []"
    unfolding table_def using assms(4) by (metis Suc_diff_Suc replicate_Suc)
  then show "write_at (table gs) (length gs) g = Inr (table (gs @ [g]))"
    by (simp add: table_def write_at_def list_update_append)
qed

lemma table_full:
  assumes "[] \<notin> set gs" and "g \<noteq> []" and "g \<notin> set gs" and "length gs = MAX_GROUPS"
  shows "group_slot (table gs) g = (length gs, False)" "write_at (table gs) (length gs) g = Inl OutOfBounds"
  using assms by (simp_all add: table_def group_slot_table [of gs g 0, simplified])

section \<open>The rules of a file\<close>

definition good_group :: "rule \<Rightarrow> bool" where
  "good_group r \<longleftrightarrow> group_of r \<noteq> [] \<and> length (group_of r) < 32"

definition header_after :: "string \<Rightarrow> rule list \<Rightarrow> header_file" where
  "header_after name rs = \<lparr>h_text = header_preamble name @ concat (map item_text (header_items rs)), h_groups = table (groups_in rs)\<rparr>"

lemma good_groups: "\<forall>r \<in> set rs. good_group r \<Longrightarrow> [] \<notin> set (groups_in rs)"
  by (auto simp: good_group_def)

lemma update_header:
  assumes "\<forall>r \<in> set (rs @ [r]). good_group r" and "length (groups_in (rs @ [r])) \<le> MAX_GROUPS"
  shows "PCD_output_header_update_file r (header_after name rs) = Inr (header_after name (rs @ [r]))"
proof -
  have ok: "[] \<notin> set (groups_in rs)" using assms(1) good_groups by simp
  have g: "groupName (ruleId r) = group_of r" "group_of r \<noteq> []" "length (group_of r) < 32"
    using assms(1) by (simp_all add: group_of_def good_group_def)
  show ?thesis
  proof (cases "group_of r \<in> group_of ` set rs")
    case True
    then have "snd (group_slot (table (groups_in rs)) (group_of r))" using table_known [OF ok] by simp
    with True g show ?thesis
      by (simp add: PCD_output_header_update_file_def header_after_def header_items_snoc groups_in_snoc split_def Let_def)
  next
    case False
    then have "length (groups_in rs) < MAX_GROUPS" "group_of r \<notin> set (groups_in rs)" using assms(2) by (simp_all add: groups_in_snoc)
    with False g table_new [OF ok g(2)] show ?thesis
      by (simp add: PCD_output_header_update_file_def header_after_def header_items_snoc groups_in_snoc Let_def)
  qed
qed

lemma tool_add_rules_append: "tool_add_rules (rs @ ss) t = bind_run (tool_add_rules rs t) (tool_add_rules ss)"
proof (induction rs arbitrary: t)
  case (Cons r rs)
  then show ?case by (cases "tool_add_rule r t") simp_all
qed simp

lemma add_rules_header:
  assumes "\<forall>r \<in> set rs. good_group r" and "length (groups_in rs) \<le> MAX_GROUPS"
    and "headerHandle t = Some (header_after name [])" and "graphHandle t = None"
  shows "tool_add_rules rs t = Inr (t\<lparr>headerHandle := Some (header_after name rs)\<rparr>)"
  using assms(1,2)
proof (induction rs rule: rev_induct)
  case (snoc r rs)
  from snoc.prems have "length (groups_in rs) \<le> MAX_GROUPS" by (simp add: groups_in_snoc split: if_splits)
  with snoc have "tool_add_rules rs t = Inr (t\<lparr>headerHandle := Some (header_after name rs)\<rparr>)" by simp
  with update_header [OF snoc.prems, of name] show ?case
    using assms(4) by (simp add: tool_add_rules_append tool_add_rule_def)
qed (use assms(3) in simp)

definition header_options :: "string \<Rightarrow> string \<Rightarrow> (char \<times> string) list" where
  "header_options file name = [(CHR ''f'', file), (CHR ''o'', name)]"

definition tool_start :: "string \<Rightarrow> string \<Rightarrow> tool" where
  "tool_start file name = tool_init\<lparr>t_rules := Some file, headerFilename := Some name, headerHandle := Some (header_after name [])\<rparr>"

lemma tool_options_header: "opens name \<Longrightarrow> tool_options opens (header_options file name) tool_init = Inr (tool_start file name)"
  by (simp add: header_options_def tool_option_def PCD_output_header_create_file_def tool_start_def header_after_def table_def)

lemma tool_start_simps [simp]:
  "t_rules (tool_start file name) = Some file" "headerHandle (tool_start file name) = Some (header_after name [])"
  "graphHandle (tool_start file name) = None" "headerFilename (tool_start file name) = Some name"
  "hostPrefix (tool_start file name) = []" "graphFilename (tool_start file name) = None"
  by (simp_all add: tool_start_def tool_init_def)

lemma close_header:
  assumes "[] \<notin> set (groups_in rs)"
  shows "PCD_output_header_close_file (header_after name rs) = header_of name rs"
proof -
  have "takeWhile (\<lambda>g. g \<noteq> []) (table (groups_in rs)) = groups_in rs"
    unfolding table_def using assms by (subst takeWhile_append2) (auto intro: ccontr simp del: set_groups_in)
  then show ?thesis by (simp add: PCD_output_header_close_file_def header_after_def header_of_def)
qed

text \<open>C33: for a rules file with at most sixteen groups the tool writes one header and nothing else: after
  the preamble it defines each rule of the file once, in the order of the file, and each group once,
  before the first of its rules; at the end there is one macro for each group.  When the parser
  fails, the status is 1 and no file is left.\<close>

theorem header_defines_every_rule:
  assumes "opens name" and "parse file [] = (ok, rs)" and "\<forall>r \<in> set rs. good_group r" and "length (groups_in rs) \<le> MAX_GROUPS"
  shows "tool_main opens parse (header_options file name)
      = Inr (if ok then (0, [name \<mapsto> header_of name rs]) else (1, Map.empty))
    \<and> [i. RuleDef i \<leftarrow> header_items rs] = map ruleId rs \<and> [g. GroupDef g \<leftarrow> header_items rs] = groups_in rs
    \<and> distinct (groups_in rs) \<and> set (groups_in rs) = group_of ` set rs"
proof -
  have "tool_add_rules rs (tool_start file name) = Inr ((tool_start file name)\<lparr>headerHandle := Some (header_after name rs)\<rparr>)"
    by (rule add_rules_header [OF assms(3,4)]) simp_all
  moreover have "PCD_output_header_close_file (header_after name rs) = header_of name rs"
    by (rule close_header [OF good_groups [OF assms(3)]])
  ultimately have "tool_main opens parse (header_options file name)
      = Inr (if ok then (0, [name \<mapsto> header_of name rs]) else (1, Map.empty))"
    using assms(1,2) by (simp add: tool_main_def tool_options_header close_outputs_def)
  then show ?thesis by (simp add: header_items_rules header_items_groups) (simp add: groups_in_def)
qed

theorem header_defines_every_rule_witness:
  "tool_main (\<lambda>_. True) (\<lambda>_ _. spec_file Map.empty system_statements) (header_options ''system.pcd'' ''system.h'')
    = Inr (0, [''system.h'' \<mapsto> header_of ''system.h'' [appmanager_rule, dispatcher_rule]])"
proof -
  have g: "group_of appmanager_rule = ''SYSTEM''" "group_of dispatcher_rule = ''SYSTEM''"
    by (simp_all add: group_of_def appmanager_rule_def dispatcher_rule_def)
  then have "groups_in [appmanager_rule, dispatcher_rule] = [''SYSTEM'']" by (simp add: groups_in_def firsts_def)
  with g header_defines_every_rule [of "\<lambda>_. True" "''system.h''" "\<lambda>_ _. spec_file Map.empty system_statements" "''system.pcd''" True
      "[appmanager_rule, dispatcher_rule]"]
  show ?thesis by (simp add: system_spec good_group_def MAX_GROUPS_def)
qed

text \<open>a seventeenth group is written behind the end of the table of group names, since the index is not
  checked where the group is added.\<close>

theorem seventeenth_group_overflows:
  assumes "opens name" and "parse file [] = (ok, rs @ [r] @ ss)" and "\<forall>x \<in> set (rs @ [r]). good_group x"
    and "length (groups_in rs) = MAX_GROUPS" and "group_of r \<notin> group_of ` set rs"
  shows "tool_main opens parse (header_options file name) = Inl OutOfBounds"
proof -
  let ?t = "(tool_start file name)\<lparr>headerHandle := Some (header_after name rs)\<rparr>"
  have rs: "tool_add_rules rs (tool_start file name) = Inr ?t"
    by (rule add_rules_header) (use assms(3,4) in simp_all)
  have ok: "[] \<notin> set (groups_in rs)" using assms(3) good_groups by simp
  have "groupName (ruleId r) = group_of r" "group_of r \<noteq> []" "length (group_of r) < 32"
    using assms(3) by (simp_all add: group_of_def good_group_def)
  with table_full [OF ok, of "group_of r"] assms(4,5)
  have "PCD_output_header_update_file r (header_after name rs) = Inl OutOfBounds"
    by (simp add: PCD_output_header_update_file_def header_after_def Let_def)
  then have "tool_add_rules (rs @ [r] @ ss) (tool_start file name) = Inl OutOfBounds"
    by (simp add: tool_add_rules_append rs tool_add_rule_def)
  with assms(1,2) show ?thesis by (simp add: tool_main_def tool_options_header)
qed

definition numbered_rule :: "nat \<Rightarrow> rule" where
  "numbered_rule n = blank_rule\<lparr>ruleId := \<lparr>groupName = replicate (Suc n) CHR ''A'', ruleName = ''R''\<rparr>\<rparr>"

lemma group_of_numbered: "group_of (numbered_rule n) = replicate (Suc n) CHR ''A''"
  by (simp add: group_of_def numbered_rule_def)

lemma groups_in_numbered: "length (groups_in (map numbered_rule [0..<n])) = n"
proof -
  have "distinct (map (group_of \<circ> numbered_rule) [0..<n])"
    by (auto simp: distinct_map inj_on_def group_of_numbered replicate_eq_replicate)
  then show ?thesis by (simp add: groups_in_def firsts_def remdups_id_iff_distinct [THEN iffD2] distinct_rev flip: length_remdups_card_conv)
qed

theorem seventeenth_group_overflows_witness:
  "tool_main (\<lambda>_. True) (\<lambda>_ _. (True, map numbered_rule [0..<17])) (header_options ''many.pcd'' ''many.h'') = Inl OutOfBounds"
proof -
  have split: "map numbered_rule [0..<17] = map numbered_rule [0..<16] @ [numbered_rule 16] @ []"
    using upt_Suc_append [of 0 16] by (simp del: upt_Suc)
  have new: "group_of (numbered_rule 16) \<notin> group_of ` set (map numbered_rule [0..<16])"
    by (auto simp: group_of_numbered replicate_eq_replicate simp del: replicate_Suc)
  have good: "\<forall>x \<in> set (map numbered_rule [0..<16] @ [numbered_rule 16]). good_group x"
    by (auto simp: good_group_def group_of_numbered simp del: replicate_Suc)
  have full: "length (groups_in (map numbered_rule [0..<16])) = MAX_GROUPS"
    by (simp only: groups_in_numbered MAX_GROUPS_def)
  show ?thesis unfolding split
    by (rule seventeenth_group_overflows [OF TrueI refl good full new])
qed

end
