(* ===== verification/RingConc.thy ===== *)
theory RingConc imports RteRing begin

text \<open>
  Several lcores on one ring: the multi-producer and multi-consumer operations of \<open>rte_ring.h\<close> as
  interleaved steps.  A step is one access to the shared ring: a read of an index, the \<open>cmpset\<close> of a
  head, the copy of one object, or a pass of the loop that waits for the tail.  Accesses take effect in
  the order of the steps; that is what the compiler barriers give on x86.
\<close>

section \<open>What a thread is doing\<close>

text \<open>
  The arguments are the local variables of the call: the objects (or their number), the behavior, the
  head that was read, the free entries, the number \<open>n\<close> of entries.  \<open>Crashed\<close> is an access outside the
  ring.
\<close>

datatype 'a activity =
    Idle
  | Crashed
  | EnqHead "'a list" queue_behavior
  | EnqTail "'a list" queue_behavior u32
  | EnqCas "'a list" queue_behavior u32 u32 u32
  | EnqCopy "'a list" queue_behavior u32 u32 nat
  | EnqWait nat u32 int
  | EnqDone int
  | DeqHead u32 queue_behavior
  | DeqTail u32 queue_behavior u32
  | DeqCas u32 queue_behavior u32 u32
  | DeqCopy nat queue_behavior u32 "'a list"
  | DeqWait nat u32 int "'a list"
  | DeqDone int "'a list"

definition slot_index :: "u32 \<Rightarrow> nat \<Rightarrow> 'a rte_ring \<Rightarrow> nat" where
  "slot_index head i r = unat ((head + of_nat i) AND p_mask r)"

text \<open>One step of \<open>__rte_ring_mp_do_enqueue\<close>; the copy proceeds slot by slot from the masked head, modulo the size.\<close>

fun producer_step :: "'a rte_ring \<Rightarrow> 'a activity \<Rightarrow> 'a rte_ring \<times> 'a activity" where
  "producer_step r (EnqHead objs b) = (r, EnqTail objs b (p_head r))"
| "producer_step r (EnqTail objs b prod_head) =
     (let free_entries = p_mask r + c_tail r - prod_head in
      case ring_quota b ENOBUFS (of_nat (length objs)) free_entries of
        Inl ret \<Rightarrow> (r, EnqDone ret)
      | Inr n \<Rightarrow> (r, EnqCas objs b prod_head free_entries n))"
| "producer_step r (EnqCas objs b prod_head free_entries n) =
     (if p_head r = prod_head then (r\<lparr>p_head := prod_head + n\<rparr>, EnqCopy (take (unat n) objs) b prod_head free_entries 0)
      else (r, EnqHead objs b))"
| "producer_step r (EnqCopy xs b prod_head free_entries i) =
     (if i < length xs then
        (let idx = slot_index prod_head i r in
         if idx < length (slots r) then (r\<lparr>slots := (slots r)[idx := xs ! i]\<rparr>, EnqCopy xs b prod_head free_entries (Suc i))
         else (r, Crashed))
      else (r, EnqWait (length xs) prod_head (enqueue_code b free_entries (of_nat (length xs)) r)))"
| "producer_step r (EnqWait n prod_head ret) =
     (if p_tail r = prod_head then (r\<lparr>p_tail := prod_head + of_nat n\<rparr>, EnqDone ret) else (r, EnqWait n prod_head ret))"
| "producer_step r a = (r, a)"

text \<open>One step of \<open>__rte_ring_mc_do_dequeue\<close>.\<close>

fun consumer_step :: "'a rte_ring \<Rightarrow> 'a activity \<Rightarrow> 'a rte_ring \<times> 'a activity" where
  "consumer_step r (DeqHead n b) = (r, DeqTail n b (c_head r))"
| "consumer_step r (DeqTail n b cons_head) =
     (case ring_quota b ENOENT n (p_tail r - cons_head) of
        Inl ret \<Rightarrow> (r, DeqDone ret [])
      | Inr m \<Rightarrow> (r, DeqCas n b cons_head m))"
| "consumer_step r (DeqCas n b cons_head m) =
     (if c_head r = cons_head then (r\<lparr>c_head := cons_head + m\<rparr>, DeqCopy (unat m) b cons_head [])
      else (r, DeqHead n b))"
| "consumer_step r (DeqCopy n b cons_head got) =
     (if length got < n then
        (let idx = slot_index cons_head (length got) r in
         if idx < length (slots r) then (r, DeqCopy n b cons_head (got @ [slots r ! idx])) else (r, Crashed))
      else (r, DeqWait n cons_head (if b = RTE_RING_QUEUE_FIXED then 0 else int n) got))"
| "consumer_step r (DeqWait n cons_head ret got) =
     (if c_tail r = cons_head then (r\<lparr>c_tail := cons_head + of_nat n\<rparr>, DeqDone ret got) else (r, DeqWait n cons_head ret got))"
| "consumer_step r a = (r, a)"

fun consuming :: "'a activity \<Rightarrow> bool" where
  "consuming (DeqHead n b) = True"
| "consuming (DeqTail n b h) = True"
| "consuming (DeqCas n b h m) = True"
| "consuming (DeqCopy n b h got) = True"
| "consuming (DeqWait n h ret got) = True"
| "consuming a = False"

definition thread_step :: "'a rte_ring \<Rightarrow> 'a activity \<Rightarrow> 'a rte_ring \<times> 'a activity" where
  "thread_step r a = (if consuming a then consumer_step r a else producer_step r a)"

lemma thread_step_simps [simp]:
  "\<not> consuming a \<Longrightarrow> thread_step r a = producer_step r a"
  "consuming a \<Longrightarrow> thread_step r a = consumer_step r a"
  by (simp_all add: thread_step_def)

text \<open>A call with nothing to do returns at once.\<close>

definition begin_enqueue :: "'a list \<Rightarrow> queue_behavior \<Rightarrow> 'a activity" where
  "begin_enqueue objs b = (if objs = [] then EnqDone 0 else EnqHead objs b)"

definition begin_dequeue :: "u32 \<Rightarrow> queue_behavior \<Rightarrow> 'a activity" where
  "begin_dequeue n b = (if n = 0 then DeqDone 0 [] else DeqHead n b)"

fun finished :: "'a activity \<Rightarrow> bool" where
  "finished (EnqDone ret) = True"
| "finished (DeqDone ret got) = True"
| "finished a = False"

section \<open>The system\<close>

text \<open>
  Besides the ring and the activities of the threads there is a history, which no step reads: all
  objects ever put in, in the order of their reservations (\<open>inp\<close>); all objects ever received, in the
  order in which the calls completed (\<open>out\<close>); the unbounded counts behind the tail of the producers and
  the head of the consumers; and for each thread the unbounded count behind the head it has read.
\<close>

record 'a conc =
  ring :: "'a rte_ring"
  acts :: "nat \<Rightarrow> 'a activity"
  inp :: "'a list"
  out :: "'a list"
  pt :: nat
  ch :: nat
  pos :: "nat \<Rightarrow> nat"

definition conc_init :: "'a rte_ring \<Rightarrow> 'a conc" where
  "conc_init r = \<lparr>ring = r, acts = (\<lambda>_. Idle), inp = [], out = [], pt = 0, ch = 0, pos = (\<lambda>_. 0)\<rparr>"

fun record_history :: "nat \<Rightarrow> 'a activity \<Rightarrow> 'a conc \<Rightarrow> 'a conc" where
  "record_history i (EnqHead objs b) s = s\<lparr>pos := (pos s)(i := length (inp s))\<rparr>"
| "record_history i (EnqCas objs b h free n) s = (if p_head (ring s) = h then s\<lparr>inp := inp s @ take (unat n) objs\<rparr> else s)"
| "record_history i (EnqWait n h ret) s = (if p_tail (ring s) = h then s\<lparr>pt := pt s + n\<rparr> else s)"
| "record_history i (DeqHead n b) s = s\<lparr>pos := (pos s)(i := ch s)\<rparr>"
| "record_history i (DeqCas n b h m) s = (if c_head (ring s) = h then s\<lparr>ch := ch s + unat m\<rparr> else s)"
| "record_history i (DeqWait n h ret got) s = (if c_tail (ring s) = h then s\<lparr>out := out s @ got\<rparr> else s)"
| "record_history i a s = s"

definition conc_step :: "nat \<Rightarrow> 'a conc \<Rightarrow> 'a conc" where
  "conc_step i s = (case thread_step (ring s) (acts s i) of (r, a) \<Rightarrow>
     (record_history i (acts s i) s)\<lparr>ring := r, acts := (acts s)(i := a)\<rparr>)"

text \<open>
  The indices have 32 bits, so a thread that sleeps between its read of a head and its \<open>cmpset\<close> while
  the head goes round once would not notice.  \<open>in_time\<close> excludes that.
\<close>

fun reads_head :: "'a activity \<Rightarrow> bool" where
  "reads_head (EnqTail objs b h) = True"
| "reads_head (EnqCas objs b h free n) = True"
| "reads_head (DeqTail n b h) = True"
| "reads_head (DeqCas n b h m) = True"
| "reads_head a = False"

definition in_time :: "nat \<Rightarrow> 'a conc \<Rightarrow> bool" where
  "in_time i s \<longleftrightarrow> (reads_head (acts s i) \<longrightarrow> length (inp s) < pos s i + 2 ^ 32)"

text \<open>What can happen from a state on while only the threads in \<open>P\<close> do something.\<close>

inductive runs :: "(nat \<Rightarrow> bool) \<Rightarrow> 'a conc \<Rightarrow> 'a conc \<Rightarrow> bool" for P s0 where
  start: "runs P s0 s0"
| enqueue: "runs P s0 s \<Longrightarrow> P i \<Longrightarrow> acts s i = Idle \<Longrightarrow> length objs < 2 ^ 32
    \<Longrightarrow> runs P s0 (s\<lparr>acts := (acts s)(i := begin_enqueue objs b)\<rparr>)"
| dequeue: "runs P s0 s \<Longrightarrow> P i \<Longrightarrow> acts s i = Idle \<Longrightarrow> runs P s0 (s\<lparr>acts := (acts s)(i := begin_dequeue n b)\<rparr>)"
| return: "runs P s0 s \<Longrightarrow> P i \<Longrightarrow> finished (acts s i) \<Longrightarrow> runs P s0 (s\<lparr>acts := (acts s)(i := Idle)\<rparr>)"
| step: "runs P s0 s \<Longrightarrow> P i \<Longrightarrow> in_time i s \<Longrightarrow> runs P s0 (conc_step i s)"

definition reaches :: "'a rte_ring \<Rightarrow> 'a conc \<Rightarrow> bool" where
  "reaches r s \<longleftrightarrow> runs (\<lambda>_. True) (conc_init r) s"

end
