(* ===== verification/RingConcOk.thy ===== *)
theory RingConcOk imports RingConc begin

text \<open>
  The invariant of the ring under any interleaving: the positions that producers and consumers have
  reserved tile the part of the ring that is in motion, and every slot in use holds the object of its
  position.
\<close>

section \<open>Positions and slots\<close>

lemma slot_index_eq:
  assumes "k \<le> 28" and "p_mask r = 2 ^ k - 1"
  shows "slot_index (of_nat p) i r = (p + i) mod 2 ^ k"
proof -
  have "unat (of_nat p + of_nat i :: u32) mod 2 ^ k = (unat (of_nat p :: u32) + i) mod 2 ^ k" by (rule unat_plus_mod [OF assms(1)])
  also have "\<dots> = (p + i) mod 2 ^ k" using unat_plus_mod [OF assms(1), of 0 p] by (simp add: mod_simps) (metis mod_add_left_eq)
  finally show ?thesis unfolding slot_index_def assms(2) unat_masked .
qed

lemma mod_distinct:
  assumes "x < y" and "y < x + N"
  shows "x mod N \<noteq> y mod (N :: nat)"
proof
  assume "x mod N = y mod N"
  then have "N dvd y - x" using assms(1) by (metis mod_eq_dvd_iff_nat less_imp_le)
  with assms show False by (auto dest: dvd_imp_le)
qed

lemma of_nat_u32_eq:
  assumes "a \<le> b" and "b < a + 2 ^ 32" and "(of_nat a :: u32) = of_nat b"
  shows "a = b"
proof -
  have "(of_nat (b - a) :: u32) = 0" using assms(1,3) by (simp add: of_nat_diff)
  then have "unat (of_nat (b - a) :: u32) = 0" by simp
  then have "(b - a) mod 2 ^ 32 = 0" by (simp add: unat_of_nat)
  moreover have "b - a < 2 ^ 32" using assms(2) by simp
  ultimately have "b - a = 0" by (metis mod_less)
  with assms(1) show ?thesis by simp
qed

section \<open>The invariant\<close>

fun espan :: "'a activity \<Rightarrow> nat \<Rightarrow> nat set" where
  "espan (EnqCopy xs b h free i) p = {p..<p + length xs}"
| "espan (EnqWait n h ret) p = {p..<p + n}"
| "espan a p = {}"

fun dspan :: "'a activity \<Rightarrow> nat \<Rightarrow> nat set" where
  "dspan (DeqCopy n b h got) p = {p..<p + n}"
| "dspan (DeqWait n h ret got) p = {p..<p + n}"
| "dspan a p = {}"

text \<open>
  What holds for one thread, where \<open>N\<close> is the size, \<open>xs\<close> all objects put in, \<open>o'\<close> the number of objects
  received, \<open>t\<close> and \<open>c\<close> the counts of published objects and of reserved ones, \<open>sl\<close> the slots.
\<close>

fun act_ok :: "nat \<Rightarrow> 'a list \<Rightarrow> nat \<Rightarrow> nat \<Rightarrow> nat \<Rightarrow> 'a list \<Rightarrow> 'a activity \<Rightarrow> nat \<Rightarrow> bool" where
  "act_ok N xs o' t c sl Crashed p \<longleftrightarrow> False"
| "act_ok N xs o' t c sl (EnqHead objs b) p \<longleftrightarrow> objs \<noteq> [] \<and> length objs < 2 ^ 32"
| "act_ok N xs o' t c sl (EnqTail objs b h) p \<longleftrightarrow> objs \<noteq> [] \<and> length objs < 2 ^ 32 \<and> h = of_nat p \<and> p \<le> length xs \<and> p < o' + N"
| "act_ok N xs o' t c sl (EnqCas objs b h free n) p \<longleftrightarrow> objs \<noteq> [] \<and> length objs < 2 ^ 32 \<and> h = of_nat p \<and> p \<le> length xs
    \<and> n \<noteq> 0 \<and> n \<le> free \<and> unat n \<le> length objs \<and> (\<exists>r \<le> o'. p < r + N \<and> free = of_nat (r + N - 1 - p))"
| "act_ok N xs o' t c sl (EnqCopy ys b h free i) p \<longleftrightarrow> h = of_nat p \<and> ys \<noteq> [] \<and> i \<le> length ys \<and> p + length ys \<le> length xs
    \<and> (\<forall>j < length ys. xs ! (p + j) = ys ! j) \<and> (\<forall>j < i. sl ! ((p + j) mod N) = ys ! j)"
| "act_ok N xs o' t c sl (EnqWait n h ret) p \<longleftrightarrow> h = of_nat p \<and> n \<noteq> 0 \<and> p + n \<le> length xs
    \<and> (\<forall>j < n. sl ! ((p + j) mod N) = xs ! (p + j))"
| "act_ok N xs o' t c sl (DeqTail n b h) p \<longleftrightarrow> n \<noteq> 0 \<and> h = of_nat p \<and> p \<le> c"
| "act_ok N xs o' t c sl (DeqHead n b) p \<longleftrightarrow> n \<noteq> 0"
| "act_ok N xs o' t c sl (DeqCas n b h m) p \<longleftrightarrow> n \<noteq> 0 \<and> h = of_nat p \<and> p \<le> c \<and> m \<noteq> 0 \<and> (\<exists>r \<le> t. p \<le> r \<and> m \<le> of_nat (r - p))"
| "act_ok N xs o' t c sl (DeqCopy n b h got) p \<longleftrightarrow> h = of_nat p \<and> n \<noteq> 0 \<and> p + n \<le> c \<and> length got \<le> n \<and> got = take (length got) (drop p xs)"
| "act_ok N xs o' t c sl (DeqWait n h ret got) p \<longleftrightarrow> h = of_nat p \<and> n \<noteq> 0 \<and> p + n \<le> c \<and> length got = n \<and> got = take n (drop p xs)"
| "act_ok N xs o' t c sl a p \<longleftrightarrow> True"

definition ring_ok :: "nat \<Rightarrow> 'a conc \<Rightarrow> bool" where
  "ring_ok k s \<longleftrightarrow> p_size (ring s) = 2 ^ k \<and> c_size (ring s) = 2 ^ k \<and> p_mask (ring s) = 2 ^ k - 1 \<and> length (slots (ring s)) = 2 ^ k
     \<and> p_head (ring s) = of_nat (length (inp s)) \<and> p_tail (ring s) = of_nat (pt s)
     \<and> c_head (ring s) = of_nat (ch s) \<and> c_tail (ring s) = of_nat (length (out s))"

definition counts_ok :: "nat \<Rightarrow> 'a conc \<Rightarrow> bool" where
  "counts_ok N s \<longleftrightarrow> length (out s) \<le> ch s \<and> ch s \<le> pt s \<and> pt s \<le> length (inp s) \<and> length (inp s) < length (out s) + N
     \<and> out s = take (length (out s)) (inp s)"

definition tiles :: "(nat \<Rightarrow> nat set) \<Rightarrow> nat \<Rightarrow> nat \<Rightarrow> bool" where
  "tiles S a b \<longleftrightarrow> (\<Union>i. S i) = {a..<b} \<and> (\<forall>i j. i \<noteq> j \<longrightarrow> S i \<inter> S j = {})"

definition published :: "nat \<Rightarrow> 'a conc \<Rightarrow> bool" where
  "published N s \<longleftrightarrow> (\<forall>x. length (out s) \<le> x \<and> x < pt s \<longrightarrow> slots (ring s) ! (x mod N) = inp s ! x)"

definition espans :: "'a conc \<Rightarrow> nat \<Rightarrow> nat set" where
  "espans s i = espan (acts s i) (pos s i)"

definition dspans :: "'a conc \<Rightarrow> nat \<Rightarrow> nat set" where
  "dspans s i = dspan (acts s i) (pos s i)"

definition threads_ok :: "nat \<Rightarrow> 'a conc \<Rightarrow> bool" where
  "threads_ok N s \<longleftrightarrow> (\<forall>i. act_ok N (inp s) (length (out s)) (pt s) (ch s) (slots (ring s)) (acts s i) (pos s i))"

definition conc_ok :: "nat \<Rightarrow> 'a conc \<Rightarrow> bool" where
  "conc_ok k s \<longleftrightarrow> k \<le> 28 \<and> ring_ok k s \<and> counts_ok (2 ^ k) s \<and> published (2 ^ k) s \<and> threads_ok (2 ^ k) s
     \<and> tiles (espans s) (pt s) (length (inp s)) \<and> tiles (dspans s) (length (out s)) (ch s)"

section \<open>Tilings\<close>

lemma tiles_same:
  assumes "tiles S a b" and "T i = S i" and "\<And>j. j \<noteq> i \<Longrightarrow> T j = S j"
  shows "tiles T a b"
proof -
  have "T = S" using assms(2,3) by (metis ext)
  with assms(1) show ?thesis by simp
qed

lemma tiles_extend:
  assumes "tiles S a b" and "S i = {}" and "T i = {b..<c}" and "\<And>j. j \<noteq> i \<Longrightarrow> T j = S j" and "a \<le> b" and "b \<le> c"
  shows "tiles T a c"
proof -
  have sub: "S j \<subseteq> {a..<b}" for j using assms(1) by (auto simp: tiles_def)
  have "(\<Union>j. T j) = (\<Union>j. S j) \<union> {b..<c}"
  proof (rule set_eqI)
    fix x
    have "x \<in> T j \<longleftrightarrow> (if j = i then x \<in> {b..<c} else x \<in> S j)" for j using assms(3,4) by simp
    then show "x \<in> (\<Union>j. T j) \<longleftrightarrow> x \<in> (\<Union>j. S j) \<union> {b..<c}"
      using assms(2) by (simp only: UN_iff Un_iff UNIV_I bex_simps) (metis empty_iff)
  qed
  also have "\<dots> = {a..<c}" using assms(1,5,6) by (auto simp: tiles_def)
  moreover have "T j \<inter> T l = {}" if "j \<noteq> l" for j l
  proof -
    have "S j \<inter> S l = {}" using assms(1) that by (simp add: tiles_def)
    with sub [of j] sub [of l] that show ?thesis
      by (cases "j = i"; cases "l = i") (auto simp: assms(3,4))
  qed
  ultimately show ?thesis by (simp add: tiles_def)
qed

lemma tiles_finish:
  assumes "tiles S a b" and "S i = {a..<a + n}" and "T i = {}" and "\<And>j. j \<noteq> i \<Longrightarrow> T j = S j"
  shows "tiles T (a + n) b"
proof -
  have dis: "S j \<inter> S i = {}" if "j \<noteq> i" for j using assms(1) that by (simp add: tiles_def)
  have "(\<Union>j. T j) = (\<Union>j. S j) - S i"
  proof (rule set_eqI)
    fix x
    have "x \<in> T j \<longleftrightarrow> j \<noteq> i \<and> x \<in> S j" for j using assms(3,4) by (cases "j = i") simp_all
    then show "x \<in> (\<Union>j. T j) \<longleftrightarrow> x \<in> (\<Union>j. S j) - S i"
      using dis by (simp only: UN_iff Diff_iff UNIV_I bex_simps) (metis disjoint_iff)
  qed
  also have "\<dots> = {a + n..<b}" using assms(1,2) by (auto simp: tiles_def)
  moreover have "T j \<inter> T l = {}" if "j \<noteq> l" for j l
    using assms(1,3,4) that by (metis Int_empty_left Int_empty_right tiles_def)
  ultimately show ?thesis by (simp add: tiles_def)
qed

section \<open>Frames\<close>

lemma act_ok_mono:
  assumes "act_ok N xs o1 t c sl a p" and "o1 \<le> o2" and "t \<le> t'" and "c \<le> c'" and "c \<le> length xs"
    and "\<forall>x \<in> espan a p. sl' ! (x mod N) = sl ! (x mod N)"
  shows "act_ok N (xs @ ys) o2 t' c' sl' a p"
proof (cases a)
  case (EnqCas objs b h free n)
  with assms(1) obtain r where "r \<le> o1" "p < r + N" "free = of_nat (r + N - 1 - p)" by auto
  then have "\<exists>r \<le> o2. p < r + N \<and> free = of_nat (r + N - 1 - p)" using assms(2) le_trans by blast
  with EnqCas assms(1) show ?thesis by simp
next
  case (DeqCas n b h m)
  with assms(1) obtain r where "r \<le> t" "p \<le> r" "m \<le> of_nat (r - p)" by auto
  then have "\<exists>r \<le> t'. p \<le> r \<and> m \<le> of_nat (r - p)" using assms(3) le_trans by blast
  with DeqCas assms(1,4) show ?thesis by auto
qed (use assms in \<open>auto simp: nth_append\<close>)

lemma threads_frame:
  assumes "threads_ok N s" and "ch s \<le> length (inp s)" and "acts s' = (acts s)(i := a)" and "\<forall>j. j \<noteq> i \<longrightarrow> pos s' j = pos s j"
    and "inp s' = inp s @ ys" and "length (out s) \<le> length (out s')" and "pt s \<le> pt s'" and "ch s \<le> ch s'"
    and "\<forall>j. j \<noteq> i \<longrightarrow> (\<forall>x \<in> espans s j. slots (ring s') ! (x mod N) = slots (ring s) ! (x mod N))"
    and "act_ok N (inp s') (length (out s')) (pt s') (ch s') (slots (ring s')) a (pos s' i)"
  shows "threads_ok N s'"
  unfolding threads_ok_def
proof
  fix j
  show "act_ok N (inp s') (length (out s')) (pt s') (ch s') (slots (ring s')) (acts s' j) (pos s' j)"
  proof (cases "j = i")
    case True
    with assms(3,10) show ?thesis by simp
  next
    case False
    have "act_ok N (inp s) (length (out s)) (pt s) (ch s) (slots (ring s)) (acts s j) (pos s j)"
      using assms(1) by (simp add: threads_ok_def)
    from act_ok_mono [OF this assms(6,7,8,2)] show ?thesis
      using False assms(3-5,9) by (simp add: espans_def)
  qed
qed

text \<open>A step that changes nothing but what the thread itself knows.\<close>

lemma local_step:
  assumes "conc_ok k s" and "ring s' = ring s" and "inp s' = inp s" "out s' = out s" "pt s' = pt s" "ch s' = ch s"
    and "acts s' = (acts s)(i := a)" and "\<forall>j. j \<noteq> i \<longrightarrow> pos s' j = pos s j"
    and "espan a (pos s' i) = espans s i" and "dspan a (pos s' i) = dspans s i"
    and "act_ok (2 ^ k) (inp s) (length (out s)) (pt s) (ch s) (slots (ring s)) a (pos s' i)"
  shows "conc_ok k s'"
proof -
  have "threads_ok (2 ^ k) s'"
    by (rule threads_frame [where s = s and i = i and ys = "[]"]) (use assms in \<open>auto simp: conc_ok_def counts_ok_def\<close>)
  moreover have "espans s' = espans s" "dspans s' = dspans s"
    using assms(7-10) by (auto simp: espans_def dspans_def fun_eq_iff)
  ultimately show ?thesis
    using assms(1-6) by (simp add: conc_ok_def ring_ok_def counts_ok_def published_def)
qed

lemma act_okD: "conc_ok k s \<Longrightarrow> act_ok (2 ^ k) (inp s) (length (out s)) (pt s) (ch s) (slots (ring s)) (acts s i) (pos s i)"
  by (simp add: conc_ok_def threads_ok_def)

lemma conc_okD:
  assumes "conc_ok k s"
  shows "k \<le> 28" "ring_ok k s" "counts_ok (2 ^ k) s" "published (2 ^ k) s" "threads_ok (2 ^ k) s"
    "tiles (espans s) (pt s) (length (inp s))" "tiles (dspans s) (length (out s)) (ch s)"
  using assms by (simp_all add: conc_ok_def)

lemma size_bound: "k \<le> 28 \<Longrightarrow> (2 :: nat) ^ k < 2 ^ 32"
  using pow_bound [of k] by simp

lemma mask_word: "(2 ^ k - 1 :: u32) = of_nat (2 ^ k - 1)"
  by (simp add: of_nat_diff)

section \<open>Steps of a producer\<close>

lemma quota_Inr:
  assumes "ring_quota b err n free = Inr m" and "n \<noteq> 0"
  shows "m \<noteq> 0" "m \<le> free" "m \<le> n"
  using assms by (auto simp: ring_quota_def split: if_splits)

lemma step_EnqTail:
  assumes ok: "conc_ok k s" and a: "acts s i = EnqTail objs b h"
  shows "conc_ok k (conc_step i s)"
proof -
  note act = act_okD [OF ok, of i, unfolded a act_ok.simps]
  have len: "unat (of_nat (length objs) :: u32) = length objs" using act by (simp add: unat_of_nat)
  then have len0: "(of_nat (length objs) :: u32) \<noteq> 0" using act by (metis length_0_conv unat_0)
  show ?thesis
  proof (cases "ring_quota b ENOBUFS (of_nat (length objs)) (p_mask (ring s) + c_tail (ring s) - h)")
    case (Inl ret)
    then have "conc_step i s = s\<lparr>ring := ring s, acts := (acts s)(i := EnqDone ret)\<rparr>"
      by (simp add: conc_step_def a)
    then show ?thesis
      by (intro local_step [OF ok, where i = i and a = "EnqDone ret"]) (simp_all add: espans_def dspans_def a)
  next
    case (Inr n)
    let ?free = "p_mask (ring s) + c_tail (ring s) - h"
    have step: "conc_step i s = s\<lparr>ring := ring s, acts := (acts s)(i := EnqCas objs b h ?free n)\<rparr>"
      using Inr by (simp add: conc_step_def a)
    have w: "p_mask (ring s) = 2 ^ k - 1" "c_tail (ring s) = of_nat (length (out s))" "h = of_nat (pos s i)"
      using conc_okD(2) [OF ok] act by (simp_all add: ring_ok_def)
    have "?free = of_nat (2 ^ k - 1) + of_nat (length (out s)) - of_nat (pos s i)" by (simp only: w mask_word)
    also have "\<dots> = of_nat (2 ^ k - 1 + length (out s)) - of_nat (pos s i)" by (simp only: of_nat_add)
    also have "\<dots> = of_nat (2 ^ k - 1 + length (out s) - pos s i)"
      by (rule of_nat_diff [symmetric]) (use act in linarith)
    also have "2 ^ k - 1 + length (out s) - pos s i = length (out s) + 2 ^ k - 1 - pos s i" by simp
    finally have free: "?free = of_nat (length (out s) + 2 ^ k - 1 - pos s i)" .
    note q = quota_Inr [OF Inr len0]
    have "unat n \<le> length objs" using q(3) len by (metis word_le_nat_alt)
    with q free act show ?thesis
      by (intro local_step [OF ok, where i = i and a = "EnqCas objs b h ?free n"]) (auto simp: step espans_def dspans_def a)
  qed
qed

lemma step_EnqHead:
  assumes ok: "conc_ok k s" and a: "acts s i = EnqHead objs b"
  shows "conc_ok k (conc_step i s)"
proof -
  note act = act_okD [OF ok, of i, unfolded a act_ok.simps]
  show ?thesis
    by (intro local_step [OF ok, where i = i and a = "EnqTail objs b (p_head (ring s))"])
      (use act conc_okD(2,3) [OF ok] in \<open>auto simp: conc_step_def a espans_def dspans_def ring_ok_def counts_ok_def\<close>)
qed

lemma tiles_sub: "tiles S a b \<Longrightarrow> x \<in> S i \<Longrightarrow> a \<le> x \<and> x < b"
  by (auto simp: tiles_def)

lemma tiles_disjoint: "tiles S a b \<Longrightarrow> x \<in> S i \<Longrightarrow> x \<in> S j \<Longrightarrow> i = j"
  by (auto simp: tiles_def)

text \<open>Two positions in use have different slots.\<close>

lemma slots_differ:
  assumes "counts_ok N s" and "length (out s) \<le> x" "x < length (inp s)" "length (out s) \<le> y" "y < length (inp s)" and "x \<noteq> y"
  shows "x mod N \<noteq> y mod N"
proof (cases "x < y")
  case True
  then show ?thesis using assms(1-5) by (intro mod_distinct) (simp_all add: counts_ok_def)
next
  case False
  then have "y mod N \<noteq> x mod N" using assms by (intro mod_distinct) (simp_all add: counts_ok_def)
  then show ?thesis by simp
qed

lemma step_EnqCas:
  assumes ok: "conc_ok k s" and time: "in_time i s" and a: "acts s i = EnqCas objs b h free n"
  shows "conc_ok k (conc_step i s)"
proof (cases "p_head (ring s) = h")
  case False
  note act = act_okD [OF ok, of i, unfolded a act_ok.simps]
  show ?thesis
    by (intro local_step [OF ok, where i = i and a = "EnqHead objs b"])
      (use act False in \<open>auto simp: conc_step_def a espans_def dspans_def\<close>)
next
  case True
  note act = act_okD [OF ok, of i, unfolded a act_ok.simps] and d = conc_okD [OF ok]
  let ?xs = "take (unat n) objs" and ?N = "2 ^ k :: nat"
  have step: "conc_step i s = s\<lparr>inp := inp s @ ?xs, ring := (ring s)\<lparr>p_head := h + n\<rparr>, acts := (acts s)(i := EnqCopy ?xs b h free 0)\<rparr>"
    using True by (simp add: conc_step_def a)
  have late: "length (inp s) < pos s i + 2 ^ 32" using time reads_head.simps(2) unfolding in_time_def by (metis a)
  have p: "pos s i = length (inp s)"
    by (rule of_nat_u32_eq) (use act True d(2) late in \<open>auto simp: ring_ok_def\<close>)
  obtain r where r: "r \<le> length (out s)" "pos s i < r + ?N" "free = of_nat (r + ?N - 1 - pos s i)" using act by blast
  have c: "length (out s) \<le> length (inp s)" using d(3) by (simp add: counts_ok_def)
  have "unat free = r + ?N - 1 - pos s i"
    unfolding r(3) by (rule unat_u32) (use r c p size_bound [OF d(1)] in linarith)
  moreover have "unat n \<le> unat free" using act by (simp add: word_le_nat_alt)
  ultimately have room: "length (inp s) + unat n < length (out s) + ?N" using r(1,2) p by linarith
  have len: "length ?xs = unat n" and pos: "0 < unat n" using act by (simp_all add: unat_gt_0)
  have "threads_ok ?N (conc_step i s)"
    by (rule threads_frame [OF d(5), where i = i and ys = ?xs])
      (use d(3) act p len pos in \<open>auto simp: step counts_ok_def nth_append\<close>)
  moreover have "tiles (espans (conc_step i s)) (pt s) (length (inp s) + unat n)"
    by (rule tiles_extend [OF d(6), where i = i])
      (use d(3) len p in \<open>auto simp: step espans_def a counts_ok_def\<close>)
  moreover have "tiles (dspans (conc_step i s)) (length (out s)) (ch s)"
    by (rule tiles_same [OF d(7), where i = i]) (auto simp: step dspans_def a)
  moreover have "ring_ok k (conc_step i s)"
    using d(2) act p len by (simp add: ring_ok_def step)
  ultimately show ?thesis
    using d(1,3,4) room len by (auto simp: conc_ok_def counts_ok_def published_def step nth_append)
qed

lemma step_EnqCopy:
  assumes ok: "conc_ok k s" and a: "acts s i = EnqCopy xs b h free c"
  shows "conc_ok k (conc_step i s)"
proof (cases "c < length xs")
  case False
  note act = act_okD [OF ok, of i, unfolded a act_ok.simps]
  let ?a = "EnqWait (length xs) h (enqueue_code b free (of_nat (length xs)) (ring s))"
  show ?thesis
    by (intro local_step [OF ok, where i = i and a = ?a])
      (use act False in \<open>auto simp: conc_step_def a espans_def dspans_def\<close>)
next
  case True
  note act = act_okD [OF ok, of i, unfolded a act_ok.simps] and d = conc_okD [OF ok]
  let ?N = "2 ^ k :: nat" and ?x = "pos s i + c"
  have idx: "slot_index h c (ring s) = ?x mod ?N"
    using slot_index_eq [OF d(1), of "ring s" "pos s i" c] act d(2) by (simp add: ring_ok_def)
  have "?x mod ?N < length (slots (ring s))" using d(2) by (simp add: ring_ok_def)
  then have step: "conc_step i s = s\<lparr>ring := (ring s)\<lparr>slots := (slots (ring s))[?x mod ?N := xs ! c]\<rparr>,
      acts := (acts s)(i := EnqCopy xs b h free (Suc c))\<rparr>" using True by (simp add: conc_step_def a idx)
  have mine: "?x \<in> espans s i" using True by (simp add: espans_def a)
  from tiles_sub [OF d(6) this] have x: "pt s \<le> ?x" "?x < length (inp s)" by auto
  have "pos s i \<in> espans s i" using True by (cases xs) (simp_all add: espans_def a)
  from tiles_sub [OF d(6) this] have first: "pt s \<le> pos s i" by auto
  have same: "slots (ring (conc_step i s)) ! (y mod ?N) = slots (ring s) ! (y mod ?N)"
    if "length (out s) \<le> y" "y < length (inp s)" "y \<noteq> ?x" for y
  proof -
    have "length (out s) \<le> ?x" using x d(3) by (simp add: counts_ok_def)
    with slots_differ [OF d(3) that(1,2) _ x(2)] that(3) show ?thesis by (simp add: step)
  qed
  have others: "\<forall>j. j \<noteq> i \<longrightarrow> (\<forall>y \<in> espans s j. slots (ring (conc_step i s)) ! (y mod ?N) = slots (ring s) ! (y mod ?N))"
  proof (intro allI impI ballI)
    fix j y
    assume j: "j \<noteq> i" and y: "y \<in> espans s j"
    have "y \<noteq> ?x" using tiles_disjoint [OF d(6) y] mine j by blast
    moreover have "length (out s) \<le> y" "y < length (inp s)" using tiles_sub [OF d(6) y] d(3) by (simp_all add: counts_ok_def)
    ultimately show "slots (ring (conc_step i s)) ! (y mod ?N) = slots (ring s) ! (y mod ?N)" by (intro same)
  qed
  have own: "slots (ring (conc_step i s)) ! ((pos s i + j) mod ?N) = xs ! j" if "j < Suc c" for j
  proof (cases "j = c")
    case True
    with d(2) show ?thesis by (simp add: step ring_ok_def)
  next
    case False
    then have "slots (ring (conc_step i s)) ! ((pos s i + j) mod ?N) = slots (ring s) ! ((pos s i + j) mod ?N)"
      using that x d(3) first by (intro same) (auto simp: counts_ok_def)
    with act that False show ?thesis by simp
  qed
  have "threads_ok ?N (conc_step i s)"
    by (rule threads_frame [OF d(5), where i = i and ys = "[]" and a = "EnqCopy xs b h free (Suc c)"])
      (use d(3) act True others own in \<open>simp_all add: step counts_ok_def\<close>)
  moreover have "published ?N (conc_step i s)"
    unfolding published_def
  proof (intro allI impI)
    fix y
    assume y: "length (out (conc_step i s)) \<le> y \<and> y < pt (conc_step i s)"
    then have "slots (ring (conc_step i s)) ! (y mod ?N) = slots (ring s) ! (y mod ?N)"
      using x d(3) by (intro same) (auto simp: step counts_ok_def)
    with y d(4) show "slots (ring (conc_step i s)) ! (y mod ?N) = inp (conc_step i s) ! y" by (simp add: published_def step)
  qed
  moreover have "espans (conc_step i s) = espans s" "dspans (conc_step i s) = dspans s"
    by (auto simp: espans_def dspans_def step a fun_eq_iff)
  moreover have "ring_ok k (conc_step i s)" "counts_ok ?N (conc_step i s)"
    using d(2,3) by (simp_all add: ring_ok_def counts_ok_def step)
  ultimately show ?thesis using d(1,6,7) by (simp add: conc_ok_def) (simp add: step)
qed

lemma step_EnqWait:
  assumes ok: "conc_ok k s" and a: "acts s i = EnqWait n h ret"
  shows "conc_ok k (conc_step i s)"
proof (cases "p_tail (ring s) = h")
  case False
  then have "conc_step i s = s\<lparr>ring := ring s, acts := (acts s)(i := EnqWait n h ret)\<rparr>" by (simp add: conc_step_def a)
  also have "\<dots> = s" by (simp add: a [symmetric])
  finally show ?thesis using ok by simp
next
  case True
  note act = act_okD [OF ok, of i, unfolded a act_ok.simps] and d = conc_okD [OF ok]
  let ?N = "2 ^ k :: nat"
  have step: "conc_step i s = s\<lparr>pt := pt s + n, ring := (ring s)\<lparr>p_tail := h + of_nat n\<rparr>, acts := (acts s)(i := EnqDone ret)\<rparr>"
    using True by (simp add: conc_step_def a)
  have "pos s i \<in> espans s i" using act by (simp add: espans_def a)
  from tiles_sub [OF d(6) this] have x: "pt s \<le> pos s i" "pos s i < length (inp s)" by auto
  have p: "pt s = pos s i"
    by (rule of_nat_u32_eq) (use act True d(2,3) x size_bound [OF d(1)] in \<open>auto simp: ring_ok_def counts_ok_def\<close>)
  have "threads_ok ?N (conc_step i s)"
    by (rule threads_frame [OF d(5), where i = i and ys = "[]"]) (use d(3) in \<open>auto simp: step counts_ok_def\<close>)
  moreover have "tiles (espans (conc_step i s)) (pt s + n) (length (inp s))"
    by (rule tiles_finish [OF d(6), where i = i]) (auto simp: step espans_def a p)
  moreover have "tiles (dspans (conc_step i s)) (length (out s)) (ch s)"
    by (rule tiles_same [OF d(7), where i = i]) (auto simp: step dspans_def a)
  moreover have "ring_ok k (conc_step i s)" using d(2) act p by (simp add: ring_ok_def step)
  moreover have "counts_ok ?N (conc_step i s)" using d(3) act p by (simp add: counts_ok_def step)
  moreover have "published ?N (conc_step i s)"
    unfolding published_def
  proof (intro allI impI)
    fix y
    assume y: "length (out (conc_step i s)) \<le> y \<and> y < pt (conc_step i s)"
    show "slots (ring (conc_step i s)) ! (y mod ?N) = inp (conc_step i s) ! y"
    proof (cases "y < pt s")
      case True
      with y d(4) show ?thesis by (simp add: published_def step)
    next
      case False
      with y p have "y - pos s i < n" "y = pos s i + (y - pos s i)" by (auto simp: step)
      then have "slots (ring s) ! (y mod ?N) = inp s ! y" using act by metis
      then show ?thesis by (simp add: step)
    qed
  qed
  ultimately show ?thesis using d(1) by (simp add: conc_ok_def) (simp add: step)
qed

section \<open>Steps of a consumer\<close>

lemma step_DeqHead:
  assumes ok: "conc_ok k s" and a: "acts s i = DeqHead n b"
  shows "conc_ok k (conc_step i s)"
proof -
  note act = act_okD [OF ok, of i, unfolded a act_ok.simps]
  show ?thesis
    by (intro local_step [OF ok, where i = i and a = "DeqTail n b (c_head (ring s))"])
      (use act conc_okD(2) [OF ok] in \<open>auto simp: conc_step_def a espans_def dspans_def ring_ok_def\<close>)
qed

lemma step_DeqTail:
  assumes ok: "conc_ok k s" and a: "acts s i = DeqTail n b h"
  shows "conc_ok k (conc_step i s)"
proof -
  note act = act_okD [OF ok, of i, unfolded a act_ok.simps] and d = conc_okD [OF ok]
  show ?thesis
  proof (cases "ring_quota b ENOENT n (p_tail (ring s) - h)")
    case (Inl ret)
    then have "conc_step i s = s\<lparr>ring := ring s, acts := (acts s)(i := DeqDone ret [])\<rparr>"
      by (simp add: conc_step_def a)
    then show ?thesis
      by (intro local_step [OF ok, where i = i and a = "DeqDone ret []"]) (simp_all add: espans_def dspans_def a)
  next
    case (Inr m)
    then have step: "conc_step i s = s\<lparr>ring := ring s, acts := (acts s)(i := DeqCas n b h m)\<rparr>"
      by (simp add: conc_step_def a)
    have le: "pos s i \<le> pt s" using act d(3) by (simp add: counts_ok_def)
    have "p_tail (ring s) - h = of_nat (pt s - pos s i)"
      using act d(2) le by (simp add: ring_ok_def of_nat_diff)
    with quota_Inr [OF Inr] act le show ?thesis
      by (intro local_step [OF ok, where i = i and a = "DeqCas n b h m"]) (auto simp: step espans_def dspans_def a)
  qed
qed

lemma step_DeqCas:
  assumes ok: "conc_ok k s" and time: "in_time i s" and a: "acts s i = DeqCas n b h m"
  shows "conc_ok k (conc_step i s)"
proof (cases "c_head (ring s) = h")
  case False
  note act = act_okD [OF ok, of i, unfolded a act_ok.simps]
  show ?thesis
    by (intro local_step [OF ok, where i = i and a = "DeqHead n b"])
      (use act False in \<open>auto simp: conc_step_def a espans_def dspans_def\<close>)
next
  case True
  note act = act_okD [OF ok, of i, unfolded a act_ok.simps] and d = conc_okD [OF ok]
  let ?N = "2 ^ k :: nat"
  have step: "conc_step i s = s\<lparr>ch := ch s + unat m, ring := (ring s)\<lparr>c_head := h + m\<rparr>, acts := (acts s)(i := DeqCopy (unat m) b h [])\<rparr>"
    using True by (simp add: conc_step_def a)
  have late: "length (inp s) < pos s i + 2 ^ 32" using time reads_head.simps(4) unfolding in_time_def by (metis a)
  have p: "pos s i = ch s"
    by (rule of_nat_u32_eq) (use act True d(2,3) late in \<open>auto simp: ring_ok_def counts_ok_def\<close>)
  obtain r where r: "r \<le> pt s" "pos s i \<le> r" "m \<le> of_nat (r - pos s i)" using act by blast
  have "unat (of_nat (r - pos s i) :: u32) = r - pos s i"
    by (rule unat_u32) (use r p d(3) size_bound [OF d(1)] in \<open>unfold counts_ok_def, linarith\<close>)
  moreover have "unat m \<le> unat (of_nat (r - pos s i) :: u32)" using r(3) by (simp add: word_le_nat_alt)
  ultimately have room: "ch s + unat m \<le> pt s" using r(1,2) p by linarith
  have pos: "0 < unat m" using act by (simp add: unat_gt_0)
  have "threads_ok ?N (conc_step i s)"
    by (rule threads_frame [OF d(5), where i = i and ys = "[]" and a = "DeqCopy (unat m) b h []"])
      (use d(3) act p pos in \<open>auto simp: step counts_ok_def\<close>)
  moreover have "tiles (dspans (conc_step i s)) (length (out s)) (ch s + unat m)"
    by (rule tiles_extend [OF d(7), where i = i])
      (use d(3) p in \<open>auto simp: step dspans_def a counts_ok_def\<close>)
  moreover have "tiles (espans (conc_step i s)) (pt s) (length (inp s))"
    by (rule tiles_same [OF d(6), where i = i]) (auto simp: step espans_def a)
  moreover have "ring_ok k (conc_step i s)" using d(2) act p by (simp add: ring_ok_def step)
  ultimately show ?thesis
    using d(1,3,4) room by (auto simp: conc_ok_def counts_ok_def published_def step)
qed

lemma step_DeqCopy:
  assumes ok: "conc_ok k s" and a: "acts s i = DeqCopy n b h got"
  shows "conc_ok k (conc_step i s)"
proof (cases "length got < n")
  case False
  note act = act_okD [OF ok, of i, unfolded a act_ok.simps]
  let ?a = "DeqWait n h (if b = RTE_RING_QUEUE_FIXED then 0 else int n) got"
  have len: "length got = n" using False act by simp
  with act have "got = take n (drop (pos s i) (inp s))" by metis
  with len act False show ?thesis
    by (intro local_step [OF ok, where i = i and a = ?a]) (auto simp: conc_step_def a espans_def dspans_def)
next
  case True
  note act = act_okD [OF ok, of i, unfolded a act_ok.simps] and d = conc_okD [OF ok]
  let ?N = "2 ^ k :: nat" and ?x = "pos s i + length got"
  have idx: "slot_index h (length got) (ring s) = ?x mod ?N"
    using slot_index_eq [OF d(1), of "ring s" "pos s i" "length got"] act d(2) by (simp add: ring_ok_def)
  have "?x \<in> dspans s i" using True by (simp add: dspans_def a)
  from tiles_sub [OF d(7) this] have x: "length (out s) \<le> ?x" "?x < ch s" by auto
  then have val: "slots (ring s) ! (?x mod ?N) = inp s ! ?x" using d(3,4) by (simp add: counts_ok_def published_def)
  have in_slots: "?x mod ?N < length (slots (ring s))" using d(2) by (simp add: ring_ok_def)
  define g where "g = got @ [inp s ! ?x]"
  have step: "conc_step i s = s\<lparr>ring := ring s, acts := (acts s)(i := DeqCopy n b h g)\<rparr>"
    using True in_slots by (simp add: conc_step_def a idx val g_def)
  have "?x < length (inp s)" using x d(3) by (simp add: counts_ok_def)
  then have "g = take (length g) (drop (pos s i) (inp s))" "length g \<le> n"
    using act True by (simp_all add: g_def take_Suc_conv_app_nth)
  with act show ?thesis
    by (intro local_step [OF ok, where i = i and a = "DeqCopy n b h g"]) (simp_all add: step espans_def dspans_def a)
qed

lemma step_DeqWait:
  assumes ok: "conc_ok k s" and a: "acts s i = DeqWait n h ret got"
  shows "conc_ok k (conc_step i s)"
proof (cases "c_tail (ring s) = h")
  case False
  then have "conc_step i s = s\<lparr>ring := ring s, acts := (acts s)(i := DeqWait n h ret got)\<rparr>" by (simp add: conc_step_def a)
  also have "\<dots> = s" by (simp add: a [symmetric])
  finally show ?thesis using ok by simp
next
  case True
  note act = act_okD [OF ok, of i, unfolded a act_ok.simps] and d = conc_okD [OF ok]
  let ?N = "2 ^ k :: nat"
  have step: "conc_step i s = s\<lparr>out := out s @ got, ring := (ring s)\<lparr>c_tail := h + of_nat n\<rparr>, acts := (acts s)(i := DeqDone ret got)\<rparr>"
    using True by (simp add: conc_step_def a)
  have "pos s i \<in> dspans s i" using act by (simp add: dspans_def a)
  from tiles_sub [OF d(7) this] have x: "length (out s) \<le> pos s i" "pos s i < ch s" by auto
  have p: "length (out s) = pos s i"
    by (rule of_nat_u32_eq) (use act True d(2,3) x size_bound [OF d(1)] in \<open>auto simp: ring_ok_def counts_ok_def\<close>)
  have len: "length got = n" and got: "got = take n (drop (pos s i) (inp s))" using act by blast+
  have out: "out s @ got = take (length (out s) + n) (inp s)"
    using d(3) got p unfolding counts_ok_def by (metis take_add)
  have "threads_ok ?N (conc_step i s)"
    by (rule threads_frame [OF d(5), where i = i and ys = "[]" and a = "DeqDone ret got"]) (use d(3) in \<open>simp_all add: step counts_ok_def\<close>)
  moreover have "tiles (dspans (conc_step i s)) (length (out s) + n) (ch s)"
    by (rule tiles_finish [OF d(7), where i = i]) (auto simp: step dspans_def a p)
  moreover have "tiles (espans (conc_step i s)) (pt s) (length (inp s))"
    by (rule tiles_same [OF d(6), where i = i]) (auto simp: step espans_def a)
  moreover have "ring_ok k (conc_step i s)" using d(2) act p len by (simp add: ring_ok_def step)
  moreover have "counts_ok ?N (conc_step i s)"
    using d(3) act p len out by (simp add: counts_ok_def step)
  moreover have "published ?N (conc_step i s)" using d(4) by (simp add: published_def step)
  ultimately show ?thesis using d(1) len by (simp add: conc_ok_def) (simp add: step)
qed

section \<open>Every reachable state\<close>

lemma conc_ok_step:
  assumes ok: "conc_ok k s" and time: "in_time i s"
  shows "conc_ok k (conc_step i s)"
proof -
  have stay: "conc_ok k (conc_step i s)" if "thread_step (ring s) (acts s i) = (ring s, acts s i)" "record_history i (acts s i) s = s"
  proof -
    have "conc_step i s = s" using that by (simp add: conc_step_def)
    with ok show ?thesis by simp
  qed
  note steps = step_EnqHead [OF ok] step_EnqTail [OF ok] step_EnqCas [OF ok time] step_EnqCopy [OF ok] step_EnqWait [OF ok]
    step_DeqHead [OF ok] step_DeqTail [OF ok] step_DeqCas [OF ok time] step_DeqCopy [OF ok] step_DeqWait [OF ok]
  show ?thesis by (cases "acts s i") (auto intro: steps stay)
qed

text \<open>A ring fresh from \<open>rte_ring_init\<close>.\<close>

definition fresh_ring :: "nat \<Rightarrow> 'a rte_ring \<Rightarrow> bool" where
  "fresh_ring k r \<longleftrightarrow> k \<le> 28 \<and> (\<exists>name fl cells. rte_ring_init name (2 ^ k) fl cells = (0, r) \<and> length cells = 2 ^ k)"

lemma conc_ok_init: "fresh_ring k r \<Longrightarrow> conc_ok k (conc_init r)"
  by (auto simp: fresh_ring_def rte_ring_init_def Let_def ENAMETOOLONG_def conc_ok_def ring_ok_def counts_ok_def published_def
      threads_ok_def tiles_def espans_def dspans_def conc_init_def split: if_splits)

lemma conc_ok_call:
  assumes "conc_ok k s" and "acts s i = Idle \<or> finished (acts s i)" and "espan a (pos s i) = {}" "dspan a (pos s i) = {}"
    and "act_ok (2 ^ k) (inp s) (length (out s)) (pt s) (ch s) (slots (ring s)) a (pos s i)"
  shows "conc_ok k (s\<lparr>acts := (acts s)(i := a)\<rparr>)"
  by (rule local_step [OF assms(1), where i = i and a = a])
    (use assms(2-5) in \<open>cases "acts s i"; auto simp: espans_def dspans_def\<close>)+

lemma conc_ok_runs:
  assumes "runs P s0 s" and "conc_ok k s0"
  shows "conc_ok k s"
  using assms
proof induction
  case (enqueue s i objs b)
  then show ?case by (intro conc_ok_call) (auto simp: begin_enqueue_def)
next
  case (dequeue s i n b)
  then show ?case by (intro conc_ok_call) (auto simp: begin_dequeue_def)
next
  case (return s i)
  then show ?case by (intro conc_ok_call) auto
next
  case (step s i)
  then show ?case by (intro conc_ok_step)
qed

lemma conc_ok_reaches: "fresh_ring k r \<Longrightarrow> reaches r s \<Longrightarrow> conc_ok k s"
  unfolding reaches_def by (rule conc_ok_runs [OF _ conc_ok_init])

end
