(* ===== verification/RingConcSafe.thy ===== *)
theory RingConcSafe imports RingConcOk "HOL-Library.Sublist" begin

text \<open>
  What the ring promises to several producers and consumers, and what it does not.
\<close>

section \<open>First in, first out\<close>

text \<open>C7: whatever the interleaving of any number of producers and consumers on a fresh ring: what the
  consumers have received, in the order in which their calls completed, is an initial part of what the
  producers have put in, in the order of their reservations; so nothing is lost, duplicated, reordered
  or read before it has been written.  At most size minus one objects are on their way, and no thread
  accesses a slot outside the ring.  The only condition is that the head does not go round 32 bits
  between a thread's read of it and its \<open>cmpset\<close>.\<close>

theorem concurrent_ring_is_fifo:
  assumes "fresh_ring k r" and "reaches r s"
  shows "prefix (out s) (inp s) \<and> length (inp s) < length (out s) + 2 ^ k \<and> acts s i \<noteq> Crashed"
proof -
  from conc_ok_reaches [OF assms] have ok: "conc_ok k s" .
  have "out s = take (length (out s)) (inp s)" "length (inp s) < length (out s) + 2 ^ k"
    using conc_okD(3) [OF ok] by (simp_all add: counts_ok_def)
  moreover have "acts s i \<noteq> Crashed" using act_okD [OF ok, of i] by auto
  ultimately show ?thesis by (metis take_is_prefix)
qed

section \<open>Quiescence\<close>

lemma tiles_empty: "tiles S a b \<Longrightarrow> (\<And>i. S i = {}) \<Longrightarrow> a \<le> b \<Longrightarrow> a = b"
  by (auto simp: tiles_def)

lemma mod_shift:
  assumes "k \<le> 28"
  shows "(unat (of_nat a :: u32) + i) mod 2 ^ k = (a + i) mod 2 ^ k"
proof -
  have "unat (of_nat a :: u32) mod 2 ^ k = a mod 2 ^ k" using unat_plus_mod [OF assms, of 0 a] by simp
  then show ?thesis by (metis mod_add_left_eq)
qed

text \<open>C19: when all threads are outside the operations, the ring represents exactly the objects that have
  been put in and not yet received, in the sense of the ring for one caller at a time: the two models
  of the ring fit together.\<close>

theorem quiescent_ring_holds_the_rest:
  assumes "fresh_ring k r" and "reaches r s" and "\<forall>i. acts s i = Idle"
  shows "ring_rep (ring s) (drop (length (out s)) (inp s))"
proof -
  from conc_ok_reaches [OF assms(1,2)] have ok: "conc_ok k s" .
  note d = conc_okD [OF ok]
  have spans: "espans s i = {}" "dspans s i = {}" for i using assms(3) by (simp_all add: espans_def dspans_def)
  have t: "pt s = length (inp s)" by (rule tiles_empty [OF d(6) spans(1)]) (use d(3) in \<open>simp add: counts_ok_def\<close>)
  have c: "length (out s) = ch s" by (rule tiles_empty [OF d(7) spans(2)]) (use d(3) in \<open>simp add: counts_ok_def\<close>)
  let ?q = "drop (length (out s)) (inp s)"
  have le: "length (out s) \<le> length (inp s)" and small: "length ?q < 2 ^ k" using d(3) by (simp_all add: counts_ok_def) linarith
  have tail: "p_tail (ring s) = c_tail (ring s) + of_nat (length ?q)"
    using d(2) t le by (simp add: ring_ok_def of_nat_diff)
  have "slots (ring s) ! ((unat (c_tail (ring s)) + i) mod 2 ^ k) = ?q ! i" if "i < length ?q" for i
  proof -
    have "slots (ring s) ! ((length (out s) + i) mod 2 ^ k) = inp s ! (length (out s) + i)"
      using d(4) t that by (simp add: published_def)
    with that d(1,2) show ?thesis by (simp add: ring_ok_def mod_shift)
  qed
  moreover have "p_size (ring s) = 2 ^ k" "c_size (ring s) = 2 ^ k" "p_mask (ring s) = 2 ^ k - 1" "length (slots (ring s)) = 2 ^ k"
    "p_head (ring s) = p_tail (ring s)" "c_head (ring s) = c_tail (ring s)"
    using d(2) t c by (simp_all add: ring_ok_def)
  ultimately show ?thesis unfolding ring_rep_def using d(1) small tail by blast
qed

section \<open>Progress\<close>

text \<open>C21: the waiting loops of the producers cannot block each other: while one waits for its turn, there is
  a producer that is still copying or whose turn it is, and a step of that one changes its state.\<close>

theorem some_producer_advances:
  assumes "fresh_ring k r" and "reaches r s" and "acts s i = EnqWait n h ret"
  shows "\<exists>j. espan (acts s j) (pos s j) \<noteq> {} \<and> acts (conc_step j s) j \<noteq> acts s j"
proof -
  from conc_ok_reaches [OF assms(1,2)] have ok: "conc_ok k s" .
  note d = conc_okD [OF ok] and act = act_okD [OF ok, of i, unfolded assms(3) act_ok.simps]
  have "pos s i \<in> espans s i" using act by (simp add: espans_def assms(3))
  from tiles_sub [OF d(6) this] have "pt s < length (inp s)" by auto
  then have "pt s \<in> (\<Union>j. espans s j)" using d(6) by (simp add: tiles_def)
  then obtain j where j: "pt s \<in> espans s j" by blast
  have first: "pt s \<le> pos s j" if "pos s j \<in> espans s j" using tiles_sub [OF d(6) that] by simp
  have "acts (conc_step j s) j \<noteq> acts s j"
  proof (cases "acts s j")
    case (EnqCopy xs b h' free c)
    then show ?thesis using act_okD [OF ok, of j] by (auto simp: conc_step_def Let_def)
  next
    case (EnqWait m h' ret')
    with j have "pos s j \<in> espans s j" "pos s j \<le> pt s" by (auto simp: espans_def)
    with first have "pos s j = pt s" by simp
    with EnqWait act_okD [OF ok, of j] d(2) have "p_tail (ring s) = h'" by (simp add: ring_ok_def)
    with EnqWait show ?thesis by (simp add: conc_step_def)
  qed (use j in \<open>simp_all add: espans_def\<close>)
  with j show ?thesis by (auto simp: espans_def)
qed

text \<open>C22: but they do wait for each other: when the producer whose turn it is stops between its \<open>cmpset\<close>
  and its update of the tail, then whatever all others do, the tail stays where it is, and the consumers
  never receive anything from that position on.\<close>

theorem stopped_producer_blocks_the_ring:
  assumes "fresh_ring k r" and "reaches r s" and "pt s \<in> espan (acts s i) (pos s i)" and "runs (\<lambda>j. j \<noteq> i) s s'"
  shows "p_tail (ring s') = p_tail (ring s) \<and> length (out s') \<le> pt s"
proof -
  from conc_ok_reaches [OF assms(1,2)] have ok: "conc_ok k s" .
  have run: "conc_ok k s' \<and> pt s' = pt s \<and> acts s' i = acts s i \<and> pos s' i = pos s i"
    using assms(4)
  proof induction
    case start
    with ok show ?case by simp
  next
    case (step s' j)
    then have ok': "conc_ok k s'" and mine: "pt s' \<in> espans s' i" using assms(3) by (simp_all add: espans_def)
    have "pt (conc_step j s') = pt s'"
    proof (cases "acts s' j")
      case (EnqWait n h ret)
      note d = conc_okD [OF ok'] and act = act_okD [OF ok', of j, unfolded EnqWait act_ok.simps]
      have y: "pos s' j \<in> espans s' j" using act by (simp add: espans_def EnqWait)
      then have x: "pt s' \<le> pos s' j" "pos s' j < length (inp s')" using tiles_sub [OF d(6) y] by auto
      have "p_tail (ring s') \<noteq> h"
      proof
        assume h: "p_tail (ring s') = h"
        have "pt s' = pos s' j"
          by (rule of_nat_u32_eq) (use act h d(2,3) x size_bound [OF d(1)] in \<open>auto simp: ring_ok_def counts_ok_def\<close>)
        with y mine step.hyps(2) tiles_disjoint [OF d(6)] show False by metis
      qed
      then show ?thesis by (simp add: conc_step_def EnqWait)
    qed (auto simp: conc_step_def split: prod.split)
    moreover have "acts (conc_step j s') i = acts s' i" "pos (conc_step j s') i = pos s' i"
      using step.hyps(2) by (cases "acts s' j"; auto simp: conc_step_def split: prod.split)+
    ultimately show ?case using step conc_ok_step [OF ok' step.hyps(3)] by simp
  qed (auto simp: begin_enqueue_def begin_dequeue_def intro!: conc_ok_call)
  then have d: "ring_ok k s'" "counts_ok (2 ^ k) s'" using conc_okD by auto
  with run conc_okD(2) [OF ok] show ?thesis by (simp add: ring_ok_def counts_ok_def)
qed

end
