(* ===== verification/RingConcSeq.thy ===== *)
theory RingConcSeq imports RingConcSafe begin

text \<open>
  A call that is not disturbed by other threads does what the function for one caller at a time does.
\<close>

section \<open>The steps of one thread\<close>

fun thread_run :: "nat \<Rightarrow> 'a rte_ring \<times> 'a activity \<Rightarrow> 'a rte_ring \<times> 'a activity" where
  "thread_run 0 ra = ra"
| "thread_run (Suc m) ra = thread_run m (thread_step (fst ra) (snd ra))"

lemma thread_run_add: "thread_run (m + n) ra = thread_run n (thread_run m ra)"
  by (induction m arbitrary: ra) simp_all

lemma conc_run: "ring ((conc_step i ^^ m) s) = fst (thread_run m (ring s, acts s i))
  \<and> acts ((conc_step i ^^ m) s) i = snd (thread_run m (ring s, acts s i))"
proof (induction m arbitrary: s)
  case (Suc m)
  have "ring (conc_step i s) = fst (thread_step (ring s) (acts s i))" "acts (conc_step i s) i = snd (thread_step (ring s) (acts s i))"
    by (simp_all add: conc_step_def split_def)
  with Suc [of "conc_step i s"] show ?case by (simp add: funpow_swap1)
qed simp

section \<open>Copying slot by slot\<close>

fun copy_slots :: "u32 \<Rightarrow> 'a list \<Rightarrow> nat \<Rightarrow> 'a rte_ring \<Rightarrow> 'a list" where
  "copy_slots h xs 0 r = slots r"
| "copy_slots h xs (Suc i) r = (copy_slots h xs i r)[slot_index h i r := xs ! i]"

lemma length_copy_slots [simp]: "length (copy_slots h xs i r) = length (slots r)"
  by (induction i) simp_all

lemma slot_index_masked:
  assumes "k \<le> 28" and "p_mask r = 2 ^ k - 1"
  shows "slot_index h i r = (unat h + i) mod 2 ^ k"
  unfolding slot_index_def assms(2) unat_masked by (rule unat_plus_mod [OF assms(1)])

lemma thread_copies:
  assumes "k \<le> 28" and "p_mask r = 2 ^ k - 1" and "length (slots r) = 2 ^ k" and "i \<le> length xs"
  shows "thread_run i (r, EnqCopy xs b h free 0) = (r\<lparr>slots := copy_slots h xs i r\<rparr>, EnqCopy xs b h free i)"
  using assms(4)
proof (induction i)
  case 0
  show ?case by simp
next
  case (Suc i)
  have "slot_index h i (r\<lparr>slots := sl\<rparr>) = slot_index h i r" for sl by (simp add: slot_index_def)
  moreover have "slot_index h i r < 2 ^ k" by (simp add: slot_index_masked [OF assms(1,2)])
  ultimately show ?case
    using Suc assms(3) thread_run_add [of i 1 "(r, EnqCopy xs b h free 0)"] by (simp add: Let_def)
qed

lemma nth_copy_slots:
  assumes "k \<le> 28" and "p_mask r = 2 ^ k - 1" and "length (slots r) = 2 ^ k" and "i \<le> 2 ^ k" and "j < 2 ^ k"
  shows "copy_slots h xs i r ! ((unat h + j) mod 2 ^ k) = (if j < i then xs ! j else slots r ! ((unat h + j) mod 2 ^ k))"
  using assms(4)
proof (induction i)
  case (Suc i)
  have "(unat h + i) mod 2 ^ k = (unat h + j) mod 2 ^ k \<longleftrightarrow> i = j"
    using mod_distinct [of "unat h + i" "unat h + j" "2 ^ k"] mod_distinct [of "unat h + j" "unat h + i" "2 ^ k"] Suc.prems assms(5)
    by (cases i j rule: linorder_cases) auto
  with Suc assms(3) show ?case by (auto simp: slot_index_masked [OF assms(1,2)] nth_list_update)
qed simp

lemma every_slot:
  assumes "y < N"
  shows "\<exists>j < N. y = (b + j) mod (N :: nat)"
proof -
  have "y = (b + (y + N - b mod N) mod N) mod N"
  proof -
    have "(b + (y + N - b mod N) mod N) mod N = (b mod N + (y + N - b mod N)) mod N" by (simp add: mod_simps)
    also have "b mod N + (y + N - b mod N) = y + N"
    proof -
      have "b mod N < N" using assms by (intro mod_less_divisor) simp
      then show ?thesis by simp
    qed
    finally show ?thesis using assms by simp
  qed
  moreover have "(y + N - b mod N) mod N < N" using assms by simp
  ultimately show ?thesis by blast
qed

lemma copy_slots_eq:
  assumes "k \<le> 28" and "p_size r = 2 ^ k" and "p_mask r = 2 ^ k - 1" and "length (slots r) = 2 ^ k"
    and "unat n = length xs" and "length xs \<le> 2 ^ k"
  shows "ENQUEUE_PTRS h xs n r = Inr (copy_slots h xs (length xs) r)"
proof -
  from ENQUEUE_PTRS_eq [OF assms, of h] obtain sl where sl: "ENQUEUE_PTRS h xs n r = Inr sl" "length sl = 2 ^ k"
    and new: "\<forall>i < length xs. sl ! ((unat h + i) mod 2 ^ k) = xs ! i"
    and old: "\<forall>i. length xs \<le> i \<and> i < 2 ^ k \<longrightarrow> sl ! ((unat h + i) mod 2 ^ k) = slots r ! ((unat h + i) mod 2 ^ k)" by blast
  have "sl = copy_slots h xs (length xs) r"
  proof (rule nth_equalityI)
    fix y
    assume "y < length sl"
    then obtain j where j: "j < 2 ^ k" "y = (unat h + j) mod 2 ^ k" using every_slot [of y "2 ^ k" "unat h"] sl(2) by auto
    with new old nth_copy_slots [OF assms(1,3,4,6) j(1), of h xs] show "sl ! y = copy_slots h xs (length xs) r ! y"
      by (cases "j < length xs") simp_all
  qed (simp add: sl(2) assms(4))
  with sl(1) show ?thesis by simp
qed

section \<open>The whole call\<close>

lemma room_word:
  assumes "ring_rep r q"
  shows "unat (p_mask r + c_tail r - p_head r) < unat (p_size r)"
proof -
  from assms have "unat (p_mask r + c_tail r - p_tail r) = capacity r - length q" by (auto elim!: ring_repE)
  moreover have "p_head r = p_tail r" "0 < unat (p_size r)" using assms by (auto elim!: ring_repE simp: unat_pow)
  ultimately show ?thesis by (simp add: capacity_def)
qed

text \<open>C18: a call of the multi-producer enqueue that starts when nobody else is in the middle of an operation,
  and is not disturbed, takes at most its number of objects and five steps, and its effect on the ring
  and its result are those of \<open>mp_do_enqueue\<close>, the function that is modelled for one caller at a time.\<close>

theorem undisturbed_call_is_mp_enqueue:
  assumes "ring_rep (ring s) q" and "acts s i = begin_enqueue objs b" and "length objs < 2 ^ 32"
    and "mp_do_enqueue objs (of_nat (length objs)) b (ring s) = Inr (ret, r')"
  shows "\<exists>m \<le> length objs + 5. ring ((conc_step i ^^ m) s) = r' \<and> acts ((conc_step i ^^ m) s) i = EnqDone ret"
proof -
  let ?r = "ring s" and ?n = "of_nat (length objs) :: u32" and ?free = "p_mask (ring s) + c_tail (ring s) - p_head (ring s)"
  have n: "unat ?n = length objs" by (rule unat_u32 [OF assms(3)])
  have run: "\<exists>m \<le> length objs + 5. thread_run m (?r, begin_enqueue objs b) = (r', EnqDone ret)"
  proof (cases "objs = []")
    case True
    with assms(4) have "thread_run 0 (?r, begin_enqueue objs b) = (r', EnqDone ret)"
      by (simp add: mp_do_enqueue_def begin_enqueue_def)
    then show ?thesis by (intro exI [of _ 0]) simp
  next
    case False
    then have n0: "?n \<noteq> 0" using n by (metis length_0_conv unat_0)
    have two: "thread_run 2 (?r, begin_enqueue objs b) = (case ring_quota b ENOBUFS ?n ?free of
        Inl ret \<Rightarrow> (?r, EnqDone ret) | Inr m \<Rightarrow> (?r, EnqCas objs b (p_head ?r) ?free m))"
      using False by (simp add: begin_enqueue_def numeral_2_eq_2 Let_def)
    show ?thesis
    proof (cases "ring_quota b ENOBUFS ?n ?free")
      case (Inl e)
      with assms(4) n0 have "e = ret" "r' = ?r" by (simp_all add: mp_do_enqueue_def Let_def)
      with two Inl show ?thesis by (intro exI [of _ 2]) simp
    next
      case (Inr m)
      let ?xs = "take (unat m) objs" and ?h = "p_head ?r" and ?r1 = "?r\<lparr>p_head := p_head ?r + m\<rparr>"
      from assms(1) obtain k where k: "k \<le> 28" "p_size ?r = 2 ^ k" "p_mask ?r = 2 ^ k - 1" "length (slots ?r) = 2 ^ k" "p_head ?r = p_tail ?r"
        by (auto elim: ring_repE)
      note q = quota_Inr [OF Inr n0]
      have len: "length ?xs = unat m" using q(3) n by (simp add: word_le_nat_alt)
      have "unat m < unat (p_size ?r)" using q(2) room_word [OF assms(1)] by (simp add: word_le_nat_alt)
      then have size: "length ?xs \<le> 2 ^ k" using k(2) len unat_pow [OF k(1)] by simp
      let ?sl = "copy_slots ?h ?xs (length ?xs) ?r1"
      have "ENQUEUE_PTRS ?h ?xs m ?r1 = Inr ?sl"
        by (rule copy_slots_eq [OF k(1)]) (use k len size in simp_all)
      then have copy: "ENQUEUE_PTRS ?h objs m ?r1 = Inr ?sl" by (simp add: ENQUEUE_PTRS_def)
      have code: "enqueue_code b ?free m (?r1\<lparr>slots := ?sl\<rparr>) = enqueue_code b ?free m ?r" by (simp add: enqueue_code_def)
      have res: "ret = enqueue_code b ?free m ?r" "r' = ?r1\<lparr>slots := ?sl, p_tail := ?h + m\<rparr>"
        using assms(4) n0 Inr copy k(5) code by (simp_all add: mp_do_enqueue_def Let_def)
      have three: "thread_run (2 + 1) (?r, begin_enqueue objs b) = (?r1, EnqCopy ?xs b ?h ?free 0)"
        unfolding thread_run_add two using Inr by simp
      have copied: "thread_run (2 + 1 + length ?xs) (?r, begin_enqueue objs b) = (?r1\<lparr>slots := ?sl\<rparr>, EnqCopy ?xs b ?h ?free (length ?xs))"
        unfolding thread_run_add [of "2 + 1"] three by (rule thread_copies [OF k(1)]) (use k in simp_all)
      have "of_nat (length ?xs) = m" unfolding len by simp
      then have "thread_run (2 + 1 + length ?xs + 2) (?r, begin_enqueue objs b) = (r', EnqDone ret)"
        unfolding thread_run_add [of "2 + 1 + length ?xs"] copied using k(5) res code by (simp add: numeral_2_eq_2)
      moreover have "2 + 1 + length ?xs + 2 \<le> length objs + 5" by simp
      ultimately show ?thesis by blast
    qed
  qed
  then obtain m where "m \<le> length objs + 5" "thread_run m (?r, begin_enqueue objs b) = (r', EnqDone ret)" by blast
  with conc_run [where i = i and m = m and s = s] assms(2) show ?thesis by (intro exI [of _ m]) simp
qed

section \<open>Examples\<close>

definition small_ring :: "nat rte_ring" where
  "small_ring = snd (rte_ring_init ''ring'' 4 0 [0, 0, 0, 0])"

text \<open>Two producers and a consumer.\<close>

definition three_calls :: "nat conc" where
  "three_calls = (conc_init small_ring)\<lparr>acts := (\<lambda>_. Idle)(0 := begin_enqueue [5, 6] RTE_RING_QUEUE_FIXED,
     1 := begin_enqueue [7] RTE_RING_QUEUE_FIXED, 2 := begin_dequeue 2 RTE_RING_QUEUE_VARIABLE)\<rparr>"

fun timely :: "nat list \<Rightarrow> 'a conc \<Rightarrow> bool" where
  "timely [] s = True"
| "timely (i # js) s = (length (inp s) < 100 \<and> timely js (conc_step i s))"

lemma runs_moves: "runs P s0 s \<Longrightarrow> \<forall>i \<in> set js. P i \<Longrightarrow> timely js s \<Longrightarrow> runs P s0 (fold conc_step js s)"
proof (induction js arbitrary: s)
  case (Cons i js)
  then have "in_time i s" by (simp add: in_time_def)
  with Cons show ?case by (auto intro: runs.step)
qed simp

lemma three_calls_reached: "reaches small_ring three_calls"
proof -
  let ?s0 = "conc_init small_ring"
  let ?s1 = "?s0\<lparr>acts := (acts ?s0)(0 := begin_enqueue [5, 6] RTE_RING_QUEUE_FIXED)\<rparr>"
  let ?s2 = "?s1\<lparr>acts := (acts ?s1)(1 := begin_enqueue [7] RTE_RING_QUEUE_FIXED)\<rparr>"
  let ?s3 = "?s2\<lparr>acts := (acts ?s2)(2 := begin_dequeue 2 RTE_RING_QUEUE_VARIABLE)\<rparr>"
  have "runs (\<lambda>_. True) ?s0 ?s1" by (rule runs.enqueue [OF runs.start]) (simp_all add: conc_init_def)
  then have "runs (\<lambda>_. True) ?s0 ?s2" by (rule runs.enqueue) (simp_all add: conc_init_def)
  then have "runs (\<lambda>_. True) ?s0 ?s3" by (rule runs.dequeue) (simp_all add: conc_init_def)
  moreover have "?s3 = three_calls" by (simp add: three_calls_def conc_init_def)
  ultimately show ?thesis by (simp add: reaches_def)
qed

lemma small_ring_fresh: "fresh_ring 2 small_ring"
  unfolding fresh_ring_def
  by (intro conjI exI [of _ "''ring''"] exI [of _ 0] exI [of _ "[0, 0, 0, 0]"])
    (simp_all add: small_ring_def rte_ring_init_def RTE_MEMZONE_NAMESIZE_def Let_def)

text \<open>
  The second producer reserves the first position, the first producer has to copy behind it and to wait,
  and the consumer takes what both have published.
\<close>

definition schedule :: "nat list" where
  "schedule = [0, 1, 1, 1, 0, 0, 1, 0, 0, 0, 0, 0, 1, 1, 0, 1, 0, 2, 2, 2, 2, 2, 2, 2]"

definition played :: "nat list \<Rightarrow> nat conc" where
  "played js = fold conc_step js three_calls"

lemma played_reached: "timely js three_calls \<Longrightarrow> reaches small_ring (played js)"
  using three_calls_reached unfolding reaches_def played_def by (intro runs_moves) simp_all

lemma schedule_timely: "timely schedule three_calls"
  by code_simp

theorem concurrent_ring_is_fifo_witness:
  "inp (played schedule) = [7, 5, 6] \<and> out (played schedule) = [7, 5] \<and> prefix (out (played schedule)) (inp (played schedule))"
proof -
  have "inp (played schedule) = [7, 5, 6]" "out (played schedule) = [7, 5]" by code_simp+
  with concurrent_ring_is_fifo [OF small_ring_fresh played_reached [OF schedule_timely]] show ?thesis by blast
qed

lemma acts_untouched: "i \<notin> set js \<Longrightarrow> acts (fold conc_step js s) i = acts s i"
proof (induction js arbitrary: s)
  case (Cons j js)
  then have "acts (conc_step j s) i = acts s i" by (simp add: conc_step_def split: prod.split)
  with Cons show ?case by simp
qed simp

text \<open>All three calls return.\<close>

definition returned :: "nat conc" where
  "returned = (played schedule)\<lparr>acts := (acts (played schedule))(0 := Idle, 1 := Idle, 2 := Idle)\<rparr>"

lemma returned_reached: "reaches small_ring returned"
proof -
  let ?s0 = "played schedule"
  let ?s1 = "?s0\<lparr>acts := (acts ?s0)(0 := Idle)\<rparr>"
  let ?s2 = "?s1\<lparr>acts := (acts ?s1)(1 := Idle)\<rparr>"
  let ?s3 = "?s2\<lparr>acts := (acts ?s2)(2 := Idle)\<rparr>"
  have fin: "finished (acts ?s0 0)" "finished (acts ?s0 1)" "finished (acts ?s0 2)" by code_simp+
  have "runs (\<lambda>_. True) (conc_init small_ring) ?s0"
    using played_reached [OF schedule_timely] by (simp add: reaches_def)
  then have "runs (\<lambda>_. True) (conc_init small_ring) ?s1" by (rule runs.return) (simp_all add: fin del: One_nat_def)
  then have "runs (\<lambda>_. True) (conc_init small_ring) ?s2" by (rule runs.return) (simp_all add: fin del: One_nat_def)
  then have "runs (\<lambda>_. True) (conc_init small_ring) ?s3" by (rule runs.return) (simp_all add: fin del: One_nat_def)
  moreover have "?s3 = returned" by (simp add: returned_def)
  ultimately show ?thesis by (simp add: reaches_def)
qed

lemma returned_idle: "acts returned i = Idle"
proof -
  have "acts (played schedule) i = Idle" if "i \<notin> {0, 1, 2}"
  proof -
    have "i \<notin> set schedule" using that by (simp add: schedule_def)
    from acts_untouched [OF this, of three_calls] that show ?thesis by (simp add: played_def three_calls_def)
  qed
  then show ?thesis by (auto simp: returned_def)
qed

theorem quiescent_ring_holds_the_rest_witness: "ring_rep (ring returned) [6]"
proof -
  have "drop (length (out returned)) (inp returned) = [6]" by code_simp
  with quiescent_ring_holds_the_rest [OF small_ring_fresh returned_reached] returned_idle show ?thesis by metis
qed

lemma small_ring_empty: "ring_rep small_ring []"
  using rte_ring_init_holds [of 2 "''ring''" "[0, 0, 0, 0 :: nat]" 0]
  by (auto simp: small_ring_def ring_holds_def RTE_MEMZONE_NAMESIZE_def)

lemma mp_example: "mp_do_enqueue [7] 1 RTE_RING_QUEUE_FIXED small_ring
    = Inr (0, small_ring\<lparr>p_head := 1, p_tail := 1, slots := [7, 0, 0, 0]\<rparr>)"
  by code_simp

text \<open>The first producer has copied and waits for the second, which has not started to copy.\<close>

definition waiting :: "nat list" where
  "waiting = [1, 1, 1, 0, 0, 0, 0, 0, 0, 0]"

lemma waiting_timely: "timely waiting three_calls"
  by code_simp

lemma waiting_acts:
  "acts (played waiting) 0 = EnqWait 2 1 0" "acts (played waiting) 1 = EnqCopy [7] RTE_RING_QUEUE_FIXED 0 3 0"
  "pos (played waiting) 1 = 0" "pt (played waiting) = 0"
  by code_simp+

theorem some_producer_advances_witness:
  "\<exists>j. espan (acts (played waiting) j) (pos (played waiting) j) \<noteq> {} \<and> acts (conc_step j (played waiting)) j \<noteq> acts (played waiting) j"
  by (rule some_producer_advances [OF small_ring_fresh played_reached [OF waiting_timely] waiting_acts(1)])

theorem stopped_producer_blocks_the_ring_witness:
  "p_tail (ring (fold conc_step [0, 0, 2, 2] (played waiting))) = p_tail (ring (played waiting))
    \<and> length (out (fold conc_step [0, 0, 2, 2] (played waiting))) \<le> 0"
proof -
  have "timely [0, 0, 2, 2] (played waiting)" by code_simp
  then have "runs (\<lambda>j. j \<noteq> 1) (played waiting) (fold conc_step [0, 0, 2, 2] (played waiting))"
    by (intro runs_moves runs.start) simp_all
  from stopped_producer_blocks_the_ring [OF small_ring_fresh played_reached [OF waiting_timely] _ this] show ?thesis
    by (simp only: waiting_acts espan.simps) simp
qed

theorem undisturbed_call_is_mp_enqueue_witness:
  "\<exists>m \<le> 6. ring ((conc_step 1 ^^ m) three_calls) = small_ring\<lparr>p_head := 1, p_tail := 1, slots := [7, 0, 0, 0]\<rparr>
    \<and> acts ((conc_step 1 ^^ m) three_calls) 1 = EnqDone 0"
proof -
  have ring: "ring three_calls = small_ring" by (simp add: three_calls_def conc_init_def)
  have "mp_do_enqueue [7] (of_nat (length [7 :: nat])) RTE_RING_QUEUE_FIXED (ring three_calls)
      = Inr (0, small_ring\<lparr>p_head := 1, p_tail := 1, slots := [7, 0, 0, 0]\<rparr>)"
    using mp_example by (simp add: ring)
  from undisturbed_call_is_mp_enqueue [OF _ _ _ this, of "[]" 1] small_ring_empty show ?thesis
    by (simp add: ring) (simp add: three_calls_def)
qed

end
