(* ===== verification/RingReg.thy ===== *)
theory RingReg imports RteRing begin

text \<open>
  Named rings: how \<open>rte_ring.c\<close> creates, finds and frees rings that several processes share, with the
  table of memory zones in \<open>eal_common_memzone.c\<close> underneath.  The heaps behind the zones, the choice
  of one for a socket included, are the parameter \<open>heap\<close>: given the socket, the addresses that zones
  occupy and a length it answers with the address of a free block.  The locks are not modelled, as
  every function is one step.
\<close>

section \<open>Memory zones\<close>

definition RTE_MAX_MEMZONE :: nat where "RTE_MAX_MEMZONE = 2560"
definition RTE_RING_MZ_PREFIX :: string where "RTE_RING_MZ_PREFIX = ''RG_''"
definition RTE_RING_NAMESIZE :: nat where "RTE_RING_NAMESIZE = RTE_MEMZONE_NAMESIZE - 4 + 1"

definition RTE_MAX_NUMA_NODES :: int where "RTE_MAX_NUMA_NODES = 8"
definition SOCKET_ID_ANY :: int where "SOCKET_ID_ANY = - 1"

text \<open>\<open>strncmp( a, b, n ) == 0\<close>.\<close>

definition same_name :: "nat \<Rightarrow> string \<Rightarrow> string \<Rightarrow> bool" where
  "same_name n a b \<longleftrightarrow> take n a = take n b"

definition ENOMEM :: int where "ENOMEM = 12"
definition EEXIST :: int where "EEXIST = 17"
definition ENOSPC :: int where "ENOSPC = 28"

text \<open>An entry of the table of zones: empty (its address is NULL), or a name and an address.\<close>

type_synonym zone = "(string \<times> addr) option"

text \<open>A ring with the name and the zone (an index of the table, or NULL) that its header holds.\<close>

record 'a named_ring =
  r_name :: string
  r_zone :: "nat option"
  r_ring :: "'a rte_ring"

record 'a ring_sys =
  memzone :: "zone list"
  memzone_cnt :: nat
  ring_list :: "addr list"
  ring_at :: "addr \<Rightarrow> 'a named_ring option"
  rte_errno :: int

type_synonym heap = "int \<Rightarrow> addr list \<Rightarrow> int \<Rightarrow> addr option"

fun memzone_lookup :: "string \<Rightarrow> zone list \<Rightarrow> nat option" where
  "memzone_lookup name [] = None"
| "memzone_lookup name (z # zs) =
     (case z of
        Some (n, a) \<Rightarrow> if same_name RTE_MEMZONE_NAMESIZE name n then Some 0 else map_option Suc (memzone_lookup name zs)
      | None \<Rightarrow> map_option Suc (memzone_lookup name zs))"

fun next_free_memzone :: "zone list \<Rightarrow> nat option" where
  "next_free_memzone [] = None"
| "next_free_memzone (z # zs) = (if z = None then Some 0 else map_option Suc (next_free_memzone zs))"

definition zone_addrs :: "zone list \<Rightarrow> addr list" where
  "zone_addrs zs = map snd (List.map_filter id zs)"

text \<open>
  As \<open>rte_ring_create\<close> calls it: a length that is not zero, the alignment of a cache line and no boundary,
  for which the checks of alignment and boundary succeed.  A socket below \<open>SOCKET_ID_ANY\<close> would index
  the heaps below their table; it is left to the parameter.
\<close>

definition memzone_reserve :: "heap \<Rightarrow> string \<Rightarrow> int \<Rightarrow> int \<Rightarrow> 'a ring_sys \<Rightarrow> nat option \<times> 'a ring_sys" where
  "memzone_reserve heap name len socket_id st =
     (if memzone_cnt st \<ge> RTE_MAX_MEMZONE then (None, st\<lparr>rte_errno := ENOSPC\<rparr>)
      else if length name > RTE_MEMZONE_NAMESIZE - 1 then (None, st\<lparr>rte_errno := ENAMETOOLONG\<rparr>)
      else if memzone_lookup name (memzone st) \<noteq> None then (None, st\<lparr>rte_errno := EEXIST\<rparr>)
      else if socket_id \<noteq> SOCKET_ID_ANY \<and> socket_id \<ge> RTE_MAX_NUMA_NODES then (None, st\<lparr>rte_errno := EINVAL\<rparr>)
      else case heap socket_id (zone_addrs (memzone st)) len of
        None \<Rightarrow> (None, st\<lparr>rte_errno := ENOMEM\<rparr>)
      | Some mz_addr \<Rightarrow> (case next_free_memzone (memzone st) of
            None \<Rightarrow> (None, st\<lparr>rte_errno := ENOSPC\<rparr>)
          | Some i \<Rightarrow> (Some i, st\<lparr>memzone_cnt := memzone_cnt st + 1, memzone := (memzone st)[i := Some (name, mz_addr)]\<rparr>)))"

text \<open>\<open>rte_panic\<close> ends the process by SIGABRT, which the shell reports as 134.\<close>

definition rte_memzone_free :: "nat option \<Rightarrow> 'a ring_sys \<Rightarrow> (int \<times> 'a ring_sys) run" where
  "rte_memzone_free mz st = (case mz of
      None \<Rightarrow> Inr (- EINVAL, st)
    | Some i \<Rightarrow> (case memzone st ! i of
        None \<Rightarrow> Inr (- EINVAL, st)
      | Some (n, addr) \<Rightarrow>
          if memzone_cnt st = 0 then Inl (Exited 134)
          else Inr (0, st\<lparr>memzone := (memzone st)[i := None], memzone_cnt := memzone_cnt st - 1, ring_at := (ring_at st)(addr := None)\<rparr>)))"

section \<open>Rings\<close>

text \<open>\<open>cells\<close> is what the memory behind the header holds, \<open>te_ok\<close> whether the list entry can be allocated.\<close>

definition rte_ring_create ::
    "heap \<Rightarrow> int \<Rightarrow> 'a list \<Rightarrow> bool \<Rightarrow> string \<Rightarrow> u32 \<Rightarrow> int \<Rightarrow> u32 \<Rightarrow> 'a ring_sys \<Rightarrow> addr option \<times> 'a ring_sys" where
  "rte_ring_create heap header cells te_ok name count socket_id fl st =
     (let ring_size = rte_ring_get_memsize header count in
      if ring_size < 0 then (None, st\<lparr>rte_errno := ring_size\<rparr>)
      else let mz_name = RTE_RING_MZ_PREFIX @ name in
      if length mz_name \<ge> RTE_MEMZONE_NAMESIZE then (None, st\<lparr>rte_errno := ENAMETOOLONG\<rparr>)
      else if \<not> te_ok then (None, st\<lparr>rte_errno := ENOMEM\<rparr>)
      else case memzone_reserve heap mz_name ring_size socket_id st of
        (None, st) \<Rightarrow> (None, st)
      | (Some mz, st) \<Rightarrow> (case memzone st ! mz of
            None \<Rightarrow> (None, st)
          | Some (n, r) \<Rightarrow> (Some r, st\<lparr>ring_at := (ring_at st)(r \<mapsto>
                \<lparr>r_name = name, r_zone = Some mz, r_ring = snd (rte_ring_init name count fl cells)\<rparr>), ring_list := ring_list st @ [r]\<rparr>)))"

fun find_ring :: "string \<Rightarrow> (addr \<Rightarrow> 'a named_ring option) \<Rightarrow> addr list \<Rightarrow> addr option run" where
  "find_ring name m [] = Inr None"
| "find_ring name m (r # rs) = (case m r of
      None \<Rightarrow> Inl UseAfterFree
    | Some x \<Rightarrow> if same_name RTE_RING_NAMESIZE name (r_name x) then Inr (Some r) else find_ring name m rs)"

definition rte_ring_lookup :: "string \<Rightarrow> 'a ring_sys \<Rightarrow> (addr option \<times> 'a ring_sys) run" where
  "rte_ring_lookup name st = (case find_ring name (ring_at st) (ring_list st) of
      Inl h \<Rightarrow> Inl h
    | Inr None \<Rightarrow> Inr (None, st\<lparr>rte_errno := ENOENT\<rparr>)
    | Inr (Some r) \<Rightarrow> Inr (Some r, st))"

definition rte_ring_free :: "addr option \<Rightarrow> 'a ring_sys \<Rightarrow> 'a ring_sys run" where
  "rte_ring_free p st = (case p of
      None \<Rightarrow> Inr st
    | Some r \<Rightarrow> (case ring_at st r of
        None \<Rightarrow> Inl UseAfterFree
      | Some x \<Rightarrow>
          if r_zone x = None then Inr st
          else (case rte_memzone_free (r_zone x) st of
              Inl h \<Rightarrow> Inl h
            | Inr (ret, st) \<Rightarrow> if ret \<noteq> 0 then Inr st else Inr (st\<lparr>ring_list := remove1 r (ring_list st)\<rparr>))))"

section \<open>The registry as a map\<close>

text \<open>\<open>ring_names st\<close> is the finite map that the table of rings represents.\<close>

definition ring_names :: "'a ring_sys \<Rightarrow> string \<Rightarrow> addr option" where
  "ring_names st name = (case filter (\<lambda>r. map_option r_name (ring_at st r) = Some name) (ring_list st) of [] \<Rightarrow> None | r # rs \<Rightarrow> Some r)"

definition ring_entry_ok :: "'a ring_sys \<Rightarrow> addr \<Rightarrow> bool" where
  "ring_entry_ok st r \<longleftrightarrow> (\<exists>x i. ring_at st r = Some x \<and> length (r_name x) < RTE_RING_NAMESIZE \<and> r_zone x = Some i \<and> i < length (memzone st)
     \<and> memzone st ! i = Some (RTE_RING_MZ_PREFIX @ r_name x, r))"

definition zones_used :: "zone list \<Rightarrow> nat" where
  "zones_used zs = length (filter (\<lambda>z. z \<noteq> None) zs)"

definition registry_ok :: "'a ring_sys \<Rightarrow> bool" where
  "registry_ok st \<longleftrightarrow> length (memzone st) = RTE_MAX_MEMZONE \<and> memzone_cnt st = zones_used (memzone st)
     \<and> distinct (ring_list st) \<and> (\<forall>r \<in> set (ring_list st). ring_entry_ok st r)
     \<and> inj_on (\<lambda>r. map_option r_name (ring_at st r)) (set (ring_list st))"

text \<open>A heap does not hand out a block that is in use.\<close>

definition heap_ok :: "heap \<Rightarrow> bool" where
  "heap_ok heap \<longleftrightarrow> (\<forall>socket_id used len a. heap socket_id used len = Some a \<longrightarrow> a \<notin> set used)"

definition ring_sys_init :: "'a ring_sys" where
  "ring_sys_init = \<lparr>memzone = replicate RTE_MAX_MEMZONE None, memzone_cnt = 0, ring_list = [], ring_at = Map.empty, rte_errno = 0\<rparr>"

section \<open>Lemmas\<close>

lemma registry_init: "registry_ok ring_sys_init"
  by (simp add: registry_ok_def ring_sys_init_def zones_used_def)

lemma ring_names_init: "ring_names ring_sys_init = Map.empty"
  by (simp add: fun_eq_iff ring_names_def ring_sys_init_def)

lemma registry_errno [simp]: "registry_ok (st\<lparr>rte_errno := e\<rparr>) \<longleftrightarrow> registry_ok st"
  by (simp add: registry_ok_def ring_entry_ok_def)

lemma ring_names_errno [simp]: "ring_names (st\<lparr>rte_errno := e\<rparr>) = ring_names st"
  by (simp add: ring_names_def fun_eq_iff)

text \<open>The number of occupied zones follows every update of the table.\<close>

lemma count_set: "i < length zs \<Longrightarrow> zs ! i = None \<Longrightarrow> zones_used (zs[i := Some a]) = Suc (zones_used zs)"
  unfolding zones_used_def by (induction zs arbitrary: i) (auto split: nat.split simp: nth_Cons)

lemma count_clear: "i < length zs \<Longrightarrow> zs ! i = Some a \<Longrightarrow> Suc (zones_used (zs[i := None])) = zones_used zs"
  unfolding zones_used_def
proof (induction zs arbitrary: i)
  case (Cons z zs)
  then show ?case by (cases i) auto
qed simp

lemma zone_addrs_iff: "r \<in> set (zone_addrs zs) \<longleftrightarrow> (\<exists>n. Some (n, r) \<in> set zs)"
  by (induction zs) (auto simp: zone_addrs_def List.map_filter_def image_iff split: option.splits)

lemma memzone_lookup_None:
  "memzone_lookup name zs = None \<longleftrightarrow> (\<forall>n a. Some (n, a) \<in> set zs \<longrightarrow> \<not> same_name RTE_MEMZONE_NAMESIZE name n)"
  by (induction zs) (auto split: option.split)

lemma next_free_memzone_Some: "next_free_memzone zs = Some i \<Longrightarrow> i < length zs \<and> zs ! i = None"
  by (induction zs arbitrary: i) (auto split: if_splits)

lemma next_free_memzone_None: "next_free_memzone zs = None \<Longrightarrow> None \<notin> set zs"
  by (induction zs) (auto split: if_splits)

lemma same_name_short: "length b < n \<Longrightarrow> same_name n a b \<longleftrightarrow> a = b"
  by (auto simp: same_name_def)

lemma entryD:
  assumes "registry_ok st" and "r \<in> set (ring_list st)"
  obtains x i where "ring_at st r = Some x" "length (r_name x) < RTE_RING_NAMESIZE" "r_zone x = Some i" "i < length (memzone st)"
    "memzone st ! i = Some (RTE_RING_MZ_PREFIX @ r_name x, r)"
  using assms unfolding registry_ok_def ring_entry_ok_def by blast

lemma ring_names_iff:
  assumes "registry_ok st"
  shows "ring_names st n = Some r \<longleftrightarrow> r \<in> set (ring_list st) \<and> map_option r_name (ring_at st r) = Some n"
proof -
  let ?F = "filter (\<lambda>r. map_option r_name (ring_at st r) = Some n) (ring_list st)"
  have inj: "inj_on (\<lambda>r. map_option r_name (ring_at st r)) (set (ring_list st))" using assms by (simp add: registry_ok_def)
  show ?thesis
  proof
    assume "ring_names st n = Some r"
    then have "r \<in> set ?F" unfolding ring_names_def by (cases ?F) simp_all
    then show "r \<in> set (ring_list st) \<and> map_option r_name (ring_at st r) = Some n" by simp
  next
    assume r: "r \<in> set (ring_list st) \<and> map_option r_name (ring_at st r) = Some n"
    then have "?F \<noteq> []" by (auto simp: filter_empty_conv)
    then obtain y ys where y: "?F = y # ys" by (auto simp only: neq_Nil_conv)
    then have "y \<in> set ?F" by (simp only: list.set_intros)
    with r inj have "y = r" by (auto simp: inj_on_def)
    with y show "ring_names st n = Some r" by (simp add: ring_names_def)
  qed
qed

lemma find_ring_eq:
  assumes "\<forall>r \<in> set rs. \<exists>x. m r = Some x \<and> length (r_name x) < RTE_RING_NAMESIZE"
  shows "find_ring name m rs = Inr (case filter (\<lambda>r. map_option r_name (m r) = Some name) rs of [] \<Rightarrow> None | r # rs \<Rightarrow> Some r)"
  using assms
proof (induction rs)
  case (Cons r rs)
  then obtain x where "m r = Some x" "length (r_name x) < RTE_RING_NAMESIZE" by auto
  with Cons show ?case by (auto simp: same_name_short)
qed simp

lemma option_eq_by_Some: "(\<And>a. x = Some a \<longleftrightarrow> y = Some a) \<Longrightarrow> x = y"
  by (cases x; cases y) auto

lemma lookup_eq:
  assumes "registry_ok st"
  shows "rte_ring_lookup name st = Inr (ring_names st name, if ring_names st name = None then st\<lparr>rte_errno := ENOENT\<rparr> else st)"
proof -
  have "\<forall>r \<in> set (ring_list st). \<exists>x. ring_at st r = Some x \<and> length (r_name x) < RTE_RING_NAMESIZE"
    by (blast elim: entryD [OF assms])
  then have "find_ring name (ring_at st) (ring_list st) = Inr (ring_names st name)" unfolding ring_names_def by (rule find_ring_eq)
  then show ?thesis by (simp add: rte_ring_lookup_def split: option.split)
qed

lemma entry_zone: "registry_ok st \<Longrightarrow> r \<in> set (ring_list st) \<Longrightarrow> map_option r_name (ring_at st r) = Some n
  \<Longrightarrow> Some (RTE_RING_MZ_PREFIX @ n, r) \<in> set (memzone st)"
  by (erule (1) entryD) (auto simp: in_set_conv_nth)

lemma taken_name: "registry_ok st \<Longrightarrow> ring_names st name = Some r \<Longrightarrow> memzone_lookup (RTE_RING_MZ_PREFIX @ name) (memzone st) \<noteq> None"
  using entry_zone [of st r name] by (auto simp: ring_names_iff memzone_lookup_None same_name_def)

lemma used_addr: "registry_ok st \<Longrightarrow> r \<in> set (ring_list st) \<Longrightarrow> r \<in> set (zone_addrs (memzone st))"
  by (erule (1) entryD) (unfold zone_addrs_iff, metis nth_mem)

text \<open>While the counter leaves room, the table has a free entry: the last error of \<open>memzone_reserve\<close> cannot occur.\<close>

lemma room_in_table: "registry_ok st \<Longrightarrow> memzone_cnt st < RTE_MAX_MEMZONE \<Longrightarrow> next_free_memzone (memzone st) \<noteq> None"
proof
  assume ok: "registry_ok st" "memzone_cnt st < RTE_MAX_MEMZONE" and "next_free_memzone (memzone st) = None"
  then have "zones_used (memzone st) = length (memzone st)"
    unfolding zones_used_def by (metis (mono_tags, lifting) filter_True next_free_memzone_None)
  with ok show False by (simp add: registry_ok_def)
qed

definition create_works :: "heap \<Rightarrow> int \<Rightarrow> bool \<Rightarrow> string \<Rightarrow> u32 \<Rightarrow> int \<Rightarrow> 'a ring_sys \<Rightarrow> bool" where
  "create_works heap header te_ok name count socket_id st \<longleftrightarrow> rte_ring_get_memsize header count \<ge> 0
     \<and> length name + 3 < RTE_MEMZONE_NAMESIZE \<and> te_ok \<and> memzone_cnt st < RTE_MAX_MEMZONE
     \<and> memzone_lookup (RTE_RING_MZ_PREFIX @ name) (memzone st) = None
     \<and> (socket_id = SOCKET_ID_ANY \<or> socket_id < RTE_MAX_NUMA_NODES)
     \<and> heap socket_id (zone_addrs (memzone st)) (rte_ring_get_memsize header count) \<noteq> None"

lemma reserve_fails:
  assumes "\<not> (memzone_cnt st < RTE_MAX_MEMZONE \<and> memzone_lookup name (memzone st) = None
      \<and> (socket_id = SOCKET_ID_ANY \<or> socket_id < RTE_MAX_NUMA_NODES) \<and> heap socket_id (zone_addrs (memzone st)) len \<noteq> None)"
  shows "\<exists>e. memzone_reserve heap name len socket_id st = (None, st\<lparr>rte_errno := e\<rparr>)"
  using assms by (auto simp: memzone_reserve_def)

lemma create_fails:
  assumes "registry_ok st" and "\<not> create_works heap header te_ok name count socket_id st"
  shows "\<exists>e. rte_ring_create heap header cells te_ok name count socket_id fl st = (None, st\<lparr>rte_errno := e\<rparr>)"
proof (cases "rte_ring_get_memsize header count \<ge> 0 \<and> length name + 3 < RTE_MEMZONE_NAMESIZE \<and> te_ok")
  case True
  with assms(2) reserve_fails [of st "RTE_RING_MZ_PREFIX @ name" socket_id heap "rte_ring_get_memsize header count"] obtain e where
    "memzone_reserve heap (RTE_RING_MZ_PREFIX @ name) (rte_ring_get_memsize header count) socket_id st = (None, st\<lparr>rte_errno := e\<rparr>)"
    unfolding create_works_def by blast
  with True show ?thesis by (intro exI [of _ e]) (simp add: rte_ring_create_def Let_def RTE_RING_MZ_PREFIX_def)
qed (auto simp: rte_ring_create_def Let_def RTE_RING_MZ_PREFIX_def)

lemma create_succeeds:
  assumes ok: "registry_ok st" and works: "create_works heap header te_ok name count socket_id st"
  obtains r i where "heap socket_id (zone_addrs (memzone st)) (rte_ring_get_memsize header count) = Some r" "i < length (memzone st)" "memzone st ! i = None"
    "rte_ring_create heap header cells te_ok name count socket_id fl st = (Some r, st\<lparr>memzone_cnt := memzone_cnt st + 1,
        memzone := (memzone st)[i := Some (RTE_RING_MZ_PREFIX @ name, r)],
        ring_at := (ring_at st)(r \<mapsto> \<lparr>r_name = name, r_zone = Some i, r_ring = snd (rte_ring_init name count fl cells)\<rparr>),
        ring_list := ring_list st @ [r]\<rparr>)"
proof -
  from works room_in_table [OF ok] obtain r i where r: "heap socket_id (zone_addrs (memzone st)) (rte_ring_get_memsize header count) = Some r"
    and i: "next_free_memzone (memzone st) = Some i" by (auto simp: create_works_def)
  from next_free_memzone_Some [OF i] have i': "i < length (memzone st)" "memzone st ! i = None" by auto
  show ?thesis using works i'
    by (intro that [OF r i']) (simp add: create_works_def rte_ring_create_def memzone_reserve_def Let_def RTE_RING_MZ_PREFIX_def RTE_MEMZONE_NAMESIZE_def r i not_le [symmetric])
qed

lemma create_cases:
  assumes ok: "registry_ok st" and heap: "heap_ok heap"
    and create: "rte_ring_create heap header cells te_ok name count socket_id fl st = (Some r, st')"
  shows "registry_ok st' \<and> ring_names st name = None \<and> ring_names st' = (ring_names st)(name \<mapsto> r)
    \<and> ring_at st' = (ring_at st)(r := ring_at st' r) \<and> map_option r_ring (ring_at st' r) = Some (snd (rte_ring_init name count fl cells))"
proof -
  have works: "create_works heap header te_ok name count socket_id st"
    using create create_fails [OF ok, of heap header te_ok name count socket_id cells fl] by (metis option.distinct(1) prod.inject)
  obtain i where r: "heap socket_id (zone_addrs (memzone st)) (rte_ring_get_memsize header count) = Some r" and i: "i < length (memzone st)" "memzone st ! i = None"
    and st': "memzone_cnt st' = Suc (memzone_cnt st)" "memzone st' = (memzone st)[i := Some (RTE_RING_MZ_PREFIX @ name, r)]" "ring_list st' = ring_list st @ [r]"
      "ring_at st' = (ring_at st)(r \<mapsto> \<lparr>r_name = name, r_zone = Some i, r_ring = snd (rte_ring_init name count fl cells)\<rparr>)"
    by (rule create_succeeds [OF ok works, of cells fl]) (use create in auto)
  have len: "length name < RTE_RING_NAMESIZE"
    using works by (simp add: create_works_def RTE_RING_NAMESIZE_def RTE_MEMZONE_NAMESIZE_def)
  have new: "r \<notin> set (ring_list st)" using heap r used_addr [OF ok] unfolding heap_ok_def by blast
  have none: "ring_names st name = None" using taken_name [OF ok, of name] works by (cases "ring_names st name") (auto simp: create_works_def)
  have entry: "ring_entry_ok st' a" if a: "a \<in> set (ring_list st')" for a
  proof (cases "a = r")
    case True
    with i len show ?thesis by (simp add: ring_entry_ok_def st')
  next
    case False
    with a have "a \<in> set (ring_list st)" by (simp add: st'(3))
    from entryD [OF ok this] obtain x j where x: "ring_at st a = Some x" "length (r_name x) < RTE_RING_NAMESIZE" "r_zone x = Some j"
      "j < length (memzone st)" "memzone st ! j = Some (RTE_RING_MZ_PREFIX @ r_name x, a)" by metis
    with i(2) have "j \<noteq> i" by auto
    with x False show ?thesis by (simp add: ring_entry_ok_def st')
  qed
  have names: "map_option r_name (ring_at st a) \<noteq> Some name" if "a \<in> set (ring_list st)" for a
    using none that ring_names_iff [OF ok, of name a] by auto
  then have "Some name \<noteq> map_option r_name (ring_at st a)" if "a \<in> set (ring_list st)" for a using that by metis
  with names have "inj_on (\<lambda>r. map_option r_name (ring_at st' r)) (set (ring_list st'))"
    using ok new by (auto simp: st' inj_on_def registry_ok_def)
  with entry have ok': "registry_ok st'" using ok new i by (simp add: registry_ok_def st' count_set)
  have "ring_names st' n = ((ring_names st)(name \<mapsto> r)) n" for n
    by (rule option_eq_by_Some)
      (use ring_names_iff [OF ok', of n] ring_names_iff [OF ok, of n] new names none in \<open>auto simp: st'\<close>)
  then show ?thesis using st'(4) ok' none by (simp add: fun_eq_iff)
qed

lemma free_ring_step:
  assumes ok: "registry_ok st" and "ring_at st r = Some x" and "r_zone x = Some i" and "i < length (memzone st)" and "memzone st ! i = Some (n, r)"
  shows "rte_ring_free (Some r) st = Inr (st\<lparr>memzone := (memzone st)[i := None], memzone_cnt := memzone_cnt st - 1,
    ring_at := (ring_at st)(r := None), ring_list := remove1 r (ring_list st)\<rparr>)"
proof -
  have "memzone_cnt st = zones_used (memzone st)" using ok by (simp add: registry_ok_def)
  with count_clear [OF assms(4,5)] have "memzone_cnt st \<noteq> 0" by presburger
  with assms show ?thesis by (simp add: rte_ring_free_def rte_memzone_free_def)
qed

lemma free_cases:
  assumes ok: "registry_ok st" and r: "r \<in> set (ring_list st)"
  shows "\<exists>st'. rte_ring_free (Some r) st = Inr st' \<and> registry_ok st' \<and> ring_names st' = (\<lambda>n. if ring_names st n = Some r then None else ring_names st n)
    \<and> ring_at st' = (ring_at st)(r := None)"
proof -
  from entryD [OF ok r] obtain x i where x: "ring_at st r = Some x" "r_zone x = Some i" "i < length (memzone st)"
    "memzone st ! i = Some (RTE_RING_MZ_PREFIX @ r_name x, r)" by metis
  have "distinct (ring_list st)" using ok by (simp add: registry_ok_def)
  with free_ring_step [OF ok x] obtain st' where free: "rte_ring_free (Some r) st = Inr st'"
    and st': "memzone st' = (memzone st)[i := None]" "ring_at st' = (ring_at st)(r := None)"
      "ring_list st' = remove1 r (ring_list st)" "set (ring_list st') = set (ring_list st) - {r}" "distinct (ring_list st')"
      "memzone_cnt st' = memzone_cnt st - 1"
    by (auto simp del: fun_upd_apply)
  have at: "ring_at st' a = ring_at st a" if "a \<in> set (ring_list st')" for a using that st'(2,4) by auto
  have entry: "ring_entry_ok st' a" if a: "a \<in> set (ring_list st')" for a
  proof -
    from a st'(4) have a': "a \<in> set (ring_list st)" "a \<noteq> r" by auto
    from entryD [OF ok a'(1)] obtain y j where y: "ring_at st a = Some y" "length (r_name y) < RTE_RING_NAMESIZE" "r_zone y = Some j"
      "j < length (memzone st)" "memzone st ! j = Some (RTE_RING_MZ_PREFIX @ r_name y, a)" by metis
    with x a'(2) have "j \<noteq> i" by auto
    with y at [OF a] show ?thesis unfolding ring_entry_ok_def by (intro exI [of _ y] exI [of _ j]) (simp add: st'(1))
  qed
  have "inj_on (\<lambda>a. map_option r_name (ring_at st a)) (set (ring_list st'))"
    using ok unfolding registry_ok_def st'(4) by (blast intro: inj_on_subset)
  then have inj: "inj_on (\<lambda>a. map_option r_name (ring_at st' a)) (set (ring_list st'))"
    by (rule inj_on_cong [THEN iffD1, rotated]) (simp add: at)
  have "memzone_cnt st' = zones_used (memzone st')"
    using ok count_clear [OF x(3,4)] by (simp add: registry_ok_def st'(1,6))
  then have ok': "registry_ok st'" using ok entry inj st'(5) by (simp add: registry_ok_def st'(1))
  have "ring_names st' n = (if ring_names st n = Some r then None else ring_names st n)" for n
  proof (rule option_eq_by_Some)
    fix a
    have "ring_names st' n = Some a \<longleftrightarrow> a \<noteq> r \<and> ring_names st n = Some a"
      unfolding ring_names_iff [OF ok'] ring_names_iff [OF ok] st'(4) by (cases "a = r") (simp_all add: st'(2))
    then show "ring_names st' n = Some a \<longleftrightarrow> (if ring_names st n = Some r then None else ring_names st n) = Some a" by auto
  qed
  then have "ring_names st' = (\<lambda>n. if ring_names st n = Some r then None else ring_names st n)" by (rule ext)
  with free ok' st'(2) show ?thesis by blast
qed

lemma ring_names_inj: "registry_ok st \<Longrightarrow> ring_names st n = Some r \<Longrightarrow> ring_names st m = Some r \<Longrightarrow> m = n"
  unfolding ring_names_iff by simp

lemma free_by_name:
  assumes ok: "registry_ok st" and n: "ring_names st n = Some r"
  shows "\<exists>st'. rte_ring_free (Some r) st = Inr st' \<and> registry_ok st' \<and> ring_names st' = (ring_names st)(n := None)
    \<and> ring_at st' = (ring_at st)(r := None)"
proof -
  have "(\<lambda>m. if ring_names st m = Some r then None else ring_names st m) = (ring_names st)(n := None)"
    using ring_names_inj [OF ok n] n unfolding fun_upd_def by (intro ext if_cong) blast+
  moreover have "r \<in> set (ring_list st)" using n unfolding ring_names_iff [OF ok] ..
  ultimately show ?thesis using free_cases [OF ok, of r] by simp
qed

section \<open>Properties\<close>

text \<open>
  C20: The shared table of rings behaves as a finite map from names to rings.  Lookup returns what
  the map holds and sets ENOENT for a name that it does not hold; create, for any socket or none, enters
  a new name with a freshly initialised ring and leaves all other rings alone, or fails because one
  of its conditions does not hold and then changes nothing but the error number; free takes exactly the name of the
  ring out of the map.
\<close>

theorem ring_registry_is_a_map:
  assumes "registry_ok st" and "heap_ok heap"
  shows "(\<forall>name. rte_ring_lookup name st = Inr (ring_names st name, if ring_names st name = None then st\<lparr>rte_errno := ENOENT\<rparr> else st))
    \<and> (\<forall>header cells te_ok name count socket_id fl. SOCKET_ID_ANY \<le> socket_id \<longrightarrow> (case rte_ring_create heap header cells te_ok name count socket_id fl st of
        (None, st') \<Rightarrow> \<not> create_works heap header te_ok name count socket_id st \<and> (\<exists>e. st' = st\<lparr>rte_errno := e\<rparr>)
      | (Some r, st') \<Rightarrow> registry_ok st' \<and> ring_names st name = None \<and> ring_names st' = (ring_names st)(name \<mapsto> r)
          \<and> ring_at st' = (ring_at st)(r := ring_at st' r) \<and> map_option r_ring (ring_at st' r) = Some (snd (rte_ring_init name count fl cells))))
    \<and> (\<forall>name r. ring_names st name = Some r \<longrightarrow>
        (\<exists>st'. rte_ring_free (Some r) st = Inr st' \<and> registry_ok st' \<and> ring_names st' = (ring_names st)(name := None)
          \<and> ring_at st' = (ring_at st)(r := None)))"
proof (intro conjI allI impI)
  fix header cells te_ok name count socket_id fl
  show "case rte_ring_create heap header cells te_ok name count socket_id fl st of
        (None, st') \<Rightarrow> \<not> create_works heap header te_ok name count socket_id st \<and> (\<exists>e. st' = st\<lparr>rte_errno := e\<rparr>)
      | (Some r, st') \<Rightarrow> registry_ok st' \<and> ring_names st name = None \<and> ring_names st' = (ring_names st)(name \<mapsto> r)
          \<and> ring_at st' = (ring_at st)(r := ring_at st' r) \<and> map_option r_ring (ring_at st' r) = Some (snd (rte_ring_init name count fl cells))"
  proof (cases "create_works heap header te_ok name count socket_id st")
    case True
    from create_succeeds [OF assms(1) True, of cells fl] obtain r st' where
      "rte_ring_create heap header cells te_ok name count socket_id fl st = (Some r, st')" by metis
    with create_cases [OF assms this] show ?thesis by simp
  next
    case False
    with create_fails [OF assms(1) this, of cells fl] show ?thesis by auto
  qed
qed (simp_all only: lookup_eq [OF assms(1)] free_by_name [OF assms(1)])

definition bump_heap :: heap where
  "bump_heap socket_id used len = Some (Suc (Max (set (0 # used))))"

lemma bump_heap_ok: "heap_ok bump_heap"
  unfolding heap_ok_def bump_heap_def
proof (intro allI impI notI)
  fix socket_id used len a
  assume "Some (Suc (Max (set (0 # used)))) = Some a" "a \<in> set used"
  then have "a \<le> Max (set (0 # used))" "a = Suc (Max (set (0 # used)))" by auto
  then show False by linarith
qed

lemma ring_registry_is_a_map_witness:
  "(\<exists>r st'. rte_ring_create bump_heap 384 [0, 0, 0, 0 :: nat] True ''packets'' 4 (- 1) 0 ring_sys_init = (Some r, st')
     \<and> ring_names st' = [''packets'' \<mapsto> r] \<and> map_option r_ring (ring_at st' r) = Some (snd (rte_ring_init ''packets'' 4 0 [0, 0, 0, 0])))"
proof -
  have "create_works bump_heap 384 True ''packets'' 4 (- 1) ring_sys_init"
    by (auto simp: create_works_def rte_ring_get_memsize_def RTE_RING_SZ_MASK_def RTE_MEMZONE_NAMESIZE_def RTE_MAX_MEMZONE_def
        ring_sys_init_def memzone_lookup_None bump_heap_def SOCKET_ID_ANY_def)
  from create_succeeds [OF registry_init this, of "[0, 0, 0, 0 :: nat]" 0] obtain r and st' :: "nat ring_sys" where
    "rte_ring_create bump_heap 384 [0, 0, 0, 0] True ''packets'' 4 (- 1) 0 ring_sys_init = (Some r, st')" by metis
  with ring_registry_is_a_map [OF registry_init bump_heap_ok, THEN conjunct2, THEN conjunct1, THEN spec [of _ 384],
      THEN spec [of _ "[0, 0, 0, 0 :: nat]"], THEN spec [of _ True], THEN spec [of _ "''packets''"], THEN spec [of _ 4], THEN spec [of _ "- 1"], THEN spec [of _ 0]]
  show ?thesis by (simp add: ring_names_init SOCKET_ID_ANY_def)
qed

end
