(* ===== verification/Spec2Isabelle.thy ===== *)
theory Spec2Isabelle imports AppAlloc PktRouter PcdBoot PcdInclude PcdNet PcdFind PcdTimeout PcdChildSafe PcdCrash PcdToolOk RingConcSeq RingReg begin

text \<open>
  A verification library for the cyber platform: its application manager and its dispatcher, two
  DPDK programs, the two small libraries they share, the ring buffer through which they hand packets
  to each other, and the process control daemon that starts and supervises them.

  \<^bold>\<open>The program.\<close>
  The application manager (\<open>apps/app_manager\<close>) reads \<open>config/app_manager.json\<close>, starts DPDK as the
  primary process, and creates the packet pools, rings and ring groups that the configuration names.
  The dispatcher (\<open>apps/dispatcher\<close>) reads its own configuration, starts DPDK as a secondary
  process, looks those resources up, opens the network interfaces and runs one packet router per
  core.  Both keep their configuration in the intrusive lists of \<open>common/llist\<close> and report through
  \<open>common/log\<close>.  The process control daemon (\<open>apps/space-pcd-master\<close>, PCD) keeps a database of rules;
  a timer moves each rule through its start and end conditions, the process module forks, signals
  and removes the processes, and clients send requests over a message library (\<open>ipc\<close>) that keeps a
  table of destination points in shared memory.

  \<^bold>\<open>How code becomes definitions.\<close>
  A C function is a HOL function of the same name on explicit state; a helper that stands for a loop
  or for one branch of a function has a name of its own.  Its result is a \<open>run\<close> (theory \<open>Prelude\<close>):
  \<open>Inr\<close> when control returns, \<open>Inl\<close> when it does not: a NULL dereference, an access outside an
  object, an access to freed memory, an uninitialised read, an endless loop, or \<open>exit\<close>.  Integers
  have their C width where it matters.  Log texts appear only in \<open>Logger\<close>, and what only a log message
  reads (the pid in the messages of \<open>PCD_process_enqueue\<close> and \<open>PCD_timer_handle_end_condition\<close>) is not
  read in the model; \<open>malloc\<close> succeeds unless a definition has a parameter for it.

  \<^bold>\<open>Common libraries.\<close>
  \<^item> \<open>LList\<close>: \<open>common/llist/llist.c\<close>, the whole list library over a memory of nodes; the loops over
    \<open>next\<close> pointers are partial functions, because a corrupted list may be cyclic.  The abstraction
    \<open>dll\<close> relates a list header to a sequence of addresses; every operation refines the one on
    sequences, and loops end on well-formed lists.  The locales \<open>node_list\<close> and \<open>iter_list\<close> are the
    interface that the configuration stores rely on.
  \<^item> \<open>Logger\<close>: \<open>common/log/log.c\<close>, two files and the routing of messages by level.
  \<^item> \<open>Json\<close>: the part of the json-c object model that the parsers use, and the programs'
    own loop that reads a file into memory before it is parsed.

  \<^bold>\<open>Application manager.\<close>
  \<^item> \<open>ConfStore\<close>: how a parsed element gets its list node; \<open>AppConf\<close>: \<open>app_conf.c\<close>, field by field, and
    the refinement of \<open>APP_CONF_parse_file\<close> by a decoder from JSON to a configuration.
  \<^item> \<open>Dpdk\<close>: the DPDK functions that are called, as a record of functions over an abstract device.
  \<^item> \<open>AppAlloc\<close>: \<open>allocator.c\<close> and \<open>main.c\<close>; creation of all resources refines a fold over the decoded
    configuration, the command line for DPDK contains the decoded options.

  \<^bold>\<open>Dispatcher.\<close>
  \<^item> \<open>DispConf\<close>, \<open>DispAlloc\<close>: \<open>app_conf.c\<close> and \<open>allocator.c\<close> of the dispatcher, with their fixed-size arrays
    and what happens beyond their bounds; \<open>PktRouter\<close>: \<open>pkt_router.c\<close> and \<open>main.c\<close>, the recognition of
    IP frames, the start of interfaces and the polling loop, a partial function as it never ends.
  \<^item> \<open>RteRing\<close>: \<open>lib/librte_ring\<close> of the vendored DPDK, for one caller at a time, with free-running
    32-bit indices; the locale \<open>fifo_ring\<close> is the queue interface and the ring an instance of it.
  \<^item> \<open>RingConc\<close>: the multi-producer and multi-consumer operations of the same file for any number of
    lcores, as steps that may interleave, each of them one access to the shared ring (a read of an
    index, the \<open>cmpset\<close> of a head, the copy of an object, a pass of the waiting loop); a history that no
    step reads counts without wrap-around.  Accesses take effect in the order of the steps, and the head
    does not go round 32 bits between a thread's read and its \<open>cmpset\<close> (\<open>in_time\<close>).  \<open>RingConcOk\<close>: the
    invariant; \<open>RingConcSafe\<close>: first in first out under every interleaving, the agreement with \<open>RteRing\<close>
    at rest, progress and blocking of the waiting loops; \<open>RingConcSeq\<close>: an undisturbed call is the one
    of \<open>RteRing\<close>, and schedules on a concrete ring.
  \<^item> \<open>RingReg\<close>: \<open>rte_ring_create\<close>, \<open>rte_ring_lookup\<close> and \<open>rte_ring_free\<close> with the table of memory zones
    below them (\<open>eal_common_memzone.c\<close>), by which the two processes share rings; the table is a finite
    map from names to rings.  The heap behind the zones is a parameter that never hands out a block in
    use and chooses a heap for a socket.

  \<^bold>\<open>Process control daemon\<close> (\<open>pcd/src\<close>).
  \<^item> \<open>PcdTypes\<close>: the headers and the state \<open>pcd\<close>, which collects the file-scope variables of all modules.
    Process and timer objects are entries of partial maps, and freeing removes the entry.
  \<^item> \<open>RulesDb\<close>: \<open>rules_db.c\<close>, as a finite map.  The recursion of \<open>PCD_rulesdb_get_rule_by_id\<close> has fuel 2:
    the second call finds the rule that the first has inserted (\<open>get_rule_template\<close>).
  \<^item> \<open>Process\<close>, \<open>ProcessStop\<close>: \<open>process.c\<close>; \<open>CondChk\<close>: \<open>condchk.c\<close> and \<open>failact.c\<close>; \<open>Timer\<close>: \<open>timer.c\<close> and
    \<open>PCD_rulesdb_activate\<close>.  \<open>stop_walk\<close> is a partial function, since its retry branch may come back
    to the same node.
  \<^item> \<open>PcdApi\<close>: \<open>pcd_api.c\<close> and \<open>misc.c\<close>, at most five messages per iteration; \<open>PcdMain\<close>: \<open>main.c\<close>, and the
    reachable states under any messages, answers of the system and ends of children.
  \<^item> \<open>CStrings\<close>: the functions of the C library on text; \<open>PcdParser\<close>: \<open>parser.c\<close>, the reader of the rules
    file.  Its fuel is the nesting depth of included files; \<open>PcdInclude\<close> shows which depth is enough, and
    that the result of an included file is lost.
  \<^item> \<open>PcdParserOk\<close>: every handler keeps the parser's invariant (the status word holds an initial part of
    the mandatory keywords, the database is well-formed).  \<open>PcdParserSpec\<close>: a reference on statements
    without the status word, and that the parser equals it.  \<open>PcdRulesFile\<close>, \<open>PcdRoundTrip\<close>: rules
    printed in the syntax of the file, and that parsing them is the inverse.  \<open>PcdShipped\<close>: what
    \<open>config/system.pcd\<close> means.
  \<^item> \<open>PcdBoot\<close>: \<open>main\<close>, and the composition of parser, activation and main loop.
  \<^item> \<open>PcdInv\<close>, \<open>PcdOps\<close>, \<open>PcdSafe\<close>: the invariant, its preservation by every operation, and that an
    iteration of the main loop always returns.
  \<^item> \<open>PcdTimes\<close>, \<open>PcdTimeout\<close>: how many passes a timeout lasts, and a rule that waits among others until
    it is given up; \<open>node_frame\<close> is what the check of one rule leaves of all others.  \<open>PcdLife\<close>: the
    escalation to SIGKILL, when a synchronous termination is answered, and the consequences of a
    failing \<open>fork\<close> and of instances of indexed rules.
  \<^item> \<open>PcdFind\<close>: the search for a process by its name, and the reboot request.
  \<^item> \<open>PcdChild\<close>: what the forked child does between \<open>fork\<close> and \<open>execvp\<close>, with the buffers in which the
    variables of the parameters are expanded; \<open>PcdChildArgs\<close>, \<open>PcdChildSafe\<close>: which arguments the
    program gets, and when the buffers overflow.
  \<^item> \<open>PcdErrlog\<close>: \<open>errlog.c\<close>, the file that keeps its newest part.  \<open>PcdExcept\<close>: \<open>except.c\<close>, with the handler
    that runs in the crashing process and the reports of the daemon, for the platform of the shipped
    configuration, which has no register dump; \<open>PcdCrash\<close>: the way of a record from the handler over the
    FIFO to the console, and what happens to records that do not arrive in one piece.
  \<^item> \<open>PcdTool\<close>: the offline tool (\<open>pcd/src/parser/src\<close>) with its header file and graph writers;
    \<open>PcdToolOk\<close>: what the generated header defines.

  \<^bold>\<open>Messages between the daemon and its clients\<close> (\<open>ipc/src\<close>, \<open>pcd/src/pcdapi\<close>).
  \<^item> \<open>Ipc\<close>: \<open>ipc.c\<close>, as one process sees it: the shared table, the sockets and socket files of the system,
    and its own messages.  \<open>IpcOk\<close>: what every call keeps; \<open>IpcNet\<close>: the effect of each call where nothing
    goes wrong; \<open>IpcSys\<close>: all processes together, as an inductive set of reachable states.
  \<^item> \<open>PcdClient\<close>: the requests of \<open>pcdapi.c\<close>; \<open>PcdLink\<close>: the daemon's destination point and the message loop
    of \<open>pcd_api.c\<close> with the real calls.  The layout of the message bodies is a parameter with the laws
    \<open>layout_ok\<close>.  What the rest of the system does while a client waits is a list of rounds, one for
    each wait; when the list is used up the client still waits.
  \<^item> \<open>PcdServe\<close>: the loop with the real calls refines the loop of \<open>PcdApi\<close>.  \<open>PcdCall\<close>: the client side
    in the locale \<open>service\<close>, for any service that answers, and the daemon as an instance of it.
    \<open>PcdNet\<close>: the properties of the connection, and what goes wrong.

  \<^bold>\<open>Not modelled.\<close>
  The rest of DPDK and json-c are third-party libraries and parameters.  The dumps and the statistics
  of the ring only print or count, and the kconfig scripts of PCD are a vendored build tool.  Of the
  daemon: the installation of its signal handlers and its signal masks, its own scheduling priority,
  an \<open>execvp\<close> that fails (it only ends the child), and the call of \<open>PCD_exception_listen\<close> from inside the
  main loop, which is modelled on its own in \<open>PcdExcept\<close>, and the register dumps of other platforms.  Concurrency is modelled where the program
  handles it as a sequence of steps: the lcores on one ring, SIGCHLD between two iterations of the
  daemon, and calls of the message library by different processes; memory orders weaker than the
  program order of each thread are not.
\<close>

end
